(* ===== verification/Prelude.thy ===== *)
theory Prelude
  imports Main "HOL-Library.AList" "HOL-Library.List_Lexorder" "HOL-Library.Char_ord"
    "HOL-Library.Product_Lexorder" "HOL-Library.Option_ord"
begin

text \<open>
  Shared vocabulary of the development: Python strings, dictionaries, selections by key and
  errors.  A string is the list of the bytes of its UTF-8 encoding, a dictionary is an
  association list in insertion order (\<open>AList.update\<close> overwrites in place and appends a new
  key at the end, as a Python \<open>dict\<close> does), a raised exception is the \<open>Inl\<close> side of
  \<open>'a result\<close>.
\<close>

named_theorems dict_simps \<open>lookup, keys and values of dictionaries after an update\<close>

subsection \<open>Errors\<close>

text \<open>
  The exception classes the modelled code raises.  Texts that only explain an error to a
  person are left out; texts that the program stores are kept where they are stored.
\<close>

datatype py_error =
    KeyError | ValueError | TypeError | IntegrityError | NoResultFound
  | UnknownSecurityError | UnsupportedCapability | MissingCredentialError
  | RateLimitTimeout | RateLimitError | SourceError | NetworkError | ResponseParseError
  | HTTPError int | OtherError string string

type_synonym 'a result = "py_error + 'a"

abbreviation bind_result :: "'a result \<Rightarrow> ('a \<Rightarrow> 'b result) \<Rightarrow> 'b result" where
  "bind_result r f \<equiv> (case r of Inl e \<Rightarrow> Inl e | Inr x \<Rightarrow> f x)"

subsection \<open>Dictionaries\<close>

type_synonym ('k, 'v) dict = "('k \<times> 'v) list"

abbreviation dict_keys :: "('k, 'v) dict \<Rightarrow> 'k list" where
  "dict_keys d \<equiv> map fst d"

abbreviation dict_values :: "('k, 'v) dict \<Rightarrow> 'v list" where
  "dict_values d \<equiv> map snd d"

lemma map_of_update [dict_simps, simp]: "map_of (AList.update k v d) = (map_of d)(k \<mapsto> v)"
  by (rule update_conv')

lemma map_of_delete [dict_simps, simp]: "map_of (AList.delete k d) = (map_of d)(k := None)"
  by (rule delete_conv')

lemma keys_update_in [dict_simps]: "k \<in> set (dict_keys d) \<Longrightarrow> dict_keys (AList.update k v d) = dict_keys d"
  by (induction d) auto

lemma update_new [dict_simps]: "k \<notin> set (dict_keys d) \<Longrightarrow> AList.update k v d = d @ [(k, v)]"
  by (induction d) auto

lemma update_in_map:
  "distinct (dict_keys d) \<Longrightarrow> k \<in> set (dict_keys d) \<Longrightarrow>
    AList.update k v d = map (\<lambda>(k', w). if k' = k then (k, v) else (k', w)) d"
proof (induction d)
  case Nil
  then show ?case by simp
next
  case (Cons p d)
  obtain k' w where p: "p = (k', w)" by (cases p)
  show ?case
  proof (cases "k' = k")
    case True
    with Cons.prems p have "k \<notin> fst ` set d" by auto
    then have "map (\<lambda>(k', w). if k' = k then (k, v) else (k', w)) d = d"
      by (intro map_idI) force
    with True p show ?thesis by simp
  next
    case False
    with Cons p show ?thesis by simp
  qed
qed

lemma set_update_in:
  "distinct (dict_keys d) \<Longrightarrow> set (AList.update k v d) = insert (k, v) {p \<in> set d. fst p \<noteq> k}"
proof (induction d)
  case Nil
  then show ?case by simp
next
  case (Cons p d)
  obtain k' w where p: "p = (k', w)" by (cases p)
  with Cons.prems have "k' \<notin> fst ` set d" by simp
  then have "{q \<in> set d. fst q \<noteq> k'} = set d" by force
  with Cons p show ?case by auto
qed

lemma values_update_in:
  "distinct (dict_keys d) \<Longrightarrow>
    x \<in> set (dict_values (AList.update k v d)) \<longleftrightarrow> x = v \<or> (\<exists>k'. k' \<noteq> k \<and> (k', x) \<in> set d)"
  by (simp add: set_update_in image_iff) (metis fst_conv prod.collapse snd_conv)

lemma map_of_key_in: "map_of d k = Some v \<Longrightarrow> k \<in> set (dict_keys d)"
  by (force dest: map_of_SomeD)

subsection \<open>Selections by key\<close>

text \<open>
  Python's \<open>max(xs, key=f)\<close> and \<open>min(xs, key=f)\<close> scan from the left and replace the best
  element only by a strictly better one, so the first of equally good elements wins.
\<close>

fun max_by :: "('a \<Rightarrow> 'k::linorder) \<Rightarrow> 'a list \<Rightarrow> 'a option" where
  "max_by f [] = None"
| "max_by f (x # xs) = Some (foldl (\<lambda>best y. if f best < f y then y else best) x xs)"

fun min_by :: "('a \<Rightarrow> 'k::linorder) \<Rightarrow> 'a list \<Rightarrow> 'a option" where
  "min_by f [] = None"
| "min_by f (x # xs) = Some (foldl (\<lambda>best y. if f y < f best then y else best) x xs)"

lemma foldl_max_in: "foldl (\<lambda>b y. if f b < f y then y else b) x xs \<in> insert x (set xs)"
  by (induction xs arbitrary: x) (auto split: if_splits)

lemma foldl_max_ge:
  fixes f :: "'a \<Rightarrow> 'k::linorder"
  shows "\<forall>y \<in> insert x (set xs). f y \<le> f (foldl (\<lambda>b y. if f b < f y then y else b) x xs)"
proof (induction xs arbitrary: x)
  case Nil
  then show ?case by simp
next
  case (Cons z xs)
  let ?b = "if f x < f z then z else x"
  have "f x \<le> f ?b" "f z \<le> f ?b" by auto
  then show ?case using Cons.IH [of ?b] by (auto intro: order_trans)
qed

lemma foldl_min_in: "foldl (\<lambda>b y. if f y < f b then y else b) x xs \<in> insert x (set xs)"
  by (induction xs arbitrary: x) (auto split: if_splits)

lemma foldl_min_le:
  fixes f :: "'a \<Rightarrow> 'k::linorder"
  shows "\<forall>y \<in> insert x (set xs). f (foldl (\<lambda>b y. if f y < f b then y else b) x xs) \<le> f y"
proof (induction xs arbitrary: x)
  case Nil
  then show ?case by simp
next
  case (Cons z xs)
  let ?b = "if f z < f x then z else x"
  have "f ?b \<le> f x" "f ?b \<le> f z" by auto
  then show ?case using Cons.IH [of ?b] by (auto intro: order_trans)
qed

lemma max_by_None [simp]: "max_by f xs = None \<longleftrightarrow> xs = []"
  by (cases xs) auto

lemma min_by_None [simp]: "min_by f xs = None \<longleftrightarrow> xs = []"
  by (cases xs) auto

lemma max_by_Some:
  assumes "max_by f xs = Some m"
  shows "m \<in> set xs" and "\<And>y. y \<in> set xs \<Longrightarrow> f y \<le> f m"
  using assms foldl_max_in [of f "hd xs" "tl xs"] foldl_max_ge [of "hd xs" "tl xs" f]
  by (cases xs; force)+

lemma min_by_Some:
  assumes "min_by f xs = Some m"
  shows "m \<in> set xs" and "\<And>y. y \<in> set xs \<Longrightarrow> f m \<le> f y"
  using assms foldl_min_in [of f "hd xs" "tl xs"] foldl_min_le [of "hd xs" "tl xs" f]
  by (cases xs; force)+

lemma max_by_unique:
  assumes "m \<in> set xs" and "\<And>y. y \<in> set xs \<Longrightarrow> y \<noteq> m \<Longrightarrow> f y < f m"
  shows "max_by f xs = Some m"
proof -
  from assms(1) obtain m' where m': "max_by f xs = Some m'"
    using max_by_None [of f xs] by (cases "max_by f xs") auto
  have "\<not> f m' < f m" using max_by_Some(2) [OF m' assms(1)] by (simp add: not_less)
  then have "m' = m" using assms(2) max_by_Some(1) [OF m'] by blast
  with m' show ?thesis by simp
qed

text \<open>\<open>sorted(xs, key=f)[0]\<close>: HOL's \<open>sort_key\<close> is stable, as Python's sort is.\<close>

lemma sort_key_hd:
  fixes f :: "'a \<Rightarrow> 'k::linorder"
  assumes "sort_key f xs = x # ys"
  shows "x \<in> set xs" and "\<And>y. y \<in> set xs \<Longrightarrow> f x \<le> f y"
proof -
  show "x \<in> set xs" using assms by (metis list.set_intros(1) set_sort)
  show "f x \<le> f y" if "y \<in> set xs" for y
  proof -
    have "sorted (map f (x # ys))" using assms sorted_sort_key [of f xs] by simp
    moreover have "y \<in> insert x (set ys)" using that assms
      by (metis list.simps(15) set_sort)
    ultimately show ?thesis by auto
  qed
qed

lemma sort_key_Nil [simp]: "sort_key f xs = [] \<longleftrightarrow> xs = []"
  by (metis length_0_conv length_sort)

subsection \<open>Strings\<close>

fun starts_with :: "string \<Rightarrow> string \<Rightarrow> bool" where
  "starts_with p [] = (p = [])"
| "starts_with [] (c # cs) = True"
| "starts_with (d # ds) (c # cs) = (d = c \<and> starts_with ds cs)"

lemma starts_with_iff: "starts_with p s \<longleftrightarrow> (\<exists>r. s = p @ r)"
  by (induction p s rule: starts_with.induct) auto

lemma starts_with_Nil [simp]: "starts_with [] s"
  by (cases s) auto

lemma starts_with_append [simp]: "starts_with p (p @ r)"
  by (simp add: starts_with_iff)

fun ends_with :: "string \<Rightarrow> string \<Rightarrow> bool" where
  "ends_with p s = starts_with (rev p) (rev s)"

definition is_digit :: "char \<Rightarrow> bool" where
  "is_digit c \<longleftrightarrow> 48 \<le> (of_char c :: nat) \<and> (of_char c :: nat) \<le> 57"

definition is_space :: "char \<Rightarrow> bool" where
  "is_space c \<longleftrightarrow> c \<in> {CHR '' '', CHR 0x09, CHR 0x0A, CHR 0x0B, CHR 0x0C, CHR 0x0D,
     CHR 0x1C, CHR 0x1D, CHR 0x1E, CHR 0x1F}"

definition strip :: "string \<Rightarrow> string" where
  "strip s = rev (dropWhile is_space (rev (dropWhile is_space s)))"

definition upper_char :: "char \<Rightarrow> char" where
  "upper_char c = (let n = (of_char c :: nat) in if 97 \<le> n \<and> n \<le> 122 then char_of (n - 32) else c)"

definition lower_char :: "char \<Rightarrow> char" where
  "lower_char c = (let n = (of_char c :: nat) in if 65 \<le> n \<and> n \<le> 90 then char_of (n + 32) else c)"

definition upper :: "string \<Rightarrow> string" where "upper s = map upper_char s"

definition lower :: "string \<Rightarrow> string" where "lower s = map lower_char s"

text \<open>
  SQL's LIKE with its wildcards, as the two databases read it: SQLite ignores the case of ASCII letters and has
  no escape character by default; PostgreSQL compares characters, and a backslash makes the next one literal.
\<close>

datatype dialect = SQLite | PostgreSQL

fun like_char :: "dialect \<Rightarrow> char \<Rightarrow> char \<Rightarrow> bool" where
  "like_char SQLite p c = (lower_char p = lower_char c)"
| "like_char PostgreSQL p c = (p = c)"

fun like :: "dialect \<Rightarrow> string \<Rightarrow> string \<Rightarrow> bool" where
  "like d [] s = (s = [])"
| "like d (p # ps) [] = (p = CHR ''%'' \<and> like d ps [])"
| "like d (p # ps) (c # cs) =
     (if p = CHR ''%'' then like d ps (c # cs) \<or> like d (p # ps) cs
      else if p = CHR 0x5C \<and> d = PostgreSQL then (case ps of [] \<Rightarrow> False | q # qs \<Rightarrow> q = c \<and> like d qs cs)
      else (p = CHR ''_'' \<or> like_char d p c) \<and> like d ps cs)"

text \<open>\<open>str(n)\<close> of a natural number, and \<open>str.join\<close>.\<close>

definition digit_char :: "nat \<Rightarrow> char" where
  "digit_char d = char_of (48 + d)"

fun nat_str :: "nat \<Rightarrow> string" where
  "nat_str n = (if n < 10 then [digit_char n] else nat_str (n div 10) @ [digit_char (n mod 10)])"

declare nat_str.simps [simp del]

fun int_str :: "int \<Rightarrow> string" where
  "int_str i = (if i < 0 then CHR ''-'' # nat_str (nat (- i)) else nat_str (nat i))"

fun join :: "string \<Rightarrow> string list \<Rightarrow> string" where
  "join sep [] = []"
| "join sep [x] = x"
| "join sep (x # y # ys) = x @ sep @ join sep (y # ys)"

text \<open>\<open>s.rpartition(c)\<close>: split at the last occurrence; \<open>None\<close> when there is none.\<close>

definition rpartition :: "char \<Rightarrow> string \<Rightarrow> (string \<times> string) option" where
  "rpartition c s = (if c \<in> set s then
     Some (rev (tl (dropWhile (\<lambda>x. x \<noteq> c) (rev s))), rev (takeWhile (\<lambda>x. x \<noteq> c) (rev s)))
   else None)"

definition partition_first :: "char \<Rightarrow> string \<Rightarrow> (string \<times> string) option" where
  "partition_first c s = (if c \<in> set s then
     Some (takeWhile (\<lambda>x. x \<noteq> c) s, tl (dropWhile (\<lambda>x. x \<noteq> c) s))
   else None)"

lemma of_char_digit [simp]: "d < 10 \<Longrightarrow> (of_char (digit_char d) :: nat) = 48 + d"
  by (simp add: digit_char_def)

lemma is_digit_digit_char [simp]: "d < 10 \<Longrightarrow> is_digit (digit_char d)"
  by (simp add: is_digit_def)

lemma digit_char_inj: "a < 10 \<Longrightarrow> b < 10 \<Longrightarrow> digit_char a = digit_char b \<Longrightarrow> a = b"
  by (metis add_left_cancel of_char_digit)

lemma nat_str_digits: "c \<in> set (nat_str n) \<Longrightarrow> is_digit c"
proof (induction n rule: nat_str.induct)
  case (1 n)
  then show ?case by (subst (asm) (2) nat_str.simps) (auto split: if_splits)
qed

lemma nat_str_nonempty [simp]: "nat_str n \<noteq> []"
  by (subst nat_str.simps) simp

text \<open>Decimal reading of a digit string, the inverse of \<open>nat_str\<close>.\<close>

definition digits_val :: "string \<Rightarrow> nat" where
  "digits_val s = foldl (\<lambda>n c. 10 * n + ((of_char c :: nat) - 48)) 0 s"

lemma digits_val_nat_str [simp]: "digits_val (nat_str n) = n"
proof (induction n rule: nat_str.induct)
  case (1 n)
  then show ?case by (subst nat_str.simps) (auto simp: digits_val_def)
qed

lemma nat_str_inj [simp]: "nat_str a = nat_str b \<longleftrightarrow> a = b"
  by (metis digits_val_nat_str)

text \<open>Two strings that agree up to the first separator agree before and after it.\<close>

lemma sep_split:
  assumes "xs @ c # ys = xs' @ c # ys'" and "c \<notin> set xs" and "c \<notin> set xs'"
  shows "xs = xs' \<and> ys = ys'"
proof (use assms in \<open>induction xs arbitrary: xs'\<close>)
  case Nil
  then show ?case by (cases xs') auto
next
  case (Cons a xs)
  then show ?case by (cases xs') auto
qed

lemma strip_id: "\<forall>c \<in> set s. \<not> is_space c \<Longrightarrow> strip s = s"
  by (simp add: strip_def dropWhile_eq_self_iff) (metis hd_in_set set_rev rev_is_Nil_conv rev_rev_ident dropWhile_eq_self_iff)

lemma digit_not_space: "is_digit c \<Longrightarrow> \<not> is_space c"
  by (auto simp: is_digit_def is_space_def)

lemma rpartition_append: "c \<notin> set v \<Longrightarrow> rpartition c (s @ c # v) = Some (s, v)"
  by (auto simp: rpartition_def takeWhile_append dropWhile_append)

end
