(* ===== verification/PyDates.thy ===== *)
theory PyDates
  imports Prelude
begin

text \<open>
  Python's \<open>date\<close> and naive \<open>datetime\<close> values.  A date is its proleptic Gregorian ordinal
  (day 1 is 0001-01-01), a naive UTC timestamp is the number of microseconds since the start of
  day 0, so that \<open>t.date()\<close> is a division and \<open>timedelta\<close> arithmetic is addition.  The calendar
  fields are computed as \<open>date.toordinal\<close> and \<open>date.fromordinal\<close> of the standard library do;
  \<open>isoformat\<close> of different dates differs, which the keys of the program rely on.
\<close>

type_synonym date = int
type_synonym time = int

definition us_per_second :: int where "us_per_second = 1000000"

definition us_per_day :: int where "us_per_day = 86400 * us_per_second"

text \<open>\<open>t.date()\<close>, the microseconds of \<open>t.time()\<close>, and midnight of a date.\<close>

definition dt_date :: "time \<Rightarrow> date" where "dt_date t = t div us_per_day"

definition dt_time :: "time \<Rightarrow> int" where "dt_time t = t mod us_per_day"

definition dt_combine :: "date \<Rightarrow> int \<Rightarrow> time" where "dt_combine d us = d * us_per_day + us"

definition seconds :: "int \<Rightarrow> int" where "seconds s = s * us_per_second"

lemma us_per_day_pos [simp]: "0 < us_per_day"
  by (simp add: us_per_day_def us_per_second_def)

lemma dt_date_combine [simp]: "0 \<le> us \<Longrightarrow> us < us_per_day \<Longrightarrow> dt_date (dt_combine d us) = d"
  by (simp add: dt_date_def dt_combine_def)

lemma dt_time_combine [simp]: "0 \<le> us \<Longrightarrow> us < us_per_day \<Longrightarrow> dt_time (dt_combine d us) = us"
  by (simp add: dt_time_def dt_combine_def)

lemma dt_date_mono: "s \<le> t \<Longrightarrow> dt_date s \<le> dt_date t"
  by (simp add: dt_date_def zdiv_mono1)

subsection \<open>Calendar fields\<close>

definition is_leap :: "nat \<Rightarrow> bool" where
  "is_leap y \<longleftrightarrow> y mod 4 = 0 \<and> (y mod 100 \<noteq> 0 \<or> y mod 400 = 0)"

definition days_before_year :: "nat \<Rightarrow> nat" where
  "days_before_year y = (let y' = y - 1 in y' * 365 + y' div 4 - y' div 100 + y' div 400)"

definition days_before_month :: "bool \<Rightarrow> nat \<Rightarrow> nat" where
  "days_before_month leap m =
     [0, 0, 31, 59, 90, 120, 151, 181, 212, 243, 273, 304, 334] ! m + (if 2 < m \<and> leap then 1 else 0)"

definition ymd2ord :: "nat \<times> nat \<times> nat \<Rightarrow> nat" where
  "ymd2ord = (\<lambda>(y, m, d). days_before_year y + days_before_month (is_leap y) m + d)"

definition month_day :: "bool \<Rightarrow> nat \<Rightarrow> nat \<times> nat" where
  "month_day leap n =
     (let m = (n + 50) div 32; p = days_before_month leap m
      in if n < p then (m - 1, n - days_before_month leap (m - 1) + 1) else (m, n - p + 1))"

definition ord2ymd :: "nat \<Rightarrow> nat \<times> nat \<times> nat" where
  "ord2ymd n =
     (let n0 = n - 1; a = n0 div 146097; r1 = n0 mod 146097;
          b = r1 div 36524; r2 = r1 mod 36524;
          c = r2 div 1461; r3 = r2 mod 1461;
          e = r3 div 365; r4 = r3 mod 365;
          y = 400 * a + 100 * b + 4 * c + e + 1
      in if e = 4 \<or> b = 4 then (y - 1, 12, 31)
         else let (m, d) = month_day (e = 3 \<and> (c \<noteq> 24 \<or> b = 3)) r4 in (y, m, d))"

lemma month_day_inverse:
  assumes "n < 365" and "month_day leap n = (m, d)"
  shows "days_before_month leap m + d = n + 1"
proof -
  define k where "k = (n + 50) div 32"
  have k: "32 * k \<le> n + 50" "n + 50 < 32 * k + 32" unfolding k_def by linarith+
  with assms(1) have "1 \<le> k" "k \<le> 12" by linarith+
  then have "k = 1 \<or> k = 2 \<or> k = 3 \<or> k = 4 \<or> k = 5 \<or> k = 6 \<or> k = 7 \<or> k = 8 \<or> k = 9
      \<or> k = 10 \<or> k = 11 \<or> k = 12" by presburger
  with k assms(1) assms(2) [unfolded month_day_def, folded k_def] show ?thesis
    by (elim disjE; cases leap) (auto simp: days_before_month_def Let_def split: if_splits)
qed

lemma mod_0_small:
  fixes x m :: nat
  assumes "0 < x" and "x \<le> m"
  shows "x mod m = 0 \<longleftrightarrow> x = m"
  using assms by (cases "x = m") auto

lemma year_start:
  assumes "b \<le> 3" and "c \<le> 24" and "e \<le> (3::nat)"
  shows "days_before_year (400 * a + 100 * b + 4 * c + e + 1) = 146097 * a + 36524 * b + 1461 * c + 365 * e"
    and "is_leap (400 * a + 100 * b + 4 * c + e + 1) \<longleftrightarrow> e = 3 \<and> (c \<noteq> 24 \<or> b = 3)"
proof -
  let ?y = "400 * a + 100 * b + 4 * c + e"
  have "?y div 4 = 100 * a + 25 * b + c" using assms by (intro div_nat_eqI) auto
  moreover have "?y div 100 = 4 * a + b" using assms by (intro div_nat_eqI) auto
  moreover have "?y div 400 = a" using assms by (intro div_nat_eqI) auto
  ultimately show "days_before_year (?y + 1) = 146097 * a + 36524 * b + 1461 * c + 365 * e"
    using assms by (simp add: days_before_year_def Let_def algebra_simps)
  have "?y + 1 = (e + 1) + (100 * a + 25 * b + c) * 4" "?y + 1 = (4 * c + e + 1) + (4 * a + b) * 100"
    "?y + 1 = (100 * b + 4 * c + e + 1) + a * 400" by simp_all
  then have "(?y + 1) mod 4 = (e + 1) mod 4" "(?y + 1) mod 100 = (4 * c + e + 1) mod 100"
    "(?y + 1) mod 400 = (100 * b + 4 * c + e + 1) mod 400" by (metis mod_mult_self1)+
  moreover have "(e + 1) mod 4 = 0 \<longleftrightarrow> e + 1 = 4" using assms by (intro mod_0_small) auto
  moreover have "(4 * c + e + 1) mod 100 = 0 \<longleftrightarrow> 4 * c + e + 1 = 100"
    using assms by (intro mod_0_small) auto
  moreover have "(100 * b + 4 * c + e + 1) mod 400 = 0 \<longleftrightarrow> 100 * b + 4 * c + e + 1 = 400"
    using assms by (intro mod_0_small) auto
  ultimately have "(?y + 1) mod 4 = 0 \<longleftrightarrow> e + 1 = 4" "(?y + 1) mod 100 = 0 \<longleftrightarrow> 4 * c + e + 1 = 100"
    "(?y + 1) mod 400 = 0 \<longleftrightarrow> 100 * b + 4 * c + e + 1 = 400" by simp_all
  then have "is_leap (?y + 1) \<longleftrightarrow> e + 1 = 4 \<and> (4 * c + e + 1 \<noteq> 100 \<or> 100 * b + 4 * c + e + 1 = 400)"
    by (simp only: is_leap_def)
  then show "is_leap (?y + 1) \<longleftrightarrow> e = 3 \<and> (c \<noteq> 24 \<or> b = 3)"
    using assms by auto
qed

lemma ymd2ord_ord2ymd:
  assumes "1 \<le> n"
  shows "ymd2ord (ord2ymd n) = n"
proof -
  define a r1 b r2 c r3 e r4 where defs: "a = (n - 1) div 146097" "r1 = (n - 1) mod 146097"
    "b = r1 div 36524" "r2 = r1 mod 36524" "c = r2 div 1461" "r3 = r2 mod 1461"
    "e = r3 div 365" "r4 = r3 mod 365"
  have ord: "ord2ymd n = (if e = 4 \<or> b = 4 then (400 * a + 100 * b + 4 * c + e + 1 - 1, 12, 31)
      else let (m, d) = month_day (e = 3 \<and> (c \<noteq> 24 \<or> b = 3)) r4 in (400 * a + 100 * b + 4 * c + e + 1, m, d))"
    unfolding ord2ymd_def Let_def defs ..
  have q: "n - 1 = 146097 * a + r1" "r1 = 36524 * b + r2" "r2 = 1461 * c + r3" "r3 = 365 * e + r4"
    and r: "r1 < 146097" "r2 < 36524" "r3 < 1461" "r4 < 365"
    unfolding defs by simp_all
  have n: "n = 146097 * a + 36524 * b + 1461 * c + 365 * e + r4 + 1"
    using assms q by linarith
  have bounds: "b \<le> 4" "c \<le> 24" "e \<le> 4" "r4 < 365"
    using q r by linarith+
  have b4: "b = 4 \<Longrightarrow> c = 0 \<and> e = 0 \<and> r4 = 0"
    using q r by linarith
  have e4: "e = 4 \<Longrightarrow> r4 = 0 \<and> (b = 3 \<or> c \<noteq> 24 \<or> b = 4)"
    using q r by linarith
  show ?thesis
  proof (cases "e = 4 \<or> b = 4")
    case True
    show ?thesis
    proof (cases "b = 4")
      case True
      with b4 have z: "c = 0" "e = 0" "r4 = 0" by auto
      have y: "400 * a + 100 * 3 + 4 * 24 + 3 + 1 = 400 * a + (400::nat)" by simp
      have "days_before_year (400 * a + 400) + days_before_month (is_leap (400 * a + 400)) 12 + 31 = n"
        using year_start [of 3 24 3 a] True z n unfolding y by (simp add: days_before_month_def)
      then show ?thesis using True z by (simp add: ord ymd2ord_def ac_simps)
    next
      case False
      with True bounds e4 have z: "e = 4" "r4 = 0" "b = 3 \<or> c \<noteq> 24" "b \<le> 3" by auto
      have y: "400 * a + 100 * b + 4 * c + 3 + 1 = 400 * a + 100 * b + 4 * c + (4::nat)" by simp
      have "days_before_year (400 * a + 100 * b + 4 * c + 4) +
          days_before_month (is_leap (400 * a + 100 * b + 4 * c + 4)) 12 + 31 = n"
        using year_start [of b c 3 a] z bounds n unfolding y by (auto simp: days_before_month_def)
      then show ?thesis using z by (simp add: ord ymd2ord_def ac_simps)
    qed
  next
    case False
    with bounds have le: "b \<le> 3" "e \<le> 3" by auto
    obtain m d where md: "month_day (e = 3 \<and> (c \<noteq> 24 \<or> b = 3)) r4 = (m, d)" by fastforce
    have "ord2ymd n = (400 * a + 100 * b + 4 * c + e + 1, m, d)"
      using False md by (auto simp: ord)
    then show ?thesis
      using year_start [OF le(1) bounds(2) le(2), of a] month_day_inverse [OF bounds(4) md] n
      by (simp add: ymd2ord_def)
  qed
qed

subsection \<open>ISO format\<close>

definition pad :: "nat \<Rightarrow> string \<Rightarrow> string" where
  "pad k s = replicate (k - length s) CHR ''0'' @ s"

definition date_iso :: "date \<Rightarrow> string" where
  "date_iso d = (let (y, m, dd) = ord2ymd (nat d) in
     pad 4 (nat_str y) @ ''-'' @ pad 2 (nat_str m) @ ''-'' @ pad 2 (nat_str dd))"

lemma digits_val_pad [simp]: "digits_val (pad k s) = digits_val s"
proof -
  have "foldl (\<lambda>n c. 10 * n + ((of_char c :: nat) - 48)) 0 (replicate j CHR ''0'') = 0" for j
    by (induction j) auto
  then show ?thesis by (simp add: digits_val_def pad_def)
qed

lemma pad_nat_str_inj: "pad k (nat_str a) = pad k (nat_str b) \<longleftrightarrow> a = b"
  by (metis digits_val_pad digits_val_nat_str)

lemma pad_digits: "c \<in> set (pad k (nat_str n)) \<Longrightarrow> is_digit c"
  by (auto simp: pad_def is_digit_def dest: nat_str_digits split: if_splits)

lemma dash_notin_pad: "CHR ''-'' \<notin> set (pad k (nat_str n))"
  using pad_digits [of "CHR ''-''"] by (auto simp: is_digit_def)

theorem date_iso_inj:
  assumes "1 \<le> d" and "1 \<le> d'" and "date_iso d = date_iso d'"
  shows "d = d'"
proof -
  obtain y m k where 1: "ord2ymd (nat d) = (y, m, k)" by (cases "ord2ymd (nat d)")
  obtain y' m' k' where 2: "ord2ymd (nat d') = (y', m', k')" by (cases "ord2ymd (nat d')")
  from assms(3) 1 2 have eq: "pad 4 (nat_str y) @ CHR ''-'' # (pad 2 (nat_str m) @ CHR ''-'' # pad 2 (nat_str k))
      = pad 4 (nat_str y') @ CHR ''-'' # (pad 2 (nat_str m') @ CHR ''-'' # pad 2 (nat_str k'))"
    by (simp add: date_iso_def)
  from sep_split [OF eq dash_notin_pad dash_notin_pad]
  have y: "y = y'" and rest: "pad 2 (nat_str m) @ CHR ''-'' # pad 2 (nat_str k) =
      pad 2 (nat_str m') @ CHR ''-'' # pad 2 (nat_str k')" by (auto simp: pad_nat_str_inj)
  from sep_split [OF rest dash_notin_pad dash_notin_pad] have "m = m'" "k = k'"
    by (auto simp: pad_nat_str_inj)
  with y 1 2 have "ord2ymd (nat d) = ord2ymd (nat d')" by simp
  then have "nat d = nat d'" using assms(1,2)
    by (metis ymd2ord_ord2ymd nat_mono nat_one_as_int)
  with assms(1,2) show ?thesis by simp
qed

end
