(* ===== verification/Runtime_Models.thy ===== *)
theory Runtime_Models
  imports PyDates
begin

text \<open>
  The control plane's data model (\<open>runtime/models.py\<close>): job kinds, the run state machine's
  states, dependency conditions and the records mirrored to the \<open>meta\<close> schema.  A field keeps
  its name behind a short prefix of its record.  The kind and the condition of a record are
  arbitrary strings in the code and stay strings here; the status of a run is only ever written
  from \<open>JobStatus\<close>, so it is that enumeration.
\<close>

datatype job_kind = SYNC | BACKFILL | IMPORT | DERIVE | BUILD_RM | QUALITY | CACHE_INVALIDATE | EXPORT

fun kind_value :: "job_kind \<Rightarrow> string" where
  "kind_value SYNC = ''sync''"
| "kind_value BACKFILL = ''backfill''"
| "kind_value IMPORT = ''import''"
| "kind_value DERIVE = ''derive''"
| "kind_value BUILD_RM = ''build_rm''"
| "kind_value QUALITY = ''quality''"
| "kind_value CACHE_INVALIDATE = ''cache_invalidate''"
| "kind_value EXPORT = ''export''"

datatype job_status =
  QUEUED | RUNNING | SUCCEEDED | FAILED | RETRYING | DEAD | INTERRUPTED | CANCELLED

fun status_value :: "job_status \<Rightarrow> string" where
  "status_value QUEUED = ''queued''"
| "status_value RUNNING = ''running''"
| "status_value SUCCEEDED = ''succeeded''"
| "status_value FAILED = ''failed''"
| "status_value RETRYING = ''retrying''"
| "status_value DEAD = ''dead''"
| "status_value INTERRUPTED = ''interrupted''"
| "status_value CANCELLED = ''cancelled''"

datatype dependency_condition = ON_SUCCESS | ON_COMPLETE | ALWAYS

fun condition_value :: "dependency_condition \<Rightarrow> string" where
  "condition_value ON_SUCCESS = ''on_success''"
| "condition_value ON_COMPLETE = ''on_complete''"
| "condition_value ALWAYS = ''always''"

definition TERMINAL_STATUSES :: "job_status set" where
  "TERMINAL_STATUSES = {SUCCEEDED, DEAD, CANCELLED}"

definition CLAIMABLE_STATUSES :: "job_status set" where
  "CLAIMABLE_STATUSES = {QUEUED, RETRYING}"

definition SUCCESS_STATUSES :: "job_status set" where
  "SUCCESS_STATUSES = {SUCCEEDED}"

text \<open>The statuses that make \<open>create_run\<close> refuse another run of the same key.\<close>

definition ACTIVE_STATUSES :: "job_status set" where
  "ACTIVE_STATUSES = CLAIMABLE_STATUSES \<union> {RUNNING, SUCCEEDED}"

lemmas status_sets = TERMINAL_STATUSES_def CLAIMABLE_STATUSES_def SUCCESS_STATUSES_def ACTIVE_STATUSES_def

record job_def =
  def_job_id :: string
  def_kind :: string
  def_dataset :: string
  def_schedule :: "string option"
  def_priority :: int
  def_max_attempts :: int
  def_enabled :: bool

record job_dependency =
  dep_parent_job :: string
  dep_child_job :: string
  dep_condition :: string

record job_intent =
  intent_kind :: string
  intent_job_id :: string
  intent_dataset :: string
  intent_scope :: string
  intent_window_start :: "date option"
  intent_window_end :: "date option"
  intent_version_dimension :: "string option"
  intent_priority :: int
  intent_max_attempts :: int

record job_run =
  run_id :: int
  run_job_key :: string
  run_job_id :: string
  run_kind :: string
  run_dataset :: string
  run_scope :: string
  run_status :: job_status
  run_attempt :: int
  run_max_attempts :: int
  run_priority :: int
  run_scheduled_at :: time
  run_window_start :: "date option"
  run_window_end :: "date option"
  run_version_dimension :: "string option"
  run_started_at :: "time option"
  run_finished_at :: "time option"
  run_rows_written :: "int option"
  run_error :: "string option"
  run_request_id :: "string option"
  run_worker :: "string option"

record watermark =
  wm_dataset :: string
  wm_scope :: string
  wm_watermark_time :: "time option"

text \<open>The edges of the state machine that the operations of the repository can take.\<close>

fun status_step :: "job_status \<Rightarrow> job_status \<Rightarrow> bool" where
  "status_step QUEUED s = (s = RUNNING)"
| "status_step RETRYING s = (s = RUNNING)"
| "status_step RUNNING s = (s \<in> {SUCCEEDED, RETRYING, DEAD, INTERRUPTED})"
| "status_step _ s = False"

lemma status_value_inj [simp]: "status_value a = status_value b \<longleftrightarrow> a = b"
  by (cases a; cases b) simp_all

lemma kind_value_inj [simp]: "kind_value a = kind_value b \<longleftrightarrow> a = b"
  by (cases a; cases b) simp_all

lemma terminal_no_step: "s \<in> TERMINAL_STATUSES \<Longrightarrow> \<not> status_step s t"
  by (auto simp: status_sets)

end
