(* ===== verification/Runtime_Keys.thy ===== *)
theory Runtime_Keys
  imports Runtime_Models
begin

text \<open>
  Idempotency keys (\<open>runtime/keys.py\<close>).  The payload is the JSON text \<open>json.dumps\<close> writes for the
  six fields with sorted keys and non-ASCII characters kept; the key is the first 32 hex digits of its SHA-256
  digest.  The digest is a parameter \<open>sha256_hex\<close> of the model: nothing is used of it but that
  equal texts have equal digests, and theorems that need distinct digests say so for the two
  payloads they compare.
\<close>

subsection \<open>JSON strings\<close>

definition hex_digit :: "nat \<Rightarrow> char" where
  "hex_digit n = (if n < 10 then char_of (48 + n) else char_of (87 + n))"

definition json_char :: "char \<Rightarrow> string" where
  "json_char c =
     (if c = CHR 0x22 then [CHR 0x5C, CHR 0x22]
      else if c = CHR 0x5C then [CHR 0x5C, CHR 0x5C]
      else if c = CHR 0x0A then [CHR 0x5C, CHR ''n'']
      else if c = CHR 0x0D then [CHR 0x5C, CHR ''r'']
      else if c = CHR 0x09 then [CHR 0x5C, CHR ''t'']
      else if c = CHR 0x0C then [CHR 0x5C, CHR ''f'']
      else if c = CHR 0x08 then [CHR 0x5C, CHR ''b'']
      else let n = (of_char c :: nat) in
        if n < 32 then [CHR 0x5C, CHR ''u'', CHR ''0'', CHR ''0'', hex_digit (n div 16), hex_digit (n mod 16)]
        else [c])"

definition json_str :: "string \<Rightarrow> string" where
  "json_str s = [CHR 0x22] @ concat (map json_char s) @ [CHR 0x22]"

fun json_opt :: "string option \<Rightarrow> string" where
  "json_opt None = ''null''"
| "json_opt (Some s) = json_str s"

text \<open>The escape of a character is never a prefix of the escape of another one.\<close>

lemma hex_digit_inj: "a < 16 \<Longrightarrow> b < 16 \<Longrightarrow> hex_digit a = hex_digit b \<Longrightarrow> a = b"
proof -
  assume "a < 16" "b < 16" "hex_digit a = hex_digit b"
  then have "(of_char (hex_digit a) :: nat) = of_char (hex_digit b)" by simp
  with \<open>a < 16\<close> \<open>b < 16\<close> show ?thesis by (auto simp: hex_digit_def split: if_splits)
qed

lemma json_char_cases:
  obtains "json_char c = [c]" "c \<noteq> CHR 0x22" "c \<noteq> CHR 0x5C"
  | d where "json_char c = [CHR 0x5C, d]" "d \<noteq> CHR ''u''"
      "(c, d) \<in> {(CHR 0x22, CHR 0x22), (CHR 0x5C, CHR 0x5C), (CHR 0x0A, CHR ''n''), (CHR 0x0D, CHR ''r''),
         (CHR 0x09, CHR ''t''), (CHR 0x0C, CHR ''f''), (CHR 0x08, CHR ''b'')}"
  | "json_char c = [CHR 0x5C, CHR ''u'', CHR ''0'', CHR ''0'', hex_digit (of_char c div 16), hex_digit (of_char c mod 16)]"
      "(of_char c :: nat) < 32"
proof (cases "c \<in> {CHR 0x22, CHR 0x5C, CHR 0x0A, CHR 0x0D, CHR 0x09, CHR 0x0C, CHR 0x08}")
  case True
  then show thesis using that(2) by (auto simp: json_char_def)
next
  case False
  then show thesis using that(1) that(3) by (cases "(of_char c :: nat) < 32") (simp_all add: json_char_def Let_def)
qed

lemma json_char_prefix_free:
  assumes "json_char c @ x = json_char c' @ y"
  shows "c = c' \<and> x = y"
proof (cases c rule: json_char_cases)
  case 1
  then show ?thesis using assms by (cases c' rule: json_char_cases) auto
next
  case (2 d)
  then show ?thesis using assms by (cases c' rule: json_char_cases) auto
next
  case 3
  note c = 3
  show ?thesis
  proof (cases c' rule: json_char_cases)
    case 1
    then show ?thesis using assms c by auto
  next
    case (2 d)
    then show ?thesis using assms c by auto
  next
    case 3
    let ?n = "of_char c :: nat" and ?m = "of_char c' :: nat"
    have "hex_digit (?n div 16) = hex_digit (?m div 16)" "hex_digit (?n mod 16) = hex_digit (?m mod 16)" "x = y"
      using assms c 3 by auto
    moreover have "?n div 16 < 16" "?m div 16 < 16" using c 3 by auto
    ultimately have "?n div 16 = ?m div 16" "?n mod 16 = ?m mod 16" "x = y"
      using hex_digit_inj by (auto simp: hex_digit_inj)
    then have "?n = ?m" by (metis div_mult_mod_eq)
    then show ?thesis using \<open>x = y\<close> by simp
  qed
qed

lemma json_char_not_quote: "json_char c = d # ds \<Longrightarrow> d \<noteq> CHR 0x22"
  by (cases c rule: json_char_cases) auto

lemma json_chars_end:
  "concat (map json_char s) @ CHR 0x22 # x = concat (map json_char s') @ CHR 0x22 # y \<Longrightarrow> s = s' \<and> x = y"
proof (induction s arbitrary: s')
  case Nil
  then show ?case
    by (cases s') (auto dest: json_char_not_quote simp: Cons_eq_append_conv json_char_def Let_def split: if_splits)
next
  case (Cons c s)
  show ?case
  proof (cases s')
    case Nil
    with Cons.prems show ?thesis
      by (auto dest: json_char_not_quote simp: Cons_eq_append_conv json_char_def Let_def split: if_splits)
  next
    case (Cons c' t)
    with Cons.prems have "json_char c @ (concat (map json_char s) @ CHR 0x22 # x) =
        json_char c' @ (concat (map json_char t) @ CHR 0x22 # y)" by simp
    from json_char_prefix_free [OF this] Cons.IH [of t] Cons show ?thesis by auto
  qed
qed

lemma json_str_inj: "json_str s @ x = json_str s' @ y \<Longrightarrow> s = s' \<and> x = y"
  using json_chars_end [of s x s' y] by (simp add: json_str_def)

lemma json_opt_inj: "json_opt a @ x = json_opt b @ y \<Longrightarrow> a = b \<and> x = y"
  by (cases a; cases b) (auto simp: json_str_def dest: json_chars_end)

subsection \<open>Version dimension and job key\<close>

definition VERSIONED_KINDS :: "(string, string) dict" where
  "VERSIONED_KINDS = [(''derive'', ''algorithm_id''), (''build_rm'', ''semantic_version'')]"

text \<open>Python's truth value of an optional string: present and non-empty.\<close>

fun truthy :: "string option \<Rightarrow> bool" where
  "truthy None = False"
| "truthy (Some s) = (s \<noteq> [])"

definition versioned_kind :: "string \<Rightarrow> bool" where
  "versioned_kind kind \<longleftrightarrow> kind \<in> set (dict_keys VERSIONED_KINDS)"

definition validate_version_dimension :: "string \<Rightarrow> string option \<Rightarrow> unit result" where
  "validate_version_dimension kind version_dimension =
     (if versioned_kind kind
      then (if \<not> truthy version_dimension then Inl ValueError else Inr ())
      else if truthy version_dimension then Inl ValueError else Inr ())"

definition job_payload ::
  "string \<Rightarrow> string \<Rightarrow> string \<Rightarrow> date option \<Rightarrow> date option \<Rightarrow> string option \<Rightarrow> string" where
  "job_payload kind job_id scope window_start window_end version_dimension =
     [CHR ''{''] @ json_str ''job_id'' @ '': '' @ json_str job_id
     @ '', '' @ json_str ''kind'' @ '': '' @ json_str kind
     @ '', '' @ json_str ''scope'' @ '': '' @ json_str scope
     @ '', '' @ json_str ''version_dimension'' @ '': '' @ json_opt version_dimension
     @ '', '' @ json_str ''window_end'' @ '': '' @ json_opt (map_option date_iso window_end)
     @ '', '' @ json_str ''window_start'' @ '': '' @ json_opt (map_option date_iso window_start)
     @ [CHR ''}'']"

definition job_key ::
  "(string \<Rightarrow> string) \<Rightarrow> string \<Rightarrow> string \<Rightarrow> string \<Rightarrow> date option \<Rightarrow> date option \<Rightarrow> string option
    \<Rightarrow> string result" where
  "job_key sha256_hex kind job_id scope window_start window_end version_dimension =
     (case validate_version_dimension kind version_dimension of
        Inl e \<Rightarrow> Inl e
      | Inr _ \<Rightarrow> Inr (take 32 (sha256_hex
          (job_payload kind job_id scope window_start window_end version_dimension))))"

text \<open>The job key of an intent, as both repositories compute it.\<close>

definition intent_key :: "(string \<Rightarrow> string) \<Rightarrow> job_intent \<Rightarrow> string result" where
  "intent_key sha256_hex i = job_key sha256_hex (intent_kind i) (intent_job_id i) (intent_scope i)
     (intent_window_start i) (intent_window_end i) (intent_version_dimension i)"

fun valid_date_opt :: "date option \<Rightarrow> bool" where
  "valid_date_opt None = True"
| "valid_date_opt (Some d) = (1 \<le> d)"

lemma date_iso_opt_inj:
  "valid_date_opt a \<Longrightarrow> valid_date_opt b \<Longrightarrow> map_option date_iso a = map_option date_iso b \<Longrightarrow> a = b"
  by (cases a; cases b) (auto dest: date_iso_inj)

lemma job_payload_inj:
  assumes "valid_date_opt ws" "valid_date_opt we" "valid_date_opt ws'" "valid_date_opt we'"
    and "job_payload k j s ws we v = job_payload k' j' s' ws' we' v'"
  shows "(k, j, s, ws, we, v) = (k', j', s', ws', we', v')"
proof -
  note peel = json_str_inj json_opt_inj
  from assms(5) have 1: "json_str j @ '', '' @ json_str ''kind'' @ '': '' @ json_str k
     @ '', '' @ json_str ''scope'' @ '': '' @ json_str s
     @ '', '' @ json_str ''version_dimension'' @ '': '' @ json_opt v
     @ '', '' @ json_str ''window_end'' @ '': '' @ json_opt (map_option date_iso we)
     @ '', '' @ json_str ''window_start'' @ '': '' @ json_opt (map_option date_iso ws) @ [CHR ''}''] =
     json_str j' @ '', '' @ json_str ''kind'' @ '': '' @ json_str k'
     @ '', '' @ json_str ''scope'' @ '': '' @ json_str s'
     @ '', '' @ json_str ''version_dimension'' @ '': '' @ json_opt v'
     @ '', '' @ json_str ''window_end'' @ '': '' @ json_opt (map_option date_iso we')
     @ '', '' @ json_str ''window_start'' @ '': '' @ json_opt (map_option date_iso ws') @ [CHR ''}'']"
    unfolding job_payload_def by (simp only: same_append_eq)
  note a = json_str_inj [OF 1]
  note b = json_str_inj [OF a [THEN conjunct2, unfolded same_append_eq]]
  note c = json_str_inj [OF b [THEN conjunct2, unfolded same_append_eq]]
  note d = json_opt_inj [OF c [THEN conjunct2, unfolded same_append_eq]]
  note e = json_opt_inj [OF d [THEN conjunct2, unfolded same_append_eq]]
  note f = json_opt_inj [OF e [THEN conjunct2, unfolded same_append_eq]]
  from a b c d e f show ?thesis
    using date_iso_opt_inj assms(1-4) by blast
qed

lemma job_key_Inr:
  "job_key h k j s ws we v = Inr key \<longleftrightarrow>
     (versioned_kind k \<longleftrightarrow> truthy v) \<and> key = take 32 (h (job_payload k j s ws we v))"
  by (auto simp: job_key_def validate_version_dimension_def)

lemma intent_key_cases:
  obtains "intent_key h i = Inl ValueError" "versioned_kind (intent_kind i) \<noteq> truthy (intent_version_dimension i)"
  | key where "intent_key h i = Inr key" "versioned_kind (intent_kind i) = truthy (intent_version_dimension i)"
  by (cases "versioned_kind (intent_kind i) = truthy (intent_version_dimension i)")
    (auto simp: intent_key_def job_key_def validate_version_dimension_def)

end
