(* ===== verification/Run_Table.thy ===== *)
theory Run_Table
  imports Runtime_Keys
begin

text \<open>
  What both metadata repositories agree on: the table of runs as a list in the order of
  insertion, the run a creation adds, and the invariant of the table.  Its parts are the promises
  of the control plane: run ids are fresh, one job key has at most one active run, one
  \<open>(dataset, scope)\<close> has at most one running run, and the attempt counter stays within
  the attempts allowed.
\<close>

definition put_run :: "job_run \<Rightarrow> job_run list \<Rightarrow> job_run list" where
  "put_run x runs = map (\<lambda>r. if run_id r = run_id x then x else r) runs"

definition find_run :: "int \<Rightarrow> job_run list \<Rightarrow> job_run option" where
  "find_run i runs = find (\<lambda>r. run_id r = i) runs"

definition new_run :: "job_intent \<Rightarrow> string \<Rightarrow> int \<Rightarrow> string option \<Rightarrow> time \<Rightarrow> job_run" where
  "new_run i key rid request_id now =
     \<lparr>run_id = rid, run_job_key = key, run_job_id = intent_job_id i, run_kind = intent_kind i,
      run_dataset = intent_dataset i, run_scope = intent_scope i, run_status = QUEUED,
      run_attempt = 1, run_max_attempts = intent_max_attempts i, run_priority = intent_priority i,
      run_scheduled_at = now, run_window_start = intent_window_start i,
      run_window_end = intent_window_end i, run_version_dimension = intent_version_dimension i,
      run_started_at = None, run_finished_at = None, run_rows_written = None, run_error = None,
      run_request_id = request_id, run_worker = None\<rparr>"

definition RETRY_BACKOFF_SECONDS :: int where "RETRY_BACKOFF_SECONDS = 5"

definition retry_delay :: "int \<Rightarrow> int" where
  "retry_delay attempt = seconds (RETRY_BACKOFF_SECONDS * 2 ^ nat (attempt - 1))"

definition claimed_run :: "string \<Rightarrow> time \<Rightarrow> job_run \<Rightarrow> job_run" where
  "claimed_run worker moment run =
     run\<lparr>run_status := RUNNING, run_started_at := Some moment, run_worker := Some worker\<rparr>"

definition claim_order :: "job_run \<Rightarrow> int \<times> int" where
  "claim_order run = (run_priority run, run_id run)"

definition finished_run ::
  "job_status \<Rightarrow> int option \<Rightarrow> string option \<Rightarrow> int option \<Rightarrow> time option \<Rightarrow> time \<Rightarrow> job_run \<Rightarrow> job_run" where
  "finished_run st rows_written error attempt scheduled_at utcnow run =
     run\<lparr>run_status := st, run_rows_written := rows_written, run_error := error,
         run_attempt := (case attempt of Some a \<Rightarrow> a | None \<Rightarrow> run_attempt run),
         run_scheduled_at := (case scheduled_at of Some t \<Rightarrow> t | None \<Rightarrow> run_scheduled_at run),
         run_finished_at := (if st = RETRYING then None else Some utcnow)\<rparr>"

lemma claimed_run_sel [simp]:
  "run_id (claimed_run w t r) = run_id r"
  "run_job_key (claimed_run w t r) = run_job_key r"
  "run_job_id (claimed_run w t r) = run_job_id r"
  "run_kind (claimed_run w t r) = run_kind r"
  "run_dataset (claimed_run w t r) = run_dataset r"
  "run_scope (claimed_run w t r) = run_scope r"
  "run_max_attempts (claimed_run w t r) = run_max_attempts r"
  "run_priority (claimed_run w t r) = run_priority r"
  "run_window_start (claimed_run w t r) = run_window_start r"
  "run_window_end (claimed_run w t r) = run_window_end r"
  "run_version_dimension (claimed_run w t r) = run_version_dimension r"
  "run_request_id (claimed_run w t r) = run_request_id r"
  "run_status (claimed_run w t r) = RUNNING"
  "run_started_at (claimed_run w t r) = Some t"
  "run_worker (claimed_run w t r) = Some w"
  "run_attempt (claimed_run w t r) = run_attempt r"
  "run_scheduled_at (claimed_run w t r) = run_scheduled_at r"
  "run_finished_at (claimed_run w t r) = run_finished_at r"
  "run_rows_written (claimed_run w t r) = run_rows_written r"
  "run_error (claimed_run w t r) = run_error r"
  by (simp_all add: claimed_run_def)

lemma finished_run_sel [simp]:
  "run_id (finished_run st rows err att sched now r) = run_id r"
  "run_job_key (finished_run st rows err att sched now r) = run_job_key r"
  "run_job_id (finished_run st rows err att sched now r) = run_job_id r"
  "run_kind (finished_run st rows err att sched now r) = run_kind r"
  "run_dataset (finished_run st rows err att sched now r) = run_dataset r"
  "run_scope (finished_run st rows err att sched now r) = run_scope r"
  "run_max_attempts (finished_run st rows err att sched now r) = run_max_attempts r"
  "run_priority (finished_run st rows err att sched now r) = run_priority r"
  "run_window_start (finished_run st rows err att sched now r) = run_window_start r"
  "run_window_end (finished_run st rows err att sched now r) = run_window_end r"
  "run_version_dimension (finished_run st rows err att sched now r) = run_version_dimension r"
  "run_request_id (finished_run st rows err att sched now r) = run_request_id r"
  "run_status (finished_run st rows err att sched now r) = st"
  "run_started_at (finished_run st rows err att sched now r) = run_started_at r"
  "run_worker (finished_run st rows err att sched now r) = run_worker r"
  "run_attempt (finished_run st rows err att sched now r) = (case att of Some a \<Rightarrow> a | None \<Rightarrow> run_attempt r)"
  "run_scheduled_at (finished_run st rows err att sched now r) = (case sched of Some u \<Rightarrow> u | None \<Rightarrow> run_scheduled_at r)"
  "run_finished_at (finished_run st rows err att sched now r) = (if st = RETRYING then None else Some now)"
  "run_rows_written (finished_run st rows err att sched now r) = rows"
  "run_error (finished_run st rows err att sched now r) = err"
  by (simp_all add: finished_run_def)

subsection \<open>The invariant\<close>

definition ids_ok :: "job_run list \<Rightarrow> int \<Rightarrow> bool" where
  "ids_ok runs nxt \<longleftrightarrow> distinct (map run_id runs) \<and> (\<forall>r \<in> set runs. 1 \<le> run_id r \<and> run_id r < nxt) \<and> 1 \<le> nxt"

definition scopes_exclusive :: "job_run list \<Rightarrow> bool" where
  "scopes_exclusive runs \<longleftrightarrow> (\<forall>r \<in> set runs. \<forall>r' \<in> set runs.
     run_status r = RUNNING \<longrightarrow> run_status r' = RUNNING \<longrightarrow>
     run_dataset r = run_dataset r' \<longrightarrow> run_scope r = run_scope r' \<longrightarrow> run_id r = run_id r')"

definition keys_exclusive :: "job_run list \<Rightarrow> bool" where
  "keys_exclusive runs \<longleftrightarrow> (\<forall>r \<in> set runs. \<forall>r' \<in> set runs.
     run_status r \<in> ACTIVE_STATUSES \<longrightarrow> run_status r' \<in> ACTIVE_STATUSES \<longrightarrow>
     run_job_key r = run_job_key r' \<longrightarrow> run_id r = run_id r')"

definition run_ok :: "job_run \<Rightarrow> bool" where
  "run_ok r \<longleftrightarrow> 1 \<le> run_attempt r \<and> run_attempt r \<le> max 1 (run_max_attempts r)
     \<and> (run_status r = RUNNING \<longrightarrow> run_started_at r \<noteq> None \<and> run_worker r \<noteq> None)
     \<and> (run_status r \<in> {SUCCEEDED, DEAD, INTERRUPTED} \<longleftrightarrow> run_finished_at r \<noteq> None)
     \<and> (run_rows_written r \<noteq> None \<longleftrightarrow> run_status r = SUCCEEDED)
     \<and> run_status r \<notin> {FAILED, CANCELLED}"

definition runs_inv :: "job_run list \<Rightarrow> int \<Rightarrow> bool" where
  "runs_inv runs nxt \<longleftrightarrow>
     ids_ok runs nxt \<and> scopes_exclusive runs \<and> keys_exclusive runs \<and> (\<forall>r \<in> set runs. run_ok r)"

text \<open>The fields of a run that no operation writes after its creation.\<close>

definition same_job :: "job_run \<Rightarrow> job_run \<Rightarrow> bool" where
  "same_job r r' \<longleftrightarrow> run_id r' = run_id r \<and> run_job_key r' = run_job_key r \<and> run_job_id r' = run_job_id r
     \<and> run_kind r' = run_kind r \<and> run_dataset r' = run_dataset r \<and> run_scope r' = run_scope r
     \<and> run_max_attempts r' = run_max_attempts r \<and> run_priority r' = run_priority r
     \<and> run_window_start r' = run_window_start r \<and> run_window_end r' = run_window_end r
     \<and> run_version_dimension r' = run_version_dimension r \<and> run_request_id r' = run_request_id r"

lemma runs_inv_empty [simp]: "runs_inv [] 1"
  by (simp add: runs_inv_def ids_ok_def scopes_exclusive_def keys_exclusive_def)

lemma set_put_run: "r \<in> set runs \<Longrightarrow> run_id r = run_id x \<Longrightarrow>
    set (put_run x runs) = insert x {r' \<in> set runs. run_id r' \<noteq> run_id x}"
  by (auto simp: put_run_def image_iff)

lemma ids_put_run [simp]: "map run_id (put_run x runs) = map run_id runs"
  by (induction runs) (auto simp: put_run_def)

lemma length_put_run [simp]: "length (put_run x runs) = length runs"
  by (simp add: put_run_def)

lemma find_run_Some: "find_run i runs = Some r \<Longrightarrow> r \<in> set runs \<and> run_id r = i"
  by (auto simp: find_run_def find_Some_iff)

lemma find_run_in: "distinct (map run_id runs) \<Longrightarrow> r \<in> set runs \<Longrightarrow> find_run (run_id r) runs = Some r"
  by (induction runs) (auto simp: find_run_def image_iff)

lemma find_run_None: "find_run i runs = None \<longleftrightarrow> i \<notin> run_id ` set runs"
  by (auto simp: find_run_def find_None_iff)

lemma find_run_put: "find_run i (put_run x runs) =
    (if i = run_id x then map_option (\<lambda>_. x) (find_run i runs) else find_run i runs)"
  by (induction runs) (auto simp: find_run_def put_run_def)

text \<open>A new queued run keeps the invariant when its key has no active run.\<close>

lemma runs_inv_new:
  assumes "runs_inv runs nxt"
    and "\<forall>r \<in> set runs. run_job_key r = key \<longrightarrow> run_status r \<notin> ACTIVE_STATUSES"
  shows "runs_inv (runs @ [new_run i key nxt request_id now]) (nxt + 1)"
proof -
  let ?x = "new_run i key nxt request_id now"
  note inv = assms(1) [unfolded runs_inv_def]
  have fresh: "\<forall>r \<in> set runs. run_id r \<noteq> nxt" using inv by (auto simp: ids_ok_def)
  have "ids_ok (runs @ [?x]) (nxt + 1)"
    using inv fresh by (auto simp: ids_ok_def new_run_def)
  moreover have "scopes_exclusive (runs @ [?x])"
    unfolding scopes_exclusive_def
  proof (intro ballI impI)
    fix a b
    assume ab: "a \<in> set (runs @ [?x])" "b \<in> set (runs @ [?x])"
      and run: "run_status a = RUNNING" "run_status b = RUNNING"
      and eq: "run_dataset a = run_dataset b" "run_scope a = run_scope b"
    have "run_status ?x = QUEUED" by (simp add: new_run_def)
    with ab run have "a \<in> set runs" "b \<in> set runs" by auto
    with inv run eq show "run_id a = run_id b" unfolding scopes_exclusive_def by blast
  qed
  moreover have "keys_exclusive (runs @ [?x])"
  proof -
    have n: "run_job_key r \<noteq> run_job_key ?x" if "r \<in> set runs" "run_status r \<in> ACTIVE_STATUSES" for r
      using that assms(2) by (auto simp: new_run_def)
    show ?thesis unfolding keys_exclusive_def
    proof (intro ballI impI)
      fix a b
      assume "a \<in> set (runs @ [?x])" "b \<in> set (runs @ [?x])" and act: "run_status a \<in> ACTIVE_STATUSES"
        "run_status b \<in> ACTIVE_STATUSES" and key: "run_job_key a = run_job_key b"
      then have "a = ?x \<or> a \<in> set runs" "b = ?x \<or> b \<in> set runs" by auto
      then show "run_id a = run_id b"
        using inv n [of a] n [of b] act key unfolding keys_exclusive_def by metis
    qed
  qed
  moreover have "run_ok ?x" by (simp add: run_ok_def new_run_def)
  ultimately show ?thesis using inv by (simp add: runs_inv_def)
qed

text \<open>
  Replacing a run by a later state of it keeps the invariant, when it takes a free scope if it
  starts running, and was active if it is active.
\<close>

lemma runs_inv_put:
  assumes inv: "runs_inv runs nxt" and r: "r \<in> set runs" and same: "same_job r x" and ok: "run_ok x"
    and scope: "run_status x = RUNNING \<Longrightarrow> \<forall>r' \<in> set runs. run_status r' = RUNNING \<longrightarrow>
       (run_dataset r', run_scope r') \<noteq> (run_dataset r, run_scope r)"
    and act: "run_status x \<in> ACTIVE_STATUSES \<Longrightarrow> run_status r \<in> ACTIVE_STATUSES"
  shows "runs_inv (put_run x runs) nxt"
proof -
  have id: "run_id r = run_id x" using same by (simp add: same_job_def)
  note S = set_put_run [OF r id]
  have "ids_ok (put_run x runs) nxt"
    using inv r id unfolding runs_inv_def ids_ok_def S by auto
  moreover have "scopes_exclusive (put_run x runs)"
    unfolding scopes_exclusive_def S
  proof (intro ballI impI)
    fix a b
    assume ab: "a \<in> insert x {r' \<in> set runs. run_id r' \<noteq> run_id x}"
      "b \<in> insert x {r' \<in> set runs. run_id r' \<noteq> run_id x}"
      "run_status a = RUNNING" "run_status b = RUNNING"
      "run_dataset a = run_dataset b" "run_scope a = run_scope b"
    have x: "run_dataset x = run_dataset r" "run_scope x = run_scope r" using same by (auto simp: same_job_def)
    show "run_id a = run_id b"
    proof (cases "a = x \<or> b = x")
      case True
      then show ?thesis using ab scope x by auto
    next
      case False
      then show ?thesis using ab inv unfolding runs_inv_def scopes_exclusive_def by blast
    qed
  qed
  moreover have "keys_exclusive (put_run x runs)"
    unfolding keys_exclusive_def S
  proof (intro ballI impI)
    fix a b
    assume ab: "a \<in> insert x {r' \<in> set runs. run_id r' \<noteq> run_id x}"
      "b \<in> insert x {r' \<in> set runs. run_id r' \<noteq> run_id x}"
      "run_status a \<in> ACTIVE_STATUSES" "run_status b \<in> ACTIVE_STATUSES" "run_job_key a = run_job_key b"
    have old: "run_id p = run_id q" if "p \<in> set runs" "q \<in> set runs" "run_status p \<in> ACTIVE_STATUSES"
      "run_status q \<in> ACTIVE_STATUSES" "run_job_key p = run_job_key q" for p q
      using that inv unfolding runs_inv_def keys_exclusive_def by blast
    have x: "run_job_key x = run_job_key r" using same by (simp add: same_job_def)
    show "run_id a = run_id b"
    proof (cases "a = x")
      case True
      then show ?thesis using ab old [of r b] r act x id by auto
    next
      case False
      then show ?thesis using ab old [of a r] old [of a b] r act x id by auto
    qed
  qed
  moreover have "\<forall>r \<in> set (put_run x runs). run_ok r"
    using inv ok unfolding runs_inv_def S by auto
  ultimately show ?thesis by (simp add: runs_inv_def)
qed

subsection \<open>The table as a state machine\<close>

text \<open>
  The abstract specification of a repository: a table changes only by adding a queued run for a
  key without an active run, by claiming a due run of a free scope, and by ending a running run
  in one of the four ways below.  Each operation of each repository is a sequence of such steps.
\<close>

inductive table_step :: "job_run list \<times> int \<Rightarrow> job_run list \<times> int \<Rightarrow> bool" where
  create: "\<forall>r \<in> set runs. run_job_key r = key \<longrightarrow> run_status r \<notin> ACTIVE_STATUSES \<Longrightarrow>
     table_step (runs, n) (runs @ [new_run i key n request_id now], n + 1)"
| claim: "r \<in> set runs \<Longrightarrow> run_status r \<in> CLAIMABLE_STATUSES \<Longrightarrow> run_scheduled_at r \<le> moment \<Longrightarrow>
     \<forall>r' \<in> set runs. run_status r' = RUNNING \<longrightarrow> (run_dataset r', run_scope r') \<noteq> (run_dataset r, run_scope r) \<Longrightarrow>
     table_step (runs, n) (put_run (claimed_run worker moment r) runs, n)"
| succeed: "r \<in> set runs \<Longrightarrow> run_status r = RUNNING \<Longrightarrow>
     table_step (runs, n) (put_run (finished_run SUCCEEDED (Some rows) None None None now r) runs, n)"
| retry: "r \<in> set runs \<Longrightarrow> run_status r = RUNNING \<Longrightarrow> run_attempt r < run_max_attempts r \<Longrightarrow>
     table_step (runs, n) (put_run (finished_run RETRYING None (Some err) (Some (run_attempt r + 1))
       (Some (now + retry_delay (run_attempt r))) now r) runs, n)"
| die: "r \<in> set runs \<Longrightarrow> run_status r = RUNNING \<Longrightarrow> \<not> run_attempt r < run_max_attempts r \<Longrightarrow>
     table_step (runs, n) (put_run (finished_run DEAD None (Some err) None None now r) runs, n)"
| interrupt: "r \<in> set runs \<Longrightarrow> run_status r = RUNNING \<Longrightarrow>
     table_step (runs, n) (put_run (finished_run INTERRUPTED None (Some reason) None None now r) runs, n)"

lemma same_job_claimed [simp]: "same_job r (claimed_run w t r)"
  by (simp add: same_job_def)

lemma same_job_finished [simp]: "same_job r (finished_run st rows err att sched now r)"
  by (simp add: same_job_def)

lemma same_job_refl [simp]: "same_job r r"
  by (simp add: same_job_def)

lemma same_job_trans: "same_job a b \<Longrightarrow> same_job b c \<Longrightarrow> same_job a c"
  by (simp add: same_job_def)

lemma table_step_inv:
  assumes "table_step s t" and "runs_inv (fst s) (snd s)"
  shows "runs_inv (fst t) (snd t)"
  using assms
proof (induction rule: table_step.induct)
  case (create runs key n i request_id now)
  then show ?case using runs_inv_new [of runs n key] by simp
next
  case (claim r runs moment n worker)
  then have "run_ok r" by (simp add: runs_inv_def)
  then have "run_ok (claimed_run worker moment r)"
    using claim(2) by (auto simp: run_ok_def status_sets)
  with claim show ?case
    using runs_inv_put [of runs n r "claimed_run worker moment r"]
    by (auto simp: status_sets)
next
  case (succeed r runs n rows now)
  let ?x = "finished_run SUCCEEDED (Some rows) None None None now r"
  from succeed have "run_ok ?x" by (auto simp: runs_inv_def run_ok_def)
  with succeed show ?case
    using runs_inv_put [of runs n r ?x] by (simp add: status_sets)
next
  case (retry r runs n err now)
  let ?x = "finished_run RETRYING None (Some err) (Some (run_attempt r + 1)) (Some (now + retry_delay (run_attempt r))) now r"
  from retry have "run_ok ?x" by (auto simp: runs_inv_def run_ok_def)
  with retry show ?case
    using runs_inv_put [of runs n r ?x] by (simp add: status_sets)
next
  case (die r runs n err now)
  let ?x = "finished_run DEAD None (Some err) None None now r"
  from die have "run_ok ?x" by (auto simp: runs_inv_def run_ok_def)
  with die show ?case
    using runs_inv_put [of runs n r ?x] by (simp add: status_sets)
next
  case (interrupt r runs n reason now)
  let ?x = "finished_run INTERRUPTED None (Some reason) None None now r"
  from interrupt have "run_ok ?x" by (auto simp: runs_inv_def run_ok_def)
  with interrupt show ?case
    using runs_inv_put [of runs n r ?x] by (simp add: status_sets)
qed

lemma table_steps_inv: "table_step\<^sup>*\<^sup>* s t \<Longrightarrow> runs_inv (fst s) (snd s) \<Longrightarrow> runs_inv (fst t) (snd t)"
  by (induction rule: rtranclp_induct) (auto intro: table_step_inv)

text \<open>What becomes of one run in a step.\<close>

lemma put_run_same:
  "distinct (map run_id runs) \<Longrightarrow> q \<in> set runs \<Longrightarrow> r \<in> set runs \<Longrightarrow> run_id x = run_id r \<Longrightarrow>
    if q = r then x \<in> set (put_run x runs) else q \<in> set (put_run x runs)"
  by (auto simp: put_run_def image_iff dest: distinct_map [THEN iffD1, THEN conjunct2, THEN inj_onD])

lemma table_step_run:
  assumes "table_step s t" and "runs_inv (fst s) (snd s)" and "q \<in> set (fst s)"
  shows "\<exists>q' \<in> set (fst t). same_job q q' \<and>
    (q' = q \<or> status_step (run_status q) (run_status q') \<and>
      (run_attempt q' = run_attempt q \<or> run_status q' = RETRYING \<and> run_attempt q' = run_attempt q + 1))"
proof -
  have put: "\<exists>q' \<in> set (put_run x runs). same_job q q' \<and>
    (q' = q \<or> status_step (run_status q) (run_status q') \<and>
      (run_attempt q' = run_attempt q \<or> run_status q' = RETRYING \<and> run_attempt q' = run_attempt q + 1))"
    if "runs_inv runs n" "q \<in> set runs" "r \<in> set runs" "same_job r x"
      "status_step (run_status r) (run_status x)"
      "run_attempt x = run_attempt r \<or> run_status x = RETRYING \<and> run_attempt x = run_attempt r + 1" for runs n r x
  proof (cases "q = r")
    case True
    with put_run_same [of runs q r x] that have "x \<in> set (put_run x runs)"
      by (simp add: runs_inv_def ids_ok_def same_job_def)
    with True that show ?thesis by blast
  next
    case False
    with put_run_same [of runs q r x] that have "q \<in> set (put_run x runs)"
      by (simp add: runs_inv_def ids_ok_def same_job_def)
    then show ?thesis using same_job_refl by blast
  qed
  from assms show ?thesis
  proof (induction rule: table_step.induct)
    case (create runs key n i request_id now)
    then have "q \<in> set (runs @ [new_run i key n request_id now])" by simp
    then show ?case unfolding fst_conv by (rule bexI [rotated]) simp
  next
    case (claim r runs moment n worker)
    have "status_step (run_status r) (run_status (claimed_run worker moment r))" using claim(2) by (auto simp: status_sets)
    with claim show ?case unfolding fst_conv snd_conv by (intro put [where n = n and r = r]) simp_all
  next
    case (succeed r runs n rows now)
    have "status_step (run_status r) (run_status (finished_run SUCCEEDED (Some rows) None None None now r))" using succeed(2) by (auto simp: status_sets)
    with succeed show ?case unfolding fst_conv snd_conv by (intro put [where n = n and r = r]) simp_all
  next
    case (retry r runs n err now)
    have "status_step (run_status r) (run_status (finished_run RETRYING None (Some err) (Some (run_attempt r + 1))
        (Some (now + retry_delay (run_attempt r))) now r))" using retry(2) by (auto simp: status_sets)
    with retry show ?case unfolding fst_conv snd_conv by (intro put [where n = n and r = r]) simp_all
  next
    case (die r runs n err now)
    have "status_step (run_status r) (run_status (finished_run DEAD None (Some err) None None now r))" using die(2) by (auto simp: status_sets)
    with die show ?case unfolding fst_conv snd_conv by (intro put [where n = n and r = r]) simp_all
  next
    case (interrupt r runs n reason now)
    have "status_step (run_status r) (run_status (finished_run INTERRUPTED None (Some reason) None None now r))" using interrupt(2) by (auto simp: status_sets)
    with interrupt show ?case unfolding fst_conv snd_conv by (intro put [where n = n and r = r]) simp_all
  qed
qed

lemma status_step_blocked: "s \<in> {SUCCEEDED, DEAD, INTERRUPTED} \<Longrightarrow> \<not> status_step s t"
  by auto

text \<open>A run that has ended stays as it is, in every later table.\<close>

lemma table_steps_ended:
  assumes "table_step\<^sup>*\<^sup>* s t" and "runs_inv (fst s) (snd s)" and "q \<in> set (fst s)"
    and "run_status q \<in> {SUCCEEDED, DEAD, INTERRUPTED}"
  shows "q \<in> set (fst t)"
  using assms(1)
proof (induction rule: rtranclp_induct)
  case base
  from assms(3) show ?case .
next
  case (step y z)
  from table_steps_inv [OF step(1) assms(2)] table_step_run [OF step(2) _ step(3)]
    status_step_blocked [OF assms(4)] show ?case by blast
qed

text \<open>No run is ever lost, and its identity and attempt counter only move forward.\<close>

lemma table_steps_run:
  assumes "table_step\<^sup>*\<^sup>* s t" and "runs_inv (fst s) (snd s)" and "q \<in> set (fst s)"
  shows "\<exists>q' \<in> set (fst t). same_job q q' \<and> run_attempt q \<le> run_attempt q'"
  using assms(1)
proof (induction rule: rtranclp_induct)
  case base
  show ?case by (rule bexI [OF _ assms(3)]) simp
next
  case (step y z)
  from step(3) obtain q' where q': "q' \<in> set (fst y)" "same_job q q'" "run_attempt q \<le> run_attempt q'" by blast
  from table_step_run [OF step(2) table_steps_inv [OF step(1) assms(2)] q'(1)] obtain q'' where
    "q'' \<in> set (fst z)" "same_job q' q''" "run_attempt q' \<le> run_attempt q''" by force
  with q' show ?case by (meson order_trans same_job_trans)
qed

end
