(* ===== verification/Task_Registry.thy ===== *)
theory Task_Registry
  imports Runtime_Keys
begin

text \<open>
  The declarative task registry (\<open>runtime/registry.py\<close>): specs in registration order, the
  mirrored definitions and dependencies, the construction of intents, and the validation that
  refuses unregistered parents, a wrong version dimension and dependency cycles.  The cycle
  search is the code's depth-first search with its marks 1 (on the stack) and 2 (finished); its
  recursion carries fuel, and \<open>check_all_enough\<close> shows that the number of tasks plus
  one is always enough.
\<close>

subsection \<open>Specs and the registry\<close>

text \<open>An exception that leaves an executor or callback: its type's name and its text.\<close>

type_synonym exn = "string \<times> string"

record job_result =
  res_rows_written :: int

record job_context =
  ctx_job_id :: string
  ctx_kind :: string
  ctx_dataset :: string
  ctx_run :: job_run

definition ctx_scope :: "job_context \<Rightarrow> string" where
  "ctx_scope c = run_scope (ctx_run c)"

definition ctx_window_start :: "job_context \<Rightarrow> date option" where
  "ctx_window_start c = run_window_start (ctx_run c)"

definition ctx_window_end :: "job_context \<Rightarrow> date option" where
  "ctx_window_end c = run_window_end (ctx_run c)"

definition ctx_version_dimension :: "job_context \<Rightarrow> string option" where
  "ctx_version_dimension c = run_version_dimension (ctx_run c)"

text \<open>
  The executor, the version provider and the success callback are caller-supplied callables; the
  callback gets the repository \<open>'r\<close> and may change it before it returns or raises.
\<close>

record 'r task_spec =
  spec_job_id :: string
  spec_kind :: string
  spec_dataset :: string
  spec_executor :: "job_context \<Rightarrow> exn + job_result option"
  spec_schedule :: "string option"
  spec_priority :: int
  spec_max_attempts :: int
  spec_scope :: string
  spec_dependencies :: "string list"
  spec_condition :: string
  spec_version_provider :: "(unit \<Rightarrow> string option) option"
  spec_on_success :: "(job_context \<Rightarrow> job_result \<Rightarrow> 'r \<Rightarrow> 'r \<times> exn option) option"

type_synonym 'r task_registry = "(string, 'r task_spec) dict"

definition register :: "'r task_registry \<Rightarrow> 'r task_spec \<Rightarrow> 'r task_registry result" where
  "register tasks spec =
     (if spec_job_id spec \<in> set (dict_keys tasks) then Inl ValueError
      else Inr (AList.update (spec_job_id spec) spec tasks))"

definition get_task :: "'r task_registry \<Rightarrow> string \<Rightarrow> 'r task_spec result" where
  "get_task tasks job_id = (case map_of tasks job_id of None \<Rightarrow> Inl KeyError | Some s \<Rightarrow> Inr s)"

definition specs :: "'r task_registry \<Rightarrow> 'r task_spec list" where
  "specs tasks = dict_values tasks"

definition registry_defs :: "'r task_registry \<Rightarrow> job_def list" where
  "registry_defs tasks = map (\<lambda>spec.
     \<lparr>def_job_id = spec_job_id spec, def_kind = spec_kind spec, def_dataset = spec_dataset spec,
      def_schedule = spec_schedule spec, def_priority = spec_priority spec,
      def_max_attempts = spec_max_attempts spec, def_enabled = True\<rparr>) (dict_values tasks)"

definition registry_dependencies :: "'r task_registry \<Rightarrow> job_dependency list" where
  "registry_dependencies tasks = concat (map (\<lambda>spec. map (\<lambda>parent.
     \<lparr>dep_parent_job = parent, dep_child_job = spec_job_id spec, dep_condition = spec_condition spec\<rparr>)
       (spec_dependencies spec)) (dict_values tasks))"

definition make_intent :: "'r task_spec \<Rightarrow> date option \<Rightarrow> date option \<Rightarrow> job_intent" where
  "make_intent spec window_start window_end =
     \<lparr>intent_kind = spec_kind spec, intent_job_id = spec_job_id spec,
      intent_dataset = spec_dataset spec, intent_scope = spec_scope spec,
      intent_window_start = window_start, intent_window_end = window_end,
      intent_version_dimension =
        (case spec_version_provider spec of None \<Rightarrow> None | Some provider \<Rightarrow> provider ()),
      intent_priority = spec_priority spec, intent_max_attempts = spec_max_attempts spec\<rparr>"

definition is_claimable :: "job_status \<Rightarrow> bool" where
  "is_claimable s \<longleftrightarrow> s \<in> {QUEUED, RETRYING}"

lemma is_claimable_iff: "is_claimable s \<longleftrightarrow> s \<in> CLAIMABLE_STATUSES"
  by (simp add: is_claimable_def status_sets)

subsection \<open>Validation\<close>

datatype task_error =
    UnregisteredParent string string
  | MissingVersionProvider string string
  | UnexpectedVersionProvider string string
  | DependencyCycle "string list"

definition deps_of :: "'r task_registry \<Rightarrow> string \<Rightarrow> string list" where
  "deps_of tasks node =
     (case map_of tasks node of None \<Rightarrow> [] | Some spec \<Rightarrow> spec_dependencies spec)"

type_synonym visit_state = "(string \<rightharpoonup> nat) \<times> task_error list"

function (sequential) visit ::
    "nat \<Rightarrow> 'r task_registry \<Rightarrow> string \<Rightarrow> string list \<Rightarrow> visit_state \<Rightarrow> visit_state option"
  and visit_parents ::
    "nat \<Rightarrow> 'r task_registry \<Rightarrow> string \<Rightarrow> string list \<Rightarrow> string list \<Rightarrow> visit_state \<Rightarrow> visit_state option"
where
  "visit 0 tasks node path s = None"
| "visit (Suc k) tasks node path (st, errs) =
     (case visit_parents k tasks node path (deps_of tasks node) (st(node \<mapsto> 1), errs) of
        None \<Rightarrow> None
      | Some (st', errs') \<Rightarrow> Some (st'(node \<mapsto> 2), errs'))"
| "visit_parents k tasks node path [] s = Some s"
| "visit_parents k tasks node path (parent # ps) (st, errs) =
     (if parent \<notin> set (dict_keys tasks) then visit_parents k tasks node path ps (st, errs)
      else if st parent = Some 1 then
        visit_parents k tasks node path ps (st, errs @ [DependencyCycle (path @ [node, parent])])
      else if st parent = None then
        (case visit k tasks parent (path @ [node]) (st, errs) of
           None \<Rightarrow> None
         | Some s' \<Rightarrow> visit_parents k tasks node path ps s')
      else visit_parents k tasks node path ps (st, errs))"
  by pat_completeness auto
termination
  by (relation "measures [case_sum (\<lambda>(k, _). k) (\<lambda>(k, _). k),
      case_sum (\<lambda>_. 0) (\<lambda>(k, t, n, p, ps, s). Suc (length ps))]") auto

fun check_all :: "nat \<Rightarrow> 'r task_registry \<Rightarrow> string list \<Rightarrow> visit_state \<Rightarrow> visit_state option" where
  "check_all fuel tasks [] s = Some s"
| "check_all fuel tasks (job_id # ids) (st, errs) =
     (if st job_id = None then
        (case visit fuel tasks job_id [] (st, errs) of
           None \<Rightarrow> None | Some s' \<Rightarrow> check_all fuel tasks ids s')
      else check_all fuel tasks ids (st, errs))"

definition validate_acyclic :: "'r task_registry \<Rightarrow> task_error list option" where
  "validate_acyclic tasks =
     map_option snd (check_all (Suc (length tasks)) tasks (sort (dict_keys tasks)) (Map.empty, []))"

definition validate_spec :: "'r task_registry \<Rightarrow> 'r task_spec \<Rightarrow> task_error list" where
  "validate_spec tasks spec =
     [UnregisteredParent (spec_job_id spec) parent.
        parent \<leftarrow> spec_dependencies spec, parent \<notin> set (dict_keys tasks)]
     @ (if versioned_kind (spec_kind spec) \<and> spec_version_provider spec = None
        then [MissingVersionProvider (spec_job_id spec) (spec_kind spec)] else [])
     @ (if \<not> versioned_kind (spec_kind spec) \<and> spec_version_provider spec \<noteq> None
        then [UnexpectedVersionProvider (spec_job_id spec) (spec_kind spec)] else [])"

definition validate :: "'r task_registry \<Rightarrow> task_error list option" where
  "validate tasks = map_option (\<lambda>cycles. concat (map (validate_spec tasks) (dict_values tasks)) @ cycles)
     (validate_acyclic tasks)"

subsection \<open>The depth-first search\<close>

definition gray :: "(string \<rightharpoonup> nat) \<Rightarrow> string set" where "gray st = {x. st x = Some 1}"

definition black :: "(string \<rightharpoonup> nat) \<Rightarrow> string set" where "black st = {x. st x = Some 2}"

definition dep_rel :: "'r task_registry \<Rightarrow> (string \<times> string) set" where
  "dep_rel tasks = {(n, p). n \<in> set (dict_keys tasks) \<and> p \<in> set (deps_of tasks n) \<and> p \<in> set (dict_keys tasks)}"

definition marks_ok :: "(string \<rightharpoonup> nat) \<Rightarrow> bool" where
  "marks_ok st \<longleftrightarrow> ran st \<subseteq> {1, 2}"

lemma marks_ok_upd: "marks_ok st \<Longrightarrow> v \<in> {1, 2} \<Longrightarrow> marks_ok (st(n \<mapsto> v))"
  by (auto simp: marks_ok_def ran_def split: if_splits)

lemma marks_ok_other: "marks_ok st \<Longrightarrow> st p \<noteq> None \<Longrightarrow> st p \<noteq> Some 1 \<Longrightarrow> p \<in> black st"
  by (force simp: marks_ok_def black_def ran_def)

text \<open>What a visit never changes, whether or not it reports a cycle.\<close>

lemma visit_frame:
  fixes tasks :: "'r task_registry"
  shows "visit k tasks n path (st, errs) = Some (st', errs') \<Longrightarrow> st n = None \<Longrightarrow> marks_ok st \<Longrightarrow>
      gray st' = gray st \<and> black st \<subseteq> black st' \<and> dom st \<subseteq> dom st' \<and> st' n = Some 2 \<and> marks_ok st'
        \<and> (\<exists>more. errs' = errs @ more)"
    and "visit_parents k tasks n path ps (st, errs) = Some (st', errs') \<Longrightarrow> marks_ok st \<Longrightarrow>
      gray st' = gray st \<and> black st \<subseteq> black st' \<and> dom st \<subseteq> dom st' \<and> marks_ok st'
        \<and> (\<exists>more. errs' = errs @ more)"
proof (induction k tasks n path "(st, errs)" and k tasks n path ps "(st, errs)"
    arbitrary: st errs st' errs' and st errs st' errs' rule: visit_visit_parents.induct)
  case (1 tasks node path)
  then show ?case by simp
next
  case (2 k tasks node path st errs)
  from "2.prems" obtain st1 where
    vp: "visit_parents k tasks node path (deps_of tasks node) (st(node \<mapsto> 1), errs) = Some (st1, errs')"
    and st': "st' = st1(node \<mapsto> 2)" by (auto split: option.splits)
  have "marks_ok (st(node \<mapsto> 1))" using "2.prems" by (auto intro: marks_ok_upd)
  from "2.hyps" [OF vp this]
  have f: "gray st1 = gray (st(node \<mapsto> 1))" "black (st(node \<mapsto> 1)) \<subseteq> black st1"
    "dom (st(node \<mapsto> 1)) \<subseteq> dom st1" "marks_ok st1" "\<exists>more. errs' = errs @ more" by auto
  have "gray st' = gray st1 - {node}" by (auto simp: st' gray_def)
  moreover have "gray (st(node \<mapsto> 1)) - {node} = gray st" using "2.prems"(2) by (auto simp: gray_def)
  moreover have "black st \<subseteq> black st'" using f(2) "2.prems"(2) by (auto simp: st' black_def)
  moreover have "dom st \<subseteq> dom st'" using f(3) by (auto simp: st')
  ultimately show ?case using f st' by (auto intro: marks_ok_upd)
next
  case (3 k tasks node path)
  then show ?case by auto
next
  case (4 k tasks node path parent ps st errs)
  consider "parent \<notin> set (dict_keys tasks)" | "parent \<in> set (dict_keys tasks)" "st parent = Some 1"
    | "parent \<in> set (dict_keys tasks)" "st parent = None"
    | "parent \<in> set (dict_keys tasks)" "st parent \<noteq> None" "st parent \<noteq> Some 1" by blast
  then show ?case
  proof cases
    case 1
    with "4.prems" "4.hyps"(1) show ?thesis by auto
  next
    case 2
    with "4.prems" "4.hyps"(2) show ?thesis by force
  next
    case 3
    with "4.prems" obtain st1 errs1 where
      v: "visit k tasks parent (path @ [node]) (st, errs) = Some (st1, errs1)"
      and vp: "visit_parents k tasks node path ps (st1, errs1) = Some (st', errs')"
      by (auto split: option.splits)
    from "4.hyps"(3) [OF _ _ _ v] 3 "4.prems"(2)
    have a: "gray st1 = gray st \<and> black st \<subseteq> black st1 \<and> dom st \<subseteq> dom st1 \<and> marks_ok st1 \<and>
      (\<exists>more. errs1 = errs @ more)" by auto
    with "4.hyps"(4) [OF _ _ _ v vp] 3
    have "gray st' = gray st1 \<and> black st1 \<subseteq> black st' \<and> dom st1 \<subseteq> dom st' \<and> marks_ok st' \<and>
      (\<exists>more. errs' = errs1 @ more)" by auto
    with a show ?thesis by force
  next
    case 4
    with "4.prems"(1) have "visit_parents k tasks node path ps (st, errs) = Some (st', errs')" by auto
    with "4.hyps"(5) 4 "4.prems"(2) show ?thesis by simp
  qed
qed

lemmas visit_keeps = visit_frame(1) [rule_format]
lemmas visit_parents_keeps = visit_frame(2) [rule_format]

subsubsection \<open>Enough fuel\<close>

text \<open>The tasks a search can still enter.\<close>

definition unvisited :: "'r task_registry \<Rightarrow> (string \<rightharpoonup> nat) \<Rightarrow> string set" where
  "unvisited tasks st = {x \<in> set (dict_keys tasks). st x = None}"

lemma finite_unvisited [simp]: "finite (unvisited tasks st)"
  by (simp add: unvisited_def)

lemma unvisited_mono: "dom st \<subseteq> dom st' \<Longrightarrow> card (unvisited tasks st') \<le> card (unvisited tasks st)"
  by (rule card_mono) (auto simp: unvisited_def)

lemma unvisited_mark:
  assumes "n \<in> set (dict_keys tasks)" and "st n = None" and "card (unvisited tasks st) \<le> Suc k"
  shows "card (unvisited tasks (st(n \<mapsto> v))) \<le> k"
proof -
  have "unvisited tasks st = insert n (unvisited tasks (st(n \<mapsto> v)))"
    and "n \<notin> unvisited tasks (st(n \<mapsto> v))"
    using assms(1,2) by (auto simp: unvisited_def split: if_splits)
  then have "card (unvisited tasks st) = Suc (card (unvisited tasks (st(n \<mapsto> v))))" by simp
  with assms(3) show ?thesis by simp
qed

lemma visit_enough:
  fixes tasks :: "'r task_registry"
  shows "n \<in> set (dict_keys tasks) \<Longrightarrow> st n = None \<Longrightarrow> marks_ok st \<Longrightarrow> card (unvisited tasks st) \<le> k \<Longrightarrow>
      \<exists>s'. visit k tasks n path (st, errs) = Some s'"
    and "marks_ok st \<Longrightarrow> card (unvisited tasks st) \<le> k \<Longrightarrow>
      \<exists>s'. visit_parents k tasks n path ps (st, errs) = Some s'"
proof (induction k tasks n path "(st, errs)" and k tasks n path ps "(st, errs)"
    arbitrary: st errs and st errs rule: visit_visit_parents.induct)
  case (1 tasks node path)
  then have "node \<in> unvisited tasks st" by (simp add: unvisited_def)
  with 1 show ?case by simp
next
  case (2 k tasks node path st errs)
  have "marks_ok (st(node \<mapsto> 1))" "card (unvisited tasks (st(node \<mapsto> 1))) \<le> k"
    using "2.prems" by (blast intro: marks_ok_upd unvisited_mark)+
  from "2.hyps" [OF this] show ?case by (auto split: option.splits)
next
  case (3 k tasks node path)
  then show ?case by simp
next
  case (4 k tasks node path parent ps st errs)
  show ?case
  proof (cases "parent \<in> set (dict_keys tasks) \<and> st parent = None")
    case True
    with "4.hyps"(3) "4.prems" obtain st1 errs1 where
      v: "visit k tasks parent (path @ [node]) (st, errs) = Some (st1, errs1)" by force
    from visit_keeps [OF v] True "4.prems" have "marks_ok st1" "dom st \<subseteq> dom st1" by auto
    with "4.hyps"(4) [OF _ _ _ v] True unvisited_mono [of st st1 tasks] "4.prems" v
    show ?thesis by auto
  next
    case False
    with 4 show ?thesis by auto
  qed
qed

lemma check_all_enough:
  assumes "set ids \<subseteq> set (dict_keys tasks)" and "marks_ok st" and "card (unvisited tasks st) \<le> k"
  shows "\<exists>s'. check_all k tasks ids (st, errs) = Some s'"
  using assms
proof (induction ids arbitrary: st errs)
  case Nil
  then show ?case by simp
next
  case (Cons n ids)
  show ?case
  proof (cases "st n = None")
    case True
    with visit_enough(1) [of n tasks st k] Cons.prems obtain st1 errs1 where
      v: "visit k tasks n [] (st, errs) = Some (st1, errs1)" by force
    from visit_keeps [OF v True] Cons.prems have "marks_ok st1" "dom st \<subseteq> dom st1" by auto
    with Cons.IH [of st1] Cons.prems unvisited_mono [of st st1 tasks] v True show ?thesis by auto
  next
    case False
    with Cons show ?thesis by auto
  qed
qed

lemma validate_acyclic_total: "\<exists>errs. validate_acyclic tasks = Some errs"
proof -
  have "card (unvisited tasks Map.empty) \<le> card (set (dict_keys tasks))"
    by (rule card_mono) (auto simp: unvisited_def)
  also have "\<dots> \<le> length tasks" using card_length [of "dict_keys tasks"] by simp
  finally have "\<exists>s'. check_all (Suc (length tasks)) tasks (sort (dict_keys tasks)) (Map.empty, []) = Some s'"
    by (intro check_all_enough) (auto simp: marks_ok_def)
  then show ?thesis by (auto simp: validate_acyclic_def)
qed

subsubsection \<open>A reported cycle is a cycle\<close>

lemma no_cycle_no_error:
  fixes tasks :: "'r task_registry"
  assumes acyclic: "acyclic (dep_rel tasks)"
  shows "n \<in> set (dict_keys tasks) \<Longrightarrow> st n = None \<Longrightarrow> marks_ok st \<Longrightarrow> \<forall>g \<in> gray st. (g, n) \<in> (dep_rel tasks)\<^sup>+ \<Longrightarrow>
      visit k tasks n path (st, errs) = Some (st', errs') \<Longrightarrow> errs' = errs"
    and "n \<in> set (dict_keys tasks) \<Longrightarrow> set ps \<subseteq> set (deps_of tasks n) \<Longrightarrow> marks_ok st \<Longrightarrow>
      \<forall>g \<in> gray st. (g, n) \<in> (dep_rel tasks)\<^sup>* \<Longrightarrow>
      visit_parents k tasks n path ps (st, errs) = Some (st', errs') \<Longrightarrow> errs' = errs"
  using acyclic
proof (induction k tasks n path "(st, errs)" and k tasks n path ps "(st, errs)"
    arbitrary: st errs st' errs' and st errs st' errs' rule: visit_visit_parents.induct)
  case (1 tasks node path)
  then show ?case by simp
next
  case (2 k tasks node path st errs)
  from "2.prems" obtain st1 where
    vp: "visit_parents k tasks node path (deps_of tasks node) (st(node \<mapsto> 1), errs) = Some (st1, errs')"
    by (auto split: option.splits)
  have "\<forall>g \<in> gray (st(node \<mapsto> 1)). (g, node) \<in> (dep_rel tasks)\<^sup>*"
    using "2.prems"(4) by (auto simp: gray_def trancl_into_rtrancl split: if_splits)
  moreover have "marks_ok (st(node \<mapsto> 1))" using "2.prems" by (auto intro: marks_ok_upd)
  ultimately show ?case
    using "2.hyps" [OF "2.prems"(1) subset_refl _ _ vp "2.prems"(6)] by blast
next
  case (3 k tasks node path)
  then show ?case by simp
next
  case (4 k tasks node path parent ps st errs)
  note prems = "4.prems"
  show ?case
  proof (cases "parent \<in> set (dict_keys tasks)")
    case False
    with prems "4.hyps"(1) show ?thesis by auto
  next
    case True
    with prems(1,2) have edge: "(node, parent) \<in> dep_rel tasks" by (auto simp: dep_rel_def)
    have not_gray: "st parent \<noteq> Some 1"
    proof
      assume "st parent = Some 1"
      with prems(4) have "(parent, node) \<in> (dep_rel tasks)\<^sup>*" by (auto simp: gray_def)
      then have "(parent, parent) \<in> (dep_rel tasks)\<^sup>+" using edge by (rule rtrancl_into_trancl1)
      with prems(6) show False by (simp add: acyclic_def)
    qed
    show ?thesis
    proof (cases "st parent")
      case None
      with True prems(5) obtain st1 errs1 where
        v: "visit k tasks parent (path @ [node]) (st, errs) = Some (st1, errs1)"
        and vp: "visit_parents k tasks node path ps (st1, errs1) = Some (st', errs')"
        by (auto split: option.splits)
      have "\<forall>g \<in> gray st. (g, parent) \<in> (dep_rel tasks)\<^sup>+"
        using prems(4) edge by (auto intro: rtrancl_into_trancl1)
      with "4.hyps"(3) [OF _ not_gray None _ None prems(3) _ v] True prems(6) have "errs1 = errs" by simp
      moreover from visit_keeps [OF v None prems(3)] have "gray st1 = gray st" "marks_ok st1" by auto
      ultimately show ?thesis
        using "4.hyps"(4) [OF _ not_gray None v prems(1) _ _ _ vp] True prems by auto
    next
      case (Some m)
      with prems "4.hyps"(5) True not_gray show ?thesis by auto
    qed
  qed
qed

subsubsection \<open>A search without a report orders the tasks\<close>

definition ordered :: "'r task_registry \<Rightarrow> (string \<rightharpoonup> nat) \<Rightarrow> bool" where
  "ordered tasks st \<longleftrightarrow>
     (\<forall>n p. n \<in> black st \<longrightarrow> (n, p) \<in> dep_rel tasks \<longrightarrow> p \<in> black st) \<and>
     (\<exists>rank :: string \<Rightarrow> nat. \<forall>n p. n \<in> black st \<longrightarrow> (n, p) \<in> dep_rel tasks \<longrightarrow> rank p < rank n)"

lemma ordered_gray: "ordered tasks st \<Longrightarrow> n \<notin> black st \<Longrightarrow> ordered tasks (st(n \<mapsto> 1))"
proof -
  assume "ordered tasks st" "n \<notin> black st"
  moreover from this(2) have "black (st(n \<mapsto> 1)) = black st" by (auto simp: black_def)
  ultimately show ?thesis by (simp add: ordered_def)
qed

lemma ordered_black:
  assumes "ordered tasks st" and "n \<notin> black st"
    and deps: "\<And>p. (n, p) \<in> dep_rel tasks \<Longrightarrow> p \<in> black st"
  shows "ordered tasks (st(n \<mapsto> 2))"
proof -
  from assms(1) obtain rank :: "string \<Rightarrow> nat" where
    closed: "\<And>x p. x \<in> black st \<Longrightarrow> (x, p) \<in> dep_rel tasks \<Longrightarrow> p \<in> black st"
    and rank: "\<And>x p. x \<in> black st \<Longrightarrow> (x, p) \<in> dep_rel tasks \<Longrightarrow> rank p < rank x"
    unfolding ordered_def by blast
  have b: "black (st(n \<mapsto> 2)) = insert n (black st)" by (auto simp: black_def)
  let ?r = "rank(n := Suc (sum_list (map rank (deps_of tasks n))))"
  have "?r p < ?r x" if "x \<in> insert n (black st)" "(x, p) \<in> dep_rel tasks" for x p
  proof (cases "x = n")
    case True
    with that deps have p: "p \<in> black st" "p \<noteq> n" using assms(2) by auto
    have "p \<in> set (deps_of tasks n)" using that(2) True by (simp add: dep_rel_def)
    then have "rank p \<le> sum_list (map rank (deps_of tasks n))" by (simp add: member_le_sum_list)
    with p True show ?thesis by simp
  next
    case False
    with that closed have "x \<in> black st" "p \<in> black st" by auto
    with rank that(2) assms(2) False show ?thesis by auto
  qed
  then show ?thesis unfolding ordered_def b using closed deps by blast
qed

lemma visit_ordered:
  fixes tasks :: "'r task_registry"
  shows "n \<in> set (dict_keys tasks) \<Longrightarrow> st n = None \<Longrightarrow> marks_ok st \<Longrightarrow> ordered tasks st \<Longrightarrow>
      visit k tasks n path (st, errs) = Some (st', errs') \<Longrightarrow> errs' = errs \<Longrightarrow> ordered tasks st'"
    and "n \<in> set (dict_keys tasks) \<Longrightarrow> marks_ok st \<Longrightarrow> ordered tasks st \<Longrightarrow>
      visit_parents k tasks n path ps (st, errs) = Some (st', errs') \<Longrightarrow> errs' = errs \<Longrightarrow>
      ordered tasks st' \<and> (\<forall>p \<in> set ps. p \<in> set (dict_keys tasks) \<longrightarrow> p \<in> black st')"
proof (induction k tasks n path "(st, errs)" and k tasks n path ps "(st, errs)"
    arbitrary: st errs st' errs' and st errs st' errs' rule: visit_visit_parents.induct)
  case (1 tasks node path)
  then show ?case by simp
next
  case (2 k tasks node path st errs)
  note prems = "2.prems"
  from prems(5) obtain st1 where
    vp: "visit_parents k tasks node path (deps_of tasks node) (st(node \<mapsto> 1), errs) = Some (st1, errs')"
    and st': "st' = st1(node \<mapsto> 2)" by (auto split: option.splits)
  have nb: "node \<notin> black st" using prems(2) by (simp add: black_def)
  have m: "marks_ok (st(node \<mapsto> 1))" using prems(3) by (auto intro: marks_ok_upd)
  from "2.hyps" [OF prems(1) m ordered_gray [OF prems(4) nb] vp prems(6)]
  have o1: "ordered tasks st1" and d: "\<And>p. (node, p) \<in> dep_rel tasks \<Longrightarrow> p \<in> black st1"
    by (auto simp: dep_rel_def)
  have "node \<in> gray (st(node \<mapsto> 1))" by (simp add: gray_def)
  with visit_parents_keeps [OF vp m] have "node \<in> gray st1" by blast
  then have "node \<notin> black st1" by (auto simp: gray_def black_def)
  from ordered_black [OF o1 this d] show ?case by (simp add: st')
next
  case (3 k tasks node path)
  then show ?case by simp
next
  case (4 k tasks node path parent ps st errs)
  note prems = "4.prems"
  show ?case
  proof (cases "parent \<in> set (dict_keys tasks)")
    case False
    with prems "4.hyps"(1) show ?thesis by auto
  next
    case reg: True
    have not_gray: "st parent \<noteq> Some 1"
    proof
      assume g: "st parent = Some 1"
      with reg prems(4) have "visit_parents k tasks node path ps (st, errs @ [DependencyCycle (path @ [node, parent])])
          = Some (st', errs')" by simp
      from visit_parents_keeps [OF this prems(2)] prems(5) show False by auto
    qed
    show ?thesis
    proof (cases "st parent")
      case None
      with reg prems(4) obtain st1 errs1 where
        v: "visit k tasks parent (path @ [node]) (st, errs) = Some (st1, errs1)"
        and vp: "visit_parents k tasks node path ps (st1, errs1) = Some (st', errs')"
        by (auto split: option.splits)
      from visit_keeps [OF v None prems(2)] have k1: "st1 parent = Some 2" "marks_ok st1"
        "\<exists>more. errs1 = errs @ more" by auto
      with visit_parents_keeps [OF vp k1(2)] prems(5) have e1: "errs1 = errs" and b: "black st1 \<subseteq> black st'"
        by auto
      from "4.hyps"(3) [OF _ not_gray None reg None prems(2,3) v e1] reg have "ordered tasks st1" by simp
      from "4.hyps"(4) [OF _ not_gray None v prems(1) k1(2) this vp] reg e1 prems(5) b k1(1)
      show ?thesis by (auto simp: black_def)
    next
      case (Some m)
      with prems(4) reg not_gray have vp: "visit_parents k tasks node path ps (st, errs) = Some (st', errs')"
        by auto
      from visit_parents_keeps [OF vp prems(2)] marks_ok_other [OF prems(2) _ not_gray] Some
      have "parent \<in> black st'" by auto
      with "4.hyps"(5) [OF _ not_gray _ prems(1-3) vp prems(5)] reg Some show ?thesis by simp
    qed
  qed
qed

lemma check_all_keeps:
  "check_all k tasks ids (st, errs) = Some (st', errs') \<Longrightarrow> marks_ok st \<Longrightarrow> gray st = {} \<Longrightarrow>
    marks_ok st' \<and> gray st' = {} \<and> black st \<subseteq> black st' \<and> set ids \<subseteq> black st' \<and> (\<exists>more. errs' = errs @ more)"
proof (induction ids arbitrary: st errs)
  case Nil
  then show ?case by auto
next
  case (Cons n ids)
  show ?case
  proof (cases "st n")
    case None
    with Cons.prems obtain st1 errs1 where v: "visit k tasks n [] (st, errs) = Some (st1, errs1)"
      and r: "check_all k tasks ids (st1, errs1) = Some (st', errs')" by (auto split: option.splits)
    from visit_keeps [OF v None Cons.prems(2)] Cons.prems(3)
    have "marks_ok st1" "gray st1 = {}" "black st \<subseteq> black st1" "n \<in> black st1" "\<exists>more. errs1 = errs @ more"
      by (auto simp: black_def)
    with Cons.IH [OF r] show ?thesis by force
  next
    case (Some m)
    with Cons.prems have "check_all k tasks ids (st, errs) = Some (st', errs')" by simp
    moreover have "n \<in> black st"
      using marks_ok_other [of st n] Some Cons.prems by (auto simp: gray_def)
    ultimately show ?thesis using Cons.IH [of st errs] Cons.prems by auto
  qed
qed

lemma check_all_ordered:
  "check_all k tasks ids (st, errs) = Some (st', errs) \<Longrightarrow> set ids \<subseteq> set (dict_keys tasks) \<Longrightarrow>
    marks_ok st \<Longrightarrow> gray st = {} \<Longrightarrow> ordered tasks st \<Longrightarrow> ordered tasks st'"
proof (induction ids arbitrary: st)
  case Nil
  then show ?case by simp
next
  case (Cons n ids)
  show ?case
  proof (cases "st n")
    case None
    with Cons.prems obtain st1 errs1 where v: "visit k tasks n [] (st, errs) = Some (st1, errs1)"
      and r: "check_all k tasks ids (st1, errs1) = Some (st', errs)" by (auto split: option.splits)
    from visit_keeps [OF v None Cons.prems(3)] Cons.prems(4)
    have k1: "marks_ok st1" "gray st1 = {}" "\<exists>more. errs1 = errs @ more" by auto
    with check_all_keeps [OF r] have "errs1 = errs" by auto
    with visit_ordered(1) [OF _ None Cons.prems(3,5) v] Cons.prems(2) have "ordered tasks st1" by simp
    with Cons.IH [of st1] r \<open>errs1 = errs\<close> k1 Cons.prems(2) show ?thesis by simp
  next
    case (Some m)
    with Cons show ?thesis by simp
  qed
qed

lemma check_all_acyclic:
  assumes "acyclic (dep_rel tasks)"
  shows "check_all k tasks ids (st, errs) = Some (st', errs') \<Longrightarrow> set ids \<subseteq> set (dict_keys tasks) \<Longrightarrow>
    marks_ok st \<Longrightarrow> gray st = {} \<Longrightarrow> errs' = errs"
proof (induction ids arbitrary: st errs)
  case Nil
  then show ?case by simp
next
  case (Cons n ids)
  show ?case
  proof (cases "st n")
    case None
    with Cons.prems obtain st1 errs1 where v: "visit k tasks n [] (st, errs) = Some (st1, errs1)"
      and r: "check_all k tasks ids (st1, errs1) = Some (st', errs')" by (auto split: option.splits)
    from visit_keeps [OF v None Cons.prems(3)] Cons.prems(4) have "marks_ok st1" "gray st1 = {}" by auto
    moreover have "errs1 = errs"
      using no_cycle_no_error(1) [OF assms _ None Cons.prems(3) _ v] Cons.prems(2,4) by simp
    ultimately show ?thesis using Cons.IH [OF r] Cons.prems(2) by simp
  next
    case (Some m)
    with Cons show ?thesis by simp
  qed
qed

lemma ranked_acyclic:
  fixes rank :: "'a \<Rightarrow> nat"
  assumes "\<And>x y. (x, y) \<in> r \<Longrightarrow> rank y < rank x"
  shows "acyclic r"
proof -
  have "rank y < rank x" if "(x, y) \<in> r\<^sup>+" for x y
    using that by (induction rule: trancl.induct) (auto dest: assms intro: less_trans)
  then show ?thesis by (auto simp: acyclic_def)
qed

lemma validate_acyclic_iff: "validate_acyclic tasks = Some [] \<longleftrightarrow> acyclic (dep_rel tasks)"
proof -
  let ?ids = "sort (dict_keys tasks)"
  obtain st' errs where c: "check_all (Suc (length tasks)) tasks ?ids (Map.empty, []) = Some (st', errs)"
    using validate_acyclic_total [of tasks] by (auto simp: validate_acyclic_def)
  have e: "marks_ok Map.empty" "gray Map.empty = {}" "ordered tasks Map.empty"
    by (auto simp: marks_ok_def gray_def ordered_def black_def)
  have "errs = [] \<longleftrightarrow> acyclic (dep_rel tasks)"
  proof
    assume "errs = []"
    with check_all_ordered [of "Suc (length tasks)" tasks ?ids Map.empty "[]" st'] c e
    have "ordered tasks st'" by simp
    then obtain rank :: "string \<Rightarrow> nat" where
      rank: "\<And>n p. n \<in> black st' \<Longrightarrow> (n, p) \<in> dep_rel tasks \<Longrightarrow> rank p < rank n"
      unfolding ordered_def by blast
    have "set (dict_keys tasks) \<subseteq> black st'" using check_all_keeps [OF c e(1,2)] by simp
    with rank show "acyclic (dep_rel tasks)"
      by (intro ranked_acyclic [of _ rank]) (auto simp: dep_rel_def)
  next
    assume "acyclic (dep_rel tasks)"
    from check_all_acyclic [OF this c] e show "errs = []" by simp
  qed
  with c show ?thesis by (simp add: validate_acyclic_def)
qed

lemma validate_spec_Nil:
  "validate_spec tasks spec = [] \<longleftrightarrow>
     set (spec_dependencies spec) \<subseteq> set (dict_keys tasks) \<and>
     (versioned_kind (spec_kind spec) \<longleftrightarrow> spec_version_provider spec \<noteq> None)"
  by (auto simp: validate_spec_def)

end
