(* ===== verification/Meta_Memory.thy ===== *)
theory Meta_Memory
  imports Run_Table Task_Registry
begin

text \<open>
  \<open>InMemoryMetaRepository\<close> (\<open>runtime/repository.py\<close>): definitions, dependencies, runs and
  watermarks in dictionaries.  Every operation holds the repository's lock for its whole body, so
  it is one atomic state change; the clock \<open>utcnow()\<close> is an argument.  The lemmas show that
  each operation keeps \<open>mem_inv\<close> and moves a run only along \<open>status_step\<close>.
\<close>

record mem_repo =
  mem_defs :: "(string, job_def) dict"
  mem_deps :: "job_dependency list"
  mem_runs :: "(int, job_run) dict"
  mem_watermarks :: "(string \<times> string, watermark) dict"
  mem_next_run_id :: int

definition mem_empty :: mem_repo where
  "mem_empty = \<lparr>mem_defs = [], mem_deps = [], mem_runs = [], mem_watermarks = [], mem_next_run_id = 1\<rparr>"

subsection \<open>Definitions and dependencies\<close>

definition mem_sync_defs :: "job_def list \<Rightarrow> mem_repo \<Rightarrow> mem_repo" where
  "mem_sync_defs defs m = m\<lparr>mem_defs := foldl (\<lambda>d item. AList.update (def_job_id item) item d) (mem_defs m) defs\<rparr>"

definition mem_sync_dependencies :: "job_dependency list \<Rightarrow> mem_repo \<Rightarrow> mem_repo" where
  "mem_sync_dependencies deps m = m\<lparr>mem_deps := deps\<rparr>"

definition mem_list_defs :: "mem_repo \<Rightarrow> job_def list" where
  "mem_list_defs m = dict_values (mem_defs m)"

definition mem_list_dependencies :: "mem_repo \<Rightarrow> job_dependency list" where
  "mem_list_dependencies m = mem_deps m"

subsection \<open>Runs\<close>

definition mem_create_run ::
  "(string \<Rightarrow> string) \<Rightarrow> job_intent \<Rightarrow> string option \<Rightarrow> time \<Rightarrow> mem_repo \<Rightarrow> (mem_repo \<times> job_run option) result" where
  "mem_create_run sha256_hex i request_id now m =
     (case intent_key sha256_hex i of
        Inl e \<Rightarrow> Inl e
      | Inr key \<Rightarrow>
          if list_ex (\<lambda>run. run_job_key run = key \<and> run_status run \<in> ACTIVE_STATUSES) (dict_values (mem_runs m))
          then Inr (m, None)
          else let run = new_run i key (mem_next_run_id m) request_id now
               in Inr (m\<lparr>mem_runs := AList.update (run_id run) run (mem_runs m),
                         mem_next_run_id := mem_next_run_id m + 1\<rparr>, Some run))"

definition mem_candidates :: "time \<Rightarrow> mem_repo \<Rightarrow> job_run list" where
  "mem_candidates moment m =
     (let running_scopes = map (\<lambda>run. (run_dataset run, run_scope run))
            (filter (\<lambda>run. run_status run = RUNNING) (dict_values (mem_runs m)))
      in sort_key claim_order
           (filter (\<lambda>run. run_status run \<in> CLAIMABLE_STATUSES \<and> run_scheduled_at run \<le> moment
              \<and> (run_dataset run, run_scope run) \<notin> set running_scopes) (dict_values (mem_runs m))))"

definition mem_claim_next :: "string \<Rightarrow> time option \<Rightarrow> time \<Rightarrow> mem_repo \<Rightarrow> mem_repo \<times> job_run option" where
  "mem_claim_next worker now utcnow m =
     (let moment = (case now of Some t \<Rightarrow> t | None \<Rightarrow> utcnow)
      in case mem_candidates moment m of
           [] \<Rightarrow> (m, None)
         | run # _ \<Rightarrow>
             let claimed = claimed_run worker moment run
             in (m\<lparr>mem_runs := AList.update (run_id run) claimed (mem_runs m)\<rparr>, Some claimed))"

definition mem_finish ::
  "int \<Rightarrow> job_status \<Rightarrow> int option \<Rightarrow> string option \<Rightarrow> int option \<Rightarrow> time option \<Rightarrow> time \<Rightarrow> mem_repo
    \<Rightarrow> (mem_repo \<times> job_run) result" where
  "mem_finish rid st rows_written error attempt scheduled_at utcnow m =
     (case map_of (mem_runs m) rid of
        None \<Rightarrow> Inl KeyError
      | Some run \<Rightarrow>
          if run_status run \<noteq> RUNNING then Inr (m, run)
          else let f = finished_run st rows_written error attempt scheduled_at utcnow run
               in Inr (m\<lparr>mem_runs := AList.update rid f (mem_runs m)\<rparr>, f))"

definition mem_succeed :: "int \<Rightarrow> int \<Rightarrow> time \<Rightarrow> mem_repo \<Rightarrow> (mem_repo \<times> job_run) result" where
  "mem_succeed rid rows_written utcnow m =
     mem_finish rid SUCCEEDED (Some rows_written) None None None utcnow m"

definition mem_fail :: "int \<Rightarrow> string \<Rightarrow> time \<Rightarrow> mem_repo \<Rightarrow> (mem_repo \<times> job_run) result" where
  "mem_fail rid error utcnow m =
     (case map_of (mem_runs m) rid of
        None \<Rightarrow> Inl KeyError
      | Some run \<Rightarrow>
          if run_attempt run < run_max_attempts run
          then mem_finish rid RETRYING None (Some error) (Some (run_attempt run + 1))
                 (Some (utcnow + retry_delay (run_attempt run))) utcnow m
          else mem_finish rid DEAD None (Some error) None None utcnow m)"

definition mem_interrupt :: "int \<Rightarrow> string \<Rightarrow> time \<Rightarrow> mem_repo \<Rightarrow> (mem_repo \<times> job_run) result" where
  "mem_interrupt rid reason utcnow m = mem_finish rid INTERRUPTED None (Some reason) None None utcnow m"

text \<open>The stored reason, a four-character Chinese text (``shutdown timeout'') in UTF-8.\<close>

definition shutdown_timeout_text :: string where
  "shutdown_timeout_text = [CHR 0xE5, CHR 0x81, CHR 0x9C, CHR 0xE6, CHR 0x9C, CHR 0xBA, CHR 0xE8, CHR 0xB6,
     CHR 0x85, CHR 0xE6, CHR 0x97, CHR 0xB6]"

definition worker_matches :: "string \<Rightarrow> job_run \<Rightarrow> bool" where
  "worker_matches prefix run =
     starts_with prefix (case run_worker run of Some w \<Rightarrow> w | None \<Rightarrow> [])"

fun mem_interrupt_loop ::
  "string \<Rightarrow> time \<Rightarrow> job_run list \<Rightarrow> mem_repo \<Rightarrow> int \<Rightarrow> (mem_repo \<times> int) result" where
  "mem_interrupt_loop prefix utcnow [] m count = Inr (m, count)"
| "mem_interrupt_loop prefix utcnow (run # runs) m count =
     (if run_status run = RUNNING \<and> worker_matches prefix run
      then (case mem_finish (run_id run) INTERRUPTED None (Some shutdown_timeout_text) None None utcnow m of
              Inl e \<Rightarrow> Inl e
            | Inr (m', _) \<Rightarrow> mem_interrupt_loop prefix utcnow runs m' (count + 1))
      else mem_interrupt_loop prefix utcnow runs m count)"

definition mem_interrupt_running :: "string \<Rightarrow> time \<Rightarrow> mem_repo \<Rightarrow> (mem_repo \<times> int) result" where
  "mem_interrupt_running prefix utcnow m =
     mem_interrupt_loop prefix utcnow (dict_values (mem_runs m)) m 0"

definition mem_get_run :: "int \<Rightarrow> mem_repo \<Rightarrow> job_run option" where
  "mem_get_run rid m = map_of (mem_runs m) rid"

text \<open>\<open>xs[:n]\<close>, where a negative bound counts from the end.\<close>

definition slice_upto :: "int \<Rightarrow> 'a list \<Rightarrow> 'a list" where
  "slice_upto n xs = (if 0 \<le> n then take (nat n) xs else take (length xs - nat (- n)) xs)"

definition mem_list_runs :: "job_status option \<Rightarrow> string option \<Rightarrow> int \<Rightarrow> mem_repo \<Rightarrow> job_run list" where
  "mem_list_runs st job_id limit m =
     slice_upto limit (sort_key (\<lambda>run. - run_id run)
       (filter (\<lambda>run. (case st of None \<Rightarrow> True | Some s \<Rightarrow> run_status run = s)
          \<and> (case job_id of None \<Rightarrow> True | Some j \<Rightarrow> run_job_id run = j)) (dict_values (mem_runs m))))"

definition mem_find_run_by_request_id :: "string \<Rightarrow> mem_repo \<Rightarrow> job_run option" where
  "mem_find_run_by_request_id request_id m =
     min_by run_id (filter (\<lambda>run. run_request_id run = Some request_id) (dict_values (mem_runs m)))"

definition mem_count_queued :: "mem_repo \<Rightarrow> int" where
  "mem_count_queued m =
     int (length (filter (\<lambda>run. run_status run \<in> CLAIMABLE_STATUSES) (dict_values (mem_runs m))))"

definition matching_runs :: "string \<Rightarrow> string \<Rightarrow> date option \<Rightarrow> date option \<Rightarrow> job_run list \<Rightarrow> job_run list" where
  "matching_runs job scope ws we runs = filter (\<lambda>run. run_job_id run = job \<and> run_scope run = scope
     \<and> run_window_start run = ws \<and> run_window_end run = we) runs"

definition dep_ready :: "job_dependency \<Rightarrow> job_run list \<Rightarrow> bool" where
  "dep_ready dep matched =
     (if matched = [] then False
      else if dep_condition dep = condition_value ALWAYS then True
      else if dep_condition dep = condition_value ON_COMPLETE
        then list_ex (\<lambda>run. run_status run \<in> TERMINAL_STATUSES) matched
      else list_ex (\<lambda>run. run_status run = SUCCEEDED) matched)"

definition mem_parents_ready :: "string \<Rightarrow> string \<Rightarrow> date option \<Rightarrow> date option \<Rightarrow> mem_repo \<Rightarrow> bool" where
  "mem_parents_ready child_job scope ws we m =
     list_all (\<lambda>dep. dep_ready dep (matching_runs (dep_parent_job dep) scope ws we (dict_values (mem_runs m))))
       (filter (\<lambda>dep. dep_child_job dep = child_job) (mem_deps m))"

subsection \<open>Watermarks\<close>

definition mem_get_watermark :: "string \<Rightarrow> string \<Rightarrow> mem_repo \<Rightarrow> watermark option" where
  "mem_get_watermark dataset scope m = map_of (mem_watermarks m) (dataset, scope)"

definition mem_list_watermarks :: "mem_repo \<Rightarrow> watermark list" where
  "mem_list_watermarks m =
     sort_key (\<lambda>mark. (wm_dataset mark, wm_scope mark)) (dict_values (mem_watermarks m))"

definition mem_set_watermark :: "string \<Rightarrow> string \<Rightarrow> time \<Rightarrow> mem_repo \<Rightarrow> mem_repo \<times> watermark" where
  "mem_set_watermark dataset scope t m =
     (let mark = \<lparr>wm_dataset = dataset, wm_scope = scope, wm_watermark_time = Some t\<rparr>
      in (m\<lparr>mem_watermarks := AList.update (dataset, scope) mark (mem_watermarks m)\<rparr>, mark))"

definition mem_advance_watermark :: "string \<Rightarrow> string \<Rightarrow> time \<Rightarrow> mem_repo \<Rightarrow> mem_repo \<times> watermark" where
  "mem_advance_watermark dataset scope t m =
     (case map_of (mem_watermarks m) (dataset, scope) of
        Some current \<Rightarrow>
          (case wm_watermark_time current of
             Some c \<Rightarrow> if t \<le> c then (m, current) else mem_set_watermark dataset scope t m
           | None \<Rightarrow> mem_set_watermark dataset scope t m)
      | None \<Rightarrow> mem_set_watermark dataset scope t m)"

subsection \<open>The dictionary of runs as a table\<close>

definition mem_table :: "mem_repo \<Rightarrow> job_run list" where
  "mem_table m = dict_values (mem_runs m)"

definition mem_state :: "mem_repo \<Rightarrow> job_run list \<times> int" where
  "mem_state m = (mem_table m, mem_next_run_id m)"

definition keyed :: "(int, job_run) dict \<Rightarrow> bool" where
  "keyed d \<longleftrightarrow> d = map (\<lambda>r. (run_id r, r)) (dict_values d)"

definition marks_keyed :: "(string \<times> string, watermark) dict \<Rightarrow> bool" where
  "marks_keyed d \<longleftrightarrow> distinct (dict_keys d) \<and> (\<forall>(k, w) \<in> set d. k = (wm_dataset w, wm_scope w))"

definition mem_inv :: "mem_repo \<Rightarrow> bool" where
  "mem_inv m \<longleftrightarrow> keyed (mem_runs m) \<and> runs_inv (mem_table m) (mem_next_run_id m)
     \<and> marks_keyed (mem_watermarks m)"

lemma mem_inv_empty [simp]: "mem_inv mem_empty"
  by (simp add: mem_inv_def mem_empty_def keyed_def mem_table_def marks_keyed_def)

lemma keyed_Cons: "keyed ((k, r) # d) \<longleftrightarrow> k = run_id r \<and> keyed d"
  by (auto simp: keyed_def)

lemma keyed_lookup: "keyed d \<Longrightarrow> map_of d i = find_run i (dict_values d)"
  by (induction d) (auto simp: keyed_Cons find_run_def)

lemma keyed_update:
  assumes "keyed d" and "i = run_id x" and "i \<in> set (map run_id (dict_values d))"
    and "distinct (map run_id (dict_values d))"
  shows "keyed (AList.update i x d) \<and> dict_values (AList.update i x d) = put_run x (dict_values d)"
  using assms
proof (induction d)
  case Nil
  then show ?case by simp
next
  case (Cons p d)
  obtain k r where p: "p = (k, r)" by (cases p)
  with Cons.prems have kr: "k = run_id r" "keyed d" by (auto simp: keyed_Cons)
  show ?case
  proof (cases "k = i")
    case True
    with Cons.prems p kr have "run_id x \<notin> set (map run_id (dict_values d))" by auto
    then have "put_run x (dict_values d) = dict_values d"
      unfolding put_run_def by (intro map_idI) (auto simp: image_iff)
    with True p kr Cons.prems(2) show ?thesis by (auto simp: keyed_Cons put_run_def)
  next
    case False
    with Cons.IH Cons.prems p kr show ?thesis by (auto simp: keyed_Cons put_run_def)
  qed
qed

lemma keyed_new:
  assumes "keyed d" and "run_id x \<notin> set (map run_id (dict_values d))"
  shows "AList.update (run_id x) x d = d @ [(run_id x, x)]" and "keyed (d @ [(run_id x, x)])"
proof -
  have "dict_keys d = map run_id (dict_values d)"
    using assms(1) by (induction d) (fastforce simp: keyed_Cons)+
  with assms(2) show "AList.update (run_id x) x d = d @ [(run_id x, x)]" by (simp add: update_new)
  show "keyed (d @ [(run_id x, x)])"
    using assms(1) by (induction d) (auto simp: keyed_def)
qed

lemma mem_lookup: "mem_inv m \<Longrightarrow> map_of (mem_runs m) i = find_run i (mem_table m)"
  by (simp add: mem_inv_def mem_table_def keyed_lookup)

text \<open>Storing a later state of a run is \<open>put_run\<close> on the table.\<close>

lemma mem_store:
  assumes "mem_inv m" and "r \<in> set (mem_table m)" and "run_id x = run_id r"
  defines "m' \<equiv> m\<lparr>mem_runs := AList.update (run_id r) x (mem_runs m)\<rparr>"
  shows "mem_table m' = put_run x (mem_table m)" and "keyed (mem_runs m')"
    and "mem_state m' = (put_run x (mem_table m), mem_next_run_id m)"
  using assms keyed_update [of "mem_runs m" "run_id r" x]
  by (auto simp: mem_inv_def mem_table_def mem_state_def runs_inv_def ids_ok_def m'_def)

subsection \<open>Each operation is a step of the table\<close>

lemma mem_create_run_cases:
  assumes "mem_create_run h i req now m = Inr (m', res)" and "mem_inv m"
  obtains (dup) "m' = m" "res = None"
      "\<exists>r \<in> set (mem_table m). Inr (run_job_key r) = intent_key h i \<and> run_status r \<in> ACTIVE_STATUSES"
  | (new) key where "intent_key h i = Inr key" "res = Some (new_run i key (mem_next_run_id m) req now)"
      "mem_state m' = (mem_table m @ [new_run i key (mem_next_run_id m) req now], mem_next_run_id m + 1)"
      "\<forall>r \<in> set (mem_table m). run_job_key r = key \<longrightarrow> run_status r \<notin> ACTIVE_STATUSES"
      "keyed (mem_runs m')" "mem_watermarks m' = mem_watermarks m" "mem_deps m' = mem_deps m"
proof -
  from assms(1) obtain key where key: "intent_key h i = Inr key"
    by (auto simp: mem_create_run_def split: sum.splits)
  let ?x = "new_run i key (mem_next_run_id m) req now"
  have "run_id ?x \<notin> set (map run_id (dict_values (mem_runs m)))"
    using assms(2) by (auto simp: mem_inv_def runs_inv_def ids_ok_def mem_table_def new_run_def)
  then have upd: "AList.update (run_id ?x) ?x (mem_runs m) = mem_runs m @ [(run_id ?x, ?x)]"
    "keyed (mem_runs m @ [(run_id ?x, ?x)])"
    using assms(2) keyed_new [of "mem_runs m" ?x] by (auto simp: mem_inv_def)
  show thesis
  proof (cases "list_ex (\<lambda>run. run_job_key run = key \<and> run_status run \<in> ACTIVE_STATUSES) (dict_values (mem_runs m))")
    case True
    with assms(1) key show thesis
      by (intro dup) (auto simp: mem_create_run_def list_ex_iff mem_table_def)
  next
    case False
    have "m\<lparr>mem_runs := mem_runs m @ [(run_id ?x, ?x)], mem_next_run_id := mem_next_run_id m + 1\<rparr> = m'"
      and "res = Some ?x"
      using assms(1) by (simp_all only: mem_create_run_def key sum.case False if_False Let_def upd(1) sum.inject prod.inject)
    then show thesis using False upd(2) key
      by (intro new [of key]) (auto simp: list_ex_iff mem_table_def mem_state_def)
  qed
qed

lemma mem_candidates_first:
  assumes "mem_candidates moment m = r # rs"
  shows "r \<in> set (mem_table m)" and "run_status r \<in> CLAIMABLE_STATUSES" and "run_scheduled_at r \<le> moment"
    and "\<forall>r' \<in> set (mem_table m). run_status r' = RUNNING \<longrightarrow> (run_dataset r', run_scope r') \<noteq> (run_dataset r, run_scope r)"
    and "\<forall>r' \<in> set (mem_table m). run_status r' \<in> CLAIMABLE_STATUSES \<longrightarrow> run_scheduled_at r' \<le> moment \<longrightarrow>
      (\<forall>q \<in> set (mem_table m). run_status q = RUNNING \<longrightarrow> (run_dataset q, run_scope q) \<noteq> (run_dataset r', run_scope r')) \<longrightarrow>
      claim_order r \<le> claim_order r'"
proof -
  define busy where "busy = map (\<lambda>run. (run_dataset run, run_scope run))
            (filter (\<lambda>run. run_status run = RUNNING) (mem_table m))"
  define P :: "job_run \<Rightarrow> bool" where "P = (\<lambda>run. run_status run \<in> CLAIMABLE_STATUSES \<and> run_scheduled_at run \<le> moment
              \<and> (run_dataset run, run_scope run) \<notin> set busy)"
  have c: "sort_key claim_order (filter P (mem_table m)) = r # rs"
    using assms by (simp add: mem_candidates_def Let_def mem_table_def P_def busy_def)
  from sort_key_hd(1) [OF c] have r: "r \<in> set (mem_table m)" "P r" by auto
  have busy: "(d, s) \<notin> set busy \<longleftrightarrow>
      (\<forall>q \<in> set (mem_table m). run_status q = RUNNING \<longrightarrow> (run_dataset q, run_scope q) \<noteq> (d, s))" for d s
    by (auto simp: busy_def image_iff)
  show "r \<in> set (mem_table m)" "run_status r \<in> CLAIMABLE_STATUSES" "run_scheduled_at r \<le> moment"
    "\<forall>r' \<in> set (mem_table m). run_status r' = RUNNING \<longrightarrow> (run_dataset r', run_scope r') \<noteq> (run_dataset r, run_scope r)"
    using r busy by (simp_all add: P_def)
  show "\<forall>r' \<in> set (mem_table m). run_status r' \<in> CLAIMABLE_STATUSES \<longrightarrow> run_scheduled_at r' \<le> moment \<longrightarrow>
      (\<forall>q \<in> set (mem_table m). run_status q = RUNNING \<longrightarrow> (run_dataset q, run_scope q) \<noteq> (run_dataset r', run_scope r')) \<longrightarrow>
      claim_order r \<le> claim_order r'"
    using sort_key_hd(2) [OF c] busy by (simp add: P_def)
qed

lemma mem_claim_next_cases:
  assumes "mem_claim_next worker now utcnow m = (m', res)" and "mem_inv m"
  obtains (none) "m' = m" "res = None"
  | (claimed) r moment where "moment = (case now of Some t \<Rightarrow> t | None \<Rightarrow> utcnow)" "r \<in> set (mem_table m)"
      "\<exists>rs. mem_candidates moment m = r # rs" "res = Some (claimed_run worker moment r)"
      "mem_state m' = (put_run (claimed_run worker moment r) (mem_table m), mem_next_run_id m)"
      "keyed (mem_runs m')" "mem_watermarks m' = mem_watermarks m" "mem_deps m' = mem_deps m"
proof -
  define moment where "moment = (case now of Some t \<Rightarrow> t | None \<Rightarrow> utcnow)"
  show thesis
  proof (cases "mem_candidates moment m")
    case Nil
    with assms(1) show thesis by (intro none) (auto simp: mem_claim_next_def Let_def moment_def)
  next
    case (Cons r rs)
    from mem_store [OF assms(2) mem_candidates_first(1) [OF Cons], of "claimed_run worker moment r"] assms(1) Cons
    show thesis
      by (intro claimed [OF moment_def mem_candidates_first(1) [OF Cons]])
        (auto simp: mem_claim_next_def Let_def moment_def [symmetric])
  qed
qed

lemma mem_finish_cases:
  assumes "mem_finish rid st rows err att sched now m = res" and "mem_inv m"
  obtains (missing) "res = Inl KeyError" "find_run rid (mem_table m) = None"
  | (idle) r where "find_run rid (mem_table m) = Some r" "run_status r \<noteq> RUNNING" "res = Inr (m, r)"
  | (ended) r m' where "find_run rid (mem_table m) = Some r" "r \<in> set (mem_table m)" "run_id r = rid"
      "run_status r = RUNNING" "res = Inr (m', finished_run st rows err att sched now r)"
      "mem_state m' = (put_run (finished_run st rows err att sched now r) (mem_table m), mem_next_run_id m)"
      "keyed (mem_runs m')" "mem_watermarks m' = mem_watermarks m" "mem_deps m' = mem_deps m"
proof (cases "find_run rid (mem_table m)")
  case None
  with assms show thesis by (intro missing) (auto simp: mem_finish_def mem_lookup)
next
  case (Some r)
  note r = find_run_Some [OF Some]
  show thesis
  proof (cases "run_status r = RUNNING")
    case False
    with assms Some show thesis by (intro idle) (auto simp: mem_finish_def mem_lookup)
  next
    case True
    let ?x = "finished_run st rows err att sched now r"
    from mem_store [OF assms(2), of r ?x] r assms Some True show thesis
      by (intro ended [of r "m\<lparr>mem_runs := AList.update (run_id r) ?x (mem_runs m)\<rparr>"]) (auto simp: mem_finish_def mem_lookup Let_def)
  qed
qed

text \<open>A transition of the repository: a sequence of table steps that keeps watermarks and dependencies.\<close>

definition mem_moves :: "mem_repo \<Rightarrow> mem_repo \<Rightarrow> bool" where
  "mem_moves m m' \<longleftrightarrow> table_step\<^sup>*\<^sup>* (mem_state m) (mem_state m') \<and> keyed (mem_runs m')
     \<and> mem_watermarks m' = mem_watermarks m \<and> mem_deps m' = mem_deps m"

lemma mem_moves_refl: "mem_inv m \<Longrightarrow> mem_moves m m"
  by (simp add: mem_moves_def mem_inv_def)

lemma mem_moves_inv: "mem_moves m m' \<Longrightarrow> mem_inv m \<Longrightarrow> mem_inv m'"
  using table_steps_inv [of "mem_state m" "mem_state m'"]
  by (simp add: mem_moves_def mem_inv_def mem_state_def)

lemma mem_moves_trans: "mem_moves a b \<Longrightarrow> mem_moves b c \<Longrightarrow> mem_moves a c"
  by (auto simp: mem_moves_def)

lemma mem_moves_step:
  "table_step (mem_state m) (mem_state m') \<Longrightarrow> keyed (mem_runs m') \<Longrightarrow>
    mem_watermarks m' = mem_watermarks m \<Longrightarrow> mem_deps m' = mem_deps m \<Longrightarrow> mem_moves m m'"
  by (auto simp: mem_moves_def)

lemma mem_create_run_moves:
  "mem_create_run h i req now m = Inr (m', res) \<Longrightarrow> mem_inv m \<Longrightarrow> mem_moves m m'"
  by (erule (1) mem_create_run_cases)
    (auto intro: mem_moves_refl mem_moves_step simp: mem_state_def [of m] table_step.create)

lemma mem_claim_next_moves:
  assumes "mem_claim_next worker now utcnow m = (m', res)" and "mem_inv m"
  shows "mem_moves m m'"
  using assms
proof (cases rule: mem_claim_next_cases)
  case none
  with assms show ?thesis by (simp add: mem_moves_refl)
next
  case (claimed r moment)
  from claimed(3) obtain rs where "mem_candidates moment m = r # rs" by blast
  from mem_candidates_first [OF this] claimed show ?thesis
    by (intro mem_moves_step) (simp_all add: mem_state_def [of m] table_step.claim)
qed

lemma mem_succeed_moves:
  "mem_succeed rid rows now m = Inr (m', res) \<Longrightarrow> mem_inv m \<Longrightarrow> mem_moves m m'"
  unfolding mem_succeed_def
  by (erule (1) mem_finish_cases)
    (auto intro: mem_moves_refl mem_moves_step simp: mem_state_def [of m] table_step.succeed)

lemma mem_interrupt_moves:
  "mem_finish rid INTERRUPTED None (Some reason) None None now m = Inr (m', res) \<Longrightarrow> mem_inv m \<Longrightarrow> mem_moves m m'"
  by (erule (1) mem_finish_cases)
    (auto intro: mem_moves_refl mem_moves_step simp: mem_state_def [of m] table_step.interrupt)

lemma mem_fail_moves:
  assumes "mem_fail rid err now m = Inr (m', res)" and "mem_inv m"
  shows "mem_moves m m'"
proof -
  from assms obtain r where r: "find_run rid (mem_table m) = Some r"
    by (auto simp: mem_fail_def mem_lookup split: option.splits)
  note fail = assms(1) [unfolded mem_fail_def mem_lookup [OF assms(2)] r option.case]
  show ?thesis
  proof (cases "run_attempt r < run_max_attempts r")
    case True
    with fail have "mem_finish rid RETRYING None (Some err) (Some (run_attempt r + 1))
        (Some (now + retry_delay (run_attempt r))) now m = Inr (m', res)" by simp
    from this assms(2) show ?thesis
      using r True assms(2) by (cases rule: mem_finish_cases)
        (auto intro: mem_moves_refl mem_moves_step simp: mem_state_def [of m] table_step.retry)
  next
    case False
    with fail have "mem_finish rid DEAD None (Some err) None None now m = Inr (m', res)" by simp
    from this assms(2) show ?thesis
      using r False assms(2) by (cases rule: mem_finish_cases)
        (auto intro: mem_moves_refl mem_moves_step simp: mem_state_def [of m] table_step.die)
  qed
qed

lemma mem_interrupt_loop_moves:
  "mem_interrupt_loop prefix now runs m n = Inr (m', c) \<Longrightarrow> mem_inv m \<Longrightarrow> mem_moves m m'"
proof (induction runs arbitrary: m n)
  case Nil
  then show ?case by (simp add: mem_moves_refl)
next
  case (Cons r runs)
  show ?case
  proof (cases "run_status r = RUNNING \<and> worker_matches prefix r")
    case True
    with Cons.prems(1) obtain m1 x where
      f: "mem_finish (run_id r) INTERRUPTED None (Some shutdown_timeout_text) None None now m = Inr (m1, x)"
      and l: "mem_interrupt_loop prefix now runs m1 (n + 1) = Inr (m', c)" by (auto split: sum.splits)
    note mv = mem_interrupt_moves [OF f Cons.prems(2)]
    from mem_moves_trans [OF mv Cons.IH [OF l mem_moves_inv [OF mv Cons.prems(2)]]] show ?thesis .
  next
    case False
    with Cons show ?thesis by auto
  qed
qed

lemma mem_advance_cases:
  "mem_advance_watermark d s t m =
    (case mem_get_watermark d s m of
       Some w \<Rightarrow> (case wm_watermark_time w of Some c \<Rightarrow> if t \<le> c then (m, w) else mem_set_watermark d s t m
                  | None \<Rightarrow> mem_set_watermark d s t m)
     | None \<Rightarrow> mem_set_watermark d s t m)"
  by (simp add: mem_advance_watermark_def mem_get_watermark_def)

lemma mem_set_watermark_inv: "mem_inv m \<Longrightarrow> mem_inv (fst (mem_set_watermark d s t m))"
  by (auto simp: mem_inv_def mem_set_watermark_def Let_def mem_table_def marks_keyed_def distinct_update
    set_update_in)

lemma mem_advance_watermark_inv: "mem_inv m \<Longrightarrow> mem_inv (fst (mem_advance_watermark d s t m))"
  by (auto simp: mem_advance_cases mem_set_watermark_inv split: option.splits)

end
