(* ===== verification/Meta_Sql.thy ===== *)
theory Meta_Sql
  imports Meta_Memory
begin

text \<open>
  \<open>SqlMetaRepository\<close> (\<open>runtime/repository.py\<close>): the \<open>meta\<close> tables as row lists, one transaction
  per operation.  A statement is written as what the database does for it: an \<open>INSERT\<close> appends a
  row or fails on a duplicate primary key, an \<open>UPDATE\<close> maps the rows its \<open>WHERE\<close> selects, an
  \<open>ORDER BY\<close> sorts, \<open>LIKE\<close> matches as the engine's dialect reads it.  Run ids come from the table's sequence.
  The columns \<open>updated_at\<close> are never read and are left out; timestamps are naive UTC, the form
  \<open>_naive\<close> brings them to.
\<close>

record sql_repo =
  sql_job_defs :: "job_def list"
  sql_job_dependencies :: "job_dependency list"
  sql_job_runs :: "job_run list"
  sql_watermarks :: "watermark list"
  sql_run_seq :: int
  sql_dialect :: dialect

definition sql_empty :: "dialect \<Rightarrow> sql_repo" where
  "sql_empty d = \<lparr>sql_job_defs = [], sql_job_dependencies = [], sql_job_runs = [], sql_watermarks = [],
     sql_run_seq = 1, sql_dialect = d\<rparr>"

text \<open>Inserting rows one by one into a table with a primary key.\<close>

fun insert_rows :: "('a \<Rightarrow> 'k) \<Rightarrow> 'a list \<Rightarrow> 'a list \<Rightarrow> 'a list result" where
  "insert_rows pk [] table = Inr table"
| "insert_rows pk (row # rows) table =
     (if pk row \<in> set (map pk table) then Inl IntegrityError
      else insert_rows pk rows (table @ [row]))"

subsection \<open>Definitions and dependencies\<close>

definition sql_sync_defs :: "job_def list \<Rightarrow> sql_repo \<Rightarrow> sql_repo result" where
  "sql_sync_defs defs q =
     (case insert_rows def_job_id defs [] of
        Inl e \<Rightarrow> Inl e
      | Inr rows \<Rightarrow> Inr (q\<lparr>sql_job_defs := rows\<rparr>))"

definition dep_key :: "job_dependency \<Rightarrow> string \<times> string" where
  "dep_key dep = (dep_parent_job dep, dep_child_job dep)"

definition sql_sync_dependencies :: "job_dependency list \<Rightarrow> sql_repo \<Rightarrow> sql_repo result" where
  "sql_sync_dependencies deps q =
     (case insert_rows dep_key deps [] of
        Inl e \<Rightarrow> Inl e
      | Inr rows \<Rightarrow> Inr (q\<lparr>sql_job_dependencies := rows\<rparr>))"

definition sql_list_defs :: "sql_repo \<Rightarrow> job_def list" where
  "sql_list_defs q = sql_job_defs q"

definition sql_list_dependencies :: "sql_repo \<Rightarrow> job_dependency list" where
  "sql_list_dependencies q = sql_job_dependencies q"

subsection \<open>Runs\<close>

definition sql_create_run ::
  "(string \<Rightarrow> string) \<Rightarrow> job_intent \<Rightarrow> string option \<Rightarrow> time \<Rightarrow> sql_repo \<Rightarrow> (sql_repo \<times> job_run option) result" where
  "sql_create_run sha256_hex i request_id now q =
     (case intent_key sha256_hex i of
        Inl e \<Rightarrow> Inl e
      | Inr key \<Rightarrow>
          let statuses = map run_status (filter (\<lambda>r. run_job_key r = key) (sql_job_runs q))
          in if list_ex (\<lambda>s. s \<in> CLAIMABLE_STATUSES \<union> {RUNNING, SUCCEEDED}) statuses then Inr (q, None)
             else let rid = sql_run_seq q;
                      q' = q\<lparr>sql_job_runs := sql_job_runs q @ [new_run i key rid request_id now],
                             sql_run_seq := rid + 1\<rparr>
                  in case find_run rid (sql_job_runs q') of
                       None \<Rightarrow> Inl NoResultFound
                     | Some row \<Rightarrow> Inr (q', Some row))"

text \<open>
  The candidate query of \<open>claim_next\<close>, and the guarded update that follows it in the same
  transaction.
\<close>

definition sql_scope_busy :: "job_run list \<Rightarrow> job_run \<Rightarrow> bool" where
  "sql_scope_busy rows r = list_ex (\<lambda>running. run_dataset running = run_dataset r
     \<and> run_scope running = run_scope r \<and> run_status running = RUNNING) rows"

definition sql_claim_select :: "time \<Rightarrow> job_run list \<Rightarrow> job_run option" where
  "sql_claim_select moment rows =
     (case sort_key claim_order (filter (\<lambda>r. run_status r \<in> CLAIMABLE_STATUSES
        \<and> run_scheduled_at r \<le> moment \<and> \<not> sql_scope_busy rows r) rows) of
        [] \<Rightarrow> None | r # _ \<Rightarrow> Some r)"

definition sql_claim_update :: "string \<Rightarrow> time \<Rightarrow> int \<Rightarrow> job_run list \<Rightarrow> job_run list" where
  "sql_claim_update worker moment rid rows =
     map (\<lambda>r. if run_id r = rid \<and> run_status r \<in> CLAIMABLE_STATUSES then claimed_run worker moment r else r) rows"

definition sql_claim_next ::
  "string \<Rightarrow> time option \<Rightarrow> time \<Rightarrow> sql_repo \<Rightarrow> (sql_repo \<times> job_run option) result" where
  "sql_claim_next worker now utcnow q =
     (let moment = (case now of Some t \<Rightarrow> t | None \<Rightarrow> utcnow)
      in case sql_claim_select moment (sql_job_runs q) of
           None \<Rightarrow> Inr (q, None)
         | Some candidate \<Rightarrow>
             let rows = sql_claim_update worker moment (run_id candidate) (sql_job_runs q)
             in case find_run (run_id candidate) rows of
                  None \<Rightarrow> Inl NoResultFound
                | Some row \<Rightarrow> Inr (q\<lparr>sql_job_runs := rows\<rparr>, Some row))"

definition sql_finished_run ::
  "job_status \<Rightarrow> int option \<Rightarrow> string option \<Rightarrow> int option \<Rightarrow> time option \<Rightarrow> bool \<Rightarrow> time \<Rightarrow> job_run \<Rightarrow> job_run" where
  "sql_finished_run st rows_written error attempt scheduled_at finished now run =
     (let r1 = run\<lparr>run_status := st, run_rows_written := rows_written, run_error := error,
                   run_finished_at := (if finished then Some now else None)\<rparr>;
          r2 = (case attempt of Some a \<Rightarrow> r1\<lparr>run_attempt := a\<rparr> | None \<Rightarrow> r1)
      in case scheduled_at of Some t \<Rightarrow> r2\<lparr>run_scheduled_at := t\<rparr> | None \<Rightarrow> r2)"

definition sql_finish ::
  "int \<Rightarrow> job_status \<Rightarrow> int option \<Rightarrow> string option \<Rightarrow> int option \<Rightarrow> time option \<Rightarrow> bool \<Rightarrow> time \<Rightarrow> sql_repo
    \<Rightarrow> (sql_repo \<times> job_run) result" where
  "sql_finish rid st rows_written error attempt scheduled_at finished now q =
     (let rows = map (\<lambda>r. if run_id r = rid \<and> run_status r = RUNNING
            then sql_finished_run st rows_written error attempt scheduled_at finished now r else r) (sql_job_runs q)
      in case find_run rid rows of
           None \<Rightarrow> Inl NoResultFound
         | Some row \<Rightarrow> Inr (q\<lparr>sql_job_runs := rows\<rparr>, row))"

definition sql_get_run :: "int \<Rightarrow> sql_repo \<Rightarrow> job_run option" where
  "sql_get_run rid q = find_run rid (sql_job_runs q)"

definition sql_succeed :: "int \<Rightarrow> int \<Rightarrow> time \<Rightarrow> sql_repo \<Rightarrow> (sql_repo \<times> job_run) result" where
  "sql_succeed rid rows_written now q = sql_finish rid SUCCEEDED (Some rows_written) None None None True now q"

definition sql_fail :: "int \<Rightarrow> string \<Rightarrow> time \<Rightarrow> sql_repo \<Rightarrow> (sql_repo \<times> job_run) result" where
  "sql_fail rid error now q =
     (case sql_get_run rid q of
        None \<Rightarrow> Inl KeyError
      | Some run \<Rightarrow>
          if run_attempt run < run_max_attempts run
          then sql_finish rid RETRYING None (Some error) (Some (run_attempt run + 1))
                 (Some (now + retry_delay (run_attempt run))) False now q
          else sql_finish rid DEAD None (Some error) None None True now q)"

definition sql_interrupt :: "int \<Rightarrow> string \<Rightarrow> time \<Rightarrow> sql_repo \<Rightarrow> (sql_repo \<times> job_run) result" where
  "sql_interrupt rid reason now q = sql_finish rid INTERRUPTED None (Some reason) None None True now q"

definition sql_interrupt_match :: "dialect \<Rightarrow> string \<Rightarrow> job_run \<Rightarrow> bool" where
  "sql_interrupt_match d worker_prefix r \<longleftrightarrow> run_status r = RUNNING
     \<and> (case run_worker r of None \<Rightarrow> False | Some w \<Rightarrow> like d (worker_prefix @ ''%'') w)"

definition sql_interrupt_running :: "string \<Rightarrow> time \<Rightarrow> sql_repo \<Rightarrow> sql_repo \<times> int" where
  "sql_interrupt_running worker_prefix now q =
     (q\<lparr>sql_job_runs := map (\<lambda>r. if sql_interrupt_match (sql_dialect q) worker_prefix r
          then r\<lparr>run_status := INTERRUPTED, run_error := Some shutdown_timeout_text,
                 run_finished_at := Some now\<rparr> else r) (sql_job_runs q)\<rparr>,
      int (length (filter (sql_interrupt_match (sql_dialect q) worker_prefix) (sql_job_runs q))))"

definition sql_list_runs :: "job_status option \<Rightarrow> string option \<Rightarrow> nat \<Rightarrow> sql_repo \<Rightarrow> job_run list" where
  "sql_list_runs st job_id limit q =
     take limit (sort_key (\<lambda>r. - run_id r)
       (filter (\<lambda>r. case job_id of None \<Rightarrow> True | Some j \<Rightarrow> run_job_id r = j)
         (filter (\<lambda>r. case st of None \<Rightarrow> True | Some s \<Rightarrow> run_status r = s) (sql_job_runs q))))"

definition sql_find_run_by_request_id :: "string \<Rightarrow> sql_repo \<Rightarrow> job_run option" where
  "sql_find_run_by_request_id request_id q =
     (case sort_key run_id (filter (\<lambda>r. run_request_id r = Some request_id) (sql_job_runs q)) of
        [] \<Rightarrow> None | r # _ \<Rightarrow> Some r)"

definition sql_count_queued :: "sql_repo \<Rightarrow> int" where
  "sql_count_queued q = int (length (filter (\<lambda>r. run_status r \<in> CLAIMABLE_STATUSES) (sql_job_runs q)))"

definition sql_dep_ready :: "string \<Rightarrow> date option \<Rightarrow> date option \<Rightarrow> job_run list \<Rightarrow> job_dependency \<Rightarrow> bool" where
  "sql_dep_ready scope ws we rows dep =
     (let statuses = map run_status (filter (\<lambda>r. run_job_id r = dep_parent_job dep \<and> run_scope r = scope
            \<and> run_window_start r = ws \<and> run_window_end r = we) rows)
      in if dep_condition dep = condition_value ALWAYS then statuses \<noteq> []
         else if dep_condition dep = condition_value ON_COMPLETE
           then list_ex (\<lambda>s. s \<in> TERMINAL_STATUSES) statuses
         else SUCCEEDED \<in> set statuses)"

definition sql_parents_ready :: "string \<Rightarrow> string \<Rightarrow> date option \<Rightarrow> date option \<Rightarrow> sql_repo \<Rightarrow> bool" where
  "sql_parents_ready child_job scope ws we q =
     list_all (sql_dep_ready scope ws we (sql_job_runs q))
       (filter (\<lambda>dep. dep_child_job dep = child_job) (sql_job_dependencies q))"

subsection \<open>Watermarks\<close>

definition mark_is :: "string \<Rightarrow> string \<Rightarrow> watermark \<Rightarrow> bool" where
  "mark_is dataset scope w \<longleftrightarrow> wm_dataset w = dataset \<and> wm_scope w = scope"

definition sql_get_watermark :: "string \<Rightarrow> string \<Rightarrow> sql_repo \<Rightarrow> watermark option" where
  "sql_get_watermark dataset scope q = find (mark_is dataset scope) (sql_watermarks q)"

definition sql_list_watermarks :: "sql_repo \<Rightarrow> watermark list" where
  "sql_list_watermarks q = sort_key (\<lambda>w. (wm_dataset w, wm_scope w)) (sql_watermarks q)"

definition sql_write_mark :: "string \<Rightarrow> string \<Rightarrow> time \<Rightarrow> watermark list \<Rightarrow> watermark list" where
  "sql_write_mark dataset scope t rows =
     map (\<lambda>w. if mark_is dataset scope w then w\<lparr>wm_watermark_time := Some t\<rparr> else w) rows"

definition sql_set_watermark :: "string \<Rightarrow> string \<Rightarrow> time \<Rightarrow> sql_repo \<Rightarrow> (sql_repo \<times> watermark) result" where
  "sql_set_watermark dataset scope t q =
     (let mark = \<lparr>wm_dataset = dataset, wm_scope = scope, wm_watermark_time = Some t\<rparr>
      in case find (mark_is dataset scope) (sql_watermarks q) of
           None \<Rightarrow> (case insert_rows (\<lambda>w. (wm_dataset w, wm_scope w)) [mark] (sql_watermarks q) of
                     Inl e \<Rightarrow> Inl e | Inr rows \<Rightarrow> Inr (q\<lparr>sql_watermarks := rows\<rparr>, mark))
         | Some _ \<Rightarrow> Inr (q\<lparr>sql_watermarks := sql_write_mark dataset scope t (sql_watermarks q)\<rparr>, mark))"

definition sql_advance_watermark :: "string \<Rightarrow> string \<Rightarrow> time \<Rightarrow> sql_repo \<Rightarrow> (sql_repo \<times> watermark) result" where
  "sql_advance_watermark dataset scope t q =
     (let mark = \<lparr>wm_dataset = dataset, wm_scope = scope, wm_watermark_time = Some t\<rparr>;
          current = (case find (mark_is dataset scope) (sql_watermarks q) of
                       None \<Rightarrow> None | Some w \<Rightarrow> wm_watermark_time w)
      in case current of
           None \<Rightarrow> (case insert_rows (\<lambda>w. (wm_dataset w, wm_scope w)) [mark] (sql_watermarks q) of
                     Inl e \<Rightarrow> Inl e | Inr rows \<Rightarrow> Inr (q\<lparr>sql_watermarks := rows\<rparr>, mark))
         | Some c \<Rightarrow>
             if t \<le> c then Inr (q, \<lparr>wm_dataset = dataset, wm_scope = scope, wm_watermark_time = Some c\<rparr>)
             else Inr (q\<lparr>sql_watermarks := sql_write_mark dataset scope t (sql_watermarks q)\<rparr>, mark))"

subsection \<open>Simulation of the in-memory repository\<close>

text \<open>
  The two repositories hold the same runs, dependencies and watermarks.  Their definitions are related
  separately below: \<open>sync_defs\<close> of the SQL repository mirrors the registry, that of the in-memory one only adds.
\<close>

definition sim :: "mem_repo \<Rightarrow> sql_repo \<Rightarrow> bool" where
  "sim m q \<longleftrightarrow> mem_inv m \<and> sql_job_runs q = mem_table m \<and> sql_run_seq q = mem_next_run_id m
     \<and> sql_job_dependencies q = mem_deps m \<and> sql_watermarks q = dict_values (mem_watermarks m)
     \<and> (\<forall>w \<in> set (sql_watermarks q). wm_watermark_time w \<noteq> None)"

lemma sim_empty: "sim mem_empty (sql_empty d)"
  using mem_inv_empty unfolding sim_def by (simp add: sql_empty_def mem_empty_def mem_table_def)

lemma insert_rows_distinct:
  "insert_rows pk rows table = (if distinct (map pk rows) \<and> (\<forall>r \<in> set rows. pk r \<notin> pk ` set table)
     then Inr (table @ rows) else Inl IntegrityError)"
proof (induction rows arbitrary: table)
  case Nil
  show ?case by simp
next
  case (Cons a rows)
  have "(\<forall>r \<in> set rows. pk r \<notin> pk ` set (table @ [a])) \<longleftrightarrow>
      pk a \<notin> pk ` set rows \<and> (\<forall>r \<in> set rows. pk r \<notin> pk ` set table)"
    by (auto simp: image_iff)
  then show ?case using Cons.IH [of "table @ [a]"] by (auto simp del: bex_simps ball_simps)
qed

text \<open>Prefixes and workers on which \<open>LIKE\<close> and \<open>startswith\<close> agree.\<close>

definition plain_prefix :: "dialect \<Rightarrow> string \<Rightarrow> bool" where
  "plain_prefix d p \<longleftrightarrow> CHR ''%'' \<notin> set p \<and> CHR ''_'' \<notin> set p
     \<and> (if d = SQLite then lower p = p else CHR 0x5C \<notin> set p)"

definition plain_worker :: "dialect \<Rightarrow> string \<Rightarrow> bool" where
  "plain_worker d w \<longleftrightarrow> (d = SQLite \<longrightarrow> lower w = w)"

lemma plain_worker_Cons: "plain_worker d (c # w) \<Longrightarrow> plain_worker d w \<and> (d = SQLite \<longrightarrow> lower_char c = c)"
  by (simp add: plain_worker_def lower_def)

lemma plain_prefix_Cons: "plain_prefix d (c # p) \<Longrightarrow> plain_prefix d p \<and> c \<noteq> CHR ''%'' \<and> c \<noteq> CHR ''_''
    \<and> (if d = SQLite then lower_char c = c else c \<noteq> CHR 0x5C)"
  by (auto simp: plain_prefix_def lower_def)

lemma like_plain: "plain_prefix d p \<Longrightarrow> plain_worker d w \<Longrightarrow> like d (p @ ''%'') w \<longleftrightarrow> starts_with p w"
proof (induction p arbitrary: w)
  case Nil
  show ?case by (induction w) auto
next
  case (Cons c p)
  note p = plain_prefix_Cons [OF Cons.prems(1)]
  show ?case
  proof (cases w)
    case (Cons x v)
    with Cons.prems(2) have v: "plain_worker d v" "d = SQLite \<longrightarrow> lower_char x = x" using plain_worker_Cons by blast+
    have "like_char d c x = (c = x)" using p v(2) by (cases d) auto
    with Cons p v Cons.IH [of v] show ?thesis by (cases d) auto
  qed (use p in auto)
qed

lemma sim_table: "sim m q \<Longrightarrow> sql_job_runs q = mem_table m"
  by (simp add: sim_def)

lemma put_run_map:
  assumes "distinct (map run_id rows)" and "r \<in> set rows" and "P r" and "run_id x = run_id r" and "f r = x"
  shows "map (\<lambda>y. if run_id y = run_id r \<and> P y then f y else y) rows = put_run x rows"
proof -
  have "y = r" if "y \<in> set rows" "run_id y = run_id r" for y
    using that assms(1,2) by (auto simp: distinct_map inj_on_def)
  with assms show ?thesis unfolding put_run_def by (intro map_cong) auto
qed

lemma sim_put:
  assumes "sim m q" and "mem_moves m m'" and "mem_table m' = rows" and "mem_next_run_id m' = s"
  shows "sim m' (q\<lparr>sql_job_runs := rows, sql_run_seq := s\<rparr>)"
  using assms mem_moves_inv [OF assms(2)] by (auto simp: sim_def mem_moves_def)

lemma active_iff: "s \<in> ACTIVE_STATUSES \<longleftrightarrow> s \<in> CLAIMABLE_STATUSES \<or> s = RUNNING \<or> s = SUCCEEDED"
  by (auto simp: CLAIMABLE_STATUSES_def ACTIVE_STATUSES_def)

lemma find_run_append: "\<forall>r \<in> set rows. run_id r \<noteq> run_id x \<Longrightarrow> find_run (run_id x) (rows @ [x]) = Some x"
  by (induction rows) (auto simp: find_run_def)

lemma sim_create_run:
  assumes "sim m q"
  shows "(case (mem_create_run h i req now m, sql_create_run h i req now q) of
    (Inl e, Inl e') \<Rightarrow> e' = e
  | (Inr (m', res), Inr (q', res')) \<Rightarrow> res' = res \<and> sim m' q'
  | _ \<Rightarrow> False)"
proof (cases "mem_create_run h i req now m")
  case (Inl e)
  then have "intent_key h i = Inl e" by (auto simp: mem_create_run_def Let_def split: sum.splits if_splits)
  with Inl show ?thesis by (simp add: sql_create_run_def)
next
  case (Inr p)
  obtain m' res where p: "p = (m', res)" by (cases p)
  note inv = assms [unfolded sim_def, THEN conjunct1]
  note step = Inr [unfolded p]
  from step inv show ?thesis
  proof (cases rule: mem_create_run_cases)
    case dup
    then obtain r key where r: "r \<in> set (mem_table m)" "intent_key h i = Inr key" "run_job_key r = key"
      "run_status r \<in> ACTIVE_STATUSES" by force
    then have "sql_create_run h i req now q = Inr (q, None)"
      using sim_table [OF assms] by (auto simp: sql_create_run_def active_iff list_ex_iff)
    with dup step assms show ?thesis by simp
  next
    case (new key)
    let ?x = "new_run i key (mem_next_run_id m) req now"
    have fresh: "run_id r < mem_next_run_id m" if "r \<in> set (mem_table m)" for r
      using that inv by (auto simp: mem_inv_def runs_inv_def ids_ok_def)
    moreover have "run_id ?x = mem_next_run_id m" by (simp add: new_run_def)
    ultimately have "find_run (mem_next_run_id m) (mem_table m @ [?x]) = Some ?x"
      using find_run_append [of "mem_table m" ?x] by fastforce
    with new step assms have "sql_create_run h i req now q =
        Inr (q\<lparr>sql_job_runs := mem_table m @ [?x], sql_run_seq := mem_next_run_id m + 1\<rparr>, Some ?x)"
      by (auto simp: sql_create_run_def active_iff list_ex_iff sim_def Let_def)
    with step new sim_put [OF assms mem_create_run_moves [OF step inv]] show ?thesis
      by (simp add: mem_state_def)
  qed
qed


lemma sim_claim_select:
  "sql_claim_select moment (mem_table m) = (case mem_candidates moment m of [] \<Rightarrow> None | r # _ \<Rightarrow> Some r)"
proof -
  have "sql_scope_busy (mem_table m) r \<longleftrightarrow> (run_dataset r, run_scope r) \<in> set (map (\<lambda>run. (run_dataset run, run_scope run))
            (filter (\<lambda>run. run_status run = RUNNING) (dict_values (mem_runs m))))" for r
    by (force simp: sql_scope_busy_def list_ex_iff mem_table_def image_iff)
  then show ?thesis unfolding sql_claim_select_def mem_candidates_def Let_def mem_table_def by simp
qed

lemma sim_claim_next:
  assumes "sim m q"
  shows "\<exists>m' q' res. mem_claim_next w now utcnow m = (m', res) \<and> sql_claim_next w now utcnow q = Inr (q', res) \<and> sim m' q'"
proof -
  obtain m' res where step: "mem_claim_next w now utcnow m = (m', res)" by fastforce
  note inv = assms [unfolded sim_def, THEN conjunct1]
  from step inv show ?thesis
  proof (cases rule: mem_claim_next_cases)
    case none
    let ?t = "case now of Some t \<Rightarrow> t | None \<Rightarrow> utcnow"
    have "mem_candidates ?t m = []"
      using step none by (auto simp: mem_claim_next_def Let_def split: list.splits)
    then have "sql_claim_next w now utcnow q = Inr (q, None)"
      using sim_table [OF assms] by (simp add: sql_claim_next_def sim_claim_select)
    with step none assms show ?thesis by simp
  next
    case (claimed r t)
    let ?x = "claimed_run w t r"
    from claimed(3) obtain rs where c: "mem_candidates t m = r # rs" by blast
    have d: "distinct (map run_id (mem_table m))"
      using inv by (simp add: mem_inv_def runs_inv_def ids_ok_def)
    have u: "sql_claim_update w t (run_id r) (mem_table m) = put_run ?x (mem_table m)"
      unfolding sql_claim_update_def
      using mem_candidates_first [OF c] by (intro put_run_map [OF d]) auto
    have "find_run (run_id r) (put_run ?x (mem_table m)) = Some ?x"
      using find_run_in [OF d claimed(2)] by (simp add: find_run_put)
    then have "sql_claim_next w now utcnow q = Inr (q\<lparr>sql_job_runs := put_run ?x (mem_table m)\<rparr>, Some ?x)"
      using sim_table [OF assms] c u
      by (simp add: sql_claim_next_def sim_claim_select claimed(1) [symmetric] Let_def)
    moreover have "sim m' (q\<lparr>sql_job_runs := put_run ?x (mem_table m)\<rparr>)"
      using sim_put [OF assms mem_claim_next_moves [OF step inv] refl refl] claimed(5) assms
      by (simp add: mem_state_def sim_def)
    ultimately show ?thesis using step claimed by simp
  qed
qed

lemma sql_finished_run_eq:
  "sql_finished_run st rows err att sched (st \<noteq> RETRYING) now r = finished_run st rows err att sched now r"
  by (simp add: sql_finished_run_def finished_run_def Let_def split: option.splits)

text \<open>A missing run is a \<open>KeyError\<close> in memory and a \<open>NoResultFound\<close> in SQL: both raise.\<close>

lemma sim_finish:
  assumes "sim m q" and "\<And>m' r. mem_finish rid st rows err att sched now m = Inr (m', r) \<Longrightarrow> mem_moves m m'"
    and "fin \<longleftrightarrow> st \<noteq> RETRYING"
  shows "case (mem_finish rid st rows err att sched now m, sql_finish rid st rows err att sched fin now q) of
    (Inl e, Inl e') \<Rightarrow> True
  | (Inr (m', r), Inr (q', r')) \<Rightarrow> r' = r \<and> sim m' q'
  | _ \<Rightarrow> False"
proof -
  note inv = assms(1) [unfolded sim_def, THEN conjunct1]
  have d: "distinct (map run_id (mem_table m))"
    using inv by (simp add: mem_inv_def runs_inv_def ids_ok_def)
  let ?f = "\<lambda>y. finished_run st rows err att sched now y"
  have sql: "sql_finish rid st rows err att sched fin now q =
     (let t = map (\<lambda>r. if run_id r = rid \<and> run_status r = RUNNING then ?f r else r) (mem_table m)
      in case find_run rid t of None \<Rightarrow> Inl NoResultFound | Some row \<Rightarrow> Inr (q\<lparr>sql_job_runs := t\<rparr>, row))"
    by (simp add: sql_finish_def sim_table [OF assms(1)] sql_finished_run_eq assms(3) cong: if_cong)
  show ?thesis
  proof (rule mem_finish_cases [OF refl inv, of rid st rows err att sched now])
    assume missing: "mem_finish rid st rows err att sched now m = Inl KeyError" "find_run rid (mem_table m) = None"
    then have "map (\<lambda>r. if run_id r = rid \<and> run_status r = RUNNING then ?f r else r) (mem_table m) = mem_table m"
      by (intro map_idI) (auto simp: find_run_None)
    with missing show ?thesis by (simp add: sql)
  next
    fix r
    assume idle: "find_run rid (mem_table m) = Some r" "run_status r \<noteq> RUNNING"
      "mem_finish rid st rows err att sched now m = Inr (m, r)"
    have "y = r" if "y \<in> set (mem_table m)" "run_id y = rid" for y
      using that d find_run_Some [OF idle(1)] by (auto simp: distinct_map inj_on_def)
    then have "map (\<lambda>r. if run_id r = rid \<and> run_status r = RUNNING then ?f r else r) (mem_table m) = mem_table m"
      using idle(2) by (intro map_idI) auto
    with idle assms(1) show ?thesis by (simp add: sql sim_table [OF assms(1), symmetric])
  next
    fix r m'
    assume ended: "find_run rid (mem_table m) = Some r" "r \<in> set (mem_table m)" "run_id r = rid"
      "run_status r = RUNNING" "mem_finish rid st rows err att sched now m = Inr (m', ?f r)"
      "mem_state m' = (put_run (?f r) (mem_table m), mem_next_run_id m)"
    have u: "map (\<lambda>r. if run_id r = rid \<and> run_status r = RUNNING then ?f r else r) (mem_table m) = put_run (?f r) (mem_table m)"
      using put_run_map [OF d ended(2), of "\<lambda>y. run_status y = RUNNING" "?f r" ?f] ended by simp
    have "sim m' (q\<lparr>sql_job_runs := put_run (?f r) (mem_table m)\<rparr>)"
      using sim_put [OF assms(1) assms(2) [OF ended(5)] refl refl] ended(6) assms(1)
      by (simp add: mem_state_def sim_def)
    with ended u show ?thesis by (simp add: sql find_run_put)
  qed
qed


abbreviation agree where
  "agree res res' \<equiv> (case (res, res') of (Inl e, Inl e') \<Rightarrow> True
     | (Inr (m', r), Inr (q', r')) \<Rightarrow> r' = r \<and> sim m' q' | _ \<Rightarrow> False)"

lemma sim_succeed: "sim m q \<Longrightarrow> agree (mem_succeed rid rows now m) (sql_succeed rid rows now q)"
  unfolding mem_succeed_def sql_succeed_def
  by (rule sim_finish) (auto simp: sim_def dest: mem_succeed_moves [unfolded mem_succeed_def])

lemma sim_interrupt: "sim m q \<Longrightarrow> agree (mem_interrupt rid reason now m) (sql_interrupt rid reason now q)"
  unfolding mem_interrupt_def sql_interrupt_def
  by (rule sim_finish) (auto simp: sim_def dest: mem_interrupt_moves)

lemma sim_fail:
  assumes "sim m q"
  shows "agree (mem_fail rid err now m) (sql_fail rid err now q)"
proof (cases "find_run rid (mem_table m)")
  case None
  with assms show ?thesis
    by (simp add: mem_fail_def sql_fail_def sql_get_run_def mem_lookup sim_def)
next
  case (Some r)
  note inv = assms [unfolded sim_def, THEN conjunct1]
  have f: "mem_fail rid err now m = (if run_attempt r < run_max_attempts r
      then mem_finish rid RETRYING None (Some err) (Some (run_attempt r + 1)) (Some (now + retry_delay (run_attempt r))) now m
      else mem_finish rid DEAD None (Some err) None None now m)"
    and g: "sql_fail rid err now q = (if run_attempt r < run_max_attempts r
      then sql_finish rid RETRYING None (Some err) (Some (run_attempt r + 1)) (Some (now + retry_delay (run_attempt r))) False now q
      else sql_finish rid DEAD None (Some err) None None True now q)"
    using Some inv sim_table [OF assms] by (simp_all add: mem_fail_def sql_fail_def sql_get_run_def mem_lookup)
  show ?thesis
  proof (cases "run_attempt r < run_max_attempts r")
    case True
    with f g sim_finish [OF assms, of rid RETRYING None "Some err" "Some (run_attempt r + 1)"
        "Some (now + retry_delay (run_attempt r))" now False] mem_fail_moves [of rid err now m] inv
    show ?thesis by simp
  next
    case False
    with f g sim_finish [OF assms, of rid DEAD None "Some err" None None now True] mem_fail_moves [of rid err now m] inv
    show ?thesis by simp
  qed
qed

text \<open>
  The shutdown sweep: the loop over a snapshot of the runs does what the single \<open>UPDATE\<close> does.
\<close>

definition swept :: "time \<Rightarrow> job_run \<Rightarrow> job_run" where
  "swept now r = finished_run INTERRUPTED None (Some shutdown_timeout_text) None None now r"

lemma update_swept:
  assumes "run_ok r" and "run_status r = RUNNING"
  shows "r\<lparr>run_status := INTERRUPTED, run_error := Some shutdown_timeout_text, run_finished_at := Some now\<rparr> = swept now r"
proof -
  have "run_rows_written r = None" using assms by (simp add: run_ok_def)
  then show ?thesis by (cases r) (simp add: swept_def finished_run_def)
qed

lemma interrupt_loop_table:
  assumes "mem_inv m" and "distinct (map run_id runs)" and "set runs \<subseteq> set (mem_table m)"
  shows "\<exists>m'. mem_interrupt_loop prefix now runs m c =
      Inr (m', c + int (length (filter (\<lambda>r. run_status r = RUNNING \<and> worker_matches prefix r) runs)))
    \<and> mem_table m' = map (\<lambda>y. if y \<in> set runs \<and> run_status y = RUNNING \<and> worker_matches prefix y
        then swept now y else y) (mem_table m)
    \<and> mem_next_run_id m' = mem_next_run_id m"
  using assms
proof (induction runs arbitrary: m c)
  case Nil
  show ?case by simp
next
  case (Cons r runs)
  have d: "distinct (map run_id (mem_table m))"
    using Cons.prems(1) by (simp add: mem_inv_def runs_inv_def ids_ok_def)
  have uniq: "y = r" if "y \<in> set (mem_table m)" "run_id y = run_id r" for y
    using that d Cons.prems(3) by (auto simp: distinct_map inj_on_def)
  show ?case
  proof (cases "run_status r = RUNNING \<and> worker_matches prefix r")
    case False
    have "mem_interrupt_loop prefix now (r # runs) m c = mem_interrupt_loop prefix now runs m c"
      using False by auto
    moreover have "map (\<lambda>y. if y \<in> set (r # runs) \<and> run_status y = RUNNING \<and> worker_matches prefix y
          then swept now y else y) (mem_table m)
        = map (\<lambda>y. if y \<in> set runs \<and> run_status y = RUNNING \<and> worker_matches prefix y
          then swept now y else y) (mem_table m)"
      using False by (intro map_cong) auto
    ultimately show ?thesis using Cons.IH [of m c] Cons.prems False by auto
  next
    case True
    have f: "find_run (run_id r) (mem_table m) = Some r"
      using find_run_in [OF d] Cons.prems(3) by simp
    obtain m1 where m1: "mem_finish (run_id r) INTERRUPTED None (Some shutdown_timeout_text) None None now m
        = Inr (m1, swept now r)" and t1: "mem_table m1 = put_run (swept now r) (mem_table m)"
      and n1: "mem_next_run_id m1 = mem_next_run_id m"
      using mem_finish_cases [OF refl Cons.prems(1), of "run_id r" INTERRUPTED None "Some shutdown_timeout_text" None None now]
        f True by (force simp: swept_def mem_state_def)
    have inv1: "mem_inv m1"
      using mem_moves_inv [OF mem_interrupt_moves [OF m1 Cons.prems(1)] Cons.prems(1)] .
    have sub: "set runs \<subseteq> set (mem_table m1)"
      using Cons.prems(2,3) unfolding t1 put_run_def by (auto simp: swept_def image_iff)
    obtain m' where m': "mem_interrupt_loop prefix now runs m1 (c + 1) =
        Inr (m', c + 1 + int (length (filter (\<lambda>r. run_status r = RUNNING \<and> worker_matches prefix r) runs)))"
      and t': "mem_table m' = map (\<lambda>y. if y \<in> set runs \<and> run_status y = RUNNING \<and> worker_matches prefix y
        then swept now y else y) (mem_table m1)" and n': "mem_next_run_id m' = mem_next_run_id m"
      using n1 Cons.IH [OF inv1 _ sub, of "c + 1"] Cons.prems(2) by auto
    have "mem_table m' = map (\<lambda>y. if y \<in> set (r # runs) \<and> run_status y = RUNNING \<and> worker_matches prefix y
        then swept now y else y) (mem_table m)"
      unfolding t' t1 put_run_def map_map o_def
    proof (intro map_cong refl)
      fix y assume y: "y \<in> set (mem_table m)"
      show "(if (if run_id y = run_id (swept now r) then swept now r else y) \<in> set runs \<and>
             run_status (if run_id y = run_id (swept now r) then swept now r else y) = RUNNING \<and>
             worker_matches prefix (if run_id y = run_id (swept now r) then swept now r else y)
          then swept now (if run_id y = run_id (swept now r) then swept now r else y)
          else (if run_id y = run_id (swept now r) then swept now r else y))
        = (if y \<in> set (r # runs) \<and> run_status y = RUNNING \<and> worker_matches prefix y then swept now y else y)"
      proof (cases "run_id y = run_id r")
        case True
        with uniq [OF y] \<open>run_status r = RUNNING \<and> worker_matches prefix r\<close> show ?thesis
          by (simp add: swept_def)
      next
        case False
        then show ?thesis by (auto simp: swept_def)
      qed
    qed
    with m1 m' n' True show ?thesis by (simp add: algebra_simps)
  qed
qed

lemma sim_interrupt_running:
  assumes "sim m q" and "plain_prefix (sql_dialect q) prefix"
    and "\<forall>r \<in> set (mem_table m). \<forall>w. run_worker r = Some w \<longrightarrow> plain_worker (sql_dialect q) w"
  shows "\<exists>m'. mem_interrupt_running prefix now m = Inr (m', snd (sql_interrupt_running prefix now q))
    \<and> sim m' (fst (sql_interrupt_running prefix now q))"
proof -
  note inv = assms(1) [unfolded sim_def, THEN conjunct1]
  have d: "distinct (map run_id (mem_table m))"
    using inv by (simp add: mem_inv_def runs_inv_def ids_ok_def)
  have ok: "run_ok r" if "r \<in> set (mem_table m)" for r
    using that inv by (simp add: mem_inv_def runs_inv_def)
  have match: "sql_interrupt_match (sql_dialect q) prefix r \<longleftrightarrow> run_status r = RUNNING \<and> worker_matches prefix r"
    if r: "r \<in> set (mem_table m)" for r
  proof (cases "run_status r = RUNNING")
    case True
    then obtain w where w: "run_worker r = Some w" using ok [OF r] by (auto simp: run_ok_def)
    then have "plain_worker (sql_dialect q) w" using assms(3) r by blast
    with True w show ?thesis by (simp add: sql_interrupt_match_def worker_matches_def like_plain [OF assms(2)])
  qed (simp add: sql_interrupt_match_def)
  obtain m' where m': "mem_interrupt_running prefix now m = Inr (m',
      int (length (filter (\<lambda>r. run_status r = RUNNING \<and> worker_matches prefix r) (mem_table m))))"
    and t': "mem_table m' = map (\<lambda>y. if y \<in> set (mem_table m) \<and> run_status y = RUNNING \<and> worker_matches prefix y
        then swept now y else y) (mem_table m)"
    and n': "mem_next_run_id m' = mem_next_run_id m"
    using interrupt_loop_table [OF inv d subset_refl, of prefix now 0]
    by (auto simp: mem_interrupt_running_def mem_table_def)
  have mv: "mem_moves m m'"
    using m' inv mem_interrupt_loop_moves unfolding mem_interrupt_running_def by blast
  have "map (\<lambda>r. if sql_interrupt_match (sql_dialect q) prefix r
          then r\<lparr>run_status := INTERRUPTED, run_error := Some shutdown_timeout_text,
                 run_finished_at := Some now\<rparr> else r) (mem_table m) = mem_table m'"
    unfolding t' by (intro map_cong refl) (simp add: match update_swept ok)
  moreover have "filter (sql_interrupt_match (sql_dialect q) prefix) (mem_table m)
      = filter (\<lambda>r. run_status r = RUNNING \<and> worker_matches prefix r) (mem_table m)"
    using match by (intro filter_cong) auto
  ultimately show ?thesis
    using m' n' sim_put [OF assms(1) mv refl refl] assms(1)
    by (simp add: sql_interrupt_running_def sim_def)
qed


subsection \<open>Queries and watermarks of the two repositories\<close>

lemma sim_distinct: "sim m q \<Longrightarrow> distinct (map run_id (mem_table m))"
  by (simp add: sim_def mem_inv_def runs_inv_def ids_ok_def)

lemma sim_get_run: "sim m q \<Longrightarrow> sql_get_run rid q = mem_get_run rid m"
  by (simp add: sim_def sql_get_run_def mem_get_run_def mem_lookup)

lemma sim_list_runs: "sim m q \<Longrightarrow> sql_list_runs st job n q = mem_list_runs st job (int n) m"
  by (simp add: sim_table sql_list_runs_def mem_list_runs_def slice_upto_def mem_table_def conj_commute)

lemma sim_find_run_by_request_id:
  assumes "sim m q"
  shows "sql_find_run_by_request_id request_id q = mem_find_run_by_request_id request_id m"
proof -
  let ?rows = "filter (\<lambda>r. run_request_id r = Some request_id) (mem_table m)"
  have d: "distinct (map run_id ?rows)"
    using sim_distinct [OF assms] by (simp add: distinct_map_filter)
  have "(case sort_key run_id ?rows of [] \<Rightarrow> None | r # _ \<Rightarrow> Some r) = min_by run_id ?rows"
  proof (cases "sort_key run_id ?rows")
    case Nil
    then show ?thesis by (simp add: sort_key_Nil)
  next
    case (Cons r rs)
    then obtain b where b: "min_by run_id ?rows = Some b"
      using sort_key_hd(1) [OF Cons] min_by_None [of run_id ?rows] by (cases "min_by run_id ?rows") auto
    have "run_id r \<le> run_id b" "run_id b \<le> run_id r"
      using sort_key_hd [OF Cons] min_by_Some [OF b] by auto
    then have "r = b"
      using d sort_key_hd(1) [OF Cons] min_by_Some(1) [OF b] by (auto simp: distinct_map inj_on_def)
    with Cons b show ?thesis by simp
  qed
  then show ?thesis
    using sim_table [OF assms] by (simp add: sql_find_run_by_request_id_def mem_find_run_by_request_id_def mem_table_def)
qed

lemma sim_count_queued: "sim m q \<Longrightarrow> sql_count_queued q = mem_count_queued m"
  by (simp add: sim_table sql_count_queued_def mem_count_queued_def mem_table_def)

lemma sim_parents_ready: "sim m q \<Longrightarrow> sql_parents_ready child scope ws we q = mem_parents_ready child scope ws we m"
proof -
  assume s: "sim m q"
  have "sql_dep_ready scope ws we rows dep = dep_ready dep (matching_runs (dep_parent_job dep) scope ws we rows)" for rows dep
    by (auto simp: sql_dep_ready_def dep_ready_def matching_runs_def Let_def list_ex_iff filter_empty_conv image_iff)
  then have "sql_dep_ready scope ws we rows
      = (\<lambda>dep. dep_ready dep (matching_runs (dep_parent_job dep) scope ws we rows))" for rows
    by (rule ext)
  with s show ?thesis
    by (simp only: sql_parents_ready_def mem_parents_ready_def mem_table_def sim_def [of m q])
qed

lemma marks_find:
  "marks_keyed d \<Longrightarrow> find (mark_is dataset scope) (dict_values d) = map_of d (dataset, scope)"
  by (induction d) (auto simp: marks_keyed_def mark_is_def)

lemma marks_write:
  assumes "marks_keyed d" and "map_of d (dataset, scope) = Some w"
  shows "sql_write_mark dataset scope t (dict_values d)
    = dict_values (AList.update (dataset, scope) \<lparr>wm_dataset = dataset, wm_scope = scope, wm_watermark_time = Some t\<rparr> d)"
  using assms
proof (induction d)
  case Nil
  then show ?case by simp
next
  case (Cons p d)
  obtain k v where p: "p = (k, v)" by (cases p)
  show ?case
  proof (cases "k = (dataset, scope)")
    case True
    have "map (\<lambda>w. if mark_is dataset scope w then w\<lparr>wm_watermark_time := Some t\<rparr> else w) (dict_values d) = dict_values d"
      using Cons.prems(1) p True by (intro map_idI) (force simp: marks_keyed_def mark_is_def image_iff)
    with True p Cons.prems(1) show ?thesis
      by (cases v) (auto simp: sql_write_mark_def mark_is_def marks_keyed_def)
  next
    case False
    with Cons p show ?thesis by (auto simp: sql_write_mark_def marks_keyed_def mark_is_def)
  qed
qed

lemma sim_get_watermark: "sim m q \<Longrightarrow> sql_get_watermark dataset scope q = mem_get_watermark dataset scope m"
  by (simp add: sql_get_watermark_def mem_get_watermark_def sim_def mem_inv_def marks_find)

lemma sim_list_watermarks: "sim m q \<Longrightarrow> sql_list_watermarks q = mem_list_watermarks m"
  by (simp add: sql_list_watermarks_def mem_list_watermarks_def sim_def)

lemma sim_set_watermark:
  assumes "sim m q"
  shows "\<exists>q'. sql_set_watermark dataset scope t q = Inr (q', snd (mem_set_watermark dataset scope t m))
    \<and> sim (fst (mem_set_watermark dataset scope t m)) q'"
proof -
  have k: "marks_keyed (mem_watermarks m)" and w: "sql_watermarks q = dict_values (mem_watermarks m)"
    using assms by (simp_all add: sim_def mem_inv_def)
  show ?thesis
  proof (cases "map_of (mem_watermarks m) (dataset, scope)")
    case None
    then have "AList.update (dataset, scope) x (mem_watermarks m) = mem_watermarks m @ [((dataset, scope), x)]" for x
      by (simp add: update_new map_of_eq_None_iff)
    moreover have "(dataset, scope) \<notin> (\<lambda>w. (wm_dataset w, wm_scope w)) ` set (dict_values (mem_watermarks m))"
      using None k by (force simp: marks_keyed_def map_of_eq_None_iff)
    ultimately show ?thesis
      using None assms image_image [of "\<lambda>w. (wm_dataset w, wm_scope w)" snd "set (mem_watermarks m)"] mem_set_watermark_inv [of m dataset scope t]
      by (simp add: sql_set_watermark_def mem_set_watermark_def Let_def w marks_find [OF k] sim_def mem_table_def)
  next
    case (Some v)
    have "\<forall>w \<in> set (sql_write_mark dataset scope t (dict_values (mem_watermarks m))). wm_watermark_time w \<noteq> None"
      using assms by (force simp: sim_def sql_write_mark_def)
    with Some assms mem_set_watermark_inv [of m dataset scope t] marks_write [OF k Some] show ?thesis
      by (simp add: sql_set_watermark_def mem_set_watermark_def Let_def w marks_find [OF k] sim_def mem_table_def)
  qed
qed


lemma sim_advance_watermark:
  assumes "sim m q"
  shows "\<exists>q'. sql_advance_watermark dataset scope t q = Inr (q', snd (mem_advance_watermark dataset scope t m))
    \<and> sim (fst (mem_advance_watermark dataset scope t m)) q'"
proof -
  have k: "marks_keyed (mem_watermarks m)" and w: "sql_watermarks q = dict_values (mem_watermarks m)"
    and timed: "\<forall>w \<in> set (sql_watermarks q). wm_watermark_time w \<noteq> None"
    using assms by (simp_all add: sim_def mem_inv_def)
  from sim_set_watermark [OF assms, of dataset scope t] obtain q' where
    q': "sql_set_watermark dataset scope t q = Inr (q', snd (mem_set_watermark dataset scope t m))"
    "sim (fst (mem_set_watermark dataset scope t m)) q'" by blast
  show ?thesis
  proof (cases "map_of (mem_watermarks m) (dataset, scope)")
    case None
    then have "sql_advance_watermark dataset scope t q = sql_set_watermark dataset scope t q"
      by (simp add: sql_advance_watermark_def sql_set_watermark_def Let_def w marks_find [OF k])
    with q' None show ?thesis by (simp add: mem_advance_watermark_def)
  next
    case (Some v)
    then have v: "wm_dataset v = dataset" "wm_scope v = scope" "v \<in> set (sql_watermarks q)"
      using k by (force simp: marks_keyed_def w dest: map_of_SomeD)+
    with timed obtain c where c: "wm_watermark_time v = Some c" by blast
    show ?thesis
    proof (cases "t \<le> c")
      case True
      have "v = \<lparr>wm_dataset = dataset, wm_scope = scope, wm_watermark_time = Some c\<rparr>"
        using v c by (cases v) simp
      with True Some c assms show ?thesis
        by (simp add: sql_advance_watermark_def mem_advance_watermark_def Let_def w marks_find [OF k])
    next
      case False
      then have "sql_advance_watermark dataset scope t q = sql_set_watermark dataset scope t q"
        using Some c by (simp add: sql_advance_watermark_def sql_set_watermark_def Let_def w marks_find [OF k])
      with q' Some c False show ?thesis by (simp add: mem_advance_watermark_def)
    qed
  qed
qed

subsection \<open>Both repositories run the same program\<close>

text \<open>
  A client's call and what it sees of the answer.  The exception's class is not observed:
  a missing run is a \<open>KeyError\<close> in one repository and a \<open>NoResultFound\<close> in the other.  Nor is the order of
  the definitions, which the SQL statement leaves to the database.
\<close>

datatype repo_call =
    SyncDefs "job_def list" | ListDefs | SyncDependencies "job_dependency list" | ListDependencies
  | CreateRun job_intent "string option" time | ClaimNext string "time option" time
  | Succeed int int time | Fail int string time | Interrupt int string time
  | InterruptRunning string time | GetRun int | ListRuns "job_status option" "string option" nat
  | FindRunByRequestId string | CountQueued | ParentsReady string string "date option" "date option"
  | GetWatermark string string | ListWatermarks | SetWatermark string string time
  | AdvanceWatermark string string time

datatype repo_answer =
    Done | Raised | Defs "job_def set" | Deps "job_dependency list" | RunOrNone "job_run option" | Runs "job_run list"
  | Count int | Flag bool | MarkOrNone "watermark option" | Marks "watermark list"

definition answer :: "'s \<Rightarrow> ('s \<times> 'a) result \<Rightarrow> ('a \<Rightarrow> repo_answer) \<Rightarrow> 's \<times> repo_answer" where
  "answer s res f = (case res of Inl e \<Rightarrow> (s, Raised) | Inr (s', a) \<Rightarrow> (s', f a))"

fun mem_exec :: "(string \<Rightarrow> string) \<Rightarrow> repo_call \<Rightarrow> mem_repo \<Rightarrow> mem_repo \<times> repo_answer" where
  "mem_exec h (SyncDefs defs) m = (mem_sync_defs defs m, Done)"
| "mem_exec h ListDefs m = (m, Defs (set (mem_list_defs m)))"
| "mem_exec h (SyncDependencies deps) m = (mem_sync_dependencies deps m, Done)"
| "mem_exec h ListDependencies m = (m, Deps (mem_list_dependencies m))"
| "mem_exec h (CreateRun i req now) m = answer m (mem_create_run h i req now m) RunOrNone"
| "mem_exec h (ClaimNext w now utcnow) m = answer m (Inr (mem_claim_next w now utcnow m)) RunOrNone"
| "mem_exec h (Succeed rid rows now) m = answer m (mem_succeed rid rows now m) (\<lambda>r. RunOrNone (Some r))"
| "mem_exec h (Fail rid err now) m = answer m (mem_fail rid err now m) (\<lambda>r. RunOrNone (Some r))"
| "mem_exec h (Interrupt rid reason now) m = answer m (mem_interrupt rid reason now m) (\<lambda>r. RunOrNone (Some r))"
| "mem_exec h (InterruptRunning prefix now) m = answer m (mem_interrupt_running prefix now m) Count"
| "mem_exec h (GetRun rid) m = (m, RunOrNone (mem_get_run rid m))"
| "mem_exec h (ListRuns st job n) m = (m, Runs (mem_list_runs st job (int n) m))"
| "mem_exec h (FindRunByRequestId req) m = (m, RunOrNone (mem_find_run_by_request_id req m))"
| "mem_exec h CountQueued m = (m, Count (mem_count_queued m))"
| "mem_exec h (ParentsReady child scope ws we) m = (m, Flag (mem_parents_ready child scope ws we m))"
| "mem_exec h (GetWatermark d s) m = (m, MarkOrNone (mem_get_watermark d s m))"
| "mem_exec h ListWatermarks m = (m, Marks (mem_list_watermarks m))"
| "mem_exec h (SetWatermark d s t) m = answer m (Inr (mem_set_watermark d s t m)) (\<lambda>w. MarkOrNone (Some w))"
| "mem_exec h (AdvanceWatermark d s t) m = answer m (Inr (mem_advance_watermark d s t m)) (\<lambda>w. MarkOrNone (Some w))"

fun sql_exec :: "(string \<Rightarrow> string) \<Rightarrow> repo_call \<Rightarrow> sql_repo \<Rightarrow> sql_repo \<times> repo_answer" where
  "sql_exec h (SyncDefs defs) q = (case sql_sync_defs defs q of Inl e \<Rightarrow> (q, Raised) | Inr q' \<Rightarrow> (q', Done))"
| "sql_exec h ListDefs q = (q, Defs (set (sql_list_defs q)))"
| "sql_exec h (SyncDependencies deps) q =
     (case sql_sync_dependencies deps q of Inl e \<Rightarrow> (q, Raised) | Inr q' \<Rightarrow> (q', Done))"
| "sql_exec h ListDependencies q = (q, Deps (sql_list_dependencies q))"
| "sql_exec h (CreateRun i req now) q = answer q (sql_create_run h i req now q) RunOrNone"
| "sql_exec h (ClaimNext w now utcnow) q = answer q (sql_claim_next w now utcnow q) RunOrNone"
| "sql_exec h (Succeed rid rows now) q = answer q (sql_succeed rid rows now q) (\<lambda>r. RunOrNone (Some r))"
| "sql_exec h (Fail rid err now) q = answer q (sql_fail rid err now q) (\<lambda>r. RunOrNone (Some r))"
| "sql_exec h (Interrupt rid reason now) q = answer q (sql_interrupt rid reason now q) (\<lambda>r. RunOrNone (Some r))"
| "sql_exec h (InterruptRunning prefix now) q = answer q (Inr (sql_interrupt_running prefix now q)) Count"
| "sql_exec h (GetRun rid) q = (q, RunOrNone (sql_get_run rid q))"
| "sql_exec h (ListRuns st job n) q = (q, Runs (sql_list_runs st job n q))"
| "sql_exec h (FindRunByRequestId req) q = (q, RunOrNone (sql_find_run_by_request_id req q))"
| "sql_exec h CountQueued q = (q, Count (sql_count_queued q))"
| "sql_exec h (ParentsReady child scope ws we) q = (q, Flag (sql_parents_ready child scope ws we q))"
| "sql_exec h (GetWatermark d s) q = (q, MarkOrNone (sql_get_watermark d s q))"
| "sql_exec h ListWatermarks q = (q, Marks (sql_list_watermarks q))"
| "sql_exec h (SetWatermark d s t) q = answer q (sql_set_watermark d s t q) (\<lambda>w. MarkOrNone (Some w))"
| "sql_exec h (AdvanceWatermark d s t) q = answer q (sql_advance_watermark d s t q) (\<lambda>w. MarkOrNone (Some w))"

fun run_calls :: "(repo_call \<Rightarrow> 's \<Rightarrow> 's \<times> repo_answer) \<Rightarrow> repo_call list \<Rightarrow> 's \<Rightarrow> 's \<times> repo_answer list" where
  "run_calls exec [] s = (s, [])"
| "run_calls exec (c # cs) s =
     (let (s', a) = exec c s; (s'', bs) = run_calls exec cs s' in (s'', a # bs))"

text \<open>
  The calls on which the two agree: a dependency list without a repeated pair, and prefixes and workers that
  \<open>LIKE\<close> reads as they are written.
\<close>

fun portable :: "dialect \<Rightarrow> repo_call \<Rightarrow> bool" where
  "portable d (SyncDependencies deps) = distinct (map dep_key deps)"
| "portable d (InterruptRunning prefix now) = plain_prefix d prefix"
| "portable d (ClaimNext w now utcnow) = plain_worker d w"
| "portable d _ = True"

text \<open>Every sync of the definitions names each job once and repeats all jobs of the sync before it.\<close>

fun defs_grow :: "string list \<Rightarrow> repo_call list \<Rightarrow> bool" where
  "defs_grow ids [] = True"
| "defs_grow ids (SyncDefs defs # cs) =
     (distinct (map def_job_id defs) \<and> set ids \<subseteq> def_job_id ` set defs \<and> defs_grow (map def_job_id defs) cs)"
| "defs_grow ids (_ # cs) = defs_grow ids cs"

lemma sim_answer:
  assumes "sim m q" and "agree res res'"
  shows "snd (answer q res' f) = snd (answer m res f) \<and> sim (fst (answer m res f)) (fst (answer q res' f))"
  using assms by (auto simp: answer_def split: sum.splits prod.splits)

text \<open>Workers come from the calls that claim.\<close>

definition workers_ok :: "(string \<Rightarrow> bool) \<Rightarrow> job_run list \<Rightarrow> bool" where
  "workers_ok P rows \<longleftrightarrow> (\<forall>r \<in> set rows. \<forall>w. run_worker r = Some w \<longrightarrow> P w)"

lemma workers_put: "workers_ok P rows \<Longrightarrow> (\<And>w. run_worker x = Some w \<Longrightarrow> P w) \<Longrightarrow> workers_ok P (put_run x rows)"
  by (auto simp: workers_ok_def put_run_def split: if_splits)

lemma mem_finish_workers:
  assumes "mem_finish rid st rows err att sched now m = Inr (m', r)" and "mem_inv m" and "workers_ok P (mem_table m)"
  shows "workers_ok P (mem_table m')"
  using assms(1,2)
proof (cases rule: mem_finish_cases)
  case (ended q m'')
  have "workers_ok P (put_run (finished_run st rows err att sched now q) (mem_table m))"
    by (rule workers_put [OF assms(3)]) (use assms(3) ended(2) in \<open>auto simp: workers_ok_def finished_run_def split: option.splits\<close>)
  with ended assms(1) show ?thesis by (simp add: mem_state_def)
qed (use assms in auto)

lemma mem_exec_workers:
  assumes "mem_inv m" and "workers_ok (plain_worker d) (mem_table m)" and "portable d c"
  shows "workers_ok (plain_worker d) (mem_table (fst (mem_exec h c m)))"
proof (cases c)
  case (CreateRun i req now)
  show ?thesis
  proof (cases "mem_create_run h i req now m")
    case (Inr x)
    obtain m' res where x: "x = (m', res)" by (cases x)
    from Inr x have "mem_create_run h i req now m = Inr (m', res)" by simp
    from this assms(1) have "workers_ok (plain_worker d) (mem_table m')"
    proof (cases rule: mem_create_run_cases)
      case (new key)
      with assms(2) show ?thesis by (auto simp: mem_state_def workers_ok_def new_run_def)
    qed (use assms(2) in simp)
    with CreateRun Inr x show ?thesis by (simp add: answer_def)
  qed (use CreateRun assms in \<open>simp add: answer_def\<close>)
next
  case (ClaimNext w now utcnow)
  obtain m' res where x: "mem_claim_next w now utcnow m = (m', res)" by (metis prod.exhaust)
  from x assms(1) have "workers_ok (plain_worker d) (mem_table m')"
  proof (cases rule: mem_claim_next_cases)
    case (claimed r moment)
    have "plain_worker d w" using assms(3) ClaimNext by simp
    then have "workers_ok (plain_worker d) (put_run (claimed_run w moment r) (mem_table m))"
      by (intro workers_put [OF assms(2)]) (simp add: claimed_run_def)
    with claimed show ?thesis by (simp add: mem_state_def)
  qed (use assms(2) in simp)
  with ClaimNext x show ?thesis by (simp add: answer_def)
next
  case (Succeed rid rows now)
  with mem_finish_workers [OF _ assms(1,2)] assms(2) show ?thesis
    by (auto simp: answer_def mem_succeed_def split: sum.splits)
next
  case (Fail rid err now)
  with mem_finish_workers [OF _ assms(1,2)] assms(2) show ?thesis
    by (auto simp: answer_def mem_fail_def split: sum.splits option.splits if_splits)
next
  case (Interrupt rid reason now)
  with mem_finish_workers [OF _ assms(1,2)] assms(2) show ?thesis
    by (auto simp: answer_def mem_interrupt_def split: sum.splits)
next
  case (InterruptRunning prefix now)
  have "distinct (map run_id (mem_table m))" using assms(1) by (simp add: mem_inv_def runs_inv_def ids_ok_def)
  from interrupt_loop_table [OF assms(1) this subset_refl, of prefix now 0] obtain m' n where
    m': "mem_interrupt_running prefix now m = Inr (m', n)"
    and t: "mem_table m' = map (\<lambda>y. if y \<in> set (mem_table m) \<and> run_status y = RUNNING \<and> worker_matches prefix y
        then swept now y else y) (mem_table m)" by (auto simp: mem_interrupt_running_def mem_table_def)
  have "workers_ok (plain_worker d) (mem_table m')"
    using assms(2) by (auto simp: t workers_ok_def swept_def finished_run_def split: if_splits)
  with InterruptRunning m' show ?thesis by (simp add: answer_def)
next
  case (SetWatermark a b t)
  with assms(2) show ?thesis by (simp add: answer_def mem_set_watermark_def mem_table_def Let_def)
next
  case (AdvanceWatermark a b t)
  with assms(2) show ?thesis
    by (simp add: answer_def mem_advance_watermark_def mem_set_watermark_def mem_table_def Let_def split: option.splits)
qed (use assms(2) in \<open>simp_all add: mem_sync_defs_def mem_sync_dependencies_def mem_table_def\<close>)

text \<open>The definitions of the two, between two syncs.\<close>

definition same_defs :: "string list \<Rightarrow> mem_repo \<Rightarrow> sql_repo \<Rightarrow> bool" where
  "same_defs ids m q \<longleftrightarrow> distinct (dict_keys (mem_defs m)) \<and> (\<forall>(k, x) \<in> set (mem_defs m). k = def_job_id x)
     \<and> set (dict_keys (mem_defs m)) = set ids \<and> set (sql_job_defs q) = set (dict_values (mem_defs m))"

lemma mem_finish_defs: "mem_finish rid st rows err att sched now m = Inr (m', r) \<Longrightarrow> mem_defs m' = mem_defs m"
  by (auto simp: mem_finish_def Let_def split: option.splits if_splits)

lemma mem_interrupt_loop_defs: "mem_interrupt_loop prefix now runs m n = Inr (m', c) \<Longrightarrow> mem_defs m' = mem_defs m"
  by (induction runs arbitrary: m n) (auto dest: mem_finish_defs simp: mem_interrupt_def split: sum.splits prod.splits if_splits)

lemma mem_exec_defs: "\<forall>defs. c \<noteq> SyncDefs defs \<Longrightarrow> mem_defs (fst (mem_exec h c m)) = mem_defs m"
  by (cases c)
    (auto simp: answer_def mem_sync_dependencies_def mem_create_run_def mem_claim_next_def mem_succeed_def mem_fail_def
      mem_interrupt_def mem_interrupt_running_def mem_set_watermark_def mem_advance_watermark_def Let_def
      dest!: mem_finish_defs mem_interrupt_loop_defs split: sum.splits prod.splits option.splits if_splits list.splits)

lemma sql_finish_kept: "sql_finish rid st rows err att sched fin now q = Inr (q', r) \<Longrightarrow>
    sql_job_defs q' = sql_job_defs q \<and> sql_dialect q' = sql_dialect q"
  by (auto simp: sql_finish_def Let_def split: option.splits if_splits)

lemma sql_exec_kept: "sql_dialect (fst (sql_exec h c q)) = sql_dialect q
    \<and> ((\<forall>defs. c \<noteq> SyncDefs defs) \<longrightarrow> sql_job_defs (fst (sql_exec h c q)) = sql_job_defs q)"
  by (cases c)
    (auto simp: answer_def sql_sync_defs_def sql_sync_dependencies_def sql_create_run_def sql_claim_next_def sql_succeed_def sql_fail_def
      sql_interrupt_def sql_interrupt_running_def sql_set_watermark_def sql_advance_watermark_def Let_def
      dest!: sql_finish_kept split: sum.splits prod.splits option.splits if_splits list.splits)

lemma foldl_update_defs:
  assumes "distinct (map def_job_id defs)"
  shows "map_of (foldl (\<lambda>d item. AList.update (def_job_id item) item d) ds defs) k =
    (case map_of (map (\<lambda>x. (def_job_id x, x)) defs) k of Some x \<Rightarrow> Some x | None \<Rightarrow> map_of ds k)"
  using assms
proof (induction defs arbitrary: ds)
  case (Cons x defs)
  have "map_of (map (\<lambda>x. (def_job_id x, x)) defs) (def_job_id x) = None"
    using Cons.prems by (auto simp: map_of_eq_None_iff image_iff)
  with Cons show ?case by (auto split: option.split)
qed simp

lemma foldl_update_keys:
  "distinct (dict_keys ds) \<Longrightarrow> distinct (dict_keys (foldl (\<lambda>d item. AList.update (def_job_id item) item d) ds defs))
    \<and> set (dict_keys (foldl (\<lambda>d item. AList.update (def_job_id item) item d) ds defs)) = set (dict_keys ds) \<union> def_job_id ` set defs"
proof (induction defs arbitrary: ds)
  case (Cons x defs)
  from Cons.IH [of "AList.update (def_job_id x) x ds"] Cons.prems show ?case by (auto simp: distinct_update dom_update)
qed simp

lemma sim_sync_defs: "sim m q \<Longrightarrow> sim (mem_sync_defs defs m) (q\<lparr>sql_job_defs := rows\<rparr>)"
  by (simp add: sim_def mem_sync_defs_def mem_inv_def mem_table_def)

lemma sync_defs_same:
  assumes "same_defs ids m q" and "distinct (map def_job_id defs)" and "set ids \<subseteq> def_job_id ` set defs"
  shows "\<exists>q'. sql_sync_defs defs q = Inr q' \<and> same_defs (map def_job_id defs) (mem_sync_defs defs m) q'"
proof -
  let ?ds = "foldl (\<lambda>d item. AList.update (def_job_id item) item d) (mem_defs m) defs"
  have q': "sql_sync_defs defs q = Inr (q\<lparr>sql_job_defs := defs\<rparr>)" using assms(2) by (simp add: sql_sync_defs_def insert_rows_distinct)
  have keys: "distinct (dict_keys ?ds)" "set (dict_keys ?ds) = def_job_id ` set defs"
    using foldl_update_keys [of "mem_defs m" defs] assms(1,3) by (auto simp: same_defs_def)
  have entry: "(k, x) \<in> set ?ds \<longleftrightarrow> x \<in> set defs \<and> k = def_job_id x" for k x
  proof -
    have "(k, x) \<in> set ?ds \<longleftrightarrow> map_of ?ds k = Some x" using keys(1) by simp
    also have "\<dots> \<longleftrightarrow> map_of (map (\<lambda>x. (def_job_id x, x)) defs) k = Some x"
    proof (cases "map_of (map (\<lambda>x. (def_job_id x, x)) defs) k")
      case None
      then have "k \<notin> set (dict_keys ?ds)" unfolding keys(2) by (force simp: map_of_eq_None_iff image_iff)
      then have "map_of ?ds k = None" by (simp add: map_of_eq_None_iff)
      with None show ?thesis by simp
    qed (simp add: foldl_update_defs [OF assms(2)])
    also have "\<dots> \<longleftrightarrow> (k, x) \<in> set (map (\<lambda>x. (def_job_id x, x)) defs)"
      using assms(2) by (intro map_of_eq_Some_iff) (simp add: comp_def)
    finally show ?thesis by auto
  qed
  have "set (dict_values ?ds) = set defs"
  proof
    show "set (dict_values ?ds) \<subseteq> set defs"
    proof
      fix x assume "x \<in> set (dict_values ?ds)"
      then have "x \<in> snd ` set ?ds" unfolding set_map .
      then obtain y where "x = snd y" "y \<in> set ?ds" by (rule imageE)
      then have "(fst y, x) \<in> set ?ds" by simp
      then show "x \<in> set defs" unfolding entry by (rule conjunct1)
    qed
    show "set defs \<subseteq> set (dict_values ?ds)"
    proof
      fix x assume "x \<in> set defs"
      then have "(def_job_id x, x) \<in> set ?ds" unfolding entry by simp
      then have "snd (def_job_id x, x) \<in> snd ` set ?ds" by (rule imageI)
      then show "x \<in> set (dict_values ?ds)" unfolding set_map by (simp only: snd_conv)
    qed
  qed
  moreover have "\<forall>(k, x) \<in> set ?ds. k = def_job_id x" unfolding Ball_def split_paired_All prod.case entry by blast
  ultimately show ?thesis using q' keys by (simp add: same_defs_def mem_sync_defs_def)
qed

lemma sim_exec:
  assumes "sim m q" and "portable (sql_dialect q) c" and "workers_ok (plain_worker (sql_dialect q)) (mem_table m)"
    and "\<forall>defs. c \<noteq> SyncDefs defs" and "same_defs ids m q"
  shows "snd (sql_exec h c q) = snd (mem_exec h c m) \<and> sim (fst (mem_exec h c m)) (fst (sql_exec h c q))"
proof (cases c)
  case (SyncDependencies deps)
  with assms show ?thesis
    by (simp add: sql_sync_dependencies_def mem_sync_dependencies_def insert_rows_distinct sim_def mem_inv_def mem_table_def)
next
  case (CreateRun i req now)
  have "agree (mem_create_run h i req now m) (sql_create_run h i req now q)"
    using sim_create_run [OF assms(1), of h i req now] by (auto split: sum.splits)
  with CreateRun sim_answer [OF assms(1)] show ?thesis by simp
next
  case (ClaimNext w now utcnow)
  with sim_claim_next [OF assms(1), of w now utcnow] show ?thesis by (auto simp: answer_def)
next
  case (Succeed rid rows now)
  with sim_answer [OF assms(1) sim_succeed [OF assms(1)]] show ?thesis by simp
next
  case (Fail rid err now)
  with sim_answer [OF assms(1) sim_fail [OF assms(1)]] show ?thesis by simp
next
  case (Interrupt rid reason now)
  with sim_answer [OF assms(1) sim_interrupt [OF assms(1)]] show ?thesis by simp
next
  case (InterruptRunning prefix now)
  with assms(2) have "plain_prefix (sql_dialect q) prefix" by simp
  from sim_interrupt_running [OF assms(1) this assms(3) [unfolded workers_ok_def], of now] InterruptRunning show ?thesis
    by (auto simp: answer_def split: prod.splits)
next
  case (SetWatermark d s t)
  with sim_set_watermark [OF assms(1), of d s t] show ?thesis by (auto simp: answer_def split: prod.splits)
next
  case (AdvanceWatermark d s t)
  with sim_advance_watermark [OF assms(1), of d s t] show ?thesis by (auto simp: answer_def split: prod.splits)
next
  case ListDefs
  with assms(1,5) show ?thesis by (simp add: same_defs_def sql_list_defs_def mem_list_defs_def)
qed (use assms(1,4) in \<open>simp_all add: sim_get_run sim_list_runs sim_find_run_by_request_id sim_count_queued
  sim_parents_ready sim_get_watermark sim_list_watermarks sql_list_dependencies_def mem_list_dependencies_def sim_def [of m q]\<close>)

lemma sim_calls:
  "sim m q \<Longrightarrow> list_all (portable (sql_dialect q)) cs \<Longrightarrow> workers_ok (plain_worker (sql_dialect q)) (mem_table m) \<Longrightarrow>
    same_defs ids m q \<Longrightarrow> defs_grow ids cs \<Longrightarrow>
    snd (run_calls (sql_exec h) cs q) = snd (run_calls (mem_exec h) cs m)"
proof (induction cs arbitrary: m q ids)
  case Nil
  then show ?case by simp
next
  case (Cons c cs)
  have inv: "mem_inv m" using Cons.prems(1) by (simp add: sim_def)
  let ?m = "fst (mem_exec h c m)" and ?q = "fst (sql_exec h c q)"
  have d: "sql_dialect ?q = sql_dialect q" using sql_exec_kept by blast
  have w: "workers_ok (plain_worker (sql_dialect ?q)) (mem_table ?m)"
    unfolding d using mem_exec_workers [OF inv Cons.prems(3)] Cons.prems(2) by simp
  have p: "list_all (portable (sql_dialect ?q)) cs" unfolding d using Cons.prems(2) by simp
  have "snd (sql_exec h c q) = snd (mem_exec h c m) \<and> sim ?m ?q \<and> (\<exists>ids'. same_defs ids' ?m ?q \<and> defs_grow ids' cs)"
  proof (cases "\<exists>defs. c = SyncDefs defs")
    case True
    then obtain defs where c: "c = SyncDefs defs" by blast
    with Cons.prems(5) have g: "distinct (map def_job_id defs)" "set ids \<subseteq> def_job_id ` set defs" "defs_grow (map def_job_id defs) cs" by simp_all
    from sync_defs_same [OF Cons.prems(4) g(1,2)] obtain q' where
      q': "sql_sync_defs defs q = Inr q'" "same_defs (map def_job_id defs) (mem_sync_defs defs m) q'" by blast
    have "q' = q\<lparr>sql_job_defs := sql_job_defs q'\<rparr>" using q'(1) by (auto simp: sql_sync_defs_def split: sum.splits)
    then have "sim (mem_sync_defs defs m) q'" using sim_sync_defs [OF Cons.prems(1)] by metis
    with c q' g(3) show ?thesis by auto
  next
    case False
    then have "defs_grow ids cs" using Cons.prems(5) by (cases c) auto
    moreover have "same_defs ids ?m ?q" using Cons.prems(4) False mem_exec_defs [of c h m] sql_exec_kept [of h c q]
      by (simp add: same_defs_def)
    moreover have "snd (sql_exec h c q) = snd (mem_exec h c m) \<and> sim ?m ?q"
      using sim_exec [OF Cons.prems(1) _ Cons.prems(3) _ Cons.prems(4)] Cons.prems(2) False by simp
    ultimately show ?thesis by blast
  qed
  then obtain ids' where "snd (sql_exec h c q) = snd (mem_exec h c m)" "sim ?m ?q" "same_defs ids' ?m ?q" "defs_grow ids' cs" by blast
  with Cons.IH [OF _ p w] show ?case by (simp add: split_beta Let_def)
qed

text \<open>
  Where the repositories differ: after a sync that drops a job only the SQL one forgets it, and SQLite's \<open>LIKE\<close>
  also sweeps the runs of a worker whose name differs in case.
\<close>

lemma dropped_job_differs:
  assumes "def_job_id a \<noteq> def_job_id b"
  shows "snd (run_calls (sql_exec h) [SyncDefs [a, b], SyncDefs [a], ListDefs] (sql_empty d)) = [Done, Done, Defs {a}]"
    and "snd (run_calls (mem_exec h) [SyncDefs [a, b], SyncDefs [a], ListDefs] mem_empty) = [Done, Done, Defs {a, b}]"
  using assms by (auto simp: sql_sync_defs_def mem_sync_defs_def sql_list_defs_def mem_list_defs_def sql_empty_def mem_empty_def)

lemma sqlite_like_ignores_case: "like SQLite ''worker-1%'' ''Worker-1-0'' \<and> \<not> like PostgreSQL ''worker-1%'' ''Worker-1-0''
    \<and> \<not> starts_with ''worker-1'' ''Worker-1-0''"
  by code_simp

end
