(* ===== verification/Repo_Interface.thy ===== *)
theory Repo_Interface
  imports Meta_Sql
begin

text \<open>
  \<open>MetaRepository\<close> (the protocol of \<open>runtime/repository.py\<close>) as the roles use it: the operations
  they call, and the laws both repositories promise over the table of runs.  The roles' lemmas
  are proved in the locale; the two repositories are its interpretations.
\<close>

record 's repo_ops =
  op_sync_defs :: "job_def list \<Rightarrow> 's \<Rightarrow> 's result"
  op_sync_dependencies :: "job_dependency list \<Rightarrow> 's \<Rightarrow> 's result"
  op_list_defs :: "'s \<Rightarrow> job_def list"
  op_create_run :: "job_intent \<Rightarrow> string option \<Rightarrow> time \<Rightarrow> 's \<Rightarrow> ('s \<times> job_run option) result"
  op_claim_next :: "string \<Rightarrow> time option \<Rightarrow> time \<Rightarrow> 's \<Rightarrow> ('s \<times> job_run option) result"
  op_succeed :: "int \<Rightarrow> int \<Rightarrow> time \<Rightarrow> 's \<Rightarrow> ('s \<times> job_run) result"
  op_fail :: "int \<Rightarrow> string \<Rightarrow> time \<Rightarrow> 's \<Rightarrow> ('s \<times> job_run) result"
  op_interrupt_running :: "string \<Rightarrow> time \<Rightarrow> 's \<Rightarrow> ('s \<times> int) result"
  op_find_run_by_request_id :: "string \<Rightarrow> 's \<Rightarrow> job_run option"
  op_count_queued :: "'s \<Rightarrow> int"
  op_parents_ready :: "string \<Rightarrow> string \<Rightarrow> date option \<Rightarrow> date option \<Rightarrow> 's \<Rightarrow> bool"
  op_get_watermark :: "string \<Rightarrow> string \<Rightarrow> 's \<Rightarrow> watermark option"
  op_advance_watermark :: "string \<Rightarrow> string \<Rightarrow> time \<Rightarrow> 's \<Rightarrow> ('s \<times> watermark) result"

definition failed_run :: "string \<Rightarrow> time \<Rightarrow> job_run \<Rightarrow> job_run" where
  "failed_run err now r =
     (if run_attempt r < run_max_attempts r
      then finished_run RETRYING None (Some err) (Some (run_attempt r + 1))
             (Some (now + retry_delay (run_attempt r))) now r
      else finished_run DEAD None (Some err) None None now r)"

lemma failed_run_sel [simp]:
  "run_id (failed_run err now r) = run_id r"
  "run_error (failed_run err now r) = Some err"
  "run_status (failed_run err now r) = (if run_attempt r < run_max_attempts r then RETRYING else DEAD)"
  "same_job r (failed_run err now r)"
  by (simp_all add: failed_run_def)

locale meta_repository =
  fixes ops :: "'s repo_ops" and runs :: "'s \<Rightarrow> job_run list" and next_id :: "'s \<Rightarrow> int" and inv :: "'s \<Rightarrow> bool"
  assumes inv_runs: "inv s \<Longrightarrow> runs_inv (runs s) (next_id s)"
    and create_none: "op_create_run ops i req now s = Inr (s', None) \<Longrightarrow> inv s \<Longrightarrow> s' = s"
    and create_some: "op_create_run ops i req now s = Inr (s', Some r) \<Longrightarrow> inv s \<Longrightarrow>
      inv s' \<and> runs s' = runs s @ [r] \<and> next_id s' = next_id s + 1 \<and>
      (\<exists>key. r = new_run i key (next_id s) req now \<and>
        (\<forall>q \<in> set (runs s). run_job_key q = key \<longrightarrow> run_status q \<notin> ACTIVE_STATUSES))"
    and claim_total: "inv s \<Longrightarrow> \<exists>s' res. op_claim_next ops w at utcnow s = Inr (s', res)"
    and claim_none: "op_claim_next ops w at utcnow s = Inr (s', None) \<Longrightarrow> inv s \<Longrightarrow> s' = s"
    and claim_some: "op_claim_next ops w at utcnow s = Inr (s', Some r) \<Longrightarrow> inv s \<Longrightarrow>
      inv s' \<and> next_id s' = next_id s \<and> (\<exists>q t. r = claimed_run w t q \<and> runs s' = put_run r (runs s)
        \<and> t = (case at of Some t \<Rightarrow> t | None \<Rightarrow> utcnow) \<and> q \<in> set (runs s)
        \<and> run_status q \<in> CLAIMABLE_STATUSES \<and> run_scheduled_at q \<le> t
        \<and> (\<forall>r' \<in> set (runs s). run_status r' = RUNNING \<longrightarrow> (run_dataset r', run_scope r') \<noteq> (run_dataset q, run_scope q)))"
    and succeed: "find_run rid (runs s) = Some r \<Longrightarrow> inv s \<Longrightarrow>
      (if run_status r = RUNNING
       then \<exists>s'. op_succeed ops rid rows now s = Inr (s', finished_run SUCCEEDED (Some rows) None None None now r) \<and> inv s'
         \<and> runs s' = put_run (finished_run SUCCEEDED (Some rows) None None None now r) (runs s) \<and> next_id s' = next_id s
       else \<exists>s'. op_succeed ops rid rows now s = Inr (s', r) \<and> inv s' \<and> runs s' = runs s \<and> next_id s' = next_id s)"
    and fail: "find_run rid (runs s) = Some r \<Longrightarrow> inv s \<Longrightarrow>
      (if run_status r = RUNNING
       then \<exists>s'. op_fail ops rid err now s = Inr (s', failed_run err now r) \<and> inv s'
         \<and> runs s' = put_run (failed_run err now r) (runs s) \<and> next_id s' = next_id s
       else \<exists>s'. op_fail ops rid err now s = Inr (s', r) \<and> inv s' \<and> runs s' = runs s \<and> next_id s' = next_id s)"
    and count_queued: "inv s \<Longrightarrow>
      op_count_queued ops s = int (length (filter (\<lambda>r. run_status r \<in> CLAIMABLE_STATUSES) (runs s)))"
    and find_request: "inv s \<Longrightarrow> (case op_find_run_by_request_id ops request s of
        None \<Rightarrow> \<forall>r \<in> set (runs s). run_request_id r \<noteq> Some request
      | Some r \<Rightarrow> r \<in> set (runs s) \<and> run_request_id r = Some request)"
begin

definition table where "table s = (runs s, next_id s)"

lemma create_step:
  assumes "op_create_run ops i req now s = Inr (s', res)" and "inv s"
  shows "inv s' \<and> table_step\<^sup>*\<^sup>* (table s) (table s')"
proof (cases res)
  case None
  from create_none [OF assms(1) [unfolded None] assms(2)] assms(2) show ?thesis by simp
next
  case (Some r)
  from create_some [OF assms(1) [unfolded Some] assms(2)] show ?thesis
    by (auto simp: table_def table_step.create)
qed

lemma claim_step:
  assumes "op_claim_next ops w now utcnow s = Inr (s', res)" and "inv s"
  shows "inv s' \<and> table_step\<^sup>*\<^sup>* (table s) (table s')"
proof (cases res)
  case None
  from claim_none [OF assms(1) [unfolded None] assms(2)] assms(2) show ?thesis by simp
next
  case (Some r)
  from claim_some [OF assms(1) [unfolded Some] assms(2)] show ?thesis
    by (auto simp: table_def table_step.claim)
qed

lemma find_distinct: "inv s \<Longrightarrow> r \<in> set (runs s) \<Longrightarrow> find_run (run_id r) (runs s) = Some r"
  using inv_runs by (auto simp: runs_inv_def ids_ok_def intro: find_run_in)

lemma put_step:
  assumes "inv s" "find_run rid (runs s) = Some r" "run_status r = RUNNING"
  shows "table_step (table s) (put_run (finished_run SUCCEEDED (Some rows) None None None now r) (runs s), next_id s)"
    and "table_step (table s) (put_run (failed_run err now r) (runs s), next_id s)"
  using assms find_run_Some [OF assms(2)]
  by (simp_all add: table_def failed_run_def table_step.succeed table_step.retry table_step.die)

text \<open>Ending a run that the table holds: the answer is the stored run, and it has ended.\<close>

lemma succeed_ends:
  assumes "inv s" and "find_run rid (runs s) = Some r" and "run_status r \<in> insert RUNNING A" and "SUCCEEDED \<in> A"
  shows "\<exists>s' fin. op_succeed ops rid rows now s = Inr (s', fin) \<and> inv s' \<and> table_step\<^sup>*\<^sup>* (table s) (table s')
    \<and> find_run rid (runs s') = Some fin \<and> run_status fin \<in> A - {RUNNING} \<union> {SUCCEEDED}"
proof (cases "run_status r = RUNNING")
  case True
  with succeed [OF assms(2,1), of rows now] obtain s' where
    s': "op_succeed ops rid rows now s = Inr (s', finished_run SUCCEEDED (Some rows) None None None now r)" "inv s'"
    "runs s' = put_run (finished_run SUCCEEDED (Some rows) None None None now r) (runs s)" "next_id s' = next_id s" by auto
  with put_step(1) [OF assms(1,2) True, of rows now] find_run_Some [OF assms(2)] assms(2,4) show ?thesis
    by (simp add: table_def find_run_put r_into_rtranclp)
next
  case False
  with succeed [OF assms(2,1), of rows now] assms show ?thesis by (auto simp: table_def)
qed

lemma fail_ends:
  assumes "inv s" and "find_run rid (runs s) = Some r"
  shows "\<exists>s' fin. op_fail ops rid err now s = Inr (s', fin) \<and> inv s' \<and> table_step\<^sup>*\<^sup>* (table s) (table s')
    \<and> find_run rid (runs s') = Some fin \<and> run_status fin \<noteq> RUNNING"
proof (cases "run_status r = RUNNING")
  case True
  with fail [OF assms(2,1), of err now] obtain s' where
    s': "op_fail ops rid err now s = Inr (s', failed_run err now r)" "inv s'"
    "runs s' = put_run (failed_run err now r) (runs s)" "next_id s' = next_id s" by auto
  with put_step(2) [OF assms(1,2) True, of err now] find_run_Some [OF assms(2)] assms(2) show ?thesis
    by (simp add: table_def find_run_put r_into_rtranclp)
next
  case False
  with fail [OF assms(2,1), of err now] assms show ?thesis by (auto simp: table_def)
qed

end

subsection \<open>The in-memory repository\<close>

definition mem_ops :: "(string \<Rightarrow> string) \<Rightarrow> mem_repo repo_ops" where
  "mem_ops sha256_hex = \<lparr>
     op_sync_defs = (\<lambda>defs m. Inr (mem_sync_defs defs m)),
     op_sync_dependencies = (\<lambda>deps m. Inr (mem_sync_dependencies deps m)),
     op_list_defs = mem_list_defs,
     op_create_run = mem_create_run sha256_hex,
     op_claim_next = (\<lambda>w now utcnow m. Inr (mem_claim_next w now utcnow m)),
     op_succeed = mem_succeed, op_fail = mem_fail,
     op_interrupt_running = mem_interrupt_running,
     op_find_run_by_request_id = mem_find_run_by_request_id,
     op_count_queued = mem_count_queued, op_parents_ready = mem_parents_ready,
     op_get_watermark = mem_get_watermark,
     op_advance_watermark = (\<lambda>d s t m. Inr (mem_advance_watermark d s t m))\<rparr>"

lemma mem_finish_law:
  assumes "find_run rid (mem_table m) = Some r" and "mem_inv m"
    and "\<And>m' x. mem_finish rid st rows err att sched now m = Inr (m', x) \<Longrightarrow> mem_moves m m'"
  shows "if run_status r = RUNNING
    then \<exists>m'. mem_finish rid st rows err att sched now m = Inr (m', finished_run st rows err att sched now r) \<and> mem_inv m'
      \<and> mem_table m' = put_run (finished_run st rows err att sched now r) (mem_table m) \<and> mem_next_run_id m' = mem_next_run_id m
    else \<exists>m'. mem_finish rid st rows err att sched now m = Inr (m', r) \<and> mem_inv m' \<and> mem_table m' = mem_table m
      \<and> mem_next_run_id m' = mem_next_run_id m"
proof (rule mem_finish_cases [OF refl assms(2), of rid st rows err att sched now])
  fix r' m'
  assume e: "find_run rid (mem_table m) = Some r'" "run_status r' = RUNNING"
    "mem_finish rid st rows err att sched now m = Inr (m', finished_run st rows err att sched now r')"
    "mem_state m' = (put_run (finished_run st rows err att sched now r') (mem_table m), mem_next_run_id m)"
  have "mem_inv m'" using mem_moves_inv [OF assms(3) [OF e(3)] assms(2)] .
  with e assms(1) show ?thesis by (auto simp: mem_state_def)
qed (use assms in auto)

lemma mem_fail_law:
  assumes "find_run rid (mem_table m) = Some r" and "mem_inv m"
  shows "if run_status r = RUNNING
    then \<exists>m'. mem_fail rid err now m = Inr (m', failed_run err now r) \<and> mem_inv m'
      \<and> mem_table m' = put_run (failed_run err now r) (mem_table m) \<and> mem_next_run_id m' = mem_next_run_id m
    else \<exists>m'. mem_fail rid err now m = Inr (m', r) \<and> mem_inv m' \<and> mem_table m' = mem_table m
      \<and> mem_next_run_id m' = mem_next_run_id m"
proof (cases "run_attempt r < run_max_attempts r")
  case True
  with assms have f: "mem_fail rid err now m = mem_finish rid RETRYING None (Some err) (Some (run_attempt r + 1))
      (Some (now + retry_delay (run_attempt r))) now m" by (simp add: mem_fail_def mem_lookup)
  from True show ?thesis
    using mem_finish_law [OF assms, of RETRYING None "Some err" "Some (run_attempt r + 1)"
        "Some (now + retry_delay (run_attempt r))" now] mem_fail_moves [of rid err now m] assms(2)
    by (simp add: f failed_run_def)
next
  case False
  with assms have f: "mem_fail rid err now m = mem_finish rid DEAD None (Some err) None None now m"
    by (simp add: mem_fail_def mem_lookup)
  from False show ?thesis
    using mem_finish_law [OF assms, of DEAD None "Some err" None None now] mem_fail_moves [of rid err now m] assms(2)
    by (simp add: f failed_run_def)
qed

interpretation mem: meta_repository "mem_ops h" mem_table mem_next_run_id mem_inv
proof
  fix s assume "mem_inv s"
  then show "runs_inv (mem_table s) (mem_next_run_id s)" by (simp add: mem_inv_def)
next
  fix i req now s s' assume "op_create_run (mem_ops h) i req now s = Inr (s', None)" "mem_inv s"
  then have "mem_create_run h i req now s = Inr (s', None)" "mem_inv s" by (simp_all add: mem_ops_def)
  then show "s' = s" by (cases rule: mem_create_run_cases) auto
next
  fix i req now s s' r assume "op_create_run (mem_ops h) i req now s = Inr (s', Some r)" and inv: "mem_inv s"
  then have c: "mem_create_run h i req now s = Inr (s', Some r)" by (simp add: mem_ops_def)
  have "mem_inv s'" using mem_moves_inv [OF mem_create_run_moves [OF c inv] inv] .
  with c inv show "mem_inv s' \<and> mem_table s' = mem_table s @ [r] \<and> mem_next_run_id s' = mem_next_run_id s + 1 \<and>
      (\<exists>key. r = new_run i key (mem_next_run_id s) req now \<and>
        (\<forall>q \<in> set (mem_table s). run_job_key q = key \<longrightarrow> run_status q \<notin> ACTIVE_STATUSES))"
    by (cases rule: mem_create_run_cases) (auto simp: mem_state_def)
next
  fix w now utcnow s
  show "\<exists>s' res. op_claim_next (mem_ops h) w now utcnow s = Inr (s', res)"
    by (cases "mem_claim_next w now utcnow s") (simp add: mem_ops_def)
next
  fix w now utcnow s s' assume "op_claim_next (mem_ops h) w now utcnow s = Inr (s', None)" "mem_inv s"
  then have "mem_claim_next w now utcnow s = (s', None)" "mem_inv s" by (simp_all add: mem_ops_def)
  then show "s' = s" by (cases rule: mem_claim_next_cases) auto
next
  fix w now utcnow s s' r
  assume "op_claim_next (mem_ops h) w now utcnow s = Inr (s', Some r)" and inv: "mem_inv s"
  then have c: "mem_claim_next w now utcnow s = (s', Some r)" by (simp add: mem_ops_def)
  have i: "mem_inv s'" using mem_moves_inv [OF mem_claim_next_moves [OF c inv] inv] .
  from c inv show "mem_inv s' \<and> mem_next_run_id s' = mem_next_run_id s \<and> (\<exists>q t. r = claimed_run w t q
        \<and> mem_table s' = put_run r (mem_table s)
        \<and> t = (case now of Some t \<Rightarrow> t | None \<Rightarrow> utcnow) \<and> q \<in> set (mem_table s)
        \<and> run_status q \<in> CLAIMABLE_STATUSES \<and> run_scheduled_at q \<le> t
        \<and> (\<forall>r' \<in> set (mem_table s). run_status r' = RUNNING \<longrightarrow> (run_dataset r', run_scope r') \<noteq> (run_dataset q, run_scope q)))"
  proof (cases rule: mem_claim_next_cases)
    case (claimed q t)
    from claimed(3) obtain rs where "mem_candidates t s = q # rs" by blast
    from mem_candidates_first [OF this] claimed i show ?thesis
      by (intro conjI exI [of _ q] exI [of _ t]) (auto simp: mem_state_def)
  qed simp
next
  fix rid s r rows now assume "find_run rid (mem_table s) = Some r" "mem_inv s"
  from mem_finish_law [OF this, of SUCCEEDED "Some rows" None None None now] mem_succeed_moves [of rid rows now s] this(2)
  show "if run_status r = RUNNING
       then \<exists>s'. op_succeed (mem_ops h) rid rows now s = Inr (s', finished_run SUCCEEDED (Some rows) None None None now r) \<and> mem_inv s'
         \<and> mem_table s' = put_run (finished_run SUCCEEDED (Some rows) None None None now r) (mem_table s) \<and> mem_next_run_id s' = mem_next_run_id s
       else \<exists>s'. op_succeed (mem_ops h) rid rows now s = Inr (s', r) \<and> mem_inv s' \<and> mem_table s' = mem_table s \<and> mem_next_run_id s' = mem_next_run_id s"
    by (simp add: mem_ops_def mem_succeed_def)
next
  fix rid s r err now assume "find_run rid (mem_table s) = Some r" "mem_inv s"
  from mem_fail_law [OF this, of err now]
  show "if run_status r = RUNNING
       then \<exists>s'. op_fail (mem_ops h) rid err now s = Inr (s', failed_run err now r) \<and> mem_inv s'
         \<and> mem_table s' = put_run (failed_run err now r) (mem_table s) \<and> mem_next_run_id s' = mem_next_run_id s
       else \<exists>s'. op_fail (mem_ops h) rid err now s = Inr (s', r) \<and> mem_inv s' \<and> mem_table s' = mem_table s \<and> mem_next_run_id s' = mem_next_run_id s"
    by (simp add: mem_ops_def)
next
  fix req s
  show "case op_find_run_by_request_id (mem_ops h) req s of
        None \<Rightarrow> \<forall>r \<in> set (mem_table s). run_request_id r \<noteq> Some req
      | Some r \<Rightarrow> r \<in> set (mem_table s) \<and> run_request_id r = Some req"
  proof (cases "mem_find_run_by_request_id req s")
    case None
    then show ?thesis
      by (auto simp: mem_ops_def mem_find_run_by_request_id_def mem_table_def filter_empty_conv)
  next
    case (Some r)
    then show ?thesis
      using min_by_Some(1) [of run_id _ r] by (fastforce simp: mem_ops_def mem_find_run_by_request_id_def mem_table_def)
  qed
qed (simp add: mem_ops_def mem_count_queued_def mem_table_def)

subsection \<open>The SQL repository\<close>

text \<open>
  Its laws come from the simulation: a SQL state is well formed when it simulates some
  in-memory state.
\<close>

definition sql_ops :: "(string \<Rightarrow> string) \<Rightarrow> sql_repo repo_ops" where
  "sql_ops sha256_hex = \<lparr>
     op_sync_defs = sql_sync_defs, op_sync_dependencies = sql_sync_dependencies,
     op_list_defs = sql_list_defs,
     op_create_run = sql_create_run sha256_hex, op_claim_next = sql_claim_next,
     op_succeed = sql_succeed, op_fail = sql_fail,
     op_interrupt_running = (\<lambda>p now q. Inr (sql_interrupt_running p now q)),
     op_find_run_by_request_id = sql_find_run_by_request_id,
     op_count_queued = sql_count_queued, op_parents_ready = sql_parents_ready,
     op_get_watermark = sql_get_watermark, op_advance_watermark = sql_advance_watermark\<rparr>"

definition sql_inv :: "sql_repo \<Rightarrow> bool" where
  "sql_inv q \<longleftrightarrow> (\<exists>m. sim m q)"

lemma sim_sel: "sim m q \<Longrightarrow> sql_job_runs q = mem_table m \<and> sql_run_seq q = mem_next_run_id m \<and> mem_inv m"
  by (simp add: sim_def)

lemma sql_create_some:
  assumes "sql_create_run h i req now q = Inr (q', res)" and "sim m q"
  obtains m' where "mem_create_run h i req now m = Inr (m', res)" "sim m' q'"
  using sim_create_run [OF assms(2), of h i req now] assms(1) by (auto split: sum.splits)

lemma sql_create_none: "sql_create_run h i req now q = Inr (q', None) \<Longrightarrow> q' = q"
  by (auto simp: sql_create_run_def Let_def split: sum.splits if_splits option.splits)

lemma sql_claim_none: "sql_claim_next w at utcnow q = Inr (q', None) \<Longrightarrow> q' = q"
  by (auto simp: sql_claim_next_def Let_def split: option.splits)

lemma sql_end_law:
  assumes "agree res res'" and "sim m q"
    and "if running then \<exists>m'. res = Inr (m', x) \<and> mem_inv m' \<and> mem_table m' = t \<and> mem_next_run_id m' = mem_next_run_id m
      else \<exists>m'. res = Inr (m', r) \<and> mem_inv m' \<and> mem_table m' = mem_table m \<and> mem_next_run_id m' = mem_next_run_id m"
  shows "if running then \<exists>q'. res' = Inr (q', x) \<and> sql_inv q' \<and> sql_job_runs q' = t \<and> sql_run_seq q' = sql_run_seq q
      else \<exists>q'. res' = Inr (q', r) \<and> sql_inv q' \<and> sql_job_runs q' = sql_job_runs q \<and> sql_run_seq q' = sql_run_seq q"
proof -
  from assms(3) obtain m' y where m': "res = Inr (m', y)" by (auto split: if_splits)
  with assms(1) obtain q' where q': "res' = Inr (q', y)" "sim m' q'" by (cases res') (auto split: prod.splits)
  from sim_sel [OF q'(2)] sim_sel [OF assms(2)] m' q' assms(3) show ?thesis
    by (auto simp: sql_inv_def split: if_splits)
qed

interpretation sql: meta_repository "sql_ops h" sql_job_runs sql_run_seq sql_inv
proof
  fix s assume "sql_inv s"
  then show "runs_inv (sql_job_runs s) (sql_run_seq s)" by (auto simp: sql_inv_def sim_def mem_inv_def)
next
  fix i req now s s' assume "op_create_run (sql_ops h) i req now s = Inr (s', None)"
  then show "s' = s" by (intro sql_create_none) (simp add: sql_ops_def)
next
  fix i req now s s' r assume c: "op_create_run (sql_ops h) i req now s = Inr (s', Some r)" and "sql_inv s"
  then obtain m where m: "sim m s" by (auto simp: sql_inv_def)
  from c have "sql_create_run h i req now s = Inr (s', Some r)" by (simp add: sql_ops_def)
  from this m obtain m' where m': "mem_create_run h i req now m = Inr (m', Some r)" "sim m' s'" by (rule sql_create_some)
  have "op_create_run (mem_ops h) i req now m = Inr (m', Some r)" using m'(1) by (simp add: mem_ops_def)
  from mem.create_some [OF this] sim_sel [OF m] sim_sel [OF m'(2)] m'(2)
  show "sql_inv s' \<and> sql_job_runs s' = sql_job_runs s @ [r] \<and> sql_run_seq s' = sql_run_seq s + 1 \<and>
      (\<exists>key. r = new_run i key (sql_run_seq s) req now \<and>
        (\<forall>q \<in> set (sql_job_runs s). run_job_key q = key \<longrightarrow> run_status q \<notin> ACTIVE_STATUSES))"
    by (auto simp: sql_inv_def)
next
  fix w at utcnow s assume "sql_inv s"
  then obtain m where "sim m s" by (auto simp: sql_inv_def)
  from sim_claim_next [OF this, of w at utcnow]
  show "\<exists>s' res. op_claim_next (sql_ops h) w at utcnow s = Inr (s', res)" by (auto simp: sql_ops_def)
next
  fix w at utcnow s s' assume "op_claim_next (sql_ops h) w at utcnow s = Inr (s', None)"
  then show "s' = s" by (intro sql_claim_none) (simp add: sql_ops_def)
next
  fix w at utcnow s s' r
  assume c: "op_claim_next (sql_ops h) w at utcnow s = Inr (s', Some r)" and "sql_inv s"
  then obtain m where m: "sim m s" by (auto simp: sql_inv_def)
  from sim_claim_next [OF m, of w at utcnow] c obtain m' where
    m': "mem_claim_next w at utcnow m = (m', Some r)" "sim m' s'" by (auto simp: sql_ops_def)
  have "op_claim_next (mem_ops h) w at utcnow m = Inr (m', Some r)" using m'(1) by (simp add: mem_ops_def)
  from mem.claim_some [OF this] sim_sel [OF m] sim_sel [OF m'(2)] m'(2)
  show "sql_inv s' \<and> sql_run_seq s' = sql_run_seq s \<and> (\<exists>q t. r = claimed_run w t q
        \<and> sql_job_runs s' = put_run r (sql_job_runs s)
        \<and> t = (case at of Some t \<Rightarrow> t | None \<Rightarrow> utcnow) \<and> q \<in> set (sql_job_runs s)
        \<and> run_status q \<in> CLAIMABLE_STATUSES \<and> run_scheduled_at q \<le> t
        \<and> (\<forall>r' \<in> set (sql_job_runs s). run_status r' = RUNNING \<longrightarrow> (run_dataset r', run_scope r') \<noteq> (run_dataset q, run_scope q)))"
    by (simp add: sql_inv_def) blast
next
  fix rid s r rows now assume f: "find_run rid (sql_job_runs s) = Some r" and "sql_inv s"
  then obtain m where m: "sim m s" by (auto simp: sql_inv_def)
  from f sim_sel [OF m] have "find_run rid (mem_table m) = Some r" "mem_inv m" by simp_all
  from sql_end_law [OF sim_succeed [OF m] m mem.succeed [OF this, where rows = rows and now = now, unfolded mem_ops_def repo_ops.simps]] sim_sel [OF m]
  show "if run_status r = RUNNING
       then \<exists>s'. op_succeed (sql_ops h) rid rows now s = Inr (s', finished_run SUCCEEDED (Some rows) None None None now r) \<and> sql_inv s'
         \<and> sql_job_runs s' = put_run (finished_run SUCCEEDED (Some rows) None None None now r) (sql_job_runs s) \<and> sql_run_seq s' = sql_run_seq s
       else \<exists>s'. op_succeed (sql_ops h) rid rows now s = Inr (s', r) \<and> sql_inv s' \<and> sql_job_runs s' = sql_job_runs s \<and> sql_run_seq s' = sql_run_seq s"
    by (cases "run_status r = RUNNING") (simp_all add: sql_ops_def)
next
  fix rid s r err now assume f: "find_run rid (sql_job_runs s) = Some r" and "sql_inv s"
  then obtain m where m: "sim m s" by (auto simp: sql_inv_def)
  from f sim_sel [OF m] have "find_run rid (mem_table m) = Some r" "mem_inv m" by simp_all
  from sql_end_law [OF sim_fail [OF m] m mem.fail [OF this, where err = err and now = now, unfolded mem_ops_def repo_ops.simps]] sim_sel [OF m]
  show "if run_status r = RUNNING
       then \<exists>s'. op_fail (sql_ops h) rid err now s = Inr (s', failed_run err now r) \<and> sql_inv s'
         \<and> sql_job_runs s' = put_run (failed_run err now r) (sql_job_runs s) \<and> sql_run_seq s' = sql_run_seq s
       else \<exists>s'. op_fail (sql_ops h) rid err now s = Inr (s', r) \<and> sql_inv s' \<and> sql_job_runs s' = sql_job_runs s \<and> sql_run_seq s' = sql_run_seq s"
    by (cases "run_status r = RUNNING") (simp_all add: sql_ops_def)
next
  fix req s assume "sql_inv s"
  then obtain m where m: "sim m s" by (auto simp: sql_inv_def)
  from mem.find_request [of m req] sim_sel [OF m]
  show "case op_find_run_by_request_id (sql_ops h) req s of
        None \<Rightarrow> \<forall>r \<in> set (sql_job_runs s). run_request_id r \<noteq> Some req
      | Some r \<Rightarrow> r \<in> set (sql_job_runs s) \<and> run_request_id r = Some req"
    by (simp add: sql_ops_def mem_ops_def sim_find_run_by_request_id [OF m] split: option.splits)
qed (simp add: sql_ops_def sql_count_queued_def)

end
