(* ===== verification/Runtime_Roles.thy ===== *)
theory Runtime_Roles
  imports Repo_Interface
begin

text \<open>
  The three roles (\<open>runtime/roles.py\<close>) over any repository that keeps the protocol's laws:
  \<open>Scheduler\<close> computes due intents, \<open>Dispatcher\<close> gates and creates runs, \<open>WorkerPool\<close> claims and
  executes them.  Locks make each submit and each health update atomic, so they are plain state
  changes.  Readings of the clock are arguments.  \<open>describe\<close> renders an exception of the
  repository as its type's name and its text.  What other threads do to the repository while an
  executor runs is the argument \<open>during\<close>.
\<close>

definition SUBMIT_CREATED :: string where "SUBMIT_CREATED = ''created''"
definition SUBMIT_DUPLICATE :: string where "SUBMIT_DUPLICATE = ''duplicate''"
definition SUBMIT_DEPENDENCY :: string where "SUBMIT_DEPENDENCY = ''dependency''"
definition SUBMIT_BACKPRESSURE :: string where "SUBMIT_BACKPRESSURE = ''backpressure''"

lemmas submit_answers = SUBMIT_CREATED_def SUBMIT_DUPLICATE_def SUBMIT_DEPENDENCY_def SUBMIT_BACKPRESSURE_def

definition exn_text :: "exn \<Rightarrow> string" where
  "exn_text e = fst e @ '': '' @ snd e"

subsection \<open>Dispatcher\<close>

record dispatcher_health =
  dh_last_dispatch_at :: "time option"
  dh_created :: int
  dh_duplicate :: int
  dh_dependency_blocked :: int
  dh_backpressure_blocked :: int

definition submit ::
  "'s repo_ops \<Rightarrow> int \<Rightarrow> job_intent \<Rightarrow> time \<Rightarrow> 's \<times> dispatcher_health \<Rightarrow> ('s \<times> dispatcher_health) \<times> string result" where
  "submit ops max_queued i now st =
     (let (s, h) = st in
      if op_count_queued ops s \<ge> max_queued
      then ((s, h\<lparr>dh_backpressure_blocked := dh_backpressure_blocked h + 1, dh_last_dispatch_at := Some now\<rparr>),
            Inr SUBMIT_BACKPRESSURE)
      else if \<not> op_parents_ready ops (intent_job_id i) (intent_scope i) (intent_window_start i) (intent_window_end i) s
      then ((s, h\<lparr>dh_dependency_blocked := dh_dependency_blocked h + 1, dh_last_dispatch_at := Some now\<rparr>),
            Inr SUBMIT_DEPENDENCY)
      else case op_create_run ops i None now s of
             Inl e \<Rightarrow> ((s, h), Inl e)
           | Inr (s', run) \<Rightarrow>
               let h' = h\<lparr>dh_last_dispatch_at := Some now\<rparr>
               in case run of
                    None \<Rightarrow> ((s', h'\<lparr>dh_duplicate := dh_duplicate h' + 1\<rparr>), Inr SUBMIT_DUPLICATE)
                  | Some _ \<Rightarrow> ((s', h'\<lparr>dh_created := dh_created h' + 1\<rparr>), Inr SUBMIT_CREATED))"

fun submit_all ::
  "'s repo_ops \<Rightarrow> int \<Rightarrow> (job_intent \<times> time) list \<Rightarrow> 's \<times> dispatcher_health
    \<Rightarrow> ('s \<times> dispatcher_health) \<times> string list result" where
  "submit_all ops max_queued [] st = (st, Inr [])"
| "submit_all ops max_queued ((i, now) # is) st =
     (case submit ops max_queued i now st of
        (st', Inl e) \<Rightarrow> (st', Inl e)
      | (st', Inr a) \<Rightarrow> (case submit_all ops max_queued is st' of
            (st'', Inl e) \<Rightarrow> (st'', Inl e) | (st'', Inr as) \<Rightarrow> (st'', Inr (a # as))))"

subsection \<open>Scheduler\<close>

record scheduler_health =
  sh_alive :: bool
  sh_last_tick_at :: "time option"
  sh_intents_emitted :: int
  sh_last_error :: "string option"

type_synonym 'r due_provider = "'r task_spec \<Rightarrow> time \<Rightarrow> exn + (date \<times> date) list"

fun due_intents ::
  "'r due_provider \<Rightarrow> time \<Rightarrow> string set option \<Rightarrow> 'r task_spec list \<Rightarrow> exn + job_intent list" where
  "due_intents due moment only [] = Inr []"
| "due_intents due moment only (spec # ss) =
     (if only \<noteq> None \<and> spec_job_id spec \<notin> the only then due_intents due moment only ss
      else case due spec moment of
             Inl e \<Rightarrow> Inl e
           | Inr windows \<Rightarrow>
               (case due_intents due moment only ss of
                  Inl e \<Rightarrow> Inl e
                | Inr is \<Rightarrow> Inr (map (\<lambda>(ws, we). make_intent spec (Some ws) (Some we)) windows @ is)))"

definition tick ::
  "'r task_registry \<Rightarrow> 'r due_provider option \<Rightarrow> time option \<Rightarrow> time \<Rightarrow> string set option \<Rightarrow> scheduler_health
    \<Rightarrow> scheduler_health \<times> (exn + job_intent list)" where
  "tick tasks due now clock only h =
     (let moment = (case now of Some t \<Rightarrow> t | None \<Rightarrow> clock)
      in case (case due of None \<Rightarrow> Inr [] | Some d \<Rightarrow> due_intents d moment only (specs tasks)) of
           Inl e \<Rightarrow> (h, Inl e)
         | Inr intents \<Rightarrow> (h\<lparr>sh_last_tick_at := Some moment,
               sh_intents_emitted := sh_intents_emitted h + int (length intents)\<rparr>, Inr intents))"

text \<open>
  One round of the polling loop: every intent of the tick is submitted in turn, an exception of the tick or
  of a submit ends the round and is recorded.
\<close>

definition scheduler_round ::
  "'s repo_ops \<Rightarrow> (py_error \<Rightarrow> exn) \<Rightarrow> 's task_registry \<Rightarrow> 's due_provider option \<Rightarrow> int \<Rightarrow> time \<Rightarrow> string set option
    \<Rightarrow> ('s \<times> dispatcher_health) \<times> scheduler_health \<Rightarrow> ('s \<times> dispatcher_health) \<times> scheduler_health" where
  "scheduler_round ops describe tasks due max_queued clock only st =
     (let (d, sh) = st in
      case tick tasks due None clock only sh of
        (sh', Inl e) \<Rightarrow> (d, sh'\<lparr>sh_last_error := Some (exn_text e)\<rparr>)
      | (sh', Inr intents) \<Rightarrow>
          (case submit_all ops max_queued (map (\<lambda>i. (i, clock)) intents) d of
             (d', Inl e) \<Rightarrow> (d', sh'\<lparr>sh_last_error := Some (exn_text (describe e))\<rparr>)
           | (d', Inr _) \<Rightarrow> (d', sh')))"

subsection \<open>Worker pool\<close>

record worker_health =
  wh_alive :: bool
  wh_busy :: int
  wh_last_completed_at :: "time option"
  wh_last_error :: "string option"
  wh_executed :: int

text \<open>The Chinese text ``task not registered: '' in UTF-8.\<close>

definition unregistered_text :: string where
  "unregistered_text = [CHR 0xE4, CHR 0xBB, CHR 0xBB, CHR 0xE5, CHR 0x8A, CHR 0xA1, CHR 0xE6, CHR 0x9C,
     CHR 0xAA, CHR 0xE6, CHR 0xB3, CHR 0xA8, CHR 0xE5, CHR 0x86, CHR 0x8C, CHR '':'', CHR '' '']"

definition run_context :: "job_run \<Rightarrow> job_context" where
  "run_context run = \<lparr>ctx_job_id = run_job_id run, ctx_kind = run_kind run, ctx_dataset = run_dataset run, ctx_run = run\<rparr>"

definition rows_of :: "job_result option \<Rightarrow> int" where
  "rows_of res = (case res of None \<Rightarrow> 0 | Some r \<Rightarrow> res_rows_written r)"

definition or_default :: "job_result option \<Rightarrow> job_result" where
  "or_default res = (case res of None \<Rightarrow> \<lparr>res_rows_written = 0\<rparr> | Some r \<Rightarrow> r)"

text \<open>The callback after \<open>succeed\<close>: its exception is only recorded.\<close>

definition call_on_success ::
  "'s task_spec \<Rightarrow> job_context \<Rightarrow> job_result option \<Rightarrow> 's \<times> worker_health \<Rightarrow> 's \<times> worker_health" where
  "call_on_success spec ctx res st =
     (let (s, h) = st in
      case spec_on_success spec of
        None \<Rightarrow> (s, h)
      | Some callback \<Rightarrow>
          (case callback ctx (or_default res) s of
             (s', None) \<Rightarrow> (s', h)
           | (s', Some e) \<Rightarrow> (s', h\<lparr>wh_last_error := Some (''on_success: '' @ exn_text e)\<rparr>)))"

definition record_failure ::
  "'s repo_ops \<Rightarrow> int \<Rightarrow> string \<Rightarrow> time \<Rightarrow> 's \<times> worker_health \<Rightarrow> ('s \<times> worker_health) \<times> job_run result" where
  "record_failure ops rid text now st =
     (let (s, h) = st in
      case op_fail ops rid text now s of
        Inl e \<Rightarrow> ((s, h), Inl e)
      | Inr (s', fin) \<Rightarrow> ((s', h\<lparr>wh_last_error := run_error fin\<rparr>), Inr fin))"

definition execute_spec ::
  "'s repo_ops \<Rightarrow> (py_error \<Rightarrow> exn) \<Rightarrow> 's task_spec \<Rightarrow> job_run \<Rightarrow> ('s \<Rightarrow> 's) \<Rightarrow> time \<Rightarrow> 's \<times> worker_health
    \<Rightarrow> ('s \<times> worker_health) \<times> job_run result" where
  "execute_spec ops describe spec run during now st =
     (let (s0, h) = st; s = during s0; ctx = run_context run;
          (st', ended) =
            (case spec_executor spec ctx of
               Inl e \<Rightarrow> record_failure ops (run_id run) (exn_text e) now (s, h)
             | Inr res \<Rightarrow>
                 (case op_succeed ops (run_id run) (rows_of res) now s of
                    Inl e \<Rightarrow> record_failure ops (run_id run) (exn_text (describe e)) now (s, h)
                  | Inr (s', fin) \<Rightarrow> (call_on_success spec ctx res (s', h), Inr fin)))
      in case ended of
           Inl e \<Rightarrow> (st', Inl e)
         | Inr fin \<Rightarrow>
             let (s', h') = st'
             in ((s', h'\<lparr>wh_executed := wh_executed h' + 1, wh_last_completed_at := Some now\<rparr>), Inr fin))"

definition execute_once ::
  "'s repo_ops \<Rightarrow> (py_error \<Rightarrow> exn) \<Rightarrow> 's task_registry \<Rightarrow> string \<Rightarrow> string option \<Rightarrow> time option \<Rightarrow> ('s \<Rightarrow> 's) \<Rightarrow> time
    \<Rightarrow> 's \<times> worker_health \<Rightarrow> ('s \<times> worker_health) \<times> job_run option result" where
  "execute_once ops describe tasks name worker_id now during clock st =
     (let (s, h) = st;
          label = (case worker_id of Some w \<Rightarrow> if w = [] then name else w | None \<Rightarrow> name);
          moment = (case now of Some t \<Rightarrow> t | None \<Rightarrow> clock)
      in case op_claim_next ops label (Some moment) clock s of
           Inl e \<Rightarrow> ((s, h), Inl e)
         | Inr (s1, None) \<Rightarrow> ((s1, h), Inr None)
         | Inr (s1, Some run) \<Rightarrow>
             let h1 = h\<lparr>wh_busy := wh_busy h + 1\<rparr>;
                 (st2, ended) =
                   (case get_task tasks (run_job_id run) of
                      Inl _ \<Rightarrow> record_failure ops (run_id run) (unregistered_text @ run_job_id run) clock (s1, h1)
                    | Inr spec \<Rightarrow> execute_spec ops describe spec run during clock (s1, h1));
                 (s2, h2) = st2
             in ((s2, h2\<lparr>wh_busy := max 0 (wh_busy h2 - 1)\<rparr>),
                 case ended of Inl e \<Rightarrow> Inl e | Inr fin \<Rightarrow> Inr (Some fin)))"

text \<open>The worker's labels and the sweep of \<open>stop\<close>, when some thread is still alive after its join.\<close>

definition worker_label :: "string \<Rightarrow> nat \<Rightarrow> string" where
  "worker_label name index = name @ ''-'' @ nat_str index"

definition worker_count :: "int \<Rightarrow> int" where
  "worker_count workers = max 1 workers"

definition stop_pool ::
  "'s repo_ops \<Rightarrow> string \<Rightarrow> int \<Rightarrow> time \<Rightarrow> 's \<times> worker_health \<Rightarrow> ('s \<times> worker_health) \<times> unit result" where
  "stop_pool ops name stuck now st =
     (let (s, h) = st in
      if stuck = 0 then ((s, h\<lparr>wh_alive := False\<rparr>), Inr ())
      else case op_interrupt_running ops name now s of
             Inl e \<Rightarrow> ((s, h), Inl e)
           | Inr (s', _) \<Rightarrow> ((s', h\<lparr>wh_alive := False\<rparr>), Inr ()))"

subsection \<open>Dispatcher: gating and back-pressure\<close>

context meta_repository
begin

lemma submit_cases:
  assumes "submit ops max_queued i now (s, h) = ((s', h'), ans)" and "inv s"
  obtains (refused) e where "ans = Inl e" "s' = s" "h' = h" "op_create_run ops i None now s = Inl e"
  | (backpressure) "ans = Inr SUBMIT_BACKPRESSURE" "s' = s" "max_queued \<le> op_count_queued ops s"
  | (dependency) "ans = Inr SUBMIT_DEPENDENCY" "s' = s"
      "\<not> op_parents_ready ops (intent_job_id i) (intent_scope i) (intent_window_start i) (intent_window_end i) s"
  | (duplicate) "ans = Inr SUBMIT_DUPLICATE" "s' = s"
  | (created) key where "ans = Inr SUBMIT_CREATED" "op_count_queued ops s < max_queued" "inv s'"
      "op_parents_ready ops (intent_job_id i) (intent_scope i) (intent_window_start i) (intent_window_end i) s"
      "runs s' = runs s @ [new_run i key (next_id s) None now]" "next_id s' = next_id s + 1"
      "\<forall>q \<in> set (runs s). run_job_key q = key \<longrightarrow> run_status q \<notin> ACTIVE_STATUSES"
proof (cases "op_count_queued ops s \<ge> max_queued")
  case True
  with assms show thesis by (intro backpressure) (auto simp: submit_def)
next
  case False
  show thesis
  proof (cases "op_parents_ready ops (intent_job_id i) (intent_scope i) (intent_window_start i) (intent_window_end i) s")
    case ready: True
    show thesis
    proof (cases "op_create_run ops i None now s")
      case (Inl e)
      with False ready assms show thesis by (intro refused) (auto simp: submit_def)
    next
      case (Inr p)
      obtain s1 res where p: "p = (s1, res)" by (cases p)
      show thesis
      proof (cases res)
        case None
        with False ready assms Inr p create_none [of i None now s s1] show thesis
          by (intro duplicate) (auto simp: submit_def Let_def)
      next
        case (Some r)
        have c: "op_create_run ops i None now s = Inr (s1, Some r)" by (simp add: Inr p Some)
        from create_some [OF this assms(2)] obtain key where k: "inv s1" "runs s1 = runs s @ [r]"
          "next_id s1 = next_id s + 1" "r = new_run i key (next_id s) None now"
          "\<forall>q \<in> set (runs s). run_job_key q = key \<longrightarrow> run_status q \<notin> ACTIVE_STATUSES" by blast
        have "s' = s1" "ans = Inr SUBMIT_CREATED" using assms(1) False ready c by (auto simp: submit_def Let_def)
        with False ready k show thesis by (intro created [of key]) auto
      qed
    qed
  next
    case blocked: False
    with False assms show thesis by (intro dependency) (auto simp: submit_def)
  qed
qed

lemma submit_inv:
  assumes "submit ops max_queued i now (s, h) = ((s', h'), ans)" and "inv s"
  shows "inv s'" and "table_step\<^sup>*\<^sup>* (table s) (table s')"
  using assms by (cases rule: submit_cases; auto simp: table_def table_step.create)+

lemma submit_queue:
  assumes "submit ops max_queued i now (s, h) = ((s', h'), ans)" and "inv s"
  shows "op_count_queued ops s' = op_count_queued ops s + (if ans = Inr SUBMIT_CREATED then 1 else 0)"
    and "ans = Inr SUBMIT_CREATED \<Longrightarrow> op_count_queued ops s' \<le> max_queued"
  using assms by (cases rule: submit_cases;
    auto simp: submit_answers count_queued new_run_def status_sets)+

lemma submit_all_queue:
  assumes "submit_all ops max_queued is (s, h) = ((s', h'), ans)" and "inv s"
  shows "inv s' \<and> table_step\<^sup>*\<^sup>* (table s) (table s')
    \<and> op_count_queued ops s' \<le> max max_queued (op_count_queued ops s)"
  using assms
proof (induction "is" arbitrary: s h s' h' ans)
  case Nil
  then show ?case by auto
next
  case (Cons p "is")
  obtain i now where p: "p = (i, now)" by (cases p)
  obtain s1 h1 a where one: "submit ops max_queued i now (s, h) = ((s1, h1), a)" by (metis prod.exhaust)
  note s1 = submit_inv [OF one Cons.prems(2)] submit_queue [OF one Cons.prems(2)]
  then have q: "op_count_queued ops s1 \<le> max max_queued (op_count_queued ops s)" by (auto split: if_splits)
  show ?case
  proof (cases a)
    case (Inl e)
    with Cons.prems(1) p one have "s' = s1" by simp
    with s1 q show ?thesis by blast
  next
    case (Inr x)
    obtain s2 h2 b where rest: "submit_all ops max_queued is (s1, h1) = ((s2, h2), b)" by (metis prod.exhaust)
    with Cons.prems(1) p one Inr have "s' = s2" by (auto split: sum.splits)
    with Cons.IH [OF rest s1(1)] s1(2) q show ?thesis by (auto intro: rtranclp_trans)
  qed
qed

end

text \<open>Each answered call of \<open>submit\<close> is counted once, under its answer.\<close>

definition dispatched :: "dispatcher_health \<Rightarrow> int" where
  "dispatched h = dh_created h + dh_duplicate h + dh_dependency_blocked h + dh_backpressure_blocked h"

lemma submit_counts:
  "submit ops max_queued i now (s, h) = ((s', h'), ans) \<Longrightarrow>
    dispatched h' = dispatched h + (case ans of Inl _ \<Rightarrow> 0 | Inr _ \<Rightarrow> 1)"
  by (auto simp: submit_def dispatched_def Let_def split: if_splits sum.splits prod.splits option.splits)

subsection \<open>Worker pool: a claimed run always ends\<close>

text \<open>The state a run is left in by \<open>execute_once\<close> when nobody else touches it.\<close>

definition outcome :: "'s task_registry \<Rightarrow> time \<Rightarrow> job_run \<Rightarrow> job_run" where
  "outcome tasks now run =
     (case get_task tasks (run_job_id run) of
        Inl _ \<Rightarrow> failed_run (unregistered_text @ run_job_id run) now run
      | Inr spec \<Rightarrow>
          (case spec_executor spec (run_context run) of
             Inl e \<Rightarrow> failed_run (exn_text e) now run
           | Inr res \<Rightarrow> finished_run SUCCEEDED (Some (rows_of res)) None None None now run))"

context meta_repository
begin

text \<open>What other threads and callbacks may do: any sequence of the repository's own steps.\<close>

definition env_ok :: "('s \<Rightarrow> 's) \<Rightarrow> bool" where
  "env_ok f \<longleftrightarrow> (\<forall>s. inv s \<longrightarrow> inv (f s) \<and> table_step\<^sup>*\<^sup>* (table s) (table (f s)))"

definition callbacks_ok :: "'s task_registry \<Rightarrow> bool" where
  "callbacks_ok tasks \<longleftrightarrow> (\<forall>k spec callback c r. map_of tasks k = Some spec \<longrightarrow>
     spec_on_success spec = Some callback \<longrightarrow> env_ok (\<lambda>s. fst (callback c r s)))"

lemma still_there:
  assumes "inv s" and "table_step\<^sup>*\<^sup>* (table s) (table s')" and "inv s'" and "find_run rid (runs s) = Some r"
  obtains r' where "find_run rid (runs s') = Some r'"
proof -
  have "runs_inv (fst (table s)) (snd (table s))" using inv_runs [OF assms(1)] by (simp add: table_def)
  from table_steps_run [OF assms(2) this, of r] find_run_Some [OF assms(4)] obtain r' where
    "r' \<in> set (runs s')" "run_id r' = rid" by (auto simp: table_def same_job_def)
  then show thesis using find_distinct [OF assms(3)] that by blast
qed

lemma call_on_success_ok:
  assumes "callbacks_ok tasks" and "map_of tasks k = Some spec" and "inv s"
    and "call_on_success spec ctx res (s, h) = (s', h')"
  shows "inv s' \<and> table_step\<^sup>*\<^sup>* (table s) (table s') \<and> wh_busy h' = wh_busy h"
proof (cases "spec_on_success spec")
  case None
  with assms show ?thesis by (simp add: call_on_success_def)
next
  case (Some callback)
  with assms(1,2) have "env_ok (\<lambda>s. fst (callback ctx (or_default res) s))" by (auto simp: callbacks_ok_def)
  with assms(3,4) Some show ?thesis
    by (auto simp: call_on_success_def env_ok_def split: prod.splits option.splits)
qed

lemma record_failure_ends:
  assumes "inv s" and "find_run rid (runs s) = Some r" and "record_failure ops rid text now (s, h) = ((s', h'), res)"
  shows "\<exists>fin. res = Inr fin \<and> run_status fin \<noteq> RUNNING \<and> run_id fin = rid
    \<and> inv s' \<and> table_step\<^sup>*\<^sup>* (table s) (table s') \<and> wh_busy h' = wh_busy h"
proof -
  obtain s1 fin where f: "op_fail ops rid text now s = Inr (s1, fin)" "inv s1" "table_step\<^sup>*\<^sup>* (table s) (table s1)"
    "find_run rid (runs s1) = Some fin" "run_status fin \<noteq> RUNNING"
    using fail_ends [OF assms(1,2), where err = "text" and now = now] by blast
  with find_run_Some [OF f(4)] assms(3) show ?thesis by (auto simp: record_failure_def)
qed

lemma execute_spec_ends:
  assumes "inv s" and "find_run (run_id run) (runs s) = Some r" and "env_ok during" and "callbacks_ok tasks"
    and "map_of tasks k = Some spec"
    and "execute_spec ops describe spec run during now (s, h) = ((s', h'), res)"
  shows "\<exists>fin. res = Inr fin \<and> run_status fin \<noteq> RUNNING \<and> run_id fin = run_id run
    \<and> inv s' \<and> table_step\<^sup>*\<^sup>* (table s) (table s') \<and> wh_busy h' = wh_busy h"
proof -
  have d: "inv (during s)" "table_step\<^sup>*\<^sup>* (table s) (table (during s))"
    using assms(1,3) by (auto simp: env_ok_def)
  obtain r1 where r1: "find_run (run_id run) (runs (during s)) = Some r1"
    using still_there [OF assms(1) d(2,1) assms(2)] .
  show ?thesis
  proof (cases "spec_executor spec (run_context run)")
    case (Inl e)
    obtain s1 h1 x where f: "record_failure ops (run_id run) (exn_text e) now (during s, h) = ((s1, h1), x)"
      by (metis prod.exhaust)
    with record_failure_ends [OF d(1) r1 f] assms(6) Inl d(2) show ?thesis
      by (auto simp: execute_spec_def Let_def split: sum.splits prod.splits)
  next
    case (Inr x)
    obtain s1 fin where u: "op_succeed ops (run_id run) (rows_of x) now (during s) = Inr (s1, fin)" "inv s1"
      "table_step\<^sup>*\<^sup>* (table (during s)) (table s1)" "find_run (run_id run) (runs s1) = Some fin" "run_status fin \<noteq> RUNNING"
      using succeed_ends [OF d(1) r1, of UNIV "rows_of x" now] by auto
    obtain s2 h2 where c: "call_on_success spec (run_context run) x (s1, h) = (s2, h2)" by fastforce
    from call_on_success_ok [OF assms(4,5) u(2) c] u d(2) assms(6) Inr c find_run_Some [OF u(4)] show ?thesis
      by (auto simp: execute_spec_def Let_def)
  qed
qed

lemma execute_once_ends:
  assumes "inv s" and "env_ok during" and "callbacks_ok tasks"
    and "execute_once ops describe tasks name wid now during clock (s, h) = ((s', h'), res)"
  shows "inv s' \<and> table_step\<^sup>*\<^sup>* (table s) (table s') \<and> (\<exists>r. res = Inr r \<and>
    (case r of None \<Rightarrow> s' = s \<and> h' = h
     | Some fin \<Rightarrow> run_status fin \<noteq> RUNNING \<and> wh_busy h' = max 0 (wh_busy h)))"
proof -
  let ?label = "case wid of Some w \<Rightarrow> if w = [] then name else w | None \<Rightarrow> name"
  let ?t = "case now of Some t \<Rightarrow> t | None \<Rightarrow> clock"
  obtain s1 c where c: "op_claim_next ops ?label (Some ?t) clock s = Inr (s1, c)"
    using claim_total [OF assms(1)] by blast
  note s1 = claim_step [OF c assms(1)]
  show ?thesis
  proof (cases c)
    case None
    with claim_none [OF c [unfolded None] assms(1)] c assms(1,4) show ?thesis
      by (auto simp: execute_once_def Let_def)
  next
    case (Some run)
    from claim_some [OF c [unfolded Some] assms(1)] obtain q where
      "run = claimed_run ?label ?t q" "q \<in> set (runs s)" "runs s1 = put_run run (runs s)" by auto
    then have f: "find_run (run_id run) (runs s1) = Some run"
      using find_distinct [OF assms(1)] by (simp add: find_run_put)
    let ?h1 = "h\<lparr>wh_busy := wh_busy h + 1\<rparr>"
    show ?thesis
    proof (cases "map_of tasks (run_job_id run)")
      case None
      obtain s2 h2 x where r: "record_failure ops (run_id run) (unregistered_text @ run_job_id run) clock (s1, ?h1) = ((s2, h2), x)"
        by (metis prod.exhaust)
      from record_failure_ends [OF conjunct1 [OF s1] f r] s1 None Some c r assms(4) show ?thesis
        by (auto simp: execute_once_def get_task_def Let_def)
    next
      case spec: (Some spec)
      obtain s2 h2 x where r: "execute_spec ops describe spec run during clock (s1, ?h1) = ((s2, h2), x)"
        by (metis prod.exhaust)
      from execute_spec_ends [OF conjunct1 [OF s1] f assms(2,3) spec r] s1 spec Some c r assms(4) show ?thesis
        by (auto simp: execute_once_def get_task_def Let_def)
    qed
  qed
qed

end

end
