(* ===== verification/Runtime_App.thy ===== *)
theory Runtime_App
  imports Runtime_Roles
begin

text \<open>
  \<open>RuntimeApp\<close> (\<open>runtime/app.py\<close>) and what it is composed of: the registry mirrored to the
  metadata tables, the trigger handlers (\<open>runtime/triggers.py\<close>), the window provider
  (\<open>runtime/windows.py\<close>), the trade calendar (\<open>runtime/calendar.py\<close>), the readiness report
  (\<open>runtime/health.py\<close>) and the synchronous drain \<open>run_pending\<close>.  APScheduler itself is a library:
  of it, the code relies on \<open>fire(job_id)\<close> being called, which is modelled.
\<close>

subsection \<open>Outcome of an undisturbed execution\<close>

definition run_label :: "string \<Rightarrow> string option \<Rightarrow> string" where
  "run_label name wid = (case wid of Some w \<Rightarrow> if w = [] then name else w | None \<Rightarrow> name)"

context meta_repository
begin

lemma record_failure_running:
  assumes "find_run rid (runs s) = Some r" and "inv s" and "run_status r = RUNNING"
  obtains s' where "record_failure ops rid err now (s, h) = ((s', h\<lparr>wh_last_error := Some err\<rparr>), Inr (failed_run err now r))"
    "inv s'" "runs s' = put_run (failed_run err now r) (runs s)" "next_id s' = next_id s"
  using fail [OF assms(1,2), of err now] assms(3) that by (auto simp: record_failure_def)

lemma execute_once_step:
  assumes "inv s"
    and "execute_once ops describe tasks name wid now (\<lambda>s. s) clock (s, h) = ((s', h'), res)"
  obtains (idle) "res = Inr None" "s' = s" "h' = h"
  | (ran) q r s1 where "q \<in> set (runs s)" "run_status q \<in> CLAIMABLE_STATUSES"
      "r = claimed_run (run_label name wid) (case now of Some t \<Rightarrow> t | None \<Rightarrow> clock) q"
      "res = Inr (Some (outcome tasks clock r))" "inv s1"
      "runs s1 = put_run (outcome tasks clock r) (put_run r (runs s))"
      "s' = s1 \<or> (\<exists>k spec cb c x. map_of tasks k = Some spec \<and> spec_on_success spec = Some cb \<and> s' = fst (cb c x s1))"
proof -
  let ?t = "case now of Some t \<Rightarrow> t | None \<Rightarrow> clock"
  obtain s1 c where c: "op_claim_next ops (run_label name wid) (Some ?t) clock s = Inr (s1, c)"
    using claim_total [OF assms(1)] by blast
  note c' = c [unfolded run_label_def]
  show thesis
  proof (cases c)
    case None
    with claim_none [OF c [unfolded None] assms(1)] c' assms(1,2) show thesis
      by (intro idle) (auto simp: execute_once_def Let_def)
  next
    case (Some r)
    from claim_some [OF c [unfolded Some] assms(1)] obtain q where
      q: "r = claimed_run (run_label name wid) ?t q" "q \<in> set (runs s)" "run_status q \<in> CLAIMABLE_STATUSES"
      "runs s1 = put_run r (runs s)" "inv s1" by auto
    then have f: "find_run (run_id r) (runs s1) = Some r"
      using find_distinct [OF assms(1)] by (simp add: find_run_put)
    have running: "run_status r = RUNNING" using q(1) by simp
    let ?h1 = "h\<lparr>wh_busy := wh_busy h + 1\<rparr>"
    show thesis
    proof (cases "map_of tasks (run_job_id r)")
      case None
      then have o: "outcome tasks clock r = failed_run (unregistered_text @ run_job_id r) clock r"
        by (simp add: outcome_def get_task_def)
      from f q(5) running obtain s2 where r2: "record_failure ops (run_id r) (unregistered_text @ run_job_id r) clock (s1, ?h1)
          = ((s2, ?h1\<lparr>wh_last_error := Some (unregistered_text @ run_job_id r)\<rparr>), Inr (outcome tasks clock r))" "inv s2"
        "runs s2 = put_run (outcome tasks clock r) (runs s1)"
        unfolding o by (rule record_failure_running)
      with c' Some None assms(2) q show thesis
        by (intro ran [of q r s2]) (auto simp: execute_once_def get_task_def Let_def)
    next
      case spec: (Some spec)
      show thesis
      proof (cases "spec_executor spec (run_context r)")
        case (Inl e)
        with spec have o: "outcome tasks clock r = failed_run (exn_text e) clock r"
          by (simp add: outcome_def get_task_def)
        from f q(5) running obtain s2 where r2: "record_failure ops (run_id r) (exn_text e) clock (s1, ?h1)
            = ((s2, ?h1\<lparr>wh_last_error := Some (exn_text e)\<rparr>), Inr (outcome tasks clock r))" "inv s2"
          "runs s2 = put_run (outcome tasks clock r) (runs s1)"
          unfolding o by (rule record_failure_running)
        with c' Some spec Inl assms(2) q show thesis
          by (intro ran [of q r s2]) (auto simp: execute_once_def execute_spec_def get_task_def Let_def)
      next
        case (Inr x)
        with spec have o: "outcome tasks clock r = finished_run SUCCEEDED (Some (rows_of x)) None None None clock r"
          by (simp add: outcome_def get_task_def)
        from succeed [OF f q(5), of "rows_of x" clock] running obtain s2 where
          s2: "op_succeed ops (run_id r) (rows_of x) clock s1 = Inr (s2, outcome tasks clock r)" "inv s2"
          "runs s2 = put_run (outcome tasks clock r) (runs s1)" by (auto simp: o)
        obtain s3 h3 where cb: "call_on_success spec (run_context r) x (s2, ?h1) = (s3, h3)" by fastforce
        have "s' = s3" "res = Inr (Some (outcome tasks clock r))"
          using c' Some spec Inr assms(2) q s2 cb
          by (auto simp: execute_once_def execute_spec_def get_task_def Let_def)
        moreover have "s3 = s2 \<or> (\<exists>cb c x. spec_on_success spec = Some cb \<and> s3 = fst (cb c x s2))"
        proof (cases "spec_on_success spec")
          case None
          with cb show ?thesis by (simp add: call_on_success_def)
        next
          case (Some f)
          with cb have "s3 = fst (f (run_context r) (or_default x) s2)"
            by (auto simp: call_on_success_def split: option.splits prod.splits)
          with Some show ?thesis by blast
        qed
        ultimately show thesis using q s2 spec by (intro ran [of q r s2]) (simp_all, blast?)
      qed
    qed
  qed
qed

end

subsection \<open>Draining the queue\<close>

text \<open>
  \<open>run_pending\<close>: the number of executed runs.  \<open>clock n\<close> is the reading of the clock in the
  \<open>n\<close>-th round; the fuel bounds the rounds of the loop.
\<close>

fun run_pending ::
  "nat \<Rightarrow> 's repo_ops \<Rightarrow> (py_error \<Rightarrow> exn) \<Rightarrow> 's task_registry \<Rightarrow> string \<Rightarrow> (nat \<Rightarrow> time) \<Rightarrow> int
    \<Rightarrow> 's \<times> worker_health \<Rightarrow> (('s \<times> worker_health) \<times> int result) option" where
  "run_pending 0 ops describe tasks name clock executed st = None"
| "run_pending (Suc k) ops describe tasks name clock executed st =
     (case execute_once ops describe tasks name None None (\<lambda>s. s) (clock 0) st of
        (st', Inl e) \<Rightarrow> Some (st', Inl e)
      | (st', Inr None) \<Rightarrow> Some (st', Inr executed)
      | (st', Inr (Some _)) \<Rightarrow> run_pending k ops describe tasks name (\<lambda>n. clock (Suc n)) (executed + 1) st')"

text \<open>
  How often a run can still be claimed: once per attempt it has left.  The sum over the table
  bounds the rounds of \<open>run_pending\<close>, whatever the clock does.
\<close>

definition claims_left :: "job_run \<Rightarrow> nat" where
  "claims_left r = (if run_status r \<in> CLAIMABLE_STATUSES then 1 + nat (run_max_attempts r - run_attempt r) else 0)"

definition budget :: "job_run list \<Rightarrow> nat" where
  "budget rows = sum_list (map claims_left rows)"

lemma budget_put:
  "distinct (map run_id rows) \<Longrightarrow> r \<in> set rows \<Longrightarrow> run_id x = run_id r \<Longrightarrow>
    budget (put_run x rows) + claims_left r = budget rows + claims_left x"
proof (induction rows)
  case Nil
  then show ?case by simp
next
  case (Cons a rows)
  show ?case
  proof (cases "a = r")
    case True
    with Cons.prems have "run_id x \<notin> set (map run_id rows)" by auto
    then have "put_run x rows = rows" unfolding put_run_def by (intro map_idI) (auto simp: image_iff)
    with True Cons.prems show ?thesis by (simp add: budget_def put_run_def)
  next
    case False
    with Cons.prems have "run_id a \<noteq> run_id x" by (auto simp: image_iff)
    with False Cons show ?thesis by (simp add: budget_def put_run_def)
  qed
qed

lemma outcome_same: "same_job r (outcome tasks now r)"
  by (auto simp: outcome_def split: sum.splits)

lemma outcome_claims: "run_status r = RUNNING \<Longrightarrow> claims_left (outcome tasks now r) \<le> nat (run_max_attempts r - run_attempt r)"
  by (auto simp: outcome_def failed_run_def claims_left_def status_sets split: sum.splits)

definition quiet_callbacks :: "('s \<Rightarrow> job_run list) \<Rightarrow> ('s \<Rightarrow> bool) \<Rightarrow> 's task_registry \<Rightarrow> bool" where
  "quiet_callbacks runs ok tasks \<longleftrightarrow> (\<forall>k spec callback c r s. map_of tasks k = Some spec \<longrightarrow>
     spec_on_success spec = Some callback \<longrightarrow> ok s \<longrightarrow>
     ok (fst (callback c r s)) \<and> runs (fst (callback c r s)) = runs s)"

context meta_repository
begin

lemma execute_once_budget:
  assumes "inv s" and "quiet_callbacks runs inv tasks"
    and "execute_once ops describe tasks name wid now (\<lambda>s. s) clock (s, h) = ((s', h'), Inr (Some fin))"
  shows "inv s' \<and> budget (runs s') < budget (runs s)"
  using assms(1,3)
proof (cases rule: execute_once_step)
  case (ran q r s1)
  have d: "distinct (map run_id (runs s))" using inv_runs [OF assms(1)] by (simp add: runs_inv_def ids_ok_def)
  have "map run_id (put_run r (runs s)) = map run_id (runs s)" by (auto simp: put_run_def)
  with d have d': "distinct (map run_id (put_run r (runs s)))" by simp
  have r: "r \<in> set (put_run r (runs s))" using ran(1,3) by (auto simp: put_run_def image_iff)
  have "run_id (outcome tasks clock r) = run_id r" using outcome_same [of r tasks clock] by (simp add: same_job_def)
  from budget_put [OF d' r this] budget_put [OF d ran(1), of r] ran(2,3)
  have "budget (runs s1) + claims_left q = budget (runs s) + claims_left (outcome tasks clock r)"
    by (simp add: ran(6) claims_left_def status_sets)
  moreover have "claims_left (outcome tasks clock r) < claims_left q"
    using outcome_claims [of r tasks clock] ran(2,3) by (simp add: claims_left_def)
  ultimately have "budget (runs s1) < budget (runs s)" by linarith
  moreover have "inv s' \<and> runs s' = runs s1"
    using ran(5,7) assms(2) unfolding quiet_callbacks_def by blast
  ultimately show ?thesis by simp
qed simp

lemma run_pending_ends:
  assumes "inv s" and "quiet_callbacks runs inv tasks" and "budget (runs s) < k"
  shows "\<exists>s' h' n. run_pending k ops describe tasks name clock e (s, h) = Some ((s', h'), Inr (e + int n)) \<and> inv s'
    \<and> n \<le> budget (runs s) \<and> op_claim_next ops name (Some (clock n)) (clock n) s' = Inr (s', None)"
  using assms(1,3)
proof (induction k arbitrary: s h clock e)
  case 0
  then show ?case by simp
next
  case (Suc k)
  obtain s1 h1 res where x: "execute_once ops describe tasks name None None (\<lambda>s. s) (clock 0) (s, h) = ((s1, h1), res)"
    by (metis prod.exhaust)
  from Suc.prems(1) x show ?case
  proof (cases rule: execute_once_step)
    case idle
    obtain s2 c where c: "op_claim_next ops name (Some (clock 0)) (clock 0) s = Inr (s2, c)"
      using claim_total [OF Suc.prems(1)] by blast
    have "c = None"
      using c x idle by (cases c) (auto simp: execute_once_def Let_def split: sum.splits prod.splits)
    with c claim_none [of name "Some (clock 0)" "clock 0" s s2] Suc.prems(1) have "op_claim_next ops name (Some (clock 0)) (clock 0) s = Inr (s, None)"
      by simp
    with x idle Suc.prems(1) show ?thesis by (intro exI [of _ s] exI [of _ h] exI [of _ 0]) auto
  next
    case (ran q r s2)
    let ?fin = "outcome tasks (clock 0) r"
    have b: "inv s1 \<and> budget (runs s1) < budget (runs s)"
      using execute_once_budget [OF Suc.prems(1) assms(2)] x ran(4) by blast
    with Suc.prems(2) have "budget (runs s1) < k" by linarith
    with Suc.IH [of s1 "\<lambda>n. clock (Suc n)" "e + 1" h1] b obtain s' h' n where
      i: "run_pending k ops describe tasks name (\<lambda>n. clock (Suc n)) (e + 1) (s1, h1) = Some ((s', h'), Inr (e + 1 + int n))" "inv s'"
        "n \<le> budget (runs s1)" "op_claim_next ops name (Some (clock (Suc n))) (clock (Suc n)) s' = Inr (s', None)" by blast
    have "run_pending (Suc k) ops describe tasks name clock e (s, h) = Some ((s', h'), Inr (e + int (Suc n)))"
      using x ran(4) i(1) by (simp add: add.assoc)
    moreover have "Suc n \<le> budget (runs s)" using b i(3) by linarith
    ultimately show ?thesis using i(2,4) by blast
  qed
qed

end

subsection \<open>Start-up: the registry mirrored to the metadata tables\<close>

text \<open>
  A failed validation refuses the start; \<open>None\<close> is a cycle search that ran out of fuel, which
  \<open>validate_acyclic_total\<close> excludes.
\<close>

definition sync_metadata :: "'s repo_ops \<Rightarrow> 's task_registry \<Rightarrow> 's \<Rightarrow> ('s \<times> unit result) option" where
  "sync_metadata ops tasks s =
     (case validate tasks of
        None \<Rightarrow> None
      | Some (e # es) \<Rightarrow> Some (s, Inl ValueError)
      | Some [] \<Rightarrow>
          Some (case op_sync_defs ops (registry_defs tasks) s of
            Inl e \<Rightarrow> (s, Inl e)
          | Inr s1 \<Rightarrow>
              (case op_sync_dependencies ops (registry_dependencies tasks) s1 of
                 Inl e \<Rightarrow> (s1, Inl e)
               | Inr s2 \<Rightarrow> (s2, Inr ()))))"

subsection \<open>Triggers\<close>

text \<open>The handler table; a handler is what \<open>fire\<close> does to the program's state.\<close>

type_synonym 'a handlers = "(string, string \<Rightarrow> 'a \<Rightarrow> 'a) dict"

definition register_handler :: "string \<Rightarrow> (string \<Rightarrow> 'a \<Rightarrow> 'a) \<Rightarrow> 'a handlers \<Rightarrow> 'a handlers" where
  "register_handler job_id handler hs = AList.update job_id handler hs"

definition unregister_handler :: "string \<Rightarrow> 'a handlers \<Rightarrow> 'a handlers" where
  "unregister_handler job_id hs = AList.delete job_id hs"

definition fire :: "'a handlers \<Rightarrow> string \<Rightarrow> 'a \<Rightarrow> 'a" where
  "fire hs job_id s = (case map_of hs job_id of None \<Rightarrow> s | Some handler \<Rightarrow> handler job_id s)"

text \<open>
  \<open>_run_spec\<close>: the due windows of one task are submitted; any exception is recorded and the
  answers are dropped.
\<close>

definition run_spec ::
  "'s repo_ops \<Rightarrow> (py_error \<Rightarrow> exn) \<Rightarrow> 's due_provider option \<Rightarrow> int \<Rightarrow> time \<Rightarrow> 's task_spec
    \<Rightarrow> ('s \<times> dispatcher_health) \<times> scheduler_health
    \<Rightarrow> (('s \<times> dispatcher_health) \<times> scheduler_health) \<times> string list" where
  "run_spec ops describe due max_queued now spec st =
     (let (d, sh) = st; sh1 = sh\<lparr>sh_alive := True, sh_last_tick_at := Some now\<rparr>
      in case due of
           None \<Rightarrow> ((d, sh1), [])
         | Some provider \<Rightarrow>
             (case provider spec now of
                Inl e \<Rightarrow> ((d, sh1\<lparr>sh_last_error := Some (exn_text e)\<rparr>), [])
              | Inr windows \<Rightarrow>
                  (case submit_all ops max_queued
                      (map (\<lambda>(ws, we). (make_intent spec (Some ws) (Some we), now)) windows) d of
                     (d', Inl e) \<Rightarrow> ((d', sh1\<lparr>sh_last_error := Some (exn_text (describe e))\<rparr>), [])
                   | (d', Inr results) \<Rightarrow>
                       ((d', sh1\<lparr>sh_intents_emitted := sh_intents_emitted sh1 + int (length results)\<rparr>), results))))"

definition on_trigger ::
  "'s repo_ops \<Rightarrow> (py_error \<Rightarrow> exn) \<Rightarrow> 's task_registry \<Rightarrow> 's due_provider option \<Rightarrow> int \<Rightarrow> time \<Rightarrow> string
    \<Rightarrow> ('s \<times> dispatcher_health) \<times> scheduler_health \<Rightarrow> ('s \<times> dispatcher_health) \<times> scheduler_health" where
  "on_trigger ops describe tasks due max_queued now job_id st =
     (case get_task tasks job_id of
        Inl _ \<Rightarrow> st
      | Inr spec \<Rightarrow> fst (run_spec ops describe due max_queued now spec st))"

lemma fire_register: "fire (register_handler j f hs) i s = (if i = j then f i s else fire hs i s)"
  by (simp add: fire_def register_handler_def)

lemma fire_unregister: "fire (unregister_handler j hs) i s = (if i = j then s else fire hs i s)"
  by (simp add: fire_def unregister_handler_def map_of_delete)

subsection \<open>Trade calendar\<close>

text \<open>
  The hub answers a date range with rows (date, is\_open); a row whose date does not parse has
  \<open>None\<close>.  The cache maps an end date to its set of trading days.
\<close>

type_synonym calendar_hub = "date \<Rightarrow> date \<Rightarrow> (date option \<times> bool) list option"

definition PUBLISH_CUTOFF_UTC :: int where
  "PUBLISH_CUTOFF_UTC = seconds (8 * 3600 + 30 * 60)"

definition cal_load :: "calendar_hub \<Rightarrow> int \<Rightarrow> (date, date set) dict \<Rightarrow> date \<Rightarrow> (date, date set) dict \<times> date set" where
  "cal_load hub lookback cache end_day =
     (case map_of cache end_day of
        Some days \<Rightarrow> (cache, days)
      | None \<Rightarrow>
          let days = (case hub (end_day - lookback) end_day of
                        None \<Rightarrow> {}
                      | Some rows \<Rightarrow> set (concat (map (\<lambda>(d, is_open).
                          case d of Some day \<Rightarrow> if is_open then [day] else [] | None \<Rightarrow> []) rows)))
          in (AList.update end_day days cache, days))"

definition is_trading_day :: "calendar_hub \<Rightarrow> int \<Rightarrow> (date, date set) dict \<Rightarrow> date \<Rightarrow> bool" where
  "is_trading_day hub lookback cache day \<longleftrightarrow> day \<in> snd (cal_load hub lookback cache day)"

definition closed_end :: "int \<Rightarrow> time \<Rightarrow> date" where
  "closed_end cutoff moment = (if cutoff \<le> dt_time moment then dt_date moment else dt_date moment - 1)"

definition last_closed :: "calendar_hub \<Rightarrow> int \<Rightarrow> int \<Rightarrow> (date, date set) dict \<Rightarrow> time \<Rightarrow> date option" where
  "last_closed hub lookback cutoff cache moment =
     (let days = {day \<in> snd (cal_load hub lookback cache (closed_end cutoff moment)). day \<le> closed_end cutoff moment}
      in if days = {} then None else Some (Max days))"

lemma last_closed_le:
  assumes "finite (snd (cal_load hub lookback cache (closed_end cutoff t)))"
    and "last_closed hub lookback cutoff cache t = Some d"
  shows "d \<le> closed_end cutoff t" and "d \<in> snd (cal_load hub lookback cache (closed_end cutoff t))"
    and "\<And>d'. d' \<in> snd (cal_load hub lookback cache (closed_end cutoff t)) \<Longrightarrow> d' \<le> closed_end cutoff t \<Longrightarrow> d' \<le> d"
proof -
  let ?days = "{day \<in> snd (cal_load hub lookback cache (closed_end cutoff t)). day \<le> closed_end cutoff t}"
  have f: "finite ?days" using assms(1) by simp
  have d: "?days \<noteq> {}" "d = Max ?days" using assms(2) by (auto simp: last_closed_def Let_def split: if_splits)
  have "d \<in> ?days" using Max_in [OF f d(1)] d(2) by simp
  then show "d \<le> closed_end cutoff t" "d \<in> snd (cal_load hub lookback cache (closed_end cutoff t))" by auto
  fix d' assume "d' \<in> snd (cal_load hub lookback cache (closed_end cutoff t))" "d' \<le> closed_end cutoff t"
  then show "d' \<le> d" using Max_ge [OF f, of d'] d(2) by simp
qed

lemma cal_load_cached: "snd (cal_load hub lookback (fst (cal_load hub lookback cache d)) d) = snd (cal_load hub lookback cache d)"
  by (auto simp: cal_load_def Let_def split: option.splits)

subsection \<open>Windows from watermarks\<close>

definition watermark_windows ::
  "'s repo_ops \<Rightarrow> (time \<Rightarrow> date option) \<Rightarrow> (string \<rightharpoonup> date) \<Rightarrow> 's task_spec \<Rightarrow> time \<Rightarrow> 's \<Rightarrow> (date \<times> date) list" where
  "watermark_windows ops calendar start_dates spec moment s =
     (case calendar moment of
        None \<Rightarrow> []
      | Some closed \<Rightarrow>
          (let start = (case op_get_watermark ops (spec_dataset spec) (spec_scope spec) s of
                 None \<Rightarrow> start_dates (spec_job_id spec)
               | Some mark \<Rightarrow> (case wm_watermark_time mark of
                     None \<Rightarrow> start_dates (spec_job_id spec)
                   | Some t \<Rightarrow> Some (dt_date t + 1)))
           in case start of None \<Rightarrow> [] | Some d \<Rightarrow> if closed < d then [] else [(d, closed)]))"

lemma watermark_windows_cases:
  assumes "(a, b) \<in> set (watermark_windows ops calendar start_dates spec moment s)"
  shows "watermark_windows ops calendar start_dates spec moment s = [(a, b)]" and "a \<le> b" and "calendar moment = Some b"
proof -
  from assms obtain closed where c: "calendar moment = Some closed"
    by (cases "calendar moment") (auto simp: watermark_windows_def)
  show "watermark_windows ops calendar start_dates spec moment s = [(a, b)]" and "a \<le> b" and "calendar moment = Some b"
    using assms by (auto simp: watermark_windows_def c Let_def split: option.splits if_splits dest: sym)
qed

subsection \<open>Readiness\<close>

record readiness_report =
  rep_ok :: bool
  rep_checks :: "(string, bool) dict"
  rep_errors :: "string list"

text \<open>The three checks are answers of the database, the dictionary and the migration scripts.\<close>

definition readiness ::
  "bool \<times> string option \<Rightarrow> bool \<times> string list \<Rightarrow> bool \<times> string option \<Rightarrow> bool \<Rightarrow> bool \<Rightarrow> readiness_report" where
  "readiness db dict_check schema check_directory check_schema =
     (let checks = [(''database'', fst db)];
          errors = (case snd db of Some e \<Rightarrow> if e = [] then [] else [e] | None \<Rightarrow> []);
          (checks, errors) = (if check_directory
             then (AList.update ''dictionary'' (fst dict_check) checks, errors @ snd dict_check) else (checks, errors));
          (checks, errors) = (if check_schema
             then (AList.update ''schema_revision'' (fst schema) checks,
                   errors @ (case snd schema of Some e \<Rightarrow> if e = [] then [] else [e] | None \<Rightarrow> []))
             else (checks, errors))
      in \<lparr>rep_ok = list_all (\<lambda>b. b) (dict_values checks), rep_checks = checks, rep_errors = errors\<rparr>)"

lemma readiness_ok:
  "rep_ok (readiness db dict_check schema cd cs) \<longleftrightarrow> fst db \<and> (cd \<longrightarrow> fst dict_check) \<and> (cs \<longrightarrow> fst schema)"
  by (auto simp: readiness_def Let_def)

end
