(* ===== verification/Job_Triggers.thy ===== *)
theory Job_Triggers
  imports Runtime_App
begin

text \<open>
  Two places that create runs from outside the scheduler's loop: the registered daily-bar task
  (\<open>ingestion/tasks.py\<close>) with its watermark callback, and the endpoint \<open>POST /jobs/sync\<close>
  (\<open>api/routers/jobs.py\<close>).  The download itself is the argument \<open>sync\<close>: what \<open>sync_daily_bar\<close>
  returns or raises for a window.
\<close>

subsection \<open>The daily-bar task\<close>

definition DATASET :: string where "DATASET = ''cn_equity.daily_bar''"

definition value_error :: "string \<Rightarrow> exn" where
  "value_error text = (''ValueError'', text)"

definition daily_bar_executor :: "string \<Rightarrow> (date \<Rightarrow> date \<Rightarrow> exn + int) \<Rightarrow> job_context \<Rightarrow> exn + job_result option" where
  "daily_bar_executor code sync ctx =
     (case (ctx_window_start ctx, ctx_window_end ctx) of
        (Some ws, Some we) \<Rightarrow>
          if ctx_scope ctx \<noteq> [] \<and> ctx_scope ctx \<noteq> code
          then Inl (value_error (ctx_scope ctx @ '' != '' @ code))
          else (case sync ws we of Inl e \<Rightarrow> Inl e | Inr rows \<Rightarrow> Inr (Some \<lparr>res_rows_written = rows\<rparr>))
      | _ \<Rightarrow> Inl (value_error ''window''))"

text \<open>
  The callback: the watermark moves to the end of the window, or to the day before when the
  window ends today and nothing was written.  The cache's invalidation, when there is a cache,
  is the argument \<open>invalidate\<close>.
\<close>

definition watermark_target :: "date \<Rightarrow> date \<Rightarrow> int \<Rightarrow> date" where
  "watermark_target today window_end rows = (if today \<le> window_end \<and> rows = 0 then window_end - 1 else window_end)"

definition mark_watermark ::
  "'s repo_ops \<Rightarrow> (py_error \<Rightarrow> exn) \<Rightarrow> (string \<Rightarrow> 's \<Rightarrow> 's) option \<Rightarrow> string \<Rightarrow> date
    \<Rightarrow> job_context \<Rightarrow> job_result \<Rightarrow> 's \<Rightarrow> 's \<times> exn option" where
  "mark_watermark ops describe invalidate code today ctx res s =
     (case ctx_window_end ctx of
        None \<Rightarrow> (s, None)
      | Some we \<Rightarrow>
          (case op_advance_watermark ops DATASET code (dt_combine (watermark_target today we (res_rows_written res)) 0) s of
             Inl e \<Rightarrow> (s, Some (describe e))
           | Inr (s', _) \<Rightarrow>
               ((case invalidate of None \<Rightarrow> s' | Some f \<Rightarrow> f (takeWhile (\<lambda>c. c \<noteq> CHR ''.'') DATASET) s'), None)))"

definition daily_bar_spec ::
  "'s repo_ops \<Rightarrow> (py_error \<Rightarrow> exn) \<Rightarrow> (string \<Rightarrow> 's \<Rightarrow> 's) option \<Rightarrow> string \<Rightarrow> (date \<Rightarrow> date \<Rightarrow> exn + int)
    \<Rightarrow> string option \<Rightarrow> int \<Rightarrow> int \<Rightarrow> date \<Rightarrow> 's task_spec" where
  "daily_bar_spec ops describe invalidate code sync schedule priority max_attempts today =
     \<lparr>spec_job_id = ''sync.'' @ DATASET @ ''.'' @ code, spec_kind = kind_value SYNC, spec_dataset = DATASET,
      spec_executor = daily_bar_executor code sync, spec_schedule = schedule, spec_priority = priority,
      spec_max_attempts = max_attempts, spec_scope = code, spec_dependencies = [],
      spec_condition = condition_value ON_SUCCESS, spec_version_provider = None,
      spec_on_success = Some (mark_watermark ops describe invalidate code today)\<rparr>"

definition register_daily_bar_task ::
  "'s task_registry \<Rightarrow> 's repo_ops \<Rightarrow> (py_error \<Rightarrow> exn) \<Rightarrow> (string \<Rightarrow> 's \<Rightarrow> 's) option \<Rightarrow> string \<Rightarrow> (date \<Rightarrow> date \<Rightarrow> exn + int)
    \<Rightarrow> string option \<Rightarrow> int \<Rightarrow> int \<Rightarrow> date \<Rightarrow> 's task_registry result" where
  "register_daily_bar_task tasks ops describe invalidate code sync schedule priority max_attempts today =
     register tasks (daily_bar_spec ops describe invalidate code sync schedule priority max_attempts today)"

subsection \<open>The sync endpoint\<close>

record sync_request =
  req_codes :: "string list"
  req_dataset :: string
  req_start :: "date option"
  req_end :: "date option"
  req_request_id :: "string option"
  req_priority :: int

text \<open>The request model's validator, with the day of the call.\<close>

definition valid_request :: "date \<Rightarrow> sync_request \<Rightarrow> bool" where
  "valid_request today p \<longleftrightarrow> (case req_end p of None \<Rightarrow> True | Some e \<Rightarrow> e \<le> today)
     \<and> (case (req_start p, req_end p) of (Some s, Some e) \<Rightarrow> s \<le> e | _ \<Rightarrow> True)
     \<and> 1 \<le> length (req_codes p) \<and> length (req_codes p) \<le> 200 \<and> 1 \<le> req_priority p \<and> req_priority p \<le> 999"

datatype sync_note = NoNote | NotRegistered | EmptyWindow date date | IdempotencyHit | DuplicateWindow

record sync_item =
  item_code :: string
  item_job_id :: string
  item_run_id :: "int option"
  item_status :: string
  item_start :: "date option"
  item_end :: "date option"
  item_note :: sync_note

fun first_unique :: "'a list \<Rightarrow> 'a list" where
  "first_unique [] = []"
| "first_unique (x # xs) = x # filter (\<lambda>y. y \<noteq> x) (first_unique xs)"

definition job_id_of :: "sync_request \<Rightarrow> string \<Rightarrow> string" where
  "job_id_of p code = ''sync.'' @ req_dataset p @ ''.'' @ code"

definition skipped_item :: "sync_request \<Rightarrow> string \<Rightarrow> sync_note \<Rightarrow> date option \<Rightarrow> date option \<Rightarrow> sync_item" where
  "skipped_item p code note ws we = \<lparr>item_code = code, item_job_id = job_id_of p code, item_run_id = None,
     item_status = ''skipped'', item_start = ws, item_end = we, item_note = note\<rparr>"

definition start_of :: "'s repo_ops \<Rightarrow> sync_request \<Rightarrow> date \<Rightarrow> string \<Rightarrow> 's \<Rightarrow> date" where
  "start_of ops p end_day code s =
     (case req_start p of
        Some d \<Rightarrow> d
      | None \<Rightarrow>
          (case op_get_watermark ops (req_dataset p) code s of
             None \<Rightarrow> end_day
           | Some mark \<Rightarrow> (case wm_watermark_time mark of None \<Rightarrow> end_day | Some t \<Rightarrow> dt_date t + 1)))"

definition sync_intent :: "sync_request \<Rightarrow> string \<Rightarrow> date \<Rightarrow> date \<Rightarrow> job_intent" where
  "sync_intent p code ws we = \<lparr>intent_kind = kind_value SYNC, intent_job_id = job_id_of p code,
     intent_dataset = req_dataset p, intent_scope = code, intent_window_start = Some ws,
     intent_window_end = Some we, intent_version_dimension = None, intent_priority = req_priority p,
     intent_max_attempts = 3\<rparr>"

definition truthy_opt :: "string option \<Rightarrow> string option" where
  "truthy_opt x = (case x of Some (c # cs) \<Rightarrow> Some (c # cs) | _ \<Rightarrow> None)"

text \<open>One code of the request: the new state and a submitted (\<open>True\<close>) or skipped item.\<close>

definition trigger_code ::
  "'s repo_ops \<Rightarrow> sync_request \<Rightarrow> date \<Rightarrow> time \<Rightarrow> string set \<Rightarrow> string \<Rightarrow> 's \<Rightarrow> ('s \<times> bool \<times> sync_item) result" where
  "trigger_code ops p end_day now known code s =
     (if job_id_of p code \<notin> known then Inr (s, False, skipped_item p code NotRegistered None None)
      else let ws = start_of ops p end_day code s
        in if end_day < ws
           then Inr (s, False, skipped_item p code (EmptyWindow ws end_day) (Some ws) (Some end_day))
           else case (case truthy_opt (req_request_id p) of None \<Rightarrow> None
                      | Some rid \<Rightarrow> op_find_run_by_request_id ops rid s) of
             Some existing \<Rightarrow>
               Inr (s, True, (skipped_item p code IdempotencyHit (run_window_start existing) (run_window_end existing))
                 \<lparr>item_run_id := Some (run_id existing), item_status := status_value (run_status existing)\<rparr>)
           | None \<Rightarrow>
               (case op_create_run ops (sync_intent p code ws end_day) (req_request_id p) now s of
                  Inl e \<Rightarrow> Inl e
                | Inr (s', None) \<Rightarrow>
                    Inr (s', False, skipped_item p code DuplicateWindow (Some ws) (Some end_day))
                | Inr (s', Some run) \<Rightarrow>
                    Inr (s', True, (skipped_item p code NoNote (Some ws) (Some end_day))
                      \<lparr>item_run_id := Some (run_id run), item_status := status_value (run_status run)\<rparr>)))"

fun trigger_codes ::
  "'s repo_ops \<Rightarrow> sync_request \<Rightarrow> date \<Rightarrow> time \<Rightarrow> string set \<Rightarrow> string list \<Rightarrow> 's
    \<Rightarrow> 's \<times> (sync_item list \<times> sync_item list) result" where
  "trigger_codes ops p end_day now known [] s = (s, Inr ([], []))"
| "trigger_codes ops p end_day now known (code # codes) s =
     (case trigger_code ops p end_day now known code s of
        Inl e \<Rightarrow> (s, Inl e)
      | Inr (s1, ok, item) \<Rightarrow>
          (case trigger_codes ops p end_day now known codes s1 of
             (s2, Inl e) \<Rightarrow> (s2, Inl e)
           | (s2, Inr (subs, skips)) \<Rightarrow> (s2, Inr (if ok then (item # subs, skips) else (subs, item # skips)))))"

definition trigger_sync ::
  "'s repo_ops \<Rightarrow> sync_request \<Rightarrow> time \<Rightarrow> 's \<Rightarrow> 's \<times> (sync_item list \<times> sync_item list) result" where
  "trigger_sync ops p now s =
     (let known = set (map def_job_id (op_list_defs ops s)); today = dt_date now;
          end_day = (case req_end p of Some e \<Rightarrow> e | None \<Rightarrow> today)
      in trigger_codes ops p end_day now known (first_unique (req_codes p)) s)"

subsection \<open>Idempotency key of a batch\<close>

context meta_repository
begin

definition requested :: "string \<Rightarrow> 's \<Rightarrow> bool" where
  "requested req s \<longleftrightarrow> (\<exists>r \<in> set (runs s). run_request_id r = Some req)"

lemma requested_find: "inv s \<Longrightarrow> op_find_run_by_request_id ops req s \<noteq> None \<longleftrightarrow> requested req s"
  using find_request [of s req] by (auto simp: requested_def split: option.splits)

lemma trigger_code_requested:
  assumes "inv s" and "truthy_opt (req_request_id p) = Some req" and "requested req s"
    and "trigger_code ops p end_day now known code s = Inr (s', ok, item)"
  shows "s' = s"
  using assms requested_find [OF assms(1), of req]
  by (auto simp: trigger_code_def Let_def split: if_splits option.splits)

lemma trigger_code_new:
  assumes "inv s" and "truthy_opt (req_request_id p) = Some req"
    and "trigger_code ops p end_day now known code s = Inr (s', ok, item)"
  shows "inv s' \<and> (s' = s \<or> length (runs s') = length (runs s) + 1 \<and> requested req s')"
proof (cases "\<exists>r. op_create_run ops (sync_intent p code (start_of ops p end_day code s) end_day) (req_request_id p) now s = Inr (s', Some r)")
  case True
  then obtain r where c: "op_create_run ops (sync_intent p code (start_of ops p end_day code s) end_day) (req_request_id p) now s = Inr (s', Some r)" by blast
  have "req_request_id p = Some req" using assms(2) by (auto simp: truthy_opt_def split: option.splits list.splits)
  with create_some [OF c assms(1)] have "run_request_id r = Some req" "runs s' = runs s @ [r]" "inv s'"
    by (auto simp: new_run_def)
  then show ?thesis by (simp add: requested_def)
next
  case False
  then have "s' = s"
    using assms(3) create_none [OF _ assms(1)]
    by (auto simp: trigger_code_def Let_def split: if_splits option.splits sum.splits prod.splits)
  with assms(1) show ?thesis by simp
qed

lemma trigger_codes_requested:
  assumes "inv s" and "truthy_opt (req_request_id p) = Some req" and "requested req s"
    and "trigger_codes ops p end_day now known codes s = (s', res)"
  shows "s' = s"
  using assms(4)
proof (induction codes arbitrary: s' res)
  case Nil
  then show ?case by simp
next
  case (Cons code codes)
  show ?case
  proof (cases "trigger_code ops p end_day now known code s")
    case (Inl e)
    with Cons.prems show ?thesis by simp
  next
    case (Inr x)
    obtain s1 ok item where x: "x = (s1, ok, item)" by (cases x)
    have "s1 = s" using trigger_code_requested [OF assms(1,2,3) Inr [unfolded x]] .
    obtain s2 r2 where r: "trigger_codes ops p end_day now known codes s = (s2, r2)" by fastforce
    from Cons.IH [OF r] Cons.prems Inr x \<open>s1 = s\<close> r show ?thesis by (auto split: sum.splits)
  qed
qed

lemma trigger_codes_bound:
  assumes "inv s" and "truthy_opt (req_request_id p) = Some req"
    and "trigger_codes ops p end_day now known codes s = (s', res)"
  shows "length (runs s') \<le> length (runs s) + 1"
  using assms(1,3)
proof (induction codes arbitrary: s s' res)
  case Nil
  then show ?case by simp
next
  case (Cons code codes)
  show ?case
  proof (cases "trigger_code ops p end_day now known code s")
    case (Inl e)
    with Cons.prems show ?thesis by simp
  next
    case (Inr x)
    obtain s1 ok item where x: "x = (s1, ok, item)" by (cases x)
    obtain s2 r2 where r: "trigger_codes ops p end_day now known codes s1 = (s2, r2)" by fastforce
    have s': "s' = s2" using Cons.prems(2) Inr x r by (auto split: sum.splits)
    from trigger_code_new [OF Cons.prems(1) assms(2) Inr [unfolded x]]
    have i: "inv s1" "s1 = s \<or> length (runs s1) = length (runs s) + 1 \<and> requested req s1" by simp_all
    show ?thesis
    proof (cases "s1 = s")
      case True
      with Cons.IH [OF i(1) r] s' show ?thesis by simp
    next
      case False
      with i(2) have q: "length (runs s1) = length (runs s) + 1" "requested req s1" by simp_all
      from trigger_codes_requested [OF i(1) assms(2) q(2) r] q s' show ?thesis by simp
    qed
  qed
qed

end

end
