(* ===== verification/Pg_Claims.thy ===== *)
theory Pg_Claims
  imports Meta_Sql
begin

text \<open>
  Concurrent calls of \<open>SqlMetaRepository.claim_next\<close> on PostgreSQL.  A transaction has three
  steps: the candidate query with \<open>FOR UPDATE SKIP LOCKED\<close>, the advisory lock of the candidate's
  scope, and the guarded update with the commit, which releases both locks.  Workers interleave
  between these steps; the query sees the committed rows only.  \<open>hashtext\<close> is the database's
  hash, a parameter.
\<close>

datatype claim_phase = Selected | ScopeLocked

record pg_state =
  pg_runs :: "job_run list"
  pg_txns :: "(string, int \<times> claim_phase) dict"
  pg_claims :: "(string \<times> int) list"

definition pg_start :: "job_run list \<Rightarrow> pg_state" where
  "pg_start rows = \<lparr>pg_runs = rows, pg_txns = [], pg_claims = []\<rparr>"

definition row_locks :: "pg_state \<Rightarrow> int list" where
  "row_locks s = map fst (dict_values (pg_txns s))"

definition scope_lock_key :: "(string \<Rightarrow> int) \<Rightarrow> job_run \<Rightarrow> int" where
  "scope_lock_key hashtext r = hashtext (''fdp_runtime:'' @ run_dataset r @ '':'' @ run_scope r)"

definition scope_locks :: "(string \<Rightarrow> int) \<Rightarrow> pg_state \<Rightarrow> int list" where
  "scope_locks hashtext s = map (scope_lock_key hashtext)
     (filter (\<lambda>r. (run_id r, ScopeLocked) \<in> set (dict_values (pg_txns s))) (pg_runs s))"

definition pg_claim_select :: "time \<Rightarrow> pg_state \<Rightarrow> job_run option" where
  "pg_claim_select moment s =
     (case sort_key claim_order (filter (\<lambda>r. run_status r \<in> CLAIMABLE_STATUSES
        \<and> run_scheduled_at r \<le> moment \<and> \<not> sql_scope_busy (pg_runs s) r
        \<and> run_id r \<notin> set (row_locks s)) (pg_runs s)) of
        [] \<Rightarrow> None | r # _ \<Rightarrow> Some r)"

text \<open>
  One step of a worker: \<open>None\<close> when it has to wait for the advisory lock.  A worker without a
  transaction opens one when the query finds a candidate.
\<close>

definition pg_step :: "(string \<Rightarrow> int) \<Rightarrow> time \<Rightarrow> string \<Rightarrow> pg_state \<Rightarrow> pg_state option" where
  "pg_step hashtext moment worker s =
     (case map_of (pg_txns s) worker of
        None \<Rightarrow>
          (case pg_claim_select moment s of
             None \<Rightarrow> Some s
           | Some r \<Rightarrow> Some (s\<lparr>pg_txns := AList.update worker (run_id r, Selected) (pg_txns s)\<rparr>))
      | Some (rid, Selected) \<Rightarrow>
          (case find_run rid (pg_runs s) of
             None \<Rightarrow> None
           | Some r \<Rightarrow>
               if scope_lock_key hashtext r \<in> set (scope_locks hashtext s) then None
               else Some (s\<lparr>pg_txns := AList.update worker (rid, ScopeLocked) (pg_txns s)\<rparr>))
      | Some (rid, ScopeLocked) \<Rightarrow>
          Some (s\<lparr>pg_runs := sql_claim_update worker moment rid (pg_runs s),
                  pg_txns := AList.delete worker (pg_txns s),
                  pg_claims := pg_claims s @ [(worker, rid)]\<rparr>))"

text \<open>A schedule of worker names; a step that would have to wait leaves the state as it is.\<close>

fun pg_run :: "(string \<Rightarrow> int) \<Rightarrow> time \<Rightarrow> string list \<Rightarrow> pg_state \<Rightarrow> pg_state" where
  "pg_run hashtext moment [] s = s"
| "pg_run hashtext moment (w # ws) s =
     pg_run hashtext moment ws (case pg_step hashtext moment w s of None \<Rightarrow> s | Some s' \<Rightarrow> s')"

subsection \<open>No run is claimed twice\<close>

definition pg_inv :: "pg_state \<Rightarrow> bool" where
  "pg_inv s \<longleftrightarrow> distinct (map run_id (pg_runs s)) \<and> distinct (dict_keys (pg_txns s))
     \<and> distinct (row_locks s) \<and> distinct (map snd (pg_claims s))
     \<and> set (row_locks s) \<inter> set (map snd (pg_claims s)) = {}
     \<and> (\<forall>rid \<in> set (row_locks s). \<exists>r \<in> set (pg_runs s). run_id r = rid \<and> run_status r \<in> CLAIMABLE_STATUSES)
     \<and> (\<forall>r \<in> set (pg_runs s). run_id r \<in> set (map snd (pg_claims s)) \<longrightarrow> run_status r = RUNNING)"

lemma pg_inv_start: "distinct (map run_id rows) \<Longrightarrow> pg_inv (pg_start rows)"
  by (simp add: pg_inv_def pg_start_def row_locks_def)

lemma pg_claim_select_Some:
  assumes "pg_claim_select moment s = Some r"
  shows "r \<in> set (pg_runs s)" "run_status r \<in> CLAIMABLE_STATUSES" "run_id r \<notin> set (row_locks s)"
proof -
  define P where "P = (\<lambda>r. run_status r \<in> CLAIMABLE_STATUSES
        \<and> run_scheduled_at r \<le> moment \<and> \<not> sql_scope_busy (pg_runs s) r
        \<and> run_id r \<notin> set (row_locks s))"
  from assms obtain rs where "sort_key claim_order (filter P (pg_runs s)) = r # rs"
    by (auto simp: pg_claim_select_def P_def split: list.splits)
  from sort_key_hd(1) [OF this]
  show "r \<in> set (pg_runs s)" "run_status r \<in> CLAIMABLE_STATUSES" "run_id r \<notin> set (row_locks s)"
    by (auto simp: P_def)
qed

lemma delete_key_values:
  "distinct (dict_keys d) \<Longrightarrow> map_of d k = Some v \<Longrightarrow> distinct (map fst (dict_values d)) \<Longrightarrow>
    distinct (map fst (dict_values (AList.delete k d)))
    \<and> set (map fst (dict_values (AList.delete k d))) = set (map fst (dict_values d)) - {fst v}"
proof (induction d)
  case Nil
  then show ?case by simp
next
  case (Cons p d)
  obtain k' v' where p: "p = (k', v')" by (cases p)
  show ?case
  proof (cases "k' = k")
    case True
    with Cons.prems p have "AList.delete k (p # d) = d" by (auto simp: delete_id)
    with True Cons.prems p show ?thesis by auto
  next
    case False
    with Cons.prems p have "v \<in> set (dict_values d)" by (force dest: map_of_SomeD)
    with False Cons p show ?thesis by (auto simp: image_iff)
  qed
qed

lemma update_same_id:
  "distinct (dict_keys d) \<Longrightarrow> map_of d k = Some (rid, ph) \<Longrightarrow>
    map fst (dict_values (AList.update k (rid, ph') d)) = map fst (dict_values d)"
  by (induction d) auto

lemma pg_step_inv:
  assumes "pg_inv s" and "pg_step h moment w s = Some s'"
  shows "pg_inv s'"
proof (cases "map_of (pg_txns s) w")
  case None
  show ?thesis
  proof (cases "pg_claim_select moment s")
    case (Some r)
    have fresh: "run_id r \<notin> set (map snd (pg_claims s))"
    proof
      assume "run_id r \<in> set (map snd (pg_claims s))"
      with assms(1) pg_claim_select_Some(1) [OF Some] have "run_status r = RUNNING" by (auto simp: pg_inv_def)
      with pg_claim_select_Some(2) [OF Some] show False by (simp add: status_sets)
    qed
    have "AList.update w (run_id r, Selected) (pg_txns s) = pg_txns s @ [(w, run_id r, Selected)]"
      using None by (simp add: update_new map_of_eq_None_iff)
    then have s': "s' = s\<lparr>pg_txns := pg_txns s @ [(w, run_id r, Selected)]\<rparr>"
      using assms(2) None Some by (simp add: pg_step_def)
    have "row_locks s' = row_locks s @ [run_id r]" by (simp add: s' row_locks_def)
    with assms(1) None fresh pg_claim_select_Some [OF Some] show ?thesis
      by (auto simp: pg_inv_def s' map_of_eq_None_iff)
  qed (use assms None in \<open>simp add: pg_step_def\<close>)
next
  case (Some v)
  obtain rid ph where v: "v = (rid, ph)" by (cases v)
  show ?thesis
  proof (cases ph)
    case Selected
    with assms(2) Some v have "s' = s\<lparr>pg_txns := AList.update w (rid, ScopeLocked) (pg_txns s)\<rparr>"
      by (auto simp: pg_step_def split: option.splits if_splits)
    moreover have "row_locks (s\<lparr>pg_txns := AList.update w (rid, ScopeLocked) (pg_txns s)\<rparr>) = row_locks s"
      using assms(1) Some v update_same_id [of "pg_txns s" w rid ph] by (simp add: row_locks_def pg_inv_def)
    ultimately show ?thesis using assms(1) by (simp add: pg_inv_def distinct_update)
  next
    case ScopeLocked
    with assms(2) Some v have s': "s' = s\<lparr>pg_runs := sql_claim_update w moment rid (pg_runs s),
        pg_txns := AList.delete w (pg_txns s), pg_claims := pg_claims s @ [(w, rid)]\<rparr>"
      by (simp add: pg_step_def)
    from assms(1) have d: "distinct (dict_keys (pg_txns s))" "distinct (row_locks s)" by (simp_all add: pg_inv_def)
    have del: "distinct (row_locks s')" "set (row_locks s') = set (row_locks s) - {rid}"
      using delete_key_values [OF d(1) Some] d(2) v by (simp_all add: row_locks_def s')
    have rid: "rid \<in> set (row_locks s)" using Some v by (force simp: row_locks_def dest: map_of_SomeD)
    have ids: "map run_id (pg_runs s') = map run_id (pg_runs s)"
      by (simp add: s' sql_claim_update_def)
    have others: "\<exists>r \<in> set (pg_runs s'). run_id r = i \<and> run_status r \<in> CLAIMABLE_STATUSES"
      if i: "i \<in> set (row_locks s')" for i
    proof -
      from i del assms(1) obtain r where r: "r \<in> set (pg_runs s)" "run_id r = i" "run_status r \<in> CLAIMABLE_STATUSES"
        by (auto simp: pg_inv_def)
      with i del have "r \<in> set (pg_runs s')" by (auto simp: s' sql_claim_update_def image_iff)
      with r show ?thesis by blast
    qed
    have claimed: "run_status r = RUNNING" if r: "r \<in> set (pg_runs s')" "run_id r \<in> set (map snd (pg_claims s'))" for r
    proof -
      from r(1) obtain r0 where r0: "r0 \<in> set (pg_runs s)" "run_id r = run_id r0"
        "r = (if run_id r0 = rid \<and> run_status r0 \<in> CLAIMABLE_STATUSES then claimed_run w moment r0 else r0)"
        by (auto simp: s' sql_claim_update_def)
      show ?thesis
      proof (cases "run_id r0 = rid")
        case True
        from rid assms(1) obtain r1 where r1: "r1 \<in> set (pg_runs s)" "run_id r1 = rid" "run_status r1 \<in> CLAIMABLE_STATUSES"
          by (auto simp: pg_inv_def)
        with True r0(1) assms(1) have "r1 = r0" by (auto simp: pg_inv_def distinct_map inj_on_def)
        with r1 r0(3) show ?thesis by simp
      next
        case False
        with r r0 assms(1) show ?thesis by (auto simp: pg_inv_def s')
      qed
    qed
    have c: "map snd (pg_claims s') = map snd (pg_claims s) @ [rid]" by (simp add: s')
    have t: "dict_keys (pg_txns s') = dict_keys (AList.delete w (pg_txns s))" by (simp add: s')
    have old: "distinct (map snd (pg_claims s))" "set (row_locks s) \<inter> set (map snd (pg_claims s)) = {}"
      "distinct (map run_id (pg_runs s))" using assms(1) by (simp_all add: pg_inv_def)
    show ?thesis
      unfolding pg_inv_def ids t
    proof (intro conjI ballI impI)
      show "distinct (dict_keys (AList.delete w (pg_txns s)))" using d(1) by (rule distinct_delete)
      show "distinct (map snd (pg_claims s'))" using old rid unfolding c by auto
      show "set (row_locks s') \<inter> set (map snd (pg_claims s')) = {}" using old(2) unfolding c del(2) by auto
    qed (fact old(3), fact del(1), erule others, erule (1) claimed)
  qed
qed

lemma pg_run_inv: "pg_inv s \<Longrightarrow> pg_inv (pg_run h moment ws s)"
  by (induction ws arbitrary: s) (auto simp: pg_step_inv split: option.splits)


subsection \<open>Workers in turn, and workers overlapping\<close>

lemma pg_start_sel [simp]: "pg_runs (pg_start rows) = rows" "pg_txns (pg_start rows) = []" "pg_claims (pg_start rows) = []"
  by (simp_all add: pg_start_def)

lemma pg_claim_select_idle: "pg_claim_select moment (pg_start rows) = sql_claim_select moment rows"
  by (simp add: pg_claim_select_def sql_claim_select_def pg_start_def row_locks_def)

text \<open>A claim that no other transaction overlaps does on PostgreSQL what \<open>claim_next\<close> does in one
  atomic step: the three steps of one worker select a due run of a free scope and set it running.\<close>

theorem pg_alone:
  "pg_runs (pg_run h moment [w, w, w] (pg_start rows)) =
     (case sql_claim_select moment rows of None \<Rightarrow> rows | Some r \<Rightarrow> sql_claim_update w moment (run_id r) rows)"
proof (cases "sql_claim_select moment rows")
  case None
  then have "pg_step h moment w (pg_start rows) = Some (pg_start rows)"
    by (simp add: pg_step_def pg_claim_select_idle)
  with None show ?thesis by simp
next
  case (Some r)
  have "r \<in> set rows"
    using pg_claim_select_Some(1) [of moment "pg_start rows" r] Some by (simp add: pg_claim_select_idle)
  then obtain r' where r': "find_run (run_id r) rows = Some r'"
    using find_run_None [of "run_id r" rows] by (cases "find_run (run_id r) rows") auto
  have 1: "pg_step h moment w (pg_start rows) = Some ((pg_start rows)\<lparr>pg_txns := [(w, run_id r, Selected)]\<rparr>)"
    using Some by (simp add: pg_step_def pg_claim_select_idle)
  have 2: "pg_step h moment w ((pg_start rows)\<lparr>pg_txns := [(w, run_id r, Selected)]\<rparr>)
      = Some ((pg_start rows)\<lparr>pg_txns := [(w, run_id r, ScopeLocked)]\<rparr>)"
    using r' by (simp add: pg_step_def scope_locks_def)
  show ?thesis using 1 2 Some by (simp add: pg_step_def)
qed

text \<open>C7. On PostgreSQL no interleaving of claiming workers claims one run twice.\<close>

theorem pg_claim_once:
  assumes "distinct (map run_id rows)"
  shows "distinct (map snd (pg_claims (pg_run h moment ws (pg_start rows))))"
  using pg_run_inv [OF pg_inv_start [OF assms]] by (simp add: pg_inv_def)

definition race_run :: "int \<Rightarrow> string \<Rightarrow> date \<Rightarrow> job_run" where
  "race_run rid key day = new_run \<lparr>intent_kind = kind_value SYNC, intent_job_id = ''sync'',
     intent_dataset = ''eod_price'', intent_scope = ''cn'', intent_window_start = Some day,
     intent_window_end = Some day, intent_version_dimension = None, intent_priority = 100,
     intent_max_attempts = 3\<rparr> key rid None 0"

definition race_rows :: "job_run list" where
  "race_rows = [race_run 1 ''k1'' 738000, race_run 2 ''k2'' 738001]"

theorem pg_claim_once_witness:
  "distinct (map snd (pg_claims (pg_run (\<lambda>_. 0) 0 [''a'', ''b'', ''a'', ''a'', ''b'', ''b''] (pg_start race_rows))))"
  by (rule pg_claim_once) (simp add: race_rows_def race_run_def new_run_def)

text \<open>The scope is exclusive only if claims do not overlap: two workers that both run the candidate
  query before either commits set two runs of one (dataset, scope) running, because the query is
  not repeated once the scope's advisory lock is held.\<close>

theorem pg_scope_race:
  "runs_inv race_rows 3 \<and>
   \<not> scopes_exclusive (pg_runs (pg_run h 0 [''a'', ''b'', ''a'', ''a'', ''b'', ''b''] (pg_start race_rows)))"
proof
  show "runs_inv race_rows 3"
    by (auto simp: race_rows_def race_run_def new_run_def runs_inv_def ids_ok_def scopes_exclusive_def
      keys_exclusive_def run_ok_def)
next
  show "\<not> scopes_exclusive (pg_runs (pg_run h 0 [''a'', ''b'', ''a'', ''a'', ''b'', ''b''] (pg_start race_rows)))"
    by (simp add: race_rows_def race_run_def new_run_def pg_step_def pg_start_def pg_claim_select_def row_locks_def
      sql_scope_busy_def claim_order_def scope_locks_def find_run_def sql_claim_update_def scopes_exclusive_def status_sets)
qed

end
