(* ===== verification/Runtime_Properties.thy ===== *)
theory Runtime_Properties
  imports Job_Triggers Pg_Claims
begin

text \<open>
  The properties of the control plane: what holds of a repository after any sequence of calls,
  and of the roles that work on it.  The lemmas come from the components; here they are stated
  over the definitions themselves.
\<close>

subsection \<open>Sequences of calls on the in-memory repository\<close>

lemma mem_exec_inv:
  assumes "mem_inv m"
  shows "mem_inv (fst (mem_exec h c m)) \<and> table_step\<^sup>*\<^sup>* (mem_state m) (mem_state (fst (mem_exec h c m)))"
proof (cases c)
  case (CreateRun i req now)
  then show ?thesis
    using mem_create_run_moves [of h i req now m] mem_moves_inv [OF _ assms] assms
    by (auto simp: answer_def mem_moves_def split: sum.splits)
next
  case (ClaimNext w now utcnow)
  then show ?thesis
    using mem_claim_next_moves [of w now utcnow m, OF _ assms] mem_moves_inv [OF _ assms]
    by (cases "mem_claim_next w now utcnow m") (auto simp: answer_def mem_moves_def)
next
  case (Succeed rid rows now)
  then show ?thesis
    using mem_succeed_moves [of rid rows now m] mem_moves_inv [OF _ assms] assms
    by (auto simp: answer_def mem_moves_def split: sum.splits)
next
  case (Fail rid err now)
  then show ?thesis
    using mem_fail_moves [of rid err now m] mem_moves_inv [OF _ assms] assms
    by (auto simp: answer_def mem_moves_def split: sum.splits)
next
  case (Interrupt rid reason now)
  then show ?thesis
    using mem_interrupt_moves [of rid reason now m] mem_moves_inv [OF _ assms] assms
    by (auto simp: answer_def mem_moves_def mem_interrupt_def split: sum.splits)
next
  case (InterruptRunning prefix now)
  then show ?thesis
    using mem_interrupt_loop_moves [of prefix now "dict_values (mem_runs m)" m 0] mem_moves_inv [OF _ assms] assms
    by (auto simp: answer_def mem_moves_def mem_interrupt_running_def split: sum.splits)
next
  case (SetWatermark d s t)
  have "mem_state (fst (mem_set_watermark d s t m)) = mem_state m"
    by (simp add: mem_set_watermark_def mem_state_def mem_table_def Let_def)
  with SetWatermark mem_set_watermark_inv [OF assms, of d s t] show ?thesis
    by (simp add: answer_def split_beta)
next
  case (AdvanceWatermark d s t)
  have "mem_state (fst (mem_advance_watermark d s t m)) = mem_state m"
    by (simp add: mem_advance_watermark_def mem_set_watermark_def mem_state_def mem_table_def Let_def split: option.splits)
  with AdvanceWatermark mem_advance_watermark_inv [OF assms, of d s t] show ?thesis
    by (simp add: answer_def split_beta)
next
  case (SyncDependencies deps)
  with assms show ?thesis by (simp add: mem_sync_dependencies_def mem_inv_def mem_state_def mem_table_def)
next
  case (SyncDefs defs)
  with assms show ?thesis by (simp add: mem_sync_defs_def mem_inv_def mem_state_def mem_table_def)
qed (use assms in simp_all)

lemma run_calls_Cons: "run_calls e (c # cs) s =
    (fst (run_calls e cs (fst (e c s))), snd (e c s) # snd (run_calls e cs (fst (e c s))))"
  by (simp add: split_beta Let_def)

lemma run_calls_append: "fst (run_calls e (cs @ ds) s) = fst (run_calls e ds (fst (run_calls e cs s)))"
  by (induction cs arbitrary: s) (simp_all add: run_calls_Cons del: run_calls.simps(2))

lemma mem_calls_inv:
  "mem_inv m \<Longrightarrow> mem_inv (fst (run_calls (mem_exec h) cs m))
    \<and> table_step\<^sup>*\<^sup>* (mem_state m) (mem_state (fst (run_calls (mem_exec h) cs m)))"
proof (induction cs arbitrary: m)
  case Nil
  then show ?case by simp
next
  case (Cons c cs)
  from mem_exec_inv [OF Cons.prems, of h c] Cons.IH [of "fst (mem_exec h c m)"] show ?case
    by (simp add: run_calls_Cons del: run_calls.simps(2)) (blast intro: rtranclp_trans)
qed

lemma table_steps_kept:
  assumes "mem_inv m" and "table_step\<^sup>*\<^sup>* (mem_state m) (mem_state m')"
    and "r \<in> set (mem_table m)" and "run_status r \<in> {SUCCEEDED, DEAD, INTERRUPTED}"
  shows "r \<in> set (mem_table m')"
  using table_steps_ended [OF assms(2)] assms(1,3,4) by (simp add: mem_state_def mem_inv_def)

subsection \<open>A sample program, for the witnesses\<close>

definition sample_hash :: "string \<Rightarrow> string" where
  "sample_hash payload = payload"

definition sample_describe :: "py_error \<Rightarrow> exn" where
  "sample_describe e = (''KeyError'', ''run'')"

definition sample_intent :: "string \<Rightarrow> date \<Rightarrow> job_intent" where
  "sample_intent code day = \<lparr>intent_kind = kind_value SYNC, intent_job_id = ''sync.cn_equity.daily_bar.'' @ code,
     intent_dataset = DATASET, intent_scope = code, intent_window_start = Some day, intent_window_end = Some day,
     intent_version_dimension = None, intent_priority = 100, intent_max_attempts = 3\<rparr>"

definition sample_run :: job_run where
  "sample_run = new_run (sample_intent ''600519.SH'' 738000) ''key'' 1 None 0"

definition sample_repo :: "job_run \<Rightarrow> mem_repo" where
  "sample_repo r = mem_empty\<lparr>mem_runs := [(1, r)], mem_next_run_id := 2\<rparr>"

lemma sample_sel [simp]:
  "run_id sample_run = 1" "run_status sample_run = QUEUED" "run_attempt sample_run = 1"
  "run_max_attempts sample_run = 3" "run_scheduled_at sample_run = 0" "run_finished_at sample_run = None"
  "run_rows_written sample_run = None" "run_job_id sample_run = ''sync.cn_equity.daily_bar.600519.SH''"
  "run_request_id sample_run = None" "run_started_at sample_run = None" "run_worker sample_run = None"
  by (simp_all add: sample_run_def new_run_def sample_intent_def)

lemma sample_repo_sel [simp]:
  "mem_table (sample_repo r) = [r]" "mem_runs (sample_repo r) = [(1, r)]" "mem_next_run_id (sample_repo r) = 2"
  "mem_watermarks (sample_repo r) = []"
  by (simp_all add: sample_repo_def mem_table_def mem_empty_def)

lemma sample_inv: "run_id r = 1 \<Longrightarrow> run_ok r \<Longrightarrow> mem_inv (sample_repo r)"
  by (simp add: mem_inv_def keyed_def runs_inv_def ids_ok_def scopes_exclusive_def keys_exclusive_def)
    (simp add: sample_repo_def mem_empty_def marks_keyed_def)

lemma sample_queued_inv [simp]: "mem_inv (sample_repo sample_run)"
  by (rule sample_inv) (simp_all add: run_ok_def)

lemma sample_running_inv [simp]: "mem_inv (sample_repo (claimed_run w t sample_run))"
  by (rule sample_inv) (simp_all add: run_ok_def)

subsection \<open>Properties of the repositories\<close>





text \<open>C1. After any sequence of calls at most one run of each (dataset, scope) is running, at most
  one run of each job key is queued, retrying, running or succeeded, run ids are distinct and
  no run has used more attempts than it may.\<close>

theorem runs_stay_exclusive:
  "let rows = mem_table (fst (run_calls (mem_exec h) cs mem_empty))
   in scopes_exclusive rows \<and> keys_exclusive rows \<and> distinct (map run_id rows)
      \<and> list_all (\<lambda>r. 1 \<le> run_attempt r \<and> run_attempt r \<le> max 1 (run_max_attempts r)) rows"
proof -
  have "mem_inv (fst (run_calls (mem_exec h) cs mem_empty))"
    using mem_calls_inv [OF mem_inv_empty, of h cs] by blast
  then show ?thesis
    by (simp add: mem_inv_def runs_inv_def ids_ok_def run_ok_def list_all_iff Let_def)
qed

text \<open>A run that has succeeded, died or been interrupted is never changed again: whatever calls
  follow, it stays in the table as it is.\<close>

theorem ended_runs_frozen:
  assumes "r \<in> set (mem_table (fst (run_calls (mem_exec h) cs mem_empty)))"
    and "run_status r \<in> {SUCCEEDED, DEAD, INTERRUPTED}"
  shows "r \<in> set (mem_table (fst (run_calls (mem_exec h) (cs @ ds) mem_empty)))"
proof -
  let ?m = "fst (run_calls (mem_exec h) cs mem_empty)"
  have "mem_inv ?m" using mem_calls_inv [OF mem_inv_empty, of h cs] by blast
  from table_steps_kept [OF this conjunct2 [OF mem_calls_inv [OF this, of h ds]] assms] show ?thesis
    by (simp add: run_calls_append)
qed

lemma sample_ended:
  "fst (run_calls (mem_exec (\<lambda>_. ''key'')) [CreateRun (sample_intent ''600519.SH'' 738000) None 0, ClaimNext ''w'' None 5, Succeed 1 10 9] mem_empty)
   = sample_repo (finished_run SUCCEEDED (Some 10) None None None 9 (claimed_run ''w'' 5 sample_run))"
  by (simp add: answer_def mem_create_run_def mem_empty_def intent_key_def job_key_def validate_version_dimension_def
    sample_intent_def versioned_kind_def VERSIONED_KINDS_def new_run_def mem_claim_next_def mem_candidates_def
    status_sets claimed_run_def mem_succeed_def mem_finish_def finished_run_def sample_repo_def sample_run_def Let_def) auto

theorem ended_runs_frozen_witness:
  "finished_run SUCCEEDED (Some 10) None None None 9 (claimed_run ''w'' 5 sample_run)
    \<in> set (mem_table (fst (run_calls (mem_exec (\<lambda>_. ''key'')) ([CreateRun (sample_intent ''600519.SH'' 738000) None 0,
      ClaimNext ''w'' None 5, Succeed 1 10 9] @ [Fail 1 ''late'' 11, Interrupt 1 ''x'' 12]) mem_empty)))"
  by (rule ended_runs_frozen) (simp_all only: sample_ended sample_repo_sel finished_run_sel list.set insert_iff simp_thms)

subsection \<open>Claims, failures and watermarks\<close>

definition sample_sql :: "job_run \<Rightarrow> sql_repo" where
  "sample_sql r = (sql_empty PostgreSQL)\<lparr>sql_job_runs := [r], sql_run_seq := 2\<rparr>"

lemma sample_sql_sel [simp]: "sql_job_runs (sample_sql r) = [r]" "sql_run_seq (sample_sql r) = 2"
  by (simp_all add: sample_sql_def)

lemma sample_sim: "mem_inv (sample_repo r) \<Longrightarrow> sim (sample_repo r) (sample_sql r)"
  by (simp add: sim_def) (simp add: sample_sql_def sql_empty_def sample_repo_def mem_empty_def)

lemma sample_sql_inv [simp]: "sql_inv (sample_sql sample_run)" "sql_inv (sample_sql (claimed_run w t sample_run))"
  unfolding sql_inv_def using sample_sim by (blast intro: sample_queued_inv sample_running_inv)+

lemma sample_find [simp]: "find_run 1 [sample_run] = Some sample_run"
  "find_run 1 [claimed_run w t sample_run] = Some (claimed_run w t sample_run)"
  by (simp_all add: find_run_def)

text \<open>A run that a claim may take at a moment: due, waiting, and its scope free.\<close>

definition eligible :: "time \<Rightarrow> job_run list \<Rightarrow> job_run \<Rightarrow> bool" where
  "eligible t rows r \<longleftrightarrow> run_status r \<in> CLAIMABLE_STATUSES \<and> run_scheduled_at r \<le> t
     \<and> list_all (\<lambda>q. run_status q = RUNNING \<longrightarrow> (run_dataset q, run_scope q) \<noteq> (run_dataset r, run_scope r)) rows"

lemma claim_select_spec:
  "case sql_claim_select t rows of None \<Rightarrow> filter (eligible t rows) rows = []
   | Some r \<Rightarrow> r \<in> set rows \<and> eligible t rows r \<and> list_all (\<lambda>q. eligible t rows q \<longrightarrow> claim_order r \<le> claim_order q) rows"
proof -
  have e: "eligible t rows = (\<lambda>r. run_status r \<in> CLAIMABLE_STATUSES \<and> run_scheduled_at r \<le> t \<and> \<not> sql_scope_busy rows r)"
    by (rule ext) (auto simp: eligible_def sql_scope_busy_def list_all_iff list_ex_iff)
  show ?thesis
  proof (cases "sort_key claim_order (filter (eligible t rows) rows)")
    case Nil
    then show ?thesis by (simp add: sql_claim_select_def e)
  next
    case (Cons r rs)
    from sort_key_hd [OF this] Cons show ?thesis
      by (simp add: sql_claim_select_def e [symmetric] list_all_iff)
  qed
qed

text \<open>C3. A claim takes the due run of a free scope that comes first by priority and then by run id,
  marks it running for the worker and changes no other run; it answers None exactly when no run
  is eligible.\<close>

theorem claim_next_first:
  assumes "sql_inv q"
  shows "case sql_claim_next w (Some t) u q of
    Inr (q', Some r) \<Rightarrow> \<exists>c \<in> set (sql_job_runs q). eligible t (sql_job_runs q) c
      \<and> list_all (\<lambda>c'. eligible t (sql_job_runs q) c'
          \<longrightarrow> run_priority c < run_priority c' \<or> run_priority c = run_priority c' \<and> run_id c \<le> run_id c') (sql_job_runs q)
      \<and> r = c\<lparr>run_status := RUNNING, run_started_at := Some t, run_worker := Some w\<rparr>
      \<and> sql_job_runs q' = map (\<lambda>x. if run_id x = run_id c then r else x) (sql_job_runs q)
  | Inr (q', None) \<Rightarrow> q' = q \<and> filter (eligible t (sql_job_runs q)) (sql_job_runs q) = []
  | Inl _ \<Rightarrow> False"
proof -
  let ?rows = "sql_job_runs q"
  show ?thesis
  proof (cases "sql_claim_select t ?rows")
    case None
    with claim_select_spec [of t ?rows] show ?thesis by (simp add: sql_claim_next_def)
  next
    case (Some c)
    with claim_select_spec [of t ?rows] have c: "c \<in> set ?rows" "eligible t ?rows c"
      "list_all (\<lambda>c'. eligible t ?rows c' \<longrightarrow> claim_order c \<le> claim_order c') ?rows" by simp_all
    have d: "distinct (map run_id ?rows)" using sql.inv_runs [OF assms] by (simp add: runs_inv_def ids_ok_def)
    have u: "sql_claim_update w t (run_id c) ?rows = put_run (claimed_run w t c) ?rows"
      unfolding sql_claim_update_def using c by (intro put_run_map [OF d]) (simp_all add: eligible_def)
    have "find_run (run_id c) (put_run (claimed_run w t c) ?rows) = Some (claimed_run w t c)"
      using find_run_in [OF d c(1)] by (simp add: find_run_put)
    then have "sql_claim_next w (Some t) u q = Inr (q\<lparr>sql_job_runs := put_run (claimed_run w t c) ?rows\<rparr>, Some (claimed_run w t c))"
      by (simp add: sql_claim_next_def Some u)
    then show ?thesis using c by (auto simp: claimed_run_def put_run_def claim_order_def list_all_iff intro!: bexI [of _ c])
  qed
qed

theorem claim_next_first_witness:
  "case sql_claim_next ''w'' (Some 5) 0 (sample_sql sample_run) of
    Inr (q', Some r) \<Rightarrow> \<exists>c \<in> set (sql_job_runs (sample_sql sample_run)). eligible 5 (sql_job_runs (sample_sql sample_run)) c
      \<and> list_all (\<lambda>c'. eligible 5 (sql_job_runs (sample_sql sample_run)) c'
          \<longrightarrow> run_priority c < run_priority c' \<or> run_priority c = run_priority c' \<and> run_id c \<le> run_id c') (sql_job_runs (sample_sql sample_run))
      \<and> r = c\<lparr>run_status := RUNNING, run_started_at := Some 5, run_worker := Some ''w''\<rparr>
      \<and> sql_job_runs q' = map (\<lambda>x. if run_id x = run_id c then r else x) (sql_job_runs (sample_sql sample_run))
  | Inr (q', None) \<Rightarrow> q' = sample_sql sample_run \<and> filter (eligible 5 (sql_job_runs (sample_sql sample_run))) (sql_job_runs (sample_sql sample_run)) = []
  | Inl _ \<Rightarrow> False"
  by (rule claim_next_first) simp

text \<open>A failed run is retried after 5, 10, 20, ... seconds while it has attempts left and dies after
  its last one; no other run changes.\<close>

theorem fail_backs_off:
  assumes "sql_inv q" and "find_run rid (sql_job_runs q) = Some r" and "run_status r = RUNNING"
  shows "\<exists>q' r'. sql_fail rid err now q = Inr (q', r') \<and> run_error r' = Some err
    \<and> sql_job_runs q' = map (\<lambda>x. if run_id x = rid then r' else x) (sql_job_runs q)
    \<and> (if run_attempt r < run_max_attempts r
       then run_status r' = RETRYING \<and> run_attempt r' = run_attempt r + 1 \<and> run_finished_at r' = None
         \<and> run_scheduled_at r' = now + 5 * 2 ^ nat (run_attempt r - 1) * 1000000
       else run_status r' = DEAD \<and> run_attempt r' = run_attempt r \<and> run_finished_at r' = Some now)"
proof -
  from sql.fail [OF assms(2,1), where err = err and now = now] assms(3) obtain q' where
    q': "sql_fail rid err now q = Inr (q', failed_run err now r)"
      "sql_job_runs q' = put_run (failed_run err now r) (sql_job_runs q)" by (auto simp: sql_ops_def)
  have "run_id r = rid" using find_run_Some [OF assms(2)] by simp
  with q' show ?thesis
    by (intro exI [of _ q'] exI [of _ "failed_run err now r"])
      (simp add: put_run_def failed_run_def retry_delay_def RETRY_BACKOFF_SECONDS_def seconds_def us_per_second_def)
qed

theorem fail_backs_off_witness:
  "\<exists>q' r'. sql_fail 1 ''boom'' 7 (sample_sql (claimed_run ''w'' 5 sample_run)) = Inr (q', r') \<and> run_error r' = Some ''boom''
    \<and> sql_job_runs q' = map (\<lambda>x. if run_id x = 1 then r' else x) (sql_job_runs (sample_sql (claimed_run ''w'' 5 sample_run)))
    \<and> (if run_attempt (claimed_run ''w'' 5 sample_run) < run_max_attempts (claimed_run ''w'' 5 sample_run)
       then run_status r' = RETRYING \<and> run_attempt r' = run_attempt (claimed_run ''w'' 5 sample_run) + 1 \<and> run_finished_at r' = None
         \<and> run_scheduled_at r' = 7 + 5 * 2 ^ nat (run_attempt (claimed_run ''w'' 5 sample_run) - 1) * 1000000
       else run_status r' = DEAD \<and> run_attempt r' = run_attempt (claimed_run ''w'' 5 sample_run) \<and> run_finished_at r' = Some 7)"
  by (rule fail_backs_off) simp_all

lemma mem_exec_marks:
  assumes "mem_inv m" and "\<forall>d s t. c \<noteq> SetWatermark d s t" and "\<forall>d s t. c \<noteq> AdvanceWatermark d s t"
  shows "mem_watermarks (fst (mem_exec h c m)) = mem_watermarks m"
proof (cases c)
  case (CreateRun i req now)
  then show ?thesis using mem_create_run_moves [of h i req now m] assms(1)
    by (auto simp: answer_def mem_moves_def split: sum.splits)
next
  case (ClaimNext w now utcnow)
  then show ?thesis using mem_claim_next_moves [of w now utcnow m, OF _ assms(1)]
    by (cases "mem_claim_next w now utcnow m") (auto simp: answer_def mem_moves_def)
next
  case (Succeed rid rows now)
  then show ?thesis using mem_succeed_moves [of rid rows now m] assms(1)
    by (auto simp: answer_def mem_moves_def split: sum.splits)
next
  case (Fail rid err now)
  then show ?thesis using mem_fail_moves [of rid err now m] assms(1)
    by (auto simp: answer_def mem_moves_def split: sum.splits)
next
  case (Interrupt rid reason now)
  then show ?thesis using mem_interrupt_moves [of rid reason now m] assms(1)
    by (auto simp: answer_def mem_moves_def mem_interrupt_def split: sum.splits)
next
  case (InterruptRunning prefix now)
  then show ?thesis using mem_interrupt_loop_moves [of prefix now "dict_values (mem_runs m)" m 0] assms(1)
    by (auto simp: answer_def mem_moves_def mem_interrupt_running_def split: sum.splits)
qed (use assms in \<open>simp_all add: mem_sync_dependencies_def mem_sync_defs_def\<close>)

definition mark_at :: "mem_repo \<Rightarrow> string \<Rightarrow> string \<Rightarrow> time option" where
  "mark_at m d s = (case mem_get_watermark d s m of None \<Rightarrow> None | Some w \<Rightarrow> wm_watermark_time w)"

lemma mem_exec_mark_le:
  assumes "mem_inv m" and "\<forall>t. c \<noteq> SetWatermark d s t" and "mark_at m d s = Some t"
  shows "\<exists>t' \<ge> t. mark_at (fst (mem_exec h c m)) d s = Some t'"
proof -
  consider (set) d' s' t' where "c = SetWatermark d' s' t'" | (adv) d' s' t' where "c = AdvanceWatermark d' s' t'"
    | (other) "\<forall>d s t. c \<noteq> SetWatermark d s t" "\<forall>d s t. c \<noteq> AdvanceWatermark d s t" by (cases c) auto
  then show ?thesis
  proof cases
    case set
    with assms show ?thesis
      by (auto simp: answer_def mem_set_watermark_def mark_at_def mem_get_watermark_def Let_def)
  next
    case adv
    with assms show ?thesis
      by (cases "(d', s') = (d, s)")
        (auto simp: answer_def mem_advance_watermark_def mem_set_watermark_def mark_at_def mem_get_watermark_def Let_def
          split: option.splits)
  next
    case other
    with mem_exec_marks [OF assms(1) other] assms(3) show ?thesis
      by (simp add: mark_at_def mem_get_watermark_def)
  qed
qed

lemma mem_calls_mark_le:
  "mem_inv m \<Longrightarrow> \<forall>t. SetWatermark d s t \<notin> set cs \<Longrightarrow> mark_at m d s = Some t \<Longrightarrow>
    \<exists>t' \<ge> t. mark_at (fst (run_calls (mem_exec h) cs m)) d s = Some t'"
proof (induction cs arbitrary: m t)
  case Nil
  then show ?case by auto
next
  case (Cons c cs)
  have "\<forall>t. c \<noteq> SetWatermark d s t" using Cons.prems(2) by auto
  from mem_exec_mark_le [OF Cons.prems(1) this Cons.prems(3), of h] obtain t1 where
    t1: "t \<le> t1" "mark_at (fst (mem_exec h c m)) d s = Some t1" by blast
  from Cons.IH [OF conjunct1 [OF mem_exec_inv [OF Cons.prems(1)]] _ t1(2)] Cons.prems(2) t1(1) show ?case
    by (fastforce simp: run_calls_Cons simp del: run_calls.simps(2))
qed

text \<open>C10. A watermark only moves forward under any calls but \<open>set_watermark\<close>: once it stands at a
  time, it stands there or later ever after.\<close>

theorem watermark_never_back:
  assumes "mark_at (fst (run_calls (mem_exec h) cs mem_empty)) d s = Some t"
    and "list_all (\<lambda>c. case c of SetWatermark d' s' _ \<Rightarrow> (d', s') \<noteq> (d, s) | _ \<Rightarrow> True) ds"
  shows "\<exists>t'. t \<le> t' \<and> mark_at (fst (run_calls (mem_exec h) (cs @ ds) mem_empty)) d s = Some t'"
proof -
  have "\<forall>t. SetWatermark d s t \<notin> set ds" using assms(2) by (force simp: list_all_iff)
  from mem_calls_mark_le [OF conjunct1 [OF mem_calls_inv [OF mem_inv_empty]] this assms(1)] show ?thesis
    by (auto simp: run_calls_append)
qed

theorem watermark_never_back_witness:
  "\<exists>t'. 50 \<le> t' \<and> mark_at (fst (run_calls (mem_exec sample_hash) ([AdvanceWatermark ''d'' ''s'' 50] @
     [AdvanceWatermark ''d'' ''s'' 20, SetWatermark ''d'' ''x'' 3]) mem_empty)) ''d'' ''s'' = Some t'"
  by (rule watermark_never_back)
    (simp_all add: answer_def mem_advance_watermark_def mem_set_watermark_def mark_at_def mem_get_watermark_def Let_def mem_empty_def)

subsection \<open>The roles\<close>

text \<open>C5. The dispatcher's back-pressure: submitting any list of intents never makes the queue longer
  than the larger of its limit and its length before.\<close>

theorem queue_stays_bounded:
  assumes "sql_inv s"
  shows "sql_count_queued (fst (fst (submit_all (sql_ops sha) max_queued is (s, h)))) \<le> max max_queued (sql_count_queued s)"
proof -
  obtain s' h' ans where "submit_all (sql_ops sha) max_queued is (s, h) = ((s', h'), ans)" by (metis prod.exhaust)
  with sql.submit_all_queue [OF this assms] show ?thesis by (simp add: sql_ops_def)
qed

definition idle_dispatcher :: dispatcher_health where
  "idle_dispatcher = \<lparr>dh_last_dispatch_at = None, dh_created = 0, dh_duplicate = 0, dh_dependency_blocked = 0, dh_backpressure_blocked = 0\<rparr>"

theorem queue_stays_bounded_witness:
  "sql_count_queued (fst (fst (submit_all (sql_ops sample_hash) 1 [(sample_intent ''600519.SH'' 738001, 3)] (sample_sql sample_run, idle_dispatcher))))
    \<le> max 1 (sql_count_queued (sample_sql sample_run))"
  by (rule queue_stays_bounded) simp

text \<open>C11. \<open>submit\<close> creates a run only below the queue limit, with every parent ready and no active run of
  the same key; a created run is one new queued row at the end of the table, and any other
  answer leaves the repository alone.\<close>

theorem submit_gates:
  assumes "sql_inv s"
  shows "case submit (sql_ops sha) max_queued i now (s, h) of ((s', h'), ans) \<Rightarrow>
    if ans = Inr SUBMIT_CREATED
    then sql_count_queued s < max_queued
      \<and> sql_parents_ready (intent_job_id i) (intent_scope i) (intent_window_start i) (intent_window_end i) s
      \<and> (\<exists>r. sql_job_runs s' = sql_job_runs s @ [r] \<and> run_status r = QUEUED \<and> run_job_id r = intent_job_id i
           \<and> list_all (\<lambda>q. run_job_key q \<noteq> run_job_key r \<or> run_status q \<notin> ACTIVE_STATUSES) (sql_job_runs s))
    else s' = s"
proof -
  obtain s' h' ans where e: "submit (sql_ops sha) max_queued i now (s, h) = ((s', h'), ans)" by (metis prod.exhaust)
  from e assms show ?thesis
  proof (cases rule: sql.submit_cases)
    case (created key)
    then show ?thesis unfolding e by (auto simp: sql_ops_def new_run_def list_all_iff)
  qed (simp_all add: submit_answers e)
qed

theorem submit_gates_witness:
  "case submit (sql_ops sample_hash) 1 (sample_intent ''600519.SH'' 738001) 3 (sample_sql sample_run, idle_dispatcher) of ((s', h'), ans) \<Rightarrow>
    if ans = Inr SUBMIT_CREATED
    then sql_count_queued (sample_sql sample_run) < 1
      \<and> sql_parents_ready (intent_job_id (sample_intent ''600519.SH'' 738001)) (intent_scope (sample_intent ''600519.SH'' 738001))
          (intent_window_start (sample_intent ''600519.SH'' 738001)) (intent_window_end (sample_intent ''600519.SH'' 738001)) (sample_sql sample_run)
      \<and> (\<exists>r. sql_job_runs s' = sql_job_runs (sample_sql sample_run) @ [r] \<and> run_status r = QUEUED
           \<and> run_job_id r = intent_job_id (sample_intent ''600519.SH'' 738001)
           \<and> list_all (\<lambda>q. run_job_key q \<noteq> run_job_key r \<or> run_status q \<notin> ACTIVE_STATUSES) (sql_job_runs (sample_sql sample_run)))
    else s' = sample_sql sample_run"
  by (rule submit_gates) simp

definition repo_steps :: "(sql_repo \<Rightarrow> sql_repo) \<Rightarrow> bool" where
  "repo_steps f \<longleftrightarrow> (\<forall>s. sql_inv s \<longrightarrow> sql_inv (f s)
     \<and> table_step\<^sup>*\<^sup>* (sql_job_runs s, sql_run_seq s) (sql_job_runs (f s), sql_run_seq (f s)))"

lemma repo_steps_env: "sql.env_ok f \<longleftrightarrow> repo_steps f"
  by (simp add: sql.env_ok_def repo_steps_def sql.table_def)

lemma repo_steps_id [simp]: "repo_steps (\<lambda>s. s)"
  by (simp add: repo_steps_def)

text \<open>C4. \<open>execute_once\<close> never raises and never leaves its run running: whatever the executor does and
  whatever the other threads and the success callbacks do through the repository's steps, the
  run it returns has ended, been rescheduled or been interrupted, and the busy count is restored.\<close>

theorem execute_once_always_ends:
  assumes "sql_inv s" and "repo_steps during"
    and "\<forall>spec cb c r. spec \<in> set (specs tasks) \<longrightarrow> spec_on_success spec = Some cb \<longrightarrow> repo_steps (\<lambda>s. fst (cb c r s))"
  shows "case execute_once (sql_ops sha) describe tasks name wid now during clock (s, h) of ((s', h'), res) \<Rightarrow>
    sql_inv s' \<and> (\<exists>r. res = Inr r \<and>
    (case r of None \<Rightarrow> s' = s \<and> h' = h | Some fin \<Rightarrow> run_status fin \<noteq> RUNNING \<and> wh_busy h' = max 0 (wh_busy h)))"
proof -
  obtain s' h' res where e: "execute_once (sql_ops sha) describe tasks name wid now during clock (s, h) = ((s', h'), res)"
    by (metis prod.exhaust)
  have "sql.callbacks_ok tasks"
    unfolding sql.callbacks_ok_def repo_steps_env using assms(3) by (force simp: specs_def dest: map_of_SomeD)
  from sql.execute_once_ends [OF assms(1) _ this e] assms(2) show ?thesis by (simp add: e repo_steps_env)
qed

definition idle_worker :: worker_health where
  "idle_worker = \<lparr>wh_alive = True, wh_busy = 0, wh_last_completed_at = None, wh_last_error = None, wh_executed = 0\<rparr>"

theorem execute_once_always_ends_witness:
  "case execute_once (sql_ops sample_hash) sample_describe [] ''worker'' None None (\<lambda>s. s) 5 (sample_sql sample_run, idle_worker) of ((s', h'), res) \<Rightarrow>
    sql_inv s' \<and> (\<exists>r. res = Inr r \<and>
    (case r of None \<Rightarrow> s' = sample_sql sample_run \<and> h' = idle_worker
     | Some fin \<Rightarrow> run_status fin \<noteq> RUNNING \<and> wh_busy h' = max 0 (wh_busy idle_worker)))"
  by (rule execute_once_always_ends) (simp_all add: specs_def)

lemma outcome_spec:
  "case map_of tasks (run_job_id q) of
       None \<Rightarrow> run_status (outcome tasks clock (claimed_run w t q)) \<in> {RETRYING, DEAD}
         \<and> run_error (outcome tasks clock (claimed_run w t q)) = Some (unregistered_text @ run_job_id q)
     | Some spec \<Rightarrow>
         (case spec_executor spec (run_context (claimed_run w t q)) of
            Inl (type, msg) \<Rightarrow> run_status (outcome tasks clock (claimed_run w t q)) = (if run_attempt q < run_max_attempts q then RETRYING else DEAD)
              \<and> run_error (outcome tasks clock (claimed_run w t q)) = Some (type @ '': '' @ msg)
          | Inr res \<Rightarrow> run_status (outcome tasks clock (claimed_run w t q)) = SUCCEEDED
              \<and> run_error (outcome tasks clock (claimed_run w t q)) = None
              \<and> run_rows_written (outcome tasks clock (claimed_run w t q)) = Some (case res of None \<Rightarrow> 0 | Some r \<Rightarrow> res_rows_written r))"
proof (cases "map_of tasks (run_job_id q)")
  case None
  then show ?thesis by (simp add: outcome_def get_task_def)
next
  case (Some spec)
  then show ?thesis
    by (cases "spec_executor spec (run_context (claimed_run w t q))")
      (simp_all add: outcome_def get_task_def exn_text_def rows_of_def split_beta)
qed

text \<open>The outcome of an execution nobody interferes with: an unregistered task fails, an executor's
  exception fails the run with ``Type: text'', and a result succeeds with its row count.\<close>

theorem execute_once_outcome:
  assumes "sql_inv s"
  shows "case execute_once (sql_ops sha) describe tasks name wid now (\<lambda>s. s) clock (s, h) of ((s', h'), res) \<Rightarrow>
    res = Inr None \<and> s' = s \<or> (\<exists>fin q. res = Inr (Some fin) \<and> q \<in> set (sql_job_runs s)
      \<and> run_status q \<in> CLAIMABLE_STATUSES \<and> run_id fin = run_id q \<and>
    (case map_of tasks (run_job_id q) of
       None \<Rightarrow> run_status fin \<in> {RETRYING, DEAD} \<and> run_error fin = Some (unregistered_text @ run_job_id q)
     | Some spec \<Rightarrow>
         (case spec_executor spec (run_context (claimed_run (run_label name wid) (case now of Some t \<Rightarrow> t | None \<Rightarrow> clock) q)) of
            Inl (type, msg) \<Rightarrow> run_status fin = (if run_attempt q < run_max_attempts q then RETRYING else DEAD)
              \<and> run_error fin = Some (type @ '': '' @ msg)
          | Inr res \<Rightarrow> run_status fin = SUCCEEDED \<and> run_error fin = None
              \<and> run_rows_written fin = Some (case res of None \<Rightarrow> 0 | Some r \<Rightarrow> res_rows_written r))))"
proof -
  obtain s' h' res where e: "execute_once (sql_ops sha) describe tasks name wid now (\<lambda>s. s) clock (s, h) = ((s', h'), res)"
    by (metis prod.exhaust)
  from assms e show ?thesis
  proof (cases rule: sql.execute_once_step)
    case (ran q r s1)
    have id: "run_id (outcome tasks clock r) = run_id q" using outcome_same [of r tasks clock] ran(3) by (simp add: same_job_def)
    show ?thesis
      unfolding e prod.case
      by (rule disjI2, rule exI [of _ "outcome tasks clock r"], rule exI [of _ q], intro conjI ran(4,1,2) id)
        (simp_all only: ran(3) outcome_spec)
  qed (simp add: e)
qed

theorem execute_once_outcome_witness:
  "case execute_once (sql_ops sample_hash) sample_describe [] ''worker'' None None (\<lambda>s. s) 5 ((sample_sql sample_run), idle_worker) of ((s', h'), res) \<Rightarrow>
    res = Inr None \<and> s' = (sample_sql sample_run) \<or> (\<exists>fin q. res = Inr (Some fin) \<and> q \<in> set (sql_job_runs (sample_sql sample_run))
      \<and> run_status q \<in> CLAIMABLE_STATUSES \<and> run_id fin = run_id q \<and>
    (case map_of ([] :: sql_repo task_registry) (run_job_id q) of
       None \<Rightarrow> run_status fin \<in> {RETRYING, DEAD} \<and> run_error fin = Some (unregistered_text @ run_job_id q)
     | Some spec \<Rightarrow>
         (case spec_executor spec (run_context (claimed_run (run_label ''worker'' None) (case (None :: time option) of Some t \<Rightarrow> t | None \<Rightarrow> 5) q)) of
            Inl (type, msg) \<Rightarrow> run_status fin = (if run_attempt q < run_max_attempts q then RETRYING else DEAD)
              \<and> run_error fin = Some (type @ '': '' @ msg)
          | Inr res \<Rightarrow> run_status fin = SUCCEEDED \<and> run_error fin = None
              \<and> run_rows_written fin = Some (case res of None \<Rightarrow> 0 | Some r \<Rightarrow> res_rows_written r))))"
  by (rule execute_once_outcome) simp

lemma sql_claim_nothing:
  assumes "sql_inv s" and "sql_claim_next name (Some t) u s = Inr (s', None)"
  shows "\<forall>r \<in> set (sql_job_runs s). run_status r \<in> CLAIMABLE_STATUSES \<and> run_scheduled_at r \<le> t \<longrightarrow>
    (\<exists>r' \<in> set (sql_job_runs s). run_status r' = RUNNING \<and> run_dataset r' = run_dataset r \<and> run_scope r' = run_scope r)"
proof -
  let ?free = "filter (\<lambda>r. run_status r \<in> CLAIMABLE_STATUSES \<and> run_scheduled_at r \<le> t \<and> \<not> sql_scope_busy (sql_job_runs s) r) (sql_job_runs s)"
  have "sql_claim_select t (sql_job_runs s) = None"
    using assms(2) by (auto simp: sql_claim_next_def Let_def split: option.splits)
  then have "sort_key claim_order ?free = []" by (auto simp: sql_claim_select_def split: list.splits)
  then have "?free = []" by simp
  then show ?thesis by (auto simp: filter_empty_conv sql_scope_busy_def list_ex_iff)
qed

text \<open>C8. \<open>run_pending\<close> ends, whatever the clock does, when no success callback changes the table of runs: each
  round uses up one of the attempts left in the table, so more fuel than those always suffices; when it returns
  after n executed runs, every queued or retrying run that was due at the reading of the clock in the last
  round belongs to a dataset and scope of which a run is still running.\<close>

theorem run_pending_terminates:
  assumes "sql_inv s" and "quiet_callbacks sql_job_runs sql_inv tasks" and "budget (sql_job_runs s) < k"
  shows "\<exists>s' h' n. run_pending k (sql_ops sha) describe tasks name clock 0 (s, h) = Some ((s', h'), Inr (int n))
    \<and> n \<le> budget (sql_job_runs s)
    \<and> (\<forall>r \<in> set (sql_job_runs s'). run_status r \<in> CLAIMABLE_STATUSES \<and> run_scheduled_at r \<le> clock n \<longrightarrow>
        (\<exists>r' \<in> set (sql_job_runs s'). run_status r' = RUNNING \<and> run_dataset r' = run_dataset r \<and> run_scope r' = run_scope r))"
proof -
  obtain s' h' n where r: "run_pending k (sql_ops sha) describe tasks name clock 0 (s, h) = Some ((s', h'), Inr (0 + int n))" "sql_inv s'"
    "n \<le> budget (sql_job_runs s)" "op_claim_next (sql_ops sha) name (Some (clock n)) (clock n) s' = Inr (s', None)"
    using sql.run_pending_ends [OF assms, of sha describe name clock 0 h] by blast
  from r(4) have "sql_claim_next name (Some (clock n)) (clock n) s' = Inr (s', None)" by (simp add: sql_ops_def)
  from sql_claim_nothing [OF r(2) this] r(1,3) show ?thesis by (intro exI [of _ s'] exI [of _ h'] exI [of _ n]) simp
qed

theorem run_pending_terminates_witness:
  "\<exists>s' h' n. run_pending 4 (sql_ops sample_hash) sample_describe [] ''worker'' (\<lambda>n. 5) 0 (sample_sql sample_run, idle_worker) = Some ((s', h'), Inr (int n))
    \<and> n \<le> budget (sql_job_runs (sample_sql sample_run))
    \<and> (\<forall>r \<in> set (sql_job_runs s'). run_status r \<in> CLAIMABLE_STATUSES \<and> run_scheduled_at r \<le> 5 \<longrightarrow>
        (\<exists>r' \<in> set (sql_job_runs s'). run_status r' = RUNNING \<and> run_dataset r' = run_dataset r \<and> run_scope r' = run_scope r))"
proof (rule run_pending_terminates)
  show "budget (sql_job_runs (sample_sql sample_run)) < 4" by (simp add: budget_def claims_left_def status_sets)
  show "quiet_callbacks sql_job_runs sql_inv []" by (simp add: quiet_callbacks_def)
qed simp

subsection \<open>Windows, the sync endpoint and shutdown\<close>

definition sample_request :: "string list \<Rightarrow> sync_request" where
  "sample_request codes = \<lparr>req_codes = codes, req_dataset = DATASET, req_start = Some 738000, req_end = Some 738000,
     req_request_id = Some ''r1'', req_priority = 100\<rparr>"

text \<open>C6. A request with an idempotency key creates at most one run, however many codes it names: from the
  second code on, the key finds the run created for the first.\<close>

theorem request_creates_at_most_one:
  assumes "sql_inv s" and "req_request_id p = Some (c # cs)"
  shows "length (sql_job_runs (fst (trigger_sync (sql_ops sha) p now s))) \<le> length (sql_job_runs s) + 1"
proof -
  have t: "truthy_opt (req_request_id p) = Some (c # cs)" using assms(2) by (simp add: truthy_opt_def)
  obtain s' res where e: "trigger_sync (sql_ops sha) p now s = (s', res)" by fastforce
  then show ?thesis
    using sql.trigger_codes_bound [OF assms(1) t, where s' = s' and res = res] unfolding trigger_sync_def Let_def by fastforce
qed

theorem request_creates_at_most_one_witness:
  "length (sql_job_runs (fst (trigger_sync (sql_ops sample_hash) (sample_request [''600519.SH'', ''000001.SZ'']) 0 (sample_sql sample_run))))
    \<le> length (sql_job_runs (sample_sql sample_run)) + 1"
  by (rule request_creates_at_most_one [of _ _ "CHR ''r''" "''1''"]) (simp_all add: sample_request_def)

text \<open>Repeating a request whose key already has a run changes nothing.\<close>

theorem repeated_request_idle:
  assumes "sql_inv s" and "req_request_id p = Some (c # cs)"
    and "r \<in> set (sql_job_runs s)" and "run_request_id r = Some (c # cs)"
  shows "fst (trigger_sync (sql_ops sha) p now s) = s"
proof -
  have t: "truthy_opt (req_request_id p) = Some (c # cs)" using assms(2) by (simp add: truthy_opt_def)
  have "sql.requested (c # cs) s" using assms(3,4) by (auto simp: sql.requested_def)
  obtain s' res where e: "trigger_sync (sql_ops sha) p now s = (s', res)" by fastforce
  then show ?thesis
    using sql.trigger_codes_requested [OF assms(1) t \<open>sql.requested (c # cs) s\<close>, where s' = s' and res = res]
    unfolding trigger_sync_def Let_def by fastforce
qed

definition requested_run :: job_run where
  "requested_run = sample_run\<lparr>run_request_id := Some ''r1''\<rparr>"

theorem repeated_request_idle_witness:
  "fst (trigger_sync (sql_ops sample_hash) (sample_request [''600519.SH'', ''000001.SZ'']) 0 (sample_sql requested_run)) = sample_sql requested_run"
proof (rule repeated_request_idle)
  have "mem_inv (sample_repo requested_run)" by (rule sample_inv) (simp_all add: requested_run_def run_ok_def)
  from sample_sim [OF this] show "sql_inv (sample_sql requested_run)" by (auto simp: sql_inv_def)
  show "req_request_id (sample_request [''600519.SH'', ''000001.SZ'']) = Some (CHR ''r'' # ''1'')" by (simp add: sample_request_def)
  show "requested_run \<in> set (sql_job_runs (sample_sql requested_run))" by simp
  show "run_request_id requested_run = Some (CHR ''r'' # ''1'')" by (simp add: requested_run_def)
qed

text \<open>Windows are contiguous: after a window has been synchronised and its callback has moved the
  watermark, the next due window of the task starts on the day after its end, and while the
  calendar has closed no later day there is none.\<close>

theorem windows_contiguous:
  assumes "(a, b) \<in> set (watermark_windows (mem_ops sha) calendar starts spec t m)"
    and "spec_dataset spec = DATASET" and "spec_scope spec = code" and "ctx_window_end ctx = Some b"
    and "res_rows_written res \<noteq> 0 \<or> b < today"
  shows "let m' = fst (mark_watermark (mem_ops sha) describe None code today ctx res m)
    in watermark_windows (mem_ops sha) calendar starts spec t m' = []
       \<and> watermark_windows (mem_ops sha) calendar starts spec t' m' =
            (case calendar t' of None \<Rightarrow> [] | Some closed \<Rightarrow> if closed \<le> b then [] else [(b + 1, closed)])"
proof -
  have midnight [simp]: "dt_date (dt_combine d 0) = d" for d
    by (rule dt_date_combine) (simp_all add: us_per_day_def us_per_second_def)
  let ?mark = "\<lparr>wm_dataset = DATASET, wm_scope = code, wm_watermark_time = Some (dt_combine b 0)\<rparr>"
  note w = watermark_windows_cases [OF assms(1)]
  have "watermark_target today b (res_rows_written res) = b" using assms(5) by (auto simp: watermark_target_def)
  then have m': "fst (mark_watermark (mem_ops sha) describe None code today ctx res m)
      = fst (mem_advance_watermark DATASET code (dt_combine b 0) m)"
    by (simp add: mark_watermark_def assms(4) mem_ops_def split_beta)
  have later: "\<not> dt_combine b 0 \<le> c" if "map_of (mem_watermarks m) (DATASET, code) = Some v" "wm_watermark_time v = Some c" for v c
  proof
    assume "dt_combine b 0 \<le> c"
    then have "b \<le> dt_date c" using dt_date_mono [of "dt_combine b 0" c] by simp
    moreover have "a = dt_date c + 1"
      using w(1,3) that assms(2,3) by (simp add: watermark_windows_def mem_ops_def mem_get_watermark_def Let_def split: if_splits)
    ultimately show False using w(2) by simp
  qed
  have g: "mem_get_watermark DATASET code (fst (mem_advance_watermark DATASET code (dt_combine b 0) m)) = Some ?mark"
    using later by (auto simp: mem_advance_watermark_def mem_set_watermark_def mem_get_watermark_def Let_def split: option.splits)
  have nxt: "watermark_windows (mem_ops sha) calendar starts spec u (fst (mem_advance_watermark DATASET code (dt_combine b 0) m)) =
      (case calendar u of None \<Rightarrow> [] | Some closed \<Rightarrow> if closed \<le> b then [] else [(b + 1, closed)])" for u
    using g assms(2,3) by (auto simp: watermark_windows_def mem_ops_def split: option.splits)
  show ?thesis using nxt [of t] nxt [of t'] w(3) by (simp add: m')
qed

theorem windows_contiguous_witness:
  "let m' = fst (mark_watermark (mem_ops sample_hash) sample_describe None ''600519.SH'' 738100
        (run_context (sample_run\<lparr>run_window_end := Some 738005\<rparr>)) \<lparr>res_rows_written = 3\<rparr> mem_empty)
    in watermark_windows (mem_ops sample_hash) (\<lambda>t. Some (738005 + t)) (\<lambda>_. Some 738000)
         (daily_bar_spec (mem_ops sample_hash) sample_describe None ''600519.SH'' (\<lambda>ws we. Inr 10) None 100 3 738100) 0 m' = []
       \<and> watermark_windows (mem_ops sample_hash) (\<lambda>t. Some (738005 + t)) (\<lambda>_. Some 738000)
         (daily_bar_spec (mem_ops sample_hash) sample_describe None ''600519.SH'' (\<lambda>ws we. Inr 10) None 100 3 738100) 4 m' =
            (case Some (738005 + 4) of None \<Rightarrow> [] | Some closed \<Rightarrow> if closed \<le> 738005 then [] else [(738005 + 1, closed)])"
  by (rule windows_contiguous)
    (simp_all add: watermark_windows_def mem_ops_def mem_get_watermark_def mem_empty_def daily_bar_spec_def run_context_def ctx_window_end_def)

subsection \<open>Shutdown\<close>

text \<open>The sweep of \<open>interrupt_running\<close> interrupts exactly the running runs whose worker's name starts with
  the prefix, and reports their number.\<close>

theorem sweep_by_prefix:
  assumes "mem_inv m"
  shows "\<exists>m'. mem_interrupt_running prefix now m =
      Inr (m', int (length (filter (\<lambda>r. run_status r = RUNNING \<and> worker_matches prefix r) (mem_table m))))
    \<and> mem_table m' = map (\<lambda>r. if run_status r = RUNNING \<and> worker_matches prefix r
        then r\<lparr>run_status := INTERRUPTED, run_error := Some shutdown_timeout_text, run_finished_at := Some now\<rparr> else r) (mem_table m)"
proof -
  have d: "distinct (map run_id (mem_table m))" and ok: "\<forall>r \<in> set (mem_table m). run_ok r"
    using assms by (simp_all add: mem_inv_def runs_inv_def ids_ok_def)
  obtain m' where m': "mem_interrupt_running prefix now m = Inr (m',
      int (length (filter (\<lambda>r. run_status r = RUNNING \<and> worker_matches prefix r) (mem_table m))))"
    and t': "mem_table m' = map (\<lambda>y. if y \<in> set (mem_table m) \<and> run_status y = RUNNING \<and> worker_matches prefix y
        then swept now y else y) (mem_table m)"
    using interrupt_loop_table [OF assms d subset_refl, of prefix now 0]
    by (auto simp: mem_interrupt_running_def mem_table_def)
  have "mem_table m' = map (\<lambda>r. if run_status r = RUNNING \<and> worker_matches prefix r
        then r\<lparr>run_status := INTERRUPTED, run_error := Some shutdown_timeout_text, run_finished_at := Some now\<rparr> else r) (mem_table m)"
    unfolding t' by (intro map_cong refl) (simp add: update_swept ok)
  with m' show ?thesis by blast
qed

theorem sweep_by_prefix_witness:
  "\<exists>m'. mem_interrupt_running ''worker-1'' 9 (sample_repo (claimed_run ''worker-1-0'' 5 sample_run)) =
      Inr (m', int (length (filter (\<lambda>r. run_status r = RUNNING \<and> worker_matches ''worker-1'' r) (mem_table (sample_repo (claimed_run ''worker-1-0'' 5 sample_run))))))
    \<and> mem_table m' = map (\<lambda>r. if run_status r = RUNNING \<and> worker_matches ''worker-1'' r
        then r\<lparr>run_status := INTERRUPTED, run_error := Some shutdown_timeout_text, run_finished_at := Some 9\<rparr> else r)
          (mem_table (sample_repo (claimed_run ''worker-1-0'' 5 sample_run)))"
  by (rule sweep_by_prefix) simp

text \<open>The pool of process 12 also interrupts the runs of process 123: the prefix \<open>worker-12\<close> is not
  closed off, so it matches every label of a process whose number starts with 12.\<close>

theorem sweep_hits_other_process:
  "\<forall>k. worker_matches ''worker-12'' (claimed_run (worker_label (''worker-12'' @ nat_str k) i) t sample_run)"
  by (simp add: worker_matches_def worker_label_def starts_with_iff)

text \<open>The success callback runs although the run did not succeed: when the run was interrupted while its
  executor worked, \<open>succeed\<close> leaves it interrupted and the callback still moves the watermark.\<close>

theorem callback_after_interrupt:
  "let tasks = [(''sync.cn_equity.daily_bar.600519.SH'',
          daily_bar_spec (mem_ops sha) describe None ''600519.SH'' (\<lambda>ws we. Inr 10) None 100 3 738100)];
       ((m', h'), res) = execute_once (mem_ops sha) describe tasks ''worker-1'' None None
          (\<lambda>m. case mem_interrupt_running ''worker-1'' 9 m of Inl _ \<Rightarrow> m | Inr (m', _) \<Rightarrow> m') 5 (sample_repo sample_run, idle_worker)
   in (\<exists>fin. res = Inr (Some fin) \<and> run_status fin = INTERRUPTED) \<and> mem_get_watermark DATASET ''600519.SH'' (sample_repo sample_run) = None
      \<and> mem_get_watermark DATASET ''600519.SH'' m' = Some \<lparr>wm_dataset = DATASET, wm_scope = ''600519.SH'', wm_watermark_time = Some (dt_combine 738000 0)\<rparr>"
proof -
  have c: "mem_candidates 5 (sample_repo sample_run) = [sample_run]"
    by (simp add: mem_candidates_def Let_def status_sets image_iff)
  let ?m1 = "sample_repo (claimed_run ''worker-1'' 5 sample_run)"
  have 1: "mem_claim_next ''worker-1'' (Some 5) 5 (sample_repo sample_run) = (?m1, Some (claimed_run ''worker-1'' 5 sample_run))"
    by (simp add: mem_claim_next_def c Let_def) (simp add: sample_repo_def mem_empty_def)
  let ?r = "finished_run INTERRUPTED None (Some shutdown_timeout_text) None None 9 (claimed_run ''worker-1'' 5 sample_run)"
  have 2: "mem_interrupt_running ''worker-1'' 9 ?m1 = Inr (sample_repo ?r, 1)"
    by (simp add: mem_interrupt_running_def worker_matches_def mem_finish_def Let_def starts_with_iff)
      (simp add: sample_repo_def mem_empty_def)
  have 3: "mem_succeed 1 10 5 (sample_repo ?r) = Inr (sample_repo ?r, ?r)"
    by (simp add: mem_succeed_def mem_finish_def)
  have w: "run_window_start sample_run = Some 738000" "run_window_end sample_run = Some 738000" "run_scope sample_run = ''600519.SH''"
    by (simp_all add: sample_run_def new_run_def sample_intent_def)
  show ?thesis
    by (simp add: execute_once_def execute_spec_def mem_ops_def 1 2 3 w get_task_def run_context_def daily_bar_spec_def daily_bar_executor_def
      ctx_window_start_def ctx_window_end_def ctx_scope_def rows_of_def call_on_success_def mark_watermark_def or_default_def
      mem_advance_watermark_def mem_set_watermark_def mem_get_watermark_def watermark_target_def Let_def)
qed

subsection \<open>Registration and job keys\<close>

text \<open>C9. The registry's validation is exact: it finds nothing exactly when every dependency names a registered
  task, the versioned kinds and only they have a version provider, and the dependency relation
  has no cycle; it always ends.\<close>

theorem validation_exact:
  "\<exists>errs. validate tasks = Some errs \<and> (errs = [] \<longleftrightarrow>
     list_all (\<lambda>spec. set (spec_dependencies spec) \<subseteq> set (dict_keys tasks)
        \<and> (versioned_kind (spec_kind spec) \<longleftrightarrow> spec_version_provider spec \<noteq> None)) (specs tasks)
     \<and> acyclic (dep_rel tasks))"
proof -
  obtain cycles where c: "validate_acyclic tasks = Some cycles" using validate_acyclic_total [of tasks] by blast
  have "cycles = [] \<longleftrightarrow> acyclic (dep_rel tasks)" using validate_acyclic_iff [of tasks] c by simp
  with c show ?thesis by (auto simp: validate_def validate_spec_Nil specs_def list_all_iff)
qed

text \<open>Two jobs with the same key material are the same job: the hashed text determines the kind, the job,
  the scope, the window and the version dimension, for all dates of the calendar.\<close>

theorem job_payload_determines_job:
  assumes "valid_date_opt ws" "valid_date_opt we" "valid_date_opt ws'" "valid_date_opt we'"
    and "job_payload kind job scope ws we v = job_payload kind' job' scope' ws' we' v'"
  shows "(kind, job, scope, ws, we, v) = (kind', job', scope', ws', we', v')"
  using job_payload_inj [OF assms] .

theorem job_payload_determines_job_witness:
  "(''sync'', ''j'', '''', Some 738000, None, None) = (''sync'', ''j'', ([] :: string), Some (738000 :: date), None :: date option, None :: string option)"
  using job_payload_determines_job [of "Some 738000" None "Some 738000" None "''sync''" "''j''" "[]" None "''sync''" "''j''" "[]" None] by simp

definition twice_dependent :: "'s task_registry" where
  "twice_dependent =
     (let spec = \<lparr>spec_job_id = ''a'', spec_kind = kind_value SYNC, spec_dataset = ''d'', spec_executor = (\<lambda>_. Inr None),
        spec_schedule = None, spec_priority = 100, spec_max_attempts = 3, spec_scope = '''', spec_dependencies = [],
        spec_condition = condition_value ON_SUCCESS, spec_version_provider = None, spec_on_success = None\<rparr>
      in [(''a'', spec), (''b'', spec\<lparr>spec_job_id := ''b'', spec_dependencies := [''a'', ''a'']\<rparr>)])"

lemma twice_dependent_rel: "dep_rel twice_dependent = {(''b'', ''a'')}"
  by (auto simp: dep_rel_def twice_dependent_def deps_of_def Let_def)

lemma twice_dependent_valid: "validate twice_dependent = Some []"
proof -
  have "validate_acyclic twice_dependent = Some []"
    unfolding validate_acyclic_iff twice_dependent_rel by (simp add: acyclic_insert) (simp add: acyclic_def)
  then show ?thesis
    by (simp add: validate_def) (simp add: twice_dependent_def Let_def validate_spec_def versioned_kind_def VERSIONED_KINDS_def)
qed

lemma twice_dependent_rows:
  "registry_dependencies twice_dependent =
      [\<lparr>dep_parent_job = ''a'', dep_child_job = ''b'', dep_condition = ''on_success''\<rparr>,
       \<lparr>dep_parent_job = ''a'', dep_child_job = ''b'', dep_condition = ''on_success''\<rparr>]"
  "map def_job_id (registry_defs twice_dependent) = [''a'', ''b'']"
  by (simp_all add: registry_dependencies_def registry_defs_def twice_dependent_def Let_def)

text \<open>A dependency named twice passes the validation but stops the start on SQL: the mirrored rows collide on
  their primary key, after the definitions have been written; the in-memory repository takes them.\<close>

theorem repeated_dependency_stops_start:
  "validate twice_dependent = Some []
   \<and> map_option snd (sync_metadata (sql_ops sha) twice_dependent (sql_empty d)) = Some (Inl IntegrityError)
   \<and> map_option snd (sync_metadata (mem_ops sha) twice_dependent mem_empty) = Some (Inr ())"
  by (simp add: twice_dependent_valid sync_metadata_def twice_dependent_rows sql_ops_def mem_ops_def sql_sync_defs_def
    insert_rows_distinct sql_sync_dependencies_def dep_key_def)

end
