(* ===== verification/Registry_Models.thy ===== *)
theory Registry_Models
  imports PyDates
begin

text \<open>
  The entity registry's data model (\<open>registry/models.py\<close>), its value helpers
  (\<open>registry/_util.py\<close>), the relation vocabulary (\<open>registry/relation_types.py\<close>) and the
  in-memory repository (\<open>registry/repository.py\<close>): append-only rows of each kind.
\<close>

subsection \<open>Records\<close>

definition entity_type_values :: "string list" where
  "entity_type_values = [''issuer'', ''equity'', ''etf'', ''lof'', ''fund'', ''index'', ''bond'', ''future'',
     ''option'', ''rate'', ''fx'', ''macro'', ''basket'']"

definition entity_class_values :: "string list" where
  "entity_class_values = [''bond_etf'', ''money_etf'', ''reit'', ''equity_index'', ''commodity_future'']"

definition market_values :: "string list" where
  "market_values = [''cn'', ''hk'', ''us'', ''global'']"

definition social_status_values :: "string list" where
  "social_status_values = [''operating'', ''defunct'', ''restructuring'']"

definition id_type_values :: "string list" where
  "id_type_values = [''isin'', ''figi'', ''cusip'', ''sedol'', ''lei'', ''uscc'', ''other'']"

datatype lifecycle_status = LISTED | SUSPENDED | DELISTED

fun lifecycle_value :: "lifecycle_status \<Rightarrow> string" where
  "lifecycle_value LISTED = ''listed''"
| "lifecycle_value SUSPENDED = ''suspended''"
| "lifecycle_value DELISTED = ''delisted''"

record entity_record =
  er_entity_id :: int
  er_entity_type :: string
  er_code :: string
  er_name :: string
  er_entity_class :: "string option"
  er_market :: "string option"
  er_currency :: "string option"
  er_exchange :: "string option"
  er_frequency :: "string option"
  er_unit :: "string option"
  er_algorithm_id :: "string option"
  er_social_status :: "string option"
  er_valid_from :: "date option"
  er_valid_to :: "date option"
  er_knowledge_time :: "time option"
  er_version :: int
  er_attrs :: "(string, string) dict option"

record code_history_record =
  ch_entity_id :: int
  ch_code :: string
  ch_valid_from :: "date option"
  ch_valid_to :: "date option"
  ch_knowledge_time :: "time option"
  ch_version :: int

record relation_record =
  rel_entity_id :: int
  rel_related_id :: int
  rel_relation_type :: string
  rel_valid_from :: "date option"
  rel_valid_to :: "date option"
  rel_knowledge_time :: "time option"
  rel_version :: int

record relation_type_record =
  rt_relation_type :: string
  rt_inverse_relation :: string
  rt_description :: string

record external_id_record =
  xid_entity_id :: int
  xid_id_type :: string
  xid_id_value :: string
  xid_valid_from :: "date option"
  xid_valid_to :: "date option"
  xid_knowledge_time :: "time option"
  xid_version :: int

record lifecycle_record =
  lc_entity_id :: int
  lc_status :: string
  lc_start_date :: "date option"
  lc_end_date :: "date option"
  lc_knowledge_time :: "time option"
  lc_version :: int

record build_stats =
  bs_registered :: int
  bs_updated :: int
  bs_attributes :: int
  bs_skipped :: int

subsection \<open>Values\<close>

text \<open>
  The loosely typed values that \<open>to_date\<close>, \<open>clean_code\<close> and \<open>to_datetime\<close> accept; parsing
  a text is pandas' and is the argument \<open>parse\<close>; \<open>str(value)\<close> is the argument \<open>to_str\<close>.
\<close>

datatype raw_value = RawNone | RawNaN | RawDateTime time | RawDate date | RawText string

definition EPOCH :: date where "EPOCH = 726468"

lemma EPOCH_ymd: "EPOCH = int (ymd2ord (1990, 1, 1))"
  by (simp add: EPOCH_def ymd2ord_def days_before_year_def days_before_month_def is_leap_def)

fun to_date :: "(string \<Rightarrow> time option) \<Rightarrow> raw_value \<Rightarrow> date option" where
  "to_date parse RawNone = None"
| "to_date parse RawNaN = None"
| "to_date parse (RawDateTime t) = Some (dt_date t)"
| "to_date parse (RawDate d) = Some d"
| "to_date parse (RawText s) = map_option dt_date (parse s)"

definition clean_code :: "(raw_value \<Rightarrow> string) \<Rightarrow> raw_value \<Rightarrow> string option" where
  "clean_code to_str v =
     (if v = RawNone \<or> v = RawNaN then None
      else let t = strip (to_str v) in if t = [] then None else Some t)"

fun to_datetime :: "(string \<Rightarrow> time option) \<Rightarrow> raw_value \<Rightarrow> time option" where
  "to_datetime parse RawNone = None"
| "to_datetime parse RawNaN = None"
| "to_datetime parse (RawDateTime t) = Some t"
| "to_datetime parse (RawDate d) = Some (dt_combine d 0)"
| "to_datetime parse (RawText s) = parse s"

text \<open>\<open>covers\<close> on the two bounds of a row: without a target day, only open rows cover.\<close>

definition covers :: "date option \<Rightarrow> date option \<Rightarrow> date option \<Rightarrow> bool" where
  "covers valid_from valid_to target =
     (case target of
        None \<Rightarrow> valid_to = None
      | Some t \<Rightarrow>
          (case valid_from of None \<Rightarrow> False
           | Some f \<Rightarrow> f \<le> t \<and> (case valid_to of None \<Rightarrow> True | Some e \<Rightarrow> t \<le> e)))"

definition facet :: "string list \<Rightarrow> bool \<Rightarrow> string option \<Rightarrow> string option result" where
  "facet allowed required value =
     (case value of
        None \<Rightarrow> if required then Inl ValueError else Inr None
      | Some v \<Rightarrow> if v \<in> set allowed then Inr (Some v) else Inl ValueError)"

subsection \<open>Relation vocabulary\<close>

text \<open>
  The YAML list as its entries' fields, \<open>None\<close> for an entry that is not an object; \<open>str(x or "")\<close>
  has been applied.
\<close>

fun load_relation_types ::
  "(string \<times> string \<times> string) option list \<Rightarrow> (string, relation_type_record) dict \<Rightarrow> (string, relation_type_record) dict result" where
  "load_relation_types [] records = Inr records"
| "load_relation_types (None # items) records = Inl ValueError"
| "load_relation_types (Some (relation, inverse_rel, description) # items) records =
     (let name = strip relation; inv_name = strip inverse_rel
      in if name = [] \<or> inv_name = [] then Inl ValueError
         else if name \<in> set (dict_keys records) then Inl ValueError
         else load_relation_types items (AList.update name
           \<lparr>rt_relation_type = name, rt_inverse_relation = inv_name, rt_description = description\<rparr> records))"

datatype vocabulary_error = InverseMissing string string | InverseAsymmetric string string string

definition validate_relation_types :: "(string, relation_type_record) dict \<Rightarrow> vocabulary_error list" where
  "validate_relation_types records = concat (map (\<lambda>(name, r).
     case map_of records (rt_inverse_relation r) of
       None \<Rightarrow> [InverseMissing name (rt_inverse_relation r)]
     | Some inv_r \<Rightarrow> if rt_inverse_relation inv_r \<noteq> name
         then [InverseAsymmetric name (rt_inverse_relation r) (rt_inverse_relation inv_r)] else []) records)"

lemma validate_relation_types_Nil:
  "validate_relation_types records = [] \<longleftrightarrow>
     (\<forall>(name, r) \<in> set records. \<exists>r'. map_of records (rt_inverse_relation r) = Some r' \<and> rt_inverse_relation r' = name)"
  by (force simp: validate_relation_types_def split: option.splits if_splits)

lemma load_relation_types_distinct:
  "load_relation_types items records = Inr d \<Longrightarrow> distinct (dict_keys records) \<Longrightarrow> distinct (dict_keys d)"
  by (induction items records rule: load_relation_types.induct)
    (auto simp: Let_def distinct_update split: if_splits)

subsection \<open>In-memory repository\<close>

record registry_repo =
  reg_next_id :: int
  reg_rows :: "(int, entity_record list) dict"
  reg_codes :: "code_history_record list"
  reg_relations :: "relation_record list"
  reg_relation_types :: "(string, relation_type_record) dict"
  reg_external_ids :: "external_id_record list"

definition reg_empty :: "int \<Rightarrow> registry_repo" where
  "reg_empty id_start = \<lparr>reg_next_id = id_start, reg_rows = [], reg_codes = [], reg_relations = [],
     reg_relation_types = [], reg_external_ids = []\<rparr>"

definition next_entity_id :: "registry_repo \<Rightarrow> registry_repo \<times> int" where
  "next_entity_id g = (g\<lparr>reg_next_id := reg_next_id g + 1\<rparr>, reg_next_id g)"

definition entity_rows :: "registry_repo \<Rightarrow> int \<Rightarrow> entity_record list" where
  "entity_rows g eid = (case map_of (reg_rows g) eid of None \<Rightarrow> [] | Some rows \<Rightarrow> rows)"

definition append_entity :: "entity_record \<Rightarrow> registry_repo \<Rightarrow> registry_repo" where
  "append_entity r g = g\<lparr>reg_rows := AList.update (er_entity_id r) (entity_rows g (er_entity_id r) @ [r]) (reg_rows g)\<rparr>"

definition all_rows :: "registry_repo \<Rightarrow> entity_record list" where
  "all_rows g = concat (dict_values (reg_rows g))"

definition append_code :: "code_history_record \<Rightarrow> registry_repo \<Rightarrow> registry_repo" where
  "append_code c g = g\<lparr>reg_codes := reg_codes g @ [c]\<rparr>"

definition code_history :: "registry_repo \<Rightarrow> int \<Rightarrow> code_history_record list" where
  "code_history g eid = filter (\<lambda>c. ch_entity_id c = eid) (reg_codes g)"

definition find_by_code :: "registry_repo \<Rightarrow> string \<Rightarrow> code_history_record list" where
  "find_by_code g code = filter (\<lambda>c. ch_code c = code) (reg_codes g)"

definition append_relation :: "relation_record \<Rightarrow> registry_repo \<Rightarrow> registry_repo" where
  "append_relation r g = g\<lparr>reg_relations := reg_relations g @ [r]\<rparr>"

definition relation_rows :: "registry_repo \<Rightarrow> int \<Rightarrow> relation_record list" where
  "relation_rows g eid = filter (\<lambda>r. rel_entity_id r = eid) (reg_relations g)"

definition find_relations_by_related :: "registry_repo \<Rightarrow> int \<Rightarrow> relation_record list" where
  "find_relations_by_related g eid = filter (\<lambda>r. rel_related_id r = eid) (reg_relations g)"

definition append_relation_type :: "relation_type_record \<Rightarrow> registry_repo \<Rightarrow> registry_repo" where
  "append_relation_type t g = g\<lparr>reg_relation_types := AList.update (rt_relation_type t) t (reg_relation_types g)\<rparr>"

definition repo_relation_types :: "registry_repo \<Rightarrow> relation_type_record list" where
  "repo_relation_types g = dict_values (reg_relation_types g)"

definition append_external_id :: "external_id_record \<Rightarrow> registry_repo \<Rightarrow> registry_repo" where
  "append_external_id x g = g\<lparr>reg_external_ids := reg_external_ids g @ [x]\<rparr>"

definition external_id_rows :: "registry_repo \<Rightarrow> int \<Rightarrow> external_id_record list" where
  "external_id_rows g eid = filter (\<lambda>x. xid_entity_id x = eid) (reg_external_ids g)"

definition find_external_ids :: "registry_repo \<Rightarrow> string \<Rightarrow> string \<Rightarrow> external_id_record list" where
  "find_external_ids g id_type id_value = filter (\<lambda>x. xid_id_type x = id_type \<and> xid_id_value x = id_value) (reg_external_ids g)"

lemma append_entity_rows [simp]:
  "entity_rows (append_entity r g) eid = (if eid = er_entity_id r then entity_rows g eid @ [r] else entity_rows g eid)"
  by (simp add: append_entity_def entity_rows_def)

lemma entity_rows_next_id [simp]: "entity_rows (g\<lparr>reg_next_id := n\<rparr>) eid = entity_rows g eid"
  by (simp add: entity_rows_def)

lemma append_frames [simp]:
  "reg_next_id (append_entity r g) = reg_next_id g" "reg_codes (append_entity r g) = reg_codes g"
  "reg_relations (append_entity r g) = reg_relations g" "reg_external_ids (append_entity r g) = reg_external_ids g"
  "reg_relation_types (append_entity r g) = reg_relation_types g"
  "entity_rows (append_code c g) eid = entity_rows g eid" "reg_next_id (append_code c g) = reg_next_id g"
  "reg_codes (append_code c g) = reg_codes g @ [c]" "reg_rows (append_code c g) = reg_rows g"
  "entity_rows (append_relation x g) eid = entity_rows g eid" "reg_next_id (append_relation x g) = reg_next_id g"
  "reg_codes (append_relation x g) = reg_codes g" "reg_rows (append_relation x g) = reg_rows g"
  "reg_relations (append_relation x g) = reg_relations g @ [x]"
  "entity_rows (append_external_id y g) eid = entity_rows g eid" "reg_next_id (append_external_id y g) = reg_next_id g"
  "reg_codes (append_external_id y g) = reg_codes g" "reg_rows (append_external_id y g) = reg_rows g"
  "reg_external_ids (append_external_id y g) = reg_external_ids g @ [y]"
  by (simp_all add: append_entity_def append_code_def append_relation_def append_external_id_def entity_rows_def)

end
