(* ===== verification/Registry_Service.thy ===== *)
theory Registry_Service
  imports Registry_Models
begin

text \<open>
  \<open>EntityRegistry\<close> (\<open>registry/service.py\<close>) on the in-memory repository: registration and refresh,
  name and code changes as SCD2 rows, resolution as of a day, relations in both directions,
  external ids, and the build from the hub's reference tables.  Dates arrive as \<open>to_date\<close> has
  parsed them; the readings of \<open>now()\<close> in one call are one argument.
\<close>

text \<open>The service's state: its repository and its relation vocabulary.\<close>

record registry =
  svc_repo :: registry_repo
  svc_relation_types :: "(string, relation_type_record) dict"

definition create_registry ::
  "registry_repo \<Rightarrow> (string, relation_type_record) dict \<Rightarrow> registry result" where
  "create_registry g vocab =
     (if validate_relation_types vocab \<noteq> [] then Inl ValueError
      else Inr \<lparr>svc_repo = foldl (\<lambda>g t. append_relation_type t g) g (dict_values vocab), svc_relation_types = vocab\<rparr>)"

subsection \<open>Rows of an entity\<close>

definition row_order :: "entity_record \<Rightarrow> date \<times> int" where
  "row_order r = ((case er_valid_from r of None \<Rightarrow> EPOCH | Some d \<Rightarrow> d), er_version r)"

definition current_row :: "registry_repo \<Rightarrow> int \<Rightarrow> entity_record result" where
  "current_row g eid =
     (let rows = entity_rows g eid; open_rows = filter (\<lambda>r. er_valid_to r = None) rows
      in case max_by row_order (if open_rows = [] then rows else open_rows) of
           None \<Rightarrow> Inl KeyError | Some r \<Rightarrow> Inr r)"

definition next_version :: "registry_repo \<Rightarrow> int \<Rightarrow> int" where
  "next_version g eid = Max (set (map er_version (entity_rows g eid))) + 1"

definition covering_row :: "registry_repo \<Rightarrow> int \<Rightarrow> date option \<Rightarrow> entity_record option" where
  "covering_row g eid as_of =
     (if entity_rows g eid = [] then None
      else if as_of = None then (case current_row g eid of Inl _ \<Rightarrow> None | Inr r \<Rightarrow> Some r)
      else max_by row_order (filter (\<lambda>r. covers (er_valid_from r) (er_valid_to r) as_of) (entity_rows g eid)))"

definition require_entity :: "registry_repo \<Rightarrow> int \<Rightarrow> entity_record result" where
  "require_entity g eid = (if entity_rows g eid = [] then Inl KeyError else current_row g eid)"

definition close_row :: "entity_record \<Rightarrow> date option \<Rightarrow> time \<Rightarrow> registry_repo \<Rightarrow> registry_repo" where
  "close_row row valid_to now g =
     append_entity (row\<lparr>er_valid_to := valid_to, er_knowledge_time := Some now,
       er_version := next_version g (er_entity_id row)\<rparr>) g"

text \<open>\<open>_append_row\<close>; an argument left out is \<open>None\<close>, as in the code.\<close>

definition appended_row ::
  "entity_record \<Rightarrow> string option \<Rightarrow> string option \<Rightarrow> date option \<Rightarrow> date option \<Rightarrow> (string, string) dict \<Rightarrow> time
    \<Rightarrow> registry_repo \<Rightarrow> entity_record" where
  "appended_row base code name valid_from valid_to attrs_extra now g =
     (let attrs = AList.updates (dict_keys attrs_extra) (dict_values attrs_extra)
            (case er_attrs base of None \<Rightarrow> [] | Some a \<Rightarrow> a)
      in base\<lparr>er_code := (case code of Some c \<Rightarrow> c | None \<Rightarrow> er_code base),
              er_name := (case name of Some n \<Rightarrow> n | None \<Rightarrow> er_name base),
              er_valid_from := (case valid_from of Some d \<Rightarrow> Some d | None \<Rightarrow> er_valid_from base),
              er_valid_to := valid_to, er_knowledge_time := Some now,
              er_version := next_version g (er_entity_id base),
              er_attrs := (if attrs = [] then None else Some attrs)\<rparr>)"

definition append_row ::
  "entity_record \<Rightarrow> string option \<Rightarrow> string option \<Rightarrow> date option \<Rightarrow> date option \<Rightarrow> (string, string) dict \<Rightarrow> time
    \<Rightarrow> registry_repo \<Rightarrow> registry_repo" where
  "append_row base code name valid_from valid_to attrs_extra now g =
     append_entity (appended_row base code name valid_from valid_to attrs_extra now g) g"

subsection \<open>Resolution of codes\<close>

definition latest_codes :: "code_history_record list \<Rightarrow> (int \<times> string \<times> date option, code_history_record) dict" where
  "latest_codes entries = foldl (\<lambda>latest e.
     let key = (ch_entity_id e, ch_code e, ch_valid_from e)
     in case map_of latest key of
          None \<Rightarrow> AList.update key e latest
        | Some old \<Rightarrow> if ch_version old < ch_version e then AList.update key e latest else latest) [] entries"

definition code_order :: "code_history_record \<Rightarrow> int \<times> int" where
  "code_order e = (- (case ch_valid_from e of None \<Rightarrow> EPOCH | Some d \<Rightarrow> d), - ch_version e)"

definition code_valid :: "date option \<Rightarrow> code_history_record \<Rightarrow> bool" where
  "code_valid target e = (case target of None \<Rightarrow> True
     | Some t \<Rightarrow> \<not> (case ch_valid_from e of None \<Rightarrow> False | Some f \<Rightarrow> t < f)
         \<and> \<not> (case ch_valid_to e of None \<Rightarrow> False | Some v \<Rightarrow> v < t))"

definition resolve :: "registry_repo \<Rightarrow> string \<Rightarrow> date option \<Rightarrow> int option" where
  "resolve g code target =
     map_option ch_entity_id (find (code_valid target)
       (sort_key code_order (dict_values (latest_codes (find_by_code g code)))))"

definition entity :: "registry_repo \<Rightarrow> int \<Rightarrow> date option \<Rightarrow> entity_record option" where
  "entity g eid target =
     (case target of
        None \<Rightarrow> (if entity_rows g eid = [] then None
                 else case current_row g eid of Inl _ \<Rightarrow> None | Inr r \<Rightarrow> Some r)
      | Some _ \<Rightarrow> covering_row g eid target)"

definition entity_ids :: "registry_repo \<Rightarrow> int list" where
  "entity_ids g = sorted_list_of_set (set (map er_entity_id (all_rows g)))"

definition name_as_of :: "registry_repo \<Rightarrow> int \<Rightarrow> date option \<Rightarrow> string option" where
  "name_as_of g eid as_of = map_option er_name (covering_row g eid as_of)"

subsection \<open>Registration\<close>

record registration =
  in_code :: string
  in_entity_type :: string
  in_name :: string
  in_entity_class :: "string option"
  in_market :: "string option"
  in_currency :: "string option"
  in_exchange :: "string option"
  in_frequency :: "string option"
  in_unit :: "string option"
  in_algorithm_id :: "string option"
  in_social_status :: "string option"
  in_valid_from :: "date option"
  in_attrs :: "(string, string) dict option"

definition create_entity :: "registration \<Rightarrow> time \<Rightarrow> registry_repo \<Rightarrow> (registry_repo \<times> entity_record) result" where
  "create_entity a now g =
     bind_result (facet entity_type_values True (Some (in_entity_type a))) (\<lambda>_.
     bind_result (facet entity_class_values False (in_entity_class a)) (\<lambda>eclass.
     bind_result (facet market_values False (in_market a)) (\<lambda>emarket.
     bind_result (facet social_status_values False (in_social_status a)) (\<lambda>sstatus.
       if sstatus \<noteq> None \<and> in_entity_type a \<noteq> ''issuer'' then Inl ValueError
       else let sstatus = (if in_entity_type a = ''issuer'' \<and> sstatus = None then Some ''operating'' else sstatus);
                start = (case in_valid_from a of None \<Rightarrow> EPOCH | Some d \<Rightarrow> d);
                (g1, eid) = next_entity_id g;
                base = \<lparr>er_entity_id = eid, er_entity_type = in_entity_type a, er_code = in_code a,
                   er_name = in_name a, er_entity_class = eclass, er_market = emarket,
                   er_currency = in_currency a, er_exchange = in_exchange a, er_frequency = in_frequency a,
                   er_unit = in_unit a, er_algorithm_id = in_algorithm_id a, er_social_status = sstatus,
                   er_valid_from = Some start, er_valid_to = None, er_knowledge_time = Some now,
                   er_version = 1, er_attrs = in_attrs a\<rparr>;
                g2 = append_code \<lparr>ch_entity_id = eid, ch_code = in_code a, ch_valid_from = Some start,
                   ch_valid_to = None, ch_knowledge_time = Some now, ch_version = 1\<rparr> g1
            in Inr (append_entity base g2, base)))))"

text \<open>
  The field updates of \<open>_refresh\<close>: the record after them.  An enumerated value that is given must
  be allowed; a plain field changes when it is given and differs.
\<close>

definition pick :: "'a option \<Rightarrow> 'a option \<Rightarrow> 'a option" where
  "pick given old = (case given of None \<Rightarrow> old | Some v \<Rightarrow> Some v)"

lemma pick_simps [simp]: "pick g (pick g x) = pick g x" "pick g g = g" "pick None x = x"
  by (simp_all add: pick_def split: option.split)

definition refreshed_row :: "registration \<Rightarrow> entity_record \<Rightarrow> entity_record result" where
  "refreshed_row a current =
     bind_result (facet entity_class_values False (in_entity_class a)) (\<lambda>eclass.
     bind_result (facet market_values False (in_market a)) (\<lambda>emarket.
     bind_result (facet social_status_values False (in_social_status a)) (\<lambda>sstatus.
       if sstatus \<noteq> None \<and> er_entity_type current \<noteq> ''issuer'' then Inl ValueError
       else Inr (current\<lparr>er_name := (if in_name a \<noteq> [] then in_name a else er_name current),
              er_entity_class := pick eclass (er_entity_class current),
              er_market := pick emarket (er_market current),
              er_social_status := pick sstatus (er_social_status current),
              er_currency := pick (in_currency a) (er_currency current),
              er_exchange := pick (in_exchange a) (er_exchange current),
              er_frequency := pick (in_frequency a) (er_frequency current),
              er_unit := pick (in_unit a) (er_unit current),
              er_algorithm_id := pick (in_algorithm_id a) (er_algorithm_id current)\<rparr>))))"

definition refresh :: "int \<Rightarrow> registration \<Rightarrow> time \<Rightarrow> registry_repo \<Rightarrow> (registry_repo \<times> bool) result" where
  "refresh eid a now g =
     bind_result (current_row g eid) (\<lambda>current.
     bind_result (refreshed_row a current) (\<lambda>row.
       if row = current then Inr (g, False)
       else Inr (append_row row None None (er_valid_from current) None [] now g, True)))"

definition register_or_refresh ::
  "registration \<Rightarrow> time \<Rightarrow> registry_repo \<Rightarrow> (registry_repo \<times> entity_record \<times> bool \<times> bool) result" where
  "register_or_refresh a now g =
     (case resolve g (in_code a) None of
        None \<Rightarrow> bind_result (create_entity a now g) (\<lambda>(g', r). Inr (g', r, True, False))
      | Some eid \<Rightarrow>
          bind_result (refresh eid a now g) (\<lambda>(g', updated).
          bind_result (current_row g' eid) (\<lambda>r. Inr (g', r, False, updated))))"

definition register_entity :: "registration \<Rightarrow> time \<Rightarrow> registry_repo \<Rightarrow> (registry_repo \<times> entity_record) result" where
  "register_entity a now g = bind_result (register_or_refresh a now g) (\<lambda>(g', r, _, _). Inr (g', r))"

definition register_issuer ::
  "string \<Rightarrow> string \<Rightarrow> string \<Rightarrow> string option \<Rightarrow> (string, string) dict option \<Rightarrow> time \<Rightarrow> registry_repo
    \<Rightarrow> (registry_repo \<times> entity_record) result" where
  "register_issuer code name social_status currency attrs now g =
     register_entity \<lparr>in_code = code, in_entity_type = ''issuer'', in_name = name, in_entity_class = None,
       in_market = None, in_currency = currency, in_exchange = None, in_frequency = None, in_unit = None,
       in_algorithm_id = None, in_social_status = Some social_status, in_valid_from = None, in_attrs = attrs\<rparr> now g"

subsection \<open>Name and code changes\<close>

definition add_name_change ::
  "int \<Rightarrow> string \<Rightarrow> date option \<Rightarrow> date option \<Rightarrow> string option \<Rightarrow> time \<Rightarrow> registry_repo \<Rightarrow> registry_repo result" where
  "add_name_change eid name start_date end_date ann_date now g =
     (case start_date of
        None \<Rightarrow> Inl ValueError
      | Some start \<Rightarrow>
          let before = start - 1; previous = covering_row g eid (Some before)
          in bind_result (case previous of Some p \<Rightarrow> Inr (er_name p)
                          | None \<Rightarrow> bind_result (current_row g eid) (\<lambda>c. Inr (er_name c))) (\<lambda>resume_name.
             let g1 = (case previous of
                   Some p \<Rightarrow> if (case er_valid_to p of None \<Rightarrow> True | Some v \<Rightarrow> before < v)
                             then close_row p (Some before) now g else g
                 | None \<Rightarrow> g)
             in bind_result (current_row g1 eid) (\<lambda>current.
                let g2 = append_row current None (Some name) (Some start) end_date
                      (case ann_date of Some t \<Rightarrow> [(''ann_date'', t)] | None \<Rightarrow> []) now g1
                in case end_date of
                     None \<Rightarrow> Inr g2
                   | Some e \<Rightarrow> Inr (append_row current None (Some resume_name) (Some (e + 1)) None [] now g2))))"

definition close_code :: "date \<Rightarrow> time \<Rightarrow> code_history_record \<Rightarrow> registry_repo \<Rightarrow> registry_repo" where
  "close_code before now e g =
     (if ch_valid_to e = None
      then append_code (e\<lparr>ch_valid_to := Some before, ch_knowledge_time := Some now, ch_version := ch_version e + 1\<rparr>) g
      else g)"

definition add_code_change ::
  "int \<Rightarrow> string \<Rightarrow> date option \<Rightarrow> time \<Rightarrow> registry_repo \<Rightarrow> registry_repo \<times> unit result" where
  "add_code_change eid new_code start_date now g =
     (case start_date of
        None \<Rightarrow> (g, Inl ValueError)
      | Some start \<Rightarrow>
          let before = start - 1; g1 = foldl (\<lambda>g e. close_code before now e g) g (code_history g eid)
          in case current_row g1 eid of
               Inl e \<Rightarrow> (g1, Inl e)
             | Inr current \<Rightarrow>
                 let g2 = close_row current (Some before) now g1;
                     g3 = append_code \<lparr>ch_entity_id = eid, ch_code = new_code, ch_valid_from = Some start,
                       ch_valid_to = None, ch_knowledge_time = Some now, ch_version = 1\<rparr> g2
                 in (append_row current (Some new_code) None (Some start) None [] now g3, Inr ()))"

subsection \<open>Relations and external ids\<close>

definition relation_types :: "registry \<Rightarrow> relation_type_record list" where
  "relation_types s = sort_key rt_relation_type (dict_values (svc_relation_types s))"

definition add_relation ::
  "int \<Rightarrow> int \<Rightarrow> string \<Rightarrow> date option \<Rightarrow> date option \<Rightarrow> time \<Rightarrow> registry \<Rightarrow> (registry \<times> relation_record) result" where
  "add_relation eid related_id relation_type valid_from valid_to now s =
     (if relation_type \<notin> set (dict_keys (svc_relation_types s)) then Inl ValueError
      else bind_result (require_entity (svc_repo s) eid) (\<lambda>_. bind_result (require_entity (svc_repo s) related_id) (\<lambda>_.
        case find (\<lambda>r. rel_related_id r = related_id \<and> rel_relation_type r = relation_type \<and> rel_valid_to r = None)
               (relation_rows (svc_repo s) eid) of
          Some row \<Rightarrow> Inr (s, row)
        | None \<Rightarrow>
            let record = \<lparr>rel_entity_id = eid, rel_related_id = related_id, rel_relation_type = relation_type,
                  rel_valid_from = Some (case valid_from of None \<Rightarrow> EPOCH | Some d \<Rightarrow> d), rel_valid_to = valid_to,
                  rel_knowledge_time = Some now, rel_version = 1\<rparr>
            in Inr (s\<lparr>svc_repo := append_relation record (svc_repo s)\<rparr>, record))))"

definition related_ids :: "registry \<Rightarrow> int \<Rightarrow> string \<Rightarrow> date option \<Rightarrow> int list result" where
  "related_ids s eid relation_type target =
     (case map_of (svc_relation_types s) relation_type of
        None \<Rightarrow> Inl ValueError
      | Some t \<Rightarrow>
          let forward = map rel_related_id (filter (\<lambda>r. rel_relation_type r = relation_type
                \<and> covers (rel_valid_from r) (rel_valid_to r) target) (relation_rows (svc_repo s) eid));
              backward = map rel_entity_id (filter (\<lambda>r. rel_relation_type r = rt_inverse_relation t
                \<and> covers (rel_valid_from r) (rel_valid_to r) target) (find_relations_by_related (svc_repo s) eid))
          in Inr (sorted_list_of_set (set forward \<union> set backward)))"

definition relations_of :: "registry \<Rightarrow> int \<Rightarrow> date option \<Rightarrow> relation_record list" where
  "relations_of s eid target = filter (\<lambda>r. covers (rel_valid_from r) (rel_valid_to r) target)
     (relation_rows (svc_repo s) eid @ find_relations_by_related (svc_repo s) eid)"

definition link_issuer :: "int \<Rightarrow> int \<Rightarrow> time \<Rightarrow> registry \<Rightarrow> (registry \<times> relation_record) result" where
  "link_issuer listing_id issuer_id now s =
     bind_result (require_entity (svc_repo s) issuer_id) (\<lambda>issuer.
       if er_entity_type issuer \<noteq> ''issuer'' then Inl ValueError
       else add_relation listing_id issuer_id ''issued_by'' None None now s)"

definition issuer_of :: "registry \<Rightarrow> int \<Rightarrow> int option result" where
  "issuer_of s listing_id = bind_result (related_ids s listing_id ''issued_by'' None)
     (\<lambda>ids. Inr (case ids of [] \<Rightarrow> None | i # _ \<Rightarrow> Some i))"

definition listings_of :: "registry \<Rightarrow> int \<Rightarrow> int list result" where
  "listings_of s issuer_id = related_ids s issuer_id ''issues'' None"

definition add_external_id ::
  "int \<Rightarrow> string \<Rightarrow> string \<Rightarrow> date option \<Rightarrow> date option \<Rightarrow> time \<Rightarrow> registry_repo \<Rightarrow> (registry_repo \<times> external_id_record) result" where
  "add_external_id eid id_type id_value valid_from valid_to now g =
     bind_result (require_entity g eid) (\<lambda>_. bind_result (facet id_type_values True (Some id_type)) (\<lambda>_.
       let value = strip id_value
       in if value = [] then Inl ValueError
          else case find (\<lambda>x. xid_id_type x = id_type \<and> xid_id_value x = value \<and> xid_valid_to x = None) (external_id_rows g eid) of
                 Some row \<Rightarrow> Inr (g, row)
               | None \<Rightarrow>
                   let record = \<lparr>xid_entity_id = eid, xid_id_type = id_type, xid_id_value = value,
                         xid_valid_from = Some (case valid_from of None \<Rightarrow> EPOCH | Some d \<Rightarrow> d), xid_valid_to = valid_to,
                         xid_knowledge_time = Some now, xid_version = 1\<rparr>
                   in Inr (append_external_id record g, record)))"

definition external_ids :: "registry_repo \<Rightarrow> int \<Rightarrow> date option \<Rightarrow> external_id_record list" where
  "external_ids g eid target = filter (\<lambda>x. covers (xid_valid_from x) (xid_valid_to x) target) (external_id_rows g eid)"

definition xid_order :: "external_id_record \<Rightarrow> date \<times> int" where
  "xid_order x = ((case xid_valid_from x of None \<Rightarrow> EPOCH | Some d \<Rightarrow> d), xid_version x)"

definition find_by_external_id :: "registry_repo \<Rightarrow> string \<Rightarrow> string \<Rightarrow> date option \<Rightarrow> int option result" where
  "find_by_external_id g id_type id_value target =
     bind_result (facet id_type_values True (Some id_type)) (\<lambda>_.
       Inr (map_option xid_entity_id (max_by xid_order
         (filter (\<lambda>x. covers (xid_valid_from x) (xid_valid_to x) target) (find_external_ids g id_type (strip id_value))))))"

subsection \<open>Build from the hub\<close>

record reference_row =
  ref_code :: raw_value
  ref_name :: string

record namechange_row =
  nc_code :: raw_value
  nc_name :: string
  nc_start :: "date option"
  nc_end :: "date option"
  nc_ann :: "string option"

definition KIND_ENTITY_TYPE :: "(string \<times> string) list" where
  "KIND_ENTITY_TYPE = [(''stock_list'', ''equity''), (''etf_list'', ''etf''), (''fund_list'', ''fund''), (''index_list'', ''index'')]"

definition venue :: "string \<Rightarrow> string" where
  "venue code = (if CHR ''.'' \<in> set code then upper (rev (takeWhile (\<lambda>c. c \<noteq> CHR ''.'') (rev code))) else [])"

definition market_from_code :: "string \<Rightarrow> string" where
  "market_from_code code =
     (if venue code = ''HK'' then ''hk'' else if venue code \<in> {''O'', ''N'', ''A''} then ''us'' else ''cn'')"

definition listing_type :: "string \<Rightarrow> string \<Rightarrow> string \<Rightarrow> string" where
  "listing_type kind code dflt =
     (if kind = ''fund_list'' \<and> venue code \<in> {''SH'', ''SZ'', ''BJ''} then ''lof'' else dflt)"

definition reference_registration :: "string \<Rightarrow> string \<Rightarrow> string \<Rightarrow> string \<Rightarrow> registration" where
  "reference_registration kind entity_type code name =
     \<lparr>in_code = code, in_entity_type = listing_type kind code entity_type, in_name = name, in_entity_class = None,
      in_market = Some (market_from_code code), in_currency = None, in_exchange = None, in_frequency = None,
      in_unit = None, in_algorithm_id = None, in_social_status = None, in_valid_from = None, in_attrs = None\<rparr>"

fun register_rows ::
  "(raw_value \<Rightarrow> string) \<Rightarrow> string \<Rightarrow> string \<Rightarrow> time \<Rightarrow> reference_row list \<Rightarrow> registry_repo \<times> build_stats
    \<Rightarrow> (registry_repo \<times> build_stats) result" where
  "register_rows to_str kind entity_type now [] st = Inr st"
| "register_rows to_str kind entity_type now (row # rows) (g, stats) =
     (case clean_code to_str (ref_code row) of
        None \<Rightarrow> register_rows to_str kind entity_type now rows (g, stats)
      | Some code \<Rightarrow>
          (case register_or_refresh (reference_registration kind entity_type code (ref_name row)) now g of
             Inl e \<Rightarrow> Inl e
           | Inr (g', _, created, updated) \<Rightarrow>
               register_rows to_str kind entity_type now rows
                 (g', stats\<lparr>bs_registered := bs_registered stats + (if created then 1 else 0),
                     bs_updated := bs_updated stats + (if updated then 1 else 0),
                     bs_skipped := bs_skipped stats + (if \<not> created \<and> \<not> updated then 1 else 0)\<rparr>)))"

text \<open>
  A hub call answers a frame (\<open>None\<close> when there is none), or raises; only an unsupported capability
  and a \<open>ValueError\<close> are caught.
\<close>

definition register_reference ::
  "(raw_value \<Rightarrow> string) \<Rightarrow> reference_row list option result \<Rightarrow> string \<Rightarrow> string \<Rightarrow> time \<Rightarrow> registry_repo \<times> build_stats
    \<Rightarrow> (registry_repo \<times> build_stats) result" where
  "register_reference to_str answer kind entity_type now st =
     (case answer of
        Inl e \<Rightarrow> if e \<in> {UnsupportedCapability, ValueError} then Inr st else Inl e
      | Inr None \<Rightarrow> Inr st
      | Inr (Some rows) \<Rightarrow> register_rows to_str kind entity_type now rows st)"

fun apply_namechanges ::
  "(raw_value \<Rightarrow> string) \<Rightarrow> time \<Rightarrow> namechange_row list \<Rightarrow> registry_repo \<times> build_stats \<Rightarrow> (registry_repo \<times> build_stats) result" where
  "apply_namechanges to_str now [] st = Inr st"
| "apply_namechanges to_str now (row # rows) (g, stats) =
     (case (case clean_code to_str (nc_code row) of None \<Rightarrow> None | Some code \<Rightarrow> resolve g code None) of
        None \<Rightarrow> apply_namechanges to_str now rows (g, stats\<lparr>bs_skipped := bs_skipped stats + 1\<rparr>)
      | Some eid \<Rightarrow>
          (case add_name_change eid (nc_name row) (nc_start row) (nc_end row) (nc_ann row) now g of
             Inl e \<Rightarrow> Inl e
           | Inr g' \<Rightarrow> apply_namechanges to_str now rows (g', stats\<lparr>bs_attributes := bs_attributes stats + 1\<rparr>)))"

fun register_kinds ::
  "(raw_value \<Rightarrow> string) \<Rightarrow> (string \<Rightarrow> reference_row list option result) \<Rightarrow> time \<Rightarrow> (string \<times> string) list \<Rightarrow> registry_repo \<times> build_stats
    \<Rightarrow> (registry_repo \<times> build_stats) result" where
  "register_kinds to_str get_reference now [] st = Inr st"
| "register_kinds to_str get_reference now ((kind, entity_type) # kinds) st =
     bind_result (register_reference to_str (get_reference kind) kind entity_type now st)
       (register_kinds to_str get_reference now kinds)"

definition build_from_hub ::
  "(raw_value \<Rightarrow> string) \<Rightarrow> (string \<Rightarrow> reference_row list option result) \<Rightarrow> namechange_row list option result option \<Rightarrow> time
    \<Rightarrow> registry_repo \<Rightarrow> (registry_repo \<times> build_stats) result" where
  "build_from_hub to_str get_reference namechanges now g =
     bind_result (register_kinds to_str get_reference now KIND_ENTITY_TYPE
         (g, \<lparr>bs_registered = 0, bs_updated = 0, bs_attributes = 0, bs_skipped = 0\<rparr>)) (\<lambda>st.
     bind_result (register_reference to_str (get_reference ''delist_list'') ''stock_list'' ''equity'' now st) (\<lambda>st.
       case namechanges of
         None \<Rightarrow> Inr st
       | Some (Inl e) \<Rightarrow> if e \<in> {UnsupportedCapability, ValueError} then Inr st else Inl e
       | Some (Inr None) \<Rightarrow> Inr st
       | Some (Inr (Some rows)) \<Rightarrow> apply_namechanges to_str now rows st))"

subsection \<open>The invariant\<close>

definition rows_ok :: "int \<Rightarrow> entity_record list \<Rightarrow> bool" where
  "rows_ok eid rows \<longleftrightarrow> (\<forall>r \<in> set rows. er_entity_id r = eid \<and> 1 \<le> er_version r)
     \<and> distinct (map er_version rows) \<and> (\<exists>r \<in> set rows. er_valid_to r = None)"

definition reg_inv :: "registry_repo \<Rightarrow> bool" where
  "reg_inv g \<longleftrightarrow> (\<forall>eid. entity_rows g eid \<noteq> [] \<longrightarrow> eid < reg_next_id g \<and> rows_ok eid (entity_rows g eid))
     \<and> (\<forall>c \<in> set (reg_codes g). entity_rows g (ch_entity_id c) \<noteq> [])"

lemma reg_inv_empty [simp]: "reg_inv (reg_empty n)"
  by (simp add: reg_inv_def reg_empty_def entity_rows_def)

lemma row_order_max_unique:
  assumes "distinct (map er_version rows)" and "max_by row_order rows = Some r" and "r' \<in> set rows" and "row_order r \<le> row_order r'"
  shows "r' = r"
proof -
  from max_by_Some [OF assms(2)] assms(3,4) have "row_order r' = row_order r" "r \<in> set rows" by (auto intro: antisym)
  with assms(1,3) show ?thesis by (auto simp: row_order_def distinct_map inj_on_def)
qed

lemma current_row_inv:
  assumes "reg_inv g" and "entity_rows g eid \<noteq> []"
  obtains r where "current_row g eid = Inr r" "r \<in> set (entity_rows g eid)" "er_valid_to r = None" "er_entity_id r = eid"
    "\<And>r'. r' \<in> set (entity_rows g eid) \<Longrightarrow> er_valid_to r' = None \<Longrightarrow> row_order r' \<le> row_order r"
proof -
  let ?open = "filter (\<lambda>r. er_valid_to r = None) (entity_rows g eid)"
  have ok: "rows_ok eid (entity_rows g eid)" using assms by (simp add: reg_inv_def)
  then have "?open \<noteq> []" by (auto simp: rows_ok_def filter_empty_conv)
  then obtain r where r: "max_by row_order ?open = Some r"
    using max_by_None [of row_order ?open] by (cases "max_by row_order ?open") auto
  have "current_row g eid = Inr r" using r \<open>?open \<noteq> []\<close> by (simp add: current_row_def Let_def)
  with max_by_Some [OF r] ok that [of r] show thesis by (auto simp: rows_ok_def)
qed

lemma next_version_new:
  assumes "rows_ok eid (entity_rows g eid)" and "r \<in> set (entity_rows g eid)"
  shows "er_version r < next_version g eid"
  using assms(2) by (simp add: next_version_def Max_ge le_imp_less_Suc less_le_trans zle_add1_eq_le)

text \<open>Appending a row of a known entity, with its next version, keeps the invariant.\<close>

lemma append_inv:
  assumes "reg_inv g" and "entity_rows g eid \<noteq> []" and "er_entity_id r = eid" and "er_version r = next_version g eid"
  shows "reg_inv (append_entity r g)"
proof -
  have ok: "rows_ok eid (entity_rows g eid)" using assms by (simp add: reg_inv_def)
  obtain r0 where r0: "r0 \<in> set (entity_rows g eid)" using assms(2) by fastforce
  have "1 \<le> er_version r" using next_version_new [OF ok r0] ok r0 assms(4) by (force simp: rows_ok_def)
  moreover have "er_version r \<notin> er_version ` set (entity_rows g eid)"
    using next_version_new [OF ok] assms(4) by force
  ultimately have "rows_ok eid (entity_rows g eid @ [r])" using ok assms(3) by (auto simp: rows_ok_def)
  with assms show ?thesis by (auto simp: reg_inv_def)
qed

lemma append_row_inv:
  "reg_inv g \<Longrightarrow> entity_rows g (er_entity_id base) \<noteq> [] \<Longrightarrow> reg_inv (append_row base c n vf vt x now g)"
  unfolding append_row_def by (rule append_inv [where eid = "er_entity_id base"]) (simp_all add: appended_row_def Let_def)

lemma close_row_inv:
  "reg_inv g \<Longrightarrow> entity_rows g (er_entity_id row) \<noteq> [] \<Longrightarrow> reg_inv (close_row row vt now g)"
  unfolding close_row_def by (rule append_inv [where eid = "er_entity_id row"]) simp_all

lemma append_code_inv: "reg_inv g \<Longrightarrow> entity_rows g (ch_entity_id c) \<noteq> [] \<Longrightarrow> reg_inv (append_code c g)"
  by (simp add: reg_inv_def)

lemma append_row_sel [simp]:
  "entity_rows (append_row base c n vf vt x now g) eid =
     (if eid = er_entity_id base then entity_rows g eid @ [appended_row base c n vf vt x now g] else entity_rows g eid)"
  "reg_codes (append_row base c n vf vt x now g) = reg_codes g"
  "reg_next_id (append_row base c n vf vt x now g) = reg_next_id g"
  by (simp_all add: append_row_def appended_row_def Let_def)

lemma close_row_sel [simp]:
  "entity_rows (close_row row vt now g) eid = (if eid = er_entity_id row then entity_rows g eid @
     [row\<lparr>er_valid_to := vt, er_knowledge_time := Some now, er_version := next_version g (er_entity_id row)\<rparr>] else entity_rows g eid)"
  "reg_codes (close_row row vt now g) = reg_codes g"
  "reg_next_id (close_row row vt now g) = reg_next_id g"
  by (simp_all add: close_row_def)

end
