(* ===== verification/Registry_Lemmas.thy ===== *)
theory Registry_Lemmas
  imports Registry_Service
begin

text \<open>
  What the operations of the entity registry promise: every sequence of calls keeps the
  invariant; registering is idempotent; a code resolves to its entity on the days it was in use;
  a name change is in force on its days and on no others; relations read the same from both ends.
\<close>

subsection \<open>Every operation keeps the invariant\<close>

lemma create_entity_inv:
  assumes "reg_inv g" and "create_entity a now g = Inr (g', r)"
  shows "reg_inv g' \<and> entity_rows g' (er_entity_id r) = [r] \<and> er_entity_id r = reg_next_id g
    \<and> reg_codes g' = reg_codes g @ [\<lparr>ch_entity_id = er_entity_id r, ch_code = in_code a, ch_valid_from = er_valid_from r,
        ch_valid_to = None, ch_knowledge_time = Some now, ch_version = 1\<rparr>]
    \<and> er_version r = 1 \<and> er_valid_to r = None \<and> er_code r = in_code a"
proof -
  have new: "entity_rows g (reg_next_id g) = []" using assms(1) by (force simp: reg_inv_def)
  from assms(2) obtain ec em ss where r: "r = \<lparr>er_entity_id = reg_next_id g, er_entity_type = in_entity_type a, er_code = in_code a,
                   er_name = in_name a, er_entity_class = ec, er_market = em,
                   er_currency = in_currency a, er_exchange = in_exchange a, er_frequency = in_frequency a,
                   er_unit = in_unit a, er_algorithm_id = in_algorithm_id a, er_social_status = ss,
                   er_valid_from = Some (case in_valid_from a of None \<Rightarrow> EPOCH | Some d \<Rightarrow> d), er_valid_to = None, er_knowledge_time = Some now,
                   er_version = 1, er_attrs = in_attrs a\<rparr>"
    and g': "g' = append_entity r (append_code \<lparr>ch_entity_id = reg_next_id g, ch_code = in_code a,
                   ch_valid_from = Some (case in_valid_from a of None \<Rightarrow> EPOCH | Some d \<Rightarrow> d),
                   ch_valid_to = None, ch_knowledge_time = Some now, ch_version = 1\<rparr> (g\<lparr>reg_next_id := reg_next_id g + 1\<rparr>))"
    by (auto simp: create_entity_def next_entity_id_def Let_def split: sum.splits if_splits)
  have rows: "entity_rows g' i = (if i = reg_next_id g then [r] else entity_rows g i)" for i
    using new by (simp add: g' r)
  have "reg_inv g'"
    using assms(1) unfolding reg_inv_def rows by (auto simp: g' r rows_ok_def)
  with rows show ?thesis by (simp add: g' r new)
qed

lemma refresh_cases:
  assumes "reg_inv g" and "entity_rows g eid \<noteq> []" and "refresh eid a now g = Inr (g', updated)"
  obtains (same) current where "current_row g eid = Inr current" "refreshed_row a current = Inr current" "g' = g" "\<not> updated"
  | (changed) current row where "current_row g eid = Inr current" "refreshed_row a current = Inr row" "updated" "row \<noteq> current"
      "g' = append_row row None None (er_valid_from current) None [] now g" "er_entity_id row = eid"
      "er_valid_from row = er_valid_from current" "er_version row = er_version current" "er_valid_to row = None"
proof -
  from current_row_inv [OF assms(1,2)] obtain c where c: "current_row g eid = Inr c" "er_entity_id c = eid" "er_valid_to c = None" by metis
  from assms(3) c(1) obtain row where row: "refreshed_row a c = Inr row"
    by (auto simp: refresh_def split: sum.splits)
  then have sel: "er_entity_id row = eid" "er_valid_from row = er_valid_from c" "er_version row = er_version c" "er_valid_to row = None"
    using c by (auto simp: refreshed_row_def Let_def split: sum.splits if_splits)
  show thesis
  proof (cases "row = c")
    case True
    with assms(3) c(1) row show thesis by (intro same [of c]) (auto simp: refresh_def)
  next
    case False
    with assms(3) c(1) row sel show thesis by (intro changed [of c row]) (auto simp: refresh_def)
  qed
qed

lemma refresh_inv:
  assumes "reg_inv g" and "entity_rows g eid \<noteq> []" and "refresh eid a now g = Inr (g', updated)"
  shows "reg_inv g' \<and> (\<forall>i. entity_rows g i \<noteq> [] \<longrightarrow> entity_rows g' i \<noteq> [])"
  using assms
proof (cases rule: refresh_cases)
  case (changed current row)
  with append_row_inv [of g row] assms show ?thesis by simp
qed (use assms in simp_all)

lemma find_in: "find P xs = Some x \<Longrightarrow> x \<in> set xs \<and> P x"
  by (induction xs) (auto split: if_splits)

lemma latest_codes_in: "set (dict_values (latest_codes es)) \<subseteq> set es"
proof (induction es rule: rev_induct)
  case (snoc e es)
  have "set (dict_values (AList.update k e d)) \<subseteq> insert e (set (dict_values d))" for k d
    by (induction d) auto
  moreover have "latest_codes (es @ [e]) = latest_codes es \<or> (\<exists>k. latest_codes (es @ [e]) = AList.update k e (latest_codes es))"
    by (simp add: latest_codes_def Let_def split: option.split) blast
  ultimately have "set (dict_values (latest_codes (es @ [e]))) \<subseteq> insert e (set (dict_values (latest_codes es)))"
    by (metis subset_insertI)
  also have "\<dots> \<subseteq> set (es @ [e])" using snoc by (simp add: subset_insertI2 insert_mono)
  finally show ?case .
qed (simp add: latest_codes_def)

lemma resolve_known:
  assumes "reg_inv g" and "resolve g code t = Some eid"
  shows "entity_rows g eid \<noteq> []"
proof -
  from assms(2) obtain c where "find (code_valid t) (sort_key code_order (dict_values (latest_codes (find_by_code g code)))) = Some c"
    "eid = ch_entity_id c" by (auto simp: resolve_def)
  with find_in [OF this(1)] have "c \<in> set (find_by_code g code)" using latest_codes_in by auto
  with assms(1) \<open>eid = ch_entity_id c\<close> show ?thesis by (auto simp: find_by_code_def reg_inv_def)
qed

lemma register_or_refresh_inv:
  assumes "reg_inv g" and "register_or_refresh a now g = Inr (g', r, created, updated)"
  shows "reg_inv g' \<and> (\<forall>i. entity_rows g i \<noteq> [] \<longrightarrow> entity_rows g' i \<noteq> [])"
proof (cases "resolve g (in_code a) None")
  case None
  with assms(2) have c: "create_entity a now g = Inr (g', r)"
    by (auto simp: register_or_refresh_def split: sum.splits)
  then have "entity_rows g' i = entity_rows g i \<or> entity_rows g' i \<noteq> []" for i
    by (auto simp: create_entity_def next_entity_id_def Let_def split: sum.splits if_splits)
  with create_entity_inv [OF assms(1) c] show ?thesis by metis
next
  case (Some eid)
  with assms(2) obtain u where "refresh eid a now g = Inr (g', u)"
    by (auto simp: register_or_refresh_def split: sum.splits)
  from refresh_inv [OF assms(1) resolve_known [OF assms(1) Some] this] show ?thesis .
qed

lemma covering_row_in: "covering_row g eid (Some d) = Some p \<Longrightarrow>
    p \<in> set (entity_rows g eid) \<and> covers (er_valid_from p) (er_valid_to p) (Some d)"
  using max_by_Some(1) [of row_order "filter (\<lambda>r. covers (er_valid_from r) (er_valid_to r) (Some d)) (entity_rows g eid)" p]
  by (auto simp: covering_row_def split: if_splits)

lemma add_name_change_cases:
  assumes "reg_inv g" and "add_name_change eid name start_date end_date ann now g = Inr g'"
  obtains start g1 current resume where "start_date = Some start" "entity_rows g eid \<noteq> []" "reg_inv g1"
    "g1 = g \<and> (\<forall>p. covering_row g eid (Some (start - 1)) = Some p \<longrightarrow> er_valid_to p = Some (start - 1))
     \<or> (\<exists>p. covering_row g eid (Some (start - 1)) = Some p \<and> g1 = close_row p (Some (start - 1)) now g)"
    "current_row g1 eid = Inr current" "er_entity_id current = eid"
    "case covering_row g eid (Some (start - 1)) of Some p \<Rightarrow> resume = er_name p
     | None \<Rightarrow> (\<exists>c. current_row g eid = Inr c \<and> resume = er_name c)"
    "g' = (let g2 = append_row current None (Some name) (Some start) end_date
                      (case ann of Some t \<Rightarrow> [(''ann_date'', t)] | None \<Rightarrow> []) now g1
           in case end_date of None \<Rightarrow> g2 | Some e \<Rightarrow> append_row current None (Some resume) (Some (e + 1)) None [] now g2)"
proof -
  from assms(2) obtain start where start: "start_date = Some start" by (auto simp: add_name_change_def split: option.splits)
  let ?p = "covering_row g eid (Some (start - 1))"
  have ne: "entity_rows g eid \<noteq> []"
  proof
    assume "entity_rows g eid = []"
    then have "current_row g eid = Inl KeyError" "?p = None" by (simp_all add: current_row_def covering_row_def)
    with assms(2) start show False by (simp add: add_name_change_def)
  qed
  define g1 where "g1 = (case ?p of
                   Some p \<Rightarrow> if (case er_valid_to p of None \<Rightarrow> True | Some v \<Rightarrow> start - 1 < v)
                             then close_row p (Some (start - 1)) now g else g
                 | None \<Rightarrow> g)"
  have id: "er_entity_id p = eid" if "?p = Some p" for p
    using covering_row_in [OF that] assms(1) ne by (auto simp: reg_inv_def rows_ok_def)
  have i1: "reg_inv g1" unfolding g1_def using assms(1) ne id by (auto intro: close_row_inv split: option.splits)
  have ne1: "entity_rows g1 eid \<noteq> []" using ne by (auto simp: g1_def split: option.splits)
  have form: "g1 = g \<and> (\<forall>p. ?p = Some p \<longrightarrow> er_valid_to p = Some (start - 1))
     \<or> (\<exists>p. ?p = Some p \<and> g1 = close_row p (Some (start - 1)) now g)"
  proof (cases ?p)
    case None
    then show ?thesis by (simp add: g1_def)
  next
    case (Some p)
    with covering_row_in [OF Some] show ?thesis
      by (auto simp: g1_def covers_def split: option.splits if_splits)
  qed
  from current_row_inv [OF i1 ne1] obtain c where c: "current_row g1 eid = Inr c" "er_entity_id c = eid" by metis
  from current_row_inv [OF assms(1) ne] obtain c0 where c0: "current_row g eid = Inr c0" by metis
  define resume where "resume = (case ?p of Some p \<Rightarrow> er_name p | None \<Rightarrow> er_name c0)"
  from assms(2) start have "g' = (let g2 = append_row c None (Some name) (Some start) end_date
                      (case ann of Some t \<Rightarrow> [(''ann_date'', t)] | None \<Rightarrow> []) now g1
           in case end_date of None \<Rightarrow> g2 | Some e \<Rightarrow> append_row c None (Some resume) (Some (e + 1)) None [] now g2)"
    using c(1) c0 unfolding g1_def resume_def
    by (cases ?p; cases end_date) (simp_all add: add_name_change_def Let_def)
  with start ne i1 form c show thesis
    by (intro that [of start g1 c resume]) (auto simp: resume_def c0 split: option.splits)
qed

lemma add_name_change_inv:
  assumes "reg_inv g" and "add_name_change eid name start_date end_date ann now g = Inr g'"
  shows "reg_inv g' \<and> (\<forall>i. entity_rows g i \<noteq> [] \<longrightarrow> entity_rows g' i \<noteq> [])"
  using assms
proof (cases rule: add_name_change_cases)
  case (1 start g1 current resume)
  have keep: "entity_rows g i \<noteq> [] \<Longrightarrow> entity_rows g1 i \<noteq> []" for i using 1(4) by (auto split: if_splits)
  let ?g2 = "append_row current None (Some name) (Some start) end_date (case ann of Some t \<Rightarrow> [(''ann_date'', t)] | None \<Rightarrow> []) now g1"
  have 2: "reg_inv ?g2" using append_row_inv [OF 1(3)] keep [OF 1(2)] 1(6) by simp
  show ?thesis
  proof (cases end_date)
    case None
    with 1(8) 2 keep show ?thesis by simp
  next
    case (Some e)
    have "reg_inv (append_row current None (Some resume) (Some (e + 1)) None [] now ?g2)"
      using keep [OF 1(2)] 1(6) by (intro append_row_inv [OF 2]) simp
    with Some 1(8) keep show ?thesis by simp
  qed
qed

lemma close_codes:
  assumes "reg_inv g" and "\<forall>c \<in> set cs. entity_rows g (ch_entity_id c) \<noteq> []"
  shows "reg_inv (foldl (\<lambda>g e. close_code before now e g) g cs)
    \<and> (\<forall>i. entity_rows (foldl (\<lambda>g e. close_code before now e g) g cs) i = entity_rows g i)
    \<and> reg_next_id (foldl (\<lambda>g e. close_code before now e g) g cs) = reg_next_id g
    \<and> reg_codes (foldl (\<lambda>g e. close_code before now e g) g cs) = reg_codes g @
        map (\<lambda>e. e\<lparr>ch_valid_to := Some before, ch_knowledge_time := Some now, ch_version := ch_version e + 1\<rparr>)
          (filter (\<lambda>e. ch_valid_to e = None) cs)"
  using assms
proof (induction cs arbitrary: g)
  case (Cons c cs)
  have "reg_inv (close_code before now c g)" "\<And>i. entity_rows (close_code before now c g) i = entity_rows g i"
    using Cons.prems by (auto simp: close_code_def intro!: append_code_inv)
  with Cons.IH [of "close_code before now c g"] Cons.prems show ?case
    by (simp add: close_code_def)
qed simp

lemma add_code_change_inv:
  assumes "reg_inv g" and "add_code_change eid code start_date now g = (g', res)"
  shows "reg_inv g' \<and> (\<forall>i. entity_rows g i \<noteq> [] \<longrightarrow> entity_rows g' i \<noteq> [])"
proof (cases start_date)
  case None
  with assms show ?thesis by (simp add: add_code_change_def)
next
  case (Some start)
  let ?g1 = "foldl (\<lambda>g e. close_code (start - 1) now e g) g (code_history g eid)"
  have "\<forall>c \<in> set (code_history g eid). entity_rows g (ch_entity_id c) \<noteq> []"
    using assms(1) by (auto simp: code_history_def reg_inv_def)
  note g1 = close_codes [OF assms(1) this, of "start - 1" now]
  show ?thesis
  proof (cases "current_row ?g1 eid")
    case (Inl e)
    with assms(2) Some g1 show ?thesis by (auto simp: add_code_change_def)
  next
    case (Inr c)
    then have ne: "entity_rows ?g1 eid \<noteq> []" by (auto simp: current_row_def)
    from current_row_inv [OF conjunct1 [OF g1] ne] Inr have id: "er_entity_id c = eid" by (metis sum.inject(2))
    have "reg_inv (close_row c (Some (start - 1)) now ?g1)"
      using close_row_inv [OF conjunct1 [OF g1]] ne id by simp
    then have "reg_inv (append_code \<lparr>ch_entity_id = eid, ch_code = code, ch_valid_from = Some start,
                       ch_valid_to = None, ch_knowledge_time = Some now, ch_version = 1\<rparr> (close_row c (Some (start - 1)) now ?g1))"
      by (rule append_code_inv) (simp add: id)
    from append_row_inv [OF this, of c "Some code" None "Some start" None "[]" now] id Inr Some assms(2) g1 show ?thesis
      by (auto simp: add_code_change_def Let_def split: if_splits)
  qed
qed

subsection \<open>Registering twice\<close>

lemma latest_codes_snoc:
  "latest_codes (es @ [e]) = latest_codes es \<and> es \<noteq> [] \<or> (\<exists>k. latest_codes (es @ [e]) = AList.update k e (latest_codes es))"
  by (cases "es = []") (auto simp: latest_codes_def Let_def split: option.split)

lemma latest_codes_Nil [simp]: "latest_codes es = [] \<longleftrightarrow> es = []"
proof (induction es rule: rev_induct)
  case (snoc e es)
  have "AList.update k e d \<noteq> []" for k d by (cases d) auto
  with latest_codes_snoc [of es e] snoc show ?case by auto
qed (simp add: latest_codes_def)

lemma resolve_None_iff: "resolve g code None = None \<longleftrightarrow> find_by_code g code = []"
proof -
  have "find (code_valid None) xs = None \<longleftrightarrow> xs = []" for xs by (cases xs) (auto simp: code_valid_def)
  then show ?thesis by (simp add: resolve_def)
qed

lemma resolve_codes: "reg_codes g' = reg_codes g \<Longrightarrow> resolve g' code t = resolve g code t"
  by (simp add: resolve_def find_by_code_def)

lemma latest_codes_single: "latest_codes [c] = [((ch_entity_id c, ch_code c, ch_valid_from c), c)]"
  by (simp add: latest_codes_def)

lemma resolve_single:
  "find_by_code g code = [c] \<Longrightarrow> resolve g code t = (if code_valid t c then Some (ch_entity_id c) else None)"
  by (simp add: resolve_def latest_codes_single)

lemma facet_Inr: "facet vals req v = Inr x \<Longrightarrow> x = v"
  by (auto simp: facet_def split: option.splits if_splits)

lemma refreshed_row_Inr:
  assumes "refreshed_row a c = Inr row"
  shows "facet entity_class_values False (in_entity_class a) = Inr (in_entity_class a)"
    and "facet market_values False (in_market a) = Inr (in_market a)"
    and "facet social_status_values False (in_social_status a) = Inr (in_social_status a)"
    and "in_social_status a = None \<or> er_entity_type c = ''issuer''"
    and "row = c\<lparr>er_name := (if in_name a \<noteq> [] then in_name a else er_name c),
              er_entity_class := pick (in_entity_class a) (er_entity_class c),
              er_market := pick (in_market a) (er_market c),
              er_social_status := pick (in_social_status a) (er_social_status c),
              er_currency := pick (in_currency a) (er_currency c),
              er_exchange := pick (in_exchange a) (er_exchange c),
              er_frequency := pick (in_frequency a) (er_frequency c),
              er_unit := pick (in_unit a) (er_unit c),
              er_algorithm_id := pick (in_algorithm_id a) (er_algorithm_id c)\<rparr>"
  using assms facet_Inr [of entity_class_values False "in_entity_class a"] facet_Inr [of market_values False "in_market a"]
    facet_Inr [of social_status_values False "in_social_status a"]
  by (auto simp: refreshed_row_def split: sum.splits if_splits)

lemma refreshed_row_again:
  assumes "refreshed_row a c = Inr row"
  shows "refreshed_row a (row\<lparr>er_valid_to := vt, er_knowledge_time := kt, er_version := v, er_attrs := at\<rparr>)
    = Inr (row\<lparr>er_valid_to := vt, er_knowledge_time := kt, er_version := v, er_attrs := at\<rparr>)"
  using refreshed_row_Inr (4) [OF assms]
  by (simp add: refreshed_row_def refreshed_row_Inr (1,2,3) [OF assms] refreshed_row_Inr (5) [OF assms])

lemma create_entity_Inr:
  assumes "create_entity a now g = Inr (g', r)"
  shows "facet entity_class_values False (in_entity_class a) = Inr (in_entity_class a)"
    and "facet market_values False (in_market a) = Inr (in_market a)"
    and "facet social_status_values False (in_social_status a) = Inr (in_social_status a)"
    and "in_social_status a = None \<or> in_entity_type a = ''issuer''"
    and "r = \<lparr>er_entity_id = reg_next_id g, er_entity_type = in_entity_type a, er_code = in_code a,
                   er_name = in_name a, er_entity_class = in_entity_class a, er_market = in_market a,
                   er_currency = in_currency a, er_exchange = in_exchange a, er_frequency = in_frequency a,
                   er_unit = in_unit a, er_algorithm_id = in_algorithm_id a,
                   er_social_status = (if in_entity_type a = ''issuer'' \<and> in_social_status a = None
                     then Some ''operating'' else in_social_status a),
                   er_valid_from = Some (case in_valid_from a of None \<Rightarrow> EPOCH | Some d \<Rightarrow> d), er_valid_to = None,
                   er_knowledge_time = Some now, er_version = 1, er_attrs = in_attrs a\<rparr>"
  using assms facet_Inr [of entity_class_values False "in_entity_class a"] facet_Inr [of market_values False "in_market a"]
    facet_Inr [of social_status_values False "in_social_status a"]
  by (auto simp: create_entity_def next_entity_id_def Let_def split: sum.splits if_splits)

lemma created_row_again:
  assumes "create_entity a now g = Inr (g', r)"
  shows "refreshed_row a r = Inr r"
  using create_entity_Inr (4) [OF assms]
  by (simp add: refreshed_row_def create_entity_Inr (1,2,3) [OF assms] create_entity_Inr (5) [OF assms])

lemma current_row_append:
  assumes "reg_inv g" and "current_row g eid = Inr c" and "entity_rows g eid \<noteq> []"
    and "entity_rows g' eid = entity_rows g eid @ [r]" and "er_valid_to r = None" and "er_valid_from r = er_valid_from c"
    and "er_version r = next_version g eid"
  shows "current_row g' eid = Inr r"
proof -
  let ?open = "filter (\<lambda>r. er_valid_to r = None) (entity_rows g eid)"
  from current_row_inv [OF assms(1,3)] assms(2) have c: "c \<in> set (entity_rows g eid)"
    "\<And>r'. r' \<in> set (entity_rows g eid) \<Longrightarrow> er_valid_to r' = None \<Longrightarrow> row_order r' \<le> row_order c"
    by (metis sum.inject(2))+
  have ok: "rows_ok eid (entity_rows g eid)" using assms(1,3) by (simp add: reg_inv_def)
  have "row_order c < row_order r"
    using next_version_new [OF ok c(1)] assms(6,7) by (simp add: row_order_def)
  then have "max_by row_order (?open @ [r]) = Some r"
    using c(2) by (intro max_by_unique) (auto intro: le_less_trans)
  then show ?thesis by (simp add: current_row_def assms(4,5) Let_def)
qed

lemma register_twice:
  assumes "reg_inv g" and "register_entity a now g = Inr (g', r)"
  shows "register_entity a now' g' = Inr (g', r)"
proof (cases "resolve g (in_code a) None")
  case None
  with assms(2) have c: "create_entity a now g = Inr (g', r)"
    by (auto simp: register_entity_def register_or_refresh_def split: sum.splits prod.splits)
  note ci = create_entity_inv [OF assms(1) c]
  have "find_by_code g' (in_code a) = [\<lparr>ch_entity_id = er_entity_id r, ch_code = in_code a, ch_valid_from = er_valid_from r,
        ch_valid_to = None, ch_knowledge_time = Some now, ch_version = 1\<rparr>]"
    using None ci by (simp add: resolve_None_iff find_by_code_def)
  then have "resolve g' (in_code a) None = Some (er_entity_id r)" by (simp add: resolve_single code_valid_def)
  moreover have "current_row g' (er_entity_id r) = Inr r"
    using conjunct1 [OF conjunct2 [OF ci]] conjunct1 [OF conjunct2 [OF conjunct2 [OF conjunct2 [OF conjunct2 [OF conjunct2 [OF ci]]]]]]
    unfolding current_row_def by (simp only: Let_def) simp
  ultimately show ?thesis
    using created_row_again [OF c] by (simp add: register_entity_def register_or_refresh_def refresh_def)
next
  case (Some eid)
  with assms(2) obtain u where u: "refresh eid a now g = Inr (g', u)" and cur: "current_row g' eid = Inr r"
    by (auto simp: register_entity_def register_or_refresh_def split: sum.splits prod.splits)
  note ne = resolve_known [OF assms(1) Some]
  have again: "refreshed_row a r = Inr r" and codes: "reg_codes g' = reg_codes g"
  proof -
    from assms(1) ne u have "refreshed_row a r = Inr r \<and> reg_codes g' = reg_codes g"
    proof (cases rule: refresh_cases)
      case (same current)
      with cur show ?thesis by simp
    next
      case (changed current row)
      let ?new = "appended_row row None None (er_valid_from current) None [] now g"
      have "entity_rows g' eid = entity_rows g eid @ [?new]" using changed(5,6) by simp
      moreover have "er_valid_to ?new = None" "er_valid_from ?new = er_valid_from current" "er_version ?new = next_version g eid"
        using changed(6,7) by (simp_all add: appended_row_def Let_def split: option.splits)
      ultimately have "current_row g' eid = Inr ?new"
        using current_row_append [OF assms(1) changed(1) ne] by simp
      then have r: "r = ?new" using cur by simp
      have "?new = row\<lparr>er_valid_to := None, er_knowledge_time := er_knowledge_time ?new, er_version := er_version ?new, er_attrs := er_attrs ?new\<rparr>"
        using changed(7) by (simp add: appended_row_def Let_def split: option.splits)
      with refreshed_row_again [OF changed(2), where vt = None and kt = "er_knowledge_time ?new" and v = "er_version ?new" and at = "er_attrs ?new"] r
      show ?thesis using changed(5) by simp
    qed
    then show "refreshed_row a r = Inr r" "reg_codes g' = reg_codes g" by simp_all
  qed
  have "resolve g' (in_code a) None = Some eid" using resolve_codes [OF codes] Some by simp
  with again cur show ?thesis by (simp add: register_entity_def register_or_refresh_def refresh_def)
qed

subsection \<open>Code changes\<close>

lemma add_code_change_codes:
  assumes "reg_inv g" and "add_code_change eid code (Some start) now g = (g', Inr ())"
  shows "reg_codes g' = reg_codes g
     @ map (\<lambda>e. e\<lparr>ch_valid_to := Some (start - 1), ch_knowledge_time := Some now, ch_version := ch_version e + 1\<rparr>)
          (filter (\<lambda>e. ch_valid_to e = None) (code_history g eid))
     @ [\<lparr>ch_entity_id = eid, ch_code = code, ch_valid_from = Some start, ch_valid_to = None,
         ch_knowledge_time = Some now, ch_version = 1\<rparr>]"
proof -
  have "\<forall>c \<in> set (code_history g eid). entity_rows g (ch_entity_id c) \<noteq> []"
    using assms(1) by (auto simp: code_history_def reg_inv_def)
  from close_codes [OF assms(1) this, of "start - 1" now] assms(2) show ?thesis
    by (auto simp: add_code_change_def Let_def split: sum.splits)
qed

text \<open>
  The old code had one open entry and the new code none: from the change on, the new code is the
  entity's, before it the old one is, and without a day both are.
\<close>

lemma resolve_changed:
  assumes "reg_inv g" and "add_code_change eid new (Some start) now g = (g', Inr ())"
    and "find_by_code g old = [e]" and "ch_entity_id e = eid" and "ch_valid_to e = None" and "ch_valid_from e = Some f"
    and "find_by_code g new = []" and "new \<noteq> old"
  shows "resolve g' old t = (case t of None \<Rightarrow> Some eid | Some d \<Rightarrow> if f \<le> d \<and> d < start then Some eid else None)"
    and "resolve g' new t = (case t of None \<Rightarrow> Some eid | Some d \<Rightarrow> if start \<le> d then Some eid else None)"
proof -
  let ?e' = "e\<lparr>ch_valid_to := Some (start - 1), ch_knowledge_time := Some now, ch_version := ch_version e + 1\<rparr>"
  let ?close = "\<lambda>e. e\<lparr>ch_valid_to := Some (start - 1), ch_knowledge_time := Some now, ch_version := ch_version e + 1\<rparr>"
  let ?open = "filter (\<lambda>e. ch_valid_to e = None) (code_history g eid)"
  have codes: "reg_codes g' = reg_codes g @ map ?close ?open @ [\<lparr>ch_entity_id = eid, ch_code = new,
      ch_valid_from = Some start, ch_valid_to = None, ch_knowledge_time = Some now, ch_version = 1\<rparr>]"
    using add_code_change_codes [OF assms(1,2)] by simp
  have swap: "filter (\<lambda>c. ch_code c = code) ?open = filter (\<lambda>e. ch_valid_to e = None \<and> ch_entity_id e = eid) (find_by_code g code)" for code
    by (simp add: find_by_code_def code_history_def conj_commute conj_left_commute)
  have closed: "filter (\<lambda>c. ch_code c = code) (map ?close ?open) = map ?close (filter (\<lambda>c. ch_code c = code) ?open)" for code
    by (simp add: filter_map o_def)
  have ce: "ch_code e = old" using assms(3) by (auto simp: find_by_code_def filter_eq_Cons_iff)
  have old: "find_by_code g' old = [e, ?e']"
    using assms(3,4,5,8) closed [of old] swap [of old] by (simp add: find_by_code_def codes)
  have new: "find_by_code g' new = [\<lparr>ch_entity_id = eid, ch_code = new,
      ch_valid_from = Some start, ch_valid_to = None, ch_knowledge_time = Some now, ch_version = 1\<rparr>]"
    using assms(7) closed [of new] swap [of new] by (simp add: find_by_code_def codes)
  have "latest_codes [e, ?e'] = [((eid, old, Some f), ?e')]"
    using assms(4,6) ce by (simp add: latest_codes_def)
  then show "resolve g' old t = (case t of None \<Rightarrow> Some eid | Some d \<Rightarrow> if f \<le> d \<and> d < start then Some eid else None)"
    using assms(4,6) by (auto simp: resolve_def old code_valid_def split: option.splits)
  show "resolve g' new t = (case t of None \<Rightarrow> Some eid | Some d \<Rightarrow> if start \<le> d then Some eid else None)"
    by (auto simp: resolve_single [OF new] code_valid_def split: option.splits)
qed

end
