(* ===== verification/Registry_Properties.thy ===== *)
theory Registry_Properties
  imports Registry_Lemmas
begin

text \<open>
  What is claimed of the entity registry: the history is append-only and well-formed under any calls,
  registration is idempotent, codes resolve by date, the names follow an abstract timeline, and relations
  read the same from both ends.
\<close>

subsection \<open>Sequences of calls\<close>

datatype registry_call =
    Register registration time
  | NameChange int string "date option" "date option" "string option" time
  | CodeChange int string "date option" time

fun registry_exec :: "registry_call \<Rightarrow> registry_repo \<Rightarrow> registry_repo" where
  "registry_exec (Register a now) g = (case register_entity a now g of Inl _ \<Rightarrow> g | Inr (g', _) \<Rightarrow> g')"
| "registry_exec (NameChange eid name s e ann now) g =
     (case add_name_change eid name s e ann now g of Inl _ \<Rightarrow> g | Inr g' \<Rightarrow> g')"
| "registry_exec (CodeChange eid code s now) g = fst (add_code_change eid code s now g)"

definition registry_run :: "registry_call list \<Rightarrow> registry_repo \<Rightarrow> registry_repo" where
  "registry_run cs g = foldl (\<lambda>g c. registry_exec c g) g cs"

lemma registry_exec_inv:
  assumes "reg_inv g"
  shows "reg_inv (registry_exec c g)"
proof (cases c)
  case (Register a now)
  with register_or_refresh_inv [OF assms, of a now] assms show ?thesis
    by (auto simp: register_entity_def split: sum.splits)
next
  case (NameChange eid name s e ann now)
  with add_name_change_inv [OF assms, of eid name s e ann now] assms show ?thesis by (auto split: sum.splits)
next
  case (CodeChange eid code s now)
  obtain g' res where "add_code_change eid code s now g = (g', res)" by (metis prod.exhaust)
  with add_code_change_inv [OF assms this] CodeChange show ?thesis by simp
qed

lemma registry_run_inv: "reg_inv g \<Longrightarrow> reg_inv (registry_run cs g)"
  unfolding registry_run_def by (induction cs arbitrary: g) (simp_all add: registry_exec_inv)

text \<open>The rows of every entity only grow at their end.\<close>

definition reg_extends :: "registry_repo \<Rightarrow> registry_repo \<Rightarrow> bool" where
  "reg_extends g g' \<longleftrightarrow> (\<forall>i. \<exists>zs. entity_rows g' i = entity_rows g i @ zs)"

lemma reg_extends_refl [simp]: "reg_extends g g"
  by (simp add: reg_extends_def)

lemma reg_extends_trans [trans]: "reg_extends g1 g2 \<Longrightarrow> reg_extends g2 g3 \<Longrightarrow> reg_extends g1 g3"
  unfolding reg_extends_def by (metis append.assoc)

lemma reg_extends_append [simp]:
  "reg_extends g (append_row base c n vf vt x now g)" "reg_extends g (close_row row t now g)"
  by (auto simp: reg_extends_def)

lemma reg_extends_same: "(\<And>i. entity_rows g' i = entity_rows g i) \<Longrightarrow> reg_extends g g'"
  by (simp add: reg_extends_def)

lemma registry_exec_extends:
  assumes "reg_inv g"
  shows "reg_extends g (registry_exec c g)"
proof (cases c)
  case (Register a now)
  show ?thesis
  proof (cases "register_entity a now g")
    case (Inl e)
    with Register show ?thesis by simp
  next
    case (Inr p)
    obtain g' r where p: "p = (g', r)" by (cases p)
    have "reg_extends g g'"
    proof (cases "resolve g (in_code a) None")
      case None
      with Inr p have "create_entity a now g = Inr (g', r)"
        by (auto simp: register_entity_def register_or_refresh_def split: sum.splits prod.splits)
      then show ?thesis
        by (auto simp: reg_extends_def create_entity_def next_entity_id_def Let_def split: sum.splits if_splits)
    next
      case (Some eid)
      with Inr p obtain u where u: "refresh eid a now g = Inr (g', u)"
        by (auto simp: register_entity_def register_or_refresh_def split: sum.splits prod.splits)
      from assms resolve_known [OF assms Some] u show ?thesis by (cases rule: refresh_cases) simp_all
    qed
    with Register Inr p show ?thesis by simp
  qed
next
  case (NameChange eid name s e ann now)
  show ?thesis
  proof (cases "add_name_change eid name s e ann now g")
    case (Inl err)
    with NameChange show ?thesis by simp
  next
    case (Inr g')
    from assms Inr have "reg_extends g g'"
    proof (cases rule: add_name_change_cases)
      case (1 start g1 current resume)
      have "reg_extends g g1" using 1(4) by auto
      also have "reg_extends g1 g'"
        unfolding 1(8) Let_def by (auto split: option.split intro: reg_extends_trans [OF reg_extends_append(1) reg_extends_append(1)])
      finally show ?thesis .
    qed
    with NameChange Inr show ?thesis by simp
  qed
next
  case (CodeChange eid code s now)
  show ?thesis
  proof (cases s)
    case None
    with CodeChange show ?thesis by (simp add: add_code_change_def)
  next
    case (Some start)
    let ?g1 = "foldl (\<lambda>g e. close_code (start - 1) now e g) g (code_history g eid)"
    have "\<forall>c \<in> set (code_history g eid). entity_rows g (ch_entity_id c) \<noteq> []"
      using assms by (auto simp: code_history_def reg_inv_def)
    from close_codes [OF assms this, of "start - 1" now] have "\<forall>i. entity_rows ?g1 i = entity_rows g i" by blast
    then show ?thesis unfolding reg_extends_def
      by (auto simp: CodeChange Some add_code_change_def Let_def split: sum.splits)
  qed
qed

lemma registry_run_extends: "reg_inv g \<Longrightarrow> reg_extends g (registry_run cs g)"
proof (induction cs arbitrary: g)
  case (Cons c cs)
  from registry_exec_extends [OF Cons.prems] Cons.IH [OF registry_exec_inv [OF Cons.prems]]
  have "reg_extends g (registry_run cs (registry_exec c g))" by (rule reg_extends_trans)
  then show ?case by (simp add: registry_run_def)
qed (simp add: registry_run_def)

lemma registry_run_append: "registry_run (cs @ ds) g = registry_run ds (registry_run cs g)"
  by (simp add: registry_run_def)

text \<open>C12. The identity history is append-only and stays well-formed: under any sequence of registrations,
  name changes and code changes, the rows of an entity are never altered or dropped, their versions
  are distinct, and an entity that exists always has a current row with an open interval.\<close>

theorem registry_keeps_history:
  "let g = registry_run cs (reg_empty n); g' = registry_run (cs @ ds) (reg_empty n) in
     (\<exists>new. entity_rows g' eid = entity_rows g eid @ new)
     \<and> distinct (map er_version (entity_rows g' eid))
     \<and> (entity_rows g' eid = [] \<or> eid < reg_next_id g'
          \<and> (\<exists>r \<in> set (entity_rows g' eid). current_row g' eid = Inr r \<and> er_valid_to r = None \<and> er_entity_id r = eid))"
proof -
  let ?g = "registry_run cs (reg_empty n)" let ?g' = "registry_run (cs @ ds) (reg_empty n)"
  have i: "reg_inv ?g" "reg_inv ?g'" by (simp_all add: registry_run_inv)
  then have "reg_extends ?g ?g'" by (simp add: registry_run_append registry_run_extends)
  moreover have "distinct (map er_version (entity_rows ?g' eid))"
    using i(2) by (cases "entity_rows ?g' eid = []") (auto simp: reg_inv_def rows_ok_def)
  moreover have "entity_rows ?g' eid = [] \<or> eid < reg_next_id ?g'
          \<and> (\<exists>r \<in> set (entity_rows ?g' eid). current_row ?g' eid = Inr r \<and> er_valid_to r = None \<and> er_entity_id r = eid)"
  proof (cases "entity_rows ?g' eid = []")
    case False
    from current_row_inv [OF i(2) False] show ?thesis using i(2) False by (metis reg_inv_def)
  qed simp
  ultimately show ?thesis by (simp add: Let_def reg_extends_def)
qed

text \<open>Registering is idempotent: registering the same data again returns the same record and changes
  nothing, whether the first call created the entity or refreshed it.\<close>

theorem register_idempotent:
  assumes "register_entity a now (registry_run cs (reg_empty n)) = Inr (g', r)"
  shows "register_entity a now' g' = Inr (g', r)"
  by (rule register_twice [OF _ assms]) (simp add: registry_run_inv)

definition sample_registration :: "string \<Rightarrow> string \<Rightarrow> registration" where
  "sample_registration code name = \<lparr>in_code = code, in_entity_type = ''equity'', in_name = name, in_entity_class = None,
     in_market = Some ''cn'', in_currency = None, in_exchange = None, in_frequency = None, in_unit = None,
     in_algorithm_id = None, in_social_status = None, in_valid_from = None, in_attrs = None\<rparr>"

definition sample_row :: "string \<Rightarrow> string \<Rightarrow> entity_record" where
  "sample_row code name = \<lparr>er_entity_id = 1, er_entity_type = ''equity'', er_code = code, er_name = name,
     er_entity_class = None, er_market = Some ''cn'', er_currency = None, er_exchange = None, er_frequency = None,
     er_unit = None, er_algorithm_id = None, er_social_status = None, er_valid_from = Some EPOCH, er_valid_to = None,
     er_knowledge_time = Some 0, er_version = 1, er_attrs = None\<rparr>"

definition sample_code :: "string \<Rightarrow> code_history_record" where
  "sample_code code = \<lparr>ch_entity_id = 1, ch_code = code, ch_valid_from = Some EPOCH, ch_valid_to = None,
     ch_knowledge_time = Some 0, ch_version = 1\<rparr>"

lemma create_sample: "create_entity (sample_registration code name) 0 (reg_empty 1)
    = Inr (append_entity (sample_row code name) (append_code (sample_code code) ((reg_empty 1)\<lparr>reg_next_id := 2\<rparr>)), sample_row code name)"
  by (simp add: create_entity_def sample_registration_def facet_def entity_type_values_def market_values_def
    next_entity_id_def reg_empty_def Let_def sample_row_def sample_code_def)

lemma register_sample: "register_entity (sample_registration code name) 0 (reg_empty 1)
    = Inr (append_entity (sample_row code name) (append_code (sample_code code) ((reg_empty 1)\<lparr>reg_next_id := 2\<rparr>)), sample_row code name)"
proof -
  have "resolve (reg_empty 1) (in_code (sample_registration code name)) None = None"
    by (simp add: resolve_None_iff find_by_code_def) (simp add: reg_empty_def)
  then show ?thesis by (simp add: register_entity_def register_or_refresh_def create_sample)
qed

theorem register_idempotent_witness:
  "\<exists>g' r. register_entity (sample_registration ''600519.SH'' ''A'') 0 (registry_run [] (reg_empty 1)) = Inr (g', r)
     \<and> register_entity (sample_registration ''600519.SH'' ''A'') 9 g' = Inr (g', r)"
proof -
  have "register_entity (sample_registration ''600519.SH'' ''A'') 0 (registry_run [] (reg_empty 1))
    = Inr (append_entity (sample_row ''600519.SH'' ''A'') (append_code (sample_code ''600519.SH'') ((reg_empty 1)\<lparr>reg_next_id := 2\<rparr>)),
        sample_row ''600519.SH'' ''A'')"
    using register_sample by (simp add: registry_run_def)
  from this register_idempotent [OF this, of 9] show ?thesis by blast
qed

subsection \<open>Names as a timeline\<close>

text \<open>
  The abstract specification: the name on each day.  A change names the days from its start to its
  end, or from its start on; after its end the name of the day before its start is back.
\<close>

type_synonym name_change = "date \<times> date option \<times> string"

definition rename_days :: "name_change \<Rightarrow> (date \<Rightarrow> string option) \<Rightarrow> date \<Rightarrow> string option" where
  "rename_days c nm d = (case c of (s, e, name) \<Rightarrow>
     if d < s then nm d
     else case e of None \<Rightarrow> Some name | Some last_day \<Rightarrow> if d \<le> last_day then Some name else nm (s - 1))"

text \<open>The changes arrive in order: none starts before the previous one's, or by the end of a bounded one.\<close>

fun chronological :: "date \<Rightarrow> name_change list \<Rightarrow> bool" where
  "chronological low [] = True"
| "chronological low ((s, e, name) # cs) =
     (low \<le> s \<and> (case e of None \<Rightarrow> chronological s cs | Some last_day \<Rightarrow> s \<le> last_day \<and> chronological (last_day + 1) cs))"

lemma chronological_mono: "chronological l cs \<Longrightarrow> l' \<le> l \<Longrightarrow> chronological l' cs"
  by (cases "(l, cs)" rule: chronological.cases) auto

fun apply_changes :: "int \<Rightarrow> time \<Rightarrow> name_change list \<Rightarrow> registry_repo \<Rightarrow> registry_repo result" where
  "apply_changes eid now [] g = Inr g"
| "apply_changes eid now ((s, e, name) # cs) g =
     bind_result (add_name_change eid name (Some s) e None now g) (apply_changes eid now cs)"

text \<open>
  The rows carry the timeline \<open>nm\<close> (\<open>carried\<close> below): every day from \<open>first_day\<close> on is covered, no row starts
  after \<open>low\<close>, and the covering row of a day is the newest of the rows that start where it does.
\<close>

definition newest :: "entity_record list \<Rightarrow> entity_record \<Rightarrow> bool" where
  "newest rows p \<longleftrightarrow> (\<forall>r \<in> set rows. er_valid_from r = er_valid_from p \<longrightarrow> er_version r \<le> er_version p)"

definition best :: "entity_record list \<Rightarrow> date \<Rightarrow> entity_record \<Rightarrow> bool" where
  "best rows d p \<longleftrightarrow> p \<in> set rows \<and> covers (er_valid_from p) (er_valid_to p) (Some d)
     \<and> (\<forall>q \<in> set rows. covers (er_valid_from q) (er_valid_to q) (Some d) \<longrightarrow> row_order q \<le> row_order p)"

lemma covering_row_best:
  assumes "reg_inv g" and "entity_rows g eid \<noteq> []"
  shows "covering_row g eid (Some d) = Some p \<longleftrightarrow> best (entity_rows g eid) d p"
proof -
  let ?f = "filter (\<lambda>r. covers (er_valid_from r) (er_valid_to r) (Some d)) (entity_rows g eid)"
  have d: "distinct (map er_version (entity_rows g eid))" using assms by (auto simp: reg_inv_def rows_ok_def)
  have c: "covering_row g eid (Some d) = max_by row_order ?f" using assms(2) by (simp add: covering_row_def)
  show ?thesis
  proof
    assume "covering_row g eid (Some d) = Some p"
    then show "best (entity_rows g eid) d p" using max_by_Some [of row_order ?f p] by (auto simp: c best_def)
  next
    assume b: "best (entity_rows g eid) d p"
    have "max_by row_order ?f = Some p"
    proof (rule max_by_unique)
      show "p \<in> set ?f" using b by (simp add: best_def)
      fix q assume q: "q \<in> set ?f" "q \<noteq> p"
      with b have "row_order q \<le> row_order p" by (simp add: best_def)
      moreover have "row_order q \<noteq> row_order p"
        using d q b by (auto simp: row_order_def distinct_map inj_on_def best_def)
      ultimately show "row_order q < row_order p" by simp
    qed
    then show "covering_row g eid (Some d) = Some p" by (simp add: c)
  qed
qed

lemma covering_row_None:
  "entity_rows g eid \<noteq> [] \<Longrightarrow> covering_row g eid (Some d) = None \<longleftrightarrow>
    (\<forall>r \<in> set (entity_rows g eid). \<not> covers (er_valid_from r) (er_valid_to r) (Some d))"
  by (simp add: covering_row_def filter_empty_conv)

text \<open>What closing a row and appending rows do to the best row of a day.\<close>

lemma best_snoc_other:
  "best rows d p \<Longrightarrow> covers (er_valid_from r) (er_valid_to r) (Some d) \<longrightarrow> row_order r \<le> row_order p \<Longrightarrow> best (rows @ [r]) d p"
  by (auto simp: best_def)

lemma best_snoc_new:
  "covers (er_valid_from r) (er_valid_to r) (Some d) \<Longrightarrow> \<forall>q \<in> set rows. row_order q \<le> row_order r \<Longrightarrow> best (rows @ [r]) d r"
  by (auto simp: best_def)

lemma newest_snoc:
  "newest rows p \<Longrightarrow> er_valid_from r \<noteq> er_valid_from p \<Longrightarrow> newest (rows @ [r]) p"
  by (simp add: newest_def)

lemma newest_snoc_new: "\<forall>q \<in> set rows. er_version q \<le> er_version r \<Longrightarrow> newest (rows @ [r]) r"
  by (simp add: newest_def)

definition carried :: "entity_record list \<Rightarrow> date \<Rightarrow> date \<Rightarrow> (date \<Rightarrow> string option) \<Rightarrow> bool" where
  "carried rows first_day low nm \<longleftrightarrow> distinct (map er_version rows)
     \<and> (\<forall>r \<in> set rows. \<exists>f. er_valid_from r = Some f \<and> first_day \<le> f \<and> f \<le> low)
     \<and> (\<forall>d. if d < first_day then nm d = None else \<exists>p. best rows d p \<and> newest rows p \<and> nm d = Some (er_name p))"

lemma carried_close:
  assumes c: "carried rows fd low nm" and p: "best rows b p" and "fd \<le> b"
    and p': "er_valid_from p' = er_valid_from p" "er_valid_to p' = Some b" "er_name p' = er_name p"
    and v: "\<forall>r \<in> set rows. er_version r < er_version p'" and d: "fd \<le> d" "d \<le> b"
  shows "\<exists>q. best (rows @ [p']) d q \<and> newest (rows @ [p']) q \<and> nm d = Some (er_name q)"
proof -
  from c d(1) obtain q where q: "best rows d q" "newest rows q" "nm d = Some (er_name q)"
    unfolding carried_def by (metis not_less)
  from c \<open>fd \<le> b\<close> obtain p2 where p2: "best rows b p2" "newest rows p2" unfolding carried_def by (metis not_less)
  from c p obtain f where f: "er_valid_from p = Some f" "f \<le> b" by (auto simp: carried_def best_def covers_def)
  from c q(1) obtain h where h: "er_valid_from q = Some h" "h \<le> d" by (auto simp: carried_def best_def covers_def)
  have dist: "distinct (map er_version rows)" using c by (simp add: carried_def)
  have same: "x = y" if "x \<in> set rows" "y \<in> set rows" "er_version x = er_version y" for x y
    using dist that by (auto simp: distinct_map inj_on_def)
  have "row_order p2 = row_order p" using p p2(1) by (auto simp: best_def intro: antisym)
  then have np: "newest rows p" using same [of p2 p] p p2 by (auto simp: best_def row_order_def)
  show ?thesis
  proof (cases "f = h")
    case True
    with q(1,2) np p f h have "er_version q = er_version p" by (auto simp: newest_def best_def intro: antisym)
    then have "q = p" using same q(1) p by (simp add: best_def)
    have "best (rows @ [p']) d p'"
      unfolding best_def
    proof (intro conjI ballI impI)
      show "covers (er_valid_from p') (er_valid_to p') (Some d)" using p' f h d True by (simp add: covers_def)
      fix r assume r: "r \<in> set (rows @ [p'])" "covers (er_valid_from r) (er_valid_to r) (Some d)"
      show "row_order r \<le> row_order p'"
      proof (cases "r = p'")
        case False
        with r have "r \<in> set rows" by simp
        with r q(1) have "row_order r \<le> row_order p" "er_version r < er_version p'" using v by (auto simp: best_def \<open>q = p\<close>)
        then show ?thesis using p'(1) by (auto simp: row_order_def)
      qed simp
    qed simp
    moreover have "newest (rows @ [p']) p'" using v by (intro newest_snoc_new) (simp add: less_imp_le)
    ultimately show ?thesis using q(3) p'(3) \<open>q = p\<close> by auto
  next
    case False
    have "covers (er_valid_from p') (er_valid_to p') (Some d) \<longrightarrow> row_order p' \<le> row_order q"
    proof
      assume "covers (er_valid_from p') (er_valid_to p') (Some d)"
      with p' f have "f \<le> d" by (simp add: covers_def)
      with p f d have "covers (er_valid_from p) (er_valid_to p) (Some d)"
        by (auto simp: best_def covers_def split: option.splits)
      with p q(1) have "row_order p \<le> row_order q" by (simp add: best_def)
      with False f h have "f < h" by (auto simp: row_order_def)
      with p' f h show "row_order p' \<le> row_order q" by (simp add: row_order_def)
    qed
    with q(1) have "best (rows @ [p']) d q" by (rule best_snoc_other)
    moreover have "newest (rows @ [p']) q" using q(2) p'(1) f h False by (intro newest_snoc) simp_all
    ultimately show ?thesis using q(3) by blast
  qed
qed

lemma carried_append:
  assumes rows: "\<forall>r \<in> set rows. \<exists>f. er_valid_from r = Some f \<and> fd \<le> f \<and> f \<le> s" and dist: "distinct (map er_version rows)"
    and days: "\<forall>d. fd \<le> d \<and> d < s \<longrightarrow> (\<exists>q. best rows d q \<and> newest rows q \<and> nm d = Some (er_name q))"
    and none: "\<forall>d < fd. nm d = None" and "fd < s"
    and N: "er_valid_from N = Some s" "er_valid_to N = e" "er_name N = name" "\<forall>r \<in> set rows. er_version r < er_version N"
  shows "e = None \<Longrightarrow> carried (rows @ [N]) fd s (rename_days (s, e, name) nm)"
    and "e = Some l \<Longrightarrow> s \<le> l \<Longrightarrow> er_valid_from R = Some (l + 1) \<Longrightarrow> er_valid_to R = None \<Longrightarrow> nm (s - 1) = Some (er_name R)
      \<Longrightarrow> er_version N < er_version R \<Longrightarrow> carried ((rows @ [N]) @ [R]) fd (l + 1) (rename_days (s, e, name) nm)"
proof -
  have before: "\<exists>q. best (rows @ [N]) d q \<and> newest (rows @ [N]) q \<and> nm d = Some (er_name q) \<and> er_valid_from q \<noteq> Some h"
    if d: "fd \<le> d" "d < s" and h: "s \<le> h" for d h
  proof -
    from days d obtain q where q: "best rows d q" "newest rows q" "nm d = Some (er_name q)" by blast
    then have a: "er_valid_from q \<noteq> Some g" if "s \<le> g" for g using d that by (auto simp: best_def covers_def)
    with q N(1) d h show ?thesis
      using a [of s, symmetric] a [of h]
      by (intro exI [of _ q] conjI best_snoc_other newest_snoc) (simp_all add: covers_def)
  qed
  have top: "\<forall>q \<in> set rows. row_order q \<le> row_order N" using rows N(1,4) by (force simp: row_order_def)
  have during: "best (rows @ [N]) d N \<and> newest (rows @ [N]) N" if "s \<le> d" "case e of None \<Rightarrow> True | Some l \<Rightarrow> d \<le> l" for d
    using that N top by (intro conjI best_snoc_new newest_snoc_new) (auto simp: covers_def less_imp_le split: option.splits)
  have dist1: "distinct (map er_version (rows @ [N]))" using dist N(4) by auto
  show "carried (rows @ [N]) fd s (rename_days (s, e, name) nm)" if "e = None"
    unfolding carried_def
  proof (intro conjI allI)
    show "distinct (map er_version (rows @ [N]))" by (fact dist1)
    show "\<forall>r \<in> set (rows @ [N]). \<exists>f. er_valid_from r = Some f \<and> fd \<le> f \<and> f \<le> s" using rows N(1) \<open>fd < s\<close> by auto
    fix d
    show "if d < fd then rename_days (s, e, name) nm d = None
      else \<exists>p. best (rows @ [N]) d p \<and> newest (rows @ [N]) p \<and> rename_days (s, e, name) nm d = Some (er_name p)"
      using before [of d s] during [of d] none \<open>fd < s\<close> that N(3) by (cases "d < s") (auto simp: rename_days_def)
  qed
  show "carried ((rows @ [N]) @ [R]) fd (l + 1) (rename_days (s, e, name) nm)"
    if l: "e = Some l" "s \<le> l" and R: "er_valid_from R = Some (l + 1)" "er_valid_to R = None" "nm (s - 1) = Some (er_name R)"
      "er_version N < er_version R"
    unfolding carried_def
  proof (intro conjI allI)
    show "distinct (map er_version ((rows @ [N]) @ [R]))" using dist1 N(4) R(4) by auto
    show "\<forall>r \<in> set ((rows @ [N]) @ [R]). \<exists>f. er_valid_from r = Some f \<and> fd \<le> f \<and> f \<le> l + 1"
      using rows N(1) R(1) \<open>fd < s\<close> l(2) by force
    fix d
    have keep: "\<exists>p. best ((rows @ [N]) @ [R]) d p \<and> newest ((rows @ [N]) @ [R]) p \<and> x = Some (er_name p)"
      if "best (rows @ [N]) d q \<and> newest (rows @ [N]) q \<and> x = Some (er_name q)" "er_valid_from q \<noteq> Some (l + 1)" "d \<le> l" for q x
      using that R best_snoc_other [of "rows @ [N]" d q R] newest_snoc [of "rows @ [N]" q R]
      by (intro exI [of _ q]) (simp add: covers_def)
    show "if d < fd then rename_days (s, e, name) nm d = None
      else \<exists>p. best ((rows @ [N]) @ [R]) d p \<and> newest ((rows @ [N]) @ [R]) p \<and> rename_days (s, e, name) nm d = Some (er_name p)"
    proof (cases "d < s")
      case True
      with before [of d "l + 1"] none l keep [of _ "nm d"] show ?thesis by (auto simp: rename_days_def)
    next
      case False
      show ?thesis
      proof (cases "d \<le> l")
        case True
        with False during [of d] l keep [of N "Some name"] N(1,3) \<open>fd < s\<close> show ?thesis by (auto simp: rename_days_def)
      next
        case late: False
        have "\<forall>q \<in> set (rows @ [N]). row_order q \<le> row_order R" using rows N(1) R(1) l(2) by (force simp: row_order_def)
        then have "best ((rows @ [N]) @ [R]) d R" using R late by (intro best_snoc_new) (simp_all add: covers_def)
        moreover have "newest ((rows @ [N]) @ [R]) R" using N(4) R(4) by (intro newest_snoc_new) force
        ultimately show ?thesis using False late l R(3) \<open>fd < s\<close> by (auto simp: rename_days_def)
      qed
    qed
  qed
qed

lemma inv_rows_ok: "reg_inv g \<Longrightarrow> entity_rows g eid \<noteq> [] \<Longrightarrow> rows_ok eid (entity_rows g eid)"
  by (simp add: reg_inv_def)

lemma carried_name_change:
  assumes g: "reg_inv g" "entity_rows g eid \<noteq> []" "carried (entity_rows g eid) fd low nm"
    and s: "low \<le> s" "fd < s" and e: "case e of None \<Rightarrow> True | Some l \<Rightarrow> s \<le> l"
    and ch: "add_name_change eid name (Some s) e None now g = Inr g'"
  shows "reg_inv g' \<and> entity_rows g' eid \<noteq> []
    \<and> carried (entity_rows g' eid) fd (case e of None \<Rightarrow> s | Some l \<Rightarrow> l + 1) (rename_days (s, e, name) nm)"
  using g(1) ch
proof (cases rule: add_name_change_cases)
  case (1 start g1 current resume)
  then have [simp]: "start = s" by simp
  let ?rows = "entity_rows g eid" and ?rows1 = "entity_rows g1 eid"
  have ok: "rows_ok eid ?rows" using g by (simp add: reg_inv_def)
  from g(3) s obtain p where p: "best ?rows (s - 1) p" "nm (s - 1) = Some (er_name p)"
    unfolding carried_def by (metis not_less zle_diff1_eq)
  then have cov: "covering_row g eid (Some (s - 1)) = Some p" using covering_row_best [OF g(1,2)] by simp
  have id: "er_entity_id p = eid" using p(1) ok by (auto simp: best_def rows_ok_def)
  have resume: "resume = er_name p" using 1(7) cov by simp
  let ?p' = "p\<lparr>er_valid_to := Some (s - 1), er_knowledge_time := Some now, er_version := next_version g eid\<rparr>"
  have r1: "?rows1 = ?rows \<or> ?rows1 = ?rows @ [?p']" using 1(4) cov id by auto
  have new: "\<forall>r \<in> set ?rows. er_version r < er_version ?p'" using next_version_new [OF ok] by simp
  have i1: "reg_inv g1" "?rows1 \<noteq> []" using 1(3) r1 g(2) by auto
  then have ok1: "rows_ok eid ?rows1" by (simp add: reg_inv_def)
  have days: "\<forall>d. fd \<le> d \<and> d < s \<longrightarrow> (\<exists>q. best ?rows1 d q \<and> newest ?rows1 q \<and> nm d = Some (er_name q))"
  proof (intro allI impI)
    fix d assume d: "fd \<le> d \<and> d < s"
    from r1 show "\<exists>q. best ?rows1 d q \<and> newest ?rows1 q \<and> nm d = Some (er_name q)"
    proof
      assume "?rows1 = ?rows"
      with g(3) d show ?thesis unfolding carried_def by (metis not_less)
    next
      assume r: "?rows1 = ?rows @ [?p']"
      show ?thesis unfolding r
        by (rule carried_close [OF g(3) p(1)]) (use d s new in simp_all)
    qed
  qed
  have from_ok: "\<forall>r \<in> set ?rows1. \<exists>f. er_valid_from r = Some f \<and> fd \<le> f \<and> f \<le> s"
  proof -
    have a: "\<forall>r \<in> set ?rows. \<exists>f. er_valid_from r = Some f \<and> fd \<le> f \<and> f \<le> s"
      using g(3) s(1) by (force simp: carried_def)
    moreover have "er_valid_from ?p' = er_valid_from p" "p \<in> set ?rows" using p(1) by (simp_all add: best_def)
    ultimately have "\<forall>r \<in> set (?rows @ [?p']). \<exists>f. er_valid_from r = Some f \<and> fd \<le> f \<and> f \<le> s" by simp
    with a r1 show ?thesis by metis
  qed
  let ?N = "appended_row current None (Some name) (Some s) e [] now g1"
  let ?g2 = "append_row current None (Some name) (Some s) e [] now g1"
  let ?R = "appended_row current None (Some resume) (Some (the e + 1)) None [] now ?g2"
  have N: "er_valid_from ?N = Some s" "er_valid_to ?N = e" "er_name ?N = name" "er_version ?N = next_version g1 eid"
    using 1(6) by (simp_all add: appended_row_def Let_def)
  have nv: "\<forall>r \<in> set ?rows1. er_version r < er_version ?N" using next_version_new [OF ok1] N(4) by simp
  have rows2: "entity_rows ?g2 eid = ?rows1 @ [?N]" using 1(6) by simp
  have i2: "reg_inv ?g2" using append_row_inv [OF i1(1)] i1(2) 1(6) by simp
  have R: "er_valid_from ?R = Some (the e + 1)" "er_valid_to ?R = None" "er_name ?R = resume" "er_version ?R = next_version ?g2 eid"
    using 1(6) by (simp_all add: appended_row_def Let_def)
  have "rows_ok eid (entity_rows ?g2 eid)" by (rule inv_rows_ok [OF i2]) (simp add: 1(6))
  from next_version_new [OF this, of ?N] have rv: "er_version ?N < er_version ?R" using R(4) rows2 by simp
  have dist: "distinct (map er_version ?rows1)" and none: "\<forall>d < fd. nm d = None"
    using ok1 g(3) by (auto simp: rows_ok_def carried_def split: if_splits)
  note app = carried_append [OF from_ok dist days none s(2) N(1,2,3) nv]
  show ?thesis
  proof (cases e)
    case None
    with 1(8) have "g' = ?g2" by simp
    with app(1) [OF None] i2 rows2 None show ?thesis by simp
  next
    case (Some l)
    with 1(8) have g': "g' = append_row current None (Some resume) (Some (the e + 1)) None [] now ?g2" by simp
    then have "reg_inv g'" using append_row_inv [OF i2, of current] rows2 1(6) by simp
    moreover have "entity_rows g' eid = (?rows1 @ [?N]) @ [?R]" using 1(6) by (simp add: g')
    moreover have "carried ((?rows1 @ [?N]) @ [?R]) fd (l + 1) (rename_days (s, e, name) nm)"
      by (rule app(2) [OF Some]) (use e Some R rv p(2) resume in simp_all)
    ultimately show ?thesis using Some by simp
  qed
qed

lemma add_name_change_total:
  assumes "reg_inv g" and "entity_rows g eid \<noteq> []"
  shows "\<exists>g'. add_name_change eid name (Some s) e ann now g = Inr g'"
proof -
  let ?p = "covering_row g eid (Some (s - 1))"
  define g1 where "g1 = (case ?p of Some p \<Rightarrow> if (case er_valid_to p of None \<Rightarrow> True | Some v \<Rightarrow> s - 1 < v)
      then close_row p (Some (s - 1)) now g else g | None \<Rightarrow> g)"
  have "er_entity_id p = eid" if "?p = Some p" for p
    using covering_row_in [OF that] inv_rows_ok [OF assms] by (auto simp: rows_ok_def)
  then have "reg_inv g1" "entity_rows g1 eid \<noteq> []"
    using assms close_row_inv [OF assms(1)] by (auto simp: g1_def split: option.splits)
  then obtain c where "current_row g1 eid = Inr c" by (metis current_row_inv)
  moreover obtain c0 where "current_row g eid = Inr c0" using assms by (metis current_row_inv)
  ultimately show ?thesis
    by (cases ?p; cases e) (auto simp: add_name_change_def g1_def Let_def)
qed

lemma apply_changes_carried:
  assumes "reg_inv g" and "entity_rows g eid \<noteq> []" and "carried (entity_rows g eid) fd low nm"
    and "chronological low cs" and "fd < low \<or> (fd = low \<and> chronological (fd + 1) cs)"
  shows "\<exists>g' low'. apply_changes eid now cs g = Inr g' \<and> reg_inv g' \<and> entity_rows g' eid \<noteq> []
    \<and> carried (entity_rows g' eid) fd low' (foldl (\<lambda>nm c. rename_days c nm) nm cs)"
  using assms
proof (induction cs arbitrary: g low nm)
  case Nil
  then show ?case by auto
next
  case (Cons c cs)
  obtain s e name where c: "c = (s, e, name)" by (cases c)
  obtain g1 where g1: "add_name_change eid name (Some s) e None now g = Inr g1"
    using add_name_change_total [OF Cons.prems(1,2)] by blast
  have s: "low \<le> s" "fd < s" "case e of None \<Rightarrow> True | Some l \<Rightarrow> s \<le> l" using Cons.prems(4,5) c by (auto split: option.splits)
  from carried_name_change [OF Cons.prems(1,2,3) s g1]
  have step: "reg_inv g1" "entity_rows g1 eid \<noteq> []"
    "carried (entity_rows g1 eid) fd (case e of None \<Rightarrow> s | Some l \<Rightarrow> l + 1) (rename_days c nm)" by (simp_all add: c)
  have "chronological (case e of None \<Rightarrow> s | Some l \<Rightarrow> l + 1) cs" "fd < (case e of None \<Rightarrow> s | Some l \<Rightarrow> l + 1)"
    using Cons.prems(4) c s by (auto split: option.splits)
  with Cons.IH [OF step] show ?case by (simp add: c g1)
qed

text \<open>C13. The versioned rows implement the timeline of names: after a registration and any list of name
  changes in order of time, the name on every day is the one the timeline gives, before the entity's
  first day, during a bounded change, after its end and between the changes.\<close>

theorem name_history_refines:
  assumes "register_entity a t0 g0 = Inr (g, r)" and "reg_inv g0" and "resolve g0 (in_code a) None = None"
    and "chronological ((case in_valid_from a of None \<Rightarrow> EPOCH | Some d \<Rightarrow> d) + 1) changes"
  shows "\<exists>g'. apply_changes (er_entity_id r) now changes g = Inr g' \<and>
    (\<forall>d. name_as_of g' (er_entity_id r) (Some d) = foldl (\<lambda>nm c. rename_days c nm)
       (\<lambda>d. if (case in_valid_from a of None \<Rightarrow> EPOCH | Some d \<Rightarrow> d) \<le> d then Some (in_name a) else None) changes d)"
proof -
  let ?fd = "case in_valid_from a of None \<Rightarrow> EPOCH | Some d \<Rightarrow> d" and ?eid = "er_entity_id r"
  let ?nm = "\<lambda>d. if ?fd \<le> d then Some (in_name a) else None"
  from assms(1,3) have c: "create_entity a t0 g0 = Inr (g, r)"
    by (auto simp: register_entity_def register_or_refresh_def split: sum.splits prod.splits)
  have i: "reg_inv g" "entity_rows g ?eid = [r]" using create_entity_inv [OF assms(2) c] by blast+
  have r: "er_valid_from r = Some ?fd" "er_valid_to r = None" "er_name r = in_name a"
    using create_entity_Inr(5) [OF c] by simp_all
  have "carried (entity_rows g ?eid) ?fd ?fd ?nm" using r by (auto simp: i(2) carried_def best_def newest_def covers_def)
  moreover have "chronological ?fd changes" using chronological_mono [OF assms(4)] by simp
  ultimately obtain g' low' where g': "apply_changes ?eid now changes g = Inr g'" "reg_inv g'" "entity_rows g' ?eid \<noteq> []"
    "carried (entity_rows g' ?eid) ?fd low' (foldl (\<lambda>nm c. rename_days c nm) ?nm changes)"
    using apply_changes_carried [OF i(1), where eid = ?eid and fd = ?fd and low = ?fd and nm = ?nm and cs = changes and now = now] assms(4) i(2) by auto
  have "name_as_of g' ?eid (Some d) = foldl (\<lambda>nm c. rename_days c nm) ?nm changes d" for d
  proof (cases "d < ?fd")
    case True
    then have "covering_row g' ?eid (Some d) = None"
      using g'(3,4) covering_row_None [OF g'(3)] by (fastforce simp: carried_def covers_def)
    with True g'(4) show ?thesis by (simp add: name_as_of_def carried_def)
  next
    case False
    with g'(4) obtain p where "best (entity_rows g' ?eid) d p" "foldl (\<lambda>nm c. rename_days c nm) ?nm changes d = Some (er_name p)"
      unfolding carried_def by metis
    moreover from this(1) have "covering_row g' ?eid (Some d) = Some p" using covering_row_best [OF g'(2,3)] by simp
    ultimately show ?thesis by (simp add: name_as_of_def)
  qed
  with g'(1) show ?thesis by blast
qed

theorem name_history_refines_witness:
  "\<exists>g r g'. register_entity (sample_registration ''600519.SH'' ''A'') 0 (reg_empty 1) = Inr (g, r)
    \<and> apply_changes (er_entity_id r) 5 [(739000, Some 739010, ''ST A''), (739011, None, ''B'')] g = Inr g'
    \<and> name_as_of g' (er_entity_id r) (Some 738999) = Some ''A'' \<and> name_as_of g' (er_entity_id r) (Some 739005) = Some ''ST A''
    \<and> name_as_of g' (er_entity_id r) (Some 739011) = Some ''B''"
proof -
  have "resolve (reg_empty 1) (in_code (sample_registration ''600519.SH'' ''A'')) None = None"
    by (simp add: resolve_None_iff find_by_code_def) (simp add: reg_empty_def)
  from name_history_refines [OF register_sample reg_inv_empty this,
    of "[(739000, Some 739010, ''ST A''), (739011, None, ''B'')]" 5] register_sample [of "''600519.SH''" "''A''"]
  show ?thesis by (force simp: sample_registration_def EPOCH_def rename_days_def)
qed

subsection \<open>Code changes\<close>

text \<open>C16. A code change, when the call succeeds, splits the days at its start.  Let the old code have exactly
  one row in the registry, an open one of the entity that begins on day f, and let the new code be
  another one that no row has had so far.  Then afterwards the old code resolves to the entity
  exactly on the days from f to the day before the change, the new code exactly from the change on,
  and without a day both resolve to the entity.\<close>

theorem code_change_resolves:
  assumes "reg_inv g" and "add_code_change eid new (Some start) now g = (g', Inr ())"
    and "find_by_code g old = [e]" and "ch_entity_id e = eid" and "ch_valid_to e = None" and "ch_valid_from e = Some f"
    and "find_by_code g new = []" and "new \<noteq> old"
  shows "resolve g' old None = Some eid \<and> resolve g' new None = Some eid
    \<and> (\<forall>d. resolve g' old (Some d) = (if f \<le> d \<and> d < start then Some eid else None)
         \<and> resolve g' new (Some d) = (if start \<le> d then Some eid else None))"
  using resolve_changed(1) [OF assms] resolve_changed(2) [OF assms] by simp

lemma sample_registered_inv: "reg_inv (append_entity (sample_row code name) (append_code (sample_code code) ((reg_empty 1)\<lparr>reg_next_id := 2\<rparr>)))"
  using create_entity_inv [OF reg_inv_empty create_sample] by blast

theorem code_change_resolves_witness:
  "let g = append_entity (sample_row ''601299.SH'' ''A'') (append_code (sample_code ''601299.SH'') ((reg_empty 1)\<lparr>reg_next_id := 2\<rparr>));
       g' = fst (add_code_change 1 ''601766.SH'' (Some 735700) 5 g)
   in resolve g' ''601299.SH'' None = Some 1 \<and> resolve g' ''601766.SH'' None = Some 1
    \<and> (\<forall>d. resolve g' ''601299.SH'' (Some d) = (if EPOCH \<le> d \<and> d < 735700 then Some 1 else None)
         \<and> resolve g' ''601766.SH'' (Some d) = (if 735700 \<le> d then Some 1 else None))"
  unfolding Let_def
proof (rule code_change_resolves [OF sample_registered_inv, where e = "sample_code ''601299.SH''"])
  let ?g = "append_entity (sample_row ''601299.SH'' ''A'') (append_code (sample_code ''601299.SH'') ((reg_empty 1)\<lparr>reg_next_id := 2\<rparr>))"
  have c: "reg_codes ?g = [sample_code ''601299.SH'']" by (simp add: reg_empty_def)
  show "find_by_code ?g ''601299.SH'' = [sample_code ''601299.SH'']" "find_by_code ?g ''601766.SH'' = []"
    unfolding find_by_code_def c by (simp_all add: sample_code_def)
  let ?g1 = "close_code 735699 5 (sample_code ''601299.SH'') ?g"
  have h: "code_history ?g 1 = [sample_code ''601299.SH'']" unfolding code_history_def c by (simp add: sample_code_def)
  have "entity_rows ?g1 1 = [sample_row ''601299.SH'' ''A'']"
    by (simp add: close_code_def sample_code_def sample_row_def) (simp add: reg_empty_def entity_rows_def)
  then have "current_row ?g1 1 = Inr (sample_row ''601299.SH'' ''A'')" by (simp add: current_row_def sample_row_def)
  then show "add_code_change 1 ''601766.SH'' (Some 735700) 5 ?g = (fst (add_code_change 1 ''601766.SH'' (Some 735700) 5 ?g), Inr ())"
    by (simp add: add_code_change_def h Let_def)
qed (simp_all add: sample_code_def)

subsection \<open>Relations\<close>

lemma vocabulary_inverse:
  assumes "create_registry g vocab = Inr s" and "map_of vocab t = Some rec"
  obtains rec' where "map_of vocab (rt_inverse_relation rec) = Some rec'" "rt_inverse_relation rec' = t"
proof -
  from assms(1) have "validate_relation_types vocab = []" by (simp add: create_registry_def split: if_splits)
  with map_of_SomeD [OF assms(2)] that show thesis by (force simp: validate_relation_types_Nil)
qed

text \<open>Relations are stored in one direction and read from both: with a vocabulary the registry accepts,
  and whatever rows it holds by then, y is related to x by a word exactly when x is related to y by the
  inverse word.\<close>

theorem relations_symmetric:
  assumes "create_registry g vocab = Inr s0" and "svc_relation_types s = vocab" and "map_of vocab t = Some rec"
  shows "\<exists>xs ys. related_ids s x t day = Inr xs \<and> related_ids s y (rt_inverse_relation rec) day = Inr ys
    \<and> (y \<in> set xs \<longleftrightarrow> x \<in> set ys) \<and> sorted xs \<and> distinct xs"
proof -
  obtain rec' where "map_of vocab (rt_inverse_relation rec) = Some rec'" "rt_inverse_relation rec' = t"
    using vocabulary_inverse [OF assms(1,3)] .
  with assms(2,3) show ?thesis
    by (auto simp: related_ids_def relation_rows_def find_relations_by_related_def)
qed

definition shipped_vocabulary :: "(string, relation_type_record) dict result" where
  "shipped_vocabulary = load_relation_types [Some (''issued_by'', ''issues'', ''''), Some (''issues'', ''issued_by'', ''''),
     Some (''tracks'', ''tracked_by'', ''''), Some (''tracked_by'', ''tracks'', '''')] []"

definition sample_vocabulary :: "(string, relation_type_record) dict" where
  "sample_vocabulary =
     [(''issued_by'', \<lparr>rt_relation_type = ''issued_by'', rt_inverse_relation = ''issues'', rt_description = ''''\<rparr>),
      (''issues'', \<lparr>rt_relation_type = ''issues'', rt_inverse_relation = ''issued_by'', rt_description = ''''\<rparr>),
      (''tracks'', \<lparr>rt_relation_type = ''tracks'', rt_inverse_relation = ''tracked_by'', rt_description = ''''\<rparr>),
      (''tracked_by'', \<lparr>rt_relation_type = ''tracked_by'', rt_inverse_relation = ''tracks'', rt_description = ''''\<rparr>)]"

lemma shipped_vocabulary: "shipped_vocabulary = Inr sample_vocabulary"
  by (simp add: shipped_vocabulary_def sample_vocabulary_def strip_def is_space_def Let_def)

lemma sample_vocabulary_valid: "validate_relation_types sample_vocabulary = []"
  by (simp add: validate_relation_types_def sample_vocabulary_def)

theorem relations_symmetric_witness:
  "\<exists>xs ys. related_ids \<lparr>svc_repo = reg_empty 1, svc_relation_types = sample_vocabulary\<rparr> 1 ''issued_by'' None = Inr xs
    \<and> related_ids \<lparr>svc_repo = reg_empty 1, svc_relation_types = sample_vocabulary\<rparr> 2 ''issues'' None = Inr ys
    \<and> (2 \<in> set xs \<longleftrightarrow> 1 \<in> set ys) \<and> sorted xs \<and> distinct xs"
proof -
  have "\<exists>s0. create_registry (reg_empty 1) sample_vocabulary = Inr s0"
    by (simp add: create_registry_def sample_vocabulary_valid)
  then obtain s0 where c: "create_registry (reg_empty 1) sample_vocabulary = Inr s0" ..
  show ?thesis
    using relations_symmetric [OF c, of "\<lparr>svc_repo = reg_empty 1, svc_relation_types = sample_vocabulary\<rparr>" "''issued_by''"
      "\<lparr>rt_relation_type = ''issued_by'', rt_inverse_relation = ''issues'', rt_description = ''''\<rparr>" 1 None 2]
    by (simp add: sample_vocabulary_def)
qed

text \<open>A listing linked to its issuer is found from both ends: it is among the issuer's listings, and
  its issuer is the linked one or an earlier id that was linked before.\<close>

theorem linked_issuer_found:
  assumes "shipped_vocabulary = Inr (svc_relation_types s)" and "link_issuer listing issuer now s = Inr (s', r)"
  shows "(\<exists>ids. listings_of s' issuer = Inr ids \<and> listing \<in> set ids)
    \<and> (\<exists>i. issuer_of s' listing = Inr (Some i) \<and> i \<le> issuer)"
proof -
  from assms(2) have a: "add_relation listing issuer ''issued_by'' None None now s = Inr (s', r)"
    by (auto simp: link_issuer_def split: sum.splits if_splits)
  have v: "svc_relation_types s = sample_vocabulary" using assms(1) by (simp add: shipped_vocabulary)
  have row: "r \<in> set (reg_relations (svc_repo s')) \<and> rel_entity_id r = listing \<and> rel_related_id r = issuer
      \<and> rel_relation_type r = ''issued_by'' \<and> rel_valid_to r = None \<and> svc_relation_types s' = sample_vocabulary"
    using a v
    by (auto simp: add_relation_def relation_rows_def Let_def dest!: find_in split: sum.splits if_splits option.splits)
  then have l: "\<exists>ids. listings_of s' issuer = Inr ids \<and> listing \<in> set ids"
    by (force simp: listings_of_def related_ids_def sample_vocabulary_def find_relations_by_related_def covers_def)
  obtain ids where ids: "related_ids s' listing ''issued_by'' None = Inr ids" "issuer \<in> set ids" "sorted ids"
    using row by (force simp: related_ids_def sample_vocabulary_def relation_rows_def covers_def)
  then obtain i rest where "ids = i # rest" "i \<le> issuer" by (cases ids) auto
  with ids l show ?thesis by (simp add: issuer_of_def)
qed

definition sample_linked :: registry where
  "sample_linked = \<lparr>svc_repo = append_entity (sample_row ''600519.SH'' ''A'')
     (append_entity ((sample_row ''C'' ''Issuer'')\<lparr>er_entity_id := 2, er_entity_type := ''issuer''\<rparr>) (reg_empty 3)),
     svc_relation_types = sample_vocabulary\<rparr>"

lemma sample_linked_rows:
  "entity_rows (svc_repo sample_linked) 1 = [sample_row ''600519.SH'' ''A'']"
  "entity_rows (svc_repo sample_linked) 2 = [(sample_row ''C'' ''Issuer'')\<lparr>er_entity_id := 2, er_entity_type := ''issuer''\<rparr>]"
  by (simp_all add: sample_linked_def sample_row_def) (simp_all add: reg_empty_def entity_rows_def)

theorem linked_issuer_found_witness:
  "\<exists>s' r. link_issuer 1 2 0 sample_linked = Inr (s', r) \<and> (\<exists>ids. listings_of s' 2 = Inr ids \<and> 1 \<in> set ids)
    \<and> (\<exists>i. issuer_of s' 1 = Inr (Some i) \<and> i \<le> 2)"
proof -
  have "relation_rows (svc_repo sample_linked) 1 = []"
    by (simp add: relation_rows_def sample_linked_def) (simp add: reg_empty_def)
  then have "\<exists>s' r. link_issuer 1 2 0 sample_linked = Inr (s', r)"
    by (simp add: link_issuer_def require_entity_def sample_linked_rows current_row_def sample_row_def add_relation_def Let_def)
      (simp add: sample_linked_def sample_vocabulary_def)
  then obtain s' r where l: "link_issuer 1 2 0 sample_linked = Inr (s', r)" by blast
  from linked_issuer_found [OF _ l] l show ?thesis by (auto simp: shipped_vocabulary sample_linked_def)
qed

end
