(* ===== verification/Registry_Universe.thy ===== *)
theory Registry_Universe
  imports Registry_Properties
begin

text \<open>
  The universe of a day (\<open>registry/universe.py\<close>): from the rows of the lifecycle dataset, the
  entities that were listed or suspended on the day, as far as the rows were known by then.
\<close>

subsection \<open>Rows of the dataset\<close>

text \<open>
  A row arrives as a record or as a mapping of loosely typed values.  The knowledge time is used
  through \<open>to_datetime\<close> only, which is applied here once.
\<close>

record lifecycle_fields =
  lf_entity_id :: int
  lf_status :: string
  lf_start_date :: raw_value
  lf_end_date :: raw_value
  lf_knowledge_time :: raw_value
  lf_version :: "int option"

datatype lifecycle_input = LifecycleRow lifecycle_fields | LifecycleMapping lifecycle_fields

definition as_lifecycle :: "(string \<Rightarrow> time option) \<Rightarrow> lifecycle_input \<Rightarrow> lifecycle_record" where
  "as_lifecycle parse raw = (let (f, version) = (case raw of
        LifecycleRow f \<Rightarrow> (f, case lf_version f of None \<Rightarrow> 1 | Some v \<Rightarrow> v)
      | LifecycleMapping f \<Rightarrow> (f, case lf_version f of None \<Rightarrow> 1 | Some v \<Rightarrow> if v = 0 then 1 else v))
     in \<lparr>lc_entity_id = lf_entity_id f, lc_status = lf_status f, lc_start_date = to_date parse (lf_start_date f),
         lc_end_date = to_date parse (lf_end_date f), lc_knowledge_time = to_datetime parse (lf_knowledge_time f),
         lc_version = version\<rparr>)"

definition status_of :: "string \<Rightarrow> lifecycle_status result" where
  "status_of s = (if s = ''listed'' then Inr LISTED else if s = ''suspended'' then Inr SUSPENDED
     else if s = ''delisted'' then Inr DELISTED else Inl ValueError)"

lemma status_of_value [simp]: "status_of (lifecycle_value st) = Inr st"
  by (cases st) (simp_all add: status_of_def)

definition IN_UNIVERSE :: "lifecycle_status set" where
  "IN_UNIVERSE = {LISTED, SUSPENDED}"

definition MIN_DT :: time where
  "MIN_DT = dt_combine 1 0"

subsection \<open>The universe\<close>

definition lc_start :: "lifecycle_record \<Rightarrow> date" where
  "lc_start r = (case lc_start_date r of None \<Rightarrow> EPOCH | Some d \<Rightarrow> d)"

text \<open>The three \<open>continue\<close>s of the loop.\<close>

definition usable :: "time option \<Rightarrow> date \<Rightarrow> lifecycle_record \<Rightarrow> bool" where
  "usable knowledge_limit target r \<longleftrightarrow>
     \<not> (case (knowledge_limit, lc_knowledge_time r) of (Some limit, Some known) \<Rightarrow> limit < known | _ \<Rightarrow> False)
     \<and> \<not> target < lc_start r
     \<and> \<not> (case lc_end_date r of None \<Rightarrow> False | Some e \<Rightarrow> e < target)"

definition lc_rank :: "lifecycle_record \<Rightarrow> date \<times> int \<times> time" where
  "lc_rank r = (lc_start r, lc_version r, case lc_knowledge_time r of None \<Rightarrow> MIN_DT | Some t \<Rightarrow> t)"

fun rank_rows ::
  "time option \<Rightarrow> date \<Rightarrow> lifecycle_record list \<Rightarrow> (int, lifecycle_record) dict \<Rightarrow> (int, lifecycle_record) dict" where
  "rank_rows limit target [] ranked = ranked"
| "rank_rows limit target (row # rows) ranked =
     (if \<not> usable limit target row then rank_rows limit target rows ranked
      else rank_rows limit target rows
        (case map_of ranked (lc_entity_id row) of
           None \<Rightarrow> AList.update (lc_entity_id row) row ranked
         | Some current \<Rightarrow> if lc_rank current < lc_rank row then AList.update (lc_entity_id row) row ranked else ranked))"

fun members ::
  "registry_repo \<Rightarrow> date \<Rightarrow> string option \<Rightarrow> string option \<Rightarrow> (int \<times> lifecycle_record) list \<Rightarrow> entity_record list result" where
  "members g target entity_type market [] = Inr []"
| "members g target entity_type market ((eid, row) # rest) =
     (case status_of (lc_status row) of
        Inl e \<Rightarrow> Inl e
      | Inr st \<Rightarrow>
          if st \<notin> IN_UNIVERSE then members g target entity_type market rest
          else case entity g eid (Some target) of
                 None \<Rightarrow> members g target entity_type market rest
               | Some r \<Rightarrow>
                   if (case entity_type of None \<Rightarrow> False | Some t \<Rightarrow> t \<noteq> [] \<and> er_entity_type r \<noteq> t)
                      \<or> (case market of None \<Rightarrow> False | Some m \<Rightarrow> m \<noteq> [] \<and> er_market r \<noteq> Some m)
                   then members g target entity_type market rest
                   else bind_result (members g target entity_type market rest) (\<lambda>rs. Inr (r # rs)))"

definition universe_of ::
  "(string \<Rightarrow> time option) \<Rightarrow> registry_repo \<Rightarrow> lifecycle_input list \<Rightarrow> raw_value \<Rightarrow> raw_value \<Rightarrow> string option \<Rightarrow> string option
    \<Rightarrow> entity_record list result" where
  "universe_of parse g lifecycle as_of knowledge_as_of entity_type market =
     (case to_date parse as_of of
        None \<Rightarrow> Inl ValueError
      | Some target \<Rightarrow>
          members g target entity_type market
            (sort_key fst (rank_rows (to_datetime parse knowledge_as_of) target (map (as_lifecycle parse) lifecycle) [])))"

subsection \<open>The rows that count\<close>

lemma rank_rows_filter: "rank_rows limit target rows d = rank_rows limit target (filter (usable limit target) rows) d"
  by (induction rows arbitrary: d) auto

lemma rank_rows_distinct: "distinct (dict_keys d) \<Longrightarrow> distinct (dict_keys (rank_rows limit target rows d))"
proof (induction rows arbitrary: d)
  case (Cons r rows)
  then show ?case by (auto simp: distinct_update split: option.split)
qed simp

lemma rank_rows_lookup:
  "map_of (rank_rows limit target rows d) eid =
     max_by lc_rank ((case map_of d eid of None \<Rightarrow> [] | Some r \<Rightarrow> [r])
       @ filter (\<lambda>r. lc_entity_id r = eid \<and> usable limit target r) rows)"
proof (induction rows arbitrary: d)
  case Nil
  then show ?case by (auto split: option.split)
next
  case (Cons r rows)
  show ?case
  proof (cases "usable limit target r")
    case False
    with Cons show ?thesis by simp
  next
    case True
    show ?thesis
    proof (cases "lc_entity_id r = eid")
      case False
      with True Cons.IH show ?thesis by (auto split: option.split)
    next
      case id: True
      show ?thesis
      proof (cases "map_of d eid")
        case None
        with True id Cons.IH show ?thesis by simp
      next
        case (Some c)
        with True id Cons.IH show ?thesis by simp
      qed
    qed
  qed
qed

text \<open>
  The reference, in the words of the documentation and apart from the loop: a row applies to a day
  when it was known by the limit and its closed interval holds the day (a missing start is the first
  of January 1990, a missing end is open); a row supersedes another when it starts later, or starts
  on the same day with a higher version, or has the same start and version and was known later; and
  the row that rules an entity is the one that applies, supersedes every applying row of the entity
  before it and is superseded by none after it.
\<close>

definition applies :: "time option \<Rightarrow> date \<Rightarrow> lifecycle_record \<Rightarrow> bool" where
  "applies limit day r \<longleftrightarrow> (\<forall>l k. limit = Some l \<longrightarrow> lc_knowledge_time r = Some k \<longrightarrow> k \<le> l)
     \<and> (\<forall>s. lc_start_date r = Some s \<longrightarrow> s \<le> day) \<and> (lc_start_date r = None \<longrightarrow> int (ymd2ord (1990, 1, 1)) \<le> day)
     \<and> (\<forall>e. lc_end_date r = Some e \<longrightarrow> day \<le> e)"

definition start_of :: "lifecycle_record \<Rightarrow> date" where
  "start_of r = (if lc_start_date r = None then int (ymd2ord (1990, 1, 1)) else the (lc_start_date r))"

definition known_at :: "lifecycle_record \<Rightarrow> time" where
  "known_at r = (if lc_knowledge_time r = None then dt_combine 1 0 else the (lc_knowledge_time r))"

definition supersedes :: "lifecycle_record \<Rightarrow> lifecycle_record \<Rightarrow> bool" where
  "supersedes r q \<longleftrightarrow> start_of q < start_of r
     \<or> start_of r = start_of q \<and> lc_version q < lc_version r
     \<or> start_of r = start_of q \<and> lc_version r = lc_version q \<and> known_at q < known_at r"

definition rules :: "time option \<Rightarrow> date \<Rightarrow> lifecycle_record list \<Rightarrow> lifecycle_record \<Rightarrow> bool" where
  "rules limit day rows r \<longleftrightarrow> applies limit day r \<and> (\<exists>before after. rows = before @ r # after
     \<and> (\<forall>q \<in> set before. lc_entity_id q = lc_entity_id r \<and> applies limit day q \<longrightarrow> supersedes r q)
     \<and> (\<forall>q \<in> set after. lc_entity_id q = lc_entity_id r \<and> applies limit day q \<longrightarrow> \<not> supersedes q r))"

lemma usable_iff: "usable limit day r \<longleftrightarrow> applies limit day r"
  by (auto simp: usable_def applies_def lc_start_def EPOCH_ymd not_less split: option.splits)

lemma supersedes_iff: "supersedes r q \<longleftrightarrow> lc_rank q < lc_rank r"
proof -
  have "start_of x = lc_start x" for x by (cases "lc_start_date x") (simp_all add: start_of_def lc_start_def EPOCH_ymd)
  moreover have "known_at x = (case lc_knowledge_time x of None \<Rightarrow> MIN_DT | Some t \<Rightarrow> t)" for x
    by (cases "lc_knowledge_time x") (simp_all add: known_at_def MIN_DT_def)
  ultimately show ?thesis by (auto simp: supersedes_def lc_rank_def less_prod_def')
qed

lemma max_by_split:
  "max_by f xs = Some m \<longleftrightarrow>
     (\<exists>before after. xs = before @ m # after \<and> (\<forall>q \<in> set before. f q < f m) \<and> (\<forall>q \<in> set after. f q \<le> f m))"
proof
  show "max_by f xs = Some m \<Longrightarrow>
     \<exists>before after. xs = before @ m # after \<and> (\<forall>q \<in> set before. f q < f m) \<and> (\<forall>q \<in> set after. f q \<le> f m)"
  proof (induction xs arbitrary: m rule: rev_induct)
    case (snoc x xs)
    show ?case
    proof (cases "max_by f xs")
      case None
      with snoc.prems show ?thesis by (intro exI [of _ "[]"]) simp
    next
      case (Some b)
      from snoc.IH [OF this] obtain l r where
        lr: "xs = l @ b # r" "\<forall>q \<in> set l. f q < f b" "\<forall>q \<in> set r. f q \<le> f b" by blast
      have m: "m = (if f b < f x then x else b)" using snoc.prems Some by (cases xs) auto
      show ?thesis
      proof (cases "f b < f x")
        case True
        with lr m show ?thesis by (intro exI [of _ xs] exI [of _ "[]"]) auto
      next
        case False
        with lr m show ?thesis by (intro exI [of _ l] exI [of _ "r @ [x]"]) auto
      qed
    qed
  qed simp
next
  assume "\<exists>before after. xs = before @ m # after \<and> (\<forall>q \<in> set before. f q < f m) \<and> (\<forall>q \<in> set after. f q \<le> f m)"
  then obtain l r where lr: "xs = l @ m # r" "\<forall>q \<in> set l. f q < f m" "\<forall>q \<in> set r. f q \<le> f m" by blast
  have stay: "foldl (\<lambda>best y. if f best < f y then y else best) m ys = m" if "\<forall>q \<in> set ys. f q \<le> f m" for ys
    using that by (induction ys) (auto simp: not_less [symmetric])
  show "max_by f xs = Some m"
  proof (cases l)
    case Nil
    with lr stay show ?thesis by simp
  next
    case (Cons a l')
    have "foldl (\<lambda>best y. if f best < f y then y else best) a l' \<in> set (a # l')"
      using max_by_Some(1) [of f "a # l'"] by simp
    with lr(2) have "f (foldl (\<lambda>best y. if f best < f y then y else best) a l') < f m" unfolding Cons by blast
    with lr stay show ?thesis by (simp add: Cons)
  qed
qed

lemma filter_split:
  "filter P xs = l @ m # r \<longleftrightarrow>
     (\<exists>before after. xs = before @ m # after \<and> P m \<and> filter P before = l \<and> filter P after = r)"
proof
  show "filter P xs = l @ m # r \<Longrightarrow>
     \<exists>before after. xs = before @ m # after \<and> P m \<and> filter P before = l \<and> filter P after = r"
  proof (induction xs arbitrary: l)
    case (Cons x xs)
    consider "\<not> P x" "filter P xs = l @ m # r" | "P x" "l = []" "x = m" "filter P xs = r"
      | l' where "P x" "l = x # l'" "filter P xs = l' @ m # r"
      using Cons.prems by (cases "P x"; cases l) auto
    then show ?case
    proof cases
      case 1
      from Cons.IH [OF 1(2)] obtain b a where "xs = b @ m # a" "P m" "filter P b = l" "filter P a = r" by blast
      with 1(1) show ?thesis by (intro exI [of _ "x # b"] exI [of _ a]) simp
    next
      case 2
      then show ?thesis by (intro exI [of _ "[]"] exI [of _ xs]) simp
    next
      case 3
      from Cons.IH [OF 3(3)] obtain b a where "xs = b @ m # a" "P m" "filter P b = l'" "filter P a = r" by blast
      with 3(1,2) show ?thesis by (intro exI [of _ "x # b"] exI [of _ a]) simp
    qed
  qed simp
qed auto

lemma rank_rows_rules: "map_of (rank_rows limit day rows []) eid = Some r \<longleftrightarrow> rules limit day rows r \<and> lc_entity_id r = eid"
proof -
  let ?P = "\<lambda>q. lc_entity_id q = eid \<and> usable limit day q"
  have "map_of (rank_rows limit day rows []) eid = Some r \<longleftrightarrow>
      (\<exists>l t. filter ?P rows = l @ r # t \<and> (\<forall>q \<in> set l. lc_rank q < lc_rank r) \<and> (\<forall>q \<in> set t. lc_rank q \<le> lc_rank r))"
    by (simp add: rank_rows_lookup max_by_split)
  also have "\<dots> \<longleftrightarrow> (\<exists>before after. rows = before @ r # after \<and> ?P r
      \<and> (\<forall>q \<in> set (filter ?P before). lc_rank q < lc_rank r) \<and> (\<forall>q \<in> set (filter ?P after). lc_rank q \<le> lc_rank r))"
    by (simp only: filter_split) blast
  also have "\<dots> \<longleftrightarrow> rules limit day rows r \<and> lc_entity_id r = eid"
    by (auto simp: rules_def usable_iff supersedes_iff not_less)
  finally show ?thesis .
qed

definition passes :: "string option \<Rightarrow> string option \<Rightarrow> entity_record \<Rightarrow> bool" where
  "passes entity_type market r \<longleftrightarrow> (case entity_type of None \<Rightarrow> True | Some t \<Rightarrow> t = [] \<or> er_entity_type r = t)
     \<and> (case market of None \<Rightarrow> True | Some m \<Rightarrow> m = [] \<or> er_market r = Some m)"

lemma entity_id_of:
  assumes "reg_inv g" and "entity g eid (Some t) = Some r"
  shows "er_entity_id r = eid"
proof -
  have c: "covering_row g eid (Some t) = Some r" using assms(2) by (simp add: entity_def)
  then have "r \<in> set (entity_rows g eid)" using covering_row_in by blast
  moreover from this have "entity_rows g eid \<noteq> []" by auto
  then have "rows_ok eid (entity_rows g eid)" using assms(1) by (simp add: reg_inv_def)
  ultimately show ?thesis by (simp add: rows_ok_def)
qed

lemma members_cons_cases:
  "members g t et m ((eid, row) # rest) =
     (case status_of (lc_status row) of
        Inl e \<Rightarrow> Inl e
      | Inr st \<Rightarrow> if st \<in> IN_UNIVERSE \<and> (case entity g eid (Some t) of None \<Rightarrow> False | Some r \<Rightarrow> passes et m r)
          then bind_result (members g t et m rest) (\<lambda>rs. Inr (the (entity g eid (Some t)) # rs))
          else members g t et m rest)"
  by (auto simp: passes_def split: sum.split option.split)

declare members.simps(2) [simp del]

lemma members_Inr:
  assumes "reg_inv g" and "sorted_wrt (<) (map fst xs)" and "members g t et m xs = Inr rs"
  shows "(\<forall>r. r \<in> set rs \<longleftrightarrow> (\<exists>row. (er_entity_id r, row) \<in> set xs \<and> status_of (lc_status row) \<in> {Inr LISTED, Inr SUSPENDED}
            \<and> entity g (er_entity_id r) (Some t) = Some r \<and> passes et m r)) \<and> sorted_wrt (<) (map er_entity_id rs)"
  using assms(2,3)
proof (induction xs arbitrary: rs)
  case Nil
  then show ?case by simp
next
  case (Cons p xs)
  obtain eid row where p: "p = (eid, row)" by (cases p)
  let ?in = "\<lambda>r. \<exists>row'. (er_entity_id r, row') \<in> set xs \<and> status_of (lc_status row') \<in> {Inr LISTED, Inr SUSPENDED}
            \<and> entity g (er_entity_id r) (Some t) = Some r \<and> passes et m r"
  from Cons.prems(2) obtain st where st: "status_of (lc_status row) = Inr st"
    by (auto simp: p members_cons_cases split: sum.splits)
  have above: "eid < er_entity_id r" if "?in r" for r using that Cons.prems(1) by (force simp: p)
  show ?case
  proof (cases "st \<in> IN_UNIVERSE \<and> (case entity g eid (Some t) of None \<Rightarrow> False | Some r \<Rightarrow> passes et m r)")
    case False
    then have m: "members g t et m xs = Inr rs" using Cons.prems(2) st by (simp add: p members_cons_cases split: if_splits)
    have "\<not> (er_entity_id r = eid \<and> status_of (lc_status row) \<in> {Inr LISTED, Inr SUSPENDED}
        \<and> entity g (er_entity_id r) (Some t) = Some r \<and> passes et m r)" for r
      using False st by (auto simp: IN_UNIVERSE_def)
    with Cons.IH [OF _ m] Cons.prems(1) show ?thesis by (auto simp: p)
  next
    case True
    then obtain r0 where r0: "entity g eid (Some t) = Some r0" "passes et m r0" by (auto split: option.splits)
    from True Cons.prems(2) st r0 obtain rs' where rs: "members g t et m xs = Inr rs'" "rs = r0 # rs'"
      by (auto simp: p members_cons_cases split: sum.splits)
    have id: "er_entity_id r0 = eid" using entity_id_of [OF assms(1) r0(1)] .
    have IH: "\<forall>r. r \<in> set rs' \<longleftrightarrow> ?in r" "sorted_wrt (<) (map er_entity_id rs')"
      using Cons.IH [OF _ rs(1)] Cons.prems(1) by simp_all
    have "sorted_wrt (<) (map er_entity_id rs)" using IH above by (simp add: rs(2) id)
    moreover have "r \<in> set rs \<longleftrightarrow> (\<exists>row'. (er_entity_id r, row') \<in> set (p # xs) \<and> status_of (lc_status row') \<in> {Inr LISTED, Inr SUSPENDED}
            \<and> entity g (er_entity_id r) (Some t) = Some r \<and> passes et m r)" for r
    proof -
      have "r = r0 \<longleftrightarrow> er_entity_id r = eid \<and> status_of (lc_status row) \<in> {Inr LISTED, Inr SUSPENDED}
          \<and> entity g (er_entity_id r) (Some t) = Some r \<and> passes et m r"
      proof
        assume "r = r0"
        moreover have "status_of (lc_status row) \<in> {Inr LISTED, Inr SUSPENDED}"
          using st True unfolding IN_UNIVERSE_def by blast
        ultimately show "er_entity_id r = eid \<and> status_of (lc_status row) \<in> {Inr LISTED, Inr SUSPENDED}
          \<and> entity g (er_entity_id r) (Some t) = Some r \<and> passes et m r" using r0 id by simp
      next
        assume "er_entity_id r = eid \<and> status_of (lc_status row) \<in> {Inr LISTED, Inr SUSPENDED}
          \<and> entity g (er_entity_id r) (Some t) = Some r \<and> passes et m r"
        then have "er_entity_id r = eid" "entity g (er_entity_id r) (Some t) = Some r" by blast+
        with r0(1) show "r = r0" by simp
      qed
      moreover have "r \<in> set rs \<longleftrightarrow> r = r0 \<or> ?in r" using IH(1) by (simp add: rs(2))
      ultimately show ?thesis unfolding p by (simp only: list.set insert_iff prod.inject) blast
    qed
    ultimately show ?thesis by blast
  qed
qed

lemma members_Inl:
  "members g t et m xs = Inl e \<Longrightarrow> e = ValueError \<and> (\<exists>(eid, row) \<in> set xs. status_of (lc_status row) = Inl ValueError)"
proof (induction xs)
  case (Cons p xs)
  obtain eid row where p: "p = (eid, row)" by (cases p)
  show ?case
  proof (cases "status_of (lc_status row)")
    case (Inl err)
    then have "err = ValueError" by (auto simp: status_of_def split: if_splits)
    with Inl Cons.prems show ?thesis by (simp add: p members_cons_cases)
  next
    case (Inr st)
    with Cons.prems have "members g t et m xs = Inl e" by (auto simp: p members_cons_cases split: if_splits sum.splits)
    with Cons.IH show ?thesis by auto
  qed
qed simp

lemma ranked_pairs:
  "(eid, row) \<in> set (sort_key fst (rank_rows limit t rows [])) \<longleftrightarrow> rules limit t rows row \<and> lc_entity_id row = eid"
  by (simp add: rank_rows_rules [symmetric] rank_rows_distinct)

lemma ranked_sorted: "sorted_wrt (<) (map fst (sort_key fst (rank_rows limit t rows [])))"
proof -
  have "distinct (map fst (sort_key fst (rank_rows limit t rows [])))"
    by (metis distinct_map distinct_sort rank_rows_distinct set_sort list.simps(8) distinct.simps(1))
  then show ?thesis by (simp add: strict_sorted_iff)
qed

lemma status_in_universe: "status_of s \<in> {Inr LISTED, Inr SUSPENDED} \<longleftrightarrow> s = ''listed'' \<or> s = ''suspended''"
  by (simp add: status_of_def)

lemma status_bad: "status_of s = Inl ValueError \<longleftrightarrow> s \<notin> {''listed'', ''suspended'', ''delisted''}"
  by (simp add: status_of_def)

text \<open>C14. The universe of a day is exact: with the rows the lifecycle dataset gives, it holds an entity's
  as-of record exactly when the row that rules the entity on the day says listed or suspended and the
  filters admit the record; the records come in the order of their ids, and the call fails only with
  ValueError and only on a ruling row whose status is none of the three.  Which row rules is stated
  apart from the code: it was known by the knowledge limit, its closed interval holds the day, and no
  row of the entity that does so too starts later, or has the same start and a higher version, or the
  same start and version and a later knowledge time.\<close>

theorem universe_exact:
  assumes "reg_inv g" and "to_date parse as_of = Some t"
  shows "let rows = map (as_lifecycle parse) lifecycle; ruling = rules (to_datetime parse knowledge_as_of) t rows in
    case universe_of parse g lifecycle as_of knowledge_as_of et m of
      Inl e \<Rightarrow> e = ValueError \<and> (\<exists>row. ruling row \<and> lc_status row \<notin> {''listed'', ''suspended'', ''delisted''})
    | Inr rs \<Rightarrow> sorted_wrt (<) (map er_entity_id rs)
        \<and> (\<forall>r. r \<in> set rs \<longleftrightarrow> (\<exists>row. ruling row \<and> lc_entity_id row = er_entity_id r
             \<and> (lc_status row = ''listed'' \<or> lc_status row = ''suspended'')
             \<and> entity g (er_entity_id r) (Some t) = Some r \<and> passes et m r))"
proof -
  let ?limit = "to_datetime parse knowledge_as_of" and ?rows = "map (as_lifecycle parse) lifecycle"
  let ?xs = "sort_key fst (rank_rows ?limit t ?rows [])"
  have u: "universe_of parse g lifecycle as_of knowledge_as_of et m = members g t et m ?xs"
    using assms(2) by (simp add: universe_of_def)
  show ?thesis
  proof (cases "members g t et m ?xs")
    case (Inl e)
    from members_Inl [OF Inl] obtain eid row where "e = ValueError" "(eid, row) \<in> set ?xs" "status_of (lc_status row) = Inl ValueError"
      by blast
    then show ?thesis unfolding Let_def u Inl sum.case ranked_pairs status_bad by blast
  next
    case (Inr rs)
    from members_Inr [OF assms(1) ranked_sorted Inr] show ?thesis
      unfolding Let_def u Inr sum.case ranked_pairs status_in_universe by (simp only: conj_assoc conj_commute) blast
  qed
qed

definition lifecycle_row :: "string \<Rightarrow> date \<Rightarrow> date option \<Rightarrow> time \<Rightarrow> int \<Rightarrow> lifecycle_input" where
  "lifecycle_row status start end_date known version = LifecycleRow \<lparr>lf_entity_id = 1, lf_status = status,
     lf_start_date = RawDate start, lf_end_date = (case end_date of None \<Rightarrow> RawNone | Some d \<Rightarrow> RawDate d),
     lf_knowledge_time = RawDateTime known, lf_version = Some version\<rparr>"

text \<open>A registered entity that was listed, suspended from a later day on, and delisted by a row that was
  not yet known: the suspension rules, and the entity is in the universe.\<close>

definition sample_lifecycle :: "lifecycle_input list" where
  "sample_lifecycle = [lifecycle_row ''listed'' 730000 None 10 1, lifecycle_row ''suspended'' 737000 None 20 1,
     lifecycle_row ''suspended'' 737000 None 15 1, lifecycle_row ''delisted'' 737500 None 60 1]"

definition sample_registry :: registry_repo where
  "sample_registry = append_entity (sample_row ''600519.SH'' ''A'') (append_code (sample_code ''600519.SH'') ((reg_empty 1)\<lparr>reg_next_id := 2\<rparr>))"

lemma sample_registry_inv: "reg_inv sample_registry"
  unfolding sample_registry_def by (rule sample_registered_inv)

lemma sample_universe:
  "universe_of (\<lambda>_. None) sample_registry sample_lifecycle (RawDate 738000) (RawDateTime 50) None None
     = Inr [sample_row ''600519.SH'' ''A'']"
  by code_simp

lemma to_datetime_sample: "to_datetime parse (RawDateTime k) = Some k"
  by simp

theorem universe_exact_witness:
  "let rows = map (as_lifecycle (\<lambda>_. None)) sample_lifecycle; ruling = rules (Some 50) 738000 rows in
     universe_of (\<lambda>_. None) sample_registry sample_lifecycle (RawDate 738000) (RawDateTime 50) None None
       = Inr [sample_row ''600519.SH'' ''A'']
     \<and> (\<exists>row. ruling row \<and> lc_entity_id row = 1 \<and> (lc_status row = ''listed'' \<or> lc_status row = ''suspended'')
       \<and> entity sample_registry 1 (Some 738000) = Some (sample_row ''600519.SH'' ''A''))"
proof -
  have "to_date (\<lambda>_. None) (RawDate 738000) = Some 738000" by simp
  note exact = universe_exact [OF sample_registry_inv this, where knowledge_as_of = "RawDateTime 50"
      and lifecycle = sample_lifecycle and et = None and m = None, unfolded Let_def sample_universe to_datetime_sample sum.case]
  have "\<exists>row. rules (Some 50) 738000 (map (as_lifecycle (\<lambda>_. None)) sample_lifecycle) row
      \<and> lc_entity_id row = er_entity_id (sample_row ''600519.SH'' ''A'')
      \<and> (lc_status row = ''listed'' \<or> lc_status row = ''suspended'')
      \<and> entity sample_registry (er_entity_id (sample_row ''600519.SH'' ''A'')) (Some 738000) = Some (sample_row ''600519.SH'' ''A'')
      \<and> passes None None (sample_row ''600519.SH'' ''A'')"
    by (rule exact [THEN conjunct2, THEN spec [where x = "sample_row ''600519.SH'' ''A''"], THEN iffD1]) simp
  then show ?thesis using sample_universe by (simp add: sample_row_def Let_def) blast
qed

text \<open>C15. No look-ahead: rows that became known after the knowledge limit, and rows of a status that starts
  after the day, do not change the universe of the day, wherever they stand among the rows.\<close>

theorem universe_no_lookahead:
  assumes "to_date parse as_of = Some t" and "to_datetime parse knowledge_as_of = Some limit"
    and "list_all (\<lambda>x. (case lc_knowledge_time (as_lifecycle parse x) of None \<Rightarrow> False | Some k \<Rightarrow> limit < k)
           \<or> t < lc_start (as_lifecycle parse x)) late"
  shows "universe_of parse g (xs @ late @ ys) as_of knowledge_as_of et m = universe_of parse g (xs @ ys) as_of knowledge_as_of et m"
proof -
  have "filter (usable (Some limit) t) (map (as_lifecycle parse) late) = []"
    using assms(3) by (auto simp: filter_empty_conv list_all_iff usable_def split: option.splits)
  then have "rank_rows (Some limit) t (map (as_lifecycle parse) (xs @ late @ ys)) []
      = rank_rows (Some limit) t (map (as_lifecycle parse) (xs @ ys)) []"
    using rank_rows_filter [of "Some limit" t "map (as_lifecycle parse) (xs @ late @ ys)" "[]"]
      rank_rows_filter [of "Some limit" t "map (as_lifecycle parse) (xs @ ys)" "[]"] by simp
  then show ?thesis by (simp add: universe_of_def assms(1,2))
qed

theorem universe_no_lookahead_witness:
  "universe_of (\<lambda>_. None) (reg_empty 1) ([] @ [lifecycle_row ''listed'' 730000 None 90 1] @ []) (RawDate 738000) (RawDateTime 50) None None
    = universe_of (\<lambda>_. None) (reg_empty 1) ([] @ []) (RawDate 738000) (RawDateTime 50) None None"
  by (rule universe_no_lookahead [where t = 738000 and limit = 50]) (simp_all add: lifecycle_row_def as_lifecycle_def)

text \<open>A revision that ends a status is not heeded after its end: the row it revises is still open, it
  alone covers the later days, and so the entity stays in the universe although the newest version of
  the row has ended.  (\<open>resolve\<close> takes the newest version before it looks at the interval.)\<close>

theorem universe_ignores_closing_revision:
  "let rows = [lifecycle_row ''listed'' 730000 None 10 1, lifecycle_row ''listed'' 730000 (Some 735000) 20 2]
   in universe_of parse g rows (RawDate 738000) (RawDateTime 30) et m
      = universe_of parse g [lifecycle_row ''listed'' 730000 None 10 1] (RawDate 738000) (RawDateTime 30) et m"
  by (simp add: Let_def universe_of_def lifecycle_row_def as_lifecycle_def usable_def lc_start_def)

end
