(* ===== verification/Registry_Sql.thy ===== *)
theory Registry_Sql
  imports Registry_Models
begin

text \<open>
  The registry's tables on SQL: the store that gives a canonical code its entity id
  (\<open>registry/store.py\<close>) and the read-only queries (\<open>registry/reader.py\<close>).  A table is the list of its
  rows in the order of insertion; the columns of \<open>ref.entity\<close> are the fields of a record without
  \<open>attrs\<close>.  A query that leaves the order of equal rows open takes the one inserted first; texts are
  ordered by their bytes.
\<close>

record ref_tables =
  ref_entity :: "entity_record list"
  ref_entity_code_history :: "code_history_record list"
  ref_entity_relation :: "relation_record list"
  ref_entity_external_id :: "external_id_record list"
  ref_relation_type_dict :: "(relation_type_record \<times> date option) list"

subsection \<open>The store\<close>

record entity_request =
  rq_code :: string
  rq_entity_type :: string
  rq_name :: string
  rq_entity_class :: "string option"
  rq_market :: "string option"
  rq_currency :: "string option"
  rq_exchange :: "string option"

definition store_order :: "entity_record \<Rightarrow> int \<times> time option" where
  "store_order r = (er_version r, er_knowledge_time r)"

definition new_entity :: "entity_request \<Rightarrow> int \<Rightarrow> time \<Rightarrow> entity_record" where
  "new_entity q next_id now = \<lparr>er_entity_id = next_id, er_entity_type = rq_entity_type q, er_code = rq_code q,
     er_name = rq_name q, er_entity_class = rq_entity_class q, er_market = rq_market q, er_currency = rq_currency q,
     er_exchange = rq_exchange q, er_frequency = None, er_unit = None, er_algorithm_id = None,
     er_social_status = (if rq_entity_type q = ''issuer'' then Some ''operating'' else None),
     er_valid_from = Some EPOCH, er_valid_to = None, er_knowledge_time = Some now, er_version = 1, er_attrs = None\<rparr>"

definition ensure_entity :: "entity_request \<Rightarrow> time \<Rightarrow> ref_tables \<Rightarrow> ref_tables \<times> entity_record" where
  "ensure_entity q now t =
     (case max_by store_order (filter (\<lambda>r. er_code r = rq_code q) (ref_entity t)) of
        Some existing \<Rightarrow> (t, existing)
      | None \<Rightarrow>
          let ids = map er_entity_id (ref_entity t);
              next_id = (if ids = [] then 10000 else Max (set ids)) + 1;
              record = new_entity q next_id now
          in (t\<lparr>ref_entity := ref_entity t @ [record],
                ref_entity_code_history := ref_entity_code_history t @ [\<lparr>ch_entity_id = next_id, ch_code = rq_code q,
                  ch_valid_from = Some EPOCH, ch_valid_to = None, ch_knowledge_time = Some now, ch_version = 1\<rparr>]\<rparr>, record))"

fun ensure_all :: "(entity_request \<times> time) list \<Rightarrow> ref_tables \<Rightarrow> ref_tables" where
  "ensure_all [] t = t"
| "ensure_all ((q, now) # qs) t = ensure_all qs (fst (ensure_entity q now t))"

text \<open>In the tables that the store alone writes, a code has one row and an id one code.\<close>

definition store_inv :: "ref_tables \<Rightarrow> bool" where
  "store_inv t \<longleftrightarrow> distinct (map er_code (ref_entity t)) \<and> distinct (map er_entity_id (ref_entity t))
     \<and> map (\<lambda>r. (er_entity_id r, er_code r)) (ref_entity t) = map (\<lambda>c. (ch_entity_id c, ch_code c)) (ref_entity_code_history t)"

lemma ensure_entity_cases:
  obtains (known) r where "ensure_entity q now t = (t, r)" "r \<in> set (ref_entity t)" "er_code r = rq_code q"
  | (new) n where "ensure_entity q now t = (t\<lparr>ref_entity := ref_entity t @ [new_entity q n now],
        ref_entity_code_history := ref_entity_code_history t @ [\<lparr>ch_entity_id = n, ch_code = rq_code q,
          ch_valid_from = Some EPOCH, ch_valid_to = None, ch_knowledge_time = Some now, ch_version = 1\<rparr>]\<rparr>, new_entity q n now)"
      "rq_code q \<notin> er_code ` set (ref_entity t)" "n \<notin> er_entity_id ` set (ref_entity t)"
proof (cases "max_by store_order (filter (\<lambda>r. er_code r = rq_code q) (ref_entity t))")
  case None
  let ?ids = "map er_entity_id (ref_entity t)"
  let ?n = "(if ?ids = [] then 10000 else Max (set ?ids)) + 1"
  have "n < ?n" if "n \<in> set ?ids" for n using Max_ge [OF _ that] that by fastforce
  then have "?n \<notin> set ?ids" by blast
  moreover have "rq_code q \<notin> er_code ` set (ref_entity t)" using None by (auto simp: filter_empty_conv)
  ultimately show thesis using None by (intro new [of ?n]) (simp_all add: ensure_entity_def Let_def)
next
  case (Some r)
  with max_by_Some(1) [OF Some] show thesis by (intro known [of r]) (simp_all add: ensure_entity_def)
qed

lemma ensure_entity_inv: "store_inv t \<Longrightarrow> store_inv (fst (ensure_entity q now t))"
  by (cases rule: ensure_entity_cases [of q now t]) (auto simp: store_inv_def new_entity_def)

lemma ensure_entity_in: "snd (ensure_entity q now t) \<in> set (ref_entity (fst (ensure_entity q now t)))"
  by (cases rule: ensure_entity_cases [of q now t]) auto

lemma ensure_entity_code: "er_code (snd (ensure_entity q now t)) = rq_code q"
  by (cases rule: ensure_entity_cases [of q now t]) (auto simp: new_entity_def)

lemma ensure_entity_keeps: "set (ref_entity t) \<subseteq> set (ref_entity (fst (ensure_entity q now t)))"
  by (cases rule: ensure_entity_cases [of q now t]) auto

lemma ensure_all_inv: "store_inv t \<Longrightarrow> store_inv (ensure_all qs t) \<and> set (ref_entity t) \<subseteq> set (ref_entity (ensure_all qs t))"
proof (induction qs t rule: ensure_all.induct)
  case (2 q now qs t)
  with ensure_entity_inv [of t q now] ensure_entity_keeps [of t q now] show ?case by auto
qed simp

definition empty_tables :: ref_tables where
  "empty_tables = \<lparr>ref_entity = [], ref_entity_code_history = [], ref_entity_relation = [],
     ref_entity_external_id = [], ref_relation_type_dict = []\<rparr>"

text \<open>One code, one id: whatever calls of the store came before and come in between, ensuring a code
  again returns the record of the first time, and different codes never share an id.\<close>

theorem store_ids_stable:
  "let (t1, r1) = ensure_entity q now (ensure_all before empty_tables);
       (t2, r2) = ensure_entity q' now' (ensure_all between t1)
   in if rq_code q' = rq_code q then r2 = r1 else er_entity_id r2 \<noteq> er_entity_id r1"
proof -
  obtain t1 r1 where 1: "ensure_entity q now (ensure_all before empty_tables) = (t1, r1)" by (metis prod.exhaust)
  obtain t2 r2 where 2: "ensure_entity q' now' (ensure_all between t1) = (t2, r2)" by (metis prod.exhaust)
  have i0: "store_inv (ensure_all before empty_tables)"
    using ensure_all_inv [of empty_tables before] by (simp add: store_inv_def empty_tables_def)
  have i1: "store_inv t1" using ensure_entity_inv [OF i0, of q now] 1 by simp
  have i2: "store_inv t2" using ensure_entity_inv [of "ensure_all between t1" q' now'] ensure_all_inv [OF i1] 2 by simp
  have "r1 \<in> set (ref_entity t1)" using ensure_entity_in [of q now "ensure_all before empty_tables"] 1 by simp
  then have "r1 \<in> set (ref_entity (ensure_all between t1))" using ensure_all_inv [OF i1] by blast
  then have in1: "r1 \<in> set (ref_entity t2)" using ensure_entity_keeps [of "ensure_all between t1" q' now'] 2 by auto
  have in2: "r2 \<in> set (ref_entity t2)" using ensure_entity_in [of q' now' "ensure_all between t1"] 2 by simp
  have c: "er_code r1 = rq_code q" "er_code r2 = rq_code q'"
    using ensure_entity_code [of q now "ensure_all before empty_tables"] 1 ensure_entity_code [of q' now' "ensure_all between t1"] 2 by simp_all
  have codes: "inj_on er_code (set (ref_entity t2))" and ids: "inj_on er_entity_id (set (ref_entity t2))"
    using i2 by (simp_all add: store_inv_def distinct_map)
  have "if rq_code q' = rq_code q then r2 = r1 else er_entity_id r2 \<noteq> er_entity_id r1"
    using inj_onD [OF codes _ in2 in1] inj_onD [OF ids _ in2 in1] c by fastforce
  then show ?thesis by (simp add: 1 2)
qed

subsection \<open>The reader\<close>

text \<open>
  The rank of the window functions: an open interval first, then the later start, then the higher
  version; the first row of this order is the entity's current state.
\<close>

definition current_rank :: "entity_record \<Rightarrow> bool \<times> date option \<times> int" where
  "current_rank r = (er_valid_to r = None, er_valid_from r, er_version r)"

definition reader_entity :: "int \<Rightarrow> ref_tables \<Rightarrow> entity_record option" where
  "reader_entity eid t = max_by current_rank (filter (\<lambda>r. er_entity_id r = eid) (ref_entity t))"

definition ranked_first :: "entity_record list \<Rightarrow> entity_record list" where
  "ranked_first rows = map (\<lambda>eid. the (max_by current_rank (filter (\<lambda>r. er_entity_id r = eid) rows)))
     (remdups (map er_entity_id rows))"

definition search_filter :: "dialect \<Rightarrow> string option \<Rightarrow> string option \<Rightarrow> string option \<Rightarrow> entity_record \<Rightarrow> bool" where
  "search_filter d query entity_type market r \<longleftrightarrow>
     (case entity_type of None \<Rightarrow> True | Some t \<Rightarrow> t = [] \<or> er_entity_type r = t)
     \<and> (case market of None \<Rightarrow> True | Some m \<Rightarrow> m = [] \<or> er_market r = Some m)
     \<and> (case query of None \<Rightarrow> True | Some q \<Rightarrow> q = []
          \<or> like d (lower (''%'' @ strip q @ ''%'')) (lower (er_code r)) \<or> like d (lower (''%'' @ strip q @ ''%'')) (lower (er_name r)))"

definition search_order :: "entity_record \<Rightarrow> string \<times> string \<times> int" where
  "search_order r = (er_entity_type r, er_code r, er_entity_id r)"

definition search_entities ::
  "dialect \<Rightarrow> string option \<Rightarrow> string option \<Rightarrow> string option \<Rightarrow> nat \<Rightarrow> nat \<Rightarrow> ref_tables \<Rightarrow> entity_record list \<times> nat" where
  "search_entities d query entity_type market limit offset t =
     (let current = ranked_first (filter (search_filter d query entity_type market) (ref_entity t))
      in (take limit (drop offset (sort_key search_order current)), length current))"

definition entity_history :: "int \<Rightarrow> ref_tables \<Rightarrow> entity_record list" where
  "entity_history eid t = sort_key (\<lambda>r. (er_valid_from r, er_version r)) (filter (\<lambda>r. er_entity_id r = eid) (ref_entity t))"

definition reader_code_history :: "int \<Rightarrow> ref_tables \<Rightarrow> code_history_record list" where
  "reader_code_history eid t =
     sort_key (\<lambda>c. (ch_valid_from c, ch_version c)) (filter (\<lambda>c. ch_entity_id c = eid) (ref_entity_code_history t))"

definition reader_external_ids :: "int \<Rightarrow> ref_tables \<Rightarrow> external_id_record list" where
  "reader_external_ids eid t =
     sort_key (\<lambda>x. (xid_id_type x, xid_id_value x)) (filter (\<lambda>x. xid_entity_id x = eid) (ref_entity_external_id t))"

record relation_view =
  rv_relation_type :: string
  rv_direction :: string
  rv_entity_id :: int
  rv_related_id :: int
  rv_related_code :: "string option"
  rv_related_name :: "string option"
  rv_valid_from :: "date option"
  rv_valid_to :: "date option"

definition open_relations :: "(relation_record \<Rightarrow> int) \<Rightarrow> int \<Rightarrow> ref_tables \<Rightarrow> relation_record list" where
  "open_relations col eid t = sort_key (\<lambda>r. (rel_relation_type r, rel_version r))
     (filter (\<lambda>r. col r = eid \<and> rel_valid_to r = None) (ref_entity_relation t))"

definition reader_relation_types :: "ref_tables \<Rightarrow> relation_type_record list" where
  "reader_relation_types t = sort_key rt_relation_type (map fst (filter (\<lambda>(r, valid_to). valid_to = None) (ref_relation_type_dict t)))"

definition peer :: "int \<Rightarrow> ref_tables \<Rightarrow> entity_record option" where
  "peer eid t = find (\<lambda>r. er_entity_id r = eid) (ranked_first (ref_entity t))"

definition reader_relations :: "int \<Rightarrow> ref_tables \<Rightarrow> relation_view list" where
  "reader_relations eid t =
     (let inverse = map_of (rev (map (\<lambda>r. (rt_relation_type r, rt_inverse_relation r)) (reader_relation_types t)))
      in map (\<lambda>r. \<lparr>rv_relation_type = rel_relation_type r, rv_direction = ''out'', rv_entity_id = rel_entity_id r,
             rv_related_id = rel_related_id r, rv_related_code = map_option er_code (peer (rel_related_id r) t),
             rv_related_name = map_option er_name (peer (rel_related_id r) t),
             rv_valid_from = rel_valid_from r, rv_valid_to = rel_valid_to r\<rparr>) (open_relations rel_entity_id eid t)
       @ map (\<lambda>r. \<lparr>rv_relation_type = (case inverse (rel_relation_type r) of None \<Rightarrow> rel_relation_type r | Some i \<Rightarrow> i),
             rv_direction = ''in'', rv_entity_id = rel_entity_id r, rv_related_id = rel_entity_id r,
             rv_related_code = map_option er_code (peer (rel_entity_id r) t),
             rv_related_name = map_option er_name (peer (rel_entity_id r) t),
             rv_valid_from = rel_valid_from r, rv_valid_to = rel_valid_to r\<rparr>) (open_relations rel_related_id eid t))"

lemma max_by_exists: "x \<in> set xs \<Longrightarrow> \<exists>m. max_by f xs = Some m"
  using max_by_None [of f xs] by (cases "max_by f xs") auto

lemma rank_one:
  assumes "eid \<in> er_entity_id ` set rows"
  obtains m where "max_by current_rank (filter (\<lambda>r. er_entity_id r = eid) rows) = Some m" "er_entity_id m = eid" "m \<in> set rows"
proof -
  from assms obtain x where x: "x \<in> set (filter (\<lambda>r. er_entity_id r = eid) rows)" by auto
  obtain m where m: "max_by current_rank (filter (\<lambda>r. er_entity_id r = eid) rows) = Some m"
    using max_by_exists [OF x, of current_rank] ..
  from max_by_Some(1) [OF m] have "er_entity_id m = eid" "m \<in> set rows" by simp_all
  with m show thesis by (rule that)
qed

lemma ranked_first_in:
  "r \<in> set (ranked_first rows) \<longleftrightarrow> max_by current_rank (filter (\<lambda>x. er_entity_id x = er_entity_id r) rows) = Some r"
proof
  assume "r \<in> set (ranked_first rows)"
  then obtain eid where eid: "eid \<in> er_entity_id ` set rows" "r = the (max_by current_rank (filter (\<lambda>x. er_entity_id x = eid) rows))"
    by (auto simp: ranked_first_def)
  from eid(1) obtain m where m: "max_by current_rank (filter (\<lambda>r. er_entity_id r = eid) rows) = Some m" "er_entity_id m = eid"
    by (rule rank_one)
  then have "r = m" using eid(2) by simp
  with m show "max_by current_rank (filter (\<lambda>x. er_entity_id x = er_entity_id r) rows) = Some r" by simp
next
  assume m: "max_by current_rank (filter (\<lambda>x. er_entity_id x = er_entity_id r) rows) = Some r"
  then have "r \<in> set rows" using max_by_Some(1) [OF m] by simp
  then have "er_entity_id r \<in> set (remdups (map er_entity_id rows))" by simp
  then have "the (max_by current_rank (filter (\<lambda>x. er_entity_id x = er_entity_id r) rows)) \<in> set (ranked_first rows)"
    unfolding ranked_first_def set_map by (rule imageI)
  then show "r \<in> set (ranked_first rows)" by (simp add: m)
qed

lemma ranked_first_distinct: "distinct (map er_entity_id (ranked_first rows))"
proof -
  have "er_entity_id (the (max_by current_rank (filter (\<lambda>r. er_entity_id r = eid) rows))) = eid"
    if "eid \<in> er_entity_id ` set rows" for eid
    using that by (rule rank_one) simp
  then have "map er_entity_id (ranked_first rows) = remdups (map er_entity_id rows)"
    unfolding ranked_first_def by (auto simp: o_def intro!: map_idI)
  then show ?thesis by simp
qed

text \<open>A search without a text lists every matching entity once, in the state \<open>entity\<close> reports, given that
  an entity's rows agree on its type and market; its total counts the entities, and its pages are
  the slices of one ordered list.\<close>

theorem search_lists_current:
  assumes "\<forall>r \<in> set (ref_entity t). \<forall>r' \<in> set (ref_entity t). er_entity_id r = er_entity_id r' \<longrightarrow>
    er_entity_type r = er_entity_type r' \<and> er_market r = er_market r'"
  shows "let (items, total) = search_entities d None et m limit 0 t in
    total \<le> limit \<longrightarrow> length items = total \<and> distinct (map er_entity_id items)
      \<and> (\<forall>r. r \<in> set items \<longleftrightarrow> reader_entity (er_entity_id r) t = Some r \<and> search_filter d None et m r)"
proof -
  let ?rows = "filter (search_filter d None et m) (ref_entity t)"
  have in_iff: "r \<in> set (ranked_first ?rows) \<longleftrightarrow> reader_entity (er_entity_id r) t = Some r \<and> search_filter d None et m r" for r
  proof (cases "\<exists>x \<in> set (ref_entity t). er_entity_id x = er_entity_id r \<and> search_filter d None et m x")
    case True
    then obtain x where x: "x \<in> set (ref_entity t)" "er_entity_id x = er_entity_id r" "search_filter d None et m x" by blast
    have all: "search_filter d None et m y" if "y \<in> set (ref_entity t)" "er_entity_id y = er_entity_id r" for y
    proof -
      have "er_entity_type y = er_entity_type x" "er_market y = er_market x" using assms that x(1,2) by metis+
      with x(3) show ?thesis by (simp add: search_filter_def split: option.splits)
    qed
    have "filter (\<lambda>x. er_entity_id x = er_entity_id r) ?rows = filter (\<lambda>x. er_entity_id x = er_entity_id r) (ref_entity t)"
      unfolding filter_filter by (rule filter_cong) (use all in auto)
    then have "r \<in> set (ranked_first ?rows) \<longleftrightarrow> reader_entity (er_entity_id r) t = Some r"
      by (simp add: ranked_first_in reader_entity_def)
    moreover have "search_filter d None et m r" if e: "reader_entity (er_entity_id r) t = Some r"
      using max_by_Some(1) [OF e [unfolded reader_entity_def]] all by simp
    ultimately show ?thesis by blast
  next
    case False
    have "r \<notin> set (ranked_first ?rows)"
    proof
      assume "r \<in> set (ranked_first ?rows)"
      from max_by_Some(1) [OF this [unfolded ranked_first_in]] False show False by auto
    qed
    moreover have "\<not> search_filter d None et m r" if e: "reader_entity (er_entity_id r) t = Some r"
      using max_by_Some(1) [OF e [unfolded reader_entity_def]] False by auto
    ultimately show ?thesis by blast
  qed
  have d: "distinct (map er_entity_id (sort_key search_order (ranked_first ?rows)))"
    using ranked_first_distinct [of ?rows] by (simp add: distinct_map)
  show ?thesis by (simp add: search_entities_def Let_def d in_iff)
qed

definition sample_request_row :: "string \<Rightarrow> entity_request" where
  "sample_request_row name = \<lparr>rq_code = ''600519.SH'', rq_entity_type = ''equity'', rq_name = name,
     rq_entity_class = None, rq_market = Some ''cn'', rq_currency = None, rq_exchange = None\<rparr>"

text \<open>An entity after a change of name on day 739000, as the registry writes it: the first row, its closed
  revision, the new row.\<close>

definition renamed_tables :: ref_tables where
  "renamed_tables = empty_tables\<lparr>ref_entity := [new_entity (sample_request_row ''OLD'') 1 0,
     (new_entity (sample_request_row ''OLD'') 1 5)\<lparr>er_valid_to := Some 738999, er_version := 2\<rparr>,
     (new_entity (sample_request_row ''NEW'') 1 5)\<lparr>er_valid_from := Some 739000, er_version := 3\<rparr>]\<rparr>"

theorem search_lists_current_witness:
  "let (items, total) = search_entities PostgreSQL None (Some ''equity'') None 10 0 renamed_tables in
    total \<le> 10 \<longrightarrow> length items = total \<and> distinct (map er_entity_id items)
      \<and> (\<forall>r. r \<in> set items \<longleftrightarrow> reader_entity (er_entity_id r) renamed_tables = Some r \<and> search_filter PostgreSQL None (Some ''equity'') None r)"
  by (rule search_lists_current) (simp add: renamed_tables_def new_entity_def sample_request_row_def)

text \<open>A search by a past name answers a superseded row as the entity's current state: the text filters
  the rows before they are ranked, so of an entity renamed from OLD to NEW the search for OLD reports
  the open row named OLD, where \<open>entity\<close> reports the row named NEW.\<close>

theorem search_by_past_name:
  "map er_name (fst (search_entities PostgreSQL (Some ''OLD'') None None 10 0 renamed_tables)) = [''OLD'']
   \<and> map_option er_name (reader_entity 1 renamed_tables) = Some ''NEW''"
  by code_simp

end
