(* ===== verification/Cache_Backend.thy ===== *)
theory Cache_Backend
  imports Prelude
begin

text \<open>
  The platform's cache backends (\<open>cache/backend.py\<close>): the in-process cache with TTL, LRU order and two
  limits, the null cache, and the Redis cache over a client.  A byte value is a string, the clock
  counts ticks; an \<open>OrderedDict\<close> is an association list from the least to the most recently used key.
\<close>

subsection \<open>Statistics\<close>

record cache_stats =
  st_hits :: int
  st_misses :: int
  st_sets :: int
  st_deletes :: int
  st_errors :: int
  st_lock_waits :: int
  st_lock_timeouts :: int
  st_bytes_written :: int
  st_evictions :: int
  st_memory_bytes :: "int option"
  st_extra :: "(string, int) dict"

definition no_stats :: cache_stats where
  "no_stats = \<lparr>st_hits = 0, st_misses = 0, st_sets = 0, st_deletes = 0, st_errors = 0, st_lock_waits = 0,
     st_lock_timeouts = 0, st_bytes_written = 0, st_evictions = 0, st_memory_bytes = None, st_extra = []\<rparr>"

fun merged :: "cache_stats \<Rightarrow> cache_stats list \<Rightarrow> cache_stats" where
  "merged acc [] = acc"
| "merged acc (other # others) = merged
     \<lparr>st_hits = st_hits acc + st_hits other, st_misses = st_misses acc + st_misses other,
      st_sets = st_sets acc + st_sets other, st_deletes = st_deletes acc + st_deletes other,
      st_errors = st_errors acc + st_errors other, st_lock_waits = st_lock_waits acc + st_lock_waits other,
      st_lock_timeouts = st_lock_timeouts acc + st_lock_timeouts other,
      st_bytes_written = st_bytes_written acc + st_bytes_written other,
      st_evictions = st_evictions acc + st_evictions other,
      st_memory_bytes = (case st_memory_bytes other of Some m \<Rightarrow> Some m | None \<Rightarrow> st_memory_bytes acc),
      st_extra = AList.updates (dict_keys (st_extra other)) (dict_values (st_extra other)) (st_extra acc)\<rparr> others"

lemma merged_hits: "st_hits (merged s ss) = st_hits s + sum_list (map st_hits ss)"
  by (induction s ss rule: merged.induct) simp_all

subsection \<open>The in-process cache\<close>

record memory_cache =
  mc_entries :: "(string, int option \<times> string) dict"
  mc_locks :: "(string, string \<times> int) dict"
  mc_max_entries :: int
  mc_max_bytes :: int
  mc_bytes :: int
  mc_hits :: int
  mc_misses :: int
  mc_sets :: int
  mc_deletes :: int
  mc_errors :: int
  mc_evictions :: int
  mc_bytes_written :: int

definition new_cache :: "int \<Rightarrow> int \<Rightarrow> memory_cache" where
  "new_cache max_entries max_bytes = \<lparr>mc_entries = [], mc_locks = [], mc_max_entries = max_entries,
     mc_max_bytes = max_bytes, mc_bytes = 0, mc_hits = 0, mc_misses = 0, mc_sets = 0, mc_deletes = 0,
     mc_errors = 0, mc_evictions = 0, mc_bytes_written = 0\<rparr>"

abbreviation size_of :: "string \<Rightarrow> int" where
  "size_of v \<equiv> int (length v)"

text \<open>Assigning a key and moving it to the end.\<close>

definition put_last :: "'k \<Rightarrow> 'v \<Rightarrow> ('k, 'v) dict \<Rightarrow> ('k, 'v) dict" where
  "put_last k v d = AList.delete k d @ [(k, v)]"

definition expired :: "int option \<Rightarrow> int \<Rightarrow> bool" where
  "expired expires_at now = (case expires_at of None \<Rightarrow> False | Some t \<Rightarrow> t \<le> now)"

definition cache_get :: "string \<Rightarrow> int \<Rightarrow> memory_cache \<Rightarrow> memory_cache \<times> string option" where
  "cache_get key now c =
     (case map_of (mc_entries c) key of
        None \<Rightarrow> (c\<lparr>mc_misses := mc_misses c + 1\<rparr>, None)
      | Some (expires_at, value) \<Rightarrow>
          if expired expires_at now
          then (c\<lparr>mc_entries := AList.delete key (mc_entries c), mc_bytes := mc_bytes c - size_of value,
                  mc_misses := mc_misses c + 1\<rparr>, None)
          else (c\<lparr>mc_entries := put_last key (expires_at, value) (mc_entries c), mc_hits := mc_hits c + 1\<rparr>, Some value))"

fun evict_from :: "int \<Rightarrow> int \<Rightarrow> (string, int option \<times> string) dict \<Rightarrow> int \<Rightarrow> int \<Rightarrow> (string, int option \<times> string) dict \<times> int \<times> int" where
  "evict_from max_entries max_bytes [] bytes evictions = ([], bytes, evictions)"
| "evict_from max_entries max_bytes ((k, e, v) # rest) bytes evictions =
     (if max_entries < int (length ((k, e, v) # rest)) \<or> max_bytes < bytes
      then evict_from max_entries max_bytes rest (bytes - size_of v) (evictions + 1)
      else ((k, e, v) # rest, bytes, evictions))"

definition evict :: "memory_cache \<Rightarrow> memory_cache" where
  "evict c = (case evict_from (mc_max_entries c) (mc_max_bytes c) (mc_entries c) (mc_bytes c) (mc_evictions c) of
     (entries, bytes, evictions) \<Rightarrow> c\<lparr>mc_entries := entries, mc_bytes := bytes, mc_evictions := evictions\<rparr>)"

definition cache_set :: "string \<Rightarrow> string \<Rightarrow> int option \<Rightarrow> int \<Rightarrow> memory_cache \<Rightarrow> memory_cache" where
  "cache_set key value ttl now c =
     (let expires_at = (case ttl of None \<Rightarrow> None | Some d \<Rightarrow> Some (now + d));
          bytes = (case map_of (mc_entries c) key of None \<Rightarrow> mc_bytes c | Some (_, old) \<Rightarrow> mc_bytes c - size_of old)
      in evict (c\<lparr>mc_entries := put_last key (expires_at, value) (mc_entries c), mc_bytes := bytes + size_of value,
                  mc_sets := mc_sets c + 1, mc_bytes_written := mc_bytes_written c + size_of value\<rparr>))"

definition cache_delete :: "string \<Rightarrow> memory_cache \<Rightarrow> memory_cache" where
  "cache_delete key c =
     (case map_of (mc_entries c) key of
        None \<Rightarrow> c
      | Some (_, value) \<Rightarrow> c\<lparr>mc_entries := AList.delete key (mc_entries c), mc_bytes := mc_bytes c - size_of value,
          mc_deletes := mc_deletes c + 1\<rparr>)"

text \<open>
  \<open>int(text)\<close> of a decimal text: white space around it, a sign, and single underscores between
  digits are allowed.
\<close>

fun digits_from :: "bool \<Rightarrow> string \<Rightarrow> bool" where
  "digits_from after_digit [] = after_digit"
| "digits_from after_digit (c # cs) =
     (if is_digit c then digits_from True cs else c = CHR ''_'' \<and> after_digit \<and> digits_from False cs)"

definition py_int :: "string \<Rightarrow> int option" where
  "py_int s =
     (let t = strip s;
          (negative, body) = (case t of CHR ''-'' # ds \<Rightarrow> (True, ds) | CHR ''+'' # ds \<Rightarrow> (False, ds) | _ \<Rightarrow> (False, t))
      in if body \<noteq> [] \<and> is_digit (hd body) \<and> digits_from False body
         then let n = int (digits_val (filter is_digit body)) in Some (if negative then - n else n)
         else None)"

text \<open>
  \<open>incr\<close>.  A live value that is no integer raises after the bytes of the old value have been
  subtracted; an expired one is dropped first.
\<close>

definition cache_incr :: "string \<Rightarrow> int option \<Rightarrow> int \<Rightarrow> memory_cache \<Rightarrow> memory_cache \<times> int result" where
  "cache_incr key ttl now c =
     (let (c1, found) = (case map_of (mc_entries c) key of
             None \<Rightarrow> (c, None)
           | Some (expires_at, old) \<Rightarrow>
               let c0 = c\<lparr>mc_bytes := mc_bytes c - size_of old\<rparr>
               in if expired expires_at now then (c0\<lparr>mc_entries := AList.delete key (mc_entries c)\<rparr>, None)
                  else (c0, Some (expires_at, py_int old)))
      in case found of
           Some (_, None) \<Rightarrow> (c1, Inl ValueError)
         | _ \<Rightarrow>
           let (current, kept) = (case found of Some (e, Some n) \<Rightarrow> (n, e) | _ \<Rightarrow> (0, None));
               value = current + 1;
               expires_at = (if current = 0 then (case ttl of Some d \<Rightarrow> Some (now + d) | None \<Rightarrow> kept) else kept);
               payload = int_str value
           in (c1\<lparr>mc_entries := put_last key (expires_at, payload) (mc_entries c1), mc_bytes := mc_bytes c1 + size_of payload\<rparr>,
               Inr value))"

definition cache_acquire_lock :: "string \<Rightarrow> string \<Rightarrow> int \<Rightarrow> int \<Rightarrow> memory_cache \<Rightarrow> memory_cache \<times> bool" where
  "cache_acquire_lock key token ttl now c =
     (if (case map_of (mc_locks c) key of None \<Rightarrow> False | Some (_, until) \<Rightarrow> now < until) then (c, False)
      else (c\<lparr>mc_locks := AList.update key (token, now + ttl) (mc_locks c)\<rparr>, True))"

definition cache_release_lock :: "string \<Rightarrow> string \<Rightarrow> memory_cache \<Rightarrow> memory_cache" where
  "cache_release_lock key token c =
     (case map_of (mc_locks c) key of
        None \<Rightarrow> c
      | Some (holder, _) \<Rightarrow> if holder = token then c\<lparr>mc_locks := AList.delete key (mc_locks c)\<rparr> else c)"

definition cache_stats_of :: "memory_cache \<Rightarrow> cache_stats" where
  "cache_stats_of c = no_stats\<lparr>st_hits := mc_hits c, st_misses := mc_misses c, st_sets := mc_sets c,
     st_deletes := mc_deletes c, st_errors := mc_errors c, st_bytes_written := mc_bytes_written c,
     st_evictions := mc_evictions c, st_memory_bytes := Some (mc_bytes c),
     st_extra := [(''entries'', int (length (mc_entries c)))]\<rparr>"

definition cache_clear :: "memory_cache \<Rightarrow> memory_cache" where
  "cache_clear c = c\<lparr>mc_entries := [], mc_locks := [], mc_bytes := 0\<rparr>"

subsection \<open>Lemmas on the ordered dictionary\<close>

lemma put_last_lookup [simp]: "map_of (put_last k v d) k' = (if k' = k then Some v else map_of d k')"
  by (simp add: put_last_def map_add_def delete_conv' split: option.split)

lemma delete_distinct: "distinct (dict_keys d) \<Longrightarrow> distinct (dict_keys (AList.delete k d))"
  by (rule distinct_delete)

lemma put_last_distinct: "distinct (dict_keys d) \<Longrightarrow> distinct (dict_keys (put_last k v d))"
  by (simp add: put_last_def delete_keys distinct_removeAll)

definition weight :: "(string, int option \<times> string) dict \<Rightarrow> int" where
  "weight d = sum_list (map (\<lambda>(k, e, v). size_of v) d)"

lemma weight_simps [simp]: "weight [] = 0" "weight ((k, e, v) # d) = size_of v + weight d" "weight (d @ d') = weight d + weight d'"
  by (simp_all add: weight_def)

lemma weight_nonneg [simp]: "0 \<le> weight d"
  unfolding weight_def by (intro sum_list_nonneg) auto

lemma weight_delete:
  "distinct (dict_keys d) \<Longrightarrow> weight (AList.delete k d) = weight d - (case map_of d k of None \<Rightarrow> 0 | Some (e, v) \<Rightarrow> size_of v)"
proof (induction d)
  case (Cons p d)
  obtain k' e v where p: "p = (k', e, v)" by (cases p)
  have "k' \<notin> set (dict_keys d) \<Longrightarrow> AList.delete k' d = d" by (simp add: delete_id)
  with Cons p show ?case by auto
qed simp

lemma weight_put_last:
  "distinct (dict_keys d) \<Longrightarrow> weight (put_last k (e, v) d) = weight d - (case map_of d k of None \<Rightarrow> 0 | Some (e, v) \<Rightarrow> size_of v) + size_of v"
  by (simp add: put_last_def weight_delete)

lemma evict_from_suffix:
  "evict_from me mb d b n = (d', b', n') \<Longrightarrow> \<exists>ps. d = ps @ d' \<and> b' = b - weight ps \<and> n' = n + int (length ps)"
proof (induction d arbitrary: b n)
  case (Cons p d)
  obtain k e v where p: "p = (k, e, v)" by (cases p)
  show ?case
  proof (cases "me < int (length (p # d)) \<or> mb < b")
    case True
    with Cons.prems p have "evict_from me mb d (b - size_of v) (n + 1) = (d', b', n')" by simp
    from Cons.IH [OF this] obtain ps where "d = ps @ d'" "b' = b - size_of v - weight ps" "n' = n + 1 + int (length ps)" by blast
    with p show ?thesis by (intro exI [of _ "p # ps"]) simp
  next
    case False
    with Cons.prems p show ?thesis by (intro exI [of _ "[]"]) auto
  qed
qed simp

lemma evict_from_limits:
  "evict_from me mb d b n = (d', b', n') \<Longrightarrow> b = weight d \<Longrightarrow>
    b' = weight d' \<and> (d' = [] \<or> int (length d') \<le> me \<and> b' \<le> mb)"
  by (induction d arbitrary: b n) (auto split: if_splits)

subsection \<open>The null cache\<close>

definition null_get :: "string \<Rightarrow> unit \<Rightarrow> unit \<times> string option" where "null_get key u = (u, None)"
definition null_set :: "string \<Rightarrow> string \<Rightarrow> int option \<Rightarrow> unit \<Rightarrow> unit" where "null_set key value ttl u = u"
definition null_incr :: "string \<Rightarrow> int option \<Rightarrow> unit \<Rightarrow> unit \<times> int" where "null_incr key ttl u = (u, 0)"
definition null_acquire_lock :: "string \<Rightarrow> string \<Rightarrow> int \<Rightarrow> unit \<Rightarrow> unit \<times> bool" where
  "null_acquire_lock key token ttl u = (u, False)"

subsection \<open>Sequences of calls\<close>

datatype cache_call =
    CacheGet string int
  | CacheSet string string "int option" int
  | CacheDelete string
  | CacheLock string string int int
  | CacheUnlock string string
  | CacheClear

fun cache_exec :: "cache_call \<Rightarrow> memory_cache \<Rightarrow> memory_cache" where
  "cache_exec (CacheGet key now) c = fst (cache_get key now c)"
| "cache_exec (CacheSet key value ttl now) c = cache_set key value ttl now c"
| "cache_exec (CacheDelete key) c = cache_delete key c"
| "cache_exec (CacheLock key token ttl now) c = fst (cache_acquire_lock key token ttl now c)"
| "cache_exec (CacheUnlock key token) c = cache_release_lock key token c"
| "cache_exec CacheClear c = cache_clear c"

definition cache_run :: "cache_call list \<Rightarrow> memory_cache \<Rightarrow> memory_cache" where
  "cache_run cs c = foldl (\<lambda>c call. cache_exec call c) c cs"

text \<open>The reference: a store that forgets nothing but what is deleted or overwritten.\<close>

fun ref_exec :: "cache_call \<Rightarrow> (string \<rightharpoonup> int option \<times> string) \<Rightarrow> (string \<rightharpoonup> int option \<times> string)" where
  "ref_exec (CacheSet key value ttl now) m = m(key \<mapsto> (map_option (\<lambda>d. now + d) ttl, value))"
| "ref_exec (CacheDelete key) m = m(key := None)"
| "ref_exec CacheClear m = Map.empty"
| "ref_exec _ m = m"

definition ref_run :: "cache_call list \<Rightarrow> (string \<rightharpoonup> int option \<times> string)" where
  "ref_run cs = foldl (\<lambda>m call. ref_exec call m) Map.empty cs"

text \<open>The accounting is exact, the limits hold, and every entry is the reference's.\<close>

definition cache_inv :: "memory_cache \<Rightarrow> (string \<rightharpoonup> int option \<times> string) \<Rightarrow> bool" where
  "cache_inv c m \<longleftrightarrow> distinct (dict_keys (mc_entries c)) \<and> mc_bytes c = weight (mc_entries c)
     \<and> int (length (mc_entries c)) \<le> mc_max_entries c \<and> mc_bytes c \<le> mc_max_bytes c
     \<and> 0 \<le> mc_max_entries c \<and> 0 \<le> mc_max_bytes c
     \<and> map_of (mc_entries c) \<subseteq>\<^sub>m m"

lemma weight_delete_le: "distinct (dict_keys d) \<Longrightarrow> weight (AList.delete k d) \<le> weight d"
  by (simp add: weight_delete split: option.split)

lemma delete_length_le: "length (AList.delete k d) \<le> length d"
  by (induction d) auto

lemma put_last_length: "distinct (dict_keys d) \<Longrightarrow> k \<in> set (dict_keys d) \<Longrightarrow> length (put_last k v d) = length d"
proof (induction d)
  case (Cons p d)
  show ?case
  proof (cases "fst p = k")
    case True
    with Cons.prems(1) show ?thesis by (cases p) (auto simp: put_last_def delete_id)
  next
    case False
    with Cons show ?thesis by (cases p) (auto simp: put_last_def)
  qed
qed simp

lemma suffix_map_le: "distinct (dict_keys (ps @ d)) \<Longrightarrow> map_of d \<subseteq>\<^sub>m map_of (ps @ d)"
  by (auto simp: map_le_def map_add_dom_app_simps domIff dom_map_of_conv_image_fst map_add_def split: option.split
    dest!: map_of_SomeD) (metis disjoint_iff fst_conv imageI)

lemma delete_map_le: "map_of (AList.delete k d) \<subseteq>\<^sub>m map_of d"
  by (simp add: delete_conv' map_le_def)

lemma evict_inv:
  assumes "distinct (dict_keys (mc_entries c))" and "mc_bytes c = weight (mc_entries c)" and "map_of (mc_entries c) \<subseteq>\<^sub>m m"
    and "0 \<le> mc_max_entries c" and "0 \<le> mc_max_bytes c"
  shows "cache_inv (evict c) m"
proof -
  obtain d b n where e: "evict_from (mc_max_entries c) (mc_max_bytes c) (mc_entries c) (mc_bytes c) (mc_evictions c) = (d, b, n)"
    by (metis prod.exhaust)
  from evict_from_suffix [OF e] obtain ps where ps: "mc_entries c = ps @ d" by blast
  from evict_from_limits [OF e assms(2)] have lim: "b = weight d" "d = [] \<or> int (length d) \<le> mc_max_entries c \<and> b \<le> mc_max_bytes c"
    by blast+
  have "map_of d \<subseteq>\<^sub>m m" using suffix_map_le [of ps d] assms(1,3) ps by (metis map_le_trans)
  moreover have "distinct (dict_keys d)" using assms(1) ps by simp
  moreover have "evict c = c\<lparr>mc_entries := d, mc_bytes := b, mc_evictions := n\<rparr>" by (simp add: evict_def e)
  ultimately show ?thesis using lim assms(4,5) by (auto simp: cache_inv_def)
qed

lemma cache_exec_inv:
  assumes "cache_inv c m"
  shows "cache_inv (cache_exec call c) (ref_exec call m)"
proof (cases call)
  case (CacheGet key now)
  show ?thesis
  proof (cases "map_of (mc_entries c) key")
    case None
    with assms CacheGet show ?thesis by (simp add: cache_get_def cache_inv_def)
  next
    case (Some p)
    obtain e v where p: "p = (e, v)" by (cases p)
    have key: "key \<in> set (dict_keys (mc_entries c))" using Some by (rule map_of_key_in)
    show ?thesis
    proof (cases "expired e now")
      case True
      have "map_of (AList.delete key (mc_entries c)) \<subseteq>\<^sub>m m"
        using assms delete_map_le by (metis cache_inv_def map_le_trans)
      with True Some p assms CacheGet weight_delete [of "mc_entries c" key] weight_nonneg [of "AList.delete key (mc_entries c)"]
      show ?thesis using delete_length_le [of key "mc_entries c"] by (simp add: cache_get_def cache_inv_def delete_distinct)
    next
      case False
      have "map_of (put_last key (e, v) (mc_entries c)) = map_of (mc_entries c)" using Some p by auto
      with False Some p assms CacheGet weight_put_last [of "mc_entries c" key e v] put_last_length [OF _ key]
      show ?thesis by (simp add: cache_get_def cache_inv_def put_last_distinct)
    qed
  qed
next
  case (CacheSet key v ttl now)
  let ?e = "map_option (\<lambda>d. now + d) ttl"
  have e: "(case ttl of None \<Rightarrow> None | Some d \<Rightarrow> Some (now + d)) = ?e" by (cases ttl) simp_all
  have "map_of (put_last key (?e, v) (mc_entries c)) \<subseteq>\<^sub>m m(key \<mapsto> (?e, v))"
    using assms by (auto simp: cache_inv_def map_le_def dom_def)
  then have "cache_inv (cache_set key v ttl now c) (m(key \<mapsto> (?e, v)))"
    unfolding cache_set_def Let_def e
    using assms by (intro evict_inv)
      (auto simp: cache_inv_def put_last_distinct weight_put_last split: option.split)
  then show ?thesis by (simp add: CacheSet)
next
  case (CacheDelete key)
  have "map_of (AList.delete key (mc_entries c)) \<subseteq>\<^sub>m m(key := None)"
    using assms by (auto simp: cache_inv_def map_le_def dom_def delete_conv')
  moreover have "map_of (mc_entries c) \<subseteq>\<^sub>m m(key := None)" if "map_of (mc_entries c) key = None"
    using assms that by (auto simp: cache_inv_def map_le_def dom_def)
  ultimately show ?thesis
    using assms CacheDelete weight_delete [of "mc_entries c" key] weight_nonneg [of "AList.delete key (mc_entries c)"]
      delete_length_le [of key "mc_entries c"]
    by (auto simp: cache_delete_def cache_inv_def delete_distinct split: option.split)
next
  case (CacheLock key token ttl now)
  with assms show ?thesis by (simp add: cache_acquire_lock_def cache_inv_def)
next
  case (CacheUnlock key token)
  with assms show ?thesis by (auto simp: cache_release_lock_def cache_inv_def split: option.split)
next
  case CacheClear
  with assms show ?thesis by (simp add: cache_clear_def cache_inv_def)
qed

lemma cache_run_inv:
  assumes "0 \<le> me" and "0 \<le> mb"
  shows "cache_inv (cache_run cs (new_cache me mb)) (ref_run cs)"
proof (induction cs rule: rev_induct)
  case Nil
  then show ?case using assms by (simp add: cache_run_def ref_run_def cache_inv_def new_cache_def)
next
  case (snoc call cs)
  from cache_exec_inv [OF this] show ?case by (simp add: cache_run_def ref_run_def)
qed

lemma cache_exec_limits:
  "mc_max_entries (cache_exec call c) = mc_max_entries c \<and> mc_max_bytes (cache_exec call c) = mc_max_bytes c"
  by (cases call) (auto simp: cache_get_def cache_set_def evict_def cache_delete_def cache_acquire_lock_def
    cache_release_lock_def cache_clear_def Let_def split: option.split prod.split)

lemma cache_run_limits:
  "mc_max_entries (cache_run cs (new_cache me mb)) = me \<and> mc_max_bytes (cache_run cs (new_cache me mb)) = mb"
proof (induction cs rule: rev_induct)
  case Nil
  show ?case by (simp add: cache_run_def new_cache_def)
next
  case (snoc call cs)
  then show ?case by (simp add: cache_run_def cache_exec_limits)
qed

lemma evict_keeps_last:
  "evict_from me mb (d @ [(k, e, v)]) b n = (d', b', n') \<Longrightarrow> b = weight d + size_of v \<Longrightarrow> 1 \<le> me \<Longrightarrow> size_of v \<le> mb \<Longrightarrow>
    \<exists>d2. d' = d2 @ [(k, e, v)]"
proof (induction d arbitrary: b n)
  case (Cons p d)
  obtain k' e' v' where p: "p = (k', e', v')" by (cases p)
  show ?case
  proof (cases "me < int (length (p # d @ [(k, e, v)])) \<or> mb < b")
    case True
    with Cons.prems p have "evict_from me mb (d @ [(k, e, v)]) (b - size_of v') (n + 1) = (d', b', n')" by simp
    from Cons.IH [OF this] Cons.prems p show ?thesis by simp
  next
    case False
    with Cons.prems p show ?thesis by (intro exI [of _ "p # d"]) auto
  qed
qed auto

lemma evict_accounts:
  assumes "distinct (dict_keys (mc_entries c))" and "mc_bytes c = weight (mc_entries c)"
  shows "distinct (dict_keys (mc_entries (evict c))) \<and> mc_bytes (evict c) = weight (mc_entries (evict c))
    \<and> map_of (mc_entries (evict c)) \<subseteq>\<^sub>m map_of (mc_entries c)"
proof -
  obtain d b n where e: "evict_from (mc_max_entries c) (mc_max_bytes c) (mc_entries c) (mc_bytes c) (mc_evictions c) = (d, b, n)"
    by (metis prod.exhaust)
  from evict_from_suffix [OF e] obtain ps where ps: "mc_entries c = ps @ d" by blast
  have "b = weight d" using evict_from_limits [OF e assms(2)] by blast
  moreover have "map_of d \<subseteq>\<^sub>m map_of (mc_entries c)" using suffix_map_le [of ps d] assms(1) ps by simp
  moreover have "distinct (dict_keys d)" using assms(1) ps by simp
  moreover have "evict c = c\<lparr>mc_entries := d, mc_bytes := b, mc_evictions := n\<rparr>" by (simp add: evict_def e)
  ultimately show ?thesis by simp
qed

lemma set_accounts:
  assumes "distinct (dict_keys (mc_entries c))" and "mc_bytes c = weight (mc_entries c)"
  shows "distinct (dict_keys (mc_entries (cache_set key v ttl now c)))"
    and "mc_bytes (cache_set key v ttl now c) = weight (mc_entries (cache_set key v ttl now c))"
    and "map_of (mc_entries (cache_set key v ttl now c)) \<subseteq>\<^sub>m (map_of (mc_entries c))(key \<mapsto> (map_option (\<lambda>d. now + d) ttl, v))"
proof -
  let ?e = "map_option (\<lambda>d. now + d) ttl"
  have e: "(case ttl of None \<Rightarrow> None | Some d \<Rightarrow> Some (now + d)) = ?e" by (cases ttl) simp_all
  let ?c = "c\<lparr>mc_entries := put_last key (?e, v) (mc_entries c),
      mc_bytes := (case map_of (mc_entries c) key of None \<Rightarrow> mc_bytes c | Some (_, old) \<Rightarrow> mc_bytes c - size_of old) + size_of v,
      mc_sets := mc_sets c + 1, mc_bytes_written := mc_bytes_written c + size_of v\<rparr>"
  have s: "cache_set key v ttl now c = evict ?c" by (simp add: cache_set_def e)
  have "distinct (dict_keys (mc_entries ?c))" "mc_bytes ?c = weight (mc_entries ?c)"
    using assms by (simp_all add: put_last_distinct weight_put_last split: option.split)
  note a = evict_accounts [OF this]
  moreover have "map_of (mc_entries ?c) = (map_of (mc_entries c))(key \<mapsto> (?e, v))" by auto
  ultimately show "distinct (dict_keys (mc_entries (cache_set key v ttl now c)))"
    and "mc_bytes (cache_set key v ttl now c) = weight (mc_entries (cache_set key v ttl now c))"
    and "map_of (mc_entries (cache_set key v ttl now c)) \<subseteq>\<^sub>m (map_of (mc_entries c))(key \<mapsto> (?e, v))"
    unfolding s by simp_all
qed

lemma set_entry:
  assumes d: "distinct (dict_keys (mc_entries c))" and w: "mc_bytes c = weight (mc_entries c)"
    and "1 \<le> mc_max_entries c" and "size_of v \<le> mc_max_bytes c"
  shows "map_of (mc_entries (cache_set key v ttl now c)) key = Some (map_option (\<lambda>d. now + d) ttl, v)"
proof -
  let ?e = "map_option (\<lambda>d. now + d) ttl" and ?d = "AList.delete key (mc_entries c)"
  have e: "(case ttl of None \<Rightarrow> None | Some d \<Rightarrow> Some (now + d)) = ?e" by (cases ttl) simp_all
  let ?b = "(case map_of (mc_entries c) key of None \<Rightarrow> mc_bytes c | Some (_, old) \<Rightarrow> mc_bytes c - size_of old) + size_of v"
  obtain d' b' n' where ev: "evict_from (mc_max_entries c) (mc_max_bytes c) (?d @ [(key, ?e, v)]) ?b (mc_evictions c) = (d', b', n')"
    by (metis prod.exhaust)
  have "?b = weight ?d + size_of v" using d w by (simp add: weight_delete split: option.split)
  from evict_keeps_last [OF ev this assms(3,4)] obtain d2 where d2: "d' = d2 @ [(key, ?e, v)]" by blast
  from evict_from_suffix [OF ev] d2 obtain ps where "?d = ps @ d2" by auto
  then have "set (dict_keys d2) \<subseteq> set (dict_keys ?d)" by auto
  then have "key \<notin> set (dict_keys d2)" by (auto simp: delete_keys)
  then have "map_of d' key = Some (?e, v)" by (simp add: d2 map_add_def map_of_eq_None_iff [THEN iffD2] split: option.split)
  moreover have "mc_entries (cache_set key v ttl now c) = d'"
    by (simp add: cache_set_def e put_last_def evict_def ev Let_def)
  ultimately show ?thesis by simp
qed

lemma set_then_get:
  assumes "cache_inv c m" and "1 \<le> mc_max_entries c" and "size_of v \<le> mc_max_bytes c"
    and "\<not> expired (map_option (\<lambda>d. now + d) ttl) later"
  shows "snd (cache_get key later (cache_set key v ttl now c)) = Some v"
  using set_entry [of c v key ttl now] assms by (simp add: cache_inv_def cache_get_def)

end
