(* ===== verification/Cache_Keys.thy ===== *)
theory Cache_Keys
  imports Cache_Backend Runtime_Keys
begin

text \<open>
  Cache keys and domain generations (\<open>cache/keys.py\<close>) over the protocol of a backend.  A backend is a
  record of its operations on a state of its own; every operation may raise, the exception's text being
  the \<open>Inl\<close> of its answer, and gets the reading of the clock.
\<close>

record 's backend =
  be_name :: string
  be_get :: "string \<Rightarrow> int \<Rightarrow> 's \<Rightarrow> 's \<times> (string + string option)"
  be_set :: "string \<Rightarrow> string \<Rightarrow> int option \<Rightarrow> int \<Rightarrow> 's \<Rightarrow> 's \<times> (string + unit)"
  be_delete :: "string \<Rightarrow> int \<Rightarrow> 's \<Rightarrow> 's \<times> (string + unit)"
  be_incr :: "string \<Rightarrow> int option \<Rightarrow> int \<Rightarrow> 's \<Rightarrow> 's \<times> (string + int)"
  be_acquire_lock :: "string \<Rightarrow> string \<Rightarrow> int \<Rightarrow> int \<Rightarrow> 's \<Rightarrow> 's \<times> (string + bool)"
  be_release_lock :: "string \<Rightarrow> string \<Rightarrow> int \<Rightarrow> 's \<Rightarrow> 's \<times> (string + unit)"

definition memory_backend :: "memory_cache backend" where
  "memory_backend = \<lparr>be_name = ''memory'',
     be_get = (\<lambda>key now c. case cache_get key now c of (c', v) \<Rightarrow> (c', Inr v)),
     be_set = (\<lambda>key value ttl now c. (cache_set key value ttl now c, Inr ())),
     be_delete = (\<lambda>key now c. (cache_delete key c, Inr ())),
     be_incr = (\<lambda>key ttl now c. case cache_incr key ttl now c of
        (c', Inl _) \<Rightarrow> (c', Inl ''ValueError'') | (c', Inr n) \<Rightarrow> (c', Inr n)),
     be_acquire_lock = (\<lambda>key token ttl now c. case cache_acquire_lock key token ttl now c of (c', ok) \<Rightarrow> (c', Inr ok)),
     be_release_lock = (\<lambda>key token now c. (cache_release_lock key token c, Inr ()))\<rparr>"

definition null_backend :: "unit backend" where
  "null_backend = \<lparr>be_name = ''null'', be_get = (\<lambda>key now u. case null_get key u of (u', v) \<Rightarrow> (u', Inr v)),
     be_set = (\<lambda>key value ttl now u. (null_set key value ttl u, Inr ())), be_delete = (\<lambda>key now u. (u, Inr ())),
     be_incr = (\<lambda>key ttl now u. case null_incr key ttl u of (u', n) \<Rightarrow> (u', Inr n)),
     be_acquire_lock = (\<lambda>key token ttl now u. case null_acquire_lock key token ttl u of (u', ok) \<Rightarrow> (u', Inr ok)),
     be_release_lock = (\<lambda>key token now u. (u, Inr ()))\<rparr>"

subsection \<open>Redis\<close>

text \<open>
  \<open>RedisCache\<close> over the commands of a client, which are parameters: \<open>SET\<close> with its \<open>NX\<close> flag and
  \<open>PX\<close> milliseconds, \<open>EXPIRE\<close> in seconds.  Times are in milliseconds here; \<open>release_lock\<close> is the atomic
  \<open>WATCH\<close>/\<open>MULTI\<close> block.
\<close>

record 'r redis_client =
  rc_get :: "string \<Rightarrow> 'r \<Rightarrow> 'r \<times> (string + string option)"
  rc_set :: "string \<Rightarrow> string \<Rightarrow> bool \<Rightarrow> int option \<Rightarrow> 'r \<Rightarrow> 'r \<times> (string + bool)"
  rc_delete :: "string \<Rightarrow> 'r \<Rightarrow> 'r \<times> (string + unit)"
  rc_incr :: "string \<Rightarrow> 'r \<Rightarrow> 'r \<times> (string + int)"
  rc_expire :: "string \<Rightarrow> int \<Rightarrow> 'r \<Rightarrow> 'r \<times> (string + unit)"

definition px_of :: "int \<Rightarrow> int" where
  "px_of ttl = max 1 ttl"

definition redis_backend :: "'r redis_client \<Rightarrow> 'r backend" where
  "redis_backend cl = \<lparr>be_name = ''redis'',
     be_get = (\<lambda>key now r. rc_get cl key r),
     be_set = (\<lambda>key value ttl now r. case rc_set cl key value False (map_option px_of ttl) r of
        (r', Inl e) \<Rightarrow> (r', Inl e) | (r', Inr _) \<Rightarrow> (r', Inr ())),
     be_delete = (\<lambda>key now r. rc_delete cl key r),
     be_incr = (\<lambda>key ttl now r. case rc_incr cl key r of
        (r', Inl e) \<Rightarrow> (r', Inl e)
      | (r', Inr n) \<Rightarrow> (case ttl of
            Some d \<Rightarrow> if n = 1 then (case rc_expire cl key (max 1 (d div 1000)) r' of
                (r'', Inl e) \<Rightarrow> (r'', Inl e) | (r'', Inr _) \<Rightarrow> (r'', Inr n)) else (r', Inr n)
          | None \<Rightarrow> (r', Inr n))),
     be_acquire_lock = (\<lambda>key token ttl now r. rc_set cl key token True (Some (px_of ttl)) r),
     be_release_lock = (\<lambda>key token now r. case rc_get cl key r of
        (r', Inl e) \<Rightarrow> (r', Inl e)
      | (r', Inr holder) \<Rightarrow> if holder = Some token \<or> (holder = None \<and> token = []) then rc_delete cl key r' else (r', Inr ()))\<rparr>"

subsection \<open>Keys\<close>

definition KEY_PREFIX :: string where "KEY_PREFIX = ''fdh''"

definition GENERATION_KEY :: "string \<Rightarrow> string" where "GENERATION_KEY domain = KEY_PREFIX @ '':gen:'' @ domain"

definition lock_key :: "string \<Rightarrow> string" where "lock_key key = KEY_PREFIX @ '':lock:'' @ key"

text \<open>A time of the key: a day, a moment (its ISO text is the argument \<open>fmt\<close>) or a text.\<close>

datatype pit_value = PitDate date | PitMoment time | PitText string

fun pit_iso :: "(time \<Rightarrow> string) \<Rightarrow> pit_value \<Rightarrow> string" where
  "pit_iso fmt (PitDate d) = date_iso d"
| "pit_iso fmt (PitMoment t) = fmt t"
| "pit_iso fmt (PitText s) = s"

definition pit_token :: "(time \<Rightarrow> string) \<Rightarrow> pit_value option \<Rightarrow> pit_value option \<Rightarrow> string result" where
  "pit_token fmt as_of knowledge_time =
     (case (as_of, knowledge_time) of
        (Some _, Some _) \<Rightarrow> Inl ValueError
      | (Some a, None) \<Rightarrow> Inr (''asof:'' @ pit_iso fmt a)
      | (None, Some k) \<Rightarrow> Inr (''kt:'' @ pit_iso fmt k)
      | (None, None) \<Rightarrow> Inl ValueError)"

definition PARAMS_HASH_LENGTH :: nat where "PARAMS_HASH_LENGTH = 16"

text \<open>The parameters' values arrive as their JSON texts.\<close>

definition params_payload :: "(string, string) dict \<Rightarrow> string" where
  "params_payload params = ''{'' @ join '','' (map (\<lambda>(k, v). json_str k @ '':'' @ v) (sort_key fst params)) @ ''}''"

definition params_hash :: "(string \<Rightarrow> string) \<Rightarrow> (string, string) dict option \<Rightarrow> string" where
  "params_hash sha256_hex params =
     take PARAMS_HASH_LENGTH (sha256_hex (params_payload (case params of None \<Rightarrow> [] | Some p \<Rightarrow> p)))"

definition cache_key ::
  "(string \<Rightarrow> string) \<Rightarrow> (time \<Rightarrow> string) \<Rightarrow> string \<Rightarrow> string \<Rightarrow> int \<Rightarrow> pit_value option \<Rightarrow> pit_value option
    \<Rightarrow> (string, string) dict option \<Rightarrow> string result" where
  "cache_key sha256_hex fmt domain panel generation as_of knowledge_time params =
     (if domain = [] \<or> panel = [] then Inl ValueError
      else bind_result (pit_token fmt as_of knowledge_time) (\<lambda>token.
        Inr (KEY_PREFIX @ '':'' @ domain @ '':'' @ panel @ '':g'' @ int_str generation @ '':'' @ token @ '':''
          @ params_hash sha256_hex params)))"

definition generation_of :: "'s backend \<Rightarrow> string \<Rightarrow> int \<Rightarrow> 's \<Rightarrow> 's \<times> (string + int)" where
  "generation_of be domain now s =
     (case be_get be (GENERATION_KEY domain) now s of
        (s', Inl e) \<Rightarrow> (s', Inl e)
      | (s', Inr None) \<Rightarrow> (s', Inr 0)
      | (s', Inr (Some raw)) \<Rightarrow> (s', Inr (case py_int raw of None \<Rightarrow> 0 | Some n \<Rightarrow> n)))"

definition bump_generation_of :: "'s backend \<Rightarrow> string \<Rightarrow> int \<Rightarrow> 's \<Rightarrow> 's \<times> (string + int)" where
  "bump_generation_of be domain now s = be_incr be (GENERATION_KEY domain) None now s"

definition set_generation_of :: "'s backend \<Rightarrow> string \<Rightarrow> int \<Rightarrow> int \<Rightarrow> 's \<Rightarrow> 's \<times> (string + unit)" where
  "set_generation_of be domain value now s = be_set be (GENERATION_KEY domain) (int_str value) None now s"

subsection \<open>Lemmas\<close>

lemma digit_not_sign: "is_digit c \<Longrightarrow> c \<noteq> CHR ''-'' \<and> c \<noteq> CHR ''+'' \<and> c \<noteq> CHR '':'' \<and> c \<noteq> CHR ''_''"
  by (auto simp: is_digit_def)

lemma digits_from_digits: "\<forall>c \<in> set s. is_digit c \<Longrightarrow> digits_from b s = (b \<or> s \<noteq> [])"
  by (induction s arbitrary: b) auto

lemma py_int_int_str: "0 \<le> n \<Longrightarrow> py_int (int_str n) = Some n"
proof -
  assume n: "0 \<le> n"
  let ?s = "nat_str (nat n)"
  have d: "\<forall>c \<in> set ?s. is_digit c" using nat_str_digits by blast
  then have "strip ?s = ?s" by (intro strip_id) (simp add: digit_not_space)
  obtain c cs where s: "?s = c # cs" by (cases ?s) simp_all
  then have "is_digit c" using d by simp
  then have c: "c \<noteq> CHR ''-''" "c \<noteq> CHR ''+''" using digit_not_sign by blast+
  have "(case ?s of CHR ''-'' # ds \<Rightarrow> (True, ds) | CHR ''+'' # ds \<Rightarrow> (False, ds) | _ \<Rightarrow> (False, ?s)) = (False, ?s)"
    unfolding s using c by (auto split: list.split char.split bool.split)
  moreover have "filter is_digit ?s = ?s" using d by (simp add: filter_id_conv)
  moreover have "digits_from False ?s" using digits_from_digits [OF d] by simp
  ultimately show ?thesis using n \<open>strip ?s = ?s\<close> d by (simp add: py_int_def Let_def)
qed

lemma int_str_inj: "0 \<le> a \<Longrightarrow> 0 \<le> b \<Longrightarrow> int_str a = int_str b \<Longrightarrow> a = b"
  by simp

text \<open>Two keys that agree in everything but the generation differ.\<close>

lemma cache_key_generation:
  assumes "cache_key sha fmt d p g1 a k ps = Inr key1" and "cache_key sha fmt d p g2 a k ps = Inr key2" and "key1 = key2"
    and "0 \<le> g1" and "0 \<le> g2"
  shows "g1 = g2"
proof -
  from assms(1) obtain token where t: "pit_token fmt a k = Inr token"
    by (auto simp: cache_key_def split: if_splits sum.splits)
  have nd: "CHR '':'' \<notin> set (int_str g)" if "0 \<le> g" for g
    using that nat_str_digits digit_not_sign by auto
  have "int_str g1 @ CHR '':'' # (token @ '':'' @ params_hash sha ps) = int_str g2 @ CHR '':'' # (token @ '':'' @ params_hash sha ps)"
    using assms(1-3) t by (auto simp: cache_key_def split: if_splits)
  from sep_split [OF this nd [OF assms(4)] nd [OF assms(5)]] assms(4,5) show ?thesis using int_str_inj by blast
qed

end
