(* ===== verification/Cache_Layered.thy ===== *)
theory Cache_Layered
  imports Cache_Keys
begin

text \<open>
  The layered cache (\<open>cache/layered.py\<close>): an in-process layer and an optional shared one, each any
  backend of the protocol.  Failures of a backend are counted and treated as a miss; a value of an
  unreadable format too.  \<open>decode\<close> and \<open>encode\<close> are arguments (\<open>cache/serialize.py\<close>).
\<close>

subsection \<open>Serialized values\<close>

text \<open>
  \<open>decode\<close> splits the version header from the payload; parsing JSON and Arrow is the libraries'.  The
  header's parser answers \<open>None\<close> for a text that is no object with a version and a type.
\<close>

datatype decode_error = FormatError | OtherError string

definition CACHE_FORMAT_VERSION :: int where "CACHE_FORMAT_VERSION = 1"

definition header_text :: "string \<Rightarrow> string" where
  "header_text t = ''{\"v\":1,\"type\":\"'' @ t @ ''\"}''"

datatype 'v payload = ArrowTable 'v | JsonValue 'v

definition encode_value ::
  "('v \<Rightarrow> string + 'v payload) \<Rightarrow> ('v \<Rightarrow> string + string) \<Rightarrow> ('v \<Rightarrow> string + string) \<Rightarrow> 'v \<Rightarrow> string + string" where
  "encode_value kind to_arrow to_json v =
     (case kind v of
        Inl e \<Rightarrow> Inl e
      | Inr (ArrowTable t) \<Rightarrow> map_sum id (\<lambda>p. header_text ''arrow'' @ [CHR 0x0A] @ p) (to_arrow t)
      | Inr (JsonValue x) \<Rightarrow> map_sum id (\<lambda>p. header_text ''json'' @ [CHR 0x0A] @ p) (to_json x))"

definition decode_value ::
  "(string \<Rightarrow> (int \<times> string) option) \<Rightarrow> (string \<Rightarrow> decode_error + 'v) \<Rightarrow> (string \<Rightarrow> decode_error + 'v) \<Rightarrow> string \<Rightarrow> decode_error + 'v" where
  "decode_value parse_header of_arrow of_json data =
     (case partition_first (CHR 0x0A) data of
        None \<Rightarrow> Inl FormatError
      | Some (head, payload) \<Rightarrow>
          (case parse_header head of
             None \<Rightarrow> Inl FormatError
           | Some (version, value_type) \<Rightarrow>
               if version \<noteq> CACHE_FORMAT_VERSION then Inl FormatError
               else if value_type = ''arrow'' then of_arrow payload
               else if value_type = ''json'' then of_json payload
               else Inl FormatError))"

subsection \<open>State and configuration\<close>

record ('a, 'b) layered_config =
  lc_l1 :: "'a backend"
  lc_l2 :: "'b backend option"
  lc_default_ttl :: int
  lc_ttl_resolver :: "(string \<Rightarrow> string + int) option"
  lc_lock_ttl :: int
  lc_lock_wait :: int
  lc_poll_interval :: int

record ('a, 'b) layered =
  ly_l1 :: 'a
  ly_l2 :: 'b
  ly_errors :: int
  ly_lock_waits :: int
  ly_lock_timeouts :: int
  ly_format_errors :: int

definition note_error :: "('a, 'b) layered \<Rightarrow> ('a, 'b) layered" where
  "note_error ly = ly\<lparr>ly_errors := ly_errors ly + 1\<rparr>"

definition on_l1 :: "('a \<Rightarrow> 'a \<times> (string + 'r)) \<Rightarrow> ('a, 'b) layered \<Rightarrow> ('a, 'b) layered \<times> (string + 'r)" where
  "on_l1 f ly = (case f (ly_l1 ly) of (s, r) \<Rightarrow> (ly\<lparr>ly_l1 := s\<rparr>, r))"

definition on_l2 :: "('b \<Rightarrow> 'b \<times> (string + 'r)) \<Rightarrow> ('a, 'b) layered \<Rightarrow> ('a, 'b) layered \<times> (string + 'r)" where
  "on_l2 f ly = (case f (ly_l2 ly) of (s, r) \<Rightarrow> (ly\<lparr>ly_l2 := s\<rparr>, r))"

text \<open>\<open>try: \<dots> except Exception: note_error\<close> around a call: the answer, if there is one.\<close>

definition guarded :: "('a, 'b) layered \<times> (string + 'r) \<Rightarrow> ('a, 'b) layered \<times> 'r option" where
  "guarded p = (case p of (ly, Inl _) \<Rightarrow> (note_error ly, None) | (ly, Inr r) \<Rightarrow> (ly, Some r))"

subsection \<open>Generations\<close>

definition layered_generation :: "('a, 'b) layered_config \<Rightarrow> string \<Rightarrow> int \<Rightarrow> ('a, 'b) layered \<Rightarrow> ('a, 'b) layered \<times> int" where
  "layered_generation cfg domain now ly =
     (let (ly1, g1) = guarded (on_l1 (generation_of (lc_l1 cfg) domain now) ly);
          (ly2, g2) = (case lc_l2 cfg of None \<Rightarrow> (ly1, None)
             | Some be \<Rightarrow> guarded (on_l2 (generation_of be domain now) ly1));
          values = (case g1 of None \<Rightarrow> [] | Some n \<Rightarrow> [n]) @ (case g2 of None \<Rightarrow> [] | Some n \<Rightarrow> [n])
      in (ly2, if values = [] then 0 else Max (set values)))"

definition bump_generation ::
  "('a, 'b) layered_config \<Rightarrow> string \<Rightarrow> int \<Rightarrow> ('a, 'b) layered \<Rightarrow> ('a, 'b) layered \<times> (string + int)" where
  "bump_generation cfg domain now ly =
     (case on_l1 (bump_generation_of (lc_l1 cfg) domain now) ly of
        (ly1, Inl e) \<Rightarrow> (ly1, Inl e)
      | (ly1, Inr local) \<Rightarrow>
          (case lc_l2 cfg of
             None \<Rightarrow> (ly1, Inr local)
           | Some be \<Rightarrow>
               (case guarded (on_l2 (bump_generation_of be domain now) ly1) of
                  (ly2, None) \<Rightarrow> (ly2, Inr local)
                | (ly2, Some remote) \<Rightarrow>
                    if remote < local
                    then (fst (guarded (on_l2 (set_generation_of be domain local now) ly2)), Inr local)
                    else if local < remote
                    then (fst (guarded (on_l1 (set_generation_of (lc_l1 cfg) domain remote now) ly2)), Inr (max local remote))
                    else (ly2, Inr (max local remote)))))"

definition invalidate_domain ::
  "('a, 'b) layered_config \<Rightarrow> string \<Rightarrow> int \<Rightarrow> ('a, 'b) layered \<Rightarrow> ('a, 'b) layered \<times> (string + int)" where
  "invalidate_domain cfg domain now ly = bump_generation cfg domain now ly"

definition ttl_for :: "('a, 'b) layered_config \<Rightarrow> string option \<Rightarrow> ('a, 'b) layered \<Rightarrow> ('a, 'b) layered \<times> int" where
  "ttl_for cfg domain ly =
     (case (domain, lc_ttl_resolver cfg) of
        (Some (c # cs), Some resolve_ttl) \<Rightarrow>
          (case resolve_ttl (c # cs) of Inr t \<Rightarrow> (ly, t) | Inl _ \<Rightarrow> (note_error ly, lc_default_ttl cfg))
      | _ \<Rightarrow> (ly, lc_default_ttl cfg))"

definition build_key ::
  "('a, 'b) layered_config \<Rightarrow> (string \<Rightarrow> string) \<Rightarrow> (time \<Rightarrow> string) \<Rightarrow> string \<Rightarrow> string \<Rightarrow> pit_value option \<Rightarrow> pit_value option
    \<Rightarrow> (string, string) dict option \<Rightarrow> int \<Rightarrow> ('a, 'b) layered \<Rightarrow> ('a, 'b) layered \<times> string result" where
  "build_key cfg sha fmt domain panel as_of knowledge_time params now ly =
     (case layered_generation cfg domain now ly of
        (ly', g) \<Rightarrow> (ly', cache_key sha fmt domain panel g as_of knowledge_time params))"

subsection \<open>Reading and loading\<close>

text \<open>One layer's part of \<open>_lookup\<close>: a raised or unreadable value counts as a miss, other errors escape.\<close>

definition layer_lookup ::
  "(string \<Rightarrow> decode_error + 'v) \<Rightarrow> ('a, 'b) layered \<times> (string + string option) \<Rightarrow> ('a, 'b) layered \<times> (string + 'v option)" where
  "layer_lookup decode p =
     (case guarded p of
        (ly, None) \<Rightarrow> (ly, Inr None)
      | (ly, Some None) \<Rightarrow> (ly, Inr None)
      | (ly, Some (Some raw)) \<Rightarrow>
          (case decode raw of
             Inr v \<Rightarrow> (ly, Inr (Some v))
           | Inl FormatError \<Rightarrow> (note_error (ly\<lparr>ly_format_errors := ly_format_errors ly + 1\<rparr>), Inr None)
           | Inl (OtherError e) \<Rightarrow> (ly, Inl e)))"

definition lookup ::
  "('a, 'b) layered_config \<Rightarrow> (string \<Rightarrow> decode_error + 'v) \<Rightarrow> string \<Rightarrow> int \<Rightarrow> ('a, 'b) layered \<Rightarrow> ('a, 'b) layered \<times> (string + 'v option)" where
  "lookup cfg decode key now ly =
     (case layer_lookup decode (on_l1 (be_get (lc_l1 cfg) key now) ly) of
        (ly1, Inr None) \<Rightarrow>
          (case lc_l2 cfg of None \<Rightarrow> (ly1, Inr None)
           | Some be \<Rightarrow> layer_lookup decode (on_l2 (be_get be key now) ly1))
      | (ly1, r) \<Rightarrow> (ly1, r))"

definition store_value ::
  "('a, 'b) layered_config \<Rightarrow> ('v \<Rightarrow> string + string) \<Rightarrow> string \<Rightarrow> 'v \<Rightarrow> int \<Rightarrow> int \<Rightarrow> ('a, 'b) layered \<Rightarrow> ('a, 'b) layered" where
  "store_value cfg encode key v ttl now ly =
     (case encode v of
        Inl _ \<Rightarrow> note_error ly
      | Inr payload \<Rightarrow>
          let ly1 = fst (guarded (on_l1 (be_set (lc_l1 cfg) key payload (Some ttl) now) ly))
          in case lc_l2 cfg of None \<Rightarrow> ly1
             | Some be \<Rightarrow> fst (guarded (on_l2 (be_set be key payload (Some ttl) now) ly1)))"

text \<open>
  The wait for another process: before each round the clock is read, then the round sleeps, during
  which the other processes act on the shared state, and looks the key up at a later reading.  The
  rounds are a list; \<open>None\<close> when it is too short.
\<close>

type_synonym ('a, 'b) round = "int \<times> (('a, 'b) layered \<Rightarrow> ('a, 'b) layered) \<times> int"

fun wait_loop ::
  "('a, 'b) layered_config \<Rightarrow> (string \<Rightarrow> decode_error + 'v) \<Rightarrow> string \<Rightarrow> int \<Rightarrow> ('a, 'b) round list \<Rightarrow> ('a, 'b) layered
    \<Rightarrow> (('a, 'b) layered \<times> (string + 'v option)) option" where
  "wait_loop cfg decode key deadline [] ly = None"
| "wait_loop cfg decode key deadline ((t, others, t') # rounds) ly =
     (if deadline \<le> t then Some (ly\<lparr>ly_lock_timeouts := ly_lock_timeouts ly + 1\<rparr>, Inr None)
      else case lookup cfg decode key t' (others ly) of
             (ly', Inr None) \<Rightarrow> wait_loop cfg decode key deadline rounds ly'
           | (ly', r) \<Rightarrow> Some (ly', r))"

text \<open>\<open>get_or_load\<close>: the answer and how often the loader ran.  \<open>loaded\<close> is what the loader answers or
  raises, \<open>later\<close> the reading of the clock when it has.\<close>

definition load_and_store ::
  "('a, 'b) layered_config \<Rightarrow> ('v \<Rightarrow> string + string) \<Rightarrow> string \<Rightarrow> (string + 'v) \<Rightarrow> int \<Rightarrow> int \<Rightarrow> bool option \<Rightarrow> string
    \<Rightarrow> ('a, 'b) layered \<Rightarrow> ('a, 'b) layered \<times> (string + 'v)" where
  "load_and_store cfg encode key loaded ttl now acquired token ly =
     (let ly1 = (case loaded of Inl _ \<Rightarrow> ly | Inr v \<Rightarrow> store_value cfg encode key v ttl now ly);
          ly2 = (case lc_l2 cfg of
             Some be \<Rightarrow> if acquired = Some True
               then fst (guarded (on_l2 (be_release_lock be (lock_key key) token now) ly1)) else ly1
           | None \<Rightarrow> ly1)
      in (ly2, loaded))"

definition get_or_load ::
  "('a, 'b) layered_config \<Rightarrow> (string \<Rightarrow> decode_error + 'v) \<Rightarrow> ('v \<Rightarrow> string + string) \<Rightarrow> string \<Rightarrow> (string + 'v) \<Rightarrow> int option
    \<Rightarrow> string option \<Rightarrow> string \<Rightarrow> int \<Rightarrow> int \<Rightarrow> ('a, 'b) round list \<Rightarrow> ('a, 'b) layered
    \<Rightarrow> (('a, 'b) layered \<times> nat \<times> (string + 'v)) option" where
  "get_or_load cfg decode encode key loaded ttl domain token now later rounds ly =
     (let (ly0, effective) = (case ttl of Some t \<Rightarrow> (ly, t) | None \<Rightarrow> ttl_for cfg domain ly)
      in case lookup cfg decode key now ly0 of
           (ly1, Inl e) \<Rightarrow> Some (ly1, 0, Inl e)
         | (ly1, Inr (Some v)) \<Rightarrow> Some (ly1, 0, Inr v)
         | (ly1, Inr None) \<Rightarrow>
             (case lookup cfg decode key now ly1 of
                (ly2, Inl e) \<Rightarrow> Some (ly2, 0, Inl e)
              | (ly2, Inr (Some v)) \<Rightarrow> Some (ly2, 0, Inr v)
              | (ly2, Inr None) \<Rightarrow>
                  let (ly3, acquired) = (case lc_l2 cfg of
                        None \<Rightarrow> (ly2, Some True)
                      | Some be \<Rightarrow> guarded (on_l2 (be_acquire_lock be (lock_key key) token (lc_lock_ttl cfg) now) ly2))
                  in if acquired = Some False
                     then (case wait_loop cfg decode key (now + lc_lock_wait cfg) rounds
                                  (ly3\<lparr>ly_lock_waits := ly_lock_waits ly3 + 1\<rparr>) of
                             None \<Rightarrow> None
                           | Some (ly4, Inl e) \<Rightarrow> Some (ly4, 0, Inl e)
                           | Some (ly4, Inr (Some v)) \<Rightarrow> Some (ly4, 0, Inr v)
                           | Some (ly4, Inr None) \<Rightarrow>
                               (case load_and_store cfg encode key loaded effective later acquired token ly4 of
                                  (ly5, r) \<Rightarrow> Some (ly5, 1, r)))
                     else (case load_and_store cfg encode key loaded effective later acquired token ly3 of
                             (ly5, r) \<Rightarrow> Some (ly5, 1, r))))"

definition layered_invalidate ::
  "('a, 'b) layered_config \<Rightarrow> string \<Rightarrow> int \<Rightarrow> ('a, 'b) layered \<Rightarrow> ('a, 'b) layered \<times> (string + unit)" where
  "layered_invalidate cfg key now ly =
     (case on_l1 (be_delete (lc_l1 cfg) key now) ly of
        (ly1, Inl e) \<Rightarrow> (ly1, Inl e)
      | (ly1, Inr _) \<Rightarrow>
          (case lc_l2 cfg of None \<Rightarrow> (ly1, Inr ())
           | Some be \<Rightarrow> (fst (guarded (on_l2 (be_delete be key now) ly1)), Inr ())))"

subsection \<open>Statistics and closing\<close>

record layered_report =
  lr_layers :: "(string \<times> string \<times> cache_stats) list"
  lr_errors :: int
  lr_lock_waits :: int
  lr_lock_timeouts :: int
  lr_format_errors :: int
  lr_l1_hits :: int
  lr_l2 :: "string option"
  lr_total :: cache_stats

definition layered_stats ::
  "('a, 'b) layered_config \<Rightarrow> ('a \<Rightarrow> cache_stats) \<Rightarrow> ('b \<Rightarrow> cache_stats) \<Rightarrow> ('a, 'b) layered \<Rightarrow> layered_report" where
  "layered_stats cfg stats1 stats2 ly =
     (let layers = (''l1'', be_name (lc_l1 cfg), stats1 (ly_l1 ly))
            # (case lc_l2 cfg of None \<Rightarrow> [] | Some be \<Rightarrow> [(''l2'', be_name be, stats2 (ly_l2 ly))])
      in \<lparr>lr_layers = layers, lr_errors = ly_errors ly, lr_lock_waits = ly_lock_waits ly,
          lr_lock_timeouts = ly_lock_timeouts ly, lr_format_errors = ly_format_errors ly,
          lr_l1_hits = st_hits (stats1 (ly_l1 ly)), lr_l2 = map_option be_name (lc_l2 cfg),
          lr_total = merged no_stats (map (\<lambda>(name, be, s). s) layers)\<rparr>)"

end
