(* ===== verification/Cache_Properties.thy ===== *)
theory Cache_Properties
  imports Cache_Layered
begin

text \<open>
  What is claimed of the caches: the in-process cache keeps its limits and answers only what was
  stored; the layered cache never fails on account of a backend, loads a value once, and an
  invalidation changes every key of its domain.
\<close>

subsection \<open>The in-process cache\<close>

text \<open>C24. After any calls but \<open>incr\<close> the in-process cache holds at most its number of entries and bytes and
  counts them exactly, and a hit answers the value that was last stored under the key and has
  neither been deleted nor expired.\<close>

theorem memory_cache_sound:
  assumes "0 \<le> max_entries" and "0 \<le> max_bytes"
  shows "let c = cache_run cs (new_cache max_entries max_bytes) in
    int (length (mc_entries c)) \<le> max_entries \<and> mc_bytes c \<le> max_bytes
    \<and> mc_bytes c = (\<Sum>(key, expires_at, v) \<leftarrow> mc_entries c. int (length v))
    \<and> (\<forall>key now v. snd (cache_get key now c) = Some v \<longrightarrow>
         (\<exists>expires_at. ref_run cs key = Some (expires_at, v) \<and> (case expires_at of None \<Rightarrow> True | Some t \<Rightarrow> now < t)))"
proof -
  let ?c = "cache_run cs (new_cache max_entries max_bytes)"
  have i: "cache_inv ?c (ref_run cs)" using cache_run_inv [OF assms] .
  have "mc_max_entries ?c = max_entries \<and> mc_max_bytes ?c = max_bytes"
    by (rule cache_run_limits)
  moreover have "\<exists>e. ref_run cs key = Some (e, v) \<and> (case e of None \<Rightarrow> True | Some t \<Rightarrow> now < t)"
    if "snd (cache_get key now ?c) = Some v" for key now v
  proof -
    from that obtain e where e: "map_of (mc_entries ?c) key = Some (e, v)" "\<not> expired e now"
      by (auto simp: cache_get_def split: option.splits if_splits)
    then have "ref_run cs key = Some (e, v)" using i by (auto simp: cache_inv_def map_le_def dom_def)
    with e(2) show ?thesis by (auto simp: expired_def split: option.splits)
  qed
  ultimately show ?thesis using i by (auto simp: cache_inv_def weight_def Let_def)
qed

theorem memory_cache_sound_witness:
  "let c = cache_run [CacheSet ''a'' ''xx'' None 0, CacheSet ''b'' ''yyy'' (Some 5) 1] (new_cache 1 4) in
    int (length (mc_entries c)) \<le> 1 \<and> mc_bytes c \<le> 4
    \<and> mc_bytes c = (\<Sum>(key, expires_at, v) \<leftarrow> mc_entries c. int (length v))
    \<and> (\<forall>key now v. snd (cache_get key now c) = Some v \<longrightarrow>
         (\<exists>expires_at. ref_run [CacheSet ''a'' ''xx'' None 0, CacheSet ''b'' ''yyy'' (Some 5) 1] key = Some (expires_at, v)
           \<and> (case expires_at of None \<Rightarrow> True | Some t \<Rightarrow> now < t)))"
  by (rule memory_cache_sound) simp_all

text \<open>The counters escape the limits: \<open>incr\<close> evicts nothing, and on a value that is no integer it
  raises after it has taken the value's bytes off the count.\<close>

lemma incr_exceeds_limit:
  "let c1 = fst (cache_incr ''a'' None 0 (new_cache 1 100)); c2 = fst (cache_incr ''b'' None 0 c1)
   in mc_max_entries c2 < int (length (mc_entries c2))"
  by code_simp

lemma incr_breaks_accounting:
  "let c = fst (cache_incr ''k'' None 0 (cache_set ''k'' ''text'' None 0 (new_cache 10 100)))
   in mc_bytes c = 0 \<and> map_of (mc_entries c) ''k'' = Some (None, ''text'')"
  by code_simp

subsection \<open>Failing open\<close>

lemma guarded_cases: "guarded p = (case p of (ly, Inl _) \<Rightarrow> (note_error ly, None) | (ly, Inr r) \<Rightarrow> (ly, Some r))"
  by (simp add: guarded_def)

text \<open>What a layer can answer under the key, in whatever state and whenever it is asked.\<close>

definition answered :: "('a, 'b) layered_config \<Rightarrow> string \<Rightarrow> string \<Rightarrow> bool" where
  "answered cfg key raw \<longleftrightarrow> (\<exists>t s. snd (be_get (lc_l1 cfg) key t s) = Inr (Some raw))
     \<or> (\<exists>be t s. lc_l2 cfg = Some be \<and> snd (be_get be key t s) = Inr (Some raw))"

text \<open>A miss, a decoded answer of a layer, or the error of a decoder the cache does not catch.\<close>

definition lookup_answer ::
  "('a, 'b) layered_config \<Rightarrow> (string \<Rightarrow> decode_error + 'v) \<Rightarrow> string \<Rightarrow> string + 'v option \<Rightarrow> bool" where
  "lookup_answer cfg decode key r \<longleftrightarrow> r = Inr None
     \<or> (\<exists>raw. answered cfg key raw \<and> (case decode raw of Inr v \<Rightarrow> r = Inr (Some v) | Inl FormatError \<Rightarrow> False | Inl (OtherError e) \<Rightarrow> r = Inl e))"

lemma layer_lookup_answer:
  assumes "layer_lookup decode p = (ly, r)"
  shows "r = Inr None \<or> (\<exists>raw. snd p = Inr (Some raw)
    \<and> (case decode raw of Inr v \<Rightarrow> r = Inr (Some v) | Inl FormatError \<Rightarrow> False | Inl (OtherError e) \<Rightarrow> r = Inl e))"
proof (cases "\<exists>ly0 raw. p = (ly0, Inr (Some raw))")
  case False
  with assms have "r = Inr None" by (auto simp: layer_lookup_def guarded_def split: prod.splits option.splits sum.splits)
  then show ?thesis by simp
next
  case True
  then obtain ly0 raw where p: "p = (ly0, Inr (Some raw))" by blast
  consider v where "decode raw = Inr v" | "decode raw = Inl FormatError" | e where "decode raw = Inl (OtherError e)"
    by (metis decode_error.exhaust sum.exhaust)
  then show ?thesis
  proof cases
    case 1
    with assms show ?thesis by (intro disjI2 exI [of _ raw]) (auto simp: p layer_lookup_def guarded_def)
  next
    case 2
    with assms show ?thesis by (simp add: p layer_lookup_def guarded_def)
  next
    case 3
    with assms show ?thesis by (intro disjI2 exI [of _ raw]) (auto simp: p layer_lookup_def guarded_def)
  qed
qed

lemma lookup_answers:
  assumes "lookup cfg decode key now ly = (ly', r)"
  shows "lookup_answer cfg decode key r"
proof -
  obtain ly1 r1 where 1: "layer_lookup decode (on_l1 (be_get (lc_l1 cfg) key now) ly) = (ly1, r1)" by (metis prod.exhaust)
  have s1: "snd (on_l1 (be_get (lc_l1 cfg) key now) ly) = snd (be_get (lc_l1 cfg) key now (ly_l1 ly))"
    by (simp add: on_l1_def split: prod.split)
  from layer_lookup_answer [OF 1] have a1: "lookup_answer cfg decode key r1"
    unfolding lookup_answer_def answered_def s1 by blast
  show ?thesis
  proof (cases "r1 = Inr None")
    case False
    then have "r = r1" using 1 assms by (auto simp: lookup_def split: sum.splits option.splits)
    with a1 show ?thesis by simp
  next
    case True
    show ?thesis
    proof (cases "lc_l2 cfg")
      case None
      with 1 assms True show ?thesis by (simp add: lookup_def lookup_answer_def)
    next
      case (Some be)
      with 1 assms True have 2: "layer_lookup decode (on_l2 (be_get be key now) ly1) = (ly', r)" by (simp add: lookup_def)
      have s2: "snd (on_l2 (be_get be key now) ly1) = snd (be_get be key now (ly_l2 ly1))"
        by (simp add: on_l2_def split: prod.split)
      from layer_lookup_answer [OF 2] Some show ?thesis
        unfolding lookup_answer_def answered_def s2 by blast
    qed
  qed
qed

lemma wait_loop_answers:
  "wait_loop cfg decode key deadline rounds ly = Some (ly', r) \<Longrightarrow> lookup_answer cfg decode key r"
proof (induction rounds arbitrary: ly)
  case (Cons q rounds)
  obtain t others t' where q: "q = (t, others, t')" by (cases q)
  obtain ly1 r1 where l: "lookup cfg decode key t' (others ly) = (ly1, r1)" by (metis prod.exhaust)
  show ?case
  proof (cases "deadline \<le> t")
    case True
    with Cons.prems show ?thesis by (simp add: q lookup_answer_def)
  next
    case False
    show ?thesis
    proof (cases "r1 = Inr None")
      case True
      with Cons l False show ?thesis by (simp add: q)
    next
      case other: False
      with Cons.prems l False have "r = r1" by (auto simp: q split: sum.splits option.splits)
      with lookup_answers [OF l] show ?thesis by simp
    qed
  qed
qed simp

lemma wait_loop_total: "\<exists>(t, _, _) \<in> set rounds. deadline \<le> t \<Longrightarrow> \<exists>ly' r. wait_loop cfg decode key deadline rounds ly = Some (ly', r)"
proof (induction rounds arbitrary: ly)
  case (Cons q rounds)
  obtain t others t' where q: "q = (t, others, t')" by (cases q)
  obtain ly1 r1 where l: "lookup cfg decode key t' (others ly) = (ly1, r1)" by (metis prod.exhaust)
  show ?case
  proof (cases "deadline \<le> t")
    case False
    with Cons.prems q have "\<exists>(t, _, _) \<in> set rounds. deadline \<le> t" by auto
    with Cons.IH [OF this] False q l show ?thesis by (cases r1) (auto split: option.split)
  qed (simp add: q)
qed simp

lemma load_and_store_answer: "snd (load_and_store cfg encode key loaded ttl now acquired token ly) = loaded"
  by (simp add: load_and_store_def Let_def)

text \<open>C25. The cache fails open: whatever the backends do, raise or lose, and whatever other processes do in
  between, \<open>get_or_load\<close> answers what the loader answers or raises, having run it once; or, without
  running it, the decoded value of something a layer answered under the key; or, this too without
  running it, the error of a decoder that is neither a format nor a value error, which alone is not
  caught.  It returns once the clock has passed the lock's waiting time.\<close>

theorem cache_fails_open:
  assumes "\<exists>(t, _, _) \<in> set rounds. now + lc_lock_wait cfg \<le> t"
  shows "\<exists>ly' n r. get_or_load cfg decode encode key loaded ttl domain token now later rounds ly = Some (ly', n, r)
    \<and> (n = 1 \<and> r = loaded
       \<or> n = 0 \<and> (\<exists>raw v. answered cfg key raw \<and> decode raw = Inr v \<and> r = Inr v)
       \<or> n = 0 \<and> (\<exists>raw e. answered cfg key raw \<and> decode raw = Inl (OtherError e) \<and> r = Inl e))"
proof -
  obtain ly0 eff where e: "(case ttl of Some t \<Rightarrow> (ly, t) | None \<Rightarrow> ttl_for cfg domain ly) = (ly0, eff)" by (metis prod.exhaust)
  obtain ly1 r1 where l1: "lookup cfg decode key now ly0 = (ly1, r1)" by (metis prod.exhaust)
  obtain ly2 r2 where l2: "lookup cfg decode key now ly1 = (ly2, r2)" by (metis prod.exhaust)
  let ?answers = "\<lambda>r. (\<exists>raw v. answered cfg key raw \<and> decode raw = Inr v \<and> r = Inr v)
    \<or> (\<exists>raw e. answered cfg key raw \<and> decode raw = Inl (OtherError e) \<and> r = Inl e)"
  have ends: "(\<exists>v. r = Inr (Some v) \<and> ?answers (Inr v)) \<or> (\<exists>x. r = Inl x \<and> ?answers (Inl x))"
    if "lookup_answer cfg decode key r" "r \<noteq> Inr None" for r
    using that unfolding lookup_answer_def by (fastforce split: sum.splits decode_error.splits)
  obtain ly3 acq where a: "(case lc_l2 cfg of None \<Rightarrow> (ly2, Some True)
      | Some be \<Rightarrow> guarded (on_l2 (be_acquire_lock be (lock_key key) token (lc_lock_ttl cfg) now) ly2)) = (ly3, acq)"
    by (metis prod.exhaust)
  let ?w = "ly3\<lparr>ly_lock_waits := ly_lock_waits ly3 + 1\<rparr>"
  obtain ly4 r4 where w: "wait_loop cfg decode key (now + lc_lock_wait cfg) rounds ?w = Some (ly4, r4)"
    using wait_loop_total [OF assms] by blast
  obtain l3 l4 where stored: "load_and_store cfg encode key loaded eff later acq token ly3 = (l3, loaded)"
    "load_and_store cfg encode key loaded eff later (Some False) token ly4 = (l4, loaded)"
    using load_and_store_answer by (metis prod.collapse)
  have run: "get_or_load cfg decode encode key loaded ttl domain token now later rounds ly =
     (case r1 of Inl x \<Rightarrow> Some (ly1, 0, Inl x) | Inr (Some v) \<Rightarrow> Some (ly1, 0, Inr v)
      | Inr None \<Rightarrow> (case r2 of Inl x \<Rightarrow> Some (ly2, 0, Inl x) | Inr (Some v) \<Rightarrow> Some (ly2, 0, Inr v)
        | Inr None \<Rightarrow> if acq = Some False
            then (case r4 of Inl x \<Rightarrow> Some (ly4, 0, Inl x) | Inr (Some v) \<Rightarrow> Some (ly4, 0, Inr v)
                  | Inr None \<Rightarrow> Some (l4, 1, loaded))
            else Some (l3, 1, loaded)))"
    by (simp add: get_or_load_def e l1 l2 a w stored split: sum.split option.split)
  consider "r1 \<noteq> Inr None" | "r1 = Inr None" "r2 \<noteq> Inr None" | "r1 = Inr None" "r2 = Inr None" "r4 \<noteq> Inr None"
    | "r1 = Inr None" "r2 = Inr None" "r4 = Inr None" by blast
  then show ?thesis
  proof cases
    case 1
    from ends [OF lookup_answers [OF l1] 1] show ?thesis by (auto simp: run)
  next
    case 2
    from ends [OF lookup_answers [OF l2] 2(2)] show ?thesis by (auto simp: run 2(1))
  next
    case 3
    from ends [OF wait_loop_answers [OF w] 3(3)] show ?thesis by (cases "acq = Some False") (auto simp: run 3(1,2))
  next
    case 4
    then show ?thesis by (simp add: run)
  qed
qed

definition broken_backend :: "unit backend" where
  "broken_backend = \<lparr>be_name = ''broken'', be_get = (\<lambda>key now u. (u, Inl ''down'')), be_set = (\<lambda>key v ttl now u. (u, Inl ''down'')),
     be_delete = (\<lambda>key now u. (u, Inl ''down'')), be_incr = (\<lambda>key ttl now u. (u, Inl ''down'')),
     be_acquire_lock = (\<lambda>key token ttl now u. (u, Inl ''down'')), be_release_lock = (\<lambda>key token now u. (u, Inl ''down''))\<rparr>"

definition memory_config :: "'b backend option \<Rightarrow> (memory_cache, 'b) layered_config" where
  "memory_config l2 = \<lparr>lc_l1 = memory_backend, lc_l2 = l2, lc_default_ttl = 21600, lc_ttl_resolver = None,
     lc_lock_ttl = 30, lc_lock_wait = 10, lc_poll_interval = 1\<rparr>"

definition fresh :: "'a \<Rightarrow> 'b \<Rightarrow> ('a, 'b) layered" where
  "fresh a b = \<lparr>ly_l1 = a, ly_l2 = b, ly_errors = 0, ly_lock_waits = 0, ly_lock_timeouts = 0, ly_format_errors = 0\<rparr>"

theorem cache_fails_open_witness:
  "\<exists>ly' n r. get_or_load (memory_config (Some broken_backend)) (\<lambda>raw. Inr raw) (\<lambda>v. Inr v) ''k'' (Inr ''v'') None None ''t'' 0 0
      [(10, \<lambda>ly. ly, 10)] (fresh (new_cache 10 100) ()) = Some (ly', n, r)
    \<and> (n = 1 \<and> r = Inr ''v''
       \<or> n = 0 \<and> (\<exists>raw v. answered (memory_config (Some broken_backend)) ''k'' raw \<and> (Inr raw :: decode_error + string) = Inr v \<and> r = Inr v)
       \<or> n = 0 \<and> (\<exists>raw e. answered (memory_config (Some broken_backend)) ''k'' raw
           \<and> (Inr raw :: decode_error + string) = Inl (OtherError e) \<and> r = Inl e))"
  by (rule cache_fails_open) (simp_all add: memory_config_def)

text \<open>An error of a decoder that is no format or value error (\<open>pyarrow\<close> raises an \<open>OSError\<close> on a
  damaged stream, the import of an absent library an \<open>ImportError\<close>) escapes, though the loader would
  have answered.\<close>

lemma decoder_error_escapes:
  "\<exists>ly'. get_or_load (memory_config (None :: unit backend option)) (\<lambda>raw. Inl (OtherError ''OSError'')) (\<lambda>v. Inr v) ''k'' (Inr ''v'') None None ''t'' 0 0 []
     (fresh (cache_set ''k'' ''damaged'' None 0 (new_cache 10 100)) ()) = Some (ly', 0, Inl ''OSError'')"
proof -
  let ?c = "cache_set ''k'' ''damaged'' None 0 (new_cache 10 100)"
  have "snd (cache_get ''k'' 0 ?c) = Some ''damaged''" by code_simp
  then obtain c where "cache_get ''k'' 0 ?c = (c, Some ''damaged'')" by (metis prod.collapse)
  then have "be_get memory_backend ''k'' 0 ?c = (c, Inr (Some ''damaged''))" by (simp add: memory_backend_def)
  then show ?thesis
    by (simp add: get_or_load_def memory_config_def fresh_def lookup_def layer_lookup_def guarded_def on_l1_def ttl_for_def)
qed

subsection \<open>Loading once\<close>

text \<open>What a backend promises of values: a value that fits is read back until its time is over.\<close>

locale value_backend =
  fixes be :: "'s backend" and inv :: "'s \<Rightarrow> bool" and fits :: "string \<Rightarrow> 's \<Rightarrow> bool"
  assumes get_inv: "inv s \<Longrightarrow> be_get be key now s = (s', a) \<Longrightarrow> inv s' \<and> (fits v s \<longrightarrow> fits v s')"
    and set_ok: "inv s \<Longrightarrow> \<exists>s'. be_set be key v ttl_opt now s = (s', Inr ())"
    and set_get: "inv s \<Longrightarrow> fits v s \<Longrightarrow> be_set be key v (Some ttl) now s = (s', done_set) \<Longrightarrow> later < now + ttl
      \<Longrightarrow> \<exists>s''. be_get be key later s' = (s'', Inr (Some v))"
begin

lemma lookup_l1:
  assumes "lc_l1 cfg = be" and "inv (ly_l1 ly)" and "lookup cfg decode key now ly = (ly', r)" and "fits v (ly_l1 ly)"
  shows "inv (ly_l1 ly') \<and> fits v (ly_l1 ly')"
proof -
  obtain s1 a where g: "be_get be key now (ly_l1 ly) = (s1, a)" by (metis prod.exhaust)
  have s1: "inv s1" "fits v s1" using get_inv [OF assms(2) g] assms(4) by simp_all
  have "ly_l1 ly' = s1"
    using assms(1,3) g
    by (auto simp: lookup_def layer_lookup_def on_l1_def on_l2_def guarded_def note_error_def
      split: prod.splits option.splits sum.splits decode_error.splits)
  with s1 show ?thesis by simp
qed

lemma load_then_lookup:
  assumes "lc_l1 cfg = be" and "inv (ly_l1 ly)" and "encode v = Inr p" and "decode p = Inr v" and "fits p (ly_l1 ly)"
    and "load_and_store cfg encode key (Inr v) ttl now acq token ly = (ly', r)" and "later < now + ttl"
  shows "\<exists>ly''. lookup cfg decode key later ly' = (ly'', Inr (Some v))"
proof -
  obtain s1 where s: "be_set be key p (Some ttl) now (ly_l1 ly) = (s1, Inr ())" using set_ok [OF assms(2)] by blast
  from set_get [OF assms(2,5) s assms(7)] obtain s2 where g: "be_get be key later s1 = (s2, Inr (Some p))" by blast
  have "ly_l1 ly' = s1"
    using assms(1,3,6) s
    by (auto simp: load_and_store_def store_value_def on_l1_def on_l2_def guarded_def note_error_def Let_def
      split: prod.splits option.splits sum.splits if_splits)
  with g assms(1,4) show ?thesis by (simp add: lookup_def layer_lookup_def on_l1_def guarded_def)
qed

lemma wait_loop_l1:
  assumes "lc_l1 cfg = be"
    and "\<forall>(t, others, t') \<in> set rounds. \<forall>ly. inv (ly_l1 ly) \<and> fits v (ly_l1 ly) \<longrightarrow> inv (ly_l1 (others ly)) \<and> fits v (ly_l1 (others ly))"
  shows "inv (ly_l1 ly) \<Longrightarrow> fits v (ly_l1 ly) \<Longrightarrow> wait_loop cfg decode key deadline rounds ly = Some (ly', r)
    \<Longrightarrow> inv (ly_l1 ly') \<and> fits v (ly_l1 ly')"
  using assms(2)
proof (induction rounds arbitrary: ly)
  case (Cons q rounds)
  obtain t others t' where q: "q = (t, others, t')" by (cases q)
  obtain ly1 r1 where l: "lookup cfg decode key t' (others ly) = (ly1, r1)" by (metis prod.exhaust)
  have "inv (ly_l1 (others ly)) \<and> fits v (ly_l1 (others ly))" using Cons.prems(1,2,4) by (simp add: q)
  then have i: "inv (ly_l1 ly1)" "fits v (ly_l1 ly1)" using lookup_l1 [OF assms(1) _ l] by blast+
  have rest: "\<forall>(t, others, t') \<in> set rounds. \<forall>ly. inv (ly_l1 ly) \<and> fits v (ly_l1 ly) \<longrightarrow> inv (ly_l1 (others ly)) \<and> fits v (ly_l1 (others ly))"
    using Cons.prems(4) by simp
  show ?case
  proof (cases "deadline \<le> t")
    case True
    with Cons.prems show ?thesis by (auto simp: q)
  next
    case False
    show ?thesis
    proof (cases "r1 = Inr None")
      case True
      with Cons.prems(3) l False have "wait_loop cfg decode key deadline rounds ly1 = Some (ly', r)" by (simp add: q)
      from Cons.IH [OF i this rest] show ?thesis .
    next
      case other: False
      with Cons.prems(3) l False have "ly' = ly1" by (auto simp: q split: sum.splits option.splits)
      with i show ?thesis by simp
    qed
  qed
qed simp

text \<open>After a load, the next call before the time is over answers the value without loading.\<close>

lemma loads_once:
  assumes "lc_l1 cfg = be" and "inv (ly_l1 ly)" and "encode v = Inr p" and "decode p = Inr v" and "fits p (ly_l1 ly)"
    and others: "\<forall>(t, others, t') \<in> set rounds. \<forall>ly. inv (ly_l1 ly) \<and> fits p (ly_l1 ly) \<longrightarrow> inv (ly_l1 (others ly)) \<and> fits p (ly_l1 (others ly))"
    and first: "get_or_load cfg decode encode key (Inr v) (Some ttl) domain token now now' rounds ly = Some (ly', 1, r)"
    and "later < now' + ttl"
  shows "\<exists>ly''. get_or_load cfg decode encode key other (Some ttl') domain token' later later' rounds' ly' = Some (ly'', 0, Inr v)"
proof -
  obtain ly1 r1 where l1: "lookup cfg decode key now ly = (ly1, r1)" by (metis prod.exhaust)
  obtain ly2 r2 where l2: "lookup cfg decode key now ly1 = (ly2, r2)" by (metis prod.exhaust)
  have i1: "inv (ly_l1 ly1) \<and> fits p (ly_l1 ly1)" using lookup_l1 [OF assms(1,2) l1 assms(5)] .
  then have i2: "inv (ly_l1 ly2) \<and> fits p (ly_l1 ly2)" using lookup_l1 [OF assms(1) _ l2] by blast
  obtain ly3 acq where a: "(case lc_l2 cfg of None \<Rightarrow> (ly2, Some True)
      | Some be \<Rightarrow> guarded (on_l2 (be_acquire_lock be (lock_key key) token (lc_lock_ttl cfg) now) ly2)) = (ly3, acq)"
    by (metis prod.exhaust)
  have "ly_l1 ly3 = ly_l1 ly2" using a
    by (auto simp: on_l2_def guarded_def note_error_def split: option.splits prod.splits sum.splits)
  with i2 have i3: "inv (ly_l1 ly3)" "fits p (ly_l1 ly3)" by simp_all
  let ?w = "ly3\<lparr>ly_lock_waits := ly_lock_waits ly3 + 1\<rparr>"
  have miss: "r1 = Inr None" "r2 = Inr None" using first l1 l2
    by (auto simp: get_or_load_def split: sum.splits option.splits)
  have "\<exists>ly4. inv (ly_l1 ly4) \<and> fits p (ly_l1 ly4) \<and> load_and_store cfg encode key (Inr v) ttl now' acq token ly4 = (ly', r)"
  proof (cases "acq = Some False")
    case False
    with first l1 l2 a miss have "load_and_store cfg encode key (Inr v) ttl now' acq token ly3 = (ly', r)"
      by (auto simp: get_or_load_def split: prod.splits)
    with i3 show ?thesis by blast
  next
    case True
    with first l1 l2 a miss obtain ly4 where w: "wait_loop cfg decode key (now + lc_lock_wait cfg) rounds ?w = Some (ly4, Inr None)"
      and s: "load_and_store cfg encode key (Inr v) ttl now' acq token ly4 = (ly', r)"
      by (auto simp: get_or_load_def split: prod.splits option.splits sum.splits)
    have "inv (ly_l1 ly4) \<and> fits p (ly_l1 ly4)" by (rule wait_loop_l1 [OF assms(1) others _ _ w]) (simp_all add: i3)
    with s show ?thesis by blast
  qed
  then have "\<exists>ly''. lookup cfg decode key later ly' = (ly'', Inr (Some v))"
    using load_then_lookup [where encode = encode and decode = decode and v = v, OF assms(1) _ assms(3,4)] assms(8) by blast
  then show ?thesis by (auto simp: get_or_load_def)
qed

end

definition memory_ok :: "memory_cache \<Rightarrow> bool" where
  "memory_ok c \<longleftrightarrow> (\<exists>m. cache_inv c m) \<and> 1 \<le> mc_max_entries c"

definition memory_fits :: "string \<Rightarrow> memory_cache \<Rightarrow> bool" where
  "memory_fits v c \<longleftrightarrow> int (length v) \<le> mc_max_bytes c"

interpretation memory_values: value_backend memory_backend memory_ok memory_fits
proof
  fix s key now s' a v
  assume s: "memory_ok s" and g: "be_get memory_backend key now s = (s', a)"
  then have s': "s' = cache_exec (CacheGet key now) s" by (auto simp: memory_backend_def split: prod.splits)
  have "mc_max_entries s' = mc_max_entries s \<and> mc_max_bytes s' = mc_max_bytes s"
    unfolding s' by (rule cache_exec_limits)
  moreover from s obtain m where "cache_inv s m" by (auto simp: memory_ok_def)
  from cache_exec_inv [OF this, of "CacheGet key now"] have "\<exists>m. cache_inv s' m" unfolding s' by blast
  ultimately show "memory_ok s' \<and> (memory_fits v s \<longrightarrow> memory_fits v s')"
    using s by (simp add: memory_ok_def memory_fits_def)
next
  fix s key v ttl now
  show "\<exists>s'. be_set memory_backend key v ttl now s = (s', Inr ())" by (simp add: memory_backend_def)
next
  fix s v key ttl now s' a later
  assume s: "memory_ok s" "memory_fits v s" "be_set memory_backend key v (Some ttl) now s = (s', a)" "later < now + ttl"
  from s(1) obtain m where m: "cache_inv s m" "1 \<le> mc_max_entries s" by (auto simp: memory_ok_def)
  have "\<not> expired (map_option (\<lambda>d. now + d) (Some ttl)) later" using s(4) by (simp add: expired_def)
  from set_then_get [OF m _ this] s(2,3) show "\<exists>s''. be_get memory_backend key later s' = (s'', Inr (Some v))"
    by (auto simp: memory_backend_def memory_fits_def split: prod.split) (metis snd_conv)
qed

text \<open>C26. A value is loaded once: when \<open>get_or_load\<close> has loaded a value, having waited for another
  process's lock in any number of rounds or not, the next call on the same key before its time is
  over answers it without loading, whatever the second layer does.  The conditions: the in-process
  cache is sound with room for an entry, the value's bytes fit into it and decode to the value again,
  and what other threads do to it during the wait leaves it sound with the same limit.\<close>

theorem value_loaded_once:
  assumes "lc_l1 cfg = memory_backend" and "memory_ok (ly_l1 ly)" and "encode v = Inr p" and "decode p = Inr v"
    and "int (length p) \<le> mc_max_bytes (ly_l1 ly)"
    and "\<forall>(t, others, t') \<in> set rounds. \<forall>ly. memory_ok (ly_l1 ly) \<longrightarrow>
           memory_ok (ly_l1 (others ly)) \<and> mc_max_bytes (ly_l1 (others ly)) = mc_max_bytes (ly_l1 ly)"
    and "get_or_load cfg decode encode key (Inr v) (Some ttl) domain token now now' rounds ly = Some (ly', 1, r)"
    and "later < now' + ttl"
  shows "\<exists>ly''. get_or_load cfg decode encode key other (Some ttl') domain token' later later' rounds' ly' = Some (ly'', 0, Inr v)"
proof (rule memory_values.loads_once [OF assms(1,2,3,4) _ _ assms(7,8)])
  show "memory_fits p (ly_l1 ly)" using assms(5) by (simp add: memory_fits_def)
  show "\<forall>(t, others, t') \<in> set rounds. \<forall>ly. memory_ok (ly_l1 ly) \<and> memory_fits p (ly_l1 ly) \<longrightarrow>
      memory_ok (ly_l1 (others ly)) \<and> memory_fits p (ly_l1 (others ly))"
    using assms(6) unfolding memory_fits_def by fastforce
qed

lemma memory_ok_new [simp]: "1 \<le> me \<Longrightarrow> 0 \<le> mb \<Longrightarrow> memory_ok (new_cache me mb)"
  using cache_run_inv [of me mb "[]"] by (auto simp: memory_ok_def cache_run_def new_cache_def)

text \<open>A second layer whose lock another process holds, and which otherwise is down.\<close>

definition held_backend :: "unit backend" where
  "held_backend = broken_backend\<lparr>be_acquire_lock := (\<lambda>key token ttl now u. (u, Inr False))\<rparr>"

theorem value_loaded_once_witness:
  "\<exists>ly' r ly''. get_or_load (memory_config (Some held_backend)) (\<lambda>raw. Inr raw) (\<lambda>v. Inr v) ''k'' (Inr ''v'') (Some 60) None ''t'' 0 12
       [(5, \<lambda>ly. ly, 6), (11, \<lambda>ly. ly, 12)] (fresh (new_cache 10 100) ()) = Some (ly', 1, r)
    \<and> get_or_load (memory_config (Some held_backend)) (\<lambda>raw. Inr raw) (\<lambda>v. Inr v) ''k'' (Inr ''other'') (Some 60) None ''t2'' 60 61 [] ly'
       = Some (ly'', 0, Inr ''v'')"
proof -
  let ?cfg = "memory_config (Some held_backend)"
  let ?rounds = "[(5, \<lambda>ly. ly, 6), (11, \<lambda>ly. ly, 12)] :: (memory_cache, unit) round list"
  have "\<exists>ly' r. get_or_load ?cfg (\<lambda>raw. Inr raw) (\<lambda>v. Inr v) ''k'' (Inr ''v'') (Some 60) None ''t'' 0 12
       ?rounds (fresh (new_cache 10 100) ()) = Some (ly', 1, r)"
    by (simp add: get_or_load_def memory_config_def held_backend_def broken_backend_def fresh_def lookup_def layer_lookup_def
      guarded_def on_l1_def on_l2_def note_error_def memory_backend_def cache_get_def new_cache_def load_and_store_def)
  then obtain ly' r where 1: "get_or_load ?cfg (\<lambda>raw. Inr raw) (\<lambda>v. Inr v) ''k'' (Inr ''v'') (Some 60) None ''t'' 0 12
       ?rounds (fresh (new_cache 10 100) ()) = Some (ly', 1, r)" by blast
  have "\<exists>ly''. get_or_load ?cfg (\<lambda>raw. Inr raw) (\<lambda>v. Inr v) ''k'' (Inr ''other'') (Some 60) None ''t2'' 60 61 [] ly' = Some (ly'', 0, Inr ''v'')"
    by (rule value_loaded_once [OF _ _ _ _ _ _ 1, where p = "''v''"]) (simp_all add: memory_config_def fresh_def, simp add: new_cache_def)
  with 1 show ?thesis by blast
qed

subsection \<open>Generations\<close>

text \<open>What a backend promises of the generation counters it keeps.\<close>

locale counter_backend =
  fixes be :: "'s backend" and inv :: "'s \<Rightarrow> bool" and count :: "'s \<Rightarrow> string \<Rightarrow> int" and holds :: "int \<Rightarrow> 's \<Rightarrow> bool"
  assumes count_nonneg: "inv s \<Longrightarrow> 0 \<le> count s d"
    and reads: "inv s \<Longrightarrow> \<exists>s'. generation_of be d now s = (s', Inr (count s d)) \<and> inv s' \<and> count s' d = count s d"
    and bumps: "inv s \<Longrightarrow> \<exists>s'. bump_generation_of be d now s = (s', Inr (count s d + 1)) \<and> inv s' \<and> count s' d = count s d + 1
      \<and> (\<forall>n. holds n s \<longrightarrow> holds n s')"
    and sets: "inv s \<Longrightarrow> 0 \<le> n \<Longrightarrow> holds n s \<Longrightarrow> \<exists>s'. set_generation_of be d n now s = (s', Inr ()) \<and> inv s' \<and> count s' d = n"

locale layered_counters =
  l1: counter_backend be1 inv1 count1 holds1 + l2: counter_backend be2 inv2 count2 holds2
  for be1 :: "'a backend" and inv1 count1 holds1 and be2 :: "'b backend" and inv2 count2 holds2
begin

lemma generation_max:
  assumes "lc_l1 cfg = be1" and "lc_l2 cfg = Some be2" and "inv1 (ly_l1 ly)" and "inv2 (ly_l2 ly)"
  obtains ly' where "layered_generation cfg d now ly = (ly', max (count1 (ly_l1 ly) d) (count2 (ly_l2 ly) d))"
    "inv1 (ly_l1 ly')" "inv2 (ly_l2 ly')" "count1 (ly_l1 ly') d = count1 (ly_l1 ly) d" "count2 (ly_l2 ly') d = count2 (ly_l2 ly) d"
proof -
  from l1.reads [OF assms(3), of d now] obtain s1 where 1: "generation_of be1 d now (ly_l1 ly) = (s1, Inr (count1 (ly_l1 ly) d))"
    "inv1 s1" "count1 s1 d = count1 (ly_l1 ly) d" by blast
  from l2.reads [OF assms(4), of d now] obtain s2 where 2: "generation_of be2 d now (ly_l2 ly) = (s2, Inr (count2 (ly_l2 ly) d))"
    "inv2 s2" "count2 s2 d = count2 (ly_l2 ly) d" by blast
  show thesis
    using assms(1,2) 1 2 by (intro that [of "ly\<lparr>ly_l1 := s1, ly_l2 := s2\<rparr>"])
      (simp_all add: layered_generation_def on_l1_def on_l2_def guarded_def)
qed

text \<open>A bump raises the generation past every one read before, in both layers.\<close>

lemma bump_both:
  assumes "lc_l1 cfg = be1" and "lc_l2 cfg = Some be2" and "inv1 (ly_l1 ly)" and "inv2 (ly_l2 ly)"
    and "holds1 (max (count1 (ly_l1 ly) d) (count2 (ly_l2 ly) d) + 1) (ly_l1 ly)"
    and "holds2 (max (count1 (ly_l1 ly) d) (count2 (ly_l2 ly) d) + 1) (ly_l2 ly)"
  obtains ly' where "bump_generation cfg d now ly = (ly', Inr (max (count1 (ly_l1 ly) d) (count2 (ly_l2 ly) d) + 1))"
    "inv1 (ly_l1 ly')" "inv2 (ly_l2 ly')"
    "count1 (ly_l1 ly') d = max (count1 (ly_l1 ly) d) (count2 (ly_l2 ly) d) + 1"
    "count2 (ly_l2 ly') d = max (count1 (ly_l1 ly) d) (count2 (ly_l2 ly) d) + 1"
proof -
  let ?a = "count1 (ly_l1 ly) d" and ?b = "count2 (ly_l2 ly) d"
  from l1.bumps [OF assms(3), of d now] obtain s1 where 1: "bump_generation_of be1 d now (ly_l1 ly) = (s1, Inr (?a + 1))"
    "inv1 s1" "count1 s1 d = ?a + 1" "holds1 (max ?a ?b + 1) s1" using assms(5) by blast
  from l2.bumps [OF assms(4), of d now] obtain s2 where 2: "bump_generation_of be2 d now (ly_l2 ly) = (s2, Inr (?b + 1))"
    "inv2 s2" "count2 s2 d = ?b + 1" "holds2 (max ?a ?b + 1) s2" using assms(6) by blast
  consider (behind) "?b < ?a" | (ahead) "?a < ?b" | (same) "?a = ?b" by linarith
  then show thesis
  proof cases
    case behind
    from l2.sets [OF 2(2), of "?a + 1" d now] 2(4) behind l1.count_nonneg [OF assms(3), of d] obtain s3 where
      3: "set_generation_of be2 d (?a + 1) now s2 = (s3, Inr ())" "inv2 s3" "count2 s3 d = ?a + 1" by auto
    show thesis using assms(1,2) 1 2 3 behind by (intro that [of "ly\<lparr>ly_l1 := s1, ly_l2 := s3\<rparr>"])
      (simp_all add: bump_generation_def on_l1_def on_l2_def guarded_def)
  next
    case ahead
    from l1.sets [OF 1(2), of "?b + 1" d now] 1(4) ahead l2.count_nonneg [OF assms(4), of d] obtain s3 where
      3: "set_generation_of be1 d (?b + 1) now s1 = (s3, Inr ())" "inv1 s3" "count1 s3 d = ?b + 1" by auto
    show thesis using assms(1,2) 1 2 3 ahead by (intro that [of "ly\<lparr>ly_l1 := s3, ly_l2 := s2\<rparr>"])
      (simp_all add: bump_generation_def on_l1_def on_l2_def guarded_def)
  next
    case same
    with assms(1,2) 1 2 show thesis by (intro that [of "ly\<lparr>ly_l1 := s1, ly_l2 := s2\<rparr>"])
      (simp_all add: bump_generation_def on_l1_def on_l2_def guarded_def)
  qed
qed

end

definition counter_ok :: "memory_cache \<Rightarrow> bool" where
  "counter_ok c \<longleftrightarrow> distinct (dict_keys (mc_entries c)) \<and> mc_bytes c = weight (mc_entries c) \<and> 1 \<le> mc_max_entries c
     \<and> (\<forall>d e v. map_of (mc_entries c) (GENERATION_KEY d) = Some (e, v) \<longrightarrow> e = None \<and> (\<exists>n \<ge> 0. v = int_str n))"

definition counter_of :: "memory_cache \<Rightarrow> string \<Rightarrow> int" where
  "counter_of c d = (case map_of (mc_entries c) (GENERATION_KEY d) of
     None \<Rightarrow> 0 | Some (_, v) \<Rightarrow> (case py_int v of None \<Rightarrow> 0 | Some n \<Rightarrow> n))"

definition counter_holds :: "int \<Rightarrow> memory_cache \<Rightarrow> bool" where
  "counter_holds n c \<longleftrightarrow> int (length (int_str n)) \<le> mc_max_bytes c"

lemma GENERATION_KEY_inj [simp]: "GENERATION_KEY d = GENERATION_KEY d' \<longleftrightarrow> d = d'"
  by (simp add: GENERATION_KEY_def)

declare int_str.simps [simp del]

lemma counter_cases:
  assumes "counter_ok c"
  obtains (absent) "map_of (mc_entries c) (GENERATION_KEY d) = None" "counter_of c d = 0"
  | (present) n where "map_of (mc_entries c) (GENERATION_KEY d) = Some (None, int_str n)" "counter_of c d = n" "0 \<le> n" "py_int (int_str n) = Some n"
proof (cases "map_of (mc_entries c) (GENERATION_KEY d)")
  case None
  then show thesis by (intro absent) (simp_all add: counter_of_def)
next
  case (Some p)
  obtain e v where p: "p = (e, v)" by (cases p)
  have "e = None \<and> (\<exists>n \<ge> 0. v = int_str n)" using assms Some p unfolding counter_ok_def by blast
  then obtain n where n: "e = None" "0 \<le> n" "v = int_str n" by blast
  have "py_int (int_str n) = Some n" using py_int_int_str [OF n(2)] .
  with Some p n show thesis by (intro present [of n]) (simp_all add: counter_of_def)
qed

interpretation memory_counters: counter_backend memory_backend counter_ok counter_of counter_holds
proof
  fix c d
  assume "counter_ok c"
  then show "0 \<le> counter_of c d" by (rule counter_cases [of c d]) simp_all
next
  fix c d now
  assume c: "counter_ok c"
  from c show "\<exists>c'. generation_of memory_backend d now c = (c', Inr (counter_of c d)) \<and> counter_ok c' \<and> counter_of c' d = counter_of c d"
  proof (cases rule: counter_cases [of c d])
    case absent
    then show ?thesis using c by (simp add: generation_of_def memory_backend_def cache_get_def counter_ok_def counter_of_def)
  next
    case (present n)
    let ?c = "c\<lparr>mc_entries := put_last (GENERATION_KEY d) (None, int_str n) (mc_entries c), mc_hits := mc_hits c + 1\<rparr>"
    have m: "map_of (mc_entries ?c) = map_of (mc_entries c)" using present(1) by auto
    have "counter_ok ?c" using c present(1) weight_put_last [of "mc_entries c" "GENERATION_KEY d" None "int_str n"]
      unfolding counter_ok_def m by (simp add: put_last_distinct)
    moreover have "counter_of ?c d = counter_of c d" unfolding counter_of_def m ..
    ultimately show ?thesis using present by (simp add: generation_of_def memory_backend_def cache_get_def expired_def)
  qed
next
  fix c d now
  assume c: "counter_ok c"
  let ?n = "counter_of c d + 1"
  let ?b = "(case map_of (mc_entries c) (GENERATION_KEY d) of None \<Rightarrow> mc_bytes c | Some (_, old) \<Rightarrow> mc_bytes c - size_of old)"
  let ?c = "c\<lparr>mc_entries := put_last (GENERATION_KEY d) (None, int_str ?n) (mc_entries c), mc_bytes := ?b + size_of (int_str ?n)\<rparr>"
  have nn: "0 \<le> counter_of c d" using c by (rule counter_cases [of c d]) simp_all
  from c have i: "cache_incr (GENERATION_KEY d) None now c = (?c, Inr ?n)"
    by (cases rule: counter_cases [of c d]) (simp_all add: cache_incr_def expired_def Let_def)
  have "counter_ok ?c" using c nn weight_put_last [of "mc_entries c" "GENERATION_KEY d" None "int_str ?n"]
    by (auto simp: counter_ok_def put_last_distinct split: option.split intro!: exI [of _ ?n])
  moreover have "counter_of ?c d = ?n" using nn py_int_int_str [of ?n] by (simp add: counter_of_def)
  ultimately show "\<exists>c'. bump_generation_of memory_backend d now c = (c', Inr ?n) \<and> counter_ok c' \<and> counter_of c' d = ?n
      \<and> (\<forall>n. counter_holds n c \<longrightarrow> counter_holds n c')"
    using i by (simp add: bump_generation_of_def memory_backend_def counter_holds_def)
next
  fix c d now n
  assume c: "counter_ok c" "0 \<le> n" "counter_holds n c"
  let ?c = "cache_set (GENERATION_KEY d) (int_str n) None now c"
  have a: "distinct (dict_keys (mc_entries c))" "mc_bytes c = weight (mc_entries c)" "1 \<le> mc_max_entries c"
    using c(1) by (simp_all add: counter_ok_def)
  have e: "map_of (mc_entries ?c) (GENERATION_KEY d) = Some (None, int_str n)"
    using set_entry [OF a] c(3) by (simp add: counter_holds_def)
  have lim: "mc_max_entries ?c = mc_max_entries c"
    using cache_exec_limits [of "CacheSet (GENERATION_KEY d) (int_str n) None now" c] by simp
  have "e' = None \<and> (\<exists>k \<ge> 0. v' = int_str k)" if h: "map_of (mc_entries ?c) (GENERATION_KEY d') = Some (e', v')" for d' e' v'
  proof (cases "d' = d")
    case True
    with h e c(2) show ?thesis by auto
  next
    case False
    with h set_accounts(3) [OF a(1,2), of "GENERATION_KEY d" "int_str n" None now]
    have "map_of (mc_entries c) (GENERATION_KEY d') = Some (e', v')" by (fastforce simp: map_le_def dom_def)
    with c(1) show ?thesis by (simp add: counter_ok_def)
  qed
  then have "counter_ok ?c"
    using set_accounts(1,2) [OF a(1,2)] a(3) lim unfolding counter_ok_def by simp
  moreover have "counter_of ?c d = n" using e py_int_int_str [OF c(2)] by (simp add: counter_of_def)
  ultimately show "\<exists>c'. set_generation_of memory_backend d n now c = (c', Inr ()) \<and> counter_ok c' \<and> counter_of c' d = n"
    by (simp add: set_generation_of_def memory_backend_def)
qed

interpretation memory_layers: layered_counters memory_backend counter_ok counter_of counter_holds
    memory_backend counter_ok counter_of counter_holds
  by unfold_locales


text \<open>C27. An invalidation changes every key of its domain: with both layers up, a key built after
  \<open>invalidate_domain\<close> differs from the one built before for the same panel, time and parameters, so no
  value stored under an older generation is read again.\<close>

theorem invalidation_changes_keys:
  assumes "counter_backend be2 inv2 count2 holds2" and "lc_l1 cfg = memory_backend" and "lc_l2 cfg = Some be2"
    and "counter_ok (ly_l1 ly)" and "inv2 (ly_l2 ly)"
    and "build_key cfg sha fmt d panel as_of kt params now ly = (ly1, Inr key)"
    and "counter_holds (max (counter_of (ly_l1 ly) d) (count2 (ly_l2 ly) d) + 1) (ly_l1 ly1)"
    and "holds2 (max (counter_of (ly_l1 ly) d) (count2 (ly_l2 ly) d) + 1) (ly_l2 ly1)"
  shows "\<exists>ly2 ly3 key'. invalidate_domain cfg d now ly1 = (ly2, Inr (max (counter_of (ly_l1 ly) d) (count2 (ly_l2 ly) d) + 1))
    \<and> build_key cfg sha fmt d panel as_of kt params later ly2 = (ly3, Inr key') \<and> key' \<noteq> key"
proof -
  let ?g = "max (counter_of (ly_l1 ly) d) (count2 (ly_l2 ly) d)"
  have c1: "counter_backend memory_backend counter_ok counter_of counter_holds" ..
  have lc: "layered_counters memory_backend counter_ok counter_of counter_holds be2 inv2 count2 holds2"
    using layered_counters.intro [OF c1 assms(1)] .
  from layered_counters.generation_max [OF lc assms(2-5), of d now] obtain l1 where
    g1: "layered_generation cfg d now ly = (l1, ?g)" "counter_ok (ly_l1 l1)" "inv2 (ly_l2 l1)"
      "counter_of (ly_l1 l1) d = counter_of (ly_l1 ly) d" "count2 (ly_l2 l1) d = count2 (ly_l2 ly) d" by metis
  then have k1: "ly1 = l1" "cache_key sha fmt d panel ?g as_of kt params = Inr key" using assms(6) by (simp_all add: build_key_def)
  from layered_counters.bump_both [OF lc assms(2,3), of ly1 d now] g1 k1 assms(7,8) obtain ly2 where
    b: "bump_generation cfg d now ly1 = (ly2, Inr (?g + 1))" "counter_ok (ly_l1 ly2)" "inv2 (ly_l2 ly2)"
      "counter_of (ly_l1 ly2) d = ?g + 1" "count2 (ly_l2 ly2) d = ?g + 1" by metis
  from layered_counters.generation_max [OF lc assms(2,3) b(2,3), of d later] obtain ly3 where
    g2: "layered_generation cfg d later ly2 = (ly3, ?g + 1)" using b(4,5) by auto
  obtain key' where k2: "cache_key sha fmt d panel (?g + 1) as_of kt params = Inr key'"
    using k1(2) by (auto simp: cache_key_def split: if_splits sum.splits)
  have "0 \<le> ?g" using memory_counters.count_nonneg [OF assms(4), of d] by simp
  with cache_key_generation [OF k1(2) k2] have "key' \<noteq> key" by fastforce
  with b(1) g2 k2 show ?thesis by (auto simp: invalidate_domain_def build_key_def)
qed

definition memory_pair :: "(memory_cache, memory_cache) layered_config" where
  "memory_pair = memory_config (Some memory_backend)"

theorem invalidation_changes_keys_witness:
  "\<exists>ly1 key ly2 ly3 key'.
     build_key memory_pair id (\<lambda>t. ''t'') ''cn'' ''quotes'' (Some (PitDate 1)) None None 0 (fresh (new_cache 10 100) (new_cache 10 100)) = (ly1, Inr key)
     \<and> invalidate_domain memory_pair ''cn'' 0 ly1 = (ly2, Inr (max (counter_of (new_cache 10 100) ''cn'') (counter_of (new_cache 10 100) ''cn'') + 1))
     \<and> build_key memory_pair id (\<lambda>t. ''t'') ''cn'' ''quotes'' (Some (PitDate 1)) None None 5 ly2 = (ly3, Inr key') \<and> key' \<noteq> key"
proof -
  let ?ly = "fresh (new_cache 10 100) (new_cache 10 100)"
  have z: "counter_of (new_cache 10 100) ''cn'' = 0" "ly_l1 ?ly = new_cache 10 100" "ly_l2 ?ly = new_cache 10 100"
    by (simp_all add: counter_of_def new_cache_def fresh_def)
  have "\<exists>ly1 key. build_key memory_pair id (\<lambda>t. ''t'') ''cn'' ''quotes'' (Some (PitDate 1)) None None 0 ?ly = (ly1, Inr key)
      \<and> mc_max_bytes (ly_l1 ly1) = 100 \<and> mc_max_bytes (ly_l2 ly1) = 100"
    by (simp add: build_key_def layered_generation_def memory_pair_def memory_config_def fresh_def generation_of_def guarded_def
      on_l1_def on_l2_def memory_backend_def cache_get_def new_cache_def cache_key_def pit_token_def)
  then obtain ly1 key where 1: "build_key memory_pair id (\<lambda>t. ''t'') ''cn'' ''quotes'' (Some (PitDate 1)) None None 0 ?ly = (ly1, Inr key)"
    "mc_max_bytes (ly_l1 ly1) = 100" "mc_max_bytes (ly_l2 ly1) = 100" by blast
  have c: "counter_backend memory_backend counter_ok counter_of counter_holds" ..
  have "\<exists>ly2 ly3 key'. invalidate_domain memory_pair ''cn'' 0 ly1 =
       (ly2, Inr (max (counter_of (ly_l1 ?ly) ''cn'') (counter_of (ly_l2 ?ly) ''cn'') + 1))
     \<and> build_key memory_pair id (\<lambda>t. ''t'') ''cn'' ''quotes'' (Some (PitDate 1)) None None 5 ly2 = (ly3, Inr key') \<and> key' \<noteq> key"
    by (rule invalidation_changes_keys [OF c _ _ _ _ 1(1)])
      (simp_all add: z 1 counter_holds_def memory_pair_def memory_config_def counter_ok_def, simp_all add: new_cache_def fresh_def int_str.simps nat_str.simps)
  with 1 z show ?thesis by (simp only: z) blast
qed

text \<open>While the second layer is down, a bump reaches the first one only: when the shared counter is
  ahead, the domain's generation does not move, and the keys in use stay in use.\<close>

definition flaky_pair :: "(memory_cache, memory_cache) layered_config" where
  "flaky_pair = memory_config (Some (memory_backend\<lparr>be_incr := (\<lambda>key ttl now c. (c, Inl ''down''))\<rparr>))"

lemma invalidation_lost:
  "let c = set_generation_of memory_backend ''cn'' 5 0 (new_cache 10 100);
       ly = fresh (new_cache 10 100) (fst c);
       g = snd (layered_generation memory_pair ''cn'' 0 ly);
       ly2 = fst (invalidate_domain flaky_pair ''cn'' 0 ly)
   in snd (layered_generation memory_pair ''cn'' 1 ly2) = g \<and> g = 5 \<and> snd (invalidate_domain flaky_pair ''cn'' 0 ly) = Inr 1"
  by code_simp

end
