(* ===== verification/Hub_Codes.thy ===== *)
theory Hub_Codes
  imports PyDates
begin

text \<open>
  Security codes of the hub (\<open>codes.py\<close>, \<open>mapping.py\<close>, \<open>capabilities.py\<close>, \<open>constants.py\<close> and the
  enumerations of \<open>enums.py\<close>): parsing the canonical form \<open>symbol.VENUE\<close>, the spelling of each data
  source, and the splitting of a request by the size a source accepts.
\<close>

subsection \<open>Enumerations\<close>

datatype source = TUSHARE | WIND | IFIND | AKSHARE | FUYAO | BAOSTOCK

datatype sec_type = STOCK | ETF | LOF | FUND | INDEX

datatype venue = SH | SZ | BJ | OF | CSI | HK | US_O | US_N | US_A | GI | TI | WI

datatype currency = CNY | HKD | USD | EUR | JPY

datatype capability = BARS | SNAPSHOT | FUND_NAV | REFERENCE | TRADE_CALENDAR | SECURITY_INFO | INDEX_WEIGHTS
  | FINANCIALS | MARKET_EVENTS | ADJUST_FACTORS | ADJUSTMENT_EVENTS | EDB

fun source_value :: "source \<Rightarrow> string" where
  "source_value TUSHARE = ''tushare''"
| "source_value WIND = ''wind''"
| "source_value IFIND = ''ifind''"
| "source_value AKSHARE = ''akshare''"
| "source_value FUYAO = ''fuyao''"
| "source_value BAOSTOCK = ''baostock''"

definition all_sources :: "source list" where "all_sources = [TUSHARE, WIND, IFIND, AKSHARE, FUYAO, BAOSTOCK]"

fun sec_type_value :: "sec_type \<Rightarrow> string" where
  "sec_type_value STOCK = ''stock''"
| "sec_type_value ETF = ''etf''"
| "sec_type_value LOF = ''lof''"
| "sec_type_value FUND = ''fund''"
| "sec_type_value INDEX = ''index''"

fun venue_value :: "venue \<Rightarrow> string" where
  "venue_value SH = ''SH''"
| "venue_value SZ = ''SZ''"
| "venue_value BJ = ''BJ''"
| "venue_value OF = ''OF''"
| "venue_value CSI = ''CSI''"
| "venue_value HK = ''HK''"
| "venue_value US_O = ''O''"
| "venue_value US_N = ''N''"
| "venue_value US_A = ''A''"
| "venue_value GI = ''GI''"
| "venue_value TI = ''TI''"
| "venue_value WI = ''WI''"

definition all_venues :: "venue list" where "all_venues = [SH, SZ, BJ, OF, CSI, HK, US_O, US_N, US_A, GI, TI, WI]"

text \<open>Looking an enumeration up by its value: \<open>Source(text)\<close>, \<open>SecType(text)\<close>, \<open>Venue(text)\<close>.\<close>

definition Source :: "string \<Rightarrow> source result" where
  "Source s = (case find (\<lambda>x. source_value x = s) all_sources of None \<Rightarrow> Inl ValueError | Some x \<Rightarrow> Inr x)"

definition SecType :: "string \<Rightarrow> sec_type result" where
  "SecType s = (case find (\<lambda>x. sec_type_value x = s) [STOCK, ETF, LOF, FUND, INDEX] of
     None \<Rightarrow> Inl ValueError | Some x \<Rightarrow> Inr x)"

definition Venue :: "string \<Rightarrow> venue result" where
  "Venue s = (case find (\<lambda>x. venue_value x = s) all_venues of None \<Rightarrow> Inl ValueError | Some x \<Rightarrow> Inr x)"

lemma source_value_inj [simp]: "source_value a = source_value b \<longleftrightarrow> a = b"
  by (cases a; cases b) simp_all

lemma Source_value [simp]: "Source (source_value s) = Inr s"
  by (cases s) (simp_all add: Source_def all_sources_def)

lemma SecType_value [simp]: "SecType (sec_type_value t) = Inr t"
  by (cases t) (simp_all add: SecType_def)

lemma Venue_value [simp]: "Venue (venue_value v) = Inr v"
  by (cases v) (simp_all add: Venue_def all_venues_def)

lemma Venue_Inr: "Venue s = Inr v \<Longrightarrow> s = venue_value v"
  by (auto simp: Venue_def find_Some_iff split: option.splits)

subsection \<open>Codes\<close>

definition CN_VENUES :: "venue set" where "CN_VENUES = {SH, SZ, BJ, OF}"
definition US_EXCHANGES :: "venue set" where "US_EXCHANGES = {US_O, US_N, US_A}"
definition INDEX_VENUES :: "venue set" where "INDEX_VENUES = {GI, TI, WI, CSI}"
definition RESERVED_VENUES :: "venue set" where "RESERVED_VENUES = {HK}"

lemmas venue_sets = CN_VENUES_def US_EXCHANGES_def INDEX_VENUES_def RESERVED_VENUES_def

record sec_code =
  sc_symbol :: string
  sc_venue :: venue
  sc_type :: sec_type

definition infer_sec_type :: "venue \<Rightarrow> string \<Rightarrow> sec_type result" where
  "infer_sec_type v symbol =
     (if v = OF then Inr FUND
      else if v \<in> US_EXCHANGES then Inr STOCK
      else if v \<in> INDEX_VENUES then Inr INDEX
      else if v = SH \<and> starts_with ''6'' symbol then Inr STOCK
      else if v = SH \<and> (starts_with ''000'' symbol \<or> starts_with ''950'' symbol) then Inr INDEX
      else if v = SH \<and> starts_with ''501'' symbol then Inr LOF
      else if v = SH \<and> starts_with ''5'' symbol then Inr ETF
      else if v = SZ \<and> (starts_with ''00'' symbol \<or> starts_with ''30'' symbol) then Inr STOCK
      else if v = SZ \<and> starts_with ''15'' symbol then Inr ETF
      else if v = SZ \<and> starts_with ''16'' symbol then Inr LOF
      else if v = SZ \<and> starts_with ''39'' symbol then Inr INDEX
      else if v = BJ \<and> (starts_with ''4'' symbol \<or> starts_with ''8'' symbol \<or> starts_with ''9'' symbol) then Inr STOCK
      else Inl UnknownSecurityError)"

definition is_upper :: "char \<Rightarrow> bool" where
  "is_upper c \<longleftrightarrow> 65 \<le> (of_char c :: nat) \<and> (of_char c :: nat) \<le> 90"

definition numeric_symbol :: "string \<Rightarrow> bool" where
  "numeric_symbol s \<longleftrightarrow> 1 \<le> length s \<and> length s \<le> 6 \<and> list_all is_digit s"

definition alnum_symbol :: "string \<Rightarrow> bool" where
  "alnum_symbol s \<longleftrightarrow> 1 \<le> length s \<and> length s \<le> 10 \<and> list_all (\<lambda>c. is_upper c \<or> is_digit c) s"

text \<open>
  \<open>SecCode.parse\<close> of a text.  The regular expressions of the symbols are read over ASCII, as are the
  other string operations.
\<close>

definition parse_text :: "string \<Rightarrow> string option \<Rightarrow> sec_code result" where
  "parse_text text type_text =
     (case rpartition (CHR ''.'') (strip text) of
        None \<Rightarrow> Inl UnknownSecurityError
      | Some (symbol_part, venue_part) \<Rightarrow>
          (case Venue (upper (strip venue_part)) of
             Inl _ \<Rightarrow> Inl UnknownSecurityError
           | Inr v \<Rightarrow>
               let s = upper (strip symbol_part)
               in if v \<in> CN_VENUES \<and> \<not> numeric_symbol s then Inl UnknownSecurityError
                  else if v \<notin> CN_VENUES \<and> \<not> alnum_symbol s then Inl UnknownSecurityError
                  else let symbol = (if v \<in> CN_VENUES then pad 6 s else s)
                       in map_sum id (\<lambda>t. \<lparr>sc_symbol = symbol, sc_venue = v, sc_type = t\<rparr>)
                            (case type_text of
                               Some t \<Rightarrow> SecType t
                             | None \<Rightarrow> if v \<in> RESERVED_VENUES then Inl UnknownSecurityError else infer_sec_type v symbol)))"

definition with_sec_type :: "sec_code \<Rightarrow> string \<Rightarrow> sec_code result" where
  "with_sec_type c t = map_sum id (\<lambda>t. c\<lparr>sc_type := t\<rparr>) (SecType t)"

datatype code_input = CodeText string | Code sec_code

fun parse :: "code_input \<Rightarrow> string option \<Rightarrow> sec_code result" where
  "parse (Code c) None = Inr c"
| "parse (Code c) (Some t) = with_sec_type c t"
| "parse (CodeText s) t = parse_text s t"

definition canonical :: "sec_code \<Rightarrow> string" where
  "canonical c = sc_symbol c @ ''.'' @ venue_value (sc_venue c)"

fun parse_codes :: "code_input list \<Rightarrow> sec_code list result" where
  "parse_codes [] = Inr []"
| "parse_codes (v # vs) = bind_result (parse v None) (\<lambda>c. bind_result (parse_codes vs) (\<lambda>cs. Inr (c # cs)))"

subsection \<open>Currencies\<close>

fun VENUE_CURRENCY :: "venue \<Rightarrow> currency option" where
  "VENUE_CURRENCY SH = Some CNY"
| "VENUE_CURRENCY SZ = Some CNY"
| "VENUE_CURRENCY BJ = Some CNY"
| "VENUE_CURRENCY OF = Some CNY"
| "VENUE_CURRENCY TI = Some CNY"
| "VENUE_CURRENCY WI = Some CNY"
| "VENUE_CURRENCY CSI = Some CNY"
| "VENUE_CURRENCY HK = Some HKD"
| "VENUE_CURRENCY US_O = Some USD"
| "VENUE_CURRENCY US_N = Some USD"
| "VENUE_CURRENCY US_A = Some USD"
| "VENUE_CURRENCY GI = None"

definition currency_for_venue :: "string \<Rightarrow> currency option" where
  "currency_for_venue s = (case Venue s of Inl _ \<Rightarrow> None | Inr v \<Rightarrow> VENUE_CURRENCY v)"

definition currency_for_code :: "string \<Rightarrow> currency option" where
  "currency_for_code s = (case rpartition (CHR ''.'') s of None \<Rightarrow> None | Some (_, v) \<Rightarrow> currency_for_venue v)"

subsection \<open>The spelling of each source\<close>

definition passthrough_to :: "sec_code \<Rightarrow> string option \<Rightarrow> string result" where
  "passthrough_to c endpoint = Inr (canonical c)"

definition passthrough_from :: "string \<Rightarrow> string option \<Rightarrow> sec_code result" where
  "passthrough_from raw v =
     (case v of
        Some (a # b) \<Rightarrow> if CHR ''.'' \<notin> set raw then parse_text (raw @ ''.'' @ a # b) None else parse_text raw None
      | _ \<Rightarrow> parse_text raw None)"

definition AKSHARE_INDEX_PREFIXED_ENDPOINTS :: "string set" where
  "AKSHARE_INDEX_PREFIXED_ENDPOINTS = {''stock_zh_index_daily_em'', ''stock_zh_index_daily''}"

fun PREFIX_BY_VENUE :: "venue \<Rightarrow> string option" where
  "PREFIX_BY_VENUE SH = Some ''sh''"
| "PREFIX_BY_VENUE SZ = Some ''sz''"
| "PREFIX_BY_VENUE CSI = Some ''csi''"
| "PREFIX_BY_VENUE _ = None"

definition VENUE_BY_PREFIX :: "(string, string) dict" where
  "VENUE_BY_PREFIX = [(''sh'', ''SH''), (''sz'', ''SZ''), (''csi'', ''CSI'')]"

definition akshare_to :: "sec_code \<Rightarrow> string option \<Rightarrow> string result" where
  "akshare_to c endpoint =
     (if sc_venue c \<notin> CN_VENUES then Inl UnsupportedCapability
      else if sc_type c = INDEX \<and> (case endpoint of None \<Rightarrow> False | Some e \<Rightarrow> e \<in> AKSHARE_INDEX_PREFIXED_ENDPOINTS)
      then (case PREFIX_BY_VENUE (sc_venue c) of
              None \<Rightarrow> Inl UnknownSecurityError
            | Some p \<Rightarrow> Inr (p @ sc_symbol c))
      else Inr (sc_symbol c))"

definition is_digits :: "string \<Rightarrow> bool" where
  "is_digits s \<longleftrightarrow> s \<noteq> [] \<and> list_all is_digit s"

definition akshare_from :: "string \<Rightarrow> string option \<Rightarrow> sec_code result" where
  "akshare_from raw v =
     (let text = lower (strip raw)
      in case find (\<lambda>(p, _). starts_with p text \<and> is_digits (drop (length p) text)) VENUE_BY_PREFIX of
           Some (p, resolved) \<Rightarrow> parse_text (drop (length p) text @ ''.'' @ resolved) (Some (sec_type_value INDEX))
         | None \<Rightarrow> (case v of
               Some (a # b) \<Rightarrow> parse_text (text @ ''.'' @ upper (a # b)) None
             | _ \<Rightarrow> Inl UnknownSecurityError))"

fun baostock_prefix :: "venue \<Rightarrow> string option" where
  "baostock_prefix SH = Some ''sh''"
| "baostock_prefix SZ = Some ''sz''"
| "baostock_prefix _ = None"

definition baostock_to :: "sec_code \<Rightarrow> string option \<Rightarrow> string result" where
  "baostock_to c endpoint =
     (case baostock_prefix (sc_venue c) of
        None \<Rightarrow> Inl UnsupportedCapability
      | Some p \<Rightarrow> Inr (p @ ''.'' @ sc_symbol c))"

definition baostock_from :: "string \<Rightarrow> string option \<Rightarrow> sec_code result" where
  "baostock_from raw v =
     (let text = lower (strip raw)
      in case partition_first (CHR ''.'') text of
           None \<Rightarrow> (case v of
               Some (a # b) \<Rightarrow> parse_text (text @ ''.'' @ upper (a # b)) None
             | _ \<Rightarrow> Inl UnknownSecurityError)
         | Some (prefix, symbol) \<Rightarrow>
             (case map_of [(''sh'', ''SH''), (''sz'', ''SZ'')] prefix of
                None \<Rightarrow> Inl UnknownSecurityError
              | Some resolved \<Rightarrow> parse_text (symbol @ ''.'' @ resolved) None))"

text \<open>The mapper of a source: \<open>get_mapper\<close> and its two methods.\<close>

datatype mapper = Passthrough | AkShare | BaoStock

fun mapper_of :: "source \<Rightarrow> mapper" where
  "mapper_of AKSHARE = AkShare"
| "mapper_of BAOSTOCK = BaoStock"
| "mapper_of _ = Passthrough"

definition get_mapper :: "string \<Rightarrow> mapper result" where
  "get_mapper s = map_sum id mapper_of (Source s)"

fun to_source :: "mapper \<Rightarrow> sec_code \<Rightarrow> string option \<Rightarrow> string result" where
  "to_source Passthrough = passthrough_to"
| "to_source AkShare = akshare_to"
| "to_source BaoStock = baostock_to"

fun from_source :: "mapper \<Rightarrow> string \<Rightarrow> string option \<Rightarrow> sec_code result" where
  "from_source Passthrough = passthrough_from"
| "from_source AkShare = akshare_from"
| "from_source BaoStock = baostock_from"

subsection \<open>Capabilities\<close>

datatype cost_class = Free | Metered | Premium

record endpoint_capability =
  max_codes_per_call :: "int option"
  max_indicators_per_call :: "int option"
  supports_multi_symbol :: bool
  supports_history :: bool
  cost_class :: cost_class

definition DEFAULT_CAPABILITY :: endpoint_capability where
  "DEFAULT_CAPABILITY = \<lparr>max_codes_per_call = None, max_indicators_per_call = None, supports_multi_symbol = True,
     supports_history = True, cost_class = Free\<rparr>"

abbreviation single :: endpoint_capability where
  "single \<equiv> DEFAULT_CAPABILITY\<lparr>max_codes_per_call := Some 1, supports_multi_symbol := False\<rparr>"

fun CAPABILITIES :: "source \<times> capability \<Rightarrow> endpoint_capability option" where
  "CAPABILITIES (TUSHARE, BARS) = Some DEFAULT_CAPABILITY"
| "CAPABILITIES (TUSHARE, FUND_NAV) = Some DEFAULT_CAPABILITY"
| "CAPABILITIES (TUSHARE, ADJUST_FACTORS) = Some DEFAULT_CAPABILITY"
| "CAPABILITIES (TUSHARE, SECURITY_INFO) = Some DEFAULT_CAPABILITY"
| "CAPABILITIES (TUSHARE, INDEX_WEIGHTS) = Some single"
| "CAPABILITIES (TUSHARE, FINANCIALS) = Some DEFAULT_CAPABILITY"
| "CAPABILITIES (TUSHARE, MARKET_EVENTS) = Some DEFAULT_CAPABILITY"
| "CAPABILITIES (AKSHARE, BARS) = Some single"
| "CAPABILITIES (AKSHARE, FUND_NAV) = Some single"
| "CAPABILITIES (IFIND, BARS) = Some (DEFAULT_CAPABILITY\<lparr>max_codes_per_call := Some 50, cost_class := Metered\<rparr>)"
| "CAPABILITIES (IFIND, FUND_NAV) = Some (DEFAULT_CAPABILITY\<lparr>max_codes_per_call := Some 50, cost_class := Metered\<rparr>)"
| "CAPABILITIES (IFIND, EDB) = Some (DEFAULT_CAPABILITY\<lparr>cost_class := Metered\<rparr>)"
| "CAPABILITIES (FUYAO, BARS) = Some single"
| "CAPABILITIES (FUYAO, SNAPSHOT) = Some (DEFAULT_CAPABILITY\<lparr>max_codes_per_call := Some 50\<rparr>)"
| "CAPABILITIES (BAOSTOCK, BARS) = Some single"
| "CAPABILITIES (BAOSTOCK, ADJUST_FACTORS) = Some single"
| "CAPABILITIES (WIND, BARS) = Some (single\<lparr>cost_class := Premium\<rparr>)"
| "CAPABILITIES (WIND, SNAPSHOT) = Some (DEFAULT_CAPABILITY\<lparr>max_codes_per_call := Some 50, cost_class := Premium\<rparr>)"
| "CAPABILITIES (WIND, EDB) = Some (DEFAULT_CAPABILITY\<lparr>cost_class := Premium\<rparr>)"
| "CAPABILITIES _ = None"

definition get_capability :: "source \<Rightarrow> capability \<Rightarrow> endpoint_capability" where
  "get_capability s c = (case CAPABILITIES (s, c) of None \<Rightarrow> DEFAULT_CAPABILITY | Some e \<Rightarrow> e)"

text \<open>The slices \<open>codes[i : i + limit]\<close>; a limit below one makes \<open>range\<close> raise.\<close>

fun slices :: "nat \<Rightarrow> 'a list \<Rightarrow> 'a list list" where
  "slices n [] = []"
| "slices n (x # xs) = (if n = 0 then [] else take n (x # xs) # slices n (drop n (x # xs)))"

definition split_codes :: "source \<Rightarrow> capability \<Rightarrow> 'a list \<Rightarrow> 'a list list" where
  "split_codes s c codes =
     (case max_codes_per_call (get_capability s c) of
        None \<Rightarrow> [codes]
      | Some limit \<Rightarrow> if int (length codes) \<le> limit then [codes] else slices (nat limit) codes)"

subsection \<open>Lemmas\<close>

lemma digit_upper [simp]: "is_digit c \<Longrightarrow> upper_char c = c"
  by (simp add: is_digit_def upper_char_def Let_def)

lemma digit_lower [simp]: "is_digit c \<Longrightarrow> lower_char c = c"
  by (simp add: is_digit_def lower_char_def Let_def)

lemma digits_upper: "list_all is_digit s \<Longrightarrow> upper s = s"
  by (simp add: upper_def list_all_iff map_idI)

lemma digits_lower: "list_all is_digit s \<Longrightarrow> lower s = s"
  by (simp add: lower_def list_all_iff map_idI)

lemma slices_concat: "0 < n \<Longrightarrow> concat (slices n xs) = xs"
  by (induction n xs rule: slices.induct) auto

lemma slices_size: "ys \<in> set (slices n xs) \<Longrightarrow> ys \<noteq> [] \<and> length ys \<le> n"
  by (induction n xs rule: slices.induct) (auto split: if_splits)


text \<open>What every parsed code satisfies, and the reading of a canonical code.\<close>

definition code_ok :: "sec_code \<Rightarrow> bool" where
  "code_ok c \<longleftrightarrow> (if sc_venue c \<in> CN_VENUES then length (sc_symbol c) = 6 \<and> list_all is_digit (sc_symbol c) else alnum_symbol (sc_symbol c))"

lemma pad_six: "numeric_symbol s \<Longrightarrow> length (pad 6 s) = 6 \<and> list_all is_digit (pad 6 s)"
  by (auto simp: numeric_symbol_def pad_def is_digit_def list_all_iff)

lemma pad_full [simp]: "length s = n \<Longrightarrow> pad n s = s"
  by (simp add: pad_def)

lemma is_upper_upper [simp]: "is_upper c \<Longrightarrow> upper_char c = c"
  by (simp add: is_upper_def upper_char_def Let_def)

lemma alnum_upper: "list_all (\<lambda>c. is_upper c \<or> is_digit c) s \<Longrightarrow> upper s = s"
  unfolding upper_def list_all_iff by (intro map_idI) auto

lemma upper_not_space: "is_upper c \<Longrightarrow> \<not> is_space c"
  by (auto simp: is_upper_def is_space_def)

lemma map_sum_Inr: "map_sum id f r = Inr y \<longleftrightarrow> (\<exists>x. r = Inr x \<and> y = f x)"
  by (cases r) auto

lemma parse_text_ok: "parse_text text t = Inr c \<Longrightarrow> code_ok c"
  by (auto simp: parse_text_def code_ok_def pad_six Let_def map_sum_Inr split: option.splits sum.splits if_splits)

lemma parse_text_type:
  assumes "parse_text text t = Inr c"
  shows "case t of Some u \<Rightarrow> SecType u = Inr (sc_type c) | None \<Rightarrow> sc_venue c \<notin> RESERVED_VENUES \<and> infer_sec_type (sc_venue c) (sc_symbol c) = Inr (sc_type c)"
  using assms by (auto simp: parse_text_def Let_def map_sum_Inr split: option.splits sum.splits if_splits)

lemma venue_value_plain: "CHR ''.'' \<notin> set (venue_value v) \<and> (\<forall>c \<in> set (venue_value v). is_upper c)"
  by (cases v) (simp_all add: is_upper_def)

lemma symbol_plain: "code_ok c \<Longrightarrow> \<forall>x \<in> set (sc_symbol c). is_upper x \<or> is_digit x"
  by (auto simp: code_ok_def alnum_symbol_def list_all_iff split: if_splits)

lemma upper_venue [simp]: "upper (venue_value v) = venue_value v"
  using venue_value_plain [of v] by (intro alnum_upper) (simp add: list_all_iff)

text \<open>Reading \<open>symbol.VENUE\<close>, with a symbol as it is stored or, in the Chinese market, a shorter one.\<close>

lemma parse_symbol:
  assumes "\<forall>x \<in> set s. is_upper x \<or> is_digit x" and "if v \<in> CN_VENUES then numeric_symbol s else alnum_symbol s"
  shows "parse_text (s @ CHR ''.'' # venue_value v) t =
    map_sum id (\<lambda>u. \<lparr>sc_symbol = (if v \<in> CN_VENUES then pad 6 s else s), sc_venue = v, sc_type = u\<rparr>)
      (case t of Some u \<Rightarrow> SecType u
       | None \<Rightarrow> if v \<in> RESERVED_VENUES then Inl UnknownSecurityError else infer_sec_type v (if v \<in> CN_VENUES then pad 6 s else s))"
proof -
  have sp: "\<forall>c \<in> set s. \<not> is_space c" "\<forall>c \<in> set (venue_value v). \<not> is_space c"
    using assms(1) venue_value_plain [of v] digit_not_space upper_not_space by blast+
  have "strip (s @ CHR ''.'' # venue_value v) = s @ CHR ''.'' # venue_value v"
    using sp by (intro strip_id) (auto simp: is_space_def)
  moreover have "rpartition (CHR ''.'') (s @ CHR ''.'' # venue_value v) = Some (s, venue_value v)"
    using venue_value_plain by (intro rpartition_append) blast
  moreover have "strip s = s" "strip (venue_value v) = venue_value v" using sp by (simp_all add: strip_id)
  moreover have "upper s = s" using assms(1) by (intro alnum_upper) (simp add: list_all_iff)
  ultimately show ?thesis using assms(2) by (simp add: parse_text_def Let_def)
qed

lemma code_numeric: "code_ok c \<Longrightarrow> sc_venue c \<in> CN_VENUES \<Longrightarrow> numeric_symbol (sc_symbol c)"
  by (simp add: code_ok_def numeric_symbol_def)

lemma parse_canonical:
  assumes "code_ok c" and "SecType u = Inr (sc_type c)"
  shows "parse_text (canonical c) (Some u) = Inr c"
  using parse_symbol [of "sc_symbol c" "sc_venue c" "Some u"] symbol_plain [OF assms(1)] assms
  by (simp add: canonical_def code_ok_def numeric_symbol_def split: if_splits)

lemma parse_canonical_inferred:
  assumes "code_ok c" and "sc_venue c \<notin> RESERVED_VENUES" and "infer_sec_type (sc_venue c) (sc_symbol c) = Inr (sc_type c)"
  shows "parse_text (canonical c) None = Inr c"
  using parse_symbol [of "sc_symbol c" "sc_venue c" None] symbol_plain [OF assms(1)] assms
  by (simp add: canonical_def code_ok_def numeric_symbol_def split: if_splits)

end
