(* ===== verification/Hub_RateLimit.thy ===== *)
theory Hub_RateLimit
  imports Complex_Main Hub_Codes
begin

text \<open>
  The hub's rate limits and retries (\<open>ratelimit.py\<close>).  Seconds, tokens and delays are rationals; the
  readings of the clock are arguments.  A waiting \<open>acquire\<close> gives the lock away: each round of its loop
  carries the readings it makes and what the other threads do to the bucket before its next round.
\<close>

subsection \<open>The token bucket\<close>

record rate_limit_config =
  rl_rate :: rat
  rl_burst :: "rat option"
  rl_timeout :: "rat option"

record limiter =
  lm_rate :: rat
  lm_capacity :: rat
  lm_tokens :: rat
  lm_updated :: rat

definition new_limiter :: "rat \<Rightarrow> rat option \<Rightarrow> rat \<Rightarrow> limiter result" where
  "new_limiter rate burst now =
     (if rate \<le> 0 then Inl ValueError
      else let capacity = (case burst of Some b \<Rightarrow> b | None \<Rightarrow> max 1 rate)
           in if capacity \<le> 0 then Inl ValueError
              else Inr \<lparr>lm_rate = rate, lm_capacity = capacity, lm_tokens = capacity, lm_updated = now\<rparr>)"

definition refill :: "rat \<Rightarrow> limiter \<Rightarrow> limiter" where
  "refill now l =
     (let elapsed = now - lm_updated l
      in if 0 < elapsed
         then l\<lparr>lm_tokens := min (lm_capacity l) (lm_tokens l + elapsed * lm_rate l), lm_updated := now\<rparr>
         else l)"

definition try_acquire :: "rat \<Rightarrow> rat \<Rightarrow> limiter \<Rightarrow> limiter \<times> bool" where
  "try_acquire tokens now l =
     (let l' = refill now l
      in if tokens \<le> lm_tokens l' then (l'\<lparr>lm_tokens := lm_tokens l' - tokens\<rparr>, True) else (l', False))"

definition tokens_at :: "rat \<Rightarrow> limiter \<Rightarrow> limiter \<times> rat" where
  "tokens_at now l = (let l' = refill now l in (l', lm_tokens l'))"

text \<open>
  The loop of \<open>acquire\<close>: a round reads the clock for the refill and, when it has a deadline, again for
  what remains; the answer carries the times it waited for.  \<open>None\<close>: the rounds given are used up.
\<close>

type_synonym wait_round = "rat \<times> rat \<times> (limiter \<Rightarrow> limiter)"

definition wait_time :: "rat \<Rightarrow> limiter \<Rightarrow> rat option \<Rightarrow> rat" where
  "wait_time tokens l remaining =
     (let wait = (tokens - lm_tokens l) / lm_rate l
      in max (case remaining of None \<Rightarrow> wait | Some r \<Rightarrow> min wait r) (1 / 1000000))"

fun acquire_loop ::
  "rat \<Rightarrow> rat option \<Rightarrow> wait_round list \<Rightarrow> limiter \<Rightarrow> (limiter \<times> rat list \<times> unit result) option" where
  "acquire_loop tokens deadline [] l = None"
| "acquire_loop tokens deadline ((now, again, others) # rounds) l =
     (case try_acquire tokens now l of
        (l', True) \<Rightarrow> Some (l', [], Inr ())
      | (l', False) \<Rightarrow>
          (case deadline of
             Some d \<Rightarrow>
               if d - again \<le> 0 then Some (l', [], Inl RateLimitTimeout)
               else map_option (\<lambda>(l, waits, r). (l, wait_time tokens l' (Some (d - again)) # waits, r))
                      (acquire_loop tokens deadline rounds (others l'))
           | None \<Rightarrow> map_option (\<lambda>(l, waits, r). (l, wait_time tokens l' None # waits, r))
                      (acquire_loop tokens deadline rounds (others l'))))"

definition acquire ::
  "rat \<Rightarrow> rat option \<Rightarrow> rat \<Rightarrow> wait_round list \<Rightarrow> limiter \<Rightarrow> (limiter \<times> rat list \<times> unit result) option" where
  "acquire tokens timeout start rounds l =
     (if lm_capacity l < tokens then Some (l, [], Inl ValueError)
      else acquire_loop tokens (map_option (\<lambda>t. start + t) timeout) rounds l)"

subsection \<open>Limiters of a source\<close>

record limiter_set =
  ls_default :: limiter
  ls_endpoints :: "(string, limiter) dict"
  ls_timeout :: "rat option"

definition limiter_key :: "limiter_set \<Rightarrow> string option \<Rightarrow> string option" where
  "limiter_key s endpoint =
     (case endpoint of Some e \<Rightarrow> if e \<in> set (dict_keys (ls_endpoints s)) then Some e else None | None \<Rightarrow> None)"

definition limiter_get :: "limiter_set \<Rightarrow> string option \<Rightarrow> limiter" where
  "limiter_get s endpoint =
     (case limiter_key s endpoint of Some e \<Rightarrow> the (map_of (ls_endpoints s) e) | None \<Rightarrow> ls_default s)"

definition limiter_put :: "limiter_set \<Rightarrow> string option \<Rightarrow> limiter \<Rightarrow> limiter_set" where
  "limiter_put s endpoint l =
     (case limiter_key s endpoint of
        Some e \<Rightarrow> s\<lparr>ls_endpoints := AList.update e l (ls_endpoints s)\<rparr>
      | None \<Rightarrow> s\<lparr>ls_default := l\<rparr>)"

definition set_acquire ::
  "string option \<Rightarrow> rat \<Rightarrow> rat option \<Rightarrow> rat \<Rightarrow> wait_round list \<Rightarrow> limiter_set \<Rightarrow> (limiter_set \<times> rat list \<times> unit result) option" where
  "set_acquire endpoint tokens timeout start rounds s =
     (let effective = (case timeout of Some t \<Rightarrow> Some t | None \<Rightarrow> ls_timeout s)
      in map_option (\<lambda>(l, waits, r). (limiter_put s endpoint l, waits, r))
           (acquire tokens effective start rounds (limiter_get s endpoint)))"

fun DEFAULT_RATE_LIMITS :: "source \<Rightarrow> rate_limit_config" where
  "DEFAULT_RATE_LIMITS TUSHARE = \<lparr>rl_rate = 2, rl_burst = Some 2, rl_timeout = Some 30\<rparr>"
| "DEFAULT_RATE_LIMITS AKSHARE = \<lparr>rl_rate = 1, rl_burst = Some 1, rl_timeout = Some 30\<rparr>"
| "DEFAULT_RATE_LIMITS WIND = \<lparr>rl_rate = 1, rl_burst = Some 1, rl_timeout = Some 30\<rparr>"
| "DEFAULT_RATE_LIMITS IFIND = \<lparr>rl_rate = 2, rl_burst = Some 2, rl_timeout = Some 30\<rparr>"
| "DEFAULT_RATE_LIMITS FUYAO = \<lparr>rl_rate = 2, rl_burst = Some 2, rl_timeout = Some 30\<rparr>"
| "DEFAULT_RATE_LIMITS BAOSTOCK = \<lparr>rl_rate = 2, rl_burst = Some 2, rl_timeout = Some 30\<rparr>"

definition default_rate_limiter_set :: "string \<Rightarrow> rat \<Rightarrow> limiter_set result" where
  "default_rate_limiter_set text now =
     bind_result (Source text) (\<lambda>s.
       let config = DEFAULT_RATE_LIMITS s
       in bind_result (new_limiter (rl_rate config) (rl_burst config) now) (\<lambda>l.
            Inr \<lparr>ls_default = l, ls_endpoints = [], ls_timeout = rl_timeout config\<rparr>))"

subsection \<open>Retries\<close>

definition compute_backoff :: "int \<Rightarrow> rat \<Rightarrow> rat \<Rightarrow> rat \<Rightarrow> rat \<Rightarrow> rat" where
  "compute_backoff attempt base max_delay jitter draw =
     (let delay = min max_delay (base * 2 ^ nat (attempt - 1));
          factor = 1 + jitter * (2 * draw - 1)
      in max 0 (delay * factor))"

record 's retry_policy =
  rp_attempts :: int
  rp_retry_on :: "py_error \<Rightarrow> bool"
  rp_base :: rat
  rp_max_delay :: rat
  rp_jitter :: rat
  rp_on_retry :: "(int \<Rightarrow> rat \<Rightarrow> py_error \<Rightarrow> 's \<Rightarrow> 's \<times> unit result) option"

definition default_retry_on :: "py_error \<Rightarrow> bool" where
  "default_retry_on e \<longleftrightarrow> e = RateLimitError \<or> e = NetworkError"

text \<open>\<open>retry_call\<close>: the state after, the delays slept, the number of calls, and the outcome.  \<open>draw\<close> is the
  random number of each attempt; the argument \<open>left\<close> counts the attempts after this one.\<close>

fun retry_from ::
  "('s \<Rightarrow> 's \<times> 'a result) \<Rightarrow> 's retry_policy \<Rightarrow> (int \<Rightarrow> rat) \<Rightarrow> nat \<Rightarrow> int \<Rightarrow> 's \<Rightarrow> 's \<times> rat list \<times> nat \<times> 'a result" where
  "retry_from call p draw left attempt s =
     (case call s of
        (s1, Inr v) \<Rightarrow> (s1, [], 1, Inr v)
      | (s1, Inl e) \<Rightarrow>
          if \<not> rp_retry_on p e then (s1, [], 1, Inl e)
          else (case left of
             0 \<Rightarrow> (s1, [], 1, Inl e)
           | Suc left' \<Rightarrow>
               let delay = compute_backoff attempt (rp_base p) (rp_max_delay p) (rp_jitter p) (draw attempt);
                   (s2, told) = (case rp_on_retry p of None \<Rightarrow> (s1, Inr ()) | Some f \<Rightarrow> f attempt delay e s1)
               in (case told of
                     Inl e' \<Rightarrow> (s2, [], 1, Inl e')
                   | Inr _ \<Rightarrow> (case retry_from call p draw left' (attempt + 1) s2 of
                        (s3, delays, calls, r) \<Rightarrow> (s3, delay # delays, calls + 1, r)))))"

declare retry_from.simps [simp del]

definition retry_call ::
  "('s \<Rightarrow> 's \<times> 'a result) \<Rightarrow> 's retry_policy \<Rightarrow> (int \<Rightarrow> rat) \<Rightarrow> 's \<Rightarrow> 's \<times> rat list \<times> nat \<times> 'a result" where
  "retry_call call p draw s =
     (if rp_attempts p < 1 then (s, [], 0, Inl ValueError)
      else retry_from call p draw (nat (rp_attempts p - 1)) 1 s)"

subsection \<open>Lemmas\<close>

text \<open>The bucket between two moments: it never exceeds its capacity, and what it gave out is covered.\<close>

definition limiter_ok :: "limiter \<Rightarrow> bool" where
  "limiter_ok l \<longleftrightarrow> 0 < lm_rate l \<and> 0 < lm_capacity l \<and> 0 \<le> lm_tokens l \<and> lm_tokens l \<le> lm_capacity l"

definition same_limits :: "limiter \<Rightarrow> limiter \<Rightarrow> bool" where
  "same_limits l l' \<longleftrightarrow> lm_rate l' = lm_rate l \<and> lm_capacity l' = lm_capacity l"

lemma new_limiter_ok: "new_limiter rate burst now = Inr l \<Longrightarrow> limiter_ok l \<and> lm_updated l = now \<and> lm_tokens l = lm_capacity l \<and> lm_rate l = rate"
  by (auto simp: new_limiter_def limiter_ok_def Let_def split: if_splits option.splits)

lemma refill_ok:
  assumes "limiter_ok l"
  shows "limiter_ok (refill now l)" and "same_limits l (refill now l)" and "lm_updated (refill now l) = max (lm_updated l) now"
    and "lm_tokens (refill now l) \<le> lm_tokens l + lm_rate l * (lm_updated (refill now l) - lm_updated l)"
    and "lm_tokens l \<le> lm_tokens (refill now l)"
proof -
  have "0 < (now - lm_updated l) * lm_rate l" if "0 < now - lm_updated l"
    using assms that by (simp add: limiter_ok_def)
  then show "limiter_ok (refill now l)" and "lm_tokens l \<le> lm_tokens (refill now l)"
    using assms by (auto simp: limiter_ok_def refill_def Let_def min_def)
  show "same_limits l (refill now l)" by (simp add: same_limits_def refill_def Let_def)
  show "lm_updated (refill now l) = max (lm_updated l) now" by (simp add: refill_def Let_def)
  show "lm_tokens (refill now l) \<le> lm_tokens l + lm_rate l * (lm_updated (refill now l) - lm_updated l)"
    by (auto simp: refill_def Let_def algebra_simps min_def)
qed

lemma try_acquire_ok:
  assumes "limiter_ok l" and "0 \<le> n" and "try_acquire n now l = (l', granted)"
  shows "limiter_ok l'" and "same_limits l l'" and "lm_updated l' = max (lm_updated l) now"
    and "(if granted then n else 0) + lm_tokens l' \<le> lm_tokens l + lm_rate l * (lm_updated l' - lm_updated l)"
  using assms refill_ok [OF assms(1), of now]
  by (auto simp: try_acquire_def Let_def limiter_ok_def same_limits_def split: if_splits)

text \<open>A sequence of requests, each with the reading of the clock it made.\<close>

fun grants :: "(rat \<times> rat) list \<Rightarrow> limiter \<Rightarrow> limiter \<times> rat" where
  "grants [] l = (l, 0)"
| "grants ((n, now) # reqs) l =
     (case try_acquire n now l of (l1, granted) \<Rightarrow>
        case grants reqs l1 of (l2, given) \<Rightarrow> (l2, (if granted then n else 0) + given))"

lemma grants_bound:
  "limiter_ok l \<Longrightarrow> \<forall>(n, now) \<in> set reqs. 0 \<le> n \<Longrightarrow> grants reqs l = (l', given) \<Longrightarrow>
    limiter_ok l' \<and> same_limits l l' \<and> lm_updated l' = Max (set (lm_updated l # map snd reqs))
    \<and> given + lm_tokens l' \<le> lm_tokens l + lm_rate l * (lm_updated l' - lm_updated l)"
proof (induction reqs arbitrary: l given)
  case Nil
  then show ?case by (simp add: same_limits_def)
next
  case (Cons q reqs)
  obtain n now where q: "q = (n, now)" by (cases q)
  obtain l1 g where 1: "try_acquire n now l = (l1, g)" by (metis prod.exhaust)
  obtain given2 where 2: "grants reqs l1 = (l', given2)" "given = (if g then n else 0) + given2"
    using Cons.prems(3) by (auto simp: q 1 split: prod.splits)
  have n: "0 \<le> n" and rest: "\<forall>(n, now) \<in> set reqs. 0 \<le> n" using Cons.prems(2) by (simp_all add: q)
  note t = try_acquire_ok [OF Cons.prems(1) n 1]
  from Cons.IH [OF t(1) rest 2(1)] have i: "limiter_ok l'" "same_limits l1 l'" "lm_updated l' = Max (set (lm_updated l1 # map snd reqs))"
    "given2 + lm_tokens l' \<le> lm_tokens l1 + lm_rate l1 * (lm_updated l' - lm_updated l1)" by blast+
  have "lm_updated l' = Max (set (lm_updated l # map snd (q # reqs)))"
    unfolding i(3) t(3) q by (cases reqs) (simp_all add: max.assoc Max_insert)
  moreover have "lm_rate l1 = lm_rate l" using t(2) by (simp add: same_limits_def)
  ultimately show ?case using i t by (simp add: 2(2) same_limits_def algebra_simps)
qed

lemma retry_again:
  assumes "call s = (s1, Inl e)" and "rp_retry_on p e"
    and "(case rp_on_retry p of None \<Rightarrow> (s1, Inr ())
          | Some f \<Rightarrow> f attempt (compute_backoff attempt (rp_base p) (rp_max_delay p) (rp_jitter p) (draw attempt)) e s1) = (s2, told)"
  shows "retry_from call p draw (Suc left) attempt s =
    (case told of
       Inl e' \<Rightarrow> (s2, [], 1, Inl e')
     | Inr _ \<Rightarrow> (case retry_from call p draw left (attempt + 1) s2 of
         (s3, delays, calls, r) \<Rightarrow>
           (s3, compute_backoff attempt (rp_base p) (rp_max_delay p) (rp_jitter p) (draw attempt) # delays, calls + 1, r)))"
  by (subst retry_from.simps) (simp add: assms Let_def split: sum.split prod.split)

lemma retry_from_bounds:
  "retry_from call p draw left attempt s = (s', delays, calls, r) \<Longrightarrow>
    1 \<le> calls \<and> calls \<le> left + 1 \<and> (length delays = calls - 1)"
proof (induction left arbitrary: attempt s s' delays calls r)
  case 0
  then show ?case by (subst (asm) retry_from.simps) (auto split: prod.splits sum.splits if_splits)
next
  case (Suc left)
  obtain s1 r1 where c: "call s = (s1, r1)" by (metis prod.exhaust)
  show ?case
  proof (cases "\<exists>e. r1 = Inl e \<and> rp_retry_on p e")
    case False
    with Suc.prems c show ?thesis by (subst (asm) retry_from.simps) (auto split: sum.splits if_splits)
  next
    case True
    then obtain e where e: "r1 = Inl e" "rp_retry_on p e" by blast
    let ?delay = "compute_backoff attempt (rp_base p) (rp_max_delay p) (rp_jitter p) (draw attempt)"
    obtain s2 told where t: "(case rp_on_retry p of None \<Rightarrow> (s1, Inr ()) | Some f \<Rightarrow> f attempt ?delay e s1) = (s2, told)"
      by (metis prod.exhaust)
    show ?thesis
    proof (cases told)
      case (Inl e')
      with Suc.prems retry_again [where call = call and s = s and draw = draw and attempt = attempt, OF c [unfolded e(1)] e(2) t] show ?thesis by simp
    next
      case (Inr u)
      obtain s3 ds n r3 where i: "retry_from call p draw left (attempt + 1) s2 = (s3, ds, n, r3)" by (metis prod.exhaust)
      with Suc.prems retry_again [where call = call and s = s and draw = draw and attempt = attempt, OF c [unfolded e(1)] e(2) t] Inr have "delays = ?delay # ds" "calls = n + 1" by auto
      with Suc.IH [OF i] show ?thesis by auto
    qed
  qed
qed

lemma backoff_bounds:
  assumes "0 \<le> base" and "0 \<le> max_delay" and "0 \<le> jitter" and "0 \<le> d" and "d \<le> 1"
  shows "0 \<le> compute_backoff attempt base max_delay jitter d" and "compute_backoff attempt base max_delay jitter d \<le> max_delay * (1 + jitter)"
proof -
  let ?delay = "min max_delay (base * 2 ^ nat (attempt - 1))"
  have "0 \<le> ?delay" "?delay \<le> max_delay" using assms(1,2) by simp_all
  moreover have "jitter * (2 * d - 1) \<le> jitter * 1" using assms(3,5) by (intro mult_left_mono) simp_all
  ultimately have "?delay * (1 + jitter * (2 * d - 1)) \<le> max_delay * (1 + jitter)"
  proof -
    have "?delay * (1 + jitter * (2 * d - 1)) \<le> ?delay * (1 + jitter)"
      using \<open>0 \<le> ?delay\<close> \<open>jitter * (2 * d - 1) \<le> jitter * 1\<close> by (intro mult_left_mono) simp_all
    also have "\<dots> \<le> max_delay * (1 + jitter)" using \<open>?delay \<le> max_delay\<close> assms(3) by (intro mult_right_mono) simp_all
    finally show ?thesis .
  qed
  then show "compute_backoff attempt base max_delay jitter d \<le> max_delay * (1 + jitter)"
    using assms(2,3) by (simp add: compute_backoff_def Let_def)
qed (simp add: compute_backoff_def Let_def)

end
