(* ===== verification/Hub_Usage.thy ===== *)
theory Hub_Usage
  imports Hub_RateLimit
begin

text \<open>
  The hub's usage ledger (\<open>usage.py\<close>): calls and estimated costs per day and source, with budget alerts.
  Costs and ratios are rationals.  The callback of an alert is a function that may raise; the callback of
  a record cannot change the ledger and its exceptions are swallowed, so it is left out.
\<close>

record usage_record =
  ur_source :: string
  ur_endpoint :: string
  ur_calls :: int
  ur_codes :: "string list"
  ur_latency_ms :: rat
  ur_est_cost :: rat
  ur_day :: string
  ur_timestamp :: time

record budget_alert =
  ba_source :: string
  ba_metric :: string
  ba_level :: string
  ba_value :: rat
  ba_limit :: rat
  ba_day :: string

record budget_config =
  bc_calls_per_day :: "(string, int) dict"
  bc_cost_per_day :: "(string, rat) dict"
  bc_cost_table :: "(string, rat) dict"
  bc_warn_ratio :: rat
  bc_on_alert :: "(budget_alert \<Rightarrow> unit result) option"

record usage_ledger =
  ul_budget :: budget_config
  ul_max_records :: nat
  ul_records :: "usage_record list"
  ul_calls :: "(string \<times> string, int) dict"
  ul_cost :: "(string \<times> string, rat) dict"
  ul_alerts :: "budget_alert list"
  ul_fired :: "(string \<times> string \<times> string \<times> string) list"

definition new_ledger :: "budget_config \<Rightarrow> nat \<Rightarrow> usage_ledger" where
  "new_ledger budget max_records = \<lparr>ul_budget = budget, ul_max_records = max_records, ul_records = [], ul_calls = [],
     ul_cost = [], ul_alerts = [], ul_fired = []\<rparr>"

definition usage_day :: "time \<Rightarrow> string" where
  "usage_day now = date_iso (dt_date now)"

definition dict_get :: "('k, 'v) dict \<Rightarrow> 'k \<Rightarrow> 'v \<Rightarrow> 'v" where
  "dict_get d k other = (case map_of d k of None \<Rightarrow> other | Some v \<Rightarrow> v)"

definition unit_cost :: "budget_config \<Rightarrow> string \<Rightarrow> string \<Rightarrow> rat" where
  "unit_cost b source endpoint =
     (case map_of (bc_cost_table b) (source @ ''.'' @ endpoint) of
        Some c \<Rightarrow> c | None \<Rightarrow> dict_get (bc_cost_table b) source 0)"

text \<open>A deque of a maximal length drops from its left end.\<close>

definition deque_append :: "nat \<Rightarrow> 'a \<Rightarrow> 'a list \<Rightarrow> 'a list" where
  "deque_append maxlen x xs = (let ys = xs @ [x] in drop (length ys - maxlen) ys)"

definition alert_level :: "budget_config \<Rightarrow> rat \<Rightarrow> rat \<Rightarrow> string option" where
  "alert_level b val limit =
     (if limit \<le> val then Some ''exceeded'' else if limit * bc_warn_ratio b \<le> val then Some ''warn'' else None)"

definition alert_if_needed ::
  "string \<Rightarrow> string \<Rightarrow> string \<Rightarrow> rat \<Rightarrow> rat \<Rightarrow> usage_ledger \<Rightarrow> usage_ledger \<times> unit result" where
  "alert_if_needed day source metric val limit u =
     (case alert_level (ul_budget u) val limit of
        None \<Rightarrow> (u, Inr ())
      | Some level \<Rightarrow>
          if (day, source, metric, level) \<in> set (ul_fired u) then (u, Inr ())
          else let alert = \<lparr>ba_source = source, ba_metric = metric, ba_level = level, ba_value = val, ba_limit = limit, ba_day = day\<rparr>;
                   u' = u\<lparr>ul_fired := (day, source, metric, level) # ul_fired u, ul_alerts := ul_alerts u @ [alert]\<rparr>
               in (u', case bc_on_alert (ul_budget u) of None \<Rightarrow> Inr () | Some f \<Rightarrow> f alert))"

definition check_cost :: "string \<Rightarrow> string \<Rightarrow> rat \<Rightarrow> usage_ledger \<Rightarrow> usage_ledger \<times> unit result" where
  "check_cost day source cost u =
     (case map_of (bc_cost_per_day (ul_budget u)) source of
        Some limit \<Rightarrow> if limit \<noteq> 0 then alert_if_needed day source ''cost'' cost limit u else (u, Inr ())
      | None \<Rightarrow> (u, Inr ()))"

definition check_budget :: "string \<Rightarrow> string \<Rightarrow> usage_ledger \<Rightarrow> usage_ledger \<times> unit result" where
  "check_budget day source u =
     (let calls = dict_get (ul_calls u) (day, source) 0;
          cost = dict_get (ul_cost u) (day, source) 0
      in case map_of (bc_calls_per_day (ul_budget u)) source of
           Some limit \<Rightarrow>
             if limit \<noteq> 0
             then (case alert_if_needed day source ''calls'' (of_int calls) (of_int limit) u of
                     (u', Inl e) \<Rightarrow> (u', Inl e)
                   | (u', Inr _) \<Rightarrow> check_cost day source cost u')
             else check_cost day source cost u
         | None \<Rightarrow> check_cost day source cost u)"

definition usage_record_of :: "budget_config \<Rightarrow> string \<Rightarrow> string \<Rightarrow> int \<Rightarrow> string list \<Rightarrow> rat \<Rightarrow> time \<Rightarrow> usage_record" where
  "usage_record_of b source endpoint calls codes latency now =
     \<lparr>ur_source = source, ur_endpoint = endpoint, ur_calls = calls, ur_codes = codes, ur_latency_ms = latency,
      ur_est_cost = unit_cost b source endpoint * of_int calls, ur_day = usage_day now, ur_timestamp = now\<rparr>"

definition add_usage :: "usage_record \<Rightarrow> usage_ledger \<Rightarrow> usage_ledger" where
  "add_usage r u =
     (let k = (ur_day r, ur_source r)
      in u\<lparr>ul_calls := AList.update k (dict_get (ul_calls u) k 0 + ur_calls r) (ul_calls u),
           ul_cost := AList.update k (dict_get (ul_cost u) k 0 + ur_est_cost r) (ul_cost u),
           ul_records := deque_append (ul_max_records u) r (ul_records u)\<rparr>)"

definition ledger_record ::
  "string \<Rightarrow> string \<Rightarrow> int \<Rightarrow> string list \<Rightarrow> rat \<Rightarrow> time \<Rightarrow> usage_ledger \<Rightarrow> usage_ledger \<times> usage_record result" where
  "ledger_record source endpoint calls codes latency now u =
     (let r = usage_record_of (ul_budget u) source endpoint calls codes latency now
      in case check_budget (ur_day r) source (add_usage r u) of
           (u', Inl e) \<Rightarrow> (u', Inl e)
         | (u', Inr _) \<Rightarrow> (u', Inr r))"

subsection \<open>The summary\<close>

text \<open>\<open>round(x, 6)\<close>: to the nearest multiple of a millionth, ties to the even one.\<close>

definition round6 :: "rat \<Rightarrow> rat" where
  "round6 x =
     (let y = x * 1000000; f = \<lfloor>y\<rfloor>; d = y - of_int f
      in of_int (if d < 1 / 2 then f else if 1 / 2 < d then f + 1 else if even f then f else f + 1) / 1000000)"

record usage_summary =
  us_day :: string
  us_sources :: "(string, int \<times> rat) dict"
  us_alerts :: "budget_alert list"
  us_records :: int

fun sum_calls :: "string \<Rightarrow> ((string \<times> string) \<times> int) list \<Rightarrow> (string, int \<times> rat) dict \<Rightarrow> (string, int \<times> rat) dict" where
  "sum_calls day [] acc = acc"
| "sum_calls day (((d, source), calls) # rest) acc =
     sum_calls day rest (if d \<noteq> day then acc else AList.update source (calls, snd (dict_get acc source (0, 0))) acc)"

fun sum_cost :: "string \<Rightarrow> ((string \<times> string) \<times> rat) list \<Rightarrow> (string, int \<times> rat) dict \<Rightarrow> (string, int \<times> rat) dict" where
  "sum_cost day [] acc = acc"
| "sum_cost day (((d, source), cost) # rest) acc =
     sum_cost day rest (if d \<noteq> day then acc else AList.update source (fst (dict_get acc source (0, 0)), round6 cost) acc)"

definition ledger_summary :: "time \<Rightarrow> usage_ledger \<Rightarrow> usage_summary" where
  "ledger_summary now u =
     (let day = usage_day now
      in \<lparr>us_day = day, us_sources = sum_cost day (ul_cost u) (sum_calls day (ul_calls u) []),
          us_alerts = filter (\<lambda>a. ba_day a = day) (ul_alerts u), us_records = int (length (ul_records u))\<rparr>)"

subsection \<open>Sequences of recordings\<close>

type_synonym usage_call = "string \<times> string \<times> int \<times> string list \<times> rat \<times> time"

definition record_call :: "usage_call \<Rightarrow> usage_ledger \<Rightarrow> usage_ledger" where
  "record_call q u = (case q of (source, endpoint, calls, codes, latency, now) \<Rightarrow> fst (ledger_record source endpoint calls codes latency now u))"

definition record_all :: "usage_call list \<Rightarrow> usage_ledger \<Rightarrow> usage_ledger" where
  "record_all qs u = foldl (\<lambda>u q. record_call q u) u qs"

definition records_of :: "budget_config \<Rightarrow> usage_call list \<Rightarrow> usage_record list" where
  "records_of b qs = map (\<lambda>(source, endpoint, calls, codes, latency, now). usage_record_of b source endpoint calls codes latency now) qs"

definition day_records :: "string \<Rightarrow> string \<Rightarrow> usage_record list \<Rightarrow> usage_record list" where
  "day_records day source rs = filter (\<lambda>r. ur_day r = day \<and> ur_source r = source) rs"

lemma records_of_snoc [simp]:
  "records_of b (qs @ [(source, endpoint, calls, codes, latency, now)]) = records_of b qs @ [usage_record_of b source endpoint calls codes latency now]"
  by (simp add: records_of_def)

lemma record_all_snoc [simp]: "record_all (qs @ [q]) u = record_call q (record_all qs u)"
  by (simp add: record_all_def)

lemma record_all_Nil [simp]: "record_all [] u = u" by (simp add: record_all_def)

lemma records_of_Nil [simp]: "records_of b [] = []" by (simp add: records_of_def)

text \<open>The budget check leaves the counts alone.\<close>

definition same_counts :: "usage_ledger \<Rightarrow> usage_ledger \<Rightarrow> bool" where
  "same_counts u u' \<longleftrightarrow> ul_budget u' = ul_budget u \<and> ul_max_records u' = ul_max_records u \<and> ul_records u' = ul_records u
     \<and> ul_calls u' = ul_calls u \<and> ul_cost u' = ul_cost u"

lemma alert_counts: "same_counts u (fst (alert_if_needed day source metric val limit u))"
  by (auto simp: alert_if_needed_def same_counts_def Let_def split: option.split)

lemma check_cost_counts: "same_counts u (fst (check_cost day source cost u))"
  using alert_counts by (auto simp: check_cost_def same_counts_def split: option.split)

lemma same_counts_trans: "same_counts u v \<Longrightarrow> same_counts v w \<Longrightarrow> same_counts u w"
  by (simp add: same_counts_def)

text \<open>The check is the alert on the calls, when there is a limit, and then the one on the costs.\<close>

lemma check_budget_cases:
  obtains (no_limit) "check_budget day source u = check_cost day source (dict_get (ul_cost u) (day, source) 0) u"
    "\<forall>limit. map_of (bc_calls_per_day (ul_budget u)) source = Some limit \<longrightarrow> limit = 0"
  | (limit) limit v r where "map_of (bc_calls_per_day (ul_budget u)) source = Some limit" "limit \<noteq> 0"
    "alert_if_needed day source ''calls'' (of_int (dict_get (ul_calls u) (day, source) 0)) (of_int limit) u = (v, r)"
    "fst (check_budget day source u) = v \<or> check_budget day source u = check_cost day source (dict_get (ul_cost u) (day, source) 0) v"
proof (cases "map_of (bc_calls_per_day (ul_budget u)) source")
  case None
  then show thesis by (intro no_limit) (simp_all add: check_budget_def)
next
  case (Some l)
  show thesis
  proof (cases "l = 0")
    case True
    with Some show thesis by (intro no_limit) (simp_all add: check_budget_def)
  next
    case False
    obtain v r where v: "alert_if_needed day source ''calls'' (of_int (dict_get (ul_calls u) (day, source) 0)) (of_int l) u = (v, r)"
      by (metis prod.exhaust)
    with Some False show thesis by (intro limit [OF Some False v]) (simp add: check_budget_def split: sum.split)
  qed
qed

lemma check_counts: "same_counts u (fst (check_budget day source u))"
proof (cases rule: check_budget_cases [of day source u])
  case no_limit
  then show ?thesis using check_cost_counts by simp
next
  case (limit l v r)
  from limit(3) have "same_counts u v" using alert_counts by (metis fst_conv)
  with limit(4) check_cost_counts same_counts_trans show ?thesis by metis
qed

lemma record_call_fst:
  "record_call (source, endpoint, calls, codes, latency, now) u =
    fst (check_budget (usage_day now) source (add_usage (usage_record_of (ul_budget u) source endpoint calls codes latency now) u))"
  by (simp add: record_call_def ledger_record_def Let_def usage_record_of_def split: prod.split sum.split)

lemma record_call_counts:
  "same_counts (add_usage (usage_record_of (ul_budget u) source endpoint calls codes latency now) u)
     (record_call (source, endpoint, calls, codes, latency, now) u)"
  unfolding record_call_fst by (rule check_counts)

lemma dict_get_update [simp]: "dict_get (AList.update k v d) k' x = (if k' = k then v else dict_get d k' x)"
  by (simp add: dict_get_def)

lemma deque_append_last:
  "deque_append n x (drop (length xs - n) xs) = drop (length (xs @ [x]) - n) (xs @ [x])"
proof (cases "n \<le> length xs")
  case True
  then have "length (drop (length xs - n) xs @ [x]) - n = 1" by simp
  with True show ?thesis by (auto simp: deque_append_def Let_def drop_Suc Suc_diff_le drop_tl [symmetric] tl_drop)
next
  case False
  then show ?thesis by (simp add: deque_append_def)
qed

lemma record_all_counts:
  "ul_budget (record_all qs (new_ledger b n)) = b \<and> ul_max_records (record_all qs (new_ledger b n)) = n
   \<and> ul_records (record_all qs (new_ledger b n)) = drop (length qs - n) (records_of b qs)
   \<and> distinct (dict_keys (ul_calls (record_all qs (new_ledger b n)))) \<and> distinct (dict_keys (ul_cost (record_all qs (new_ledger b n))))
   \<and> (\<forall>k. map_of (ul_calls (record_all qs (new_ledger b n))) k =
        (if day_records (fst k) (snd k) (records_of b qs) = [] then None
         else Some (sum_list (map ur_calls (day_records (fst k) (snd k) (records_of b qs))))))
   \<and> (\<forall>k. map_of (ul_cost (record_all qs (new_ledger b n))) k =
        (if day_records (fst k) (snd k) (records_of b qs) = [] then None
         else Some (sum_list (map ur_est_cost (day_records (fst k) (snd k) (records_of b qs))))))"
proof (induction qs rule: rev_induct)
  case Nil
  show ?case by (simp add: new_ledger_def day_records_def)
next
  case (snoc q qs)
  obtain source endpoint calls codes latency now where q: "q = (source, endpoint, calls, codes, latency, now)" by (cases q)
  let ?u = "record_all qs (new_ledger b n)" and ?r = "usage_record_of b source endpoint calls codes latency now"
  have b: "ul_budget ?u = b" using snoc by blast
  have s: "same_counts (add_usage ?r ?u) (record_call q ?u)" using record_call_counts [of ?u] unfolding q b .
  have l: "length (records_of b qs) = length qs" by (simp add: records_of_def)
  have "deque_append n ?r (drop (length qs - n) (records_of b qs)) = drop (length (qs @ [q]) - n) (records_of b (qs @ [q]))"
    using deque_append_last [of n ?r "records_of b qs"] by (simp add: l q)
  then show ?case using snoc s
    by (simp add: same_counts_def add_usage_def Let_def distinct_update q dict_get_def day_records_def add.commute)
qed

subsection \<open>Alerts\<close>

definition alert_key :: "budget_alert \<Rightarrow> string \<times> string \<times> string \<times> string" where
  "alert_key a = (ba_day a, ba_source a, ba_metric a, ba_level a)"

definition fired_ok :: "usage_ledger \<Rightarrow> bool" where
  "fired_ok u \<longleftrightarrow> set (ul_fired u) = set (map alert_key (ul_alerts u)) \<and> distinct (map alert_key (ul_alerts u))"

lemma alert_fired_ok: "fired_ok u \<Longrightarrow> fired_ok (fst (alert_if_needed day source metric val limit u))"
  by (auto simp: fired_ok_def alert_if_needed_def alert_key_def Let_def split: option.split)

lemma alert_fired:
  "set (ul_fired (fst (alert_if_needed day source metric val limit u))) =
    set (ul_fired u) \<union> (case alert_level (ul_budget u) val limit of None \<Rightarrow> {} | Some level \<Rightarrow> {(day, source, metric, level)})"
  by (auto simp: alert_if_needed_def Let_def split: option.split)

lemma cost_fired_ok: "fired_ok u \<Longrightarrow> fired_ok (fst (check_cost day source cost u))"
  by (auto simp: check_cost_def alert_fired_ok split: option.split)

lemma cost_fired: "(d, s, ''calls'', level) \<in> set (ul_fired (fst (check_cost day source cost u))) \<longleftrightarrow> (d, s, ''calls'', level) \<in> set (ul_fired u)"
  by (auto simp: check_cost_def alert_fired split: option.splits)

lemma budget_fired_ok:
  assumes "fired_ok u"
  shows "fired_ok (fst (check_budget day source u))"
proof (cases rule: check_budget_cases [of day source u])
  case no_limit
  show ?thesis unfolding no_limit(1) by (rule cost_fired_ok [OF assms])
next
  case (limit l v r)
  have "fired_ok v" using alert_fired_ok [OF assms, of day source "''calls''" _ "of_int l"] limit(3) by (metis fst_conv)
  note v = this cost_fired_ok [OF this]
  from limit(4) show ?thesis
  proof
    assume "fst (check_budget day source u) = v"
    with v(1) show ?thesis by simp
  next
    assume e: "check_budget day source u = check_cost day source (dict_get (ul_cost u) (day, source) 0) v"
    from v(2) show ?thesis unfolding e .
  qed
qed

lemma budget_fired:
  "(d, s, ''calls'', level) \<in> set (ul_fired (fst (check_budget day source u))) \<longleftrightarrow>
    (d, s, ''calls'', level) \<in> set (ul_fired u) \<or> d = day \<and> s = source \<and>
      (\<exists>limit. map_of (bc_calls_per_day (ul_budget u)) source = Some limit \<and> limit \<noteq> 0
        \<and> alert_level (ul_budget u) (of_int (dict_get (ul_calls u) (day, source) 0)) (of_int limit) = Some level)"
proof (cases rule: check_budget_cases [of day source u])
  case no_limit
  then show ?thesis by (auto simp: cost_fired)
next
  case (limit l v r)
  have "set (ul_fired v) = set (ul_fired u) \<union>
      (case alert_level (ul_budget u) (of_int (dict_get (ul_calls u) (day, source) 0)) (of_int l) of None \<Rightarrow> {} | Some level \<Rightarrow> {(day, source, ''calls'', level)})"
    using alert_fired [of day source "''calls''" _ "of_int l" u] limit(3) by (metis fst_conv)
  moreover have "(d, s, ''calls'', level) \<in> set (ul_fired (fst (check_budget day source u))) \<longleftrightarrow> (d, s, ''calls'', level) \<in> set (ul_fired v)"
    using limit(4)
  proof
    assume "fst (check_budget day source u) = v"
    then show ?thesis by simp
  next
    assume e: "check_budget day source u = check_cost day source (dict_get (ul_cost u) (day, source) 0) v"
    show ?thesis unfolding e cost_fired ..
  qed
  ultimately show ?thesis using limit(1,2) by (auto split: option.splits)
qed

lemma record_all_fired_ok: "fired_ok (record_all qs (new_ledger b n))"
proof (induction qs rule: rev_induct)
  case Nil
  show ?case by (simp add: fired_ok_def new_ledger_def)
next
  case (snoc q qs)
  obtain source endpoint calls codes latency now where q: "q = (source, endpoint, calls, codes, latency, now)" by (cases q)
  from snoc have "fired_ok (add_usage r (record_all qs (new_ledger b n)))" for r by (simp add: fired_ok_def add_usage_def Let_def)
  then show ?case by (simp add: q record_call_fst budget_fired_ok)
qed

abbreviation calls_on :: "budget_config \<Rightarrow> string \<Rightarrow> string \<Rightarrow> usage_call list \<Rightarrow> int" where
  "calls_on b day source qs \<equiv> sum_list (map ur_calls (day_records day source (records_of b qs)))"

lemma calls_get: "dict_get (ul_calls (record_all qs (new_ledger b n))) (day, source) 0 = calls_on b day source qs"
  using record_all_counts [of qs b n] by (simp add: dict_get_def day_records_def)

lemma calls_mono: "0 \<le> calls \<Longrightarrow> calls_on b day source qs \<le> calls_on b day source (qs @ [(s, e, calls, codes, latency, now)])"
  by (simp add: day_records_def usage_record_of_def)

lemma record_all_exceeded:
  assumes "map_of (bc_calls_per_day b) source = Some limit" and "0 < limit" and "\<forall>(s, e, calls, codes, latency, now) \<in> set qs. 0 \<le> calls"
  shows "(day, source, ''calls'', ''exceeded'') \<in> set (ul_fired (record_all qs (new_ledger b n))) \<longleftrightarrow> limit \<le> calls_on b day source qs"
  using assms(3)
proof (induction qs rule: rev_induct)
  case Nil
  from assms(2) show ?case by (simp add: new_ledger_def day_records_def)
next
  case (snoc q qs)
  obtain s e calls codes latency now where q: "q = (s, e, calls, codes, latency, now)" by (cases q)
  let ?u = "record_all qs (new_ledger b n)" and ?r = "usage_record_of b s e calls codes latency now"
  have b: "ul_budget ?u = b" using record_all_counts by blast
  have IH: "(day, source, ''calls'', ''exceeded'') \<in> set (ul_fired ?u) \<longleftrightarrow> limit \<le> calls_on b day source qs"
    using snoc by simp
  let ?a = "add_usage ?r ?u"
  have a: "ul_fired ?a = ul_fired ?u" "ul_budget ?a = b" by (simp_all add: add_usage_def Let_def b)
  have rec: "record_all (qs @ [q]) (new_ledger b n) = fst (check_budget (usage_day now) s ?a)"
    using record_call_fst [of s e calls codes latency now ?u] by (simp add: q b)
  then have "same_counts ?a (record_all (qs @ [q]) (new_ledger b n))" using check_counts by simp
  then have get: "dict_get (ul_calls ?a) (usage_day now, s) 0 = calls_on b (usage_day now) s (qs @ [q])"
    using calls_get [of "qs @ [q]" b n "usage_day now" s] by (simp add: same_counts_def)
  have level: "alert_level b (of_int x) (of_int y) = Some ''exceeded'' \<longleftrightarrow> y \<le> x" for x y
    by (simp add: alert_level_def)
  have fired: "(day, source, ''calls'', ''exceeded'') \<in> set (ul_fired (record_all (qs @ [q]) (new_ledger b n))) \<longleftrightarrow>
      limit \<le> calls_on b day source qs \<or> day = usage_day now \<and> source = s \<and> limit \<le> calls_on b day source (qs @ [q])"
    unfolding rec budget_fired a get level IH using assms(1,2) by auto
  have "0 \<le> calls" using snoc.prems by (simp add: q)
  then have "calls_on b day source qs \<le> calls_on b day source (qs @ [q])" unfolding q by (rule calls_mono)
  moreover have "\<not> (day = usage_day now \<and> source = s) \<Longrightarrow> calls_on b day source (qs @ [q]) = calls_on b day source qs"
    by (auto simp: q day_records_def usage_record_of_def)
  ultimately show ?case unfolding fired
    by (cases "day = usage_day now \<and> source = s") (simp_all only: simp_thms, linarith, blast)
qed

subsection \<open>The summary's table\<close>

lemma sum_calls_lookup:
  "distinct (dict_keys d) \<Longrightarrow> map_of (sum_calls day d acc) source =
    (case map_of d (day, source) of None \<Rightarrow> map_of acc source | Some c \<Rightarrow> Some (c, snd (dict_get acc source (0, 0))))"
  by (induction day d acc rule: sum_calls.induct)
    (auto simp: dict_get_def image_iff split: option.split dest!: map_of_SomeD)

lemma sum_cost_lookup:
  "distinct (dict_keys d) \<Longrightarrow> map_of (sum_cost day d acc) source =
    (case map_of d (day, source) of None \<Rightarrow> map_of acc source | Some c \<Rightarrow> Some (fst (dict_get acc source (0, 0)), round6 c))"
  by (induction day d acc rule: sum_cost.induct)
    (auto simp: dict_get_def image_iff split: option.split dest!: map_of_SomeD)

end
