(* ===== verification/Hub_Cache.thy ===== *)
theory Hub_Cache
  imports Cache_Backend Hub_Usage
begin

text \<open>
  The hub's in-process cache (\<open>fin_data_hub/cache.py\<close>): TTL, LRU order, a byte budget over the sizes a
  size function estimates, and one flight per missing key.  The clock counts ticks.  The operations come
  first, then the flights of concurrent callers as a step relation.
\<close>

subsection \<open>State\<close>

record 'v hub_cache_config =
  hx_max_bytes :: int
  hx_max_entries :: int
  hx_max_entry_bytes :: int
  hx_ttl :: "int option"
  hx_safety :: rat
  hx_size_fn :: "'v \<Rightarrow> int result"

record ('k, 'v) hub_cache =
  hc_config :: "'v hub_cache_config"
  hc_entries :: "('k, 'v \<times> int option) dict"
  hc_sizes :: "('k, int) dict"
  hc_bytes :: int
  hc_hits :: int
  hc_misses :: int
  hc_evictions :: int
  hc_stores :: int

definition new_hub_cache :: "'v hub_cache_config \<Rightarrow> ('k, 'v) hub_cache result" where
  "new_hub_cache x =
     (if hx_max_bytes x \<le> 0 \<or> hx_max_entries x \<le> 0 \<or> hx_max_entry_bytes x \<le> 0 then Inl ValueError
      else if hx_safety x < 1 then Inl ValueError
      else Inr \<lparr>hc_config = x, hc_entries = [], hc_sizes = [], hc_bytes = 0, hc_hits = 0, hc_misses = 0,
                hc_evictions = 0, hc_stores = 0\<rparr>)"

definition SWEEP_EVERY :: int where "SWEEP_EVERY = 128"

subsection \<open>Operations\<close>

definition hub_remove :: "'k \<Rightarrow> ('k, 'v) hub_cache \<Rightarrow> ('k, 'v) hub_cache" where
  "hub_remove key c =
     (case map_of (hc_entries c) key of
        None \<Rightarrow> c
      | Some _ \<Rightarrow> c\<lparr>hc_entries := AList.delete key (hc_entries c), hc_sizes := AList.delete key (hc_sizes c),
                    hc_bytes := hc_bytes c - dict_get (hc_sizes c) key 0\<rparr>)"

definition hub_get :: "'k \<Rightarrow> int \<Rightarrow> ('k, 'v) hub_cache \<Rightarrow> ('k, 'v) hub_cache \<times> 'v option" where
  "hub_get key now c =
     (case map_of (hc_entries c) key of
        None \<Rightarrow> (c\<lparr>hc_misses := hc_misses c + 1\<rparr>, None)
      | Some (v, expires_at) \<Rightarrow>
          if expired expires_at now
          then (let c' = hub_remove key c in (c'\<lparr>hc_misses := hc_misses c' + 1\<rparr>, None))
          else (c\<lparr>hc_entries := put_last key (v, expires_at) (hc_entries c), hc_hits := hc_hits c + 1\<rparr>, Some v))"

definition hub_contains :: "'k \<Rightarrow> int \<Rightarrow> ('k, 'v) hub_cache \<Rightarrow> ('k, 'v) hub_cache \<times> bool" where
  "hub_contains key now c =
     (case map_of (hc_entries c) key of
        None \<Rightarrow> (c, False)
      | Some (_, expires_at) \<Rightarrow> if expired expires_at now then (hub_remove key c, False) else (c, True))"

fun hub_evict_from ::
  "int \<Rightarrow> int \<Rightarrow> ('k, 'v \<times> int option) dict \<Rightarrow> ('k, int) dict \<Rightarrow> int \<Rightarrow> int
    \<Rightarrow> ('k, 'v \<times> int option) dict \<times> ('k, int) dict \<times> int \<times> int" where
  "hub_evict_from max_entries max_bytes [] sizes bytes evictions = ([], sizes, bytes, evictions)"
| "hub_evict_from max_entries max_bytes ((k, e) # rest) sizes bytes evictions =
     (if max_bytes < bytes \<or> max_entries < int (length ((k, e) # rest))
      then hub_evict_from max_entries max_bytes rest (AList.delete k sizes) (bytes - dict_get sizes k 0) (evictions + 1)
      else ((k, e) # rest, sizes, bytes, evictions))"

definition hub_evict :: "('k, 'v) hub_cache \<Rightarrow> ('k, 'v) hub_cache" where
  "hub_evict c =
     (case hub_evict_from (hx_max_entries (hc_config c)) (hx_max_bytes (hc_config c)) (hc_entries c) (hc_sizes c) (hc_bytes c) (hc_evictions c) of
        (entries, sizes, bytes, evictions) \<Rightarrow>
          c\<lparr>hc_entries := entries, hc_sizes := sizes, hc_bytes := bytes, hc_evictions := evictions\<rparr>)"

definition hub_sweep :: "int \<Rightarrow> ('k, 'v) hub_cache \<Rightarrow> ('k, 'v) hub_cache" where
  "hub_sweep now c = foldl (\<lambda>c key. hub_remove key c) c (map fst (filter (\<lambda>(key, v, e). expired e now) (hc_entries c)))"

text \<open>\<open>int(size * factor)\<close> cuts the fraction off.\<close>

definition entry_size :: "'v hub_cache_config \<Rightarrow> 'v \<Rightarrow> int result" where
  "entry_size x v = map_sum id (\<lambda>n. let y = of_int n * hx_safety x in if 0 \<le> y then \<lfloor>y\<rfloor> else \<lceil>y\<rceil>) (hx_size_fn x v)"

definition hub_put :: "'k \<Rightarrow> 'v \<Rightarrow> int option \<Rightarrow> int \<Rightarrow> ('k, 'v) hub_cache \<Rightarrow> ('k, 'v) hub_cache \<times> bool result" where
  "hub_put key v ttl now c =
     (let effective = (case ttl of None \<Rightarrow> hx_ttl (hc_config c) | Some t \<Rightarrow> Some t)
      in case entry_size (hc_config c) v of
           Inl e \<Rightarrow> (c, Inl e)
         | Inr n \<Rightarrow>
             if hx_max_entry_bytes (hc_config c) < n then (c, Inr False)
             else let c1 = hub_remove key c;
                      c2 = c1\<lparr>hc_entries := put_last key (v, map_option (\<lambda>t. now + t) effective) (hc_entries c1),
                              hc_sizes := AList.update key n (hc_sizes c1), hc_bytes := hc_bytes c1 + n\<rparr>;
                      c3 = hub_evict c2;
                      c4 = c3\<lparr>hc_stores := hc_stores c3 + 1\<rparr>
                  in (if hc_stores c4 mod SWEEP_EVERY = 0 then hub_sweep now c4 else c4, Inr True))"

definition hub_clear :: "('k, 'v) hub_cache \<Rightarrow> ('k, 'v) hub_cache" where
  "hub_clear c = c\<lparr>hc_entries := [], hc_sizes := [], hc_bytes := 0\<rparr>"

definition hub_stats :: "('k, 'v) hub_cache \<Rightarrow> int \<times> int \<times> int \<times> int \<times> int" where
  "hub_stats c = (int (length (hc_entries c)), hc_bytes c, hc_hits c, hc_misses c, hc_evictions c)"

text \<open>
  \<open>get_or_load\<close> of a caller that runs alone: it joins no flight of others, so it is the leader of its
  own.  The loader acts on a state of its own; the answer says whether it ran.
\<close>

definition hub_get_or_load ::
  "'k \<Rightarrow> ('s \<Rightarrow> 's \<times> 'v result) \<Rightarrow> bool \<Rightarrow> int option \<Rightarrow> int \<Rightarrow> int \<Rightarrow> ('k, 'v) hub_cache \<Rightarrow> 's
    \<Rightarrow> ('k, 'v) hub_cache \<times> 's \<times> bool \<times> 'v result" where
  "hub_get_or_load key loader force ttl now later c s =
     (let load = (\<lambda>c. case loader s of
            (s', Inl e) \<Rightarrow> (c, s', True, Inl e)
          | (s', Inr v) \<Rightarrow> (case hub_put key v ttl later c of
               (c', Inl e) \<Rightarrow> (c', s', True, Inl e)
             | (c', Inr _) \<Rightarrow> (c', s', True, Inr v)))
      in if force then load c
         else case hub_get key now c of
                (c1, Some v) \<Rightarrow> (c1, s, False, Inr v)
              | (c1, None) \<Rightarrow> (case hub_get key now c1 of
                   (c2, Some v) \<Rightarrow> (c2, s, False, Inr v)
                 | (c2, None) \<Rightarrow> load c2))"

subsection \<open>Sequences of calls\<close>

datatype ('k, 'v) hub_call =
    HubGet 'k int
  | HubContains 'k int
  | HubPut 'k 'v "int option" int
  | HubInvalidate 'k
  | HubClear

fun hub_exec :: "('k, 'v) hub_call \<Rightarrow> ('k, 'v) hub_cache \<Rightarrow> ('k, 'v) hub_cache" where
  "hub_exec (HubGet key now) c = fst (hub_get key now c)"
| "hub_exec (HubContains key now) c = fst (hub_contains key now c)"
| "hub_exec (HubPut key v ttl now) c = fst (hub_put key v ttl now c)"
| "hub_exec (HubInvalidate key) c = hub_remove key c"
| "hub_exec HubClear c = hub_clear c"

definition hub_run :: "('k, 'v) hub_call list \<Rightarrow> ('k, 'v) hub_cache \<Rightarrow> ('k, 'v) hub_cache" where
  "hub_run calls c = foldl (\<lambda>c call. hub_exec call c) c calls"

text \<open>The reference: a map that keeps every value whose size is accepted.\<close>

fun hub_ref :: "'v hub_cache_config \<Rightarrow> ('k, 'v) hub_call \<Rightarrow> ('k \<rightharpoonup> 'v \<times> int option) \<Rightarrow> ('k \<rightharpoonup> 'v \<times> int option)" where
  "hub_ref x (HubPut key v ttl now) m =
     (case entry_size x v of
        Inl e \<Rightarrow> m
      | Inr n \<Rightarrow> if hx_max_entry_bytes x < n then m
          else m(key \<mapsto> (v, map_option (\<lambda>t. now + t) (case ttl of None \<Rightarrow> hx_ttl x | Some t \<Rightarrow> Some t))))"
| "hub_ref x (HubInvalidate key) m = m(key := None)"
| "hub_ref x HubClear m = Map.empty"
| "hub_ref x _ m = m"

definition hub_ref_run :: "'v hub_cache_config \<Rightarrow> ('k, 'v) hub_call list \<Rightarrow> ('k \<rightharpoonup> 'v \<times> int option)" where
  "hub_ref_run x calls = foldl (\<lambda>m call. hub_ref x call m) Map.empty calls"

subsection \<open>Invariant\<close>

definition size_sum :: "('k, int) dict \<Rightarrow> int" where
  "size_sum d = sum_list (map snd d)"

definition hub_inv :: "('k, 'v) hub_cache \<Rightarrow> ('k \<rightharpoonup> 'v \<times> int option) \<Rightarrow> bool" where
  "hub_inv c m \<longleftrightarrow> distinct (dict_keys (hc_entries c)) \<and> distinct (dict_keys (hc_sizes c))
     \<and> set (dict_keys (hc_sizes c)) = set (dict_keys (hc_entries c)) \<and> hc_bytes c = size_sum (hc_sizes c)
     \<and> (\<forall>n \<in> set (dict_values (hc_sizes c)). 0 \<le> n) \<and> map_of (hc_entries c) \<subseteq>\<^sub>m m"

definition hub_limits :: "('k, 'v) hub_cache \<Rightarrow> bool" where
  "hub_limits c \<longleftrightarrow> int (length (hc_entries c)) \<le> hx_max_entries (hc_config c) \<and> hc_bytes c \<le> hx_max_bytes (hc_config c)"

lemma size_sum_simps [simp]: "size_sum [] = 0" "size_sum ((k, n) # d) = n + size_sum d" "size_sum (d @ d') = size_sum d + size_sum d'"
  by (simp_all add: size_sum_def)

lemma size_sum_delete: "distinct (dict_keys d) \<Longrightarrow> size_sum (AList.delete k d) = size_sum d - dict_get d k 0"
proof (induction d)
  case (Cons p d)
  obtain k' n where p: "p = (k', n)" by (cases p)
  have "k' \<notin> set (dict_keys d) \<Longrightarrow> AList.delete k' d = d" by (simp add: delete_id)
  with Cons p show ?case by (auto simp: dict_get_def)
qed (simp add: dict_get_def)

lemma keys_delete [simp]: "set (dict_keys (AList.delete k d)) = set (dict_keys d) - {k}"
  by (simp add: delete_keys)

lemma delete_subset: "set (AList.delete k d) \<subseteq> set d"
  by (auto simp: AList.delete_eq)

lemma dict_get_nonneg: "(\<And>n. n \<in> set (dict_values d) \<Longrightarrow> 0 \<le> n) \<Longrightarrow> (0::int) \<le> dict_get d k 0"
  by (force simp: dict_get_def split: option.split dest: map_of_SomeD)

lemma delete_values: "\<forall>n \<in> set (dict_values d). P n \<Longrightarrow> \<forall>n \<in> set (dict_values (AList.delete k d)). P n"
  using delete_subset [of k d] by auto

lemma hub_remove_config [simp]: "hc_config (hub_remove key c) = hc_config c"
  by (simp add: hub_remove_def split: option.split)

lemma hub_remove_entries: "hc_entries (hub_remove key c) = AList.delete key (hc_entries c)"
  by (auto simp: hub_remove_def map_of_eq_None_iff delete_id split: option.split)

lemma hub_remove_inv:
  assumes "hub_inv c m"
  shows "hub_inv (hub_remove key c) (m(key := None))" and "hub_inv (hub_remove key c) m"
    and "hc_bytes (hub_remove key c) \<le> hc_bytes c" and "length (hc_entries (hub_remove key c)) \<le> length (hc_entries c)"
proof -
  have mm: "map_of (AList.delete key (hc_entries c)) \<subseteq>\<^sub>m m(key := None)" "map_of (AList.delete key (hc_entries c)) \<subseteq>\<^sub>m m"
    using assms by (auto simp: hub_inv_def map_le_def)
  have nn: "0 \<le> dict_get (hc_sizes c) key 0" using assms by (intro dict_get_nonneg) (auto simp: hub_inv_def)
  have "hub_inv (hub_remove key c) m' \<longleftrightarrow> map_of (AList.delete key (hc_entries c)) \<subseteq>\<^sub>m m'" for m'
  proof (cases "map_of (hc_entries c) key")
    case None
    then have "AList.delete key (hc_entries c) = hc_entries c" by (simp add: map_of_eq_None_iff delete_id)
    with None assms show ?thesis by (simp add: hub_remove_def hub_inv_def)
  next
    case (Some p)
    have "distinct (dict_keys (AList.delete key (hc_entries c)))" "distinct (dict_keys (AList.delete key (hc_sizes c)))"
      "set (dict_keys (AList.delete key (hc_sizes c))) = set (dict_keys (AList.delete key (hc_entries c)))"
      "hc_bytes c - dict_get (hc_sizes c) key 0 = size_sum (AList.delete key (hc_sizes c))"
      "\<forall>n \<in> set (dict_values (AList.delete key (hc_sizes c))). 0 \<le> n"
      using assms delete_values [of "hc_sizes c" "\<lambda>n. 0 \<le> n" key] unfolding hub_inv_def keys_delete
      by (blast intro: distinct_delete size_sum_delete [symmetric] | simp only: size_sum_delete)+
    moreover have "hub_remove key c = c\<lparr>hc_entries := AList.delete key (hc_entries c), hc_sizes := AList.delete key (hc_sizes c),
        hc_bytes := hc_bytes c - dict_get (hc_sizes c) key 0\<rparr>" by (simp add: hub_remove_def Some)
    ultimately show ?thesis unfolding hub_inv_def by simp
  qed
  with mm show "hub_inv (hub_remove key c) (m(key := None))" and "hub_inv (hub_remove key c) m" by blast+
  show "hc_bytes (hub_remove key c) \<le> hc_bytes c" using nn by (simp add: hub_remove_def split: option.split)
  show "length (hc_entries (hub_remove key c)) \<le> length (hc_entries c)"
    by (simp add: hub_remove_entries AList.delete_eq length_filter_le)
qed

lemma hub_remove_limits: "hub_inv c m \<Longrightarrow> hub_limits c \<Longrightarrow> hub_limits (hub_remove key c)"
  using hub_remove_inv(3,4) [of c m key] by (simp add: hub_limits_def)

lemma hub_evict_from_inv:
  "hub_evict_from me mb d sizes bytes n = (d', sizes', bytes', n') \<Longrightarrow> distinct (dict_keys d) \<Longrightarrow> distinct (dict_keys sizes) \<Longrightarrow>
    set (dict_keys sizes) = set (dict_keys d) \<Longrightarrow> bytes = size_sum sizes \<Longrightarrow> \<forall>x \<in> set (dict_values sizes). 0 \<le> x \<Longrightarrow> 0 \<le> me \<Longrightarrow> 0 \<le> mb \<Longrightarrow>
    distinct (dict_keys d') \<and> distinct (dict_keys sizes') \<and> set (dict_keys sizes') = set (dict_keys d') \<and> bytes' = size_sum sizes'
    \<and> (\<forall>x \<in> set (dict_values sizes'). 0 \<le> x) \<and> int (length d') \<le> me \<and> bytes' \<le> mb \<and> map_of d' \<subseteq>\<^sub>m map_of d"
proof (induction d arbitrary: sizes bytes n)
  case Nil
  then show ?case by auto
next
  case (Cons p d)
  obtain k e where p: "p = (k, e)" by (cases p)
  show ?case
  proof (cases "mb < bytes \<or> me < int (length (p # d))")
    case True
    let ?s = "AList.delete k sizes"
    have e: "hub_evict_from me mb d ?s (bytes - dict_get sizes k 0) (n + 1) = (d', sizes', bytes', n')"
      using Cons.prems(1) True p by simp
    have k: "k \<notin> set (dict_keys d)" using Cons.prems(2) p by simp
    have s: "distinct (dict_keys ?s)" "set (dict_keys ?s) = set (dict_keys d)" "bytes - dict_get sizes k 0 = size_sum ?s"
      "\<forall>x \<in> set (dict_values ?s). 0 \<le> x"
      using Cons.prems(3-6) p k delete_values [OF Cons.prems(6), of k] distinct_delete [OF Cons.prems(3), of k]
      unfolding keys_delete by (auto simp: size_sum_delete)
    have m: "map_of d \<subseteq>\<^sub>m map_of (p # d)" using k p by (auto simp: map_le_def map_of_eq_None_iff [symmetric])
    have "distinct (dict_keys d)" using Cons.prems(2) by simp
    from Cons.IH [OF e this s Cons.prems(7,8)] map_le_trans [OF _ m, of "map_of d'"] show ?thesis by blast
  next
    case False
    with Cons.prems p show ?thesis by auto
  qed
qed

lemma hub_evict_config [simp]: "hc_config (hub_evict c) = hc_config c"
  by (simp add: hub_evict_def split: prod.split)

lemma hub_evict_inv:
  assumes "hub_inv c m" and "0 \<le> hx_max_entries (hc_config c)" and "0 \<le> hx_max_bytes (hc_config c)"
  shows "hub_inv (hub_evict c) m" and "hub_limits (hub_evict c)"
proof -
  obtain d s b n where e: "hub_evict_from (hx_max_entries (hc_config c)) (hx_max_bytes (hc_config c)) (hc_entries c) (hc_sizes c) (hc_bytes c) (hc_evictions c) = (d, s, b, n)"
    by (metis prod.exhaust)
  note i = hub_evict_from_inv [OF e, of] 
  have "distinct (dict_keys d) \<and> distinct (dict_keys s) \<and> set (dict_keys s) = set (dict_keys d) \<and> b = size_sum s
    \<and> (\<forall>x \<in> set (dict_values s). 0 \<le> x) \<and> int (length d) \<le> hx_max_entries (hc_config c) \<and> b \<le> hx_max_bytes (hc_config c) \<and> map_of d \<subseteq>\<^sub>m map_of (hc_entries c)"
    using assms by (intro i) (auto simp: hub_inv_def)
  moreover have "hub_evict c = c\<lparr>hc_entries := d, hc_sizes := s, hc_bytes := b, hc_evictions := n\<rparr>" by (simp add: hub_evict_def e)
  ultimately show "hub_inv (hub_evict c) m" and "hub_limits (hub_evict c)"
    using assms(1) map_le_trans [of "map_of d" "map_of (hc_entries c)" m] unfolding hub_inv_def hub_limits_def by simp_all
qed

lemma hub_sweep_inv:
  assumes "hub_inv c m" and "hub_limits c"
  shows "hub_inv (hub_sweep now c) m \<and> hub_limits (hub_sweep now c) \<and> hc_config (hub_sweep now c) = hc_config c"
proof -
  have "hub_inv c m \<Longrightarrow> hub_limits c \<Longrightarrow> hub_inv (foldl (\<lambda>c key. hub_remove key c) c ks) m \<and> hub_limits (foldl (\<lambda>c key. hub_remove key c) c ks)
      \<and> hc_config (foldl (\<lambda>c key. hub_remove key c) c ks) = hc_config c" for ks
    by (induction ks arbitrary: c) (simp_all add: hub_remove_inv hub_remove_limits)
  with assms show ?thesis by (simp add: hub_sweep_def)
qed

definition sizes_ok :: "'v hub_cache_config \<Rightarrow> bool" where
  "sizes_ok x \<longleftrightarrow> 0 < hx_max_entries x \<and> 0 < hx_max_bytes x \<and> 0 \<le> hx_safety x \<and> (\<forall>v n. hx_size_fn x v = Inr n \<longrightarrow> 0 \<le> n)"

lemma entry_size_nonneg: "sizes_ok x \<Longrightarrow> entry_size x v = Inr n \<Longrightarrow> 0 \<le> n"
  by (cases "hx_size_fn x v") (auto simp: entry_size_def sizes_ok_def Let_def split: if_splits)

lemma hub_put_inv:
  assumes "hub_inv c m" and "hub_limits c" and "sizes_ok (hc_config c)"
  shows "hub_inv (fst (hub_put key v ttl now c)) (hub_ref (hc_config c) (HubPut key v ttl now) m) \<and> hub_limits (fst (hub_put key v ttl now c))
    \<and> hc_config (fst (hub_put key v ttl now c)) = hc_config c"
proof (cases "entry_size (hc_config c) v")
  case (Inl e)
  with assms show ?thesis by (simp add: hub_put_def)
next
  case (Inr n)
  show ?thesis
  proof (cases "hx_max_entry_bytes (hc_config c) < n")
    case True
    with Inr assms show ?thesis by (simp add: hub_put_def)
  next
    case False
    let ?eff = "(case ttl of None \<Rightarrow> hx_ttl (hc_config c) | Some t \<Rightarrow> Some t)"
    let ?e = "map_option (\<lambda>t. now + t) ?eff" and ?c1 = "hub_remove key c"
    let ?c2 = "?c1\<lparr>hc_entries := put_last key (v, ?e) (hc_entries ?c1), hc_sizes := AList.update key n (hc_sizes ?c1), hc_bytes := hc_bytes ?c1 + n\<rparr>"
    let ?m = "m(key \<mapsto> (v, ?e))"
    have 1: "hub_inv ?c1 (m(key := None))" using hub_remove_inv(1) [OF assms(1)] .
    have k: "key \<notin> set (dict_keys (hc_entries ?c1))" by (simp add: hub_remove_entries delete_keys del: set_map)
    have "key \<notin> set (dict_keys (hc_sizes ?c1))" using 1 k by (simp add: hub_inv_def)
    then have u: "AList.update key n (hc_sizes ?c1) = hc_sizes ?c1 @ [(key, n)]" by (rule update_new)
    have "0 \<le> n" using entry_size_nonneg [OF assms(3) Inr] .
    moreover have "map_of (put_last key (v, ?e) (hc_entries ?c1)) \<subseteq>\<^sub>m ?m"
    proof -
      have "map_of (hc_entries ?c1) \<subseteq>\<^sub>m m(key := None)" using 1 by (simp add: hub_inv_def)
      from map_le_upd [OF this, of key "Some (v, ?e)"]
      have "(map_of (hc_entries ?c1))(key \<mapsto> (v, ?e)) \<subseteq>\<^sub>m ?m" by simp
      moreover have "map_of (put_last key (v, ?e) (hc_entries ?c1)) = (map_of (hc_entries ?c1))(key \<mapsto> (v, ?e))" by auto
      ultimately show ?thesis by simp
    qed
    moreover have pl: "put_last key (v, ?e) (hc_entries ?c1) = hc_entries ?c1 @ [(key, v, ?e)]"
      using k by (simp add: put_last_def delete_id)
    ultimately have "hub_inv ?c2 ?m" using 1 k unfolding pl hub_inv_def u by auto
    moreover have cf: "hc_config ?c2 = hc_config c" by simp
    ultimately have 3: "hub_inv (hub_evict ?c2) ?m" "hub_limits (hub_evict ?c2)"
      using hub_evict_inv [of ?c2 ?m] assms(3) by (simp_all add: sizes_ok_def)
    let ?c4 = "(hub_evict ?c2)\<lparr>hc_stores := hc_stores (hub_evict ?c2) + 1\<rparr>"
    have 4: "hub_inv ?c4 ?m" "hub_limits ?c4" "hc_config ?c4 = hc_config c" using 3 by (simp_all add: hub_inv_def hub_limits_def)
    have p: "fst (hub_put key v ttl now c) = (if hc_stores ?c4 mod SWEEP_EVERY = 0 then hub_sweep now ?c4 else ?c4)"
      using Inr False by (simp add: hub_put_def Let_def)
    have r: "hub_ref (hc_config c) (HubPut key v ttl now) m = ?m" using Inr False by simp
    show ?thesis unfolding p r using hub_sweep_inv [OF 4(1,2), of now] 4 by (cases "hc_stores ?c4 mod SWEEP_EVERY = 0") simp_all
  qed
qed

lemma hub_exec_inv:
  assumes "hub_inv c m" and "hub_limits c" and "sizes_ok (hc_config c)"
  shows "hub_inv (hub_exec call c) (hub_ref (hc_config c) call m) \<and> hub_limits (hub_exec call c) \<and> hc_config (hub_exec call c) = hc_config c"
proof (cases call)
  case (HubGet key now)
  show ?thesis
  proof (cases "map_of (hc_entries c) key")
    case None
    with HubGet assms show ?thesis by (simp add: hub_get_def hub_inv_def hub_limits_def)
  next
    case (Some p)
    obtain v e where p: "p = (v, e)" by (cases p)
    show ?thesis
    proof (cases "expired e now")
      case True
      with HubGet Some p assms hub_remove_inv(2) [OF assms(1), of key] hub_remove_limits [OF assms(1,2), of key] show ?thesis
        by (simp add: hub_get_def Let_def hub_inv_def hub_limits_def)
    next
      case False
      have k: "key \<in> set (dict_keys (hc_entries c))" using Some by (rule map_of_key_in)
      have "set (dict_keys (put_last key (v, e) (hc_entries c))) = set (dict_keys (hc_entries c))"
        using k by (auto simp: put_last_def simp del: set_map)
      moreover have "map_of (put_last key (v, e) (hc_entries c)) = map_of (hc_entries c)" using Some p by auto
      moreover have "length (put_last key (v, e) (hc_entries c)) = length (hc_entries c)"
        using assms(1) k by (intro put_last_length) (simp_all add: hub_inv_def)
      ultimately show ?thesis using HubGet Some p False assms
        by (simp add: hub_get_def hub_inv_def hub_limits_def put_last_distinct del: set_map)
    qed
  qed
next
  case (HubContains key now)
  with assms hub_remove_inv(2) [OF assms(1), of key] hub_remove_limits [OF assms(1,2), of key] show ?thesis
    by (auto simp: hub_contains_def split: option.split)
next
  case (HubPut key v ttl now)
  with hub_put_inv [OF assms] show ?thesis by simp
next
  case (HubInvalidate key)
  with hub_remove_inv(1) [OF assms(1), of key] hub_remove_limits [OF assms(1,2), of key] show ?thesis by simp
next
  case HubClear
  with assms(3) show ?thesis by (simp add: hub_clear_def hub_inv_def hub_limits_def sizes_ok_def)
qed

lemma hub_run_inv:
  assumes "new_hub_cache x = Inr c0" and "\<forall>v n. hx_size_fn x v = Inr n \<longrightarrow> 0 \<le> n"
  shows "hub_inv (hub_run calls c0) (hub_ref_run x calls) \<and> hub_limits (hub_run calls c0) \<and> hc_config (hub_run calls c0) = x"
proof (induction calls rule: rev_induct)
  case Nil
  from assms(1) show ?case by (auto simp: new_hub_cache_def hub_run_def hub_ref_run_def hub_inv_def hub_limits_def split: if_splits)
next
  case (snoc call calls)
  have "sizes_ok x" using assms by (auto simp: new_hub_cache_def sizes_ok_def split: if_splits)
  with hub_exec_inv [of "hub_run calls c0" "hub_ref_run x calls" call] snoc show ?case by (simp add: hub_run_def hub_ref_run_def)
qed

end
