(* ===== verification/Hub_Flights.thy ===== *)
theory Hub_Flights
  imports Hub_Cache
begin

text \<open>
  Concurrent callers of the hub cache's \<open>get_or_load\<close>: every operation under the cache's lock is one
  step of a thread, and so is the loader.  A flight is a number; its outcome is set when it is finished.
\<close>

datatype ('k, 'v) phase =
    Idle
  | Reading 'k bool
  | Joining 'k
  | Waiting 'k nat
  | Rechecking 'k
  | Loading 'k
  | Storing 'k 'v
  | Finishing 'k "'v result"
  | Returned "'v result"

record ('k, 'v) hub_world =
  hw_cache :: "('k, 'v) hub_cache"
  hw_flights :: "'k \<rightharpoonup> nat"
  hw_outcome :: "nat \<rightharpoonup> 'v result"
  hw_next :: nat
  hw_threads :: "nat \<Rightarrow> ('k, 'v) phase"

definition at_phase :: "nat \<Rightarrow> ('k, 'v) phase \<Rightarrow> ('k, 'v) hub_world \<Rightarrow> ('k, 'v) hub_world" where
  "at_phase t p w = w\<lparr>hw_threads := (hw_threads w)(t := p)\<rparr>"

definition join_flight :: "nat \<Rightarrow> 'k \<Rightarrow> ('k, 'v) hub_world \<Rightarrow> ('k, 'v) hub_world" where
  "join_flight t key w =
     (case hw_flights w key of
        Some f \<Rightarrow> at_phase t (Waiting key f) w
      | None \<Rightarrow> at_phase t (Rechecking key) (w\<lparr>hw_flights := (hw_flights w)(key \<mapsto> hw_next w), hw_next := hw_next w + 1\<rparr>))"

definition finish_flight :: "nat \<Rightarrow> 'k \<Rightarrow> 'v result \<Rightarrow> ('k, 'v) hub_world \<Rightarrow> ('k, 'v) hub_world" where
  "finish_flight t key r w =
     (case hw_flights w key of
        None \<Rightarrow> at_phase t (Returned r) w
      | Some f \<Rightarrow> at_phase t (Returned r) (w\<lparr>hw_flights := (hw_flights w)(key := None), hw_outcome := (hw_outcome w)(f \<mapsto> r)\<rparr>))"

text \<open>The steps; \<open>forcing\<close> says whether callers may pass \<open>force=True\<close>.\<close>

inductive flight_step :: "bool \<Rightarrow> ('k, 'v) hub_world \<Rightarrow> ('k, 'v) hub_world \<Rightarrow> bool" for forcing where
  enter: "hw_threads w t = Idle \<Longrightarrow> force \<longrightarrow> forcing \<Longrightarrow> flight_step forcing w (at_phase t (Reading key force) w)"
| skip: "hw_threads w t = Reading key True \<Longrightarrow> flight_step forcing w (at_phase t (Loading key) w)"
| hit: "hw_threads w t = Reading key False \<Longrightarrow> hub_get key now (hw_cache w) = (c, Some v) \<Longrightarrow>
    flight_step forcing w (at_phase t (Returned (Inr v)) (w\<lparr>hw_cache := c\<rparr>))"
| miss: "hw_threads w t = Reading key False \<Longrightarrow> hub_get key now (hw_cache w) = (c, None) \<Longrightarrow>
    flight_step forcing w (at_phase t (Joining key) (w\<lparr>hw_cache := c\<rparr>))"
| join: "hw_threads w t = Joining key \<Longrightarrow> flight_step forcing w (join_flight t key w)"
| wake: "hw_threads w t = Waiting key f \<Longrightarrow> hw_outcome w f = Some r \<Longrightarrow> flight_step forcing w (at_phase t (Returned r) w)"
| recheck_hit: "hw_threads w t = Rechecking key \<Longrightarrow> hub_get key now (hw_cache w) = (c, Some v) \<Longrightarrow>
    flight_step forcing w (at_phase t (Finishing key (Inr v)) (w\<lparr>hw_cache := c\<rparr>))"
| recheck_miss: "hw_threads w t = Rechecking key \<Longrightarrow> hub_get key now (hw_cache w) = (c, None) \<Longrightarrow>
    flight_step forcing w (at_phase t (Loading key) (w\<lparr>hw_cache := c\<rparr>))"
| loaded: "hw_threads w t = Loading key \<Longrightarrow> flight_step forcing w (at_phase t (Storing key v) w)"
| failed: "hw_threads w t = Loading key \<Longrightarrow> flight_step forcing w (at_phase t (Finishing key (Inl e)) w)"
| stored: "hw_threads w t = Storing key v \<Longrightarrow> hub_put key v ttl now (hw_cache w) = (c, Inr ok) \<Longrightarrow>
    flight_step forcing w (at_phase t (Finishing key (Inr v)) (w\<lparr>hw_cache := c\<rparr>))"
| unsized: "hw_threads w t = Storing key v \<Longrightarrow> hub_put key v ttl now (hw_cache w) = (c, Inl e) \<Longrightarrow>
    flight_step forcing w (at_phase t (Returned (Inl e)) (w\<lparr>hw_cache := c\<rparr>))"
| finish: "hw_threads w t = Finishing key r \<Longrightarrow> flight_step forcing w (finish_flight t key r w)"
| again: "hw_threads w t = Returned r \<Longrightarrow> flight_step forcing w (at_phase t Idle w)"

definition start_world :: "('k, 'v) hub_cache \<Rightarrow> ('k, 'v) hub_world" where
  "start_world c = \<lparr>hw_cache = c, hw_flights = Map.empty, hw_outcome = Map.empty, hw_next = 0, hw_threads = (\<lambda>t. Idle)\<rparr>"

definition reachable :: "bool \<Rightarrow> ('k, 'v) hub_cache \<Rightarrow> ('k, 'v) hub_world \<Rightarrow> bool" where
  "reachable forcing c w \<longleftrightarrow> (flight_step forcing)\<^sup>*\<^sup>* (start_world c) w"

inductive_cases flight_stepE: "flight_step forcing w w'"

subsection \<open>Invariant\<close>

text \<open>The key a thread is leading for.\<close>

fun leads :: "('k, 'v) phase \<Rightarrow> 'k option" where
  "leads (Rechecking key) = Some key"
| "leads (Loading key) = Some key"
| "leads (Storing key v) = Some key"
| "leads (Finishing key r) = Some key"
| "leads _ = None"

definition flights_ok :: "('k, 'v) hub_world \<Rightarrow> bool" where
  "flights_ok w \<longleftrightarrow>
     (\<forall>t key. hw_threads w t \<noteq> Reading key True)
   \<and> (\<forall>t t' key. leads (hw_threads w t) = Some key \<longrightarrow> leads (hw_threads w t') = Some key \<longrightarrow> t = t')
   \<and> (\<forall>key. (\<exists>t. leads (hw_threads w t) = Some key) \<longrightarrow> hw_flights w key \<noteq> None)
   \<and> (\<forall>key f. hw_flights w key = Some f \<longrightarrow> f < hw_next w \<and> hw_outcome w f = None)
   \<and> (\<forall>key key' f. hw_flights w key = Some f \<longrightarrow> hw_flights w key' = Some f \<longrightarrow> key = key')
   \<and> (\<forall>f. hw_next w \<le> f \<longrightarrow> hw_outcome w f = None)"

text \<open>A flight that is on has a leader, and a thread waits for a flight that is on or over.\<close>

definition flights_led :: "('k, 'v) hub_world \<Rightarrow> bool" where
  "flights_led w \<longleftrightarrow>
     (\<forall>key f. hw_flights w key = Some f \<longrightarrow> (\<exists>t. leads (hw_threads w t) = Some key))
   \<and> (\<forall>t key f. hw_threads w t = Waiting key f \<longrightarrow> hw_flights w key = Some f \<or> hw_outcome w f \<noteq> None)"

lemma at_phase_simps [simp]:
  "hw_threads (at_phase t p w) = (hw_threads w)(t := p)" "hw_cache (at_phase t p w) = hw_cache w"
  "hw_flights (at_phase t p w) = hw_flights w" "hw_outcome (at_phase t p w) = hw_outcome w" "hw_next (at_phase t p w) = hw_next w"
  by (simp_all add: at_phase_def)

text \<open>A step that moves a thread within, or out of, or nowhere near a leader's phases keeps the invariant.\<close>

lemma flights_ok_move:
  assumes "flights_ok w" and "hw_flights w' = hw_flights w" and "hw_outcome w' = hw_outcome w" and "hw_next w' = hw_next w"
    and "hw_threads w' = (hw_threads w)(t := p)" and "\<forall>key. p \<noteq> Reading key True" and "leads p = None \<or> leads p = leads (hw_threads w t)"
  shows "flights_ok w'"
proof -
  have l: "leads (hw_threads w' s) = Some key \<Longrightarrow> leads (hw_threads w s) = Some key" for s key
    using assms(5,7) by (auto split: if_splits)
  have r: "hw_threads w' s \<noteq> Reading key True" for s key using assms(1,5,6) by (auto simp: flights_ok_def)
  show ?thesis
    using assms(1) unfolding flights_ok_def assms(2-4) by (intro conjI) (use l r in blast)+
qed

lemma flights_led_move:
  assumes "flights_led w" and "hw_flights w' = hw_flights w" and "hw_outcome w' = hw_outcome w"
    and "hw_threads w' = (hw_threads w)(t := p)" and "leads (hw_threads w t) = None \<or> leads p = leads (hw_threads w t)"
    and "\<forall>key f. p = Waiting key f \<longrightarrow> hw_flights w key = Some f"
  shows "flights_led w'"
proof -
  have l: "leads (hw_threads w s) = Some k \<Longrightarrow> leads (hw_threads w' s) = Some k" for s k using assms(4,5) by auto
  have wt: "hw_flights w k = Some f \<or> hw_outcome w f \<noteq> None" if "hw_threads w' s = Waiting k f" for s k f
    using that assms(1,4,6) by (auto simp: flights_led_def split: if_splits)
  show ?thesis unfolding flights_led_def assms(2,3)
  proof (intro conjI allI impI)
    fix k f assume "hw_flights w k = Some f"
    with assms(1) obtain s where "leads (hw_threads w s) = Some k" unfolding flights_led_def by blast
    with l show "\<exists>s. leads (hw_threads w' s) = Some k" by blast
  next
    fix s k f assume "hw_threads w' s = Waiting k f"
    with wt show "hw_flights w k = Some f \<or> hw_outcome w f \<noteq> None" by blast
  qed
qed

lemma join_ok:
  assumes "flights_ok w" and "hw_threads w t = Joining key"
  shows "flights_ok (join_flight t key w)"
proof (cases "hw_flights w key")
  case (Some f)
  then show ?thesis using assms by (intro flights_ok_move [OF assms(1), of _ t "Waiting key f"]) (simp_all add: join_flight_def)
next
  case None
  let ?w = "join_flight t key w"
  have e: "hw_threads ?w = (hw_threads w)(t := Rechecking key)" "hw_flights ?w = (hw_flights w)(key \<mapsto> hw_next w)"
    "hw_next ?w = hw_next w + 1" "hw_outcome ?w = hw_outcome w" using None by (simp_all add: join_flight_def)
  have nl: "leads (hw_threads w s) \<noteq> Some key" for s using assms(1) None by (auto simp: flights_ok_def)
  have nf: "hw_flights w k \<noteq> Some (hw_next w)" for k using assms(1) by (auto simp: flights_ok_def)
  have no: "hw_outcome w (hw_next w) = None" using assms(1) by (auto simp: flights_ok_def)
  show ?thesis unfolding flights_ok_def e
  proof (intro conjI)
    show "\<forall>s key'. ((hw_threads w)(t := Rechecking key)) s \<noteq> Reading key' True" using assms(1) by (auto simp: flights_ok_def)
    show "\<forall>s s' k. leads (((hw_threads w)(t := Rechecking key)) s) = Some k \<longrightarrow> leads (((hw_threads w)(t := Rechecking key)) s') = Some k \<longrightarrow> s = s'"
      using assms(1) nl by (auto simp: flights_ok_def)
    show "\<forall>k. (\<exists>s. leads (((hw_threads w)(t := Rechecking key)) s) = Some k) \<longrightarrow> ((hw_flights w)(key \<mapsto> hw_next w)) k \<noteq> None"
      using assms(1) by (auto simp: flights_ok_def)
    show "\<forall>k f. ((hw_flights w)(key \<mapsto> hw_next w)) k = Some f \<longrightarrow> f < hw_next w + 1 \<and> hw_outcome w f = None"
      using assms(1) no by (auto simp: flights_ok_def less_Suc_eq)
    show "\<forall>k k' f. ((hw_flights w)(key \<mapsto> hw_next w)) k = Some f \<longrightarrow> ((hw_flights w)(key \<mapsto> hw_next w)) k' = Some f \<longrightarrow> k = k'"
      using assms(1) nf by (auto simp: flights_ok_def)
    show "\<forall>f. hw_next w + 1 \<le> f \<longrightarrow> hw_outcome w f = None" using assms(1) by (auto simp: flights_ok_def)
  qed
qed

lemma join_led:
  assumes "flights_led w" and "hw_threads w t = Joining key"
  shows "flights_led (join_flight t key w)"
proof (cases "hw_flights w key")
  case (Some f)
  then show ?thesis using assms by (intro flights_led_move [OF assms(1), of _ t "Waiting key f"]) (simp_all add: join_flight_def)
next
  case None
  then have e: "hw_threads (join_flight t key w) = (hw_threads w)(t := Rechecking key)"
    "hw_flights (join_flight t key w) = (hw_flights w)(key \<mapsto> hw_next w)" "hw_outcome (join_flight t key w) = hw_outcome w"
    by (simp_all add: join_flight_def)
  have "\<exists>s. leads (((hw_threads w)(t := Rechecking key)) s) = Some k" if "((hw_flights w)(key \<mapsto> hw_next w)) k = Some f" for k f
  proof (cases "k = key")
    case True
    then show ?thesis by (intro exI [of _ t]) simp
  next
    case False
    with that assms(1) obtain s where s: "leads (hw_threads w s) = Some k" by (auto simp: flights_led_def)
    with assms(2) have "s \<noteq> t" by auto
    with s show ?thesis by (intro exI [of _ s]) simp
  qed
  moreover have "((hw_flights w)(key \<mapsto> hw_next w)) k = Some f \<or> hw_outcome w f \<noteq> None"
    if "((hw_threads w)(t := Rechecking key)) s = Waiting k f" for s k f
  proof -
    have "hw_threads w s = Waiting k f" using that by (simp split: if_splits)
    with assms(1) have "hw_flights w k = Some f \<or> hw_outcome w f \<noteq> None" unfolding flights_led_def by blast
    with None show ?thesis by auto
  qed
  ultimately show ?thesis unfolding flights_led_def e by blast
qed

lemma finish_ok:
  assumes "flights_ok w" and "hw_threads w t = Finishing key r"
  shows "flights_ok (finish_flight t key r w)"
proof -
  have "leads (hw_threads w t) = Some key" using assms(2) by simp
  with assms(1) obtain f where f: "hw_flights w key = Some f" unfolding flights_ok_def by blast
  let ?w = "finish_flight t key r w"
  have e: "hw_threads ?w = (hw_threads w)(t := Returned r)" "hw_flights ?w = (hw_flights w)(key := None)"
    "hw_next ?w = hw_next w" "hw_outcome ?w = (hw_outcome w)(f \<mapsto> r)" using f by (simp_all add: finish_flight_def)
  have other: "leads (hw_threads w s) \<noteq> Some key" if "s \<noteq> t" for s
    using assms that \<open>leads (hw_threads w t) = Some key\<close> unfolding flights_ok_def by blast
  show ?thesis unfolding flights_ok_def e
  proof (intro conjI)
    show "\<forall>s k. ((hw_threads w)(t := Returned r)) s \<noteq> Reading k True" using assms(1) by (auto simp: flights_ok_def)
    show "\<forall>s s' k. leads (((hw_threads w)(t := Returned r)) s) = Some k \<longrightarrow> leads (((hw_threads w)(t := Returned r)) s') = Some k \<longrightarrow> s = s'"
      using assms(1) by (auto simp: flights_ok_def)
    show "\<forall>k. (\<exists>s. leads (((hw_threads w)(t := Returned r)) s) = Some k) \<longrightarrow> ((hw_flights w)(key := None)) k \<noteq> None"
    proof (intro allI impI)
      fix k assume "\<exists>s. leads (((hw_threads w)(t := Returned r)) s) = Some k"
      then obtain s where s: "s \<noteq> t" "leads (hw_threads w s) = Some k" by (auto split: if_splits)
      with other have "k \<noteq> key" by blast
      moreover have "hw_flights w k \<noteq> None" using assms(1) s(2) unfolding flights_ok_def by blast
      ultimately show "((hw_flights w)(key := None)) k \<noteq> None" by simp
    qed
    show "\<forall>k g. ((hw_flights w)(key := None)) k = Some g \<longrightarrow> g < hw_next w \<and> ((hw_outcome w)(f \<mapsto> r)) g = None"
    proof (intro allI impI)
      fix k g assume "((hw_flights w)(key := None)) k = Some g"
      then have k: "k \<noteq> key" "hw_flights w k = Some g" by (auto split: if_splits)
      then have "g \<noteq> f" using assms(1) f unfolding flights_ok_def by blast
      with k(2) assms(1) show "g < hw_next w \<and> ((hw_outcome w)(f \<mapsto> r)) g = None" by (simp add: flights_ok_def)
    qed
    show "\<forall>k k' g. ((hw_flights w)(key := None)) k = Some g \<longrightarrow> ((hw_flights w)(key := None)) k' = Some g \<longrightarrow> k = k'"
    proof (intro allI impI)
      fix k k' g assume "((hw_flights w)(key := None)) k = Some g" "((hw_flights w)(key := None)) k' = Some g"
      then have "hw_flights w k = Some g" "hw_flights w k' = Some g" by (auto split: if_splits)
      with assms(1) show "k = k'" unfolding flights_ok_def by blast
    qed
    show "\<forall>g. hw_next w \<le> g \<longrightarrow> ((hw_outcome w)(f \<mapsto> r)) g = None"
    proof (intro allI impI)
      fix g assume "hw_next w \<le> g"
      moreover have "f < hw_next w" using assms(1) f unfolding flights_ok_def by blast
      ultimately show "((hw_outcome w)(f \<mapsto> r)) g = None" using assms(1) unfolding flights_ok_def by auto
    qed
  qed
qed

lemma finish_led:
  assumes "flights_led w" and "hw_threads w t = Finishing key r"
  shows "flights_led (finish_flight t key r w)"
proof -
  let ?w = "finish_flight t key r w"
  have th: "hw_threads ?w = (hw_threads w)(t := Returned r)" "hw_flights ?w = (hw_flights w)(key := None)"
    by (auto simp: finish_flight_def fun_eq_iff split: option.split)
  have out: "hw_outcome w f \<noteq> None \<Longrightarrow> hw_outcome ?w f \<noteq> None" and new: "hw_flights w key = Some f \<Longrightarrow> hw_outcome ?w f \<noteq> None" for f
    by (auto simp: finish_flight_def split: option.split)
  show ?thesis unfolding flights_led_def
  proof (intro conjI allI impI)
    fix k f assume "hw_flights ?w k = Some f"
    then have k: "k \<noteq> key" "hw_flights w k = Some f" by (auto simp: th split: if_splits)
    with assms(1) obtain s where s: "leads (hw_threads w s) = Some k" unfolding flights_led_def by blast
    with k(1) assms(2) have "s \<noteq> t" by auto
    with s show "\<exists>s. leads (hw_threads ?w s) = Some k" by (intro exI [of _ s]) (simp add: th)
  next
    fix s k f assume "hw_threads ?w s = Waiting k f"
    then have "hw_threads w s = Waiting k f" by (simp add: th split: if_splits)
    with assms(1) have "hw_flights w k = Some f \<or> hw_outcome w f \<noteq> None" unfolding flights_led_def by blast
    then show "hw_flights ?w k = Some f \<or> hw_outcome ?w f \<noteq> None"
      using out new by (cases "k = key") (auto simp: th)
  qed
qed

text \<open>The configuration never changes; with a size function that answers, storing succeeds.\<close>

lemma hub_evict_config' [simp]: "hc_config (hub_sweep now c) = hc_config c"
proof -
  have "hc_config (foldl (\<lambda>c key. hub_remove key c) c ks) = hc_config c" for ks by (induction ks arbitrary: c) simp_all
  then show ?thesis by (simp add: hub_sweep_def)
qed

lemma hub_get_config: "hub_get key now c = (c', r) \<Longrightarrow> hc_config c' = hc_config c"
  by (auto simp: hub_get_def Let_def split: option.splits if_splits prod.splits)

lemma hub_put_config: "hub_put key v ttl now c = (c', r) \<Longrightarrow> hc_config c' = hc_config c"
  by (auto simp: hub_put_def Let_def split: sum.splits if_splits)

lemma hub_put_sized: "\<forall>v. \<exists>n. hx_size_fn (hc_config c) v = Inr n \<Longrightarrow> hub_put key v ttl now c \<noteq> (c', Inl e)"
proof -
  assume "\<forall>v. \<exists>n. hx_size_fn (hc_config c) v = Inr n"
  then obtain n where "hx_size_fn (hc_config c) v = Inr n" by blast
  then show ?thesis by (simp add: hub_put_def entry_size_def Let_def)
qed

lemma finish_cache [simp]: "hw_cache (finish_flight t key r w) = hw_cache w"
  by (simp add: finish_flight_def split: option.split)

lemma join_cache [simp]: "hw_cache (join_flight t key w) = hw_cache w"
  by (simp add: join_flight_def split: option.split)

lemma flight_step_config: "flight_step forcing w w' \<Longrightarrow> hc_config (hw_cache w') = hc_config (hw_cache w)"
  by (cases rule: flight_step.cases) (auto dest: hub_get_config hub_put_config)

lemma flights_ok_at:
  assumes "flights_ok w" and "\<forall>key. p \<noteq> Reading key True" and "leads p = None \<or> leads p = leads (hw_threads w t)"
  shows "flights_ok (at_phase t p w)" and "flights_ok (at_phase t p (w\<lparr>hw_cache := c\<rparr>))"
  by (rule flights_ok_move [OF assms(1) _ _ _ _ assms(2,3)]; simp)+

lemma flights_led_at:
  assumes "flights_led w" and "leads (hw_threads w t) = None \<or> leads p = leads (hw_threads w t)"
    and "\<forall>key f. p = Waiting key f \<longrightarrow> hw_flights w key = Some f"
  shows "flights_led (at_phase t p w)" and "flights_led (at_phase t p (w\<lparr>hw_cache := c\<rparr>))"
  by (rule flights_led_move [OF assms(1) _ _ _ assms(2,3)]; simp)+

lemma flight_step_ok:
  assumes "flight_step False w w'" and "flights_ok w"
  shows "flights_ok w'"
  using assms(1)
proof cases
  case (join t key)
  with join_ok [OF assms(2)] show ?thesis by simp
next
  case (finish t key r)
  with finish_ok [OF assms(2)] show ?thesis by simp
next
  case (skip t key)
  with assms(2) show ?thesis by (simp add: flights_ok_def)
qed (auto intro!: flights_ok_at [OF assms(2)])

lemma flight_step_led:
  assumes "flight_step forcing w w'" and "flights_led w" and "\<forall>v. \<exists>n. hx_size_fn (hc_config (hw_cache w)) v = Inr n"
  shows "flights_led w'"
  using assms(1)
proof cases
  case (join t key)
  with join_led [OF assms(2)] show ?thesis by simp
next
  case (finish t key r)
  with finish_led [OF assms(2)] show ?thesis by simp
next
  case (unsized t key v now ttl c e)
  with hub_put_sized [OF assms(3)] show ?thesis by blast
qed (auto intro!: flights_led_at [OF assms(2)])

lemma reachable_ok: "reachable False c w \<Longrightarrow> flights_ok w"
  unfolding reachable_def
proof (induction rule: rtranclp_induct)
  case base
  show ?case by (simp add: flights_ok_def start_world_def)
next
  case (step w w')
  then show ?case using flight_step_ok by blast
qed

lemma reachable_led:
  assumes "\<forall>v. \<exists>n. hx_size_fn (hc_config c) v = Inr n"
  shows "reachable forcing c w \<Longrightarrow> flights_led w \<and> hc_config (hw_cache w) = hc_config c"
  unfolding reachable_def
proof (induction rule: rtranclp_induct)
  case base
  show ?case by (simp add: flights_led_def start_world_def)
next
  case (step w w')
  then show ?case using flight_step_led [OF step(2)] flight_step_config [OF step(2)] assms by simp
qed

end
