(* ===== verification/Hub_Properties.thy ===== *)
theory Hub_Properties
  imports Hub_Flights
begin

text \<open>
  What is claimed of the hub: codes survive the trip to every source and back, requests are split
  without loss, the rate limiter keeps its bound, retries end, the usage ledger counts exactly, the
  cache answers what was loaded, and the facade combines the sources the way its plan says.
\<close>

subsection \<open>Codes\<close>

lemma spelling_plain:
  assumes "list_all (\<lambda>x. is_digit x \<or> x \<in> set ''shz.'') s"
  shows "strip s = s" and "lower s = s"
proof -
  have "\<not> is_space x \<and> lower_char x = x" if "x \<in> set s" for x
  proof (cases "is_digit x")
    case True
    then show ?thesis by (simp add: digit_not_space)
  next
    case False
    with assms that have "x \<in> set ''shz.''" by (auto simp: list_all_iff)
    then show ?thesis by (auto simp: is_space_def lower_char_def Let_def)
  qed
  then show "strip s = s" and "lower s = s" by (simp_all add: strip_id lower_def map_idI)
qed

text \<open>C40. The spelling of a source is read back: whatever text a code was parsed from, if the source's mapper
  writes it at all, reading the spelling with the code's venue gives the same code, its type included.\<close>

theorem mapper_roundtrip:
  assumes "parse_text text None = Inr c" and "to_source m c endpoint = Inr raw"
  shows "from_source m raw (Some (venue_value (sc_venue c))) = Inr c"
proof -
  have ok: "code_ok c" and ty: "sc_venue c \<notin> RESERVED_VENUES" "infer_sec_type (sc_venue c) (sc_symbol c) = Inr (sc_type c)"
    using parse_text_ok [OF assms(1)] parse_text_type [OF assms(1)] by simp_all
  note again = parse_canonical_inferred [OF ok ty, unfolded canonical_def, simplified]
  obtain a b where v: "venue_value (sc_venue c) = a # b" by (cases "sc_venue c") simp_all
  have cn: "numeric_symbol (sc_symbol c)" "list_all is_digit (sc_symbol c)" "strip (sc_symbol c) = sc_symbol c"
    if "sc_venue c \<in> CN_VENUES"
    using that ok code_numeric [OF ok] by (auto simp: code_ok_def list_all_iff intro!: strip_id dest: digit_not_space)
  show ?thesis
  proof (cases m)
    case Passthrough
    with assms(2) v again show ?thesis by (auto simp: passthrough_to_def passthrough_from_def canonical_def)
  next
    case AkShare
    with assms(2) have sv: "sc_venue c \<in> CN_VENUES" by (auto simp: akshare_to_def split: if_splits)
    note cn = cn [OF sv]
    show ?thesis
    proof (cases "raw = sc_symbol c")
      case True
      have "find (\<lambda>(p, _). starts_with p (sc_symbol c) \<and> is_digits (drop (length p) (sc_symbol c))) VENUE_BY_PREFIX = None"
        using cn(2) by (cases "sc_symbol c") (auto simp: VENUE_BY_PREFIX_def is_digit_def)
      with True AkShare cn digits_lower [OF cn(2)] v again upper_venue [of "sc_venue c"] show ?thesis
        by (simp add: akshare_from_def)
    next
      case False
      with assms(2) AkShare sv obtain p where p: "sc_type c = INDEX" "PREFIX_BY_VENUE (sc_venue c) = Some p" "raw = p @ sc_symbol c"
        by (auto simp: akshare_to_def split: if_splits option.splits)
      have pv: "sc_venue c = SH \<and> p = ''sh'' \<or> sc_venue c = SZ \<and> p = ''sz''"
        using p(2) sv by (cases "sc_venue c") (auto simp: CN_VENUES_def)
      have "list_all (\<lambda>x. is_digit x \<or> x \<in> set ''shz.'') raw" using pv p(3) cn(2) by (auto simp: list_all_iff)
      note plain = spelling_plain [OF this]
      have "is_digits (sc_symbol c)" using cn(1,2) by (cases "sc_symbol c") (simp_all add: is_digits_def numeric_symbol_def)
      then have "find (\<lambda>(p, _). starts_with p raw \<and> is_digits (drop (length p) raw)) VENUE_BY_PREFIX = Some (p, venue_value (sc_venue c))"
        using pv by (elim disjE conjE) (simp_all add: VENUE_BY_PREFIX_def p(3))
      then have "akshare_from raw (Some (venue_value (sc_venue c))) = parse_text (canonical c) (Some (sec_type_value INDEX))"
        using p(3) by (simp add: akshare_from_def Let_def plain [unfolded p(3)] canonical_def)
      also have "\<dots> = Inr c" using ok p(1) SecType_value [of INDEX] by (intro parse_canonical) auto
      finally show ?thesis using AkShare by simp
    qed
  next
    case BaoStock
    with assms(2) obtain p where p: "baostock_prefix (sc_venue c) = Some p" "raw = p @ ''.'' @ sc_symbol c"
      by (auto simp: baostock_to_def split: option.splits)
    then have pv: "sc_venue c = SH \<and> p = ''sh'' \<or> sc_venue c = SZ \<and> p = ''sz''" by (cases "sc_venue c") auto
    then have sv: "sc_venue c \<in> CN_VENUES" by (auto simp: CN_VENUES_def)
    note cn = cn [OF sv]
    have "list_all (\<lambda>x. is_digit x \<or> x \<in> set ''shz.'') raw" using pv p(2) cn(2) by (auto simp: list_all_iff)
    note plain = spelling_plain [OF this]
    have "partition_first (CHR ''.'') raw = Some (p, sc_symbol c)"
      using pv by (elim disjE conjE) (simp_all add: partition_first_def p(2))
    then have "baostock_from raw (Some (venue_value (sc_venue c))) = parse_text (canonical c) None"
      using pv by (elim disjE conjE) (simp_all add: baostock_from_def plain canonical_def)
    then show ?thesis using again BaoStock by (simp add: canonical_def)
  qed
qed

theorem mapper_roundtrip_witness:
  "parse_text ''399006.sz'' None = Inr \<lparr>sc_symbol = ''399006'', sc_venue = SZ, sc_type = INDEX\<rparr>
   \<and> to_source AkShare \<lparr>sc_symbol = ''399006'', sc_venue = SZ, sc_type = INDEX\<rparr> (Some ''stock_zh_index_daily'') = Inr ''sz399006''
   \<and> from_source AkShare ''sz399006'' (Some ''SZ'') = Inr \<lparr>sc_symbol = ''399006'', sc_venue = SZ, sc_type = INDEX\<rparr>"
proof -
  have 1: "parse_text ''399006.sz'' None = Inr \<lparr>sc_symbol = ''399006'', sc_venue = SZ, sc_type = INDEX\<rparr>" by code_simp
  have 2: "to_source AkShare \<lparr>sc_symbol = ''399006'', sc_venue = SZ, sc_type = INDEX\<rparr> (Some ''stock_zh_index_daily'') = Inr ''sz399006''"
    by code_simp
  from 1 2 mapper_roundtrip [OF 1 2] show ?thesis by simp
qed

text \<open>A canonical code is a fixed point of the parser: what a text is parsed to, without a type or with
  one, is parsed to again from its canonical form.\<close>

theorem canonical_reparses:
  assumes "parse_text text t = Inr c"
  shows "parse_text (canonical c) t = Inr c"
  using parse_text_ok [OF assms] parse_text_type [OF assms] parse_canonical parse_canonical_inferred
  by (cases t) simp_all

theorem canonical_reparses_witness:
  "parse_text '' 300.sh '' None = Inr \<lparr>sc_symbol = ''000300'', sc_venue = SH, sc_type = INDEX\<rparr>
   \<and> parse_text ''000300.SH'' None = Inr \<lparr>sc_symbol = ''000300'', sc_venue = SH, sc_type = INDEX\<rparr>"
proof -
  have 1: "parse_text '' 300.sh '' None = Inr \<lparr>sc_symbol = ''000300'', sc_venue = SH, sc_type = INDEX\<rparr>" by code_simp
  from 1 canonical_reparses [OF 1] show ?thesis by (simp add: canonical_def)
qed

text \<open>A request is split without loss: the batches joined are the request in its order, and no batch is
  larger than the source accepts.\<close>

theorem split_codes_exact:
  "concat (split_codes s c codes) = codes
   \<and> (\<forall>batch \<in> set (split_codes s c codes). case max_codes_per_call (get_capability s c) of
        None \<Rightarrow> True | Some limit \<Rightarrow> int (length batch) \<le> limit)
   \<and> (codes \<noteq> [] \<longrightarrow> [] \<notin> set (split_codes s c codes))"
proof -
  have pos: "0 < limit" if "max_codes_per_call (get_capability s c) = Some limit" for limit
    using that by (cases "(s, c)" rule: CAPABILITIES.cases) (auto simp: get_capability_def DEFAULT_CAPABILITY_def)
  show ?thesis
  proof (cases "max_codes_per_call (get_capability s c)")
    case (Some limit)
    with pos have "0 < limit" .
    show ?thesis
    proof (cases "int (length codes) \<le> limit")
      case True
      with Some show ?thesis by (auto simp: split_codes_def)
    next
      case False
      with Some have s: "split_codes s c codes = slices (nat limit) codes" by (simp add: split_codes_def)
      have "int (length b) \<le> limit \<and> b \<noteq> []" if "b \<in> set (slices (nat limit) codes)" for b
        using slices_size [OF that] \<open>0 < limit\<close> by linarith
      with Some slices_concat [of "nat limit" codes] \<open>0 < limit\<close> show ?thesis unfolding s by auto
    qed
  qed (simp add: split_codes_def)
qed

theorem split_codes_exact_witness:
  "concat (split_codes TUSHARE INDEX_WEIGHTS [''a'', ''b'']) = [''a'', ''b'']
   \<and> [] \<notin> set (split_codes TUSHARE INDEX_WEIGHTS [''a'', ''b'']) \<and> length (split_codes TUSHARE INDEX_WEIGHTS [''a'', ''b'']) = 2"
  using split_codes_exact [of TUSHARE INDEX_WEIGHTS "[''a'', ''b'']"]
  by (simp add: split_codes_def get_capability_def DEFAULT_CAPABILITY_def)

text \<open>The mapper's entry for the index venue CSI is never used: the venue is rejected before.\<close>

lemma akshare_rejects_csi: "akshare_to \<lparr>sc_symbol = ''000300'', sc_venue = CSI, sc_type = INDEX\<rparr> (Some ''stock_zh_index_daily'') = Inl UnsupportedCapability"
  by code_simp


subsection \<open>Rate limits and retries\<close>

text \<open>C31. The token bucket keeps its limit in every window: whatever requests came before, the tokens granted
  during a window are at most the capacity plus the rate times the time the window spans, and the bucket
  holds between nothing and its capacity.\<close>

theorem rate_limit_bound:
  assumes "new_limiter rate burst start = Inr l0" and "\<forall>(n, now) \<in> set (before @ window). 0 \<le> n"
    and "grants before l0 = (l1, given1)" and "grants window l1 = (l2, given2)"
  shows "given2 \<le> lm_capacity l0 + rate * (Max (set (lm_updated l1 # map snd window)) - lm_updated l1)
    \<and> 0 \<le> lm_tokens l2 \<and> lm_tokens l2 \<le> lm_capacity l0"
proof -
  note l0 = new_limiter_ok [OF assms(1)]
  have "\<forall>(n, now) \<in> set before. 0 \<le> n" "\<forall>(n, now) \<in> set window. 0 \<le> n" using assms(2) by auto
  note g1 = grants_bound [OF conjunct1 [OF l0] this(1) assms(3)] and g2 = grants_bound [OF _ this(2) assms(4)]
  from g1 have 1: "limiter_ok l1" "lm_rate l1 = rate" "lm_capacity l1 = lm_capacity l0" using l0 by (simp_all add: same_limits_def)
  from g2 [OF 1(1)] have 2: "limiter_ok l2" "lm_capacity l2 = lm_capacity l0" "lm_updated l2 = Max (set (lm_updated l1 # map snd window))"
    "given2 + lm_tokens l2 \<le> lm_tokens l1 + rate * (lm_updated l2 - lm_updated l1)"
    unfolding same_limits_def 1(2,3) by blast+
  moreover have "lm_tokens l1 \<le> lm_capacity l0" "0 \<le> lm_tokens l2" "lm_tokens l2 \<le> lm_capacity l0"
    using 1 2(1,2) by (auto simp: limiter_ok_def)
  ultimately show ?thesis unfolding 2(3) [symmetric] by linarith
qed

theorem rate_limit_bound_witness:
  "\<exists>l0 l1 l2 given1 given2. new_limiter 2 (Some 2) 0 = Inr l0 \<and> grants [(1, 0), (1, 0)] l0 = (l1, given1) \<and> grants [(1, 0), (1, 1)] l1 = (l2, given2)
    \<and> given2 = 1 \<and> given2 \<le> lm_capacity l0 + 2 * (Max (set (lm_updated l1 # map snd [(1, 0), (1, 1)])) - lm_updated l1)"
proof -
  let ?l0 = "\<lparr>lm_rate = 2, lm_capacity = 2, lm_tokens = 2, lm_updated = 0\<rparr>" and ?l1 = "\<lparr>lm_rate = 2, lm_capacity = 2, lm_tokens = 0, lm_updated = 0\<rparr>"
    and ?l2 = "\<lparr>lm_rate = 2, lm_capacity = 2, lm_tokens = 1, lm_updated = 1\<rparr>"
  have 0: "new_limiter 2 (Some 2) 0 = Inr ?l0" by (simp add: new_limiter_def)
  have 1: "grants [(1, 0), (1, 0)] ?l0 = (?l1, 2)" by (simp add: try_acquire_def refill_def)
  have 2: "grants [(1, 0), (1, 1)] ?l1 = (?l2, 1)" by (simp add: try_acquire_def refill_def)
  have "(1::rat) \<le> lm_capacity ?l0 + 2 * (Max (set (lm_updated ?l1 # map snd [(1, 0), (1, 1)])) - lm_updated ?l1)"
    using rate_limit_bound [OF 0 _ 1 2] by simp
  with 0 1 2 show ?thesis by blast
qed

text \<open>Waiting for a token ends: when nobody else draws from the bucket, \<open>acquire\<close> of no more than the
  capacity succeeds in the second round at the latest, once the time it computed has passed.\<close>

theorem acquire_gets_tokens:
  assumes "limiter_ok l" and "n \<le> lm_capacity l" and "l1 = fst (try_acquire n t1 l)"
    and "lm_updated l1 + wait_time n l1 None \<le> t2"
  shows "\<exists>l2 waits. acquire n None start [(t1, a1, \<lambda>l. l), (t2, a2, others)] l = Some (l2, waits, Inr ()) \<and> length waits \<le> 1"
proof (cases "snd (try_acquire n t1 l)")
  case True
  then show ?thesis using assms(2) by (auto simp: acquire_def split: prod.splits)
next
  case False
  then have l1: "l1 = refill t1 l" and short: "lm_tokens l1 < n"
    using assms(3) by (auto simp: try_acquire_def Let_def split: if_splits)
  have ok: "limiter_ok l1" "lm_capacity l1 = lm_capacity l" using refill_ok [OF assms(1), of t1] by (simp_all add: l1 same_limits_def)
  then have r: "0 < lm_rate l1" by (simp add: limiter_ok_def)
  let ?d = "t2 - lm_updated l1"
  have w: "(n - lm_tokens l1) / lm_rate l1 \<le> ?d" using assms(4) by (simp add: wait_time_def Let_def)
  then have "n - lm_tokens l1 \<le> ?d * lm_rate l1" using r by (simp add: pos_divide_le_eq)
  moreover have "0 < (n - lm_tokens l1) / lm_rate l1" using short r by simp
  then have "0 < ?d" using w by linarith
  ultimately have "n \<le> lm_tokens (refill t2 l1)" using assms(2) ok(2) by (simp add: refill_def Let_def)
  then have "\<exists>l2. try_acquire n t2 l1 = (l2, True)" by (simp add: try_acquire_def Let_def)
  moreover have "try_acquire n t1 l = (l1, False)" using False assms(3) by (cases "try_acquire n t1 l") simp
  ultimately show ?thesis using assms(2) by (auto simp: acquire_def)
qed

theorem acquire_gets_tokens_witness:
  "\<exists>l2 waits. acquire 1 None 0 [(0, 0, \<lambda>l. l), (1, 1, \<lambda>l. l)] \<lparr>lm_rate = 1, lm_capacity = 1, lm_tokens = 0, lm_updated = 0\<rparr> = Some (l2, waits, Inr ())
    \<and> length waits \<le> 1"
  by (rule acquire_gets_tokens [OF _ _ refl])
    (simp_all add: limiter_ok_def try_acquire_def refill_def wait_time_def)

lemma acquire_loop_timeout:
  "\<exists>(now, again, _) \<in> set rounds. d \<le> again \<Longrightarrow> \<exists>l' waits r. acquire_loop n (Some d) rounds l = Some (l', waits, r) \<and> r \<in> {Inr (), Inl RateLimitTimeout}"
proof (induction rounds arbitrary: l)
  case (Cons q rounds)
  obtain now again others where q: "q = (now, again, others)" by (cases q)
  obtain l1 g where t: "try_acquire n now l = (l1, g)" by (metis prod.exhaust)
  show ?case
  proof (cases "g \<or> d \<le> again")
    case False
    with Cons.prems q have "\<exists>(now, again, _) \<in> set rounds. d \<le> again" by auto
    from Cons.IH [OF this, of "others l1"] False q t show ?thesis by auto
  next
    case True
    with q t show ?thesis by (cases g) auto
  qed
qed simp

text \<open>The outcomes of successive calls, taken from a list.\<close>

fun next_outcome :: "'a result list \<Rightarrow> 'a result list \<times> 'a result" where
  "next_outcome [] = ([], Inl (OtherError ''StopIteration'' []))"
| "next_outcome (x # xs) = (xs, x)"

definition retryable :: "'s retry_policy \<Rightarrow> 'a result \<Rightarrow> bool" where
  "retryable p r = (case r of Inl e \<Rightarrow> rp_retry_on p e | Inr _ \<Rightarrow> False)"

lemma retry_from_exact:
  assumes "rp_on_retry p = None"
  shows "left < length outcomes \<Longrightarrow> retry_from next_outcome p draw left attempt outcomes = (rest, delays, calls, r) \<Longrightarrow>
    1 \<le> calls \<and> calls \<le> left + 1 \<and> r = outcomes ! (calls - 1) \<and> rest = drop calls outcomes
    \<and> (\<forall>i < calls - 1. retryable p (outcomes ! i)) \<and> (calls = left + 1 \<or> \<not> retryable p r)
    \<and> delays = map (\<lambda>i. compute_backoff (attempt + int i) (rp_base p) (rp_max_delay p) (rp_jitter p) (draw (attempt + int i))) [0..<calls - 1]"
proof (induction left arbitrary: attempt outcomes rest delays calls r)
  case 0
  then obtain x xs where "outcomes = x # xs" by (cases outcomes) auto
  with 0 show ?case by (subst (asm) retry_from.simps) (auto simp: retryable_def split: sum.splits if_splits)
next
  case (Suc left)
  obtain x xs where o: "outcomes = x # xs" using Suc.prems(1) by (cases outcomes) auto
  show ?case
  proof (cases "retryable p x")
    case False
    with Suc.prems(2) show ?thesis
      by (subst (asm) retry_from.simps) (auto simp: o retryable_def split: sum.splits)
  next
    case True
    then obtain e where e: "x = Inl e" "rp_retry_on p e" by (auto simp: retryable_def split: sum.splits)
    obtain rest' ds n r' where i: "retry_from next_outcome p draw left (attempt + 1) xs = (rest', ds, n, r')" by (metis prod.exhaust)
    have n: "next_outcome outcomes = (xs, Inl e)" by (simp add: o e(1))
    have eq: "rest = rest'" "calls = n + 1" "r = r'"
        "delays = compute_backoff attempt (rp_base p) (rp_max_delay p) (rp_jitter p) (draw attempt) # ds"
      using Suc.prems(2) retry_again [where call = next_outcome and s = outcomes and draw = draw and attempt = attempt and left = left,
          OF n e(2), of xs "Inr ()"] i assms by simp_all
    have "left < length xs" using Suc.prems(1) by (simp add: o)
    from Suc.IH [OF this i] have IH: "1 \<le> n" "n \<le> left + 1" "r' = xs ! (n - 1)" "rest' = drop n xs"
      "\<forall>i < n - 1. retryable p (xs ! i)" "n = left + 1 \<or> \<not> retryable p r'"
      "ds = map (\<lambda>i. compute_backoff (attempt + 1 + int i) (rp_base p) (rp_max_delay p) (rp_jitter p) (draw (attempt + 1 + int i))) [0..<n - 1]"
      by blast+
    have "[0..<n] = 0 # map Suc [0..<n - 1]" using IH(1) by (simp add: upt_conv_Cons map_Suc_upt)
    then have "delays = map (\<lambda>i. compute_backoff (attempt + int i) (rp_base p) (rp_max_delay p) (rp_jitter p) (draw (attempt + int i))) [0..<n]"
      unfolding eq(4) IH(7) by (simp add: comp_def add.assoc)
    moreover have "\<forall>i < n. retryable p (outcomes ! i)" using True IH(5) by (auto simp: o nth_Cons split: nat.split)
    ultimately show ?thesis using IH(1-4,6) unfolding eq(1-3) by (auto simp: o nth_Cons split: nat.split)
  qed
qed

text \<open>Retries are exact: \<open>retry_call\<close> calls until the first outcome that is no retryable failure, at most
  as often as it has attempts; every earlier outcome was a retryable failure, the answer is the last
  call's, and between two calls it slept the back-off of the attempt.\<close>

theorem retry_exact:
  assumes "rp_on_retry p = None" and "1 \<le> rp_attempts p" and "rp_attempts p \<le> int (length outcomes)"
    and "retry_call next_outcome p draw outcomes = (rest, delays, calls, r)"
  shows "1 \<le> calls \<and> int calls \<le> rp_attempts p \<and> r = outcomes ! (calls - 1)
    \<and> (\<forall>i < calls - 1. retryable p (outcomes ! i)) \<and> (int calls = rp_attempts p \<or> \<not> retryable p r)
    \<and> delays = map (\<lambda>i. compute_backoff (1 + int i) (rp_base p) (rp_max_delay p) (rp_jitter p) (draw (1 + int i))) [0..<calls - 1]"
proof -
  have f: "retry_from next_outcome p draw (nat (rp_attempts p - 1)) 1 outcomes = (rest, delays, calls, r)"
    using assms(2,4) by (simp add: retry_call_def)
  have n: "nat (rp_attempts p - 1) < length outcomes" using assms(2,3) by linarith
  from retry_from_exact [OF assms(1) n f] have "1 \<le> calls" "calls \<le> nat (rp_attempts p - 1) + 1" "r = outcomes ! (calls - 1)"
    "\<forall>i < calls - 1. retryable p (outcomes ! i)" "calls = nat (rp_attempts p - 1) + 1 \<or> \<not> retryable p r"
    "delays = map (\<lambda>i. compute_backoff (1 + int i) (rp_base p) (rp_max_delay p) (rp_jitter p) (draw (1 + int i))) [0..<calls - 1]"
    by blast+
  moreover have "int (nat (rp_attempts p - 1) + 1) = rp_attempts p" using assms(2) by simp
  ultimately show ?thesis by (metis of_nat_le_iff)
qed

theorem retry_exact_witness:
  "let p = \<lparr>rp_attempts = 3, rp_retry_on = default_retry_on, rp_base = 2, rp_max_delay = 60, rp_jitter = 0, rp_on_retry = None\<rparr>;
       outcomes = [Inl NetworkError, Inr ''v'', Inl SourceError] :: string result list in
   \<exists>rest delays. retry_call next_outcome p (\<lambda>i. 0) outcomes = (rest, delays, 2, Inr ''v'') \<and> retryable p (outcomes ! 0) \<and> length delays = 1"
proof -
  let ?p = "\<lparr>rp_attempts = 3, rp_retry_on = default_retry_on, rp_base = 2, rp_max_delay = 60, rp_jitter = 0, rp_on_retry = None\<rparr> :: string result list retry_policy"
  let ?o = "[Inl NetworkError, Inr ''v'', Inl SourceError] :: string result list"
  obtain rest delays calls r where c: "retry_call next_outcome ?p (\<lambda>i. 0) ?o = (rest, delays, calls, r)" by (metis prod.exhaust)
  have "calls = 2" "r = Inr ''v''"
    using c by (simp_all add: retry_call_def retry_from.simps default_retry_on_def)
  with c retry_exact [OF _ _ _ c] show ?thesis by (simp add: Let_def)
qed


subsection \<open>Usage\<close>

text \<open>The ledger counts exactly, whatever its alert callback does: the calls and costs of a day and source
  are the sums over its recordings, the last records are kept, and the summary of a day lists just the
  sources used on it with those sums.\<close>

theorem ledger_exact:
  "let u = record_all qs (new_ledger b n); rs = records_of b qs; today = usage_day now in
    dict_get (ul_calls u) (day, source) 0 = sum_list (map ur_calls (day_records day source rs))
    \<and> dict_get (ul_cost u) (day, source) 0 = sum_list (map ur_est_cost (day_records day source rs))
    \<and> ul_records u = drop (length rs - n) rs
    \<and> map_of (us_sources (ledger_summary now u)) source =
        (if day_records today source rs = [] then None
         else Some (sum_list (map ur_calls (day_records today source rs)), round6 (sum_list (map ur_est_cost (day_records today source rs)))))"
proof -
  note c = record_all_counts [of qs b n]
  have "length (records_of b qs) = length qs" by (simp add: records_of_def)
  moreover have "dict_get (ul_calls (record_all qs (new_ledger b n))) (day, source) 0 = sum_list (map ur_calls (day_records day source (records_of b qs)))"
    "dict_get (ul_cost (record_all qs (new_ledger b n))) (day, source) 0 = sum_list (map ur_est_cost (day_records day source (records_of b qs)))"
    using c by (simp_all add: dict_get_def)
  moreover have "map_of (us_sources (ledger_summary now (record_all qs (new_ledger b n)))) source =
      (if day_records (usage_day now) source (records_of b qs) = [] then None
       else Some (sum_list (map ur_calls (day_records (usage_day now) source (records_of b qs))),
                  round6 (sum_list (map ur_est_cost (day_records (usage_day now) source (records_of b qs))))))"
    using c by (simp add: ledger_summary_def Let_def sum_cost_lookup sum_calls_lookup dict_get_def)
  ultimately show ?thesis using c by (simp add: Let_def)
qed

text \<open>C32. Budget alerts are exact: an alert is raised at most once per day, source, metric and level, and the
  calls of a source are reported as exceeded just when their number of the day has reached the limit.\<close>

theorem budget_alerts_exact:
  assumes "map_of (bc_calls_per_day b) source = Some limit" and "0 < limit" and "\<forall>(s, e, calls, codes, latency, now) \<in> set qs. 0 \<le> calls"
  shows "let alerts = ul_alerts (record_all qs (new_ledger b n)) in
    distinct (map alert_key alerts)
    \<and> ((day, source, ''calls'', ''exceeded'') \<in> set (map alert_key alerts) \<longleftrightarrow> limit \<le> calls_on b day source qs)"
  using record_all_fired_ok [of qs b n] record_all_exceeded [OF assms, of day n] by (simp add: fired_ok_def Let_def)

definition sample_budget :: budget_config where
  "sample_budget = \<lparr>bc_calls_per_day = [(''wind'', 2)], bc_cost_per_day = [], bc_cost_table = [(''wind.bars'', 1 / 2)],
     bc_warn_ratio = 4 / 5, bc_on_alert = None\<rparr>"

theorem budget_alerts_exact_witness:
  "let qs = [(''wind'', ''bars'', 1, [], 0, 0), (''wind'', ''edb'', 1, [], 0, 0)];
       alerts = ul_alerts (record_all qs (new_ledger sample_budget 10)) in
    distinct (map alert_key alerts) \<and> (usage_day 0, ''wind'', ''calls'', ''exceeded'') \<in> set (map alert_key alerts)"
proof -
  let ?qs = "[(''wind'', ''bars'', 1, [], 0, 0), (''wind'', ''edb'', 1, [], 0, 0)] :: usage_call list"
  have "calls_on sample_budget (usage_day 0) ''wind'' ?qs = 2"
    by (simp add: records_of_def day_records_def usage_record_of_def)
  moreover have "map_of (bc_calls_per_day sample_budget) ''wind'' = Some 2" by (simp add: sample_budget_def)
  ultimately show ?thesis
    using budget_alerts_exact [where b = sample_budget and source = "''wind''" and limit = 2 and qs = ?qs and day = "usage_day 0" and n = 10]
    by (simp add: Let_def)
qed


subsection \<open>The hub's cache\<close>

text \<open>C30. After any calls the hub's cache holds at most its number of entries and bytes, its byte count is the
  sum of the sizes it recorded for just the keys it holds, and a hit answers the value last accepted
  under the key, not invalidated and not expired.\<close>

theorem hub_cache_sound:
  assumes "new_hub_cache x = Inr c0" and "\<forall>v n. hx_size_fn x v = Inr n \<longrightarrow> 0 \<le> n"
  shows "let c = hub_run calls c0 in
    int (length (hc_entries c)) \<le> hx_max_entries x \<and> hc_bytes c \<le> hx_max_bytes x
    \<and> hc_bytes c = sum_list (map snd (hc_sizes c)) \<and> set (map fst (hc_sizes c)) = set (map fst (hc_entries c))
    \<and> (\<forall>key now v. snd (hub_get key now c) = Some v \<longrightarrow>
         (\<exists>expires_at. hub_ref_run x calls key = Some (v, expires_at) \<and> (case expires_at of None \<Rightarrow> True | Some t \<Rightarrow> now < t)))"
proof -
  let ?c = "hub_run calls c0"
  note i = hub_run_inv [OF assms, of calls]
  have "\<exists>e. hub_ref_run x calls key = Some (v, e) \<and> (case e of None \<Rightarrow> True | Some t \<Rightarrow> now < t)"
    if h: "snd (hub_get key now ?c) = Some v" for key now v
  proof -
    from h obtain e where e: "map_of (hc_entries ?c) key = Some (v, e)" "\<not> expired e now"
      by (auto simp: hub_get_def Let_def split: option.splits if_splits)
    have "map_of (hc_entries ?c) \<subseteq>\<^sub>m hub_ref_run x calls" using i by (simp add: hub_inv_def)
    with e(1) have "hub_ref_run x calls key = Some (v, e)" unfolding map_le_def by (metis domI)
    with e(2) show ?thesis by (auto simp: expired_def split: option.splits)
  qed
  moreover have "int (length (hc_entries ?c)) \<le> hx_max_entries x \<and> hc_bytes ?c \<le> hx_max_bytes x"
    using i by (metis hub_limits_def)
  ultimately show ?thesis using i by (simp add: hub_inv_def size_sum_def Let_def)
qed

definition tiny_config :: "string hub_cache_config" where
  "tiny_config = \<lparr>hx_max_bytes = 10, hx_max_entries = 2, hx_max_entry_bytes = 4, hx_ttl = Some 100, hx_safety = 1,
     hx_size_fn = (\<lambda>v. Inr (int (length v)))\<rparr>"

definition tiny_cache :: "(string, string) hub_cache" where
  "tiny_cache = \<lparr>hc_config = tiny_config, hc_entries = [], hc_sizes = [], hc_bytes = 0, hc_hits = 0, hc_misses = 0, hc_evictions = 0, hc_stores = 0\<rparr>"

lemma new_tiny: "new_hub_cache tiny_config = Inr tiny_cache"
  by (simp add: new_hub_cache_def tiny_config_def tiny_cache_def)

theorem hub_cache_sound_witness:
  "let c = hub_run [HubPut ''a'' ''x'' None 0, HubPut ''b'' ''yy'' None 1, HubPut ''c'' ''zzz'' None 2] tiny_cache in
    int (length (hc_entries c)) \<le> 2 \<and> hc_bytes c = sum_list (map snd (hc_sizes c)) \<and> set (map fst (hc_sizes c)) = set (map fst (hc_entries c))"
  using hub_cache_sound [OF new_tiny, of "[HubPut ''a'' ''x'' None 0, HubPut ''b'' ''yy'' None 1, HubPut ''c'' ''zzz'' None 2]"]
  by (simp add: tiny_config_def Let_def)

text \<open>A refreshed value that is too large is not stored, and the value it was to replace stays.\<close>

lemma oversized_refresh_keeps_old:
  "let c = fst (hub_put ''k'' ''old'' None 0 tiny_cache);
       (c', u, ran, r) = hub_get_or_load ''k'' (\<lambda>u. (u, Inr ''new value'')) True None 1 1 c ()
   in r = Inr ''new value'' \<and> snd (hub_get ''k'' 2 c') = Some ''old''"
  by code_simp

text \<open>C28. One flight per key: when no caller forces, whatever the interleaving of the threads, at most one
  thread at a time is between becoming the leader for a key and finishing its flight, so at most one
  runs the key's loader.\<close>

theorem single_flight:
  assumes "reachable False c w" and "leads (hw_threads w t) = Some key" and "leads (hw_threads w t') = Some key"
  shows "t = t'"
  using reachable_ok [OF assms(1)] assms(2,3) unfolding flights_ok_def by blast

lemma reachable_start [simp]: "reachable forcing c (start_world c)"
  by (simp add: reachable_def)

lemma reachable_step: "reachable forcing c w \<Longrightarrow> flight_step forcing w w' \<Longrightarrow> reachable forcing c w'"
  unfolding reachable_def by (rule rtranclp.rtrancl_into_rtrancl)

text \<open>A thread alone becomes the leader of a missing key.\<close>

lemma becomes_leader:
  assumes "reachable forcing c w" and "hw_threads w t = Idle" and "map_of (hc_entries (hw_cache w)) key = None" and "hw_flights w key = None"
  shows "\<exists>w'. reachable forcing c w' \<and> hw_threads w' = (hw_threads w)(t := Loading key) \<and> hc_entries (hw_cache w') = hc_entries (hw_cache w)
    \<and> hw_flights w' = (hw_flights w)(key \<mapsto> hw_next w) \<and> hw_outcome w' = hw_outcome w"
proof -
  have 1: "reachable forcing c (at_phase t (Reading key False) w)"
    using assms(2) by (intro reachable_step [OF assms(1)] flight_step.enter) simp_all
  have g: "hub_get key 0 b = (b\<lparr>hc_misses := hc_misses b + 1\<rparr>, None)" if "hc_entries b = hc_entries (hw_cache w)" for b
    using that assms(3) by (simp add: hub_get_def)
  let ?b = "(hw_cache w)\<lparr>hc_misses := hc_misses (hw_cache w) + 1\<rparr>"
  let ?w2 = "at_phase t (Joining key) ((at_phase t (Reading key False) w)\<lparr>hw_cache := ?b\<rparr>)"
  have 2: "reachable forcing c ?w2"
    using g [of "hw_cache w"] by (intro reachable_step [OF 1] flight_step.miss [where now = 0]) simp_all
  have 3: "reachable forcing c (join_flight t key ?w2)"
    by (intro reachable_step [OF 2] flight_step.join) simp
  have j: "hw_threads (join_flight t key ?w2) = (hw_threads w)(t := Rechecking key)" "hw_flights (join_flight t key ?w2) = (hw_flights w)(key \<mapsto> hw_next w)"
    "hw_outcome (join_flight t key ?w2) = hw_outcome w" "hw_cache (join_flight t key ?w2) = ?b"
    using assms(4) by (simp_all add: join_flight_def)
  let ?w4 = "at_phase t (Loading key) ((join_flight t key ?w2)\<lparr>hw_cache := ?b\<lparr>hc_misses := hc_misses ?b + 1\<rparr>\<rparr>)"
  have "reachable forcing c ?w4"
    using g [of ?b] by (intro reachable_step [OF 3] flight_step.recheck_miss [where now = 0]) (simp_all add: j)
  then show ?thesis by (intro exI [of _ ?w4]) (simp add: j)
qed

theorem single_flight_witness:
  "\<exists>w. reachable False tiny_cache w \<and> leads (hw_threads w 0) = Some ''k'' \<and> (\<forall>t. leads (hw_threads w t) = Some ''k'' \<longrightarrow> 0 = t)"
proof -
  have "map_of (hc_entries (hw_cache (start_world tiny_cache))) ''k'' = None" by (simp add: start_world_def tiny_cache_def)
  with becomes_leader [OF reachable_start [of False tiny_cache], of 0 "''k''"] obtain w where
    w: "reachable False tiny_cache w" "hw_threads w = (hw_threads (start_world tiny_cache))(0 := Loading ''k'')"
    by (auto simp: start_world_def)
  then have l: "leads (hw_threads w 0) = Some ''k''" by simp
  with w(1) single_flight [OF w(1) l] show ?thesis by blast
qed

text \<open>C29. No waiter is forgotten: as long as the size function answers, a thread that waits for a flight either
  finds its outcome set or some thread is on its way to finish a flight of the key, forced callers
  included.\<close>

theorem no_waiter_forgotten:
  assumes "\<forall>v. \<exists>n. hx_size_fn (hc_config c) v = Inr n" and "reachable forcing c w" and "hw_threads w t = Waiting key f"
  shows "hw_outcome w f \<noteq> None \<or> (\<exists>t'. leads (hw_threads w t') = Some key)"
  using reachable_led [OF assms(1,2)] assms(3) unfolding flights_led_def by blast

lemma becomes_waiter:
  assumes "reachable forcing c w" and "hw_threads w t = Idle" and "map_of (hc_entries (hw_cache w)) key = None" and "hw_flights w key = Some f"
  shows "\<exists>w'. reachable forcing c w' \<and> hw_threads w' = (hw_threads w)(t := Waiting key f) \<and> hc_entries (hw_cache w') = hc_entries (hw_cache w)
    \<and> hw_flights w' = hw_flights w \<and> hw_outcome w' = hw_outcome w"
proof -
  have 1: "reachable forcing c (at_phase t (Reading key False) w)"
    using assms(2) by (intro reachable_step [OF assms(1)] flight_step.enter) simp_all
  let ?b = "(hw_cache w)\<lparr>hc_misses := hc_misses (hw_cache w) + 1\<rparr>"
  let ?w2 = "at_phase t (Joining key) ((at_phase t (Reading key False) w)\<lparr>hw_cache := ?b\<rparr>)"
  have 2: "reachable forcing c ?w2"
    using assms(3) by (intro reachable_step [OF 1] flight_step.miss [where now = 0]) (simp_all add: hub_get_def)
  have "reachable forcing c (join_flight t key ?w2)" by (intro reachable_step [OF 2] flight_step.join) simp
  then show ?thesis using assms(4) by (intro exI [of _ "join_flight t key ?w2"]) (simp add: join_flight_def)
qed

theorem no_waiter_forgotten_witness:
  "\<exists>w. reachable True tiny_cache w \<and> hw_threads w 1 = Waiting ''k'' 0 \<and> (hw_outcome w 0 \<noteq> None \<or> (\<exists>t. leads (hw_threads w t) = Some ''k''))"
proof -
  have sz: "\<forall>v. \<exists>n. hx_size_fn (hc_config tiny_cache) v = Inr n" by (simp add: tiny_cache_def tiny_config_def)
  have "map_of (hc_entries (hw_cache (start_world tiny_cache))) ''k'' = None" by (simp add: start_world_def tiny_cache_def)
  with becomes_leader [OF reachable_start [of True tiny_cache], of 0 "''k''"] obtain w where
    w: "reachable True tiny_cache w" "hw_threads w = (hw_threads (start_world tiny_cache))(0 := Loading ''k'')"
      "hc_entries (hw_cache w) = []" "hw_flights w = Map.empty(''k'' \<mapsto> 0)"
    by (auto simp: start_world_def tiny_cache_def)
  then obtain w' where "reachable True tiny_cache w'" "hw_threads w' 1 = Waiting ''k'' 0"
    using becomes_waiter [OF w(1), of 1 "''k''" 0] by (auto simp: start_world_def)
  with no_waiter_forgotten [OF sz this] show ?thesis by blast
qed

text \<open>
  A forced call finishes the flight of another thread: when its loader fails, the waiters of a leader
  that is still loading get its error, and the next caller loads beside that leader.
\<close>

lemma forced_failure_hits_waiters:
  fixes c :: "(string, 'v) hub_cache"
  assumes "hc_entries c = []"
  shows "\<exists>w. reachable True c w \<and> hw_threads w 0 = Loading ''k'' \<and> hw_threads w 1 = Returned (Inl SourceError) \<and> hw_threads w 3 = Loading ''k''"
proof -
  have "map_of (hc_entries (hw_cache (start_world c))) ''k'' = None" using assms by (simp add: start_world_def)
  with becomes_leader [OF reachable_start [of True c], of 0 "''k''"] obtain w1 where
    w1: "reachable True c w1" "hw_threads w1 = (\<lambda>t. Idle)(0 := Loading ''k'')" "hc_entries (hw_cache w1) = []"
      "hw_flights w1 = Map.empty(''k'' \<mapsto> 0)" "hw_outcome w1 = Map.empty"
    by (auto simp: start_world_def assms)
  obtain w2 where w2: "reachable True c w2" "hw_threads w2 = (\<lambda>t. Idle)(0 := Loading ''k'', 1 := Waiting ''k'' 0)" "hc_entries (hw_cache w2) = []"
      "hw_flights w2 = Map.empty(''k'' \<mapsto> 0)" "hw_outcome w2 = Map.empty"
    using becomes_waiter [OF w1(1), of 1 "''k''" 0] w1 by auto
  have "reachable True c (at_phase 2 (Reading ''k'' True) w2)"
    using w2(2) by (intro reachable_step [OF w2(1)] flight_step.enter) simp_all
  then have "reachable True c (at_phase 2 (Loading ''k'') (at_phase 2 (Reading ''k'' True) w2))"
    by (rule reachable_step) (rule flight_step.skip, simp)
  then have "reachable True c (at_phase 2 (Finishing ''k'' (Inl SourceError)) (at_phase 2 (Loading ''k'') (at_phase 2 (Reading ''k'' True) w2)))"
    by (rule reachable_step) (rule flight_step.failed, simp)
  then have "reachable True c (finish_flight 2 ''k'' (Inl SourceError)
      (at_phase 2 (Finishing ''k'' (Inl SourceError)) (at_phase 2 (Loading ''k'') (at_phase 2 (Reading ''k'' True) w2))))" (is "reachable True c ?w3")
    by (rule reachable_step) (rule flight_step.finish, simp)
  moreover have "hw_threads ?w3 = (\<lambda>t. Idle)(0 := Loading ''k'', 1 := Waiting ''k'' 0, 2 := Returned (Inl SourceError))"
    "hw_flights ?w3 = Map.empty" "hw_outcome ?w3 0 = Some (Inl SourceError)" "hc_entries (hw_cache ?w3) = []"
    using w2 by (simp_all add: finish_flight_def fun_upd_twist)
  ultimately obtain w3 where w3: "reachable True c w3" "hw_threads w3 = (\<lambda>t. Idle)(0 := Loading ''k'', 1 := Waiting ''k'' 0, 2 := Returned (Inl SourceError))"
    "hw_flights w3 = Map.empty" "hw_outcome w3 0 = Some (Inl SourceError)" "hc_entries (hw_cache w3) = []" by blast
  have "reachable True c (at_phase 1 (Returned (Inl SourceError)) w3)"
    using w3 by (intro reachable_step [OF w3(1)] flight_step.wake [of _ _ "''k''" 0]) simp_all
  from becomes_leader [OF this, of 3 "''k''"] w3(2,3,5) obtain w4 where "reachable True c w4"
    "hw_threads w4 = (hw_threads (at_phase 1 (Returned (Inl SourceError)) w3))(3 := Loading ''k'')" by auto
  then show ?thesis using w3(2) by (intro exI [of _ w4]) simp
qed

end
