(* ===== verification/Daily_Bar.thy ===== *)
theory Daily_Bar
  imports Complex_Main Registry_Sql Job_Triggers
begin

text \<open>
  The daily-bar writer (\<open>ingestion/daily_bar.py\<close>), the append-only insert it uses
  (\<open>storage/writers.py\<close>) and the point-in-time queries over what it wrote
  (\<open>storage/readers.py\<close>).  The table is the list of its rows in the order of insertion.  The hub's
  \<open>get_bars\<close> is an argument, called with the code and the two dates in ISO form; pandas' parser of
  texts is the argument \<open>parse\<close>.  What the database reads back of a written value is the argument
  \<open>stored\<close>; \<open>pg_stored\<close> is what PostgreSQL does with the column types of the dictionary
  (\<open>amount\<close> is a \<open>Numeric(24, 4)\<close>, the other fields are doubles).
\<close>

subsection \<open>Values\<close>

datatype cell = CNull | CNaN | CInf bool | CNum rat

text \<open>\<open>math.isclose(a, b, rel_tol=1e-9, abs_tol=1e-6)\<close>: NaN is close to nothing, not even to itself.\<close>

fun isclose :: "cell \<Rightarrow> cell \<Rightarrow> bool" where
  "isclose (CNum a) (CNum b) \<longleftrightarrow>
     a = b \<or> \<bar>b - a\<bar> \<le> \<bar>b / 1000000000\<bar> \<or> \<bar>b - a\<bar> \<le> \<bar>a / 1000000000\<bar> \<or> \<bar>b - a\<bar> \<le> 1 / 1000000"
| "isclose (CInf p) (CInf q) \<longleftrightarrow> p = q"
| "isclose _ _ \<longleftrightarrow> False"

definition same_cell :: "cell \<Rightarrow> cell \<Rightarrow> bool" where
  "same_cell left right = (if left = CNull \<and> right = CNull then True
     else if left = CNull \<or> right = CNull then False else isclose left right)"

record bar_values =
  bv_open :: cell
  bv_high :: cell
  bv_low :: cell
  bv_close :: cell
  bv_volume :: cell
  bv_amount :: cell

definition VALUE_FIELDS :: "(bar_values \<Rightarrow> cell) list" where
  "VALUE_FIELDS = [bv_open, bv_high, bv_low, bv_close, bv_volume, bv_amount]"

definition same_values :: "bar_values \<Rightarrow> bar_values \<Rightarrow> bool" where
  "same_values prior record \<longleftrightarrow> (\<forall>field \<in> set VALUE_FIELDS. same_cell (field prior) (field record))"

text \<open>Rounding half away from zero to four decimals, as \<open>Numeric\<close> does; doubles are kept.\<close>

definition round4 :: "rat \<Rightarrow> rat" where
  "round4 x = (if 0 \<le> x then of_int \<lfloor>x * 10000 + 1 / 2\<rfloor> / 10000 else - (of_int \<lfloor>- x * 10000 + 1 / 2\<rfloor> / 10000))"

fun numeric4 :: "cell \<Rightarrow> cell" where
  "numeric4 (CNum x) = CNum (round4 x)"
| "numeric4 c = c"

definition pg_stored :: "bar_values \<Rightarrow> bar_values" where
  "pg_stored v = v\<lparr>bv_amount := numeric4 (bv_amount v)\<rparr>"

subsection \<open>Rows\<close>

record bar_row =
  br_entity_id :: int
  br_trade_date :: date
  br_values :: bar_values
  br_publish_time :: "time option"
  br_ingest_time :: time
  br_provider :: string
  br_knowledge_time :: time
  br_version :: int

definition physical_key :: "bar_row \<Rightarrow> int \<times> date \<times> time \<times> int" where
  "physical_key r = (br_entity_id r, br_trade_date r, br_knowledge_time r, br_version r)"

definition version_order :: "bar_row \<Rightarrow> time \<times> int" where
  "version_order r = (br_knowledge_time r, br_version r)"

definition at_key :: "int \<times> date \<Rightarrow> bar_row \<Rightarrow> bool" where
  "at_key k r \<longleftrightarrow> (br_entity_id r, br_trade_date r) = k"

text \<open>\<open>append_rows\<close> with \<open>ON CONFLICT DO NOTHING\<close>: a row whose key is taken, also by an earlier row
  of the same statement, is skipped; the rows returned are counted.\<close>

fun append_rows :: "(bar_values \<Rightarrow> bar_values) \<Rightarrow> bar_row list \<Rightarrow> bar_row list \<Rightarrow> bar_row list \<times> nat" where
  "append_rows stored tbl [] = (tbl, 0)"
| "append_rows stored tbl (r # rows) =
     (if physical_key r \<in> physical_key ` set tbl then append_rows stored tbl rows
      else let (t, n) = append_rows stored (tbl @ [r\<lparr>br_values := stored (br_values r)\<rparr>]) rows in (t, Suc n))"

text \<open>\<open>_latest_rows\<close>: the dictionary of the newest row of every trade date of the window.\<close>

definition newer_row :: "(date \<rightharpoonup> bar_row) \<Rightarrow> bar_row \<Rightarrow> (date \<rightharpoonup> bar_row)" where
  "newer_row latest row =
     (case latest (br_trade_date row) of
        None \<Rightarrow> latest(br_trade_date row \<mapsto> row)
      | Some current \<Rightarrow> if version_order current < version_order row then latest(br_trade_date row \<mapsto> row) else latest)"

definition latest_rows :: "bar_row list \<Rightarrow> int \<Rightarrow> date \<Rightarrow> date \<Rightarrow> (date \<rightharpoonup> bar_row)" where
  "latest_rows tbl e start_day end_day =
     foldl newer_row Map.empty
       (filter (\<lambda>r. br_entity_id r = e \<and> start_day \<le> br_trade_date r \<and> br_trade_date r \<le> end_day) tbl)"

subsection \<open>The sync of one code\<close>

definition CLOSE_UTC :: int where "CLOSE_UTC = 7 * 3600 * us_per_second"

definition knowledge_time_of :: "date \<Rightarrow> time" where
  "knowledge_time_of trade_date = dt_combine trade_date CLOSE_UTC"

definition PROVIDERS :: "string list" where
  "PROVIDERS = [''tushare'', ''baostock'', ''wind'', ''akshare'', ''fuyao'']"

record bar_item =
  bi_date :: raw_value
  bi_values :: bar_values

record bar_frame =
  bf_source :: "string option"
  bf_items :: "bar_item list"

datatype sync_error = BadWindow | HubError exn | UnknownProvider string

record bar_request =
  sq_code :: string
  sq_start :: raw_value
  sq_end :: raw_value
  sq_source :: "string option"
  sq_entity_type :: string
  sq_name :: string
  sq_market :: string

record sync_result =
  sr_dataset :: string
  sr_code :: string
  sr_entity_id :: int
  sr_window_start :: date
  sr_window_end :: date
  sr_fetched :: nat
  sr_rows_written :: nat
  sr_provider :: string

record sync_db =
  sy_ref :: ref_tables
  sy_bars :: "bar_row list"

definition resolve_provider :: "bar_frame \<Rightarrow> string option \<Rightarrow> sync_error + string" where
  "resolve_provider frame source =
     (let raw = (case bf_source frame of Some s \<Rightarrow> s | None \<Rightarrow> (case source of Some s \<Rightarrow> s | None \<Rightarrow> ''''));
          provider = lower raw
      in if provider \<in> set PROVIDERS then Inr provider else Inl (UnknownProvider provider))"

text \<open>The body of the loop: the row to write for an item of the frame, if any.\<close>

definition sync_row ::
  "(string \<Rightarrow> time option) \<Rightarrow> (date \<rightharpoonup> bar_row) \<Rightarrow> int \<Rightarrow> string \<Rightarrow> time \<Rightarrow> bar_item \<Rightarrow> bar_row option" where
  "sync_row parse latest e provider now item =
     (case to_date parse (bi_date item) of
        None \<Rightarrow> None
      | Some trade_date \<Rightarrow>
          let record = \<lparr>br_entity_id = e, br_trade_date = trade_date, br_values = bi_values item,
                br_publish_time = None, br_ingest_time = now, br_provider = provider,
                br_knowledge_time = now, br_version = 1\<rparr>
          in (case latest trade_date of
                None \<Rightarrow> Some (record\<lparr>br_knowledge_time := knowledge_time_of trade_date, br_version := 1\<rparr>)
              | Some prior \<Rightarrow>
                  if same_values (br_values prior) (br_values record) then None
                  else Some (record\<lparr>br_knowledge_time := now, br_version := br_version prior + 1\<rparr>)))"

definition sync_rows ::
  "(string \<Rightarrow> time option) \<Rightarrow> bar_row list \<Rightarrow> int \<Rightarrow> date \<Rightarrow> date \<Rightarrow> string \<Rightarrow> time \<Rightarrow> bar_item list \<Rightarrow> bar_row list" where
  "sync_rows parse tbl e start_day end_day provider now items =
     List.map_filter (sync_row parse (latest_rows tbl e start_day end_day) e provider now) items"

definition entity_request_of :: "bar_request \<Rightarrow> entity_request" where
  "entity_request_of q = \<lparr>rq_code = sq_code q, rq_entity_type = sq_entity_type q, rq_name = sq_name q,
     rq_entity_class = None, rq_market = Some (sq_market q), rq_currency = None, rq_exchange = None\<rparr>"

text \<open>
  \<open>sync_daily_bar\<close>: the entity is committed before the hub is asked, so an error of the hub leaves
  it; \<open>now0\<close> is the clock \<open>ensure_entity\<close> reads, \<open>now\<close> the one of the write.
\<close>

definition sync_daily_bar ::
  "(string \<Rightarrow> time option) \<Rightarrow> (bar_values \<Rightarrow> bar_values)
     \<Rightarrow> (string list \<Rightarrow> string \<Rightarrow> string \<Rightarrow> string option \<Rightarrow> exn + bar_frame)
     \<Rightarrow> bar_request \<Rightarrow> time \<Rightarrow> time \<Rightarrow> sync_db \<Rightarrow> sync_db \<times> (sync_error + sync_result)" where
  "sync_daily_bar parse stored get_bars q now0 now db =
     (case (to_date parse (sq_start q), to_date parse (sq_end q)) of
        (Some window_start, Some window_end) \<Rightarrow>
          let (ref, entity) = ensure_entity (entity_request_of q) now0 (sy_ref db);
              db1 = db\<lparr>sy_ref := ref\<rparr>;
              e = er_entity_id entity
          in (case get_bars [sq_code q] (date_iso window_start) (date_iso window_end) (sq_source q) of
                Inl err \<Rightarrow> (db1, Inl (HubError err))
              | Inr frame \<Rightarrow>
                  (case resolve_provider frame (sq_source q) of
                     Inl err \<Rightarrow> (db1, Inl err)
                   | Inr provider \<Rightarrow>
                       let (bars, written) = append_rows stored (sy_bars db1)
                             (sync_rows parse (sy_bars db1) e window_start window_end provider now (bf_items frame))
                       in (db1\<lparr>sy_bars := bars\<rparr>,
                           Inr \<lparr>sr_dataset = DATASET, sr_code = sq_code q, sr_entity_id = e, sr_window_start = window_start,
                             sr_window_end = window_end, sr_fetched = length (bf_items frame), sr_rows_written = written,
                             sr_provider = provider\<rparr>)))
      | _ \<Rightarrow> (db, Inl BadWindow))"

text \<open>The runs of the job one after the other, each with the hub's answers and the clocks of its time.\<close>

record sync_call =
  sc_request :: bar_request
  sc_get_bars :: "string list \<Rightarrow> string \<Rightarrow> string \<Rightarrow> string option \<Rightarrow> exn + bar_frame"
  sc_now0 :: time
  sc_now :: time

definition sync_call_on :: "(string \<Rightarrow> time option) \<Rightarrow> (bar_values \<Rightarrow> bar_values) \<Rightarrow> sync_call \<Rightarrow> sync_db \<Rightarrow> sync_db" where
  "sync_call_on parse stored c db = fst (sync_daily_bar parse stored (sc_get_bars c) (sc_request c) (sc_now0 c) (sc_now c) db)"

definition sync_runs :: "(string \<Rightarrow> time option) \<Rightarrow> (bar_values \<Rightarrow> bar_values) \<Rightarrow> sync_call list \<Rightarrow> sync_db \<Rightarrow> sync_db" where
  "sync_runs parse stored calls db = foldl (\<lambda>s c. sync_call_on parse stored c s) db calls"

definition empty_sync_db :: sync_db where "empty_sync_db = \<lparr>sy_ref = empty_tables, sy_bars = []\<rparr>"

subsection \<open>Point-in-time queries\<close>

text \<open>\<open>row_number() ... = 1\<close>: of the rows a query keeps, the newest of every business key.\<close>

definition ranked_rows :: "bar_row list \<Rightarrow> bar_row list" where
  "ranked_rows rows =
     List.map_filter (\<lambda>k. max_by version_order (filter (at_key k) rows))
       (remdups (map (\<lambda>r. (br_entity_id r, br_trade_date r)) rows))"

definition as_of_query :: "time \<Rightarrow> (bar_row \<Rightarrow> bool) \<Rightarrow> bar_row list \<Rightarrow> bar_row list" where
  "as_of_query as_of keep tbl = ranked_rows (filter (\<lambda>r. br_knowledge_time r \<le> as_of \<and> keep r) tbl)"

definition latest_query :: "(bar_row \<Rightarrow> bool) \<Rightarrow> bar_row list \<Rightarrow> bar_row list" where
  "latest_query keep tbl = ranked_rows (filter keep tbl)"

subsection \<open>Lemmas\<close>

lemma max_by_snoc:
  "max_by f (xs @ [x]) = (case max_by f xs of None \<Rightarrow> Some x | Some m \<Rightarrow> Some (if f m < f x then x else m))"
  by (cases xs) simp_all

lemma newer_row_lookup:
  "newer_row m r d = (if d = br_trade_date r
     then (case m d of None \<Rightarrow> Some r | Some c \<Rightarrow> Some (if version_order c < version_order r then r else c)) else m d)"
  by (simp add: newer_row_def split: option.split)

lemma latest_rows_lookup:
  "latest_rows tbl e s t d = (if s \<le> d \<and> d \<le> t then max_by version_order (filter (at_key (e, d)) tbl) else None)"
proof (induction tbl rule: rev_induct)
  case Nil then show ?case by (simp add: latest_rows_def)
next
  case (snoc r tbl)
  define P :: "bar_row \<Rightarrow> bool" where "P = (\<lambda>r. br_entity_id r = e \<and> s \<le> br_trade_date r \<and> br_trade_date r \<le> t)"
  have step: "latest_rows (tbl @ [r]) e s t = (if P r then newer_row (latest_rows tbl e s t) r else latest_rows tbl e s t)"
    by (simp add: latest_rows_def P_def)
  show ?case
  proof (cases "P r \<and> br_trade_date r = d")
    case True
    then have "at_key (e, d) r" "s \<le> d \<and> d \<le> t" by (auto simp: P_def at_key_def)
    with True show ?thesis by (simp add: step newer_row_lookup snoc.IH max_by_snoc)
  next
    case False
    then have "latest_rows (tbl @ [r]) e s t d = latest_rows tbl e s t d" by (auto simp: step newer_row_lookup)
    moreover have "\<not> at_key (e, d) r" if "s \<le> d \<and> d \<le> t" using False that by (auto simp: P_def at_key_def)
    ultimately show ?thesis by (simp add: snoc.IH)
  qed
qed

lemma append_rows_filter:
  assumes "distinct (map br_trade_date rows)" and "\<forall>r\<in>set rows. br_entity_id r = e"
  shows "filter (at_key (e, d)) (fst (append_rows stored tbl rows)) = filter (at_key (e, d)) tbl
     @ (case find (\<lambda>r. br_trade_date r = d) rows of None \<Rightarrow> []
        | Some r \<Rightarrow> if physical_key r \<in> physical_key ` set tbl then [] else [r\<lparr>br_values := stored (br_values r)\<rparr>])"
  using assms
proof (induction rows arbitrary: tbl)
  case Nil then show ?case by simp
next
  case (Cons r rows)
  have e: "br_entity_id r = e" using Cons.prems(2) by simp
  have none: "find (\<lambda>r. br_trade_date r = d) rows = None" if "br_trade_date r = d"
  proof -
    have "br_trade_date r \<notin> br_trade_date ` set rows" using Cons.prems(1) by simp
    with that show ?thesis unfolding find_None_iff by blast
  qed
  define r' where "r' = r\<lparr>br_values := stored (br_values r)\<rparr>"
  have r': "physical_key r' = physical_key r" "at_key (e, d) r' = (br_trade_date r = d)"
    using e by (auto simp: r'_def physical_key_def at_key_def)
  have other: "physical_key x \<noteq> physical_key r" if "find (\<lambda>r. br_trade_date r = d) rows = Some x" for x
  proof -
    from that have "x \<in> set rows" by (auto simp: find_Some_iff)
    moreover have "br_trade_date r \<notin> br_trade_date ` set rows" using Cons.prems(1) by simp
    ultimately have "br_trade_date x \<noteq> br_trade_date r" by (metis imageI)
    then show ?thesis by (simp add: physical_key_def)
  qed
  show ?case
  proof (cases "physical_key r \<in> physical_key ` set tbl")
    case True
    with Cons.IH [of tbl] Cons.prems none show ?thesis by (simp split: option.split)
  next
    case False
    then have "fst (append_rows stored tbl (r # rows)) = fst (append_rows stored (tbl @ [r']) rows)"
      by (simp add: r'_def case_prod_unfold Let_def)
    moreover have "filter (at_key (e, d)) (fst (append_rows stored (tbl @ [r']) rows)) = filter (at_key (e, d)) tbl @
        (if br_trade_date r = d then [r'] else [])
        @ (case find (\<lambda>r. br_trade_date r = d) rows of None \<Rightarrow> []
           | Some x \<Rightarrow> if physical_key x \<in> physical_key ` set tbl then [] else [x\<lparr>br_values := stored (br_values x)\<rparr>])"
      using Cons.IH [of "tbl @ [r']"] Cons.prems other by (simp add: r' split: option.split)
    ultimately show ?thesis using False none by (simp add: r'_def split: option.split)
  qed
qed

lemma append_rows_extends:
  obtains new where "append_rows stored tbl rows = (tbl @ new, length new)"
    and "\<forall>x\<in>set new. \<exists>r\<in>set rows. x = r\<lparr>br_values := stored (br_values r)\<rparr>"
    and "distinct (map physical_key tbl) \<Longrightarrow> distinct (map physical_key (tbl @ new))"
    and "physical_key ` set rows \<subseteq> physical_key ` set (tbl @ new)"
proof -
  have "\<exists>new. append_rows stored tbl rows = (tbl @ new, length new)
    \<and> (\<forall>x\<in>set new. \<exists>r\<in>set rows. x = r\<lparr>br_values := stored (br_values r)\<rparr>)
    \<and> (distinct (map physical_key tbl) \<longrightarrow> distinct (map physical_key (tbl @ new)))
    \<and> physical_key ` set rows \<subseteq> physical_key ` set (tbl @ new)"
  proof (induction rows arbitrary: tbl)
    case Nil then show ?case by auto
  next
    case (Cons r rows)
    define r' where "r' = r\<lparr>br_values := stored (br_values r)\<rparr>"
    have k: "physical_key r' = physical_key r" by (simp add: r'_def physical_key_def)
    show ?case
    proof (cases "physical_key r \<in> physical_key ` set tbl")
      case True
      obtain new where n: "append_rows stored tbl rows = (tbl @ new, length new)"
        "\<forall>x\<in>set new. \<exists>r\<in>set rows. x = r\<lparr>br_values := stored (br_values r)\<rparr>"
        "distinct (map physical_key tbl) \<longrightarrow> distinct (map physical_key (tbl @ new))"
        "physical_key ` set rows \<subseteq> physical_key ` set (tbl @ new)" using Cons.IH [of tbl] by blast
      show ?thesis using True n by (intro exI [of _ new]) auto
    next
      case False
      obtain new where n: "append_rows stored (tbl @ [r']) rows = ((tbl @ [r']) @ new, length new)"
        "\<forall>x\<in>set new. \<exists>r\<in>set rows. x = r\<lparr>br_values := stored (br_values r)\<rparr>"
        "distinct (map physical_key (tbl @ [r'])) \<longrightarrow> distinct (map physical_key ((tbl @ [r']) @ new))"
        "physical_key ` set rows \<subseteq> physical_key ` set ((tbl @ [r']) @ new)" using Cons.IH [of "tbl @ [r']"] by blast
      have "distinct (map physical_key (tbl @ [r']))" if "distinct (map physical_key tbl)"
        using False that k by (auto simp: image_iff)
      moreover have "append_rows stored tbl (r # rows) = (tbl @ r' # new, length (r' # new))"
        using False n(1) by (simp add: r'_def)
      ultimately show ?thesis using n(2-4) k by (intro exI [of _ "r' # new"]) (auto simp: r'_def)
    qed
  qed
  with that show thesis by blast
qed

end
