(* ===== verification/Ingest_Properties.thy ===== *)
theory Ingest_Properties
  imports Daily_Bar
begin

text \<open>
  What the daily-bar writer promises: a repeated sync writes nothing and leaves the source's values
  as the newest version, the versions of a bar are numbered without gaps in the order of their
  knowledge times, and no later sync changes what an as-of query answered.
\<close>

subsection \<open>Lemmas\<close>

definition bar_dates :: "(string \<Rightarrow> time option) \<Rightarrow> bar_frame \<Rightarrow> date list" where
  "bar_dates parse frame = List.map_filter (\<lambda>item. to_date parse (bi_date item)) (bf_items frame)"

lemma ensure_entity_again: "ensure_entity q now' (fst (ensure_entity q now t)) = ensure_entity q now t"
proof (cases "max_by store_order (filter (\<lambda>r. er_code r = rq_code q) (ref_entity t))")
  case None
  then have "filter (\<lambda>r. er_code r = rq_code q) (ref_entity t) = []" by simp
  then show ?thesis by (simp add: ensure_entity_def new_entity_def Let_def)
next
  case (Some r) then show ?thesis by (simp add: ensure_entity_def)
qed

lemma append_rows_taken:
  "physical_key ` set rows \<subseteq> physical_key ` set tbl \<Longrightarrow> append_rows stored tbl rows = (tbl, 0)"
  by (induction rows) auto

lemma map_filter_Cons_eq: "List.map_filter f (x # xs) = (case f x of None \<Rightarrow> List.map_filter f xs | Some y \<Rightarrow> y # List.map_filter f xs)"
  by (simp split: option.split)

lemma set_map_filter_iff: "y \<in> set (List.map_filter f xs) \<longleftrightarrow> (\<exists>x\<in>set xs. f x = Some y)"
  by (induction xs) (auto split: option.splits)

lemma sync_row_Some:
  assumes "sync_row parse latest e provider now item = Some r"
  shows "to_date parse (bi_date item) = Some (br_trade_date r)" and "br_entity_id r = e" and "br_values r = bi_values item"
  using assms by (auto simp: sync_row_def Let_def split: option.splits if_splits)

lemma sync_rows_distinct:
  assumes "distinct (List.map_filter (\<lambda>item. to_date parse (bi_date item)) items)"
  shows "distinct (map br_trade_date (List.map_filter (sync_row parse latest e provider now) items))"
  using assms
proof (induction items)
  case Nil then show ?case by simp
next
  case (Cons x items)
  show ?case
  proof (cases "sync_row parse latest e provider now x")
    case None with Cons show ?thesis by (simp split: option.splits)
  next
    case (Some r)
    note d = sync_row_Some(1) [OF Some]
    have "br_trade_date r \<notin> br_trade_date ` set (List.map_filter (sync_row parse latest e provider now) items)"
    proof
      assume "br_trade_date r \<in> br_trade_date ` set (List.map_filter (sync_row parse latest e provider now) items)"
      then obtain r2 y where "y \<in> set items" "sync_row parse latest e provider now y = Some r2" "br_trade_date r2 = br_trade_date r"
        by (auto simp: set_map_filter_iff)
      with sync_row_Some(1) have "\<exists>y\<in>set items. to_date parse (bi_date y) = Some (br_trade_date r)" by metis
      then have "br_trade_date r \<in> set (List.map_filter (\<lambda>item. to_date parse (bi_date item)) items)"
        by (simp add: set_map_filter_iff)
      with Cons.prems d show False by simp
    qed
    with Cons Some d show ?thesis by simp
  qed
qed

lemma find_sync_row:
  assumes "distinct (List.map_filter (\<lambda>item. to_date parse (bi_date item)) items)"
    and "item \<in> set items" and "to_date parse (bi_date item) = Some d"
  shows "find (\<lambda>r. br_trade_date r = d) (List.map_filter (sync_row parse latest e provider now) items)
    = sync_row parse latest e provider now item"
  using assms
proof (induction items)
  case Nil then show ?case by simp
next
  case (Cons x items)
  show ?case
  proof (cases "x = item")
    case True
    have no: "d \<notin> set (List.map_filter (\<lambda>item. to_date parse (bi_date item)) items)" using Cons.prems True by simp
    have "find (\<lambda>r. br_trade_date r = d) (List.map_filter (sync_row parse latest e provider now) items) = None"
      using no sync_row_Some(1) unfolding find_None_iff by (fastforce simp: set_map_filter_iff)
    moreover have "br_trade_date r = d" if "sync_row parse latest e provider now item = Some r" for r
      using sync_row_Some(1) [OF that] Cons.prems(3) by simp
    ultimately show ?thesis using True by (simp split: option.split)
  next
    case False
    with Cons.prems(2) have "item \<in> set items" by simp
    then have "d \<in> set (List.map_filter (\<lambda>item. to_date parse (bi_date item)) items)"
      using Cons.prems(3) by (auto simp: set_map_filter_iff)
    then have "to_date parse (bi_date x) \<noteq> Some d" using Cons.prems(1) by (auto split: option.splits)
    then have "br_trade_date r \<noteq> d" if "sync_row parse latest e provider now x = Some r" for r
      using sync_row_Some(1) [OF that] by auto
    moreover have "distinct (List.map_filter (\<lambda>item. to_date parse (bi_date item)) items)"
      using Cons.prems(1) by (simp split: option.splits)
    ultimately show ?thesis using Cons.IH \<open>item \<in> set items\<close> Cons.prems(3) by (simp split: option.split)
  qed
qed

text \<open>One trade date of the table before and after the insert.\<close>

lemma day_after:
  assumes "distinct (List.map_filter (\<lambda>item. to_date parse (bi_date item)) items)"
    and "item \<in> set items" and "to_date parse (bi_date item) = Some d"
  shows "filter (at_key (e, d)) (fst (append_rows stored tbl (sync_rows parse tbl e s t provider now items)))
    = filter (at_key (e, d)) tbl @ (case sync_row parse (latest_rows tbl e s t) e provider now item of None \<Rightarrow> []
        | Some r \<Rightarrow> if physical_key r \<in> physical_key ` set tbl then [] else [r\<lparr>br_values := stored (br_values r)\<rparr>])"
proof -
  have "\<forall>r\<in>set (sync_rows parse tbl e s t provider now items). br_entity_id r = e"
    using sync_row_Some(2) by (auto simp: sync_rows_def set_map_filter_iff)
  from append_rows_filter [OF _ this, of d stored tbl] sync_rows_distinct [OF assms(1)] find_sync_row [OF assms]
  show ?thesis by (simp add: sync_rows_def)
qed

text \<open>The row \<open>sync_row\<close> answers for a date of the window, by what the table has for it.\<close>

lemma sync_row_window:
  assumes "to_date parse (bi_date item) = Some d" and "s \<le> d" "d \<le> t"
  shows "sync_row parse (latest_rows tbl e s t) e provider now item =
    (case max_by version_order (filter (at_key (e, d)) tbl) of
       None \<Rightarrow> Some \<lparr>br_entity_id = e, br_trade_date = d, br_values = bi_values item, br_publish_time = None,
                 br_ingest_time = now, br_provider = provider, br_knowledge_time = knowledge_time_of d, br_version = 1\<rparr>
     | Some p \<Rightarrow> if same_values (br_values p) (bi_values item) then None
         else Some \<lparr>br_entity_id = e, br_trade_date = d, br_values = bi_values item, br_publish_time = None,
                 br_ingest_time = now, br_provider = provider, br_knowledge_time = now, br_version = br_version p + 1\<rparr>)"
  using assms by (simp add: sync_row_def latest_rows_lookup Let_def split: option.split)

lemma sync_row_outside:
  assumes "to_date parse (bi_date item) = Some d" and "\<not> (s \<le> d \<and> d \<le> t)"
  shows "sync_row parse (latest_rows tbl e s t) e provider now item =
    Some \<lparr>br_entity_id = e, br_trade_date = d, br_values = bi_values item, br_publish_time = None,
          br_ingest_time = now, br_provider = provider, br_knowledge_time = knowledge_time_of d, br_version = 1\<rparr>"
proof -
  have "latest_rows tbl e s t d = None" using assms(2) by (auto simp: latest_rows_lookup)
  with assms(1) show ?thesis by (simp add: sync_row_def Let_def)
qed

lemma latest_after:
  assumes dist: "distinct (List.map_filter (\<lambda>item. to_date parse (bi_date item)) items)"
    and item: "item \<in> set items" "to_date parse (bi_date item) = Some d" "s \<le> d" "d \<le> t"
    and stable: "same_values (stored (bi_values item)) (bi_values item)"
    and past: "\<forall>r\<in>set tbl. br_entity_id r = e \<longrightarrow> br_knowledge_time r \<le> now"
  obtains r where "max_by version_order (filter (at_key (e, d))
      (fst (append_rows stored tbl (sync_rows parse tbl e s t provider now items)))) = Some r"
    and "same_values (br_values r) (bi_values item)"
proof -
  let ?old = "filter (at_key (e, d)) tbl"
  let ?now = "filter (at_key (e, d)) (fst (append_rows stored tbl (sync_rows parse tbl e s t provider now items)))"
  note day = day_after [OF dist item(1,2), of e stored tbl s t provider now] and row = sync_row_window [OF item(2,3,4), of tbl e provider now]
  show thesis
  proof (cases "max_by version_order ?old")
    case None
    then have "?old = []" by simp
    have "physical_key r \<notin> physical_key ` set tbl" if "at_key (e, d) r" for r
      using \<open>?old = []\<close> that by (auto simp: filter_empty_conv physical_key_def at_key_def)
    with day row None stable show thesis by (intro that) (auto simp: at_key_def)
  next
    case (Some p)
    show thesis
    proof (cases "same_values (br_values p) (bi_values item)")
      case True with day row Some show thesis by (intro that [of p]) simp_all
    next
      case False
      define r where "r = \<lparr>br_entity_id = e, br_trade_date = d, br_values = bi_values item, br_publish_time = None,
        br_ingest_time = now, br_provider = provider, br_knowledge_time = now, br_version = br_version p + 1\<rparr>"
      have less: "version_order x < version_order r" if "x \<in> set ?old" for x
      proof -
        have "version_order x \<le> version_order p" by (rule max_by_Some(2) [OF Some that])
        moreover have "p \<in> set ?old" by (rule max_by_Some(1) [OF Some])
        then have "br_knowledge_time p \<le> now" using past by (auto simp: at_key_def)
        then have "version_order p < version_order r" by (auto simp: version_order_def r_def less_prod_def')
        ultimately show ?thesis by simp
      qed
      have "physical_key r \<notin> physical_key ` set tbl"
      proof
        assume "physical_key r \<in> physical_key ` set tbl"
        then obtain x where x: "x \<in> set tbl" "physical_key x = physical_key r" by force
        then have "x \<in> set ?old" "version_order x = version_order r"
          by (auto simp: physical_key_def at_key_def version_order_def r_def)
        with less show False by force
      qed
      then have now: "?now = ?old @ [r\<lparr>br_values := stored (br_values r)\<rparr>]" using day row Some False by (simp add: r_def)
      have "max_by version_order ?now = Some (r\<lparr>br_values := stored (br_values r)\<rparr>)"
        unfolding now using less by (intro max_by_unique) (auto simp: version_order_def)
      then show thesis by (rule that) (simp add: r_def stable)
    qed
  qed
qed

lemma sync_ok:
  assumes "sync_daily_bar parse stored get_bars q now0 now db = (db1, Inr res)"
  obtains frame entity where "to_date parse (sq_start q) = Some (sr_window_start res)"
    and "to_date parse (sq_end q) = Some (sr_window_end res)"
    and "ensure_entity (entity_request_of q) now0 (sy_ref db) = (sy_ref db1, entity)" "er_entity_id entity = sr_entity_id res"
    and "get_bars [sq_code q] (date_iso (sr_window_start res)) (date_iso (sr_window_end res)) (sq_source q) = Inr frame"
    and "resolve_provider frame (sq_source q) = Inr (sr_provider res)"
    and "append_rows stored (sy_bars db) (sync_rows parse (sy_bars db) (sr_entity_id res) (sr_window_start res)
           (sr_window_end res) (sr_provider res) now (bf_items frame)) = (sy_bars db1, sr_rows_written res)"
    and "sr_dataset res = DATASET" "sr_code res = sq_code q" "sr_fetched res = length (bf_items frame)"
  using assms by (auto simp: sync_daily_bar_def case_prod_unfold Let_def prod_eq_iff split: option.splits sum.splits)

lemma sync_bars_cases:
  obtains (same) "sy_bars (fst (sync_daily_bar parse stored get_bars q now0 now db)) = sy_bars db"
  | (wrote) res frame where "sync_daily_bar parse stored get_bars q now0 now db
         = (fst (sync_daily_bar parse stored get_bars q now0 now db), Inr res)"
      "get_bars [sq_code q] (date_iso (sr_window_start res)) (date_iso (sr_window_end res)) (sq_source q) = Inr frame"
      "sy_bars (fst (sync_daily_bar parse stored get_bars q now0 now db)) = fst (append_rows stored (sy_bars db)
         (sync_rows parse (sy_bars db) (sr_entity_id res) (sr_window_start res) (sr_window_end res) (sr_provider res)
            now (bf_items frame)))"
proof (cases "snd (sync_daily_bar parse stored get_bars q now0 now db)")
  case (Inl err)
  then have "sy_bars (fst (sync_daily_bar parse stored get_bars q now0 now db)) = sy_bars db"
    by (auto simp: sync_daily_bar_def case_prod_unfold Let_def split: option.splits sum.splits)
  then show thesis by (rule same)
next
  case (Inr res)
  then have eq: "sync_daily_bar parse stored get_bars q now0 now db
      = (fst (sync_daily_bar parse stored get_bars q now0 now db), Inr res)" by (simp add: prod_eq_iff)
  show thesis
  proof (rule sync_ok [OF eq], rule wrote [OF eq])
    fix frame
    assume app: "append_rows stored (sy_bars db) (sync_rows parse (sy_bars db) (sr_entity_id res) (sr_window_start res)
           (sr_window_end res) (sr_provider res) now (bf_items frame))
        = (sy_bars (fst (sync_daily_bar parse stored get_bars q now0 now db)), sr_rows_written res)"
    show "sy_bars (fst (sync_daily_bar parse stored get_bars q now0 now db)) = fst (append_rows stored (sy_bars db)
         (sync_rows parse (sy_bars db) (sr_entity_id res) (sr_window_start res) (sr_window_end res) (sr_provider res)
            now (bf_items frame)))"
      unfolding app by simp
  qed
qed

subsection \<open>Repeating a sync\<close>

text \<open>C21. A sync repeated over the same source writes nothing and answers the same result with zero
  rows, and what the latest query then answers for every trade date of the window is close to the
  source's values.  It holds when the frame has a trade date once, when what the database reads back of
  a value is close to it (so no value is NaN), and when no version of the entity is from the future.\<close>

theorem sync_rerun_idempotent:
  assumes run: "sync_daily_bar parse stored get_bars q now0 now db = (db1, Inr res)"
    and frame: "get_bars [sq_code q] (date_iso (sr_window_start res)) (date_iso (sr_window_end res)) (sq_source q) = Inr frame"
    and dist: "distinct (bar_dates parse frame)"
    and stable: "\<forall>item\<in>set (bf_items frame). same_values (stored (bi_values item)) (bi_values item)"
    and past: "\<forall>r\<in>set (sy_bars db). br_entity_id r = sr_entity_id res \<longrightarrow> br_knowledge_time r \<le> now"
  shows "sync_daily_bar parse stored get_bars q now0' now' db1 = (db1, Inr (res\<lparr>sr_rows_written := 0\<rparr>))
    \<and> (\<forall>item\<in>set (bf_items frame). \<forall>d. to_date parse (bi_date item) = Some d
         \<longrightarrow> sr_window_start res \<le> d \<longrightarrow> d \<le> sr_window_end res
         \<longrightarrow> (\<exists>r\<in>set (latest_query (\<lambda>_. True) (sy_bars db1)). at_key (sr_entity_id res, d) r \<and> same_values (br_values r) (bi_values item)))"
proof (rule sync_ok [OF run])
  fix frame2 entity
  assume w: "to_date parse (sq_start q) = Some (sr_window_start res)" "to_date parse (sq_end q) = Some (sr_window_end res)"
    and ent: "ensure_entity (entity_request_of q) now0 (sy_ref db) = (sy_ref db1, entity)" "er_entity_id entity = sr_entity_id res"
    and f2: "get_bars [sq_code q] (date_iso (sr_window_start res)) (date_iso (sr_window_end res)) (sq_source q) = Inr frame2"
    and prov: "resolve_provider frame2 (sq_source q) = Inr (sr_provider res)"
    and app: "append_rows stored (sy_bars db) (sync_rows parse (sy_bars db) (sr_entity_id res) (sr_window_start res)
           (sr_window_end res) (sr_provider res) now (bf_items frame2)) = (sy_bars db1, sr_rows_written res)"
    and rest: "sr_dataset res = DATASET" "sr_code res = sq_code q" "sr_fetched res = length (bf_items frame2)"
  define e s t where "e = sr_entity_id res" and "s = sr_window_start res" and "t = sr_window_end res"
  have same: "frame2 = frame" using frame f2 by simp
  have dist': "distinct (List.map_filter (\<lambda>item. to_date parse (bi_date item)) (bf_items frame))"
    using dist by (simp add: bar_dates_def)
  let ?rows = "sync_rows parse (sy_bars db) e s t (sr_provider res) now (bf_items frame)"
  have bars: "sy_bars db1 = fst (append_rows stored (sy_bars db) ?rows)" using app same by (simp add: e_def s_def t_def)
  have latest: "\<exists>r. max_by version_order (filter (at_key (e, d)) (sy_bars db1)) = Some r \<and> same_values (br_values r) (bi_values item)"
    if "item \<in> set (bf_items frame)" "to_date parse (bi_date item) = Some d" "s \<le> d" "d \<le> t" for item d
  proof -
    have stable': "same_values (stored (bi_values item)) (bi_values item)" using stable that(1) by blast
    have past': "\<forall>r\<in>set (sy_bars db). br_entity_id r = e \<longrightarrow> br_knowledge_time r \<le> now" using past by (simp add: e_def)
    show ?thesis unfolding bars by (rule latest_after [OF dist' that, where stored = stored and provider = "sr_provider res", OF stable' past']) blast
  qed
  have taken: "physical_key ` set (sync_rows parse (sy_bars db1) e s t (sr_provider res) now' (bf_items frame))
      \<subseteq> physical_key ` set (sy_bars db1)"
  proof
    fix k assume "k \<in> physical_key ` set (sync_rows parse (sy_bars db1) e s t (sr_provider res) now' (bf_items frame))"
    then obtain item r where it: "item \<in> set (bf_items frame)"
      "sync_row parse (latest_rows (sy_bars db1) e s t) e (sr_provider res) now' item = Some r" "k = physical_key r"
      by (auto simp: sync_rows_def set_map_filter_iff)
    let ?d = "br_trade_date r"
    note d = sync_row_Some(1) [OF it(2)]
    show "k \<in> physical_key ` set (sy_bars db1)"
    proof (cases "s \<le> ?d \<and> ?d \<le> t")
      case True
      with latest [OF it(1) d] sync_row_window [OF d, of s t "sy_bars db1" e "sr_provider res" now'] it(2)
      show ?thesis by auto
    next
      case False
      note out = sync_row_outside [OF d False]
      from out [of "sy_bars db" e "sr_provider res" now] it(1) obtain r1 where
        "r1 \<in> set ?rows" "physical_key r1 = (e, ?d, knowledge_time_of ?d, 1)"
        by (force simp: sync_rows_def set_map_filter_iff physical_key_def)
      moreover have "physical_key r = (e, ?d, knowledge_time_of ?d, 1)"
      proof -
        have "map_option physical_key (sync_row parse (latest_rows (sy_bars db1) e s t) e (sr_provider res) now' item)
            = Some (e, ?d, knowledge_time_of ?d, 1)" unfolding out by (simp add: physical_key_def)
        with it(2) show ?thesis by simp
      qed
      moreover have "physical_key ` set ?rows \<subseteq> physical_key ` set (sy_bars db1)"
        unfolding bars by (rule append_rows_extends [of stored "sy_bars db" ?rows]) simp
      ultimately show ?thesis using it(3) by (metis image_eqI subset_iff)
    qed
  qed
  have "sync_daily_bar parse stored get_bars q now0' now' db1 = (db1, Inr (res\<lparr>sr_rows_written := 0\<rparr>))"
    using append_rows_taken [OF taken, of stored] ensure_entity_again [of "entity_request_of q" now0' now0 "sy_ref db"]
      w ent frame prov rest same by (simp add: sync_daily_bar_def e_def s_def t_def)
  moreover have "\<exists>r\<in>set (latest_query (\<lambda>_. True) (sy_bars db1)). at_key (e, d) r \<and> same_values (br_values r) (bi_values item)"
    if it: "item \<in> set (bf_items frame)" "to_date parse (bi_date item) = Some d" "s \<le> d" "d \<le> t" for item d
  proof -
    obtain r where r: "max_by version_order (filter (at_key (e, d)) (sy_bars db1)) = Some r"
      "same_values (br_values r) (bi_values item)" using latest [OF it] by blast
    then have "r \<in> set (sy_bars db1)" "at_key (e, d) r" using max_by_Some(1) by fastforce+
    with r show ?thesis by (intro bexI [of _ r]) (force simp: latest_query_def ranked_rows_def set_map_filter_iff at_key_def)+
  qed
  ultimately show ?thesis by (simp add: e_def s_def t_def)
qed

subsection \<open>The versions of a bar\<close>

definition numbered :: "bar_row list \<Rightarrow> bool" where
  "numbered xs \<longleftrightarrow> map br_version xs = map int [1..<Suc (length xs)] \<and> sorted (map br_knowledge_time xs)"

definition bars_numbered :: "time \<Rightarrow> bar_row list \<Rightarrow> bool" where
  "bars_numbered now tbl \<longleftrightarrow> distinct (map physical_key tbl) \<and> (\<forall>r\<in>set tbl. br_knowledge_time r \<le> now)
     \<and> (\<forall>k. numbered (filter (at_key k) tbl))"

text \<open>A sync is settled when the hub's frame has each trade date once, in the window and after its close.\<close>

definition settled_call :: "(string \<Rightarrow> time option) \<Rightarrow> sync_call \<Rightarrow> bool" where
  "settled_call parse c \<longleftrightarrow> (\<forall>s t frame. to_date parse (sq_start (sc_request c)) = Some s \<longrightarrow> to_date parse (sq_end (sc_request c)) = Some t
     \<longrightarrow> sc_get_bars c [sq_code (sc_request c)] (date_iso s) (date_iso t) (sq_source (sc_request c)) = Inr frame
     \<longrightarrow> distinct (bar_dates parse frame) \<and> (\<forall>d\<in>set (bar_dates parse frame). s \<le> d \<and> d \<le> t \<and> knowledge_time_of d \<le> sc_now c))"

lemma numbered_last:
  assumes "xs \<noteq> []" and "numbered xs"
  shows "max_by version_order xs = Some (last xs)" and "br_version (last xs) = int (length xs)"
proof -
  obtain ys x where xs: "xs = ys @ [x]" using assms(1) by (metis rev_exhaust)
  have v: "map br_version ys = map int [1..<Suc (length ys)]" "br_version x = int (Suc (length ys))"
    using assms(2) by (simp_all add: xs numbered_def)
  have less: "version_order y < version_order x" if "y \<in> set ys" for y
  proof -
    have "br_version y \<in> set (map int [1..<Suc (length ys)])" using that v(1) by (metis in_set_conv_nth length_map nth_map nth_mem)
    then have "br_version y < br_version x" using v(2) by auto
    moreover have "br_knowledge_time y \<le> br_knowledge_time x" using assms(2) that by (auto simp: xs numbered_def sorted_append)
    ultimately show ?thesis by (auto simp: version_order_def less_prod_def')
  qed
  have "max_by version_order (ys @ [x]) = Some x" using less by (intro max_by_unique) auto
  then show "max_by version_order xs = Some (last xs)" "br_version (last xs) = int (length xs)" using v(2) by (simp_all add: xs)
qed

lemma numbered_snoc:
  "numbered xs \<Longrightarrow> \<forall>y\<in>set xs. br_knowledge_time y \<le> br_knowledge_time x \<Longrightarrow> br_version x = int (Suc (length xs)) \<Longrightarrow> numbered (xs @ [x])"
  by (auto simp: numbered_def sorted_append)

lemma day_other:
  assumes "k \<notin> (\<lambda>d. (e, d)) ` set (List.map_filter (\<lambda>item. to_date parse (bi_date item)) items)"
  shows "filter (at_key k) (fst (append_rows stored tbl (sync_rows parse tbl e s t provider now items))) = filter (at_key k) tbl"
proof (rule append_rows_extends [of stored tbl "sync_rows parse tbl e s t provider now items"])
  fix new
  assume eq: "append_rows stored tbl (sync_rows parse tbl e s t provider now items) = (tbl @ new, length new)"
    and new: "\<forall>x\<in>set new. \<exists>r\<in>set (sync_rows parse tbl e s t provider now items). x = r\<lparr>br_values := stored (br_values r)\<rparr>"
  have "\<not> at_key k x" if xin: "x \<in> set new" for x
  proof -
    obtain r where "r \<in> set (sync_rows parse tbl e s t provider now items)" and x: "x = r\<lparr>br_values := stored (br_values r)\<rparr>"
      using bspec [OF new xin] by auto
    then obtain item where r: "item \<in> set items" "sync_row parse (latest_rows tbl e s t) e provider now item = Some r"
      by (auto simp: sync_rows_def set_map_filter_iff)
    note row = sync_row_Some(1,2) [OF r(2)]
    have "br_trade_date r \<in> set (List.map_filter (\<lambda>item. to_date parse (bi_date item)) items)"
      using row(1) r(1) by (auto simp: set_map_filter_iff)
    then have "k \<noteq> (e, br_trade_date r)" using assms by blast
    with row(2) show ?thesis by (auto simp: x at_key_def)
  qed
  then show ?thesis by (simp add: eq filter_empty_conv)
qed

lemma numbered_step:
  assumes inv: "bars_numbered n tbl" and "n \<le> now"
    and dist: "distinct (List.map_filter (\<lambda>item. to_date parse (bi_date item)) items)"
    and dates: "\<forall>d\<in>set (List.map_filter (\<lambda>item. to_date parse (bi_date item)) items). s \<le> d \<and> d \<le> t \<and> knowledge_time_of d \<le> now"
  shows "bars_numbered now (fst (append_rows stored tbl (sync_rows parse tbl e s t provider now items)))"
proof -
  let ?rows = "sync_rows parse tbl e s t provider now items" and ?tbl1 = "fst (append_rows stored tbl (sync_rows parse tbl e s t provider now items))"
  have past: "\<forall>r\<in>set tbl. br_knowledge_time r \<le> now" using inv assms(2) by (force simp: bars_numbered_def)
  have day: "numbered (filter (at_key k) ?tbl1) \<and> (\<forall>r\<in>set (filter (at_key k) ?tbl1). br_knowledge_time r \<le> now)" for k
  proof (cases "k \<in> (\<lambda>d. (e, d)) ` set (List.map_filter (\<lambda>item. to_date parse (bi_date item)) items)")
    case False
    have "numbered (filter (at_key k) tbl)" using inv unfolding bars_numbered_def by blast
    with day_other [OF False, of stored tbl s t provider now] past show ?thesis by simp
  next
    case True
    then obtain d where d: "k = (e, d)" "d \<in> set (List.map_filter (\<lambda>item. to_date parse (bi_date item)) items)" by blast
    then obtain item where item: "item \<in> set items" "to_date parse (bi_date item) = Some d" by (auto simp: set_map_filter_iff)
    have win: "s \<le> d" "d \<le> t" "knowledge_time_of d \<le> now" using dates d(2) by blast+
    note after = day_after [OF dist item, of e stored tbl s t provider now] and row = sync_row_window [OF item(2) win(1,2), of tbl e provider now]
    let ?old = "filter (at_key (e, d)) tbl"
    have old: "numbered ?old" using inv unfolding bars_numbered_def by blast
    have oldp: "\<forall>r\<in>set ?old. br_knowledge_time r \<le> now" using past by simp
    obtain new where new: "filter (at_key (e, d)) ?tbl1 = ?old @ new"
      "new = [] \<or> (\<exists>x. new = [x] \<and> br_version x = int (Suc (length ?old)) \<and> br_knowledge_time x \<le> now
          \<and> (\<forall>y\<in>set ?old. br_knowledge_time y \<le> br_knowledge_time x))"
    proof (cases "?old = []")
      case True
      then have "max_by version_order ?old = None" by simp
      with after row win(3) True show thesis by (intro that) (auto split: if_splits)
    next
      case False
      note last = numbered_last [OF False old]
      from oldp last after row show thesis
        by (cases "same_values (br_values (last ?old)) (bi_values item)"; intro that) (auto split: if_splits)
    qed
    from new(2) show ?thesis unfolding d(1) new(1) using old oldp numbered_snoc [OF old] by auto
  qed
  have "distinct (map physical_key ?tbl1)"
    using append_rows_extends [of stored tbl ?rows] inv by (metis bars_numbered_def fst_conv)
  moreover have "br_knowledge_time r \<le> now" if "r \<in> set ?tbl1" for r
    using day [of "(br_entity_id r, br_trade_date r)"] that by (auto simp: at_key_def)
  ultimately show ?thesis unfolding bars_numbered_def using day by blast
qed

lemma sync_call_numbered:
  assumes "bars_numbered n (sy_bars db)" and "n \<le> sc_now c" and "settled_call parse c"
  shows "bars_numbered (sc_now c) (sy_bars (sync_call_on parse stored c db))"
proof (cases rule: sync_bars_cases [of parse stored "sc_get_bars c" "sc_request c" "sc_now0 c" "sc_now c" db])
  case same
  with assms(1,2) show ?thesis by (force simp: sync_call_on_def bars_numbered_def)
next
  case (wrote res frame)
  obtain frame' where f: "to_date parse (sq_start (sc_request c)) = Some (sr_window_start res)"
    "to_date parse (sq_end (sc_request c)) = Some (sr_window_end res)"
    using sync_ok [OF wrote(1)] by metis
  with assms(3) wrote(2) have "distinct (bar_dates parse frame)" "\<forall>d\<in>set (bar_dates parse frame).
      sr_window_start res \<le> d \<and> d \<le> sr_window_end res \<and> knowledge_time_of d \<le> sc_now c"
    unfolding settled_call_def by blast+
  then show ?thesis unfolding sync_call_on_def wrote(3) bar_dates_def by (rule numbered_step [OF assms(1,2)])
qed

lemma sync_runs_numbered:
  assumes "bars_numbered n (sy_bars db)" and "sorted (n # map sc_now calls)" and "\<forall>c\<in>set calls. settled_call parse c"
  shows "\<exists>n'. bars_numbered n' (sy_bars (sync_runs parse stored calls db))"
  using assms
proof (induction calls arbitrary: n db)
  case Nil then show ?case by (auto simp: sync_runs_def)
next
  case (Cons c calls)
  have "bars_numbered (sc_now c) (sy_bars (sync_call_on parse stored c db))"
    using Cons.prems by (intro sync_call_numbered) auto
  from Cons.IH [OF this] Cons.prems show ?case by (simp add: sync_runs_def)
qed


lemma ranked_rows_iff:
  "r \<in> set (ranked_rows rows) \<longleftrightarrow> max_by version_order (filter (at_key (br_entity_id r, br_trade_date r)) rows) = Some r"
proof -
  have "r \<in> set rows \<and> k = (br_entity_id r, br_trade_date r)" if "max_by version_order (filter (at_key k) rows) = Some r" for k
    using max_by_Some(1) [OF that] by (simp add: at_key_def)
  then show ?thesis by (fastforce simp: ranked_rows_def set_map_filter_iff)
qed

lemma ranked_rows_key:
  assumes "max_by version_order (filter (at_key k) rows) = Some r"
  shows "filter (at_key k) (ranked_rows rows) = [r]"
proof -
  define f where "f = (\<lambda>k. max_by version_order (filter (at_key k) rows))"
  have at: "at_key k' x \<longleftrightarrow> k' = k''" if "f k'' = Some x" for k' k'' x
    using max_by_Some(1) [OF that [unfolded f_def]] by (auto simp: at_key_def)
  have gen: "filter (at_key k) (List.map_filter f ks) = (if k \<in> set ks then [r] else [])" if "distinct ks" for ks
    using that
  proof (induction ks)
    case Nil then show ?case by simp
  next
    case (Cons x ks)
    have r: "f k = Some r" using assms by (simp add: f_def)
    show ?case
    proof (cases "f x")
      case None with Cons r have "x \<noteq> k" by auto
      with None Cons show ?thesis by simp
    next
      case (Some y)
      show ?thesis
      proof (cases "x = k")
        case True with Some r Cons at [OF r, of k] show ?thesis by simp
      next
        case False with Some Cons at [OF Some, of k] show ?thesis by simp
      qed
    qed
  qed
  have "k \<in> set (map (\<lambda>r. (br_entity_id r, br_trade_date r)) rows)"
    using max_by_Some(1) [OF assms] by (force simp: at_key_def)
  then have "k \<in> set (remdups (map (\<lambda>r. (br_entity_id r, br_trade_date r)) rows))" by simp
  with gen [of "remdups (map (\<lambda>r. (br_entity_id r, br_trade_date r)) rows)"] show ?thesis
    unfolding ranked_rows_def f_def by simp
qed

text \<open>C22. After any runs of the task, each at a later clock than the one before and after the close of
  the days it fetches, the physical keys are unique, the versions of every bar are 1, 2, ... in the
  order of insertion and of their knowledge times, and the latest query answers the one written last.\<close>

theorem bar_versions_numbered:
  assumes "sorted (map sc_now calls)" and "\<forall>c\<in>set calls. settled_call parse c"
    and "tbl = sy_bars (sync_runs parse stored calls empty_sync_db)" and "bar = filter (at_key k) tbl"
  shows "distinct (map physical_key tbl) \<and> map br_version bar = map int [1..<Suc (length bar)]
    \<and> sorted (map br_knowledge_time bar)
    \<and> (bar \<noteq> [] \<longrightarrow> filter (at_key k) (latest_query (\<lambda>_. True) tbl) = [last bar])"
proof -
  let ?n = "case calls of [] \<Rightarrow> 0 | c # _ \<Rightarrow> sc_now c"
  have "bars_numbered ?n (sy_bars empty_sync_db)" by (simp add: bars_numbered_def empty_sync_db_def numbered_def)
  moreover have "sorted (?n # map sc_now calls)" using assms(1) by (cases calls) auto
  ultimately obtain n where inv: "bars_numbered n tbl"
    using sync_runs_numbered [of ?n empty_sync_db calls parse stored] assms(2,3) by blast
  then have bar: "numbered bar" unfolding bars_numbered_def assms(4) by blast
  have "filter (at_key k) (latest_query (\<lambda>_. True) tbl) = [last bar]" if "bar \<noteq> []"
    using numbered_last(1) [OF that bar] unfolding assms(4) by (simp add: latest_query_def ranked_rows_key)
  with inv bar show ?thesis unfolding bars_numbered_def numbered_def by blast
qed

subsection \<open>As-of queries\<close>

definition first_kept :: "bar_row list \<Rightarrow> bool" where
  "first_kept tbl \<longleftrightarrow> distinct (map physical_key tbl)
     \<and> (\<forall>r\<in>set tbl. (br_entity_id r, br_trade_date r, knowledge_time_of (br_trade_date r), 1) \<in> physical_key ` set tbl)"

lemma sync_row_kinds:
  assumes "sync_row parse (latest_rows tbl e s t) e provider now item = Some r"
  shows "physical_key r = (e, br_trade_date r, knowledge_time_of (br_trade_date r), 1)
    \<or> br_knowledge_time r = now \<and> (\<exists>p\<in>set tbl. at_key (e, br_trade_date r) p)"
proof (cases "latest_rows tbl e s t (br_trade_date r)")
  case None
  with sync_row_Some(1) [OF assms] have "map_option physical_key (sync_row parse (latest_rows tbl e s t) e provider now item)
      = Some (e, br_trade_date r, knowledge_time_of (br_trade_date r), 1)" by (simp add: sync_row_def physical_key_def)
  with assms show ?thesis by simp
next
  case (Some p)
  then have "max_by version_order (filter (at_key (e, br_trade_date r)) tbl) = Some p" by (simp add: latest_rows_lookup split: if_splits)
  then have "p \<in> set tbl \<and> at_key (e, br_trade_date r) p" using max_by_Some(1) by fastforce
  moreover have "sync_row parse (latest_rows tbl e s t) e provider now item = None
      \<or> map_option br_knowledge_time (sync_row parse (latest_rows tbl e s t) e provider now item) = Some now"
    using Some sync_row_Some(1) [OF assms] by (simp add: sync_row_def Let_def)
  ultimately show ?thesis using assms by auto
qed

text \<open>A row a run adds is stamped with the clock of the run, or it is the first version of a bar
  the table did not have, which is known since the close of its day.\<close>

definition late_or_first :: "time \<Rightarrow> bar_row list \<Rightarrow> bar_row \<Rightarrow> bool" where
  "late_or_first now tbl x \<longleftrightarrow> br_knowledge_time x = now
     \<or> br_version x = 1 \<and> br_knowledge_time x = knowledge_time_of (br_trade_date x)
       \<and> (\<forall>p\<in>set tbl. (br_entity_id p, br_trade_date p) \<noteq> (br_entity_id x, br_trade_date x))"

lemma first_kept_step:
  assumes "first_kept tbl"
  obtains new where "fst (append_rows stored tbl (sync_rows parse tbl e s t provider now items)) = tbl @ new"
    and "first_kept (tbl @ new)"
    and "\<forall>x\<in>set new. late_or_first now tbl x"
proof (rule append_rows_extends [of stored tbl "sync_rows parse tbl e s t provider now items"])
  fix new
  assume eq: "append_rows stored tbl (sync_rows parse tbl e s t provider now items) = (tbl @ new, length new)"
    and new: "\<forall>x\<in>set new. \<exists>r\<in>set (sync_rows parse tbl e s t provider now items). x = r\<lparr>br_values := stored (br_values r)\<rparr>"
    and dist: "distinct (map physical_key tbl) \<Longrightarrow> distinct (map physical_key (tbl @ new))"
  have distinct: "distinct (map physical_key (tbl @ new))" using dist assms by (simp add: first_kept_def)
  have kinds: "physical_key x = (br_entity_id x, br_trade_date x, knowledge_time_of (br_trade_date x), 1)
      \<or> br_knowledge_time x = now \<and> (\<exists>p\<in>set tbl. at_key (br_entity_id x, br_trade_date x) p)" if xin: "x \<in> set new" for x
  proof -
    obtain r where "r \<in> set (sync_rows parse tbl e s t provider now items)" and x: "x = r\<lparr>br_values := stored (br_values r)\<rparr>"
      using bspec [OF new xin] by auto
    then obtain item where r: "sync_row parse (latest_rows tbl e s t) e provider now item = Some r"
      by (auto simp: sync_rows_def set_map_filter_iff)
    from sync_row_kinds [OF r] sync_row_Some(2) [OF r] show ?thesis by (simp add: x physical_key_def)
  qed
  have first: "(br_entity_id p, br_trade_date p, knowledge_time_of (br_trade_date p), 1) \<in> physical_key ` set tbl" if "p \<in> set tbl" for p
    using assms that by (simp add: first_kept_def)
  have "(br_entity_id x, br_trade_date x, knowledge_time_of (br_trade_date x), 1) \<in> physical_key ` set (tbl @ new)"
    if xin: "x \<in> set (tbl @ new)" for x
  proof (cases "x \<in> set tbl")
    case True with first show ?thesis by auto
  next
    case False
    with xin have xn: "x \<in> set new" by simp
    from kinds [OF xn] show ?thesis
    proof
      assume "physical_key x = (br_entity_id x, br_trade_date x, knowledge_time_of (br_trade_date x), 1)"
      with xn show ?thesis by (metis Un_iff image_eqI set_append)
    next
      assume "br_knowledge_time x = now \<and> (\<exists>p\<in>set tbl. at_key (br_entity_id x, br_trade_date x) p)"
      then obtain p where "p \<in> set tbl" "br_entity_id p = br_entity_id x" "br_trade_date p = br_trade_date x" by (auto simp: at_key_def)
      with first [of p] show ?thesis by auto
    qed
  qed
  with distinct have kept: "first_kept (tbl @ new)" by (simp add: first_kept_def)
  have "br_knowledge_time x = now" if xin: "x \<in> set new" and p: "p \<in> set tbl" "at_key (br_entity_id p, br_trade_date p) x" for x p
  proof -
    have "physical_key x \<notin> physical_key ` set tbl" using distinct xin by auto
    moreover have "(br_entity_id x, br_trade_date x, knowledge_time_of (br_trade_date x), 1) \<in> physical_key ` set tbl"
      using first [OF p(1)] p(2) by (simp add: at_key_def)
    ultimately show ?thesis using kinds [OF xin] by auto
  qed
  then have "late_or_first now tbl x" if "x \<in> set new" for x
    using kinds [OF that] that by (auto simp: late_or_first_def at_key_def physical_key_def)
  with eq kept show thesis by (intro that [of new]) auto
qed

lemma sync_call_first_kept:
  assumes "first_kept (sy_bars db)"
  obtains new where "sy_bars (sync_call_on parse stored c db) = sy_bars db @ new" and "first_kept (sy_bars db @ new)"
    and "\<forall>x\<in>set new. late_or_first (sc_now c) (sy_bars db) x"
proof (cases rule: sync_bars_cases [of parse stored "sc_get_bars c" "sc_request c" "sc_now0 c" "sc_now c" db])
  case same then show thesis using assms by (intro that [of "[]"]) (simp_all add: sync_call_on_def)
next
  case (wrote res frame)
  show thesis by (rule first_kept_step [OF assms]) (rule that, auto simp: sync_call_on_def wrote(3))
qed

lemma sync_runs_first_kept: "first_kept (sy_bars db) \<Longrightarrow> first_kept (sy_bars (sync_runs parse stored calls db))"
proof (induction calls arbitrary: db)
  case Nil then show ?case by (simp add: sync_runs_def)
next
  case (Cons c calls)
  obtain new where "sy_bars (sync_call_on parse stored c db) = sy_bars db @ new" "first_kept (sy_bars db @ new)"
    by (rule sync_call_first_kept [OF Cons.prems])
  with Cons.IH [of "sync_call_on parse stored c db"] show ?case by (simp add: sync_runs_def)
qed

lemma late_runs_first:
  assumes "first_kept (sy_bars db)" and "\<forall>c\<in>set later. as_of < sc_now c"
  shows "\<exists>new. sy_bars (sync_runs parse stored later db) = sy_bars db @ new
    \<and> (\<forall>x\<in>set new. br_knowledge_time x \<le> as_of \<longrightarrow> br_version x = 1 \<and> br_knowledge_time x = knowledge_time_of (br_trade_date x)
         \<and> (\<forall>p\<in>set (sy_bars db). (br_entity_id p, br_trade_date p) \<noteq> (br_entity_id x, br_trade_date x)))"
  using assms
proof (induction later arbitrary: db)
  case Nil then show ?case by (simp add: sync_runs_def)
next
  case (Cons c later)
  let ?db = "sync_call_on parse stored c db"
  obtain new where new: "sy_bars ?db = sy_bars db @ new" "first_kept (sy_bars db @ new)"
    "\<forall>x\<in>set new. late_or_first (sc_now c) (sy_bars db) x"
    by (rule sync_call_first_kept [OF Cons.prems(1)])
  obtain new' where new': "sy_bars (sync_runs parse stored later ?db) = sy_bars ?db @ new'"
    "\<forall>x\<in>set new'. br_knowledge_time x \<le> as_of \<longrightarrow> br_version x = 1 \<and> br_knowledge_time x = knowledge_time_of (br_trade_date x)
       \<and> (\<forall>p\<in>set (sy_bars ?db). (br_entity_id p, br_trade_date p) \<noteq> (br_entity_id x, br_trade_date x))"
    using Cons.IH [of ?db] new(1,2) Cons.prems(2) by auto
  have "sc_now c \<noteq> br_knowledge_time x" if "br_knowledge_time x \<le> as_of" for x using that Cons.prems(2) by auto
  with new(3) new'(2) have "\<forall>x\<in>set (new @ new'). br_knowledge_time x \<le> as_of \<longrightarrow> br_version x = 1
      \<and> br_knowledge_time x = knowledge_time_of (br_trade_date x)
      \<and> (\<forall>p\<in>set (sy_bars db). (br_entity_id p, br_trade_date p) \<noteq> (br_entity_id x, br_trade_date x))"
    unfolding late_or_first_def new(1) by (metis Un_iff set_append)
  moreover have "sy_bars (sync_runs parse stored (c # later) db) = sy_bars db @ (new @ new')"
    using new(1) new'(1) by (simp add: sync_runs_def)
  ultimately show ?case by blast
qed

lemma ranked_rows_at:
  "filter (at_key k) (ranked_rows rows) = (case max_by version_order (filter (at_key k) rows) of None \<Rightarrow> [] | Some r \<Rightarrow> [r])"
proof (cases "max_by version_order (filter (at_key k) rows)")
  case None
  have "\<not> at_key k r" if "r \<in> set (ranked_rows rows)" for r
    using that None max_by_Some(1) [of version_order "filter (at_key k) rows" r]
    by (auto simp: ranked_rows_iff at_key_def)
  then show ?thesis by (simp add: None filter_empty_conv)
qed (simp add: ranked_rows_key)

text \<open>C23. For a bar the table has a row of, an as-of query answers the same for ever, under any filter:
  later runs of the task, all at clocks after the query's time, only append, and a row they append
  with a knowledge time the query reaches is the first version of a bar the table had no row of (it
  is known since the close of its day, so a query of the past can gain such bars).\<close>

theorem as_of_never_changes:
  assumes "db = sync_runs parse stored calls empty_sync_db" and "\<forall>c\<in>set later. as_of < sc_now c"
  shows "\<exists>new. sy_bars (sync_runs parse stored later db) = sy_bars db @ new
    \<and> (\<forall>x\<in>set new. br_knowledge_time x \<le> as_of \<longrightarrow> br_version x = 1 \<and> br_knowledge_time x = knowledge_time_of (br_trade_date x)
         \<and> (\<forall>p\<in>set (sy_bars db). (br_entity_id p, br_trade_date p) \<noteq> (br_entity_id x, br_trade_date x)))
    \<and> (\<forall>k p. p \<in> set (sy_bars db) \<and> at_key k p \<longrightarrow>
         filter (at_key k) (as_of_query as_of keep (sy_bars db @ new)) = filter (at_key k) (as_of_query as_of keep (sy_bars db)))"
proof -
  have "first_kept (sy_bars empty_sync_db)" by (simp add: first_kept_def empty_sync_db_def)
  then have "first_kept (sy_bars db)" unfolding assms(1) by (rule sync_runs_first_kept)
  then obtain new where new: "sy_bars (sync_runs parse stored later db) = sy_bars db @ new"
    "\<forall>x\<in>set new. br_knowledge_time x \<le> as_of \<longrightarrow> br_version x = 1 \<and> br_knowledge_time x = knowledge_time_of (br_trade_date x)
       \<and> (\<forall>p\<in>set (sy_bars db). (br_entity_id p, br_trade_date p) \<noteq> (br_entity_id x, br_trade_date x))"
    using late_runs_first assms(2) by blast
  have "filter (at_key k) (as_of_query as_of keep (sy_bars db @ new)) = filter (at_key k) (as_of_query as_of keep (sy_bars db))"
    if p: "p \<in> set (sy_bars db)" "at_key k p" for k p
  proof -
    have "\<not> at_key k x" if "x \<in> set new" "br_knowledge_time x \<le> as_of" for x
      using new(2) that p unfolding at_key_def by metis
    then have "filter (at_key k) (filter (\<lambda>r. br_knowledge_time r \<le> as_of \<and> keep r) new) = []"
      by (auto simp: filter_empty_conv)
    then show ?thesis by (simp add: as_of_query_def ranked_rows_at)
  qed
  with new show ?thesis by blast
qed

subsection \<open>A demonstration\<close>

definition demo_day :: date where "demo_day = 739869"

definition demo_values :: "rat \<Rightarrow> bar_values" where
  "demo_values c = \<lparr>bv_open = CNum c, bv_high = CNum c, bv_low = CNum c, bv_close = CNum c, bv_volume = CNum 100, bv_amount = CNull\<rparr>"

definition demo_hub :: "bar_values \<Rightarrow> string list \<Rightarrow> string \<Rightarrow> string \<Rightarrow> string option \<Rightarrow> exn + bar_frame" where
  "demo_hub v codes s t src = Inr \<lparr>bf_source = Some ''akshare'', bf_items = [\<lparr>bi_date = RawDate demo_day, bi_values = v\<rparr>]\<rparr>"

definition demo_request :: bar_request where
  "demo_request = \<lparr>sq_code = ''600519.SH'', sq_start = RawDate demo_day, sq_end = RawDate demo_day, sq_source = None,
     sq_entity_type = ''equity'', sq_name = '''', sq_market = ''cn''\<rparr>"

definition demo_run :: "bar_values \<Rightarrow> int \<Rightarrow> sync_call" where
  "demo_run v hour = \<lparr>sc_request = demo_request, sc_get_bars = demo_hub v, sc_now0 = dt_combine demo_day (hour * 3600 * us_per_second),
     sc_now = dt_combine demo_day (hour * 3600 * us_per_second)\<rparr>"

text \<open>The closing prices and versions of a table.\<close>

definition versions_of :: "bar_row list \<Rightarrow> (cell \<times> int) list" where
  "versions_of rows = map (\<lambda>r. (bv_close (br_values r), br_version r)) rows"



text \<open>One run of the demonstration on tables where the code has its id.\<close>

definition demo_rows :: "bar_values \<Rightarrow> time \<Rightarrow> bar_row list \<Rightarrow> bar_row list" where
  "demo_rows v now tbl =
    (case max_by version_order (filter (at_key (10001, demo_day)) tbl) of
       None \<Rightarrow> [\<lparr>br_entity_id = 10001, br_trade_date = demo_day, br_values = v, br_publish_time = None,
                 br_ingest_time = now, br_provider = ''akshare'', br_knowledge_time = knowledge_time_of demo_day, br_version = 1\<rparr>]
     | Some p \<Rightarrow> if same_values (br_values p) v then []
         else [\<lparr>br_entity_id = 10001, br_trade_date = demo_day, br_values = v, br_publish_time = None,
                 br_ingest_time = now, br_provider = ''akshare'', br_knowledge_time = now, br_version = br_version p + 1\<rparr>])"

definition demo_tables :: "ref_tables \<Rightarrow> bool" where
  "demo_tables t \<longleftrightarrow> t = empty_tables \<or> (\<exists>n. t = fst (ensure_entity (entity_request_of demo_request) n empty_tables))"

lemma demo_provider: "resolve_provider \<lparr>bf_source = Some ''akshare'', bf_items = items\<rparr> None = Inr ''akshare''"
proof -
  have "lower ''akshare'' = ''akshare''" by code_simp
  then show ?thesis by (simp add: resolve_provider_def PROVIDERS_def)
qed

lemma demo_entity:
  assumes "demo_tables t"
  obtains r e where "ensure_entity (entity_request_of demo_request) n t = (r, e)" "er_entity_id e = 10001" "demo_tables r"
proof -
  obtain m where "ensure_entity (entity_request_of demo_request) n t = ensure_entity (entity_request_of demo_request) m empty_tables"
    using assms ensure_entity_again unfolding demo_tables_def by metis
  moreover have "er_entity_id (snd (ensure_entity (entity_request_of demo_request) m empty_tables)) = 10001"
    by (simp add: ensure_entity_def new_entity_def empty_tables_def Let_def)
  ultimately show thesis using that demo_tables_def by (metis prod.collapse)
qed

lemma demo_sync:
  assumes "demo_tables t"
  obtains r where "sync_daily_bar (\<lambda>_. None) stored (demo_hub v) demo_request n0 now \<lparr>sy_ref = t, sy_bars = tbl\<rparr>
      = (\<lparr>sy_ref = r, sy_bars = fst (append_rows stored tbl (demo_rows v now tbl))\<rparr>,
         Inr \<lparr>sr_dataset = DATASET, sr_code = ''600519.SH'', sr_entity_id = 10001, sr_window_start = demo_day, sr_window_end = demo_day,
           sr_fetched = 1, sr_rows_written = snd (append_rows stored tbl (demo_rows v now tbl)), sr_provider = ''akshare''\<rparr>)"
    and "demo_tables r"
proof -
  obtain r e where e: "ensure_entity (entity_request_of demo_request) n0 t = (r, e)" "er_entity_id e = 10001" "demo_tables r"
    by (rule demo_entity [OF assms])
  have "sync_rows (\<lambda>_. None) tbl 10001 demo_day demo_day ''akshare'' now [\<lparr>bi_date = RawDate demo_day, bi_values = v\<rparr>] = demo_rows v now tbl"
    using sync_row_window [of "\<lambda>_. None" "\<lparr>bi_date = RawDate demo_day, bi_values = v\<rparr>" demo_day demo_day demo_day tbl 10001 "''akshare''" now]
    by (simp add: sync_rows_def demo_rows_def split: option.split)
  with e show thesis
    by (intro that [of r]) (simp_all add: sync_daily_bar_def demo_hub_def demo_request_def demo_provider case_prod_unfold Let_def)
qed

lemma demo_runs:
  "demo_tables t \<Longrightarrow> sy_bars (sync_runs (\<lambda>_. None) stored (map (\<lambda>(v, h). demo_run v h) runs) \<lparr>sy_ref = t, sy_bars = tbl\<rparr>)
     = foldl (\<lambda>b (v, h). fst (append_rows stored b (demo_rows v (dt_combine demo_day (h * 3600 * us_per_second)) b))) tbl runs"
proof (induction runs arbitrary: t tbl)
  case Nil then show ?case by (simp add: sync_runs_def)
next
  case (Cons vh runs)
  obtain v h where vh: "vh = (v, h)" by (cases vh)
  let ?now = "dt_combine demo_day (h * 3600 * us_per_second)"
  show ?case
  proof (rule demo_sync [OF Cons.prems, of stored v ?now ?now tbl])
    fix r
    assume run: "sync_daily_bar (\<lambda>_. None) stored (demo_hub v) demo_request ?now ?now \<lparr>sy_ref = t, sy_bars = tbl\<rparr>
        = (\<lparr>sy_ref = r, sy_bars = fst (append_rows stored tbl (demo_rows v ?now tbl))\<rparr>,
         Inr \<lparr>sr_dataset = DATASET, sr_code = ''600519.SH'', sr_entity_id = 10001, sr_window_start = demo_day, sr_window_end = demo_day,
           sr_fetched = 1, sr_rows_written = snd (append_rows stored tbl (demo_rows v ?now tbl)), sr_provider = ''akshare''\<rparr>)"
      and r: "demo_tables r"
    have "sync_call_on (\<lambda>_. None) stored (demo_run v h) \<lparr>sy_ref = t, sy_bars = tbl\<rparr>
        = \<lparr>sy_ref = r, sy_bars = fst (append_rows stored tbl (demo_rows v ?now tbl))\<rparr>"
      unfolding sync_call_on_def demo_run_def sync_call.simps run by simp
    with Cons.IH [OF r] show ?thesis by (simp add: sync_runs_def vh)
  qed
qed

lemma demo_start: "empty_sync_db = \<lparr>sy_ref = empty_tables, sy_bars = []\<rparr>" "demo_tables empty_tables"
  by (simp_all add: empty_sync_db_def demo_tables_def)

lemmas demo_eval = demo_rows_def at_key_def version_order_def physical_key_def knowledge_time_of_def CLOSE_UTC_def
  dt_combine_def us_per_day_def us_per_second_def same_values_def VALUE_FIELDS_def same_cell_def demo_values_def less_prod_def'


lemma demo_settled: "7 \<le> h \<Longrightarrow> settled_call (\<lambda>_. None) (demo_run v h)"
  by (simp add: settled_call_def demo_run_def demo_request_def demo_hub_def bar_dates_def
      knowledge_time_of_def CLOSE_UTC_def dt_combine_def us_per_second_def)

theorem sync_rerun_idempotent_witness:
  "\<exists>db1 res. sync_daily_bar (\<lambda>_. None) pg_stored (demo_hub (demo_values 10)) demo_request 0 5 empty_sync_db = (db1, Inr res)
     \<and> sr_rows_written res = 1
     \<and> sync_daily_bar (\<lambda>_. None) pg_stored (demo_hub (demo_values 10)) demo_request 6 7 db1 = (db1, Inr (res\<lparr>sr_rows_written := 0\<rparr>))"
proof (rule demo_sync [OF demo_start(2), of pg_stored "demo_values 10" 0 5 "[]"])
  fix r
  let ?res = "\<lparr>sr_dataset = DATASET, sr_code = ''600519.SH'', sr_entity_id = 10001, sr_window_start = demo_day, sr_window_end = demo_day,
     sr_fetched = 1, sr_rows_written = snd (append_rows pg_stored [] (demo_rows (demo_values 10) 5 [])), sr_provider = ''akshare''\<rparr>"
  assume run: "sync_daily_bar (\<lambda>_. None) pg_stored (demo_hub (demo_values 10)) demo_request 0 5 \<lparr>sy_ref = empty_tables, sy_bars = []\<rparr>
      = (\<lparr>sy_ref = r, sy_bars = fst (append_rows pg_stored [] (demo_rows (demo_values 10) 5 []))\<rparr>, Inr ?res)"
  note again = sync_rerun_idempotent [OF run, of "\<lparr>bf_source = Some ''akshare'', bf_items = [\<lparr>bi_date = RawDate demo_day, bi_values = demo_values 10\<rparr>]\<rparr>" 6 7]
  have "sr_rows_written ?res = 1" by (simp add: demo_rows_def)
  with run again [THEN conjunct1] show ?thesis unfolding demo_start(1)
    by (auto simp: demo_hub_def bar_dates_def demo_values_def pg_stored_def same_values_def VALUE_FIELDS_def same_cell_def)
qed

theorem bar_versions_numbered_witness:
  "versions_of (sy_bars (sync_runs (\<lambda>_. None) pg_stored (map (\<lambda>(v, h). demo_run v h) [(demo_values 10, 8), (demo_values 10, 9), (demo_values 11, 10)]) empty_sync_db))
     = [(CNum 10, 1), (CNum 11, 2)]
   \<and> filter (at_key (10001, demo_day)) (latest_query (\<lambda>_. True)
       (sy_bars (sync_runs (\<lambda>_. None) pg_stored (map (\<lambda>(v, h). demo_run v h) [(demo_values 10, 8), (demo_values 10, 9), (demo_values 11, 10)]) empty_sync_db))) \<noteq> []"
proof -
  let ?runs = "[(demo_values 10, 8), (demo_values 10, 9), (demo_values 11, 10)]"
  let ?tbl = "sy_bars (sync_runs (\<lambda>_. None) pg_stored (map (\<lambda>(v, h). demo_run v h) ?runs) empty_sync_db)"
  have versions: "versions_of ?tbl = [(CNum 10, 1), (CNum 11, 2)]" "filter (at_key (10001, demo_day)) ?tbl \<noteq> []"
    unfolding demo_start(1) demo_runs [OF demo_start(2)] by (simp_all add: demo_eval pg_stored_def versions_of_def)
  have "sorted (map sc_now (map (\<lambda>(v, h). demo_run v h) ?runs))" by (simp add: demo_run_def dt_combine_def us_per_second_def)
  moreover have "\<forall>c\<in>set (map (\<lambda>(v, h). demo_run v h) ?runs). settled_call (\<lambda>_. None) c" by (simp add: demo_settled)
  ultimately have "filter (at_key (10001, demo_day)) (latest_query (\<lambda>_. True) ?tbl) = [last (filter (at_key (10001, demo_day)) ?tbl)]"
    using bar_versions_numbered [OF _ _ refl refl, of "map (\<lambda>(v, h). demo_run v h) ?runs" "\<lambda>_. None" pg_stored "(10001, demo_day)"] versions(2) by blast
  with versions(1) show ?thesis by simp
qed

theorem as_of_never_changes_witness:
  "let calls = map (\<lambda>(v, h). demo_run v h); db = sync_runs (\<lambda>_. None) pg_stored (calls [(demo_values 10, 8)]) empty_sync_db;
       later = sync_runs (\<lambda>_. None) pg_stored (calls [(demo_values 11, 10)]) db; as_of = dt_combine demo_day (9 * 3600 * us_per_second)
   in versions_of (filter (at_key (10001, demo_day)) (as_of_query as_of (\<lambda>_. True) (sy_bars db))) = [(CNum 10, 1)]
      \<and> versions_of (sy_bars later) = [(CNum 10, 1), (CNum 11, 2)]
      \<and> versions_of (filter (at_key (10001, demo_day)) (as_of_query as_of (\<lambda>_. True) (sy_bars later))) = [(CNum 10, 1)]"
proof -
  let ?db = "sync_runs (\<lambda>_. None) pg_stored (map (\<lambda>(v, h). demo_run v h) [(demo_values 10, 8)]) empty_sync_db"
  let ?later = "sync_runs (\<lambda>_. None) pg_stored (map (\<lambda>(v, h). demo_run v h) [(demo_values 11, 10)]) ?db"
  let ?as_of = "dt_combine demo_day (9 * 3600 * us_per_second)"
  let ?at = "at_key (10001, demo_day)"
  have one: "versions_of (filter ?at (as_of_query ?as_of (\<lambda>_. True) (sy_bars ?db))) = [(CNum 10, 1)]" "filter ?at (sy_bars ?db) \<noteq> []"
    unfolding demo_start(1) demo_runs [OF demo_start(2)]
    by (simp_all add: demo_eval pg_stored_def as_of_query_def ranked_rows_def versions_of_def)
  have two: "versions_of (sy_bars ?later) = [(CNum 10, 1), (CNum 11, 2)]"
  proof -
    have later: "?later = sync_runs (\<lambda>_. None) pg_stored (map (\<lambda>(v, h). demo_run v h) [(demo_values 10, 8), (demo_values 11, 10)]) empty_sync_db"
      by (simp add: sync_runs_def)
    show ?thesis
      unfolding later unfolding demo_start(1) demo_runs [OF demo_start(2)] by (simp add: demo_eval pg_stored_def versions_of_def)
  qed
  have "\<forall>c\<in>set (map (\<lambda>(v, h). demo_run v h) [(demo_values 11, 10)]). ?as_of < sc_now c"
    by (simp add: demo_run_def dt_combine_def us_per_second_def)
  from as_of_never_changes [OF refl this, where parse = "\<lambda>_. None" and stored = pg_stored and keep = "\<lambda>_. True"
      and calls = "map (\<lambda>(v, h). demo_run v h) [(demo_values 10, 8)]"]
  obtain new where new: "sy_bars ?later = sy_bars ?db @ new"
    "\<forall>k p. p \<in> set (sy_bars ?db) \<and> at_key k p \<longrightarrow> filter (at_key k) (as_of_query ?as_of (\<lambda>_. True) (sy_bars ?db @ new))
       = filter (at_key k) (as_of_query ?as_of (\<lambda>_. True) (sy_bars ?db))" by blast
  obtain p where "p \<in> set (sy_bars ?db) \<and> ?at p" using one(2) unfolding filter_empty_conv by blast
  with new have "filter ?at (as_of_query ?as_of (\<lambda>_. True) (sy_bars ?later)) = filter ?at (as_of_query ?as_of (\<lambda>_. True) (sy_bars ?db))"
    by metis
  with one(1) two show ?thesis unfolding Let_def by simp
qed

subsection \<open>What the writer does not promise\<close>

text \<open>
  A first version written before the close has the close as its knowledge time, in the future.  A
  revision seen before the close is then older than what it revises: the first version stays the
  latest one, and every further sync of the unchanged source writes the revision again.
\<close>

lemma intraday_revision_shadowed:
  "let tbl = sy_bars (sync_runs (\<lambda>_. None) pg_stored (map (\<lambda>(v, h). demo_run v h)
         [(demo_values 10, 3), (demo_values 11, 4), (demo_values 11, 5)]) empty_sync_db)
   in versions_of tbl = [(CNum 10, 1), (CNum 11, 2), (CNum 11, 2)] \<and> versions_of (latest_query (\<lambda>_. True) tbl) = [(CNum 10, 1)]"
  unfolding demo_start(1) Let_def demo_runs [OF demo_start(2)]
  by (simp add: demo_eval pg_stored_def versions_of_def latest_query_def ranked_rows_def)

text \<open>A value that is NaN, and an amount with more decimals than its column, differ from what was
  stored: every sync of the unchanged source writes a new version.\<close>

lemma unstable_values_rewritten:
  "(let v = (demo_values 10)\<lparr>bv_volume := CNaN\<rparr>
    in versions_of (sy_bars (sync_runs (\<lambda>_. None) pg_stored (map (\<lambda>(v, h). demo_run v h) [(v, 8), (v, 9), (v, 10)]) empty_sync_db))
      = [(CNum 10, 1), (CNum 10, 2), (CNum 10, 3)])
   \<and> (let v = (demo_values 10)\<lparr>bv_amount := CNum (1234567 / 100000)\<rparr>
    in versions_of (sy_bars (sync_runs (\<lambda>_. None) pg_stored (map (\<lambda>(v, h). demo_run v h) [(v, 8), (v, 9), (v, 10)]) empty_sync_db))
      = [(CNum 10, 1), (CNum 10, 2), (CNum 10, 3)])"
proof -
  have "\<lfloor>617286 / 5 :: rat\<rfloor> = 123457" by (simp add: floor_eq_iff)
  then show ?thesis unfolding demo_start(1) Let_def demo_runs [OF demo_start(2)]
    by (simp add: demo_eval pg_stored_def versions_of_def round4_def)
qed

end
