(* ===== verification/Dictionary.thy ===== *)
theory Dictionary
  imports Prelude
begin

text \<open>
  The data dictionary: its entries with the validators of \<open>dictionary/models.py\<close>, loading, the rules
  of \<open>validate_directory\<close>, the lineage check and the catalog of \<open>dictionary/__init__.py\<close>.  A file is its
  relative path (the parts, without the suffix) and what YAML and pydantic's structural check made of
  it; files come in the order of their paths.  An error is a constructor with the values its text names.
  Entries of a specification that nothing reads (its grain, SLA, coverage, notes, ranges) are left out.
\<close>

subsection \<open>Entries\<close>

datatype domain = CN_EQUITY | CN_FUND | CN_FUTURES | CN_OPTIONS | HK_EQUITY | US_EQUITY | US_OPTIONS
  | MACRO_CN | MACRO_US | MACRO_GLOBAL | DOMAIN_REF

fun domain_value :: "domain \<Rightarrow> string" where
  "domain_value CN_EQUITY = ''cn_equity''"
| "domain_value CN_FUND = ''cn_fund''"
| "domain_value CN_FUTURES = ''cn_futures''"
| "domain_value CN_OPTIONS = ''cn_options''"
| "domain_value HK_EQUITY = ''hk_equity''"
| "domain_value US_EQUITY = ''us_equity''"
| "domain_value US_OPTIONS = ''us_options''"
| "domain_value MACRO_CN = ''macro_cn''"
| "domain_value MACRO_US = ''macro_us''"
| "domain_value MACRO_GLOBAL = ''macro_global''"
| "domain_value DOMAIN_REF = ''ref''"

datatype provider = P_TUSHARE | P_BAOSTOCK | P_WIND | P_AKSHARE | P_FUYAO | P_IFIND

fun provider_value :: "provider \<Rightarrow> string" where
  "provider_value P_TUSHARE = ''tushare''"
| "provider_value P_BAOSTOCK = ''baostock''"
| "provider_value P_WIND = ''wind''"
| "provider_value P_AKSHARE = ''akshare''"
| "provider_value P_FUYAO = ''fuyao''"
| "provider_value P_IFIND = ''ifind''"

datatype logical_type = T_int64 | T_float64 | T_decimal | T_string | T_bool | T_date | T_timestamp | T_timestamp_tz | T_enum

datatype pit_role = R_event_time | R_publish_time | R_knowledge_time | R_ingest_time | R_none

datatype pit_class = C_market | C_versioned | C_scd2 | C_snapshot

datatype partition = PT_event_time | PT_knowledge_time | PT_none

record field_spec =
  fs_name :: string
  fs_type :: logical_type
  fs_precision :: "int option"
  fs_scale :: "int option"
  fs_unit :: "string option"
  fs_nullable :: bool
  fs_enum :: "string list option"
  fs_description :: string
  fs_pit_role :: pit_role

datatype rule_kind = K_unique | K_not_null | K_range | K_enum | K_expression | K_reconcile | K_freshness

text \<open>The numbers of a rule's \<open>min\<close> and \<open>max\<close> are only carried, as their texts.\<close>

record quality_rule =
  qr_rule :: rule_kind
  qr_keys :: "string list option"
  qr_field :: "string option"
  qr_fields :: "string list option"
  qr_min :: "string option"
  qr_max :: "string option"
  qr_values :: "string list option"
  qr_expr :: "string option"
  qr_severity :: "string option"
  qr_against :: "string option"
  qr_sla :: "string option"
  qr_tolerance :: "string option"

record source_entry =
  se_provider :: provider
  se_endpoint :: string

record compression_spec =
  cs_after :: string
  cs_segment_by :: string
  cs_order_by :: string

record storage_spec =
  st_canonical_table :: string
  st_read_model :: string
  st_partition_strategy :: partition
  st_partition_interval :: string
  st_compression :: "compression_spec option"

record derived_entry =
  de_output :: string
  de_algorithm_id :: string
  de_implementation :: string
  de_inputs :: "string list"

record mapping_entry =
  me_provider :: provider
  me_endpoint :: string
  me_fields :: "(string, string) dict"

record dataset_spec =
  ds_dataset :: string
  ds_semantic_version :: int
  ds_domain :: domain
  ds_description :: string
  ds_pit_class :: pit_class
  ds_business_key :: "string list"
  ds_physical_key :: "string list"
  ds_sources :: "source_entry list"
  ds_storage :: storage_spec
  ds_quality :: "quality_rule list"
  ds_upstream :: "string list"
  ds_derived :: "derived_entry list option"
  ds_mappings :: "mapping_entry list"
  ds_fields :: "field_spec list"

type_synonym specs = "(string, dataset_spec) dict"

datatype spec_error =
    NotAnObject | Malformed string
  | DecimalNeedsPrecision string | PrecisionNotAllowed string | EnumNeedsValues string
  | RuleArgsMissing rule_kind "string list"

text \<open>\<open>FieldSpec._validate_type_details\<close> and \<open>QualityRule._validate_rule_args\<close>.\<close>

definition validate_type_details :: "field_spec \<Rightarrow> spec_error option" where
  "validate_type_details f =
     (if fs_type f = T_decimal \<and> (fs_precision f = None \<or> fs_scale f = None) then Some (DecimalNeedsPrecision (fs_name f))
      else if fs_type f \<noteq> T_decimal \<and> (fs_precision f \<noteq> None \<or> fs_scale f \<noteq> None) then Some (PrecisionNotAllowed (fs_name f))
      else if fs_type f = T_enum \<and> (fs_enum f = None \<or> fs_enum f = Some []) then Some (EnumNeedsValues (fs_name f))
      else None)"

fun required_args :: "rule_kind \<Rightarrow> string list" where
  "required_args K_unique = [''keys'']"
| "required_args K_not_null = [''fields'']"
| "required_args K_range = [''field'']"
| "required_args K_enum = [''field'', ''values'']"
| "required_args K_expression = [''expr'']"
| "required_args K_reconcile = [''against'']"
| "required_args K_freshness = [''sla'', ''tolerance'']"

definition rule_arg_missing :: "quality_rule \<Rightarrow> string \<Rightarrow> bool" where
  "rule_arg_missing r name =
     (if name = ''keys'' then qr_keys r = None else if name = ''fields'' then qr_fields r = None
      else if name = ''field'' then qr_field r = None else if name = ''values'' then qr_values r = None
      else if name = ''expr'' then qr_expr r = None else if name = ''against'' then qr_against r = None
      else if name = ''sla'' then qr_sla r = None else qr_tolerance r = None)"

definition validate_rule_args :: "quality_rule \<Rightarrow> spec_error option" where
  "validate_rule_args r =
     (let missing = filter (rule_arg_missing r) (required_args (qr_rule r))
      in if missing \<noteq> [] then Some (RuleArgsMissing (qr_rule r) missing) else None)"

record dict_file =
  df_parts :: "string list"
  df_data :: "spec_error + dataset_spec"

text \<open>\<open>load_file\<close>: pydantic runs the validators of every field and rule; the first failure is reported.\<close>

definition load_file :: "dict_file \<Rightarrow> spec_error + dataset_spec" where
  "load_file f =
     (case df_data f of
        Inl e \<Rightarrow> Inl e
      | Inr spec \<Rightarrow>
          (case List.map_filter validate_rule_args (ds_quality spec) @ List.map_filter validate_type_details (ds_fields spec) of
             [] \<Rightarrow> Inr spec
           | e # _ \<Rightarrow> Inl e))"

definition skipped_file :: "dict_file \<Rightarrow> bool" where
  "skipped_file f \<longleftrightarrow> (\<exists>part \<in> set (df_parts f). starts_with ''_'' part)"

datatype load_error = LoadFile spec_error | LoadDuplicate string

fun load_from :: "dict_file list \<Rightarrow> specs \<Rightarrow> load_error + specs" where
  "load_from [] specs = Inr specs"
| "load_from (f # fs) specs =
     (if skipped_file f then load_from fs specs
      else case load_file f of
          Inl e \<Rightarrow> Inl (LoadFile e)
        | Inr spec \<Rightarrow>
            if ds_dataset spec \<in> set (dict_keys specs) then Inl (LoadDuplicate (ds_dataset spec))
            else load_from fs (AList.update (ds_dataset spec) spec specs))"

definition load_all :: "dict_file list \<Rightarrow> load_error + specs" where
  "load_all files = load_from files []"

subsection \<open>Names\<close>

text \<open>
  The regular expressions of the module.  \<open>$\<close> also matches before a final newline, so each test drops
  one; no class of the expressions contains a newline.
\<close>

definition is_lower_char :: "char \<Rightarrow> bool" where
  "is_lower_char c \<longleftrightarrow> 97 \<le> (of_char c :: nat) \<and> (of_char c :: nat) \<le> 122"

definition word_char :: "char \<Rightarrow> bool" where
  "word_char c \<longleftrightarrow> is_lower_char c \<or> is_digit c \<or> c = CHR ''_''"

definition drop_final_newline :: "string \<Rightarrow> string" where
  "drop_final_newline s = (if s \<noteq> [] \<and> last s = CHR 0x0A then butlast s else s)"

fun snake_name :: "string \<Rightarrow> bool" where
  "snake_name [] = False"
| "snake_name (c # cs) = (is_lower_char c \<and> list_all word_char cs)"

fun ident_name :: "string \<Rightarrow> bool" where
  "ident_name [] = False"
| "ident_name (c # cs) = ((is_lower_char c \<or> c = CHR ''_'') \<and> list_all word_char cs)"

fun split_on :: "char \<Rightarrow> string \<Rightarrow> string list" where
  "split_on c [] = [[]]"
| "split_on c (x # xs) =
     (if x = c then [] # split_on c xs
      else case split_on c xs of [] \<Rightarrow> [[x]] | w # ws \<Rightarrow> (x # w) # ws)"

definition FIELD_NAME :: "string \<Rightarrow> bool" where
  "FIELD_NAME s \<longleftrightarrow> snake_name (drop_final_newline s)"

definition DATASET_ID :: "string \<Rightarrow> bool" where
  "DATASET_ID s \<longleftrightarrow> (let parts = split_on CHR ''.'' (drop_final_newline s) in 2 \<le> length parts \<and> list_all snake_name parts)"

definition IMPLEMENTATION :: "string \<Rightarrow> bool" where
  "IMPLEMENTATION s \<longleftrightarrow> (let parts = split_on CHR ''.'' (drop_final_newline s) in 2 \<le> length parts \<and> list_all ident_name parts)"

text \<open>\<open><snake>_v<digits>\<close>: the digits of the end, when the rest has the form.\<close>

definition version_suffix :: "string \<Rightarrow> string option" where
  "version_suffix s =
     (let digits = rev (takeWhile is_digit (rev s)) in
      if digits = [] then None
      else case dropWhile is_digit (rev s) of
          v # u # front \<Rightarrow> if v = CHR ''v'' \<and> u = CHR ''_'' \<and> snake_name (rev front) then Some digits else None
        | _ \<Rightarrow> None)"

definition ALGORITHM_ID :: "string \<Rightarrow> bool" where
  "ALGORITHM_ID s \<longleftrightarrow> version_suffix (drop_final_newline s) \<noteq> None"

definition READ_MODEL :: "string \<Rightarrow> string option" where
  "READ_MODEL s = (let t = drop_final_newline s in if starts_with ''mart.'' t then version_suffix (drop 5 t) else None)"

definition BRANDS :: "string list" where
  "BRANDS = [''wind'', ''tushare'', ''ts'', ''akshare'', ''ak'', ''baostock'', ''fuyao'', ''ifind'']"

definition BRAND_PREFIX :: "string \<Rightarrow> bool" where
  "BRAND_PREFIX s \<longleftrightarrow> (\<exists>b \<in> set BRANDS. starts_with (b @ ''_'') s)"

definition EXPR_CHARS :: "string \<Rightarrow> bool" where
  "EXPR_CHARS s \<longleftrightarrow> (let t = drop_final_newline s in
     t \<noteq> [] \<and> list_all (\<lambda>c. word_char c \<or> c \<in> set '' ()<>=!&|.,+-*/'') t)"

function identifiers :: "string \<Rightarrow> string list" where
  "identifiers [] = []"
| "identifiers (c # cs) =
     (if is_lower_char c \<or> c = CHR ''_'' then (c # takeWhile word_char cs) # identifiers (dropWhile word_char cs)
      else identifiers cs)"
  by pat_completeness auto
termination
  by (relation "measure length") (auto simp: le_imp_less_Suc length_dropWhile_le)

definition EXPR_KEYWORDS :: "string list" where
  "EXPR_KEYWORDS = [''and'', ''or'', ''not'', ''true'', ''false'']"

subsection \<open>The rules of an entry\<close>

datatype dict_error =
    LoadFailed "string list" spec_error | PathMismatch string "string list" | DuplicateDataset string
  | BadDatasetName string | BadDomain string domain | DuplicateFields string
  | BadFieldName string string | BrandPrefix string string
  | EmptyBusinessKey string | BusinessKeyUnknown string "string list" | PhysicalKeyLacksBusiness string
  | PhysicalKeyUnknown string "string list" | PitKeysMissing string pit_class "string list" | Scd2KeyMissing string
  | UpstreamMissing string string | BadAlgorithmId string string | BadImplementation string string
  | DuplicateAlgorithm string string string | BadOutput string string
  | InputDatasetMissing string string | InputFieldMissing string string
  | RuleKeyUnknown string nat string | RuleFieldUnknown string nat string
  | ExprChars string nat | ExprUnknown string nat string
  | EndpointUndeclared string provider string | MappingFieldUnknown string provider string
  | BadCanonicalTable string string string | BadReadModel string string | ReadModelVersion string int
  | BadPartition string partition pit_class | CompressionMissing string partition
  | LineageCycle "string list"

fun PIT_REQUIRED_KEYS :: "pit_class \<Rightarrow> string list option" where
  "PIT_REQUIRED_KEYS C_market = Some [''knowledge_time'', ''version'']"
| "PIT_REQUIRED_KEYS C_versioned = Some [''knowledge_time'', ''version'']"
| "PIT_REQUIRED_KEYS C_snapshot = Some [''knowledge_time'', ''version'']"
| "PIT_REQUIRED_KEYS C_scd2 = None"

definition SCD2_TIME_KEYS :: "string list" where
  "SCD2_TIME_KEYS = [''valid_from'', ''start_date'', ''in_date'']"

fun DEFAULT_PARTITION :: "pit_class \<Rightarrow> partition" where
  "DEFAULT_PARTITION C_market = PT_event_time"
| "DEFAULT_PARTITION C_versioned = PT_knowledge_time"
| "DEFAULT_PARTITION C_snapshot = PT_event_time"
| "DEFAULT_PARTITION C_scd2 = PT_none"

definition flag :: "bool \<Rightarrow> 'e \<Rightarrow> 'e list" where
  "flag b e = (if b then [e] else [])"

definition field_names :: "dataset_spec \<Rightarrow> string list" where
  "field_names spec = map fs_name (ds_fields spec)"

definition check_names :: "string \<Rightarrow> dataset_spec \<Rightarrow> dict_error list" where
  "check_names dataset spec =
     flag (\<not> DATASET_ID dataset) (BadDatasetName dataset)
     @ flag (\<not> starts_with (domain_value (ds_domain spec) @ ''.'') dataset) (BadDomain dataset (ds_domain spec))
     @ flag (\<not> distinct (field_names spec)) (DuplicateFields dataset)
     @ concat (map (\<lambda>name. flag (\<not> FIELD_NAME name) (BadFieldName dataset name)
         @ flag (BRAND_PREFIX name) (BrandPrefix dataset name)) (field_names spec))"

definition check_keys :: "string \<Rightarrow> dataset_spec \<Rightarrow> dict_error list" where
  "check_keys dataset spec =
     (let names = set (field_names spec);
          missing_business = filter (\<lambda>k. k \<notin> names) (ds_business_key spec);
          missing_physical = filter (\<lambda>k. k \<notin> names) (ds_physical_key spec)
      in flag (ds_business_key spec = []) (EmptyBusinessKey dataset)
       @ flag (missing_business \<noteq> []) (BusinessKeyUnknown dataset missing_business)
       @ flag (\<not> set (ds_business_key spec) \<subseteq> set (ds_physical_key spec)) (PhysicalKeyLacksBusiness dataset)
       @ flag (missing_physical \<noteq> []) (PhysicalKeyUnknown dataset missing_physical)
       @ (case PIT_REQUIRED_KEYS (ds_pit_class spec) of
            Some required \<Rightarrow>
              (let absent = filter (\<lambda>k. k \<notin> set (ds_physical_key spec)) required
               in flag (absent \<noteq> []) (PitKeysMissing dataset (ds_pit_class spec) absent))
          | None \<Rightarrow>
              flag (ds_pit_class spec = C_scd2 \<and> \<not> (\<exists>k \<in> set SCD2_TIME_KEYS. k \<in> set (ds_physical_key spec)))
                (Scd2KeyMissing dataset)))"

text \<open>\<open>ref.rpartition('.')\<close>: without a dot the first part is empty and the last is the text.\<close>

definition ref_parts :: "string \<Rightarrow> string \<times> string" where
  "ref_parts ref = (case rpartition CHR ''.'' ref of Some p \<Rightarrow> p | None \<Rightarrow> ('''', ref))"

definition check_input :: "string \<Rightarrow> specs \<Rightarrow> string \<Rightarrow> dict_error list" where
  "check_input dataset specs ref =
     (case map_of specs (fst (ref_parts ref)) of
        None \<Rightarrow> [InputDatasetMissing dataset (fst (ref_parts ref))]
      | Some other \<Rightarrow> flag (snd (ref_parts ref) \<notin> set (field_names other)) (InputFieldMissing dataset ref))"

fun check_derived :: "string \<Rightarrow> specs \<Rightarrow> derived_entry list \<Rightarrow> (string, string) dict \<Rightarrow> dict_error list \<times> (string, string) dict" where
  "check_derived dataset specs [] seen = ([], seen)"
| "check_derived dataset specs (entry # entries) seen =
     (let here = flag (\<not> ALGORITHM_ID (de_algorithm_id entry)) (BadAlgorithmId dataset (de_algorithm_id entry))
            @ flag (\<not> IMPLEMENTATION (de_implementation entry)) (BadImplementation dataset (de_implementation entry))
            @ (case map_of seen (de_algorithm_id entry) of
                 Some other \<Rightarrow> [DuplicateAlgorithm dataset (de_algorithm_id entry) other] | None \<Rightarrow> [])
            @ flag (\<not> FIELD_NAME (de_output entry)) (BadOutput dataset (de_output entry))
            @ concat (map (check_input dataset specs) (de_inputs entry));
          (errors, seen') = check_derived dataset specs entries (AList.update (de_algorithm_id entry) dataset seen)
      in (here @ errors, seen'))"

definition or_empty :: "'a list option \<Rightarrow> 'a list" where
  "or_empty xs = (case xs of None \<Rightarrow> [] | Some ys \<Rightarrow> ys)"

definition validate_expression :: "string \<Rightarrow> nat \<Rightarrow> string \<Rightarrow> string list \<Rightarrow> dict_error list" where
  "validate_expression dataset index expr names =
     (if \<not> EXPR_CHARS expr then [ExprChars dataset index]
      else map (ExprUnknown dataset index) (filter (\<lambda>i. i \<notin> set EXPR_KEYWORDS \<and> i \<notin> set names) (identifiers expr)))"

definition check_rule :: "string \<Rightarrow> string list \<Rightarrow> nat \<times> quality_rule \<Rightarrow> dict_error list" where
  "check_rule dataset names = (\<lambda>(index, rule).
     map (RuleKeyUnknown dataset index) (filter (\<lambda>k. k \<notin> set names) (or_empty (qr_keys rule)))
     @ map (RuleFieldUnknown dataset index) (filter (\<lambda>k. k \<notin> set names)
         (or_empty (qr_fields rule) @ (case qr_field rule of None \<Rightarrow> [] | Some f \<Rightarrow> if f = [] then [] else [f])))
     @ (case qr_expr rule of None \<Rightarrow> [] | Some e \<Rightarrow> validate_expression dataset index e names))"

definition check_mapping :: "string \<Rightarrow> dataset_spec \<Rightarrow> mapping_entry \<Rightarrow> dict_error list" where
  "check_mapping dataset spec mapping =
     flag ((me_provider mapping, me_endpoint mapping) \<notin> (\<lambda>s. (se_provider s, se_endpoint s)) ` set (ds_sources spec))
       (EndpointUndeclared dataset (me_provider mapping) (me_endpoint mapping))
     @ map (MappingFieldUnknown dataset (me_provider mapping))
         (filter (\<lambda>f. f \<notin> set (field_names spec)) (dict_keys (me_fields mapping)))"

definition canonical_name :: "string \<Rightarrow> dataset_spec \<Rightarrow> string" where
  "canonical_name dataset spec = domain_value (ds_domain spec) @ ''.'' @ join ''_'' (tl (split_on CHR ''.'' dataset))"

definition check_storage :: "string \<Rightarrow> dataset_spec \<Rightarrow> dict_error list" where
  "check_storage dataset spec =
     (let storage = ds_storage spec; expected_table = canonical_name dataset spec;
          expected_partition = DEFAULT_PARTITION (ds_pit_class spec)
      in flag (st_canonical_table storage \<noteq> expected_table)
           (BadCanonicalTable dataset expected_table (st_canonical_table storage))
       @ (case READ_MODEL (st_read_model storage) of
            None \<Rightarrow> [BadReadModel dataset (st_read_model storage)]
          | Some digits \<Rightarrow> flag (int (digits_val digits) \<noteq> ds_semantic_version spec) (ReadModelVersion dataset (ds_semantic_version spec)))
       @ flag (st_partition_strategy storage \<noteq> expected_partition) (BadPartition dataset expected_partition (ds_pit_class spec))
       @ flag (st_partition_strategy storage \<noteq> PT_none \<and> st_compression storage = None)
           (CompressionMissing dataset (st_partition_strategy storage)))"

definition validate_dataset :: "string \<Rightarrow> dataset_spec \<Rightarrow> specs \<Rightarrow> (string, string) dict \<Rightarrow> dict_error list \<times> (string, string) dict" where
  "validate_dataset dataset spec specs seen =
     (let (derived_errors, seen') = check_derived dataset specs (or_empty (ds_derived spec)) seen
      in (check_names dataset spec @ check_keys dataset spec
          @ concat (map (\<lambda>u. flag (u \<notin> set (dict_keys specs)) (UpstreamMissing dataset u)) (ds_upstream spec))
          @ derived_errors
          @ concat (map (check_rule dataset (field_names spec)) (enumerate 0 (ds_quality spec)))
          @ concat (map (check_mapping dataset spec) (ds_mappings spec))
          @ check_storage dataset spec, seen'))"

subsection \<open>Lineage\<close>

text \<open>The edges in the order they are added: from what is read to what reads it.\<close>

definition edges_of :: "specs \<Rightarrow> (string \<times> string) list" where
  "edges_of specs = concat (map (\<lambda>(dataset, spec).
     map (\<lambda>u. (u, dataset)) (filter (\<lambda>u. u \<in> set (dict_keys specs)) (ds_upstream spec))
     @ concat (map (\<lambda>entry.
         map (\<lambda>u. (u, dataset)) (filter (\<lambda>u. u \<in> set (dict_keys specs) \<and> u \<noteq> dataset)
           (map (\<lambda>ref. fst (ref_parts ref)) (de_inputs entry)))) (or_empty (ds_derived spec)))) specs)"

definition targets :: "(string \<times> string) list \<Rightarrow> string \<Rightarrow> string list" where
  "targets edges node = sort (remdups (map snd (filter (\<lambda>e. fst e = node) edges)))"

text \<open>
  The nested function \<open>visit\<close> of \<open>_validate_acyclic\<close> and its loop over the successors.  Marks are 1
  for a node being visited and 2 for a finished one.  The fuel bounds the depth of the recursion.
\<close>

type_synonym visit_state = "(string \<rightharpoonup> int) \<times> dict_error list"

fun visit :: "nat \<Rightarrow> (string \<Rightarrow> string list) \<Rightarrow> string \<Rightarrow> string list \<Rightarrow> visit_state \<Rightarrow> visit_state option"
  and visit_all :: "nat \<Rightarrow> (string \<Rightarrow> string list) \<Rightarrow> string \<Rightarrow> string list \<Rightarrow> string list \<Rightarrow> visit_state \<Rightarrow> visit_state option" where
  "visit 0 succ node path s = None"
| "visit (Suc n) succ node path (state, errors) =
     (case visit_all n succ node path (succ node) (state(node \<mapsto> 1), errors) of
        None \<Rightarrow> None
      | Some (state', errors') \<Rightarrow> Some (state'(node \<mapsto> 2), errors'))"
| "visit_all n succ node path [] s = Some s"
| "visit_all n succ node path (nxt # rest) (state, errors) =
     (if state nxt = Some 1 then visit_all n succ node path rest (state, errors @ [LineageCycle (path @ [node, nxt])])
      else if state nxt = None then
        (case visit n succ nxt (path @ [node]) (state, errors) of
           None \<Rightarrow> None
         | Some s \<Rightarrow> visit_all n succ node path rest s)
      else visit_all n succ node path rest (state, errors))"

fun visit_roots :: "nat \<Rightarrow> (string \<Rightarrow> string list) \<Rightarrow> string list \<Rightarrow> visit_state \<Rightarrow> visit_state option" where
  "visit_roots n succ [] s = Some s"
| "visit_roots n succ (node # nodes) (state, errors) =
     (if state node = None then
        (case visit n succ node [] (state, errors) of None \<Rightarrow> None | Some s \<Rightarrow> visit_roots n succ nodes s)
      else visit_roots n succ nodes (state, errors))"

definition validate_acyclic :: "nat \<Rightarrow> specs \<Rightarrow> dict_error list option" where
  "validate_acyclic fuel specs =
     map_option snd (visit_roots fuel (targets (edges_of specs)) (sort (dict_keys specs)) (Map.empty, []))"

subsection \<open>The directory\<close>

fun validate_all :: "(string \<times> dataset_spec) list \<Rightarrow> specs \<Rightarrow> (string, string) dict \<Rightarrow> dict_error list" where
  "validate_all [] specs seen = []"
| "validate_all ((dataset, spec) # rest) specs seen =
     (let (errors, seen') = validate_dataset dataset spec specs seen in errors @ validate_all rest specs seen')"

definition file_step :: "dict_file \<Rightarrow> dict_error list \<times> specs \<Rightarrow> dict_error list \<times> specs" where
  "file_step f = (\<lambda>(errors, specs).
     if skipped_file f then (errors, specs)
     else case load_file f of
         Inl e \<Rightarrow> (errors @ [LoadFailed (df_parts f) e], specs)
       | Inr spec \<Rightarrow>
           (errors @ flag (join ''.'' (df_parts f) \<noteq> ds_dataset spec) (PathMismatch (ds_dataset spec) (df_parts f))
              @ flag (ds_dataset spec \<in> set (dict_keys specs)) (DuplicateDataset (ds_dataset spec)),
            AList.update (ds_dataset spec) spec specs))"

definition load_errors :: "dict_file list \<Rightarrow> dict_error list \<times> specs" where
  "load_errors files = fold file_step files ([], [])"

text \<open>As many levels of recursion as there are datasets are enough for the lineage check.\<close>

definition validate_directory :: "dict_file list \<Rightarrow> dict_error list option" where
  "validate_directory files =
     (let (errors, specs) = load_errors files in
      map_option (\<lambda>cycles. errors @ validate_all specs specs [] @ cycles) (validate_acyclic (length specs) specs))"

subsection \<open>The catalog\<close>

text \<open>Texts outside ASCII are the bytes of their UTF-8 encoding.\<close>

definition ACCESS :: "(string, string) dict" where
  "ACCESS =
    [(''cn_equity.daily_bar'', ''get_bars(adjust=None/qfq/hfq)''),
     (''cn_equity.adj_factor'', ''get_adjust_factors''),
     (''cn_equity.index_weight'', ''get_index_weights''),
     (''cn_equity.index_member'', ''get_reference(\"industry_member\")''),
     (''cn_equity.financials.balance_sheet'', ''get_financials(kind=\"balance_sheet\")''),
     (''cn_equity.market_events.namechange'', ''get_market_events(kind=\"namechange\")''),
     (''cn_equity.listing_lifecycle'', ''get_reference(\"stock_list\") / ''
       @ [CHR 0xE5, CHR 0x86, CHR 0x85, CHR 0xE9, CHR 0x83, CHR 0xA8]),
     (''cn_fund.nav'', ''get_fund_nav''),
     (''ref.entity'', ''get_security_info / ''
       @ [CHR 0xE5, CHR 0x86, CHR 0x85, CHR 0xE9, CHR 0x83, CHR 0xA8]),
     (''ref.entity_code_history'', [CHR 0xE5, CHR 0x86, CHR 0x85, CHR 0xE9, CHR 0x83, CHR 0xA8, CHR 0xEF, CHR 0xBC, CHR 0x88]
       @ ''Hub mapper''
       @ [CHR 0xEF, CHR 0xBC, CHR 0x89]),
     (''ref.entity_relation'', [CHR 0xE5, CHR 0x86, CHR 0x85, CHR 0xE9, CHR 0x83, CHR 0xA8, CHR 0xEF, CHR 0xBC, CHR 0x88, CHR 0xE5, CHR 0x85, CHR 0xB3, CHR 0xE7, CHR 0xB3, CHR 0xBB, CHR 0xE6, CHR 0xB3, CHR 0xA8, CHR 0xE5, CHR 0x86, CHR 0x8C, CHR 0xEF, CHR 0xBC, CHR 0x89]),
     (''ref.entity_external_id'', [CHR 0xE5, CHR 0x86, CHR 0x85, CHR 0xE9, CHR 0x83, CHR 0xA8, CHR 0xEF, CHR 0xBC, CHR 0x88, CHR 0xE5, CHR 0xA4, CHR 0x96, CHR 0xE9, CHR 0x83, CHR 0xA8, CHR 0xE6, CHR 0xA0, CHR 0x87, CHR 0xE8, CHR 0xAF, CHR 0x86, CHR 0xE6, CHR 0xB3, CHR 0xA8, CHR 0xE5, CHR 0x86, CHR 0x8C, CHR 0xEF, CHR 0xBC, CHR 0x89]),
     (''ref.relation_type_dict'', [CHR 0xE5, CHR 0x86, CHR 0x85, CHR 0xE9, CHR 0x83, CHR 0xA8, CHR 0xEF, CHR 0xBC, CHR 0x88, CHR 0xE5, CHR 0x85, CHR 0xB3, CHR 0xE7, CHR 0xB3, CHR 0xBB, CHR 0xE8, CHR 0xAF, CHR 0x8D, CHR 0xE8, CHR 0xA1, CHR 0xA8, CHR 0xEF, CHR 0xBC, CHR 0x89])]"

definition DASH :: string where "DASH = [CHR 0xE2, CHR 0x80, CHR 0x94]"

definition ENTITY_FIELDS :: "string list" where "ENTITY_FIELDS = [''entity_id'', ''issuer_id'']"

fun pit_class_value :: "pit_class \<Rightarrow> string" where
  "pit_class_value C_market = ''market''"
| "pit_class_value C_versioned = ''versioned''"
| "pit_class_value C_scd2 = ''scd2''"
| "pit_class_value C_snapshot = ''snapshot''"

record catalog_row =
  ct_dataset :: string
  ct_domain :: string
  ct_description :: string
  ct_entity :: string
  ct_pit_class :: string
  ct_sources :: string
  ct_access :: string

definition has_entity :: "dataset_spec \<Rightarrow> bool" where
  "has_entity spec \<longleftrightarrow> (\<exists>name \<in> set (field_names spec). name \<in> set ENTITY_FIELDS \<or> ends_with ''_entity_id'' name)"

definition catalog_row_of :: "string \<times> dataset_spec \<Rightarrow> catalog_row" where
  "catalog_row_of = (\<lambda>(dataset, spec).
     let sources = join '', '' (sort (remdups (map (\<lambda>s. provider_value (se_provider s)) (ds_sources spec)))) in
     \<lparr>ct_dataset = dataset, ct_domain = domain_value (ds_domain spec), ct_description = ds_description spec,
       ct_entity = (if has_entity spec then ''entity'' else ''none''), ct_pit_class = pit_class_value (ds_pit_class spec),
       ct_sources = (if sources = [] then DASH else sources),
       ct_access = (case map_of ACCESS dataset of Some a \<Rightarrow> a | None \<Rightarrow> DASH)\<rparr>)"

definition catalog :: "dict_file list \<Rightarrow> load_error + catalog_row list" where
  "catalog files =
     (case load_all files of
        Inl e \<Rightarrow> Inl e
      | Inr specs \<Rightarrow> Inr (map catalog_row_of (sort_key fst specs)))"

definition CATALOG_HEADING :: "string list" where
  "CATALOG_HEADING =
    [''# ''
       @ [CHR 0xE6, CHR 0x95, CHR 0xB0, CHR 0xE6, CHR 0x8D, CHR 0xAE, CHR 0xE7, CHR 0x9B, CHR 0xAE, CHR 0xE5, CHR 0xBD, CHR 0x95, CHR 0xEF, CHR 0xBC, CHR 0x88, CHR 0xE8, CHR 0x87, CHR 0xAA, CHR 0xE5, CHR 0x8A, CHR 0xA8, CHR 0xE7, CHR 0x94, CHR 0x9F, CHR 0xE6, CHR 0x88, CHR 0x90, CHR 0xEF, CHR 0xBC, CHR 0x89],
     '''',
     ''> ''
       @ [CHR 0xE5, CHR 0x9B, CHR 0x9E, CHR 0xE7, CHR 0xAD, CHR 0x94, CHR 0xE4, CHR 0xB8, CHR 0xA4, CHR 0xE4, CHR 0xB8, CHR 0xAA, CHR 0xE5, CHR 0x9F, CHR 0xBA, CHR 0xE7, CHR 0xA1, CHR 0x80, CHR 0xE9, CHR 0x97, CHR 0xAE, CHR 0xE9, CHR 0xA2, CHR 0x98, CHR 0xEF, CHR 0xBC, CHR 0x9A]
       @ ''**''
       @ [CHR 0xE6, CHR 0x88, CHR 0x91, CHR 0xE4, CHR 0xBB, CHR 0xAC, CHR 0xE6, CHR 0x9C, CHR 0x89, CHR 0xE5, CHR 0x93, CHR 0xAA, CHR 0xE4, CHR 0xBA, CHR 0x9B, CHR 0xE6, CHR 0x95, CHR 0xB0, CHR 0xE6, CHR 0x8D, CHR 0xAE]
       @ ''**''
       @ [CHR 0xE3, CHR 0x80, CHR 0x81]
       @ ''**''
       @ [CHR 0xE4, CHR 0xBB, CHR 0xA5, CHR 0xE4, CHR 0xBB, CHR 0x80, CHR 0xE4, CHR 0xB9, CHR 0x88]
       @ '' code / ''
       @ [CHR 0xE6, CHR 0x96, CHR 0xB9, CHR 0xE5, CHR 0xBC, CHR 0x8F, CHR 0xE8, CHR 0x8E, CHR 0xB7, CHR 0xE5, CHR 0x8F, CHR 0x96]
       @ ''**''
       @ [CHR 0xEF, CHR 0xBC, CHR 0x88]
       @ ''doc-18 ''
       @ [CHR 0xC2, CHR 0xA7]
       @ ''5''
       @ [CHR 0xEF, CHR 0xBC, CHR 0x89, CHR 0xEF, CHR 0xBC, CHR 0x9B],
     ''> ''
       @ [CHR 0xE9, CHR 0x9A, CHR 0x8F, CHR 0xE6, CHR 0x95, CHR 0xB0, CHR 0xE6, CHR 0x8D, CHR 0xAE, CHR 0xE5, CHR 0xAD, CHR 0x97, CHR 0xE5, CHR 0x85, CHR 0xB8, CHR 0xE6, CHR 0x9B, CHR 0xB4, CHR 0xE6, CHR 0x96, CHR 0xB0, CHR 0xE9, CHR 0x87, CHR 0x8D, CHR 0xE6, CHR 0x96, CHR 0xB0, CHR 0xE7, CHR 0x94, CHR 0x9F, CHR 0xE6, CHR 0x88, CHR 0x90, CHR 0xEF, CHR 0xBC, CHR 0x8C, CHR 0xE8, CHR 0xAF, CHR 0xB7, CHR 0xE5, CHR 0x8B, CHR 0xBF, CHR 0xE6, CHR 0x89, CHR 0x8B, CHR 0xE6, CHR 0x94, CHR 0xB9, CHR 0xE3, CHR 0x80, CHR 0x82],
     '''',
     ''| dataset | ''
       @ [CHR 0xE5, CHR 0x9F, CHR 0x9F]
       @ '' | ''
       @ [CHR 0xE8, CHR 0xAF, CHR 0xB4, CHR 0xE6, CHR 0x98, CHR 0x8E]
       @ '' | ''
       @ [CHR 0xE5, CHR 0xAE, CHR 0x9E, CHR 0xE4, CHR 0xBD, CHR 0x93]
       @ '' | PIT ''
       @ [CHR 0xE7, CHR 0xB1, CHR 0xBB, CHR 0xE5, CHR 0x88, CHR 0xAB]
       @ '' | ''
       @ [CHR 0xE6, CHR 0x9D, CHR 0xA5, CHR 0xE6, CHR 0xBA, CHR 0x90]
       @ '' | ''
       @ [CHR 0xE8, CHR 0x8E, CHR 0xB7, CHR 0xE5, CHR 0x8F, CHR 0x96, CHR 0xE6, CHR 0x96, CHR 0xB9, CHR 0xE5, CHR 0xBC, CHR 0x8F]
       @ '' |'',
     ''|---|---|---|---|---|---|---|'']"

definition catalog_line :: "catalog_row \<Rightarrow> string" where
  "catalog_line row =
     ''| `'' @ ct_dataset row @ ''` | '' @ ct_domain row @ '' | '' @ ct_description row @ '' | '' @ ct_entity row
     @ '' | '' @ ct_pit_class row @ '' | '' @ ct_sources row @ '' | `'' @ ct_access row @ ''` |''"

definition catalog_markdown :: "dict_file list \<Rightarrow> load_error + string" where
  "catalog_markdown files =
     (case catalog files of
        Inl e \<Rightarrow> Inl e
      | Inr rows \<Rightarrow> Inr (join [CHR 0x0A] (CATALOG_HEADING @ map catalog_line rows @ ['''']) ))"

end
