(* ===== verification/Dictionary_Lineage.thy ===== *)
theory Dictionary_Lineage
  imports Dictionary
begin

text \<open>
  The lineage check is exact: with as many levels of recursion as there are datasets it always
  answers, and it reports no cycle precisely when the datasets do not depend on each other in a cycle.
  The proofs are about any successor function; \<open>edges succ\<close> is its relation.
\<close>

definition edges :: "('a \<Rightarrow> 'a list) \<Rightarrow> ('a \<times> 'a) set" where
  "edges succ = {(a, b). b \<in> set (succ a)}"

definition active :: "(string \<rightharpoonup> int) \<Rightarrow> string set" where
  "active state = {n. state n = Some 1}"

definition finished :: "(string \<rightharpoonup> int) \<Rightarrow> string set" where
  "finished state = {n. state n = Some 2}"

lemma finished_mark [simp]: "finished (state(node \<mapsto> 1)) = finished state - {node}" "finished (state(node \<mapsto> 2)) = insert node (finished state)"
  and active_mark [simp]: "active (state(node \<mapsto> 1)) = insert node (active state)" "active (state(node \<mapsto> 2)) = active state - {node}"
  by (auto simp: active_def finished_def)

lemma unseen_unmarked: "state n = None \<Longrightarrow> n \<notin> active state" "state n = None \<Longrightarrow> n \<notin> finished state"
  "n \<in> active state \<longleftrightarrow> state n = Some 1" "n \<in> finished state \<longleftrightarrow> state n = Some 2"
  by (simp_all add: active_def finished_def)

subsection \<open>Termination\<close>

definition unseen :: "string set \<Rightarrow> (string \<rightharpoonup> int) \<Rightarrow> nat" where
  "unseen nodes state = card {n \<in> nodes. state n = None}"

lemma unseen_mark:
  assumes "finite nodes" "node \<in> nodes" "state node = None"
  shows "unseen nodes state = Suc (unseen nodes (state(node \<mapsto> m)))"
proof -
  have "{n \<in> nodes. state n = None} = insert node {n \<in> nodes. (state(node \<mapsto> m)) n = None}" using assms(2,3) by auto
  moreover have "finite {n \<in> nodes. (state(node \<mapsto> m)) n = None}" using assms(1) by simp
  ultimately show ?thesis unfolding unseen_def by (simp add: card_insert_if)
qed

lemma unseen_mono: "finite nodes \<Longrightarrow> dom state \<subseteq> dom state' \<Longrightarrow> unseen nodes state' \<le> unseen nodes state"
  unfolding unseen_def by (rule card_mono) (auto simp: dom_def)

definition closed_under :: "(string \<Rightarrow> string list) \<Rightarrow> string set \<Rightarrow> bool" where
  "closed_under succ nodes \<longleftrightarrow> finite nodes \<and> (\<forall>n\<in>nodes. set (succ n) \<subseteq> nodes)"

lemma visit_returns:
  "closed_under succ nodes \<Longrightarrow> node \<in> nodes \<Longrightarrow> fst s node = None \<Longrightarrow> unseen nodes (fst s) \<le> n \<Longrightarrow>
     \<exists>s'. visit n succ node path s = Some s' \<and> dom (fst s) \<subseteq> dom (fst s')"
  "closed_under succ nodes \<Longrightarrow> set xs \<subseteq> nodes \<Longrightarrow> unseen nodes (fst s) \<le> n \<Longrightarrow>
     \<exists>s'. visit_all n succ node path xs s = Some s' \<and> dom (fst s) \<subseteq> dom (fst s')"
proof (induction n succ node path s and n succ node path xs s rule: visit_visit_all.induct)
  case (1 succ node path s)
  then have "unseen nodes (fst s) = Suc (unseen nodes ((fst s)(node \<mapsto> 1)))"
    by (intro unseen_mark) (auto simp: closed_under_def)
  with 1 show ?case by simp
next
  case (2 n succ node path state errors)
  then have "unseen nodes state = Suc (unseen nodes (state(node \<mapsto> 1)))"
    by (intro unseen_mark) (auto simp: closed_under_def)
  moreover have "set (succ node) \<subseteq> nodes" using 2 by (auto simp: closed_under_def)
  ultimately obtain s' where "visit_all n succ node path (succ node) (state(node \<mapsto> 1), errors) = Some s'"
    "dom (state(node \<mapsto> 1)) \<subseteq> dom (fst s')"
    using 2 by fastforce
  then show ?case by (cases s') auto
next
  case (3 n succ node path s) then show ?case by auto
next
  case (4 n succ node path nxt rest state errors)
  show ?case
  proof (cases "state nxt = None")
    case True
    then have v: "\<exists>s'. visit n succ nxt (path @ [node]) (state, errors) = Some s' \<and> dom state \<subseteq> dom (fst s')"
      using 4(2) 4(5-7) by simp
    then obtain s1 where s1: "visit n succ nxt (path @ [node]) (state, errors) = Some s1" "dom state \<subseteq> dom (fst s1)" by blast
    have "unseen nodes (fst s1) \<le> unseen nodes state" using 4(5) by (intro unseen_mono s1(2)) (simp add: closed_under_def)
    then have "unseen nodes (fst s1) \<le> n" using 4(7) by simp
    then obtain s' where "visit_all n succ node path rest s1 = Some s'" "dom (fst s1) \<subseteq> dom (fst s')"
      using 4(3) [OF _ True s1(1)] True 4(5,6) by auto
    with s1 True show ?thesis by auto
  next
    case False
    with 4 show ?thesis by auto
  qed
qed

lemma visit_roots_returns:
  "closed_under succ nodes \<Longrightarrow> set xs \<subseteq> nodes \<Longrightarrow> unseen nodes (fst s) \<le> n \<Longrightarrow> \<exists>s'. visit_roots n succ xs s = Some s'"
proof (induction xs arbitrary: s)
  case Nil then show ?case by simp
next
  case (Cons x xs)
  obtain state errors where s: "s = (state, errors)" by (cases s)
  show ?case
  proof (cases "state x = None")
    case True
    with visit_returns(1) [OF Cons.prems(1), of x s n "[]"] Cons.prems s
    obtain s1 where s1: "visit n succ x [] (state, errors) = Some s1" "dom state \<subseteq> dom (fst s1)" by auto
    have "unseen nodes (fst s1) \<le> unseen nodes state" using Cons.prems(1) by (intro unseen_mono s1(2)) (simp add: closed_under_def)
    with Cons.IH [of s1] Cons.prems s True s1(1) show ?thesis by simp
  next
    case False
    then obtain m where "state x = Some m" by blast
    with Cons s show ?thesis by simp
  qed
qed

subsection \<open>Without errors there is no cycle\<close>

lemma visit_errors:
  "visit n succ node path s = Some s' \<Longrightarrow> \<exists>more. snd s' = snd s @ more"
  "visit_all n succ node path xs s = Some s' \<Longrightarrow> \<exists>more. snd s' = snd s @ more"
proof (induction n succ node path s and n succ node path xs s arbitrary: s' and s' rule: visit_visit_all.induct)
  case (1 succ node path s) then show ?case by simp
next
  case (2 n succ node path state errors)
  then obtain s1 where "visit_all n succ node path (succ node) (state(node \<mapsto> 1), errors) = Some s1" "snd s' = snd s1"
    by (auto split: option.splits)
  with "2.IH" show ?case by fastforce
next
  case (3 n succ node path s) then show ?case by simp
next
  case (4 n succ node path nxt rest state errors)
  consider (act) "state nxt = Some 1" | (new) "state nxt = None" | (old) m where "state nxt = Some m" "m \<noteq> 1"
    by (cases "state nxt") auto
  then show ?case
  proof cases
    case act
    then have "visit_all n succ node path rest (state, errors @ [LineageCycle (path @ [node, nxt])]) = Some s'" using 4(5) by simp
    from 4(1) [OF act this] show ?thesis by auto
  next
    case new
    then obtain s1 where s1: "visit n succ nxt (path @ [node]) (state, errors) = Some s1" "visit_all n succ node path rest s1 = Some s'"
      using 4(5) by (auto split: option.splits)
    have "\<exists>more. snd s1 = snd (state, errors) @ more" using 4(2) [OF _ new s1(1)] new by simp
    moreover have "\<exists>more. snd s' = snd s1 @ more" using 4(3) [OF _ new s1] new by simp
    ultimately show ?thesis by auto
  next
    case old
    then have "visit_all n succ node path rest (state, errors) = Some s'" using 4(5) by simp
    with 4(4) old show ?thesis by simp
  qed
qed

definition settled_set :: "(string \<Rightarrow> string list) \<Rightarrow> string set \<Rightarrow> bool" where
  "settled_set succ F \<longleftrightarrow> (\<forall>b\<in>F. set (succ b) \<subseteq> F) \<and> acyclic (edges succ \<inter> F \<times> UNIV)"

definition settled :: "(string \<Rightarrow> string list) \<Rightarrow> (string \<rightharpoonup> int) \<Rightarrow> bool" where
  "settled succ state \<longleftrightarrow> ran state \<subseteq> {1, 2} \<and> settled_set succ (finished state)"

lemma settled_marks: "settled succ state \<Longrightarrow> state n = None \<or> state n = Some 1 \<or> state n = Some 2"
  by (cases "state n") (auto simp: settled_def ran_def)

lemma settled_active: "settled succ state \<Longrightarrow> state node = None \<Longrightarrow> settled succ (state(node \<mapsto> 1))"
  using ran_map_upd [of state node 1] by (simp add: settled_def unseen_unmarked)

lemma acyclic_add_source:
  assumes "acyclic r" and "a \<notin> Range r" and "a \<notin> B"
  shows "acyclic (r \<union> {a} \<times> B)"
proof (rule acyclicI, intro allI notI)
  fix x assume cyc: "(x, x) \<in> (r \<union> {a} \<times> B)\<^sup>+"
  have no: "(y, a) \<notin> r \<union> {a} \<times> B" for y using assms(2,3) by auto
  then have no_a: "(y, a) \<notin> (r \<union> {a} \<times> B)\<^sup>+" for y by (meson tranclE)
  have "(x, y) \<in> r\<^sup>+ \<or> y = a \<or> x = a" if "(x, y) \<in> (r \<union> {a} \<times> B)\<^sup>+" for y
    using that
  proof induction
    case (base y) then show ?case by auto
  next
    case (step y z) with no_a show ?case by (metis (no_types, lifting) Un_iff mem_Sigma_iff singletonD trancl.trancl_into_trancl)
  qed
  with cyc no_a assms(1) show False unfolding acyclic_def by blast
qed

lemma settled_finish:
  assumes "settled succ state" and "state node = Some 1" and "set (succ node) \<subseteq> finished state"
  shows "settled succ (state(node \<mapsto> 2))"
proof -
  let ?F = "finished state"
  have new: "edges succ \<inter> insert node ?F \<times> UNIV = (edges succ \<inter> ?F \<times> UNIV) \<union> {node} \<times> set (succ node)"
    by (auto simp: edges_def)
  have F: "settled_set succ ?F" and marks: "ran state \<subseteq> {1, 2}" using assms(1) by (simp_all add: settled_def)
  have out: "node \<notin> ?F" using assms(2) by (simp add: unseen_unmarked)
  have "acyclic (edges succ \<inter> insert node ?F \<times> UNIV)" unfolding new
  proof (rule acyclic_add_source)
    show "acyclic (edges succ \<inter> ?F \<times> UNIV)" using F by (simp add: settled_set_def)
    show "node \<notin> Range (edges succ \<inter> ?F \<times> UNIV)" using F out by (auto simp: settled_set_def edges_def)
    show "node \<notin> set (succ node)" using assms(3) out by blast
  qed
  moreover have "\<forall>b\<in>insert node ?F. set (succ b) \<subseteq> insert node ?F" using F assms(3) by (auto simp: settled_set_def)
  moreover have "ran (state(node \<mapsto> 2)) \<subseteq> {1, 2}" using marks by (auto simp: ran_def)
  ultimately show ?thesis by (simp add: settled_def settled_set_def)
qed

lemma visit_settles:
  "settled succ (fst s) \<Longrightarrow> fst s node = None \<Longrightarrow> visit n succ node path s = Some s' \<Longrightarrow> snd s' = [] \<Longrightarrow>
     settled succ (fst s') \<and> active (fst s') = active (fst s) \<and> insert node (finished (fst s)) \<subseteq> finished (fst s')"
  "settled succ (fst s) \<Longrightarrow> visit_all n succ node path xs s = Some s' \<Longrightarrow> snd s' = [] \<Longrightarrow>
     settled succ (fst s') \<and> active (fst s') = active (fst s) \<and> set xs \<union> finished (fst s) \<subseteq> finished (fst s')"
proof (induction n succ node path s and n succ node path xs s arbitrary: s' and s' rule: visit_visit_all.induct)
  case (1 succ node path s) then show ?case by simp
next
  case (2 n succ node path state errors)
  from 2(4) obtain st1 er1 where s1: "visit_all n succ node path (succ node) (state(node \<mapsto> 1), errors) = Some (st1, er1)"
    "s' = (st1(node \<mapsto> 2), er1)" by (auto split: option.splits)
  have new: "state node = None" using 2(3) by simp
  have st: "settled succ (fst (state(node \<mapsto> 1), errors))" using 2(2) new unfolding fst_conv by (rule settled_active)
  have er: "snd (st1, er1) = []" using 2(5) s1(2) by simp
  from "2.IH" [OF st s1(1) er] have st1: "settled succ st1" "active st1 = active (state(node \<mapsto> 1))"
    "set (succ node) \<union> finished (state(node \<mapsto> 1)) \<subseteq> finished st1" unfolding fst_conv by blast+
  have "st1 node = Some 1" using st1(2) by (auto simp flip: unseen_unmarked)
  with st1 have "settled succ (st1(node \<mapsto> 2))" by (intro settled_finish) auto
  moreover have "active (st1(node \<mapsto> 2)) = active state" using st1(2) unseen_unmarked(1) [of state node] new by simp
  moreover have "insert node (finished state) \<subseteq> finished (st1(node \<mapsto> 2))" using st1(3) unseen_unmarked(2) [of state node] new by auto
  ultimately show ?case unfolding s1(2) fst_conv by blast
next
  case (3 n succ node path s) then show ?case by simp
next
  case (4 n succ node path nxt rest state errors)
  consider (act) "state nxt = Some 1" | (new) "state nxt = None" | (old) "state nxt = Some 2"
    using settled_marks [of succ state nxt] 4(5) by auto
  then show ?case
  proof cases
    case act
    then have "visit_all n succ node path rest (state, errors @ [LineageCycle (path @ [node, nxt])]) = Some s'" using 4(6) by simp
    from visit_errors(2) [OF this] 4(7) show ?thesis by auto
  next
    case new
    then obtain s1 where s1: "visit n succ nxt (path @ [node]) (state, errors) = Some s1" "visit_all n succ node path rest s1 = Some s'"
      using 4(6) by (auto split: option.splits)
    have e1: "snd s1 = []" using visit_errors(2) [OF s1(2)] 4(7) by auto
    have n1: "state nxt \<noteq> Some 1" using new by simp
    have a: "settled succ (fst s1)" "active (fst s1) = active state" "insert nxt (finished state) \<subseteq> finished (fst s1)"
      using 4(2) [OF n1 new _ _ s1(1) e1] 4(5) new by auto
    have b: "settled succ (fst s')" "active (fst s') = active (fst s1)" "set rest \<union> finished (fst s1) \<subseteq> finished (fst s')"
      using 4(3) [OF n1 new s1(1) a(1) s1(2) 4(7)] by auto
    from a b show ?thesis by auto
  next
    case old
    then have v: "visit_all n succ node path rest (state, errors) = Some s'" using 4(6) by simp
    have n1: "state nxt \<noteq> Some 1" "state nxt \<noteq> None" using old by auto
    have "settled succ (fst s') \<and> active (fst s') = active state \<and> set rest \<union> finished state \<subseteq> finished (fst s')"
      using 4(4) [OF n1 _ v 4(7)] 4(5) by simp
    with old show ?thesis by (auto simp: unseen_unmarked)
  qed
qed

lemma roots_errors: "visit_roots n succ xs s = Some s' \<Longrightarrow> \<exists>more. snd s' = snd s @ more"
proof (induction xs arbitrary: s)
  case Nil then show ?case by simp
next
  case (Cons x xs)
  obtain state errors where s: "s = (state, errors)" by (cases s)
  show ?case
  proof (cases "state x = None")
    case True
    then obtain s1 where s1: "visit n succ x [] s = Some s1" "visit_roots n succ xs s1 = Some s'"
      using Cons.prems s by (auto split: option.splits)
    from Cons.IH [OF s1(2)] visit_errors(1) [OF s1(1)] show ?thesis by auto
  next
    case False
    then have "visit_roots n succ xs s = Some s'" using Cons.prems s by (auto split: if_splits)
    then show ?thesis by (rule Cons.IH)
  qed
qed

lemma roots_settle:
  "settled succ (fst s) \<Longrightarrow> active (fst s) = {} \<Longrightarrow> visit_roots n succ xs s = Some s' \<Longrightarrow> snd s' = [] \<Longrightarrow>
     settled succ (fst s') \<and> set xs \<union> finished (fst s) \<subseteq> finished (fst s')"
proof (induction xs arbitrary: s)
  case Nil then show ?case by simp
next
  case (Cons x xs)
  obtain state errors where s: "s = (state, errors)" by (cases s)
  show ?case
  proof (cases "state x = None")
    case True
    then obtain s1 where s1: "visit n succ x [] s = Some s1" "visit_roots n succ xs s1 = Some s'"
      using Cons.prems(3) s by (auto split: option.splits)
    from roots_errors [OF s1(2)] Cons.prems(4) have e1: "snd s1 = []" by auto
    have new: "fst s x = None" using True s by simp
    from visit_settles(1) [OF Cons.prems(1) new s1(1) e1] Cons.prems(2)
    have a: "settled succ (fst s1)" "active (fst s1) = {}" "insert x (finished (fst s)) \<subseteq> finished (fst s1)" by auto
    from Cons.IH [OF a(1,2) s1(2) Cons.prems(4)] a(3) show ?thesis by auto
  next
    case False
    then have v: "visit_roots n succ xs s = Some s'" using Cons.prems(3) s by (auto split: if_splits)
    have "x \<in> finished state" using settled_marks [of succ state x] Cons.prems(1,2) s False by (auto simp: unseen_unmarked active_def)
    with Cons.IH [OF Cons.prems(1,2) v Cons.prems(4)] s show ?thesis by auto
  qed
qed

subsection \<open>Without a cycle there are no errors\<close>

lemma visit_quiet:
  "acyclic (edges succ) \<Longrightarrow> \<forall>g\<in>active (fst s). (g, node) \<in> (edges succ)\<^sup>* \<Longrightarrow> fst s node = None
     \<Longrightarrow> visit n succ node path s = Some s' \<Longrightarrow> snd s' = snd s \<and> active (fst s') = active (fst s)"
  "acyclic (edges succ) \<Longrightarrow> \<forall>g\<in>active (fst s). (g, node) \<in> (edges succ)\<^sup>* \<Longrightarrow> set xs \<subseteq> set (succ node)
     \<Longrightarrow> visit_all n succ node path xs s = Some s' \<Longrightarrow> snd s' = snd s \<and> active (fst s') = active (fst s)"
proof (induction n succ node path s and n succ node path xs s arbitrary: s' and s' rule: visit_visit_all.induct)
  case (1 succ node path s) then show ?case by simp
next
  case (2 n succ node path state errors)
  from 2(5) obtain st1 er1 where s1: "visit_all n succ node path (succ node) (state(node \<mapsto> 1), errors) = Some (st1, er1)"
    "s' = (st1(node \<mapsto> 2), er1)" by (auto split: option.splits)
  have new: "state node = None" using 2(4) by simp
  have act: "\<forall>g\<in>active (fst (state(node \<mapsto> 1), errors)). (g, node) \<in> (edges succ)\<^sup>*" using 2(3) by simp
  from "2.IH" [OF 2(2) act subset_refl s1(1)] have "er1 = errors" "active st1 = active (state(node \<mapsto> 1))"
    unfolding fst_conv snd_conv by blast+
  moreover have "active (st1(node \<mapsto> 2)) = active state"
    using calculation(2) unseen_unmarked(1) [of state node] new by simp
  ultimately show ?case unfolding s1(2) fst_conv snd_conv by blast
next
  case (3 n succ node path s) then show ?case by simp
next
  case (4 n succ node path nxt rest state errors)
  have step: "(node, nxt) \<in> edges succ" and rest: "set rest \<subseteq> set (succ node)" using 4(7) by (auto simp: edges_def)
  have "(nxt, nxt) \<in> (edges succ)\<^sup>+" if "nxt \<in> active state"
    using 4(6) that step by (metis fst_conv rtrancl_into_trancl1)
  then have na: "state nxt \<noteq> Some 1" using 4(5) by (auto simp: acyclic_def active_def)
  show ?case
  proof (cases "state nxt = None")
    case True
    then obtain s1 where s1: "visit n succ nxt (path @ [node]) (state, errors) = Some s1" "visit_all n succ node path rest s1 = Some s'"
      using 4(8) by (auto split: option.splits)
    have act: "\<forall>g\<in>active (fst (state, errors)). (g, nxt) \<in> (edges succ)\<^sup>*"
      using 4(6) step by (meson rtrancl.rtrancl_into_rtrancl)
    have new: "fst (state, errors) nxt = None" using True by simp
    from 4(2) [OF na True 4(5) act new s1(1)] have a: "snd s1 = errors" "active (fst s1) = active state" by simp_all
    have act1: "\<forall>g\<in>active (fst s1). (g, node) \<in> (edges succ)\<^sup>*" using 4(6) a(2) by simp
    from 4(3) [OF na True s1(1) 4(5) act1 rest s1(2)] a show ?thesis by simp
  next
    case False
    then obtain m where "state nxt = Some m" by blast
    then have "visit_all n succ node path rest (state, errors) = Some s'" using 4(8) na by simp
    from 4(4) [OF na False 4(5,6) rest this] show ?thesis .
  qed
qed

lemma roots_quiet:
  "acyclic (edges succ) \<Longrightarrow> active (fst s) = {} \<Longrightarrow> visit_roots n succ xs s = Some s' \<Longrightarrow> snd s' = snd s"
proof (induction xs arbitrary: s)
  case Nil then show ?case by simp
next
  case (Cons x xs)
  obtain state errors where s: "s = (state, errors)" by (cases s)
  show ?case
  proof (cases "state x = None")
    case True
    then obtain s1 where s1: "visit n succ x [] s = Some s1" "visit_roots n succ xs s1 = Some s'"
      using Cons.prems(3) s by (auto split: option.splits)
    have "snd s1 = snd s \<and> active (fst s1) = active (fst s)"
      using visit_quiet(1) [OF Cons.prems(1) _ _ s1(1)] Cons.prems(2) True s by simp
    with Cons.IH [OF Cons.prems(1) _ s1(2)] Cons.prems(2) show ?thesis by simp
  next
    case False
    then have "visit_roots n succ xs s = Some s'" using Cons.prems(3) s by (auto split: if_splits)
    with Cons.IH [OF Cons.prems(1,2)] show ?thesis by simp
  qed
qed

subsection \<open>The datasets\<close>

lemma targets_edges: "edges (targets es) = set es"
  by (force simp: edges_def targets_def)

lemma edges_of_nodes:
  assumes "(u, v) \<in> set (edges_of specs)"
  shows "u \<in> set (dict_keys specs)" and "v \<in> set (dict_keys specs)"
  using assms by (force simp: edges_of_def)+

text \<open>\<open>a\<close> is read by \<open>b\<close>: it is an upstream of \<open>b\<close>'s lineage, or another dataset an input of a derived
  field of \<open>b\<close> belongs to; both are in the dictionary.\<close>

definition reads :: "specs \<Rightarrow> (string \<times> string) set" where
  "reads specs = {(a, b). a \<in> set (dict_keys specs) \<and> (\<exists>spec. (b, spec) \<in> set specs \<and>
     (a \<in> set (ds_upstream spec)
      \<or> a \<noteq> b \<and> (\<exists>entry\<in>set (or_empty (ds_derived spec)). \<exists>ref\<in>set (de_inputs entry). a = fst (ref_parts ref))))}"

lemma edges_of_reads: "set (edges_of specs) = reads specs"
proof -
  have "(a, b) \<in> set (edges_of specs) \<longleftrightarrow> (a, b) \<in> reads specs" for a b
  proof
    assume "(a, b) \<in> set (edges_of specs)"
    then obtain spec where "(b, spec) \<in> set specs" "a \<in> set (dict_keys specs)"
      "a \<in> set (ds_upstream spec) \<or> a \<noteq> b \<and> (\<exists>entry\<in>set (or_empty (ds_derived spec)). \<exists>ref\<in>set (de_inputs entry). a = fst (ref_parts ref))"
      by (force simp: edges_of_def)
    then show "(a, b) \<in> reads specs" unfolding reads_def by blast
  next
    assume "(a, b) \<in> reads specs"
    then obtain spec where spec: "(b, spec) \<in> set specs" "a \<in> set (dict_keys specs)"
      "a \<in> set (ds_upstream spec) \<or> a \<noteq> b \<and> (\<exists>entry\<in>set (or_empty (ds_derived spec)). \<exists>ref\<in>set (de_inputs entry). a = fst (ref_parts ref))"
      unfolding reads_def by blast
    show "(a, b) \<in> set (edges_of specs)"
      unfolding edges_of_def set_concat set_map using spec by (intro UN_I [OF imageI [OF spec(1)]]) auto
  qed
  then show ?thesis by (simp add: set_eq_iff)
qed

lemma targets_closed: "closed_under (targets (edges_of specs)) (set (dict_keys specs))"
  using edges_of_nodes by (force simp: closed_under_def targets_def)

lemma acyclic_returns:
  assumes "length specs \<le> fuel"
  shows "\<exists>errors. validate_acyclic fuel specs = Some errors"
proof -
  have "unseen (set (dict_keys specs)) Map.empty \<le> length specs"
    unfolding unseen_def using card_length [of "dict_keys specs"] by simp
  with assms visit_roots_returns [OF targets_closed [of specs], of "sort (dict_keys specs)" "(Map.empty, [])" fuel]
  show ?thesis by (auto simp: validate_acyclic_def)
qed

lemma acyclic_exact:
  assumes "length specs \<le> fuel"
  shows "validate_acyclic fuel specs = Some [] \<longleftrightarrow> acyclic (reads specs)"
proof -
  let ?succ = "targets (edges_of specs)"
  obtain errors where e: "validate_acyclic fuel specs = Some errors" using acyclic_returns [OF assms] by blast
  then obtain state where run: "visit_roots fuel ?succ (sort (dict_keys specs)) (Map.empty, []) = Some (state, errors)"
    by (auto simp: validate_acyclic_def)
  have E: "edges ?succ = reads specs" by (simp add: targets_edges edges_of_reads)
  have start: "active (fst (Map.empty, [] :: dict_error list)) = {}" "settled ?succ (fst (Map.empty, [] :: dict_error list))"
    by (simp_all add: active_def settled_def settled_set_def finished_def acyclic_def)
  have "acyclic (reads specs)" if "errors = []"
  proof -
    from roots_settle [OF start(2,1) run] that have st: "settled ?succ state" "set (dict_keys specs) \<subseteq> finished state" by simp_all
    have "reads specs \<subseteq> finished state \<times> UNIV" using st(2) by (auto simp: reads_def)
    then have "edges ?succ \<inter> finished state \<times> UNIV = reads specs" unfolding E by blast
    with st(1) show ?thesis by (simp add: settled_def settled_set_def)
  qed
  moreover have "errors = []" if "acyclic (reads specs)"
    using roots_quiet [OF _ start(1) run] that by (simp add: E)
  ultimately show ?thesis using e by auto
qed

end
