(* ===== verification/Storage_Schema.thy ===== *)
theory Storage_Schema
  imports Dictionary_Lineage
begin

text \<open>
  The storage schema (\<open>storage/schema.py\<close>, \<open>storage/engine.py\<close>): the tables SQLAlchemy is given for the
  dictionary, merged with the hand-written tables of \<open>registry/schema.py\<close> and \<open>runtime/schema.py\<close>, the
  TimescaleDB statements, and the statements that creating everything executes.  What SQLAlchemy refuses
  (a table or a column defined twice, an index on a column that is not there) is an error.
\<close>

subsection \<open>Tables\<close>

datatype sql_type = SQL_BigInteger | SQL_Integer | SQL_Double | SQL_Numeric "int option" "int option" | SQL_Boolean
  | SQL_Date | SQL_DateTime bool | SQL_Text | SQL_String nat

record column =
  cl_name :: string
  cl_type :: sql_type
  cl_nullable :: bool
  cl_primary :: bool

record index_def =
  ix_name :: string
  ix_columns :: "string list"

record table_def =
  tb_schema :: string
  tb_name :: string
  tb_columns :: "column list"
  tb_indexes :: "index_def list"

definition col :: "string \<Rightarrow> sql_type \<Rightarrow> bool \<Rightarrow> bool \<Rightarrow> column" where
  "col name ty nullable primary = \<lparr>cl_name = name, cl_type = ty, cl_nullable = nullable, cl_primary = primary\<rparr>"

definition tb_key :: "table_def \<Rightarrow> string" where "tb_key t = tb_schema t @ ''.'' @ tb_name t"

fun column_type :: "field_spec \<Rightarrow> sql_type" where
  "column_type f = (case fs_type f of
     T_int64 \<Rightarrow> SQL_BigInteger
   | T_float64 \<Rightarrow> SQL_Double
   | T_decimal \<Rightarrow> SQL_Numeric (fs_precision f) (fs_scale f)
   | T_bool \<Rightarrow> SQL_Boolean
   | T_date \<Rightarrow> SQL_Date
   | T_timestamp \<Rightarrow> SQL_DateTime False
   | T_timestamp_tz \<Rightarrow> SQL_DateTime True
   | T_enum \<Rightarrow> SQL_Text
   | T_string \<Rightarrow> SQL_Text)"

datatype schema_error = SchemaLoad load_error | NoTableName string | TableDefined string | ColumnDefined string string
  | NoColumn string string | NoEventTime string

text \<open>\<open>canonical_table.split('.', 1)[1]\<close>.\<close>

definition table_name :: "dataset_spec \<Rightarrow> string option" where
  "table_name spec = map_option snd (partition_first CHR ''.'' (st_canonical_table (ds_storage spec)))"

definition spec_column :: "dataset_spec \<Rightarrow> field_spec \<Rightarrow> column" where
  "spec_column spec field = col (fs_name field) (column_type field) (fs_nullable field) (fs_name field \<in> set (ds_physical_key spec))"

definition spec_table :: "table_def list \<Rightarrow> string \<Rightarrow> dataset_spec \<Rightarrow> schema_error + table_def" where
  "spec_table tables dataset spec =
     (case table_name spec of
        None \<Rightarrow> Inl (NoTableName dataset)
      | Some name \<Rightarrow>
          let t = \<lparr>tb_schema = domain_value (ds_domain spec), tb_name = name,
                tb_columns = map (spec_column spec) (ds_fields spec),
                tb_indexes = [\<lparr>ix_name = ''ix_'' @ name @ ''_business'', ix_columns = ds_business_key spec\<rparr>]\<rparr>
          in if tb_key t \<in> tb_key ` set tables then Inl (TableDefined (tb_key t))
             else if \<not> distinct (field_names spec) then Inl (ColumnDefined dataset name)
             else (case filter (\<lambda>k. k \<notin> set (field_names spec)) (ds_business_key spec) of
                 k # _ \<Rightarrow> Inl (NoColumn dataset k)
               | [] \<Rightarrow> Inr t))"

fun add_spec_tables :: "(string \<times> dataset_spec) list \<Rightarrow> table_def list \<Rightarrow> schema_error + table_def list" where
  "add_spec_tables [] tables = Inr tables"
| "add_spec_tables ((dataset, spec) # rest) tables =
     (case spec_table tables dataset spec of Inl e \<Rightarrow> Inl e | Inr t \<Rightarrow> add_spec_tables rest (tables @ [t]))"

text \<open>
  The dictionary's table keeps its columns and gets the indexes of the hand-written one.  The test
  \<open>index.name in target.indexes\<close> compares a name with a set of indexes and never holds.
\<close>

fun add_indexes :: "table_def \<Rightarrow> index_def list \<Rightarrow> schema_error + table_def" where
  "add_indexes t [] = Inr t"
| "add_indexes t (ix # rest) =
     (case filter (\<lambda>c. c \<notin> cl_name ` set (tb_columns t)) (ix_columns ix) of
        c # _ \<Rightarrow> Inl (NoColumn (tb_key t) c)
      | [] \<Rightarrow> add_indexes (t\<lparr>tb_indexes := tb_indexes t @ [ix]\<rparr>) rest)"

fun merge_ref :: "table_def list \<Rightarrow> table_def list \<Rightarrow> schema_error + table_def list" where
  "merge_ref [] tables = Inr tables"
| "merge_ref (r # rest) tables =
     (case find (\<lambda>t. tb_key t = tb_key r) tables of
        None \<Rightarrow> merge_ref rest (tables @ [r])
      | Some target \<Rightarrow>
          (case add_indexes target (tb_indexes r) of
             Inl e \<Rightarrow> Inl e
           | Inr t \<Rightarrow> merge_ref rest (map (\<lambda>x. if tb_key x = tb_key r then t else x) tables)))"

definition merge_runtime :: "table_def list \<Rightarrow> table_def list \<Rightarrow> table_def list" where
  "merge_runtime runtime tables = fold (\<lambda>r ts. if tb_key r \<in> tb_key ` set ts then ts else ts @ [r]) runtime tables"

definition REF_METADATA :: "table_def list" where
  "REF_METADATA =
    [\<lparr>tb_schema = ''ref'', tb_name = ''entity'', tb_columns =
       [col ''entity_id'' SQL_BigInteger False True,
        col ''entity_type'' (SQL_String 16) False False,
        col ''entity_class'' (SQL_String 32) True False,
        col ''market'' (SQL_String 16) True False,
        col ''code'' (SQL_String 32) False False,
        col ''name'' (SQL_String 64) False False,
        col ''currency'' (SQL_String 8) True False,
        col ''exchange'' (SQL_String 16) True False,
        col ''frequency'' (SQL_String 16) True False,
        col ''unit'' (SQL_String 16) True False,
        col ''algorithm_id'' (SQL_String 64) True False,
        col ''social_status'' (SQL_String 16) True False,
        col ''valid_from'' SQL_Date False True,
        col ''valid_to'' SQL_Date True False,
        col ''knowledge_time'' (SQL_DateTime True) False True,
        col ''version'' SQL_BigInteger False True],
       tb_indexes = [\<lparr>ix_name = ''ix_entity_code'', ix_columns = [''code'']\<rparr>]\<rparr>,
     \<lparr>tb_schema = ''ref'', tb_name = ''entity_code_history'', tb_columns =
       [col ''entity_id'' SQL_BigInteger False True,
        col ''code'' (SQL_String 32) False True,
        col ''valid_from'' SQL_Date False True,
        col ''valid_to'' SQL_Date True False,
        col ''knowledge_time'' (SQL_DateTime True) False True,
        col ''version'' SQL_BigInteger False True],
       tb_indexes = [\<lparr>ix_name = ''ix_entity_code_history_code'', ix_columns = [''code'']\<rparr>]\<rparr>,
     \<lparr>tb_schema = ''ref'', tb_name = ''entity_relation'', tb_columns =
       [col ''entity_id'' SQL_BigInteger False True,
        col ''related_id'' SQL_BigInteger False True,
        col ''relation_type'' (SQL_String 32) False True,
        col ''valid_from'' SQL_Date False True,
        col ''valid_to'' SQL_Date True False,
        col ''knowledge_time'' (SQL_DateTime True) False True,
        col ''version'' SQL_BigInteger False True],
       tb_indexes = [\<lparr>ix_name = ''ix_entity_relation_related'', ix_columns = [''related_id'']\<rparr>]\<rparr>,
     \<lparr>tb_schema = ''ref'', tb_name = ''entity_external_id'', tb_columns =
       [col ''entity_id'' SQL_BigInteger False True,
        col ''id_type'' (SQL_String 16) False True,
        col ''id_value'' (SQL_String 64) False True,
        col ''valid_from'' SQL_Date False True,
        col ''valid_to'' SQL_Date True False,
        col ''knowledge_time'' (SQL_DateTime True) False True,
        col ''version'' SQL_BigInteger False True],
       tb_indexes = [\<lparr>ix_name = ''ix_entity_external_id_value'', ix_columns = [''id_value'']\<rparr>]\<rparr>,
     \<lparr>tb_schema = ''ref'', tb_name = ''relation_type_dict'', tb_columns =
       [col ''relation_type'' (SQL_String 32) False True,
        col ''valid_from'' SQL_Date False True,
        col ''knowledge_time'' (SQL_DateTime True) False True,
        col ''version'' SQL_BigInteger False True,
        col ''inverse_relation'' (SQL_String 32) False False,
        col ''description'' (SQL_String 128) False False,
        col ''valid_to'' SQL_Date True False],
       tb_indexes = []\<rparr>]"

definition RUNTIME_METADATA :: "table_def list" where
  "RUNTIME_METADATA =
    [\<lparr>tb_schema = ''meta'', tb_name = ''job_defs'', tb_columns =
       [col ''job_id'' (SQL_String 64) False True,
        col ''kind'' (SQL_String 16) False False,
        col ''dataset'' (SQL_String 64) False False,
        col ''schedule'' (SQL_String 64) True False,
        col ''priority'' SQL_Integer False False,
        col ''max_attempts'' SQL_Integer False False,
        col ''enabled'' SQL_Boolean False False,
        col ''updated_at'' (SQL_DateTime True) False False],
       tb_indexes = []\<rparr>,
     \<lparr>tb_schema = ''meta'', tb_name = ''job_dependencies'', tb_columns =
       [col ''parent_job'' (SQL_String 64) False True,
        col ''child_job'' (SQL_String 64) False True,
        col ''condition'' (SQL_String 16) False False,
        col ''updated_at'' (SQL_DateTime True) False False],
       tb_indexes = [\<lparr>ix_name = ''ix_job_dependencies_child'', ix_columns = [''child_job'']\<rparr>]\<rparr>,
     \<lparr>tb_schema = ''meta'', tb_name = ''job_runs'', tb_columns =
       [col ''run_id'' SQL_Integer False True,
        col ''job_key'' (SQL_String 64) False False,
        col ''job_id'' (SQL_String 64) False False,
        col ''kind'' (SQL_String 16) False False,
        col ''dataset'' (SQL_String 64) False False,
        col ''scope'' (SQL_String 64) False False,
        col ''window_start'' SQL_Date True False,
        col ''window_end'' SQL_Date True False,
        col ''version_dimension'' (SQL_String 64) True False,
        col ''status'' (SQL_String 16) False False,
        col ''attempt'' SQL_Integer False False,
        col ''max_attempts'' SQL_Integer False False,
        col ''priority'' SQL_Integer False False,
        col ''scheduled_at'' (SQL_DateTime True) False False,
        col ''started_at'' (SQL_DateTime True) True False,
        col ''finished_at'' (SQL_DateTime True) True False,
        col ''rows_written'' SQL_BigInteger True False,
        col ''error'' SQL_Text True False,
        col ''request_id'' (SQL_String 64) True False,
        col ''worker'' (SQL_String 64) True False,
        col ''updated_at'' (SQL_DateTime True) False False],
       tb_indexes = [\<lparr>ix_name = ''ix_job_runs_job_key'', ix_columns = [''job_key'']\<rparr>, \<lparr>ix_name = ''ix_job_runs_status'', ix_columns = [''status'']\<rparr>]\<rparr>,
     \<lparr>tb_schema = ''meta'', tb_name = ''watermarks'', tb_columns =
       [col ''dataset'' (SQL_String 64) False True,
        col ''scope'' (SQL_String 64) False True,
        col ''watermark_time'' (SQL_DateTime True) True False,
        col ''updated_at'' (SQL_DateTime True) False False],
       tb_indexes = []\<rparr>]"

definition build_metadata :: "dict_file list \<Rightarrow> bool \<Rightarrow> schema_error + table_def list \<times> specs" where
  "build_metadata files include_runtime =
     (case load_all files of
        Inl e \<Rightarrow> Inl (SchemaLoad e)
      | Inr specs \<Rightarrow>
          (case add_spec_tables (sort_key fst specs) [] of
             Inl e \<Rightarrow> Inl e
           | Inr tables \<Rightarrow>
               (case merge_ref REF_METADATA tables of
                  Inl e \<Rightarrow> Inl e
                | Inr merged \<Rightarrow> Inr (if include_runtime then merge_runtime RUNTIME_METADATA merged else merged, specs))))"

subsection \<open>TimescaleDB\<close>

definition event_time_field :: "dataset_spec \<Rightarrow> string option" where
  "event_time_field spec = map_option fs_name (find (\<lambda>f. fs_pit_role f = R_event_time) (ds_fields spec))"

definition compression_sql :: "string \<Rightarrow> string \<Rightarrow> string \<Rightarrow> string" where
  "compression_sql qualified segment_by order_by =
     ''ALTER TABLE '' @ qualified @ '' SET (timescaledb.compress, timescaledb.compress_segmentby = '' @ [CHR 0x27] @ segment_by
     @ [CHR 0x27] @ '', timescaledb.compress_orderby = '' @ [CHR 0x27] @ order_by @ [CHR 0x27] @ '');''"

definition hypertable_sql :: "string \<Rightarrow> string \<Rightarrow> string \<Rightarrow> string" where
  "hypertable_sql qualified partition_column interval =
     ''SELECT create_hypertable('' @ [CHR 0x27] @ qualified @ [CHR 0x27] @ '', '' @ [CHR 0x27] @ partition_column @ [CHR 0x27]
     @ '', chunk_time_interval => INTERVAL '' @ [CHR 0x27] @ interval @ [CHR 0x27]
     @ '', migrate_data => TRUE, if_not_exists => TRUE);''"

definition policy_sql :: "string \<Rightarrow> string \<Rightarrow> string" where
  "policy_sql qualified after =
     ''SELECT add_compression_policy('' @ [CHR 0x27] @ qualified @ [CHR 0x27] @ '', INTERVAL '' @ [CHR 0x27] @ after @ [CHR 0x27]
     @ '', if_not_exists => TRUE);''"

definition spec_statements :: "string \<times> dataset_spec \<Rightarrow> schema_error + string list" where
  "spec_statements = (\<lambda>(dataset, spec).
     let storage = ds_storage spec in
     if st_partition_strategy storage = PT_none then Inr []
     else (case (if st_partition_strategy storage = PT_knowledge_time then Some ''knowledge_time'' else event_time_field spec) of
         None \<Rightarrow> Inl (NoEventTime (ds_dataset spec))
       | Some partition_column \<Rightarrow>
           (case table_name spec of
              None \<Rightarrow> Inl (NoTableName dataset)
            | Some name \<Rightarrow>
                let qualified = domain_value (ds_domain spec) @ ''.'' @ name in
                Inr (hypertable_sql qualified partition_column (st_partition_interval storage)
                  # (case st_compression storage of
                       None \<Rightarrow> []
                     | Some c \<Rightarrow> [compression_sql qualified (cs_segment_by c) (cs_order_by c), policy_sql qualified (cs_after c)])))))"

fun collect :: "('e + 'a list) list \<Rightarrow> 'e + 'a list" where
  "collect [] = Inr []"
| "collect (Inl e # rest) = Inl e"
| "collect (Inr xs # rest) = (case collect rest of Inl e \<Rightarrow> Inl e | Inr ys \<Rightarrow> Inr (xs @ ys))"

definition timescale_statements :: "specs \<Rightarrow> schema_error + string list" where
  "timescale_statements specs = collect (map spec_statements (sort_key fst specs))"

text \<open>\<open>ensure_schema\<close>: what is executed, in order; \<open>sorted_tables\<close> of tables without foreign keys is the
  order of their keys.\<close>

datatype dialect = D_postgresql | D_sqlite | D_other

definition table_sql :: "table_def \<Rightarrow> string list" where
  "table_sql t = (''CREATE TABLE IF NOT EXISTS '' @ tb_key t)
     # map (\<lambda>i. ''CREATE INDEX IF NOT EXISTS '' @ ix_name i) (sort_key ix_name (tb_indexes t))"

definition ensure_schema :: "dialect \<Rightarrow> bool option \<Rightarrow> table_def list \<Rightarrow> specs \<Rightarrow> schema_error + string list" where
  "ensure_schema dialect timescale tables specs =
     (let schemas = (if dialect = D_sqlite then []
            else map (\<lambda>s. ''CREATE SCHEMA IF NOT EXISTS '' @ s) (sort (remdups (map tb_schema tables))));
          created = schemas @ concat (map table_sql (sort_key tb_key tables))
      in if timescale = Some True \<and> dialect = D_postgresql \<and> specs \<noteq> [] then
           (case timescale_statements specs of Inl e \<Rightarrow> Inl e | Inr ss \<Rightarrow> Inr (created @ ss))
         else Inr created)"

end
