(* ===== verification/Dictionary_Properties.thy ===== *)
theory Dictionary_Properties
  imports Storage_Schema
begin

text \<open>
  What the dictionary's gate is worth: its lineage check is exact, a directory it passes loads as the
  same entries, and the schema generated from them has the keys and types the entries declare.
\<close>

subsection \<open>Lineage\<close>

text \<open>C17. The lineage check of \<open>validate_directory\<close> always answers, and it reports no cycle exactly when
  no dataset is read, through any number of others, by one it reads itself; a field derived within
  its own dataset does not count.\<close>

theorem lineage_check_exact:
  "\<exists>errors. validate_acyclic (length specs) specs = Some errors \<and> (errors = [] \<longleftrightarrow> acyclic (reads specs))"
proof -
  obtain errors where "validate_acyclic (length specs) specs = Some errors" using acyclic_returns [of specs "length specs"] by auto
  with acyclic_exact [of specs "length specs"] show ?thesis by auto
qed

subsection \<open>Loading\<close>

lemma flag_Nil [simp]: "flag b e = [] \<longleftrightarrow> \<not> b"
  by (simp add: flag_def)

lemma file_step_grows: "\<exists>more. fst (fold file_step files (errors, specs)) = errors @ more"
proof (induction files arbitrary: errors specs)
  case Nil then show ?case by simp
next
  case (Cons f files)
  obtain errors' specs' where step: "file_step f (errors, specs) = (errors @ errors', specs')"
    by (cases "skipped_file f"; cases "load_file f") (auto simp: file_step_def)
  from Cons.IH [of "errors @ errors'" specs'] step show ?case by auto
qed

definition path_id :: "dict_file \<Rightarrow> string" where "path_id f = join ''.'' (df_parts f)"

definition entry_of :: "dict_file \<Rightarrow> string \<times> dataset_spec" where
  "entry_of f = (path_id f, case load_file f of Inr spec \<Rightarrow> spec | Inl _ \<Rightarrow> undefined)"

lemma clean_load:
  assumes "fold file_step files ([], specs0) = ([], specs)"
  shows "load_from files specs0 = Inr specs \<and> specs = specs0 @ map entry_of (filter (\<lambda>f. \<not> skipped_file f) files)
    \<and> (\<forall>f\<in>set files. \<not> skipped_file f \<longrightarrow> (\<exists>spec. load_file f = Inr spec \<and> ds_dataset spec = path_id f))
    \<and> (distinct (dict_keys specs0) \<longrightarrow> distinct (dict_keys specs))"
  using assms
proof (induction files arbitrary: specs0)
  case Nil then show ?case by simp
next
  case (Cons f files)
  show ?case
  proof (cases "skipped_file f")
    case True
    with Cons show ?thesis by (auto simp: file_step_def)
  next
    case False
    obtain e1 s1 where step: "file_step f ([], specs0) = (e1, s1)" by force
    with Cons.prems file_step_grows [of files e1 s1] have e1: "e1 = []" by auto
    obtain spec where load: "load_file f = Inr spec"
      using step e1 False by (cases "load_file f") (auto simp: file_step_def)
    have eq: "ds_dataset spec = path_id f" and new: "ds_dataset spec \<notin> set (dict_keys specs0)"
      and s1: "s1 = AList.update (ds_dataset spec) spec specs0"
      using step e1 False load by (auto simp: file_step_def path_id_def)
    have s1': "s1 = specs0 @ [entry_of f]" using s1 new load eq by (simp add: update_new entry_of_def)
    have "fold file_step files ([], s1) = ([], specs)" using Cons.prems step e1 by simp
    from Cons.IH [OF this] have IH: "load_from files s1 = Inr specs"
      "specs = s1 @ map entry_of (filter (\<lambda>f. \<not> skipped_file f) files)"
      "\<forall>f\<in>set files. \<not> skipped_file f \<longrightarrow> (\<exists>spec. load_file f = Inr spec \<and> ds_dataset spec = path_id f)"
      "distinct (dict_keys s1) \<longrightarrow> distinct (dict_keys specs)" by blast+
    have "distinct (dict_keys specs0) \<Longrightarrow> distinct (dict_keys s1)" using new eq by (auto simp: s1' entry_of_def)
    then have "distinct (dict_keys specs0) \<longrightarrow> distinct (dict_keys specs)" using IH(4) by blast
    moreover have "load_from (f # files) specs0 = Inr specs" using False load new s1 IH(1) by simp
    moreover have "specs = specs0 @ map entry_of (filter (\<lambda>f. \<not> skipped_file f) (f # files))" using IH(2) s1' False by simp
    moreover have "\<forall>g\<in>set (f # files). \<not> skipped_file g \<longrightarrow> (\<exists>spec. load_file g = Inr spec \<and> ds_dataset spec = path_id g)"
      using IH(3) load eq by simp
    ultimately show ?thesis by blast
  qed
qed

subsection \<open>What a passed entry satisfies\<close>

text \<open>
  Written out per class and apart from the tables of the validator: market data is partitioned by
  event time, versioned data by knowledge time, snapshots by event time, and slowly changing
  dimensions are not partitioned.
\<close>

definition sound_keys :: "dataset_spec \<Rightarrow> bool" where
  "sound_keys spec \<longleftrightarrow> ds_business_key spec \<noteq> [] \<and> set (ds_business_key spec) \<subseteq> set (ds_physical_key spec)
     \<and> set (ds_physical_key spec) \<subseteq> set (field_names spec)
     \<and> (if ds_pit_class spec = C_scd2 then {''valid_from'', ''start_date'', ''in_date''} \<inter> set (ds_physical_key spec) \<noteq> {}
        else {''knowledge_time'', ''version''} \<subseteq> set (ds_physical_key spec))"

definition sound_storage :: "string \<Rightarrow> dataset_spec \<Rightarrow> bool" where
  "sound_storage dataset spec \<longleftrightarrow>
     st_canonical_table (ds_storage spec) = domain_value (ds_domain spec) @ ''.'' @ join ''_'' (tl (split_on CHR ''.'' dataset))
     \<and> st_partition_strategy (ds_storage spec) = (if ds_pit_class spec = C_scd2 then PT_none
         else if ds_pit_class spec = C_versioned then PT_knowledge_time else PT_event_time)
     \<and> (ds_pit_class spec \<noteq> C_scd2 \<longrightarrow> st_compression (ds_storage spec) \<noteq> None)
     \<and> (\<exists>digits. READ_MODEL (st_read_model (ds_storage spec)) = Some digits \<and> int (digits_val digits) = ds_semantic_version spec)"

definition sound_entry :: "specs \<Rightarrow> string \<Rightarrow> dataset_spec \<Rightarrow> bool" where
  "sound_entry specs dataset spec \<longleftrightarrow>
     starts_with (domain_value (ds_domain spec) @ ''.'') dataset \<and> distinct (field_names spec)
     \<and> sound_keys spec \<and> sound_storage dataset spec \<and> set (ds_upstream spec) \<subseteq> set (dict_keys specs)"

lemma checked_keys:
  assumes "check_keys dataset spec = []"
  shows "sound_keys spec"
proof (cases "ds_pit_class spec = C_scd2")
  case True
  with assms have "\<exists>k\<in>set SCD2_TIME_KEYS. k \<in> set (ds_physical_key spec)"
    by (auto simp: check_keys_def Let_def)
  then have "{''valid_from'', ''start_date'', ''in_date''} \<inter> set (ds_physical_key spec) \<noteq> {}"
    unfolding SCD2_TIME_KEYS_def by auto
  with True assms show ?thesis by (auto simp: sound_keys_def check_keys_def Let_def filter_empty_conv split: if_splits)
next
  case False
  with assms show ?thesis
    by (cases "ds_pit_class spec"; auto simp: sound_keys_def check_keys_def Let_def filter_empty_conv split: if_splits)
qed

lemma checked_storage:
  assumes "check_storage dataset spec = []"
  shows "sound_storage dataset spec"
proof (cases "READ_MODEL (st_read_model (ds_storage spec))")
  case None
  with assms show ?thesis by (simp add: check_storage_def Let_def)
next
  case (Some digits)
  with assms show ?thesis
    by (cases "ds_pit_class spec"; simp add: sound_storage_def check_storage_def canonical_name_def Let_def)
qed

lemma validated_entry:
  assumes "fst (validate_dataset dataset spec specs seen) = []"
  shows "sound_entry specs dataset spec"
proof -
  have "check_names dataset spec = []" "check_keys dataset spec = []" "check_storage dataset spec = []"
    "concat (map (\<lambda>u. flag (u \<notin> set (dict_keys specs)) (UpstreamMissing dataset u)) (ds_upstream spec)) = []"
    using assms by (auto simp: validate_dataset_def Let_def case_prod_unfold)
  with checked_keys [of dataset spec] checked_storage [of dataset spec] show ?thesis
    by (auto simp: sound_entry_def check_names_def)
qed

lemma validated_entries:
  "validate_all rest specs seen = [] \<Longrightarrow> (dataset, spec) \<in> set rest \<Longrightarrow> sound_entry specs dataset spec"
proof (induction rest arbitrary: seen)
  case Nil then show ?case by simp
next
  case (Cons e rest)
  obtain d s where e: "e = (d, s)" by (cases e)
  obtain errors seen' where v: "validate_dataset d s specs seen = (errors, seen')" by force
  with Cons.prems e have "errors = []" "validate_all rest specs seen' = []" by auto
  with Cons e v validated_entry [of d s specs seen] show ?case by auto
qed

lemma validated:
  assumes "validate_directory files = Some []"
  obtains specs where "load_all files = Inr specs" "specs = map entry_of (filter (\<lambda>f. \<not> skipped_file f) files)"
    "\<forall>f\<in>set files. \<not> skipped_file f \<longrightarrow> (\<exists>spec. load_file f = Inr spec \<and> ds_dataset spec = path_id f)"
    "distinct (dict_keys specs)" "acyclic (reads specs)" "\<forall>(dataset, spec)\<in>set specs. sound_entry specs dataset spec"
proof -
  obtain errors specs where load: "load_errors files = (errors, specs)" by force
  obtain cycles where cyc: "validate_acyclic (length specs) specs = Some cycles" "cycles = [] \<longleftrightarrow> acyclic (reads specs)"
    using lineage_check_exact by blast
  have all: "errors @ validate_all specs specs [] @ cycles = []"
    using assms load cyc(1) by (simp add: validate_directory_def)
  then have "fold file_step files ([], []) = ([], specs)" using load by (simp add: load_errors_def)
  from clean_load [OF this] have c: "load_all files = Inr specs" "specs = map entry_of (filter (\<lambda>f. \<not> skipped_file f) files)"
    "\<forall>f\<in>set files. \<not> skipped_file f \<longrightarrow> (\<exists>spec. load_file f = Inr spec \<and> ds_dataset spec = path_id f)" "distinct (dict_keys specs)"
    unfolding load_all_def append.simps list.map distinct.simps by blast+
  have "acyclic (reads specs)" using all cyc(2) by simp
  moreover have "\<forall>(dataset, spec)\<in>set specs. sound_entry specs dataset spec" using all validated_entries by fastforce
  ultimately show thesis using c by (intro that)
qed

text \<open>C18. A directory that passes the gate loads without an error, as one entry per file under the name
  its path spells; no dataset is defined twice, the lineage has no cycle, and every entry declares
  the keys and the storage its class requires: a business key within the physical key within the
  distinct fields, knowledge time and version among the keys unless the entry is a slowly changing
  dimension, which has an interval start there instead; the canonical table its name spells, the
  partition of its class, a compression when there is one, and the read model of its version.\<close>

theorem validated_directory_loads:
  assumes "validate_directory files = Some []"
  shows "\<exists>specs. load_all files = Inr specs \<and> map fst specs = map path_id (filter (\<lambda>f. \<not> skipped_file f) files)
    \<and> distinct (map fst specs) \<and> acyclic (reads specs)
    \<and> (\<forall>(dataset, spec)\<in>set specs. ds_dataset spec = dataset \<and> sound_entry specs dataset spec)"
proof (rule validated [OF assms])
  fix specs
  assume c: "load_all files = Inr specs" "specs = map entry_of (filter (\<lambda>f. \<not> skipped_file f) files)"
    "\<forall>f\<in>set files. \<not> skipped_file f \<longrightarrow> (\<exists>spec. load_file f = Inr spec \<and> ds_dataset spec = path_id f)"
    "distinct (dict_keys specs)" "acyclic (reads specs)" "\<forall>(dataset, spec)\<in>set specs. sound_entry specs dataset spec"
  have "map fst specs = map path_id (filter (\<lambda>f. \<not> skipped_file f) files)" by (simp add: c(2) entry_of_def)
  moreover have "ds_dataset spec = dataset" if "(dataset, spec) \<in> set specs" for dataset spec
    using that c(2,3) by (auto simp: entry_of_def)
  ultimately show ?thesis using c(1,4,5,6) by blast
qed

subsection \<open>The schema\<close>

lemma domain_no_dot: "CHR ''.'' \<notin> set (domain_value d)"
  by (cases d) simp_all

lemma sound_table_name:
  assumes "sound_entry specs dataset spec"
  shows "\<exists>name. table_name spec = Some name \<and> domain_value (ds_domain spec) @ ''.'' @ name = st_canonical_table (ds_storage spec)"
proof -
  have "st_canonical_table (ds_storage spec) = domain_value (ds_domain spec) @ CHR ''.'' # join ''_'' (tl (split_on CHR ''.'' dataset))"
    using assms by (simp add: sound_entry_def sound_storage_def)
  moreover have "takeWhile (\<lambda>x. x \<noteq> CHR ''.'') (domain_value (ds_domain spec)) = domain_value (ds_domain spec)"
    "dropWhile (\<lambda>x. x \<noteq> CHR ''.'') (domain_value (ds_domain spec)) = []"
    using domain_no_dot [of "ds_domain spec"] by (auto simp: takeWhile_eq_all_conv)
  ultimately show ?thesis by (simp add: table_name_def partition_first_def takeWhile_append dropWhile_append)
qed

definition signature_of :: "table_def \<Rightarrow> string \<times> column list" where
  "signature_of t = (tb_key t, tb_columns t)"

definition spec_signature :: "dataset_spec \<Rightarrow> string \<times> column list" where
  "spec_signature spec = (st_canonical_table (ds_storage spec), map (spec_column spec) (ds_fields spec))"

lemma sound_spec_table:
  assumes "sound_entry specs dataset spec" and "st_canonical_table (ds_storage spec) \<notin> tb_key ` set tables"
  shows "\<exists>t. spec_table tables dataset spec = Inr t \<and> signature_of t = spec_signature spec"
proof -
  obtain name where n: "table_name spec = Some name" "domain_value (ds_domain spec) @ ''.'' @ name = st_canonical_table (ds_storage spec)"
    using sound_table_name [OF assms(1)] by blast
  have "filter (\<lambda>k. k \<notin> set (field_names spec)) (ds_business_key spec) = []" "distinct (field_names spec)"
    using assms(1) by (auto simp: sound_entry_def sound_keys_def filter_empty_conv)
  with n assms(2) show ?thesis
    by (simp add: spec_table_def signature_of_def spec_signature_def tb_key_def Let_def)
qed

lemma sound_add_tables:
  assumes "\<forall>(dataset, spec)\<in>set rest. sound_entry specs dataset spec"
    and "distinct (map tb_key tables @ map (\<lambda>(d, s). st_canonical_table (ds_storage s)) rest)"
  shows "\<exists>ts. add_spec_tables rest tables = Inr ts \<and> map signature_of ts = map signature_of tables @ map (spec_signature \<circ> snd) rest"
  using assms
proof (induction rest arbitrary: tables)
  case Nil then show ?case by simp
next
  case (Cons e rest)
  obtain d s where e: "e = (d, s)" by (cases e)
  have "sound_entry specs d s" using Cons.prems(1) e by simp
  moreover have "st_canonical_table (ds_storage s) \<notin> tb_key ` set tables" using Cons.prems(2) e by auto
  ultimately obtain t where t: "spec_table tables d s = Inr t" "signature_of t = spec_signature s" using sound_spec_table by blast
  have "tb_key t = st_canonical_table (ds_storage s)" using t(2) by (simp add: signature_of_def spec_signature_def)
  then have "distinct (map tb_key (tables @ [t]) @ map (\<lambda>(d, s). st_canonical_table (ds_storage s)) rest)"
    using Cons.prems(2) e by simp
  with Cons.IH [of "tables @ [t]"] Cons.prems(1) t show ?case by (simp add: e)
qed

definition index_fits :: "index_def list \<Rightarrow> column list \<Rightarrow> bool" where
  "index_fits ixs cols \<longleftrightarrow> (\<forall>ix\<in>set ixs. set (ix_columns ix) \<subseteq> cl_name ` set cols)"

lemma add_indexes_fits:
  "index_fits ixs (tb_columns t) \<Longrightarrow> \<exists>t'. add_indexes t ixs = Inr t' \<and> signature_of t' = signature_of t"
proof (induction ixs arbitrary: t)
  case Nil then show ?case by simp
next
  case (Cons ix ixs)
  then have "filter (\<lambda>c. c \<notin> cl_name ` set (tb_columns t)) (ix_columns ix) = []" by (auto simp: filter_empty_conv index_fits_def)
  with Cons.IH [of "t\<lparr>tb_indexes := tb_indexes t @ [ix]\<rparr>"] Cons.prems show ?case
    by (auto simp: index_fits_def signature_of_def tb_key_def)
qed

lemma merge_ref_fits:
  assumes "\<forall>r\<in>set refs. \<forall>t\<in>set tables. tb_key t = tb_key r \<longrightarrow> index_fits (tb_indexes r) (tb_columns t)"
    and "distinct (map tb_key refs)" and "distinct (map tb_key tables)"
  shows "\<exists>ts. merge_ref refs tables = Inr ts \<and> signature_of ` set tables \<subseteq> signature_of ` set ts \<and> distinct (map tb_key ts)"
  using assms
proof (induction refs arbitrary: tables)
  case Nil then show ?case by auto
next
  case (Cons r refs)
  show ?case
  proof (cases "find (\<lambda>t. tb_key t = tb_key r) tables")
    case None
    then have new: "tb_key r \<notin> tb_key ` set tables" by (auto simp: find_None_iff)
    have "\<forall>r'\<in>set refs. \<forall>t\<in>set (tables @ [r]). tb_key t = tb_key r' \<longrightarrow> index_fits (tb_indexes r') (tb_columns t)"
      using Cons.prems(1,2) by auto
    from Cons.IH [OF this] Cons.prems(2,3) new None show ?thesis by auto
  next
    case (Some target)
    then have target: "target \<in> set tables" "tb_key target = tb_key r" by (auto simp: find_Some_iff)
    then have "index_fits (tb_indexes r) (tb_columns target)" using Cons.prems(1) by simp
    then obtain t where t: "add_indexes target (tb_indexes r) = Inr t" "signature_of t = signature_of target"
      using add_indexes_fits by blast
    define ts where "ts = map (\<lambda>x. if tb_key x = tb_key r then t else x) tables"
    have x: "x = target" if "x \<in> set tables" "tb_key x = tb_key r" for x
      using Cons.prems(3) that target by (metis (no_types, lifting) distinct_map inj_onD)
    have sig: "map signature_of ts = map signature_of tables" using t(2) x by (auto simp: ts_def)
    then have keys: "map tb_key ts = map tb_key tables" using arg_cong [OF sig, of "map fst"] unfolding list.map_comp comp_def signature_of_def fst_conv by simp
    have fits: "\<forall>r'\<in>set refs. \<forall>u\<in>set ts. tb_key u = tb_key r' \<longrightarrow> index_fits (tb_indexes r') (tb_columns u)"
    proof (intro ballI impI)
      fix r' u assume u: "r' \<in> set refs" "u \<in> set ts" "tb_key u = tb_key r'"
      have "signature_of u \<in> signature_of ` set tables" using u(2) sig by (metis image_eqI set_map)
      then obtain u' where "u' \<in> set tables" "tb_key u' = tb_key u" "tb_columns u' = tb_columns u" by (auto simp: signature_of_def)
      with Cons.prems(1) u show "index_fits (tb_indexes r') (tb_columns u)" by (metis list.set_intros(2))
    qed
    have "distinct (map tb_key refs)" "distinct (map tb_key ts)" using Cons.prems(2,3) keys by simp_all
    from Cons.IH [OF fits this] obtain us where us: "merge_ref refs ts = Inr us"
      "signature_of ` set ts \<subseteq> signature_of ` set us" "distinct (map tb_key us)" by blast
    moreover have "signature_of ` set ts = signature_of ` set tables" using sig by (metis set_map)
    ultimately show ?thesis using Some t(1) by (simp add: ts_def)
  qed
qed

lemma merge_runtime_keeps:
  "set tables \<subseteq> set (merge_runtime runtime tables) \<and> (distinct (map tb_key tables) \<longrightarrow> distinct (map tb_key (merge_runtime runtime tables)))"
  unfolding merge_runtime_def
proof (induction runtime arbitrary: tables)
  case Nil then show ?case by simp
next
  case (Cons r runtime)
  show ?case
  proof (cases "tb_key r \<in> tb_key ` set tables")
    case True with Cons.IH [of tables] show ?thesis by simp
  next
    case False
    with Cons.IH [of "tables @ [r]"] show ?thesis by auto
  qed
qed

lemma REF_METADATA_distinct: "distinct (map tb_key REF_METADATA)"
  by (simp add: REF_METADATA_def tb_key_def)

lemma map_filter_Nil: "List.map_filter f xs = [] \<Longrightarrow> x \<in> set xs \<Longrightarrow> f x = None"
  by (induction xs) (auto split: option.splits)

lemma load_file_types:
  assumes "load_file f = Inr spec" and "field \<in> set (ds_fields spec)"
  shows "validate_type_details field = None"
proof -
  have "List.map_filter validate_type_details (ds_fields spec) = []"
    using assms(1) by (auto simp: load_file_def split: sum.splits list.splits)
  with assms(2) show ?thesis by (intro map_filter_Nil)
qed

text \<open>C19. From a directory that passes the gate the whole schema is built, unless two datasets name one
  canonical table or a dictionary table lacks a column the hand-written indexes need: each dataset has
  its table, with a column per field of the field's type, and exactly the physical key as primary key;
  a numeric column always has its precision and scale.\<close>

theorem validated_schema_builds:
  assumes ok: "validate_directory files = Some []" and load: "load_all files = Inr specs"
    and apart: "distinct (map (\<lambda>(dataset, spec). st_canonical_table (ds_storage spec)) specs)"
    and fits: "\<forall>r\<in>set REF_METADATA. \<forall>(dataset, spec)\<in>set specs. st_canonical_table (ds_storage spec) = tb_key r
        \<longrightarrow> (\<forall>ix\<in>set (tb_indexes r). set (ix_columns ix) \<subseteq> set (field_names spec))"
  shows "\<exists>tables. build_metadata files include_runtime = Inr (tables, specs) \<and> distinct (map tb_key tables)
    \<and> (\<forall>(dataset, spec)\<in>set specs. \<exists>t\<in>set tables. tb_key t = st_canonical_table (ds_storage spec)
         \<and> map cl_name (tb_columns t) = field_names spec \<and> map cl_type (tb_columns t) = map column_type (ds_fields spec)
         \<and> {cl_name c |c. c \<in> set (tb_columns t) \<and> cl_primary c} = set (ds_physical_key spec)
         \<and> (\<forall>c p q. c \<in> set (tb_columns t) \<longrightarrow> cl_type c = SQL_Numeric p q \<longrightarrow> p \<noteq> None \<and> q \<noteq> None))"
proof (rule validated [OF ok])
  fix specs'
  assume c: "load_all files = Inr specs'" "specs' = map entry_of (filter (\<lambda>f. \<not> skipped_file f) files)"
    "\<forall>f\<in>set files. \<not> skipped_file f \<longrightarrow> (\<exists>spec. load_file f = Inr spec \<and> ds_dataset spec = path_id f)"
    "distinct (dict_keys specs')" "\<forall>(dataset, spec)\<in>set specs'. sound_entry specs' dataset spec"
  let ?sorted = "sort_key fst specs"
  have same: "specs' = specs" using c(1) load by simp
  have "distinct (map (\<lambda>(d, s). st_canonical_table (ds_storage s)) ?sorted)"
    using apart by (simp add: distinct_map)
  then have d: "distinct (map tb_key [] @ map (\<lambda>(d, s). st_canonical_table (ds_storage s)) ?sorted)" by simp
  have "\<forall>(dataset, spec)\<in>set ?sorted. sound_entry specs dataset spec" using c(5) same by simp
  from sound_add_tables [OF this d] obtain ts where ts: "add_spec_tables ?sorted [] = Inr ts"
    "map signature_of ts = map (spec_signature \<circ> snd) ?sorted" by auto
  have keys: "map tb_key ts = map (\<lambda>(d, s). st_canonical_table (ds_storage s)) ?sorted"
    using arg_cong [OF ts(2), of "map fst"]
    unfolding list.map_comp comp_def signature_of_def spec_signature_def fst_conv by (simp add: case_prod_unfold)
  have fit: "\<forall>r\<in>set REF_METADATA. \<forall>t\<in>set ts. tb_key t = tb_key r \<longrightarrow> index_fits (tb_indexes r) (tb_columns t)"
  proof (intro ballI impI)
    fix r t assume r: "r \<in> set REF_METADATA" and t: "t \<in> set ts" "tb_key t = tb_key r"
    have "signature_of t \<in> set (map (spec_signature \<circ> snd) ?sorted)" using t(1) ts(2) by (metis image_eqI set_map)
    then obtain dataset spec where e: "(dataset, spec) \<in> set specs" "signature_of t = spec_signature spec" by auto
    then have "cl_name ` set (tb_columns t) = set (field_names spec)"
      by (force simp: signature_of_def spec_signature_def spec_column_def col_def field_names_def)
    moreover have "st_canonical_table (ds_storage spec) = tb_key r" using e(2) t(2) by (simp add: signature_of_def spec_signature_def)
    then have "\<forall>ix\<in>set (tb_indexes r). set (ix_columns ix) \<subseteq> set (field_names spec)"
      using bspec [OF bspec [OF fits r] e(1)] by simp
    ultimately show "index_fits (tb_indexes r) (tb_columns t)" by (simp add: index_fits_def)
  qed
  have "distinct (map tb_key ts)" using d keys by simp
  from merge_ref_fits [OF fit REF_METADATA_distinct this] obtain us where us: "merge_ref REF_METADATA ts = Inr us"
    "signature_of ` set ts \<subseteq> signature_of ` set us" "distinct (map tb_key us)" by blast
  define tables where "tables = (if include_runtime then merge_runtime RUNTIME_METADATA us else us)"
  have all: "set us \<subseteq> set tables" "distinct (map tb_key tables)"
    using merge_runtime_keeps [of us RUNTIME_METADATA] us(3) by (auto simp: tables_def)
  have build: "build_metadata files include_runtime = Inr (tables, specs)"
    using load ts(1) us(1) by (simp add: build_metadata_def tables_def)
  have tab: "\<exists>t\<in>set tables. tb_key t = st_canonical_table (ds_storage spec)
         \<and> map cl_name (tb_columns t) = field_names spec \<and> map cl_type (tb_columns t) = map column_type (ds_fields spec)
         \<and> {cl_name c |c. c \<in> set (tb_columns t) \<and> cl_primary c} = set (ds_physical_key spec)
         \<and> (\<forall>c p q. c \<in> set (tb_columns t) \<longrightarrow> cl_type c = SQL_Numeric p q \<longrightarrow> p \<noteq> None \<and> q \<noteq> None)"
    if e: "(dataset, spec) \<in> set specs" for dataset spec
  proof -
    have "spec_signature spec \<in> set (map (spec_signature \<circ> snd) ?sorted)" using e by force
    then have "spec_signature spec \<in> signature_of ` set ts" using ts(2) by (metis set_map)
    then obtain t where t: "t \<in> set tables" "signature_of t = spec_signature spec" using us(2) all(1) by force
    then have key: "tb_key t = st_canonical_table (ds_storage spec)" and cols: "tb_columns t = map (spec_column spec) (ds_fields spec)"
      by (simp_all add: signature_of_def spec_signature_def)
    obtain f where f: "f \<in> set files" "\<not> skipped_file f" "entry_of f = (dataset, spec)" using e same c(2) by auto
    then have "load_file f = Inr spec" using c(3) by (auto simp: entry_of_def)
    then have types: "validate_type_details field = None" if "field \<in> set (ds_fields spec)" for field using load_file_types that by blast
    have phys: "set (ds_physical_key spec) \<subseteq> set (field_names spec)" using c(5) e same by (auto simp: sound_entry_def sound_keys_def)
    have "{cl_name c |c. c \<in> set (tb_columns t) \<and> cl_primary c} = set (field_names spec) \<inter> set (ds_physical_key spec)"
      by (force simp: cols spec_column_def col_def field_names_def)
    moreover have "p \<noteq> None \<and> q \<noteq> None" if cin: "c \<in> set (tb_columns t)" "cl_type c = SQL_Numeric p q" for c p q
    proof -
      obtain field where field: "field \<in> set (ds_fields spec)" "column_type field = SQL_Numeric p q"
        using cin by (auto simp: cols spec_column_def col_def simp del: column_type.simps)
      then have "fs_type field = T_decimal" "fs_precision field = p" "fs_scale field = q" by (auto split: logical_type.splits)
      with types [OF field(1)] show ?thesis by (auto simp: validate_type_details_def split: if_splits)
    qed
    ultimately show ?thesis using t(1) key phys
      by (intro bexI [of _ t]) (auto simp: cols spec_column_def col_def field_names_def)
  qed
  show ?thesis by (intro exI [of _ tables] conjI build all(2)) (use tab in blast)
qed

subsection \<open>A demonstration\<close>

definition demo_field :: "string \<Rightarrow> logical_type \<Rightarrow> pit_role \<Rightarrow> field_spec" where
  "demo_field name ty role = \<lparr>fs_name = name, fs_type = ty, fs_precision = (if ty = T_decimal then Some 24 else None),
     fs_scale = (if ty = T_decimal then Some 4 else None), fs_unit = None, fs_nullable = False, fs_enum = None,
     fs_description = '''', fs_pit_role = role\<rparr>"

definition demo_spec :: "string \<Rightarrow> string \<Rightarrow> pit_role \<Rightarrow> dataset_spec" where
  "demo_spec dataset table role = \<lparr>ds_dataset = dataset, ds_semantic_version = 1, ds_domain = CN_EQUITY, ds_description = '''',
     ds_pit_class = C_market, ds_business_key = [''entity_id''], ds_physical_key = [''entity_id'', ''knowledge_time'', ''version''],
     ds_sources = [], ds_storage = \<lparr>st_canonical_table = table, st_read_model = ''mart.demo_v1'', st_partition_strategy = PT_event_time,
       st_partition_interval = ''1 month'', st_compression = Some \<lparr>cs_after = ''7 days'', cs_segment_by = ''entity_id'', cs_order_by = ''version''\<rparr>\<rparr>,
     ds_quality = [], ds_upstream = [], ds_derived = None, ds_mappings = [],
     ds_fields = [demo_field ''entity_id'' T_int64 R_none, demo_field ''trade_date'' T_date role, demo_field ''amount'' T_decimal R_none,
       demo_field ''knowledge_time'' T_timestamp_tz R_knowledge_time, demo_field ''version'' T_int64 R_none]\<rparr>"

definition demo_file :: "string list \<Rightarrow> string \<Rightarrow> pit_role \<Rightarrow> dict_file" where
  "demo_file parts table role = \<lparr>df_parts = parts, df_data = Inr (demo_spec (join ''.'' parts) table role)\<rparr>"

definition demo_bar :: dict_file where
  "demo_bar = demo_file [''cn_equity'', ''bar''] ''cn_equity.bar'' R_event_time"

definition demo_specs :: specs where
  "demo_specs = [(''cn_equity.bar'', demo_spec ''cn_equity.bar'' ''cn_equity.bar'' R_event_time)]"

lemma demo_passes: "validate_directory [demo_bar] = Some []"
  by code_simp

lemma demo_loads: "load_all [demo_bar] = Inr demo_specs"
proof -
  let ?spec = "demo_spec ''cn_equity.bar'' ''cn_equity.bar'' R_event_time"
  have bar: "demo_bar = \<lparr>df_parts = [''cn_equity'', ''bar''], df_data = Inr ?spec\<rparr>" by (simp add: demo_bar_def demo_file_def)
  have "List.map_filter validate_rule_args (ds_quality ?spec) @ List.map_filter validate_type_details (ds_fields ?spec) = []"
    by (simp add: demo_spec_def demo_field_def validate_type_details_def)
  then have load: "load_file demo_bar = Inr ?spec" unfolding load_file_def bar by simp
  have "\<not> skipped_file demo_bar" by code_simp
  moreover have "ds_dataset ?spec = ''cn_equity.bar''" unfolding demo_spec_def by simp
  ultimately show ?thesis unfolding load_all_def demo_specs_def by (simp add: load)
qed

theorem validated_directory_loads_witness:
  "\<exists>specs. load_all [demo_bar] = Inr specs \<and> map fst specs = [''cn_equity.bar''] \<and> acyclic (reads specs)"
proof -
  have "map path_id (filter (\<lambda>f. \<not> skipped_file f) [demo_bar]) = [''cn_equity.bar'']" by code_simp
  with validated_directory_loads [OF demo_passes] show ?thesis by metis
qed

theorem validated_schema_builds_witness:
  "\<exists>tables. build_metadata [demo_bar] True = Inr (tables, demo_specs) \<and> distinct (map tb_key tables)"
proof -
  have "distinct (map (\<lambda>(dataset, spec). st_canonical_table (ds_storage spec)) demo_specs)" by code_simp
  moreover have "\<forall>r\<in>set REF_METADATA. \<forall>(dataset, spec)\<in>set demo_specs. st_canonical_table (ds_storage spec) = tb_key r
      \<longrightarrow> (\<forall>ix\<in>set (tb_indexes r). set (ix_columns ix) \<subseteq> set (field_names spec))" by code_simp
  ultimately show ?thesis
    by (rule validated_schema_builds [OF demo_passes demo_loads, of True, THEN exE]) (elim conjE, intro exI conjI)
qed

subsection \<open>What the gate lets through\<close>

text \<open>Two datasets whose names differ in a dot and an underscore name the same canonical table: the gate
  passes them and the schema cannot be built.\<close>

lemma gate_misses_table_clash:
  "(let files = [demo_file [''cn_equity'', ''a'', ''b''] ''cn_equity.a_b'' R_event_time,
                 demo_file [''cn_equity'', ''a_b''] ''cn_equity.a_b'' R_event_time]
    in validate_directory files = Some [] \<and> build_metadata files True = Inl (TableDefined ''cn_equity.a_b''))"
  by code_simp

text \<open>An entry partitioned by its event time without an event-time field passes as well, and the
  statements of the migration cannot be generated.\<close>

lemma gate_misses_event_time:
  "(let files = [demo_file [''cn_equity'', ''bar''] ''cn_equity.bar'' R_none]
    in validate_directory files = Some []
       \<and> (case load_all files of Inr specs \<Rightarrow> timescale_statements specs = Inl (NoEventTime ''cn_equity.bar'') | Inl _ \<Rightarrow> False))"
  by code_simp

text \<open>A name that ends in a newline passes the naming rule.\<close>

lemma gate_misses_newline: "FIELD_NAME (''open'' @ [CHR 0x0A])"
  by code_simp

end
