(* ===== verification/Storage_Sql.thy ===== *)
theory Storage_Sql
  imports Storage_Schema
begin

text \<open>
  The SQL that the platform writes itself: the read-only grants (\<open>storage/grants.py\<close>), the read models of
  the entity registry (\<open>storage/read_models.py\<close>) and the statements and source text of the migrations
  (\<open>storage/migrations.py\<close>).  The DDL that SQLAlchemy compiles from the tables is the argument
  \<open>compiled\<close>, Python's \<open>repr\<close> the argument \<open>py_repr\<close>.
\<close>

abbreviation sq :: string where "sq \<equiv> [CHR 0x27]"

abbreviation dq :: string where "dq \<equiv> [CHR 0x22]"

abbreviation nl :: string where "nl \<equiv> [CHR 0x0A]"

subsection \<open>Grants\<close>

definition READONLY_ROLE :: string where "READONLY_ROLE = ''fdp_ro''"

definition INTERNAL_SCHEMAS :: "string list" where "INTERNAL_SCHEMAS = [''raw'', ''meta'', ''public'']"

definition SHARED_SCHEMAS :: "string list" where "SHARED_SCHEMAS = [''mart'', ''ref'']"

definition dictionary_domains :: "specs \<Rightarrow> string list" where
  "dictionary_domains specs = sort (remdups (map (\<lambda>(dataset, spec). domain_value (ds_domain spec)) specs))"

text \<open>\<open>dict.fromkeys\<close> keeps the first of equal values.\<close>

definition unique_first :: "'a list \<Rightarrow> 'a list" where
  "unique_first xs = rev (remdups (rev xs))"

definition readable_schemas :: "string list \<Rightarrow> string list" where
  "readable_schemas domains =
     filter (\<lambda>s. s \<notin> set INTERNAL_SCHEMAS) (unique_first (SHARED_SCHEMAS @ sort (remdups domains)))"

definition double_char :: "char \<Rightarrow> string \<Rightarrow> string" where
  "double_char c s = concat (map (\<lambda>x. if x = c then [c, c] else [x]) s)"

definition quote_name :: "string \<Rightarrow> string" where
  "quote_name s = dq @ double_char (CHR 0x22) s @ dq"

definition literal :: "string \<Rightarrow> string" where
  "literal s = sq @ double_char (CHR 0x27) s @ sq"

text \<open>\<open>^[A-Za-z_][A-Za-z0-9_]*$\<close>, with the final newline that \<open>$\<close> allows.\<close>

definition letter :: "char \<Rightarrow> bool" where
  "letter c \<longleftrightarrow> is_lower_char (lower_char c) \<or> c = CHR ''_''"

definition validate_role :: "string \<Rightarrow> bool" where
  "validate_role role = (case drop_final_newline role of [] \<Rightarrow> False
     | c # cs \<Rightarrow> letter c \<and> list_all (\<lambda>x. letter x \<or> is_digit x) cs)"

datatype grant =
    CreateRole string
  | UsageOn string string
  | SelectOn string string
  | ExecuteOn string string
  | FutureSelect string string string
  | FutureExecute string string string

fun grant_sql :: "grant \<Rightarrow> string" where
  "grant_sql (CreateRole role) =
     ''DO $$ BEGIN IF NOT EXISTS (SELECT 1 FROM pg_roles WHERE rolname = '' @ literal role
     @ '') THEN CREATE ROLE '' @ quote_name role @ '' NOLOGIN; END IF; END $$;''"
| "grant_sql (UsageOn schema role) = ''GRANT USAGE ON SCHEMA '' @ quote_name schema @ '' TO '' @ quote_name role @ '';''"
| "grant_sql (SelectOn schema role) =
     ''GRANT SELECT ON ALL TABLES IN SCHEMA '' @ quote_name schema @ '' TO '' @ quote_name role @ '';''"
| "grant_sql (ExecuteOn schema role) =
     ''GRANT EXECUTE ON ALL FUNCTIONS IN SCHEMA '' @ quote_name schema @ '' TO '' @ quote_name role @ '';''"
| "grant_sql (FutureSelect writer schema role) =
     ''ALTER DEFAULT PRIVILEGES FOR ROLE '' @ quote_name writer @ '' IN SCHEMA '' @ quote_name schema
     @ '' GRANT SELECT ON TABLES TO '' @ quote_name role @ '';''"
| "grant_sql (FutureExecute writer schema role) =
     ''ALTER DEFAULT PRIVILEGES FOR ROLE '' @ quote_name writer @ '' IN SCHEMA '' @ quote_name schema
     @ '' GRANT EXECUTE ON FUNCTIONS TO '' @ quote_name role @ '';''"

definition readonly_grants :: "string \<Rightarrow> string list \<Rightarrow> string option \<Rightarrow> grant list result" where
  "readonly_grants role domains writer =
     (if \<not> validate_role role then Inl ValueError
      else let schemas = readable_schemas domains in
        Inr (CreateRole role # concat (map (\<lambda>s. [UsageOn s role, SelectOn s role]) schemas)
          @ [ExecuteOn ''mart'' role]
          @ (case writer of
               None \<Rightarrow> []
             | Some w \<Rightarrow> if w = [] then [] else map (\<lambda>s. FutureSelect w s role) schemas @ [FutureExecute w ''mart'' role])))"

definition readonly_statements :: "string \<Rightarrow> string list \<Rightarrow> string option \<Rightarrow> string list result" where
  "readonly_statements role domains writer =
     (case readonly_grants role domains writer of Inl e \<Rightarrow> Inl e | Inr gs \<Rightarrow> Inr (map grant_sql gs))"

text \<open>\<open>apply_readonly_roles\<close>: an empty writer counts as none, and the writer is then the current user.\<close>

definition apply_readonly_roles :: "string \<Rightarrow> string \<Rightarrow> string list \<Rightarrow> string option \<Rightarrow> string list result" where
  "apply_readonly_roles current_user role domains writer =
     readonly_statements role domains (case writer of None \<Rightarrow> Some current_user | Some w \<Rightarrow> if w = [] then Some current_user else Some w)"

subsection \<open>Read models\<close>

definition ENTITY_COLUMNS :: "string list" where
  "ENTITY_COLUMNS =
    [''entity_id'', ''entity_type'', ''entity_class'', ''market'', ''code'', ''name'', ''currency'', ''exchange'',
     ''frequency'', ''unit'', ''algorithm_id'', ''social_status'', ''valid_from'', ''valid_to'', ''knowledge_time'', ''version'']"

definition entity_select :: string where "entity_select = join '', '' ENTITY_COLUMNS"

definition entity_select_ranked :: string where
  "entity_select_ranked = join '', '' (map (\<lambda>name. ''ranked.'' @ name) ENTITY_COLUMNS)"

definition entity_latest_view_sql :: "string \<Rightarrow> string \<Rightarrow> dialect \<Rightarrow> string" where
  "entity_latest_view_sql mart_schema ref_schema dialect =
     (let verb = (if dialect = D_postgresql then ''CREATE OR REPLACE VIEW'' else ''CREATE VIEW'') in
     verb @ '' '' @ mart_schema @ ''.entity_latest_v1 AS'' @ nl
     @ ''SELECT '' @ entity_select @ '' FROM ('' @ nl
     @ ''    SELECT '' @ entity_select @ '','' @ nl
     @ ''           ROW_NUMBER() OVER ('' @ nl
     @ ''               PARTITION BY entity_id'' @ nl
     @ ''               ORDER BY version DESC, knowledge_time DESC'' @ nl
     @ ''           ) AS _rank'' @ nl
     @ ''    FROM '' @ ref_schema @ ''.entity'' @ nl
     @ ''    WHERE valid_to IS NULL'' @ nl
     @ '') ranked'' @ nl
     @ ''WHERE _rank = 1;'' @ nl)"

definition entity_asof_function_sql :: "string \<Rightarrow> string \<Rightarrow> string" where
  "entity_asof_function_sql mart_schema ref_schema =
     ''CREATE OR REPLACE FUNCTION '' @ mart_schema @ ''.entity_asof(as_of timestamptz)'' @ nl
     @ ''RETURNS TABLE ('' @ nl
     @ ''    entity_id bigint, entity_type text, entity_class text, market text,'' @ nl
     @ ''    code text, name text, currency text, exchange text, frequency text,'' @ nl
     @ ''    unit text, algorithm_id text, social_status text, valid_from date,'' @ nl
     @ ''    valid_to date, knowledge_time timestamptz, version bigint'' @ nl
     @ '')'' @ nl
     @ ''LANGUAGE sql STABLE AS $$'' @ nl
     @ ''    SELECT '' @ entity_select_ranked @ nl
     @ ''    FROM ('' @ nl
     @ ''        SELECT e.'' @ join '', e.'' ENTITY_COLUMNS @ '','' @ nl
     @ ''               ROW_NUMBER() OVER ('' @ nl
     @ ''                   PARTITION BY e.entity_id'' @ nl
     @ ''                   ORDER BY e.version DESC, e.knowledge_time DESC'' @ nl
     @ ''               ) AS _rank'' @ nl
     @ ''        FROM '' @ ref_schema @ ''.entity e'' @ nl
     @ ''        WHERE e.knowledge_time <= as_of'' @ nl
     @ ''          AND e.valid_from <= as_of::date'' @ nl
     @ ''          AND (e.valid_to IS NULL OR as_of::date <= e.valid_to)'' @ nl
     @ ''    ) ranked'' @ nl
     @ ''    WHERE _rank = 1;'' @ nl
     @ ''$$;'' @ nl"

definition entity_read_model_statements :: "dialect \<Rightarrow> string list" where
  "entity_read_model_statements dialect = entity_latest_view_sql ''mart'' ''ref'' dialect
     # (if dialect = D_postgresql then [entity_asof_function_sql ''mart'' ''ref''] else [])"

definition entity_read_model_drop_statements :: "string \<Rightarrow> string list" where
  "entity_read_model_drop_statements mart_schema =
     [''DROP VIEW IF EXISTS '' @ mart_schema @ ''.entity_latest_v1;'',
      ''DROP FUNCTION IF EXISTS '' @ mart_schema @ ''.entity_asof(timestamptz);'']"

text \<open>What \<open>ensure_entity_read_models\<close> executes; only what follows the drop of the view on SQLite is reported.\<close>

definition ensure_entity_read_models :: "dialect \<Rightarrow> string option \<Rightarrow> string option \<Rightarrow> string list \<times> string list" where
  "ensure_entity_read_models dialect mart_schema ref_schema =
     (let sqlite = (dialect = D_sqlite);
          pick = (\<lambda>given fallback. case given of None \<Rightarrow> fallback | Some s \<Rightarrow> if s = [] then fallback else s);
          mart = pick mart_schema (if sqlite then ''main'' else ''mart'');
          ref = pick ref_schema (if sqlite then ''main'' else ''ref'');
          create = ''CREATE SCHEMA IF NOT EXISTS '' @ mart;
          statements = entity_latest_view_sql mart ref dialect # (if sqlite then [] else [entity_asof_function_sql mart ref])
      in if sqlite then ((''DROP VIEW IF EXISTS '' @ mart @ ''.entity_latest_v1'') # statements, statements)
         else (create # statements, create # statements))"

subsection \<open>Migrations\<close>

definition drop_table :: "table_def \<Rightarrow> string" where
  "drop_table t = ''DROP TABLE IF EXISTS '' @ tb_key t @ '';''"

definition baseline_statements ::
  "(table_def list \<Rightarrow> string list) \<Rightarrow> dict_file list \<Rightarrow> schema_error + string list \<times> string list" where
  "baseline_statements compiled files =
     (case build_metadata files False of
        Inl e \<Rightarrow> Inl e
      | Inr (tables, specs) \<Rightarrow>
          (case timescale_statements specs of
             Inl e \<Rightarrow> Inl e
           | Inr timescale \<Rightarrow>
               Inr (''CREATE SCHEMA IF NOT EXISTS mart'' # compiled tables @ timescale @ entity_read_model_statements D_postgresql,
                    entity_read_model_drop_statements ''mart'' @ map drop_table (rev (sort_key tb_key tables)))))"

definition runtime_meta_statements :: "(table_def list \<Rightarrow> string list) \<Rightarrow> string list \<times> string list" where
  "runtime_meta_statements compiled =
     (compiled RUNTIME_METADATA, map drop_table (rev (sort_key tb_key RUNTIME_METADATA)))"

definition LEGACY_COMPRESSION_ORDER :: "(string, string) dict" where
  "LEGACY_COMPRESSION_ORDER =
    [(''cn_equity.daily_bar'', ''trade_date''), (''cn_equity.adj_factor'', ''trade_date''),
     (''cn_equity.index_weight'', ''trade_date''), (''cn_equity.financials.balance_sheet'', ''end_date''),
     (''cn_fund.nav'', ''date'')]"

definition in_list :: "string list \<Rightarrow> string" where
  "in_list values = join '', '' (map (\<lambda>v. sq @ v @ sq) values)"

definition decompress_statements :: "specs \<Rightarrow> string list" where
  "decompress_statements specs =
     (let schemas = in_list (dictionary_domains specs) in
     [''DO $$'' @ nl
     @ ''DECLARE rec record;'' @ nl
     @ ''BEGIN'' @ nl
     @ ''    FOR rec IN'' @ nl
     @ ''        SELECT chunk_schema, chunk_name'' @ nl
     @ ''        FROM timescaledb_information.chunks'' @ nl
     @ ''        WHERE hypertable_schema IN ('' @ schemas @ '') AND is_compressed'' @ nl
     @ ''    LOOP'' @ nl
     @ ''        CALL decompress_chunk(format('' @ sq @ ''%I.%I'' @ sq @ '', rec.chunk_schema, rec.chunk_name)::regclass, true);'' @ nl
     @ ''    END LOOP;'' @ nl
     @ ''END $$;''])"

definition text_type_statements :: "specs \<Rightarrow> string list" where
  "text_type_statements specs =
     (let schemas = in_list (dictionary_domains specs) in
     [''DO $$'' @ nl
     @ ''DECLARE rec record;'' @ nl
     @ ''BEGIN'' @ nl
     @ ''    FOR rec IN'' @ nl
     @ ''        SELECT c.table_schema, c.table_name, c.column_name'' @ nl
     @ ''        FROM information_schema.columns c'' @ nl
     @ ''        JOIN information_schema.tables t'' @ nl
     @ ''          ON t.table_schema = c.table_schema AND t.table_name = c.table_name'' @ nl
     @ ''        WHERE t.table_type = '' @ sq @ ''BASE TABLE'' @ sq @ nl
     @ ''          AND c.data_type = '' @ sq @ ''character varying'' @ sq @ nl
     @ ''          AND c.table_schema IN ('' @ schemas @ '')'' @ nl
     @ ''    LOOP'' @ nl
     @ ''        EXECUTE format('' @ sq @ ''ALTER TABLE %I.%I ALTER COLUMN %I TYPE text'' @ sq @ '','' @ nl
     @ ''                       rec.table_schema, rec.table_name, rec.column_name);'' @ nl
     @ ''    END LOOP;'' @ nl
     @ ''END $$;''])"

definition compression_statements :: "(string, string) dict \<Rightarrow> specs \<Rightarrow> string list" where
  "compression_statements override specs =
     List.map_filter (\<lambda>(dataset, spec).
       case st_compression (ds_storage spec) of
         None \<Rightarrow> None
       | Some c \<Rightarrow> Some (compression_sql (st_canonical_table (ds_storage spec)) (cs_segment_by c)
           (case map_of override dataset of Some order_by \<Rightarrow> order_by | None \<Rightarrow> cs_order_by c))) (sort_key fst specs)"

definition ddl_hygiene_statements :: "specs \<Rightarrow> string list \<times> string list" where
  "ddl_hygiene_statements specs =
     (decompress_statements specs @ entity_read_model_drop_statements ''mart'' @ text_type_statements specs
        @ entity_read_model_statements D_postgresql @ compression_statements [] specs,
      decompress_statements specs @ entity_read_model_drop_statements ''mart''
        @ compression_statements LEGACY_COMPRESSION_ORDER specs @ entity_read_model_statements D_postgresql)"

text \<open>
  \<open>_statement_literals\<close>: a statement as a line of the revision's source.  The revision files differ in
  their heading lines only (docstring, imports and identifiers).
\<close>

fun has_infix :: "string \<Rightarrow> string \<Rightarrow> bool" where
  "has_infix p [] = (p = [])"
| "has_infix p (c # cs) = (starts_with p (c # cs) \<or> has_infix p cs)"

definition statement_literal :: "(string \<Rightarrow> string) \<Rightarrow> string \<Rightarrow> string" where
  "statement_literal py_repr statement =
     (let s = strip statement in
      if has_infix (dq @ dq @ dq) s \<or> ends_with dq s \<or> ends_with [CHR 0x5C] s then ''    '' @ py_repr s @ '',''
      else ''    '' @ dq @ dq @ dq @ double_char (CHR 0x5C) s @ dq @ dq @ dq @ '','')"

definition render_revision :: "(string \<Rightarrow> string) \<Rightarrow> string list \<Rightarrow> string list \<times> string list \<Rightarrow> string" where
  "render_revision py_repr heading = (\<lambda>(up, down). join nl
     (heading @ [''UPGRADE_STATEMENTS = [''] @ map (statement_literal py_repr) up
      @ ['']'', '''', '''', ''DOWNGRADE_STATEMENTS = [''] @ map (statement_literal py_repr) down
      @ ['']'', '''', '''', ''def upgrade() -> None:'', ''    for statement in UPGRADE_STATEMENTS:'', ''        op.execute(statement)'',
         '''', '''', ''def downgrade() -> None:'', ''    for statement in DOWNGRADE_STATEMENTS:'', ''        op.execute(statement)'', '''']))"

subsection \<open>Reading quoted text back\<close>

text \<open>How PostgreSQL reads a quoted name, and Python a literal between triple quotes in which every
  backslash is doubled: the content and what follows it.\<close>

fun read_quoted :: "char \<Rightarrow> string \<Rightarrow> (string \<times> string) option" where
  "read_quoted q [] = None"
| "read_quoted q [c] = (if c = q then Some ([], []) else None)"
| "read_quoted q (c # d # cs) =
     (if c \<noteq> q then map_option (\<lambda>(s, r). (c # s, r)) (read_quoted q (d # cs))
      else if d = q then map_option (\<lambda>(s, r). (q # s, r)) (read_quoted q cs)
      else Some ([], d # cs))"

definition read_name :: "string \<Rightarrow> (string \<times> string) option" where
  "read_name s = (case s of [] \<Rightarrow> None | c # cs \<Rightarrow> if c = CHR 0x22 then read_quoted (CHR 0x22) cs else None)"

fun read_triple :: "string \<Rightarrow> (string \<times> string) option" where
  "read_triple [] = None"
| "read_triple (c # cs) =
     (if starts_with (dq @ dq @ dq) (c # cs) then Some ([], drop 2 cs)
      else if c = CHR 0x5C then
        (case cs of [] \<Rightarrow> None | d # ds \<Rightarrow> if d = CHR 0x5C then map_option (\<lambda>(s, r). (c # s, r)) (read_triple ds) else None)
      else map_option (\<lambda>(s, r). (c # s, r)) (read_triple cs))"

declare read_triple.simps(2) [simp del]

lemma double_char_simps [simp]: "double_char c [] = []"
  "double_char c (x # xs) = (if x = c then c # c # double_char c xs else x # double_char c xs)"
  by (simp_all add: double_char_def)

lemma read_quoted_double:
  "\<not> starts_with [q] rest \<Longrightarrow> read_quoted q (double_char q s @ q # rest) = Some (s, rest)"
proof (induction s)
  case Nil then show ?case by (cases rest) auto
next
  case (Cons x s)
  then have IH: "read_quoted q (double_char q s @ q # rest) = Some (s, rest)" by simp
  obtain y ys where y: "double_char q s @ q # rest = y # ys" by (cases "double_char q s @ q # rest") auto
  show ?case
  proof (cases "x = q")
    case True with IH show ?thesis by simp
  next
    case False with IH y show ?thesis by simp
  qed
qed

lemma read_name_quote: "\<not> starts_with dq rest \<Longrightarrow> read_name (quote_name s @ rest) = Some (s, rest)"
  using read_quoted_double [of "CHR 0x22" rest s] by (simp add: read_name_def quote_name_def)

lemma read_triple_double:
  assumes "\<not> has_infix (dq @ dq @ dq) s" and "\<not> ends_with dq s"
  shows "read_triple (double_char (CHR 0x5C) s @ dq @ dq @ dq @ rest) = Some (s, rest)"
  using assms
proof (induction s)
  case Nil then show ?case by (simp add: read_triple.simps(2) numeral_2_eq_2)
next
  case (Cons x s)
  have "\<not> ends_with dq s \<or> s = []" using Cons.prems(2) by (auto simp: starts_with_iff append_eq_Cons_conv)
  then have "\<not> ends_with dq s" by (auto simp: starts_with_iff)
  with Cons have IH: "read_triple (double_char (CHR 0x5C) s @ dq @ dq @ dq @ rest) = Some (s, rest)" by simp
  show ?case
  proof (cases "x = CHR 0x5C")
    case True with IH show ?thesis by (simp add: read_triple.simps(2) starts_with_iff)
  next
    case False
    have "\<not> starts_with (dq @ dq @ dq) (x # double_char (CHR 0x5C) s @ dq @ dq @ dq @ rest)"
    proof
      assume st: "starts_with (dq @ dq @ dq) (x # double_char (CHR 0x5C) s @ dq @ dq @ dq @ rest)"
      then have x: "x = CHR 0x22" by simp
      show False
      proof (cases s)
        case Nil with x Cons.prems(2) show False by (simp add: starts_with_iff)
      next
        case (Cons y ys)
        have y: "y = CHR 0x22" using st x Cons by (auto split: if_splits)
        show False
        proof (cases ys)
          case Nil with y Cons \<open>\<not> ends_with dq s\<close> show False by (simp add: starts_with_iff)
        next
          case (Cons z zs)
          have "z = CHR 0x22" using st x y \<open>s = y # ys\<close> Cons by (auto split: if_splits)
          with Cons.prems(1) x y \<open>s = y # ys\<close> \<open>ys = z # zs\<close> show False by simp
        qed
      qed
    qed
    with IH False show ?thesis by (simp add: read_triple.simps(2))
  qed
qed

text \<open>A name quoted for a grant is read by PostgreSQL as that name and nothing after it, whatever
  quotes it holds, so a schema or role name cannot change the statement; and a statement written into a
  revision file between triple quotes is read back by Python as the statement.\<close>

theorem quoted_text_roundtrip:
  "(\<not> starts_with dq rest \<longrightarrow> read_name (quote_name s @ rest) = Some (s, rest))
   \<and> (\<not> has_infix (dq @ dq @ dq) (strip s) \<and> \<not> ends_with dq (strip s) \<and> \<not> ends_with [CHR 0x5C] (strip s)
      \<longrightarrow> (\<exists>line. statement_literal py_repr s = ''    '' @ dq @ dq @ dq @ line \<and> read_triple line = Some (strip s, '','')))"
  using read_name_quote [of rest s] read_triple_double [of "strip s" "'',''"] by (simp add: statement_literal_def)

theorem quoted_text_roundtrip_witness:
  "read_name (quote_name ''a\"b'' @ '';'') = Some (''a\"b'', '';'')
   \<and> (\<exists>line. statement_literal (\<lambda>s. s) ''a\"b'' = ''    '' @ dq @ dq @ dq @ line \<and> read_triple line = Some (''a\"b'', '',''))"
proof -
  have s: "strip ''a\"b'' = ''a\"b''" by code_simp
  have h: "\<not> starts_with dq '';''" "\<not> has_infix (dq @ dq @ dq) ''a\"b'' \<and> \<not> ends_with dq ''a\"b'' \<and> \<not> ends_with [CHR 0x5C] ''a\"b''"
    by code_simp+
  note t = quoted_text_roundtrip [of "'';''" "''a\"b''" "\<lambda>s. s", unfolded s]
  show ?thesis using t [THEN conjunct1, THEN mp, OF h(1)] t [THEN conjunct2, THEN mp, OF h(2)] by (rule conjI)
qed

subsection \<open>What is granted\<close>

lemma set_unique_first [simp]: "set (unique_first xs) = set xs"
  by (simp add: unique_first_def)


end
