(* ===== verification/Hub_Schemas.thy ===== *)
theory Hub_Schemas
  imports Hub_Codes
begin

text \<open>
  The uniform output of the hub (\<open>schemas.py\<close>): the columns of every endpoint and \<open>finalize_frame\<close>, which
  checks a source's answer against them and stamps it.  A data frame is a value of pandas, which is not
  part of the repository: \<open>pandas\<close> holds the operations the code calls, over an arbitrary type of frames
  \<open>'f\<close> and of columns \<open>'c\<close>.  Errors of pandas that the code catches are results; the other operations
  are taken to return.
\<close>

subsection \<open>What the code uses of pandas\<close>

record ('f, 'c) pandas =
  pd_empty :: 'f
  pd_is_empty :: "'f \<Rightarrow> bool"
  pd_columns :: "'f \<Rightarrow> string list"
  pd_concat :: "'f list \<Rightarrow> 'f"
  pd_drop_duplicates :: "string list \<Rightarrow> 'f \<Rightarrow> 'f"
  pd_sort_values :: "string list \<Rightarrow> 'f \<Rightarrow> 'f"
  pd_select :: "string list \<Rightarrow> 'f \<Rightarrow> 'f"
  pd_reindex_columns :: "string list \<Rightarrow> 'f \<Rightarrow> 'f"
  pd_rename :: "string \<Rightarrow> string \<Rightarrow> 'f \<Rightarrow> 'f"
  pd_drop_column :: "string \<Rightarrow> 'f \<Rightarrow> 'f"
  pd_dropna :: "string list \<Rightarrow> 'f \<Rightarrow> 'f"
  pd_merge_left :: "string list \<Rightarrow> 'f \<Rightarrow> 'f \<Rightarrow> 'f"
  pd_merge_asof :: "string \<Rightarrow> string \<Rightarrow> 'f \<Rightarrow> 'f \<Rightarrow> 'f"
  pd_column :: "'f \<Rightarrow> string \<Rightarrow> 'c"
  pd_set_column :: "string \<Rightarrow> 'c \<Rightarrow> 'f \<Rightarrow> 'f"
  pd_na :: "'f \<Rightarrow> 'c"
  pd_to_datetime :: "'c \<Rightarrow> 'c result"
  pd_isna_all :: "'c \<Rightarrow> bool"
  pd_isna_any :: "'c \<Rightarrow> bool"
  pd_where_notna :: "'c \<Rightarrow> 'c \<Rightarrow> 'c"
  pd_map_currency :: "(string \<Rightarrow> currency option) \<Rightarrow> 'c \<Rightarrow> 'c"
  pd_mul :: "'c \<Rightarrow> 'c \<Rightarrow> 'c"
  pd_div :: "'c \<Rightarrow> 'c \<Rightarrow> 'c"
  pd_group_last :: "'f \<Rightarrow> string \<Rightarrow> string \<Rightarrow> 'c"
  pd_reindex_like :: "'c \<Rightarrow> 'f \<Rightarrow> 'c"

subsection \<open>Columns\<close>

definition BARS_COLUMNS :: "string list" where
  "BARS_COLUMNS = [''code'', ''date'', ''open'', ''high'', ''low'', ''close'', ''volume'', ''amount'', ''currency'']"

definition SNAPSHOT_COLUMNS :: "string list" where
  "SNAPSHOT_COLUMNS = [''code'', ''date'', ''last'', ''open'', ''high'', ''low'', ''prev_close'', ''volume'',
     ''amount'', ''currency'']"

definition NAV_COLUMNS :: "string list" where
  "NAV_COLUMNS = [''code'', ''date'', ''unit_nav'', ''accum_nav'', ''daily_return'', ''currency'']"

definition CALENDAR_COLUMNS :: "string list" where
  "CALENDAR_COLUMNS = [''date'', ''is_open'']"

definition REFERENCE_COLUMNS :: "(string, string list) dict" where
  "REFERENCE_COLUMNS = [(''stock_list'', [''code'', ''name'', ''list_date'', ''market'', ''industry'', ''currency'']),
     (''fund_list'', [''code'', ''name'', ''fund_type'', ''management'', ''list_date'', ''market'', ''currency'']),
     (''etf_list'', [''code'', ''name'', ''fullname'', ''index_code'', ''index_name'', ''setup_date'', ''list_date'',
     ''list_status'', ''exchange'', ''manager'', ''custodian'', ''mgt_fee'', ''etf_type'', ''currency'']),
     (''delist_list'', [''code'', ''name'', ''list_date'', ''delist_date'', ''market'', ''currency'']),
     (''industry_classify'', [''index_code'', ''name'', ''level'', ''industry_code'', ''parent_code'', ''is_pub'',
     ''src'']), (''industry_member'', [''code'', ''name'', ''l1_code'', ''l1_name'', ''l2_code'', ''l2_name'',
     ''l3_code'', ''l3_name'', ''in_date'', ''out_date'', ''is_new'', ''currency'']), (''index_list'', [''code'',
     ''name'', ''market'', ''category'', ''publisher'', ''list_date'', ''currency''])]"

definition SECURITY_INFO_COLUMNS :: "string list" where
  "SECURITY_INFO_COLUMNS = [''code'', ''name'', ''sec_type'', ''market'', ''list_status'', ''list_date'',
     ''delist_date'', ''currency'']"

definition ADJUST_FACTOR_COLUMNS :: "string list" where
  "ADJUST_FACTOR_COLUMNS = [''code'', ''date'', ''adj_factor'']"

definition INDEX_WEIGHT_COLUMNS :: "string list" where
  "INDEX_WEIGHT_COLUMNS = [''code'', ''date'', ''con_code'', ''weight'']"

definition BALANCE_SHEET_COLUMNS :: "string list" where
  "BALANCE_SHEET_COLUMNS = [''code'', ''ann_date'', ''end_date'', ''report_type'', ''total_assets'',
     ''total_cur_assets'', ''money_cap'', ''accounts_receiv'', ''inventories'', ''fix_assets'', ''cip'',
     ''intan_assets'', ''goodwill'', ''total_liab'', ''total_cur_liab'', ''st_borr'', ''lt_borr'', ''acct_payable'',
     ''notes_payable'', ''contract_liab'', ''total_hldr_eqy_exc_min_int'', ''minority_int'', ''currency'']"

definition FINANCIAL_INDICATOR_COLUMNS :: "string list" where
  "FINANCIAL_INDICATOR_COLUMNS = [''code'', ''ann_date'', ''end_date'', ''report_type'', ''eps'', ''dt_eps'', ''bps'',
     ''ocfps'', ''roe'', ''roe_waa'', ''roe_dt'', ''roa'', ''roic'', ''grossprofit_margin'', ''netprofit_margin'',
     ''debt_to_assets'', ''current_ratio'', ''quick_ratio'', ''or_yoy'', ''netprofit_yoy'', ''dt_netprofit_yoy'',
     ''currency'']"

definition FINANCIAL_COLUMNS :: "(string, string list) dict" where
  "FINANCIAL_COLUMNS = [(''balance_sheet'', BALANCE_SHEET_COLUMNS), (''financial_indicator'',
     FINANCIAL_INDICATOR_COLUMNS)]"

definition IPO_COLUMNS :: "string list" where
  "IPO_COLUMNS = [''code'', ''name'', ''ipo_date'', ''issue_date'', ''price'', ''pe'', ''amount'', ''market_amount'',
     ''limit_amount'', ''funds'', ''ballot'', ''currency'']"

definition SUSPENSION_COLUMNS :: "string list" where
  "SUSPENSION_COLUMNS = [''code'', ''date'', ''suspend_type'', ''suspend_timing'', ''currency'']"

definition ST_COLUMNS :: "string list" where
  "ST_COLUMNS = [''code'', ''name'', ''date'', ''st_type'', ''type_name'', ''currency'']"

definition NAMECHANGE_COLUMNS :: "string list" where
  "NAMECHANGE_COLUMNS = [''code'', ''name'', ''start_date'', ''end_date'', ''ann_date'', ''change_reason'',
     ''currency'']"

definition MARKET_EVENT_COLUMNS :: "(string, string list) dict" where
  "MARKET_EVENT_COLUMNS = [(''ipo'', IPO_COLUMNS), (''suspension'', SUSPENSION_COLUMNS), (''st'', ST_COLUMNS),
     (''namechange'', NAMECHANGE_COLUMNS)]"

definition ADJUSTMENT_EVENT_COLUMNS :: "string list" where
  "ADJUSTMENT_EVENT_COLUMNS = [''code'', ''ex_date'', ''dividend_per_share'', ''per_share_bonus'']"

definition DATE_COLUMNS :: "string list" where
  "DATE_COLUMNS = [''date'', ''ex_date'', ''obs_date'', ''list_date'', ''delist_date'', ''setup_date'', ''ann_date'',
     ''end_date'', ''ipo_date'', ''issue_date'']"

lemmas column_defs = BARS_COLUMNS_def SNAPSHOT_COLUMNS_def NAV_COLUMNS_def CALENDAR_COLUMNS_def REFERENCE_COLUMNS_def
  SECURITY_INFO_COLUMNS_def ADJUST_FACTOR_COLUMNS_def INDEX_WEIGHT_COLUMNS_def BALANCE_SHEET_COLUMNS_def
  FINANCIAL_INDICATOR_COLUMNS_def FINANCIAL_COLUMNS_def IPO_COLUMNS_def SUSPENSION_COLUMNS_def ST_COLUMNS_def
  NAMECHANGE_COLUMNS_def MARKET_EVENT_COLUMNS_def ADJUSTMENT_EVENT_COLUMNS_def DATE_COLUMNS_def

definition columns_of_kind :: "(string, string list) dict \<Rightarrow> string \<Rightarrow> string list result" where
  "columns_of_kind table kind = (case map_of table kind of None \<Rightarrow> Inl ValueError | Some columns \<Rightarrow> Inr columns)"

definition reference_columns :: "string \<Rightarrow> string list result" where
  "reference_columns kind = columns_of_kind REFERENCE_COLUMNS kind"

definition financial_columns :: "string \<Rightarrow> string list result" where
  "financial_columns kind = columns_of_kind FINANCIAL_COLUMNS kind"

definition market_event_columns :: "string \<Rightarrow> string list result" where
  "market_event_columns kind = columns_of_kind MARKET_EVENT_COLUMNS kind"

subsection \<open>Finishing a frame\<close>

text \<open>The metadata \<open>DataFrame.attrs\<close> of a finished frame.\<close>

datatype attr = AText string | ABool bool | ADict "(string, string) dict"

record 'f framed =
  fr_frame :: 'f
  fr_attrs :: "(string, attr) dict"

definition set_attr :: "string \<Rightarrow> attr \<Rightarrow> 'f framed \<Rightarrow> 'f framed" where
  "set_attr key v out = out\<lparr>fr_attrs := AList.update key v (fr_attrs out)\<rparr>"

definition missing_required :: "string list \<Rightarrow> string list \<Rightarrow> string list" where
  "missing_required columns present = filter (\<lambda>c. c \<noteq> ''currency'' \<and> c \<notin> set present) columns"

fun parse_dates :: "('f, 'c) pandas \<Rightarrow> string list \<Rightarrow> 'f \<Rightarrow> 'f result" where
  "parse_dates P [] out = Inr out"
| "parse_dates P (column # rest) out =
     (if column \<notin> set (pd_columns P out) then parse_dates P rest out
      else case pd_to_datetime P (pd_column P out column) of
             Inr c \<Rightarrow> parse_dates P rest (pd_set_column P column c out)
           | Inl e \<Rightarrow> if e \<in> {ValueError, TypeError} then Inl ResponseParseError else Inl e)"

definition fill_currency :: "('f, 'c) pandas \<Rightarrow> string list \<Rightarrow> 'f \<Rightarrow> 'f" where
  "fill_currency P columns out =
     (if ''currency'' \<in> set columns \<and> ''code'' \<in> set (pd_columns P out)
      then let derived = pd_map_currency P currency_for_code (pd_column P out ''code'');
               c = (if ''currency'' \<in> set (pd_columns P out)
                    then pd_where_notna P (pd_column P out ''currency'') derived else derived)
           in pd_reindex_columns P columns (pd_set_column P ''currency'' c out)
      else out)"

text \<open>
  \<open>finalize_frame\<close>.  The answer is \<open>None\<close> when it is no data frame; the text of the clock is an argument.
\<close>

definition finalize_frame ::
  "('f, 'c) pandas \<Rightarrow> 'f option \<Rightarrow> string list \<Rightarrow> string \<Rightarrow> bool \<Rightarrow> string \<Rightarrow> 'f framed result" where
  "finalize_frame P answer columns source cached timestamp =
     (case answer of
        None \<Rightarrow> Inl ResponseParseError
      | Some df \<Rightarrow>
          if missing_required columns (pd_columns P df) \<noteq> [] then Inl ResponseParseError
          else map_sum id (\<lambda>out. \<lparr>fr_frame = fill_currency P columns out,
                 fr_attrs = [(''source'', AText source), (''cached'', ABool cached), (''fetched_at'', AText timestamp),
                             (''code_format'', AText ''canonical'')]\<rparr>)
                 (parse_dates P DATE_COLUMNS (pd_select P (filter (\<lambda>c. c \<in> set (pd_columns P df)) columns) df)))"

subsection \<open>Lemmas\<close>

lemma set_attr_frame [simp]: "fr_frame (set_attr k v out) = fr_frame out"
  by (simp add: set_attr_def)

lemma set_attr_of [simp]: "map_of (fr_attrs (set_attr k v out)) = (map_of (fr_attrs out))(k \<mapsto> v)"
  by (simp add: set_attr_def)

lemma finalize_attrs:
  assumes "finalize_frame P answer columns source cached timestamp = Inr out"
  shows "map_of (fr_attrs out) ''source'' = Some (AText source)" and "map_of (fr_attrs out) ''cached'' = Some (ABool cached)"
    and "map_of (fr_attrs out) ''fetched_at'' = Some (AText timestamp)"
  using assms by (auto simp: finalize_frame_def map_sum_def split: option.splits if_splits sum.splits)

end
