(* ===== verification/Hub_Routing.thy ===== *)
theory Hub_Routing
  imports Hub_Schemas
begin

text \<open>
  The hub's router (\<open>routing.py\<close>): the plan of a bars request, the filling of missing columns from other
  sources, and the adjustment of raw prices by a factor source.
\<close>

subsection \<open>Plans\<close>

record routing_config =
  rt_factor_source :: "source option"
  rt_trusted_native_adjust :: "source set"
  rt_fallbacks :: "source list"
  rt_field_fill :: bool

definition default_routing :: routing_config where
  "default_routing = \<lparr>rt_factor_source = Some TUSHARE, rt_trusted_native_adjust = {TUSHARE, AKSHARE}, rt_fallbacks = [],
     rt_field_fill = True\<rparr>"

record bars_plan =
  bp_primary :: source
  bp_adapter_adjust :: "string option"
  bp_factor_source :: "source option"
  bp_fallbacks :: "source list"

definition build_bars_plan :: "source \<Rightarrow> string option \<Rightarrow> routing_config \<Rightarrow> bars_plan result" where
  "build_bars_plan source adjust routing =
     (if adjust = None \<or> source \<in> rt_trusted_native_adjust routing
      then Inr \<lparr>bp_primary = source, bp_adapter_adjust = adjust, bp_factor_source = None, bp_fallbacks = rt_fallbacks routing\<rparr>
      else case rt_factor_source routing of
             None \<Rightarrow> Inl UnsupportedCapability
           | Some f \<Rightarrow> Inr \<lparr>bp_primary = source, bp_adapter_adjust = None, bp_factor_source = Some f,
                           bp_fallbacks = rt_fallbacks routing\<rparr>)"

subsection \<open>Filling columns\<close>

definition missing_columns :: "('f, 'c) pandas \<Rightarrow> 'f \<Rightarrow> string list \<Rightarrow> string list" where
  "missing_columns P df columns =
     filter (\<lambda>column. column \<notin> set (pd_columns P df) \<or> pd_isna_all P (pd_column P df column)) columns"

text \<open>The first frame that has values for the column, as the inner loop of \<open>fill_missing_fields\<close> takes it.\<close>

fun first_with :: "('f, 'c) pandas \<Rightarrow> string \<Rightarrow> (string \<times> 'f) list \<Rightarrow> (string \<times> 'f) option" where
  "first_with P column [] = None"
| "first_with P column ((label, frame) # rest) =
     (if column \<notin> set (pd_columns P frame) \<or> pd_isna_all P (pd_column P frame column) then first_with P column rest
      else Some (label, frame))"

definition patch_column :: "('f, 'c) pandas \<Rightarrow> string \<Rightarrow> 'f \<Rightarrow> 'f \<Rightarrow> 'f" where
  "patch_column P column result frame =
     (if {''code'', ''date''} \<subseteq> set (pd_columns P result) \<and> {''code'', ''date''} \<subseteq> set (pd_columns P frame)
      then let fill = column @ ''__fill'';
               patch = pd_rename P column fill (pd_select P [''code'', ''date'', column] frame);
               merged = pd_merge_left P [''code'', ''date''] result patch
           in pd_drop_column P fill
                (pd_set_column P column (pd_where_notna P (pd_column P merged column) (pd_column P merged fill)) merged)
      else pd_set_column P column (pd_reindex_like P (pd_column P frame column) result) result)"

fun fill_columns ::
  "('f, 'c) pandas \<Rightarrow> (string \<times> 'f) list \<Rightarrow> string list \<Rightarrow> 'f \<Rightarrow> (string, string) dict \<Rightarrow> 'f \<times> (string, string) dict" where
  "fill_columns P fill_frames [] result filled = (result, filled)"
| "fill_columns P fill_frames (column # rest) result filled =
     (let result1 = (if column \<notin> set (pd_columns P result) then pd_set_column P column (pd_na P result) result else result)
      in if \<not> pd_isna_all P (pd_column P result1 column) then fill_columns P fill_frames rest result1 filled
         else case first_with P column fill_frames of
                None \<Rightarrow> fill_columns P fill_frames rest result1 filled
              | Some (label, frame) \<Rightarrow>
                  fill_columns P fill_frames rest (patch_column P column result1 frame) (AList.update column label filled))"

definition fill_missing_fields ::
  "('f, 'c) pandas \<Rightarrow> 'f \<Rightarrow> (string \<times> 'f) list \<Rightarrow> string list \<Rightarrow> 'f \<times> (string, string) dict" where
  "fill_missing_fields P primary fill_frames columns = fill_columns P fill_frames columns primary []"

subsection \<open>Adjusted prices\<close>

definition to_dates :: "('f, 'c) pandas \<Rightarrow> 'f \<Rightarrow> 'f result" where
  "to_dates P df = map_sum id (\<lambda>c. pd_set_column P ''date'' c df) (pd_to_datetime P (pd_column P df ''date''))"

fun scale_columns :: "('f, 'c) pandas \<Rightarrow> 'c \<Rightarrow> string list \<Rightarrow> 'f \<Rightarrow> 'f" where
  "scale_columns P ratio [] df = df"
| "scale_columns P ratio (column # rest) df =
     scale_columns P ratio rest
       (if column \<in> set (pd_columns P df) then pd_set_column P column (pd_mul P (pd_column P df column) ratio) df else df)"

definition apply_adjustment :: "('f, 'c) pandas \<Rightarrow> 'f \<Rightarrow> 'f \<Rightarrow> string \<Rightarrow> 'f result" where
  "apply_adjustment P bars factors adjust =
     (if adjust \<notin> {''qfq'', ''hfq''} then Inl ValueError
      else if pd_is_empty P bars then Inr bars
      else bind_result (to_dates P bars) (\<lambda>bars.
           bind_result (to_dates P factors) (\<lambda>factors.
             let factors = pd_dropna P [''date'', ''adj_factor''] factors
             in if pd_is_empty P factors then Inl SourceError
                else let merged = pd_merge_asof P ''date'' ''code'' (pd_sort_values P [''date''] bars)
                             (pd_sort_values P [''date''] (pd_select P [''code'', ''date'', ''adj_factor''] factors));
                         f = pd_column P merged ''adj_factor''
                     in if pd_isna_any P f then Inl SourceError
                        else let ratio = (if adjust = ''qfq'' then pd_div P f (pd_group_last P merged ''code'' ''adj_factor'') else f)
                             in Inr (pd_sort_values P [''code'', ''date''] (pd_drop_column P ''adj_factor''
                                  (scale_columns P ratio [''open'', ''high'', ''low'', ''close''] merged))))))"

subsection \<open>Lemmas\<close>

lemma plan_primary: "build_bars_plan source adjust routing = Inr plan \<Longrightarrow> bp_primary plan = source \<and> bp_fallbacks plan = rt_fallbacks routing"
  by (auto simp: build_bars_plan_def split: if_splits option.splits)

lemma currency_always_missing: "''currency'' \<notin> set (pd_columns P df) \<Longrightarrow> missing_columns P df BARS_COLUMNS \<noteq> []"
  by (simp add: missing_columns_def BARS_COLUMNS_def)

lemma first_with_in: "first_with P column frames = Some (label, frame) \<Longrightarrow>
    (label, frame) \<in> set frames \<and> column \<in> set (pd_columns P frame) \<and> \<not> pd_isna_all P (pd_column P frame column)"
  by (induction P column frames rule: first_with.induct) (auto split: if_splits)

text \<open>A column is filled only when it was missing, and from a frame that has values for it.\<close>

lemma fill_columns_filled:
  "fill_columns P frames columns result filled = (result', filled') \<Longrightarrow> map_of filled' column = Some label \<Longrightarrow>
    map_of filled column = Some label \<or> column \<in> set columns \<and> (\<exists>frame. (label, frame) \<in> set frames
      \<and> column \<in> set (pd_columns P frame) \<and> \<not> pd_isna_all P (pd_column P frame column))"
proof (induction columns arbitrary: result filled)
  case (Cons c columns)
  let ?r = "if c \<notin> set (pd_columns P result) then pd_set_column P c (pd_na P result) result else result"
  show ?case
  proof (cases "pd_isna_all P (pd_column P ?r c) \<and> first_with P c frames \<noteq> None")
    case True
    then obtain l frame where f: "first_with P c frames = Some (l, frame)" by auto
    with True Cons.prems(1) have "fill_columns P frames columns (patch_column P c ?r frame) (AList.update c l filled) = (result', filled')"
      by (simp add: Let_def split: if_splits)
    from Cons.IH [OF this Cons.prems(2)] first_with_in [OF f] show ?thesis by (cases "column = c") auto
  next
    case False
    with Cons.prems(1) have "fill_columns P frames columns ?r filled = (result', filled')"
      by (auto simp: Let_def split: if_splits option.splits)
    from Cons.IH [OF this Cons.prems(2)] show ?thesis by auto
  qed
qed simp

end
