(* ===== verification/Hub_Sources.thy ===== *)
theory Hub_Sources
  imports Hub_Routing Hub_RateLimit Hub_Usage
begin

text \<open>
  The sources of the hub: the configuration (\<open>config.py\<close>), the adapter interface with the shared limiter
  and usage calls (\<open>sources/base.py\<close>), the registry (\<open>sources/registry.py\<close>) and its construction from a
  configuration (\<open>sources/factory.py\<close>).  A call of an adapter is a step on the hub's environment: the usage
  ledger and the limiters it is bound to, and whatever else it talks to.
\<close>

subsection \<open>Steps\<close>

type_synonym ('e, 'a) step = "'e \<Rightarrow> 'e \<times> 'a result"

definition give :: "'a \<Rightarrow> ('e, 'a) step" where
  "give x e = (e, Inr x)"

definition throw :: "py_error \<Rightarrow> ('e, 'a) step" where
  "throw err e = (e, Inl err)"

definition and_then :: "('e, 'a) step \<Rightarrow> ('a \<Rightarrow> ('e, 'b) step) \<Rightarrow> ('e, 'b) step" where
  "and_then m f e = (case m e of (e', Inl err) \<Rightarrow> (e', Inl err) | (e', Inr x) \<Rightarrow> f x e')"

definition of_result :: "'a result \<Rightarrow> ('e, 'a) step" where
  "of_result r e = (e, r)"

lemma step_simps [simp]:
  "give x e = (e, Inr x)" "throw err e = (e, Inl err)" "of_result r e = (e, r)"
  by (simp_all add: give_def throw_def of_result_def)

lemma and_then_Inr: "and_then m f e = (e', Inr y) \<longleftrightarrow> (\<exists>e1 x. m e = (e1, Inr x) \<and> f x e1 = (e', Inr y))"
  by (auto simp: and_then_def split: prod.splits sum.splits)

lemma and_then_Inl: "and_then m f e = (e', Inl err) \<longleftrightarrow>
    m e = (e', Inl err) \<or> (\<exists>e1 x. m e = (e1, Inr x) \<and> f x e1 = (e', Inl err))"
  by (auto simp: and_then_def split: prod.splits sum.splits)

lemmas and_then_cases = and_then_Inr and_then_Inl

fun each :: "('a \<Rightarrow> ('e, 'b) step) \<Rightarrow> 'a list \<Rightarrow> ('e, 'b list) step" where
  "each f [] = give []"
| "each f (x # xs) = and_then (f x) (\<lambda>y. and_then (each f xs) (\<lambda>ys. give (y # ys)))"

lemma each_length: "each f xs e = (e', Inr ys) \<Longrightarrow> length ys = length xs"
  by (induction xs arbitrary: e ys) (auto simp: and_then_cases)

subsection \<open>The configuration\<close>

record fuyao_config =
  fy_api_key :: "string option"
  fy_base_url :: string
  fy_max_attempts :: int

record cache_settings =
  cc_max_bytes :: int
  cc_max_entries :: int
  cc_max_entry_bytes :: int
  cc_ttl :: "int option"

definition default_cache_settings :: cache_settings where
  "default_cache_settings = \<lparr>cc_max_bytes = 512 * 1024 * 1024, cc_max_entries = 4096, cc_max_entry_bytes = 64 * 1024 * 1024,
     cc_ttl = Some (6 * 3600)\<rparr>"

text \<open>
  A source's sub-configuration is \<open>None\<close> when it is not given.  That of AkShare is empty.
\<close>

record hub_config =
  hb_tushare :: "string option option"
  hb_wind :: "string option option"
  hb_ifind :: "string option option"
  hb_fuyao :: "fuyao_config option"
  hb_baostock_attempts :: int
  hb_cache :: cache_settings
  hb_budget :: budget_config
  hb_rate_limits :: "(string, rate_limit_config) dict"
  hb_routing :: routing_config
  hb_default_source :: "source option"

subsection \<open>Adapters\<close>

record 's hub_env =
  he_usage :: usage_ledger
  he_limiters :: "(source, limiter_set) dict"
  he_world :: 's

record ('s, 'f) adapter =
  ad_source :: source
  ad_capabilities :: "capability list"
  fetch_bars :: "sec_code list \<Rightarrow> string \<Rightarrow> string \<Rightarrow> string \<Rightarrow> string option \<Rightarrow> string list option \<Rightarrow> ('s hub_env, 'f) step"
  fetch_snapshot :: "sec_code list \<Rightarrow> string list option \<Rightarrow> ('s hub_env, 'f) step"
  fetch_fund_nav :: "sec_code list \<Rightarrow> string option \<Rightarrow> string option \<Rightarrow> ('s hub_env, 'f) step"
  fetch_reference :: "string \<Rightarrow> ('s hub_env, 'f) step"
  fetch_security_info :: "sec_code list \<Rightarrow> ('s hub_env, 'f) step"
  fetch_index_weights :: "sec_code list \<Rightarrow> string \<Rightarrow> string \<Rightarrow> ('s hub_env, 'f) step"
  fetch_financials :: "sec_code list \<Rightarrow> string \<Rightarrow> string \<Rightarrow> string \<Rightarrow> ('s hub_env, 'f) step"
  fetch_market_events :: "string \<Rightarrow> string \<Rightarrow> string \<Rightarrow> sec_code list option \<Rightarrow> ('s hub_env, 'f) step"
  fetch_trade_calendar :: "string \<Rightarrow> string \<Rightarrow> ('s hub_env, 'f) step"
  fetch_adjust_factors :: "sec_code list \<Rightarrow> string \<Rightarrow> string \<Rightarrow> ('s hub_env, 'f) step"
  fetch_adjustment_events :: "sec_code list \<Rightarrow> string option \<Rightarrow> string option \<Rightarrow> ('s hub_env, 'f) step"

abbreviation not_implemented :: "('e, 'a) step" where
  "not_implemented \<equiv> throw (OtherError ''NotImplementedError'' [])"

text \<open>The base class: every endpoint that a source does not implement raises.\<close>

definition base_adapter :: "source \<Rightarrow> capability list \<Rightarrow> ('s, 'f) adapter" where
  "base_adapter source capabilities =
     \<lparr>ad_source = source, ad_capabilities = capabilities,
      fetch_bars = \<lambda>codes start end freq adjust fields. not_implemented,
      fetch_snapshot = \<lambda>codes fields. not_implemented,
      fetch_fund_nav = \<lambda>codes start end. not_implemented,
      fetch_reference = \<lambda>kind. not_implemented,
      fetch_security_info = \<lambda>codes. not_implemented,
      fetch_index_weights = \<lambda>codes start end. not_implemented,
      fetch_financials = \<lambda>codes kind start end. not_implemented,
      fetch_market_events = \<lambda>kind start end codes. not_implemented,
      fetch_trade_calendar = \<lambda>start end. not_implemented,
      fetch_adjust_factors = \<lambda>codes start end. not_implemented,
      fetch_adjustment_events = \<lambda>codes start end. not_implemented\<rparr>"

definition bind_rate_limits :: "source \<Rightarrow> limiter_set \<Rightarrow> 's hub_env \<Rightarrow> 's hub_env" where
  "bind_rate_limits source s e = e\<lparr>he_limiters := AList.update source s (he_limiters e)\<rparr>"

text \<open>\<open>_acquire\<close> and \<open>_record\<close>.  The clock's readings during the call are arguments; \<open>None\<close>: they do not suffice.\<close>

definition adapter_acquire :: "source \<Rightarrow> string \<Rightarrow> rat \<Rightarrow> wait_round list \<Rightarrow> 's hub_env \<Rightarrow> ('s hub_env \<times> unit result) option" where
  "adapter_acquire source endpoint start rounds e =
     (case map_of (he_limiters e) source of
        None \<Rightarrow> Some (e, Inr ())
      | Some s \<Rightarrow> map_option (\<lambda>(s', _, r). (bind_rate_limits source s' e, r)) (set_acquire (Some endpoint) 1 None start rounds s))"

definition adapter_record :: "source \<Rightarrow> string \<Rightarrow> int \<Rightarrow> string list \<Rightarrow> rat \<Rightarrow> time \<Rightarrow> ('s hub_env, unit) step" where
  "adapter_record source endpoint calls codes latency now e =
     (case ledger_record (source_value source) endpoint calls codes latency now (he_usage e) of
        (u, r) \<Rightarrow> (e\<lparr>he_usage := u\<rparr>, map_sum id (\<lambda>_. ()) r))"

subsection \<open>The registry\<close>

type_synonym ('s, 'f) registry = "(source, ('s, 'f) adapter) dict"

definition register :: "('s, 'f) adapter \<Rightarrow> ('s, 'f) registry \<Rightarrow> ('s, 'f) registry" where
  "register a r = AList.update (ad_source a) a r"

definition new_registry :: "('s, 'f) adapter list \<Rightarrow> ('s, 'f) registry" where
  "new_registry adapters = foldl (\<lambda>r a. register a r) [] adapters"

definition get_adapter :: "source \<Rightarrow> ('s, 'f) registry \<Rightarrow> ('s, 'f) adapter result" where
  "get_adapter source r = (case map_of r source of None \<Rightarrow> Inl UnsupportedCapability | Some a \<Rightarrow> Inr a)"

definition get_for_capability :: "source \<Rightarrow> capability \<Rightarrow> ('s, 'f) registry \<Rightarrow> ('s, 'f) adapter result" where
  "get_for_capability source c r =
     bind_result (get_adapter source r) (\<lambda>a. if c \<in> set (ad_capabilities a) then Inr a else Inl UnsupportedCapability)"

text \<open>\<open>sorted\<close> of the six names: they are listed in the order of the alphabet.\<close>

definition available :: "('s, 'f) registry \<Rightarrow> string list" where
  "available r = map source_value (filter (\<lambda>s. s \<in> set (dict_keys r)) [AKSHARE, BAOSTOCK, FUYAO, IFIND, TUSHARE, WIND])"

subsection \<open>Building the registry\<close>

text \<open>
  The errors \<open>_try_register\<close> skips: the classes under \<open>FinDataHubError\<close>, and \<open>ImportError\<close> with the
  \<open>ModuleNotFoundError\<close> that a missing module raises.  The constructors of the adapters are arguments.
\<close>

fun hub_error :: "py_error \<Rightarrow> bool" where
  "hub_error UnknownSecurityError = True"
| "hub_error UnsupportedCapability = True"
| "hub_error MissingCredentialError = True"
| "hub_error RateLimitTimeout = True"
| "hub_error RateLimitError = True"
| "hub_error SourceError = True"
| "hub_error NetworkError = True"
| "hub_error ResponseParseError = True"
| "hub_error _ = False"

definition skipped :: "py_error \<Rightarrow> bool" where
  "skipped err \<longleftrightarrow> hub_error err
     \<or> (case err of OtherError c _ \<Rightarrow> c \<in> {''ImportError'', ''ModuleNotFoundError''} | _ \<Rightarrow> False)"

definition try_register :: "('s, 'f) adapter result \<Rightarrow> ('s, 'f) registry \<Rightarrow> ('s, 'f) registry result" where
  "try_register made r =
     (case made of Inr a \<Rightarrow> Inr (register a r) | Inl err \<Rightarrow> if skipped err then Inr r else Inl err)"

definition given :: "string option option \<Rightarrow> bool" where
  "given c = (case c of Some (Some (a # s)) \<Rightarrow> True | _ \<Rightarrow> False)"

fun configured :: "hub_config \<Rightarrow> source \<Rightarrow> bool" where
  "configured cfg TUSHARE = given (hb_tushare cfg)"
| "configured cfg WIND = given (hb_wind cfg)"
| "configured cfg IFIND = given (hb_ifind cfg)"
| "configured cfg AKSHARE = True"
| "configured cfg FUYAO = given (map_option fy_api_key (hb_fuyao cfg))"
| "configured cfg BAOSTOCK = True"

definition requested_sources :: "string list option \<Rightarrow> source list option result" where
  "requested_sources sources =
     (case sources of None \<Rightarrow> Inr None
      | Some texts \<Rightarrow> map_sum id Some (foldr (\<lambda>t r. bind_result (Source t) (\<lambda>s. bind_result r (\<lambda>ss. Inr (s # ss)))) texts (Inr [])))"

definition wants :: "source list option \<Rightarrow> source \<Rightarrow> bool" where
  "wants requested s = (case requested of None \<Rightarrow> True | Some ss \<Rightarrow> s \<in> set ss)"

text \<open>
  The constructors take what the factory hands them: the token, key or configuration of the source, and
  nothing for AkShare and BaoStock, whose attempts are the default of \<open>BaostockConfig\<close>.
\<close>

record ('s, 'f) makers =
  mk_tushare :: "string option option \<Rightarrow> ('s, 'f) adapter result"
  mk_wind :: "string option option \<Rightarrow> ('s, 'f) adapter result"
  mk_ifind :: "string option option \<Rightarrow> ('s, 'f) adapter result"
  mk_akshare :: "('s, 'f) adapter result"
  mk_fuyao :: "fuyao_config option \<Rightarrow> ('s, 'f) adapter result"
  mk_baostock :: "int \<Rightarrow> ('s, 'f) adapter result"

definition DEFAULT_BAOSTOCK_ATTEMPTS :: int where "DEFAULT_BAOSTOCK_ATTEMPTS = 2"

fun adapter_for :: "('s, 'f) makers \<Rightarrow> hub_config \<Rightarrow> source \<Rightarrow> ('s, 'f) adapter result" where
  "adapter_for m cfg TUSHARE = mk_tushare m (hb_tushare cfg)"
| "adapter_for m cfg WIND = mk_wind m (hb_wind cfg)"
| "adapter_for m cfg IFIND = mk_ifind m (hb_ifind cfg)"
| "adapter_for m cfg AKSHARE = mk_akshare m"
| "adapter_for m cfg FUYAO = mk_fuyao m (hb_fuyao cfg)"
| "adapter_for m cfg BAOSTOCK = mk_baostock m DEFAULT_BAOSTOCK_ATTEMPTS"

fun register_all ::
  "('s, 'f) makers \<Rightarrow> hub_config \<Rightarrow> source list option \<Rightarrow> source list \<Rightarrow> ('s, 'f) registry \<Rightarrow> ('s, 'f) registry result" where
  "register_all m cfg requested [] r = Inr r"
| "register_all m cfg requested (s # rest) r =
     (if wants requested s \<and> configured cfg s
      then bind_result (try_register (adapter_for m cfg s) r) (register_all m cfg requested rest)
      else register_all m cfg requested rest r)"

definition build_registry :: "('s, 'f) makers \<Rightarrow> hub_config \<Rightarrow> string list option \<Rightarrow> ('s, 'f) registry result" where
  "build_registry m cfg sources =
     bind_result (requested_sources sources) (\<lambda>requested.
       register_all m cfg requested [TUSHARE, WIND, IFIND, AKSHARE, FUYAO, BAOSTOCK] [])"

subsection \<open>Lemmas\<close>

text \<open>The registry holds every adapter under its own source.\<close>

definition registry_ok :: "('s, 'f) registry \<Rightarrow> bool" where
  "registry_ok r \<longleftrightarrow> (\<forall>s a. map_of r s = Some a \<longrightarrow> ad_source a = s)"

lemma registry_ok_empty [simp]: "registry_ok []"
  by (simp add: registry_ok_def)

lemma registry_ok_register: "registry_ok r \<Longrightarrow> registry_ok (register a r)"
  by (simp add: registry_ok_def register_def)

lemma registry_ok_new: "registry_ok (new_registry adapters)"
proof -
  have "registry_ok r \<Longrightarrow> registry_ok (foldl (\<lambda>r a. register a r) r adapters)" for r
    by (induction adapters arbitrary: r) (simp_all add: registry_ok_register)
  then show ?thesis by (simp add: new_registry_def)
qed

lemma get_adapter_source: "registry_ok r \<Longrightarrow> get_adapter s r = Inr a \<Longrightarrow> ad_source a = s"
  by (auto simp: registry_ok_def get_adapter_def split: option.splits)

lemma get_for_capability_Inr: "get_for_capability s c r = Inr a \<longleftrightarrow> map_of r s = Some a \<and> c \<in> set (ad_capabilities a)"
  by (auto simp: get_for_capability_def get_adapter_def split: option.splits)

text \<open>
  What the factory builds: a source is registered exactly when it is wanted, configured and its
  constructor succeeds; an error is one that \<open>_try_register\<close> does not skip.
\<close>

lemma registered_keys: "map_of (register a r) s = (if s = ad_source a then Some a else map_of r s)"
  by (simp add: register_def)

lemma register_all_exact:
  assumes "register_all m cfg requested sources r = Inr r'" and "distinct sources"
    and "\<And>s a. adapter_for m cfg s = Inr a \<Longrightarrow> ad_source a = s"
  shows "map_of r' s = (if s \<in> set sources \<and> wants requested s \<and> configured cfg s \<and> isl (adapter_for m cfg s) = False
      then Some (projr (adapter_for m cfg s)) else map_of r s)"
  using assms(1,2)
proof (induction sources arbitrary: r)
  case (Cons x sources)
  show ?case
  proof (cases "wants requested x \<and> configured cfg x")
    case False
    with Cons show ?thesis by auto
  next
    case True
    show ?thesis
    proof (cases "adapter_for m cfg x")
      case (Inl err)
      with Cons.prems True have "register_all m cfg requested sources r = Inr r'"
        by (simp add: try_register_def split: if_splits)
      from Cons.IH [OF this] Cons.prems(2) Inl show ?thesis by auto
    next
      case (Inr a)
      with Cons.prems True have r: "register_all m cfg requested sources (register a r) = Inr r'"
        by (simp add: try_register_def)
      have "ad_source a = x" using assms(3) [OF Inr] .
      with Cons.IH [OF r] Cons.prems(2) Inr True show ?thesis by (auto simp: registered_keys)
    qed
  qed
qed simp

lemma build_registry_ignores_attempts: "build_registry m (cfg\<lparr>hb_baostock_attempts := n\<rparr>) sources = build_registry m cfg sources"
proof -
  have c: "configured (cfg\<lparr>hb_baostock_attempts := n\<rparr>) s = configured cfg s" for s by (cases s) simp_all
  have a: "adapter_for m (cfg\<lparr>hb_baostock_attempts := n\<rparr>) s = adapter_for m cfg s" for s by (cases s) simp_all
  have "register_all m (cfg\<lparr>hb_baostock_attempts := n\<rparr>) requested ss r = register_all m cfg requested ss r" for requested ss r
    by (induction ss arbitrary: r) (simp_all add: c a cong: sum.case_cong)
  then show ?thesis unfolding build_registry_def by (simp del: register_all.simps cong: sum.case_cong)
qed

end
