(* ===== verification/Hub_Facade.thy ===== *)
theory Hub_Facade
  imports Hub_Sources Hub_Cache
begin

text \<open>
  The facade of the hub (\<open>facade.py\<close>): every \<open>get_*\<close> request resolves its source and codes, binds the
  adapters, and answers from the cache or by a load.  A request is a step on the hub, a load a step on the
  hub's environment.  The readings of the clocks during a request are arguments.
\<close>

subsection \<open>State\<close>

datatype key_part = KText string | KNone | KTexts "string list"

record ('s, 'f) hub =
  hf_config :: hub_config
  hf_registry :: "('s, 'f) registry"
  hf_cache :: "(key_part list, 'f framed) hub_cache"
  hf_env :: "'s hub_env"

record readings =
  rd_contains :: int
  rd_get :: int
  rd_put :: int
  rd_mono :: rat
  rd_stamp :: string

definition USAGE_MAX_RECORDS :: nat where "USAGE_MAX_RECORDS = 1000"

definition new_hub ::
  "('f framed \<Rightarrow> int result) \<Rightarrow> 's \<Rightarrow> hub_config \<Rightarrow> ('s, 'f) registry \<Rightarrow> ('s, 'f) hub result" where
  "new_hub size_fn world cfg r =
     map_sum id (\<lambda>c. \<lparr>hf_config = cfg, hf_registry = r, hf_cache = c,
         hf_env = \<lparr>he_usage = new_ledger (hb_budget cfg) USAGE_MAX_RECORDS, he_limiters = [], he_world = world\<rparr>\<rparr>)
       (new_hub_cache \<lparr>hx_max_bytes = cc_max_bytes (hb_cache cfg), hx_max_entries = cc_max_entries (hb_cache cfg),
          hx_max_entry_bytes = cc_max_entry_bytes (hb_cache cfg), hx_ttl = cc_ttl (hb_cache cfg), hx_safety = 6 / 5,
          hx_size_fn = size_fn\<rparr>)"

definition from_config ::
  "('s, 'f) makers \<Rightarrow> ('f framed \<Rightarrow> int result) \<Rightarrow> 's \<Rightarrow> hub_config \<Rightarrow> ('s, 'f) hub result" where
  "from_config m size_fn world cfg = bind_result (build_registry m cfg None) (new_hub size_fn world cfg)"

definition asks :: "('e \<Rightarrow> 'a result) \<Rightarrow> ('e, 'a) step" where
  "asks f e = (e, f e)"

lemma asks_simp [simp]: "asks f e = (e, f e)"
  by (simp add: asks_def)

subsection \<open>Adapters, sources and codes of a request\<close>

definition limiter_for :: "source \<Rightarrow> rat \<Rightarrow> (('s, 'f) hub, limiter_set) step" where
  "limiter_for source now h =
     (case map_of (he_limiters (hf_env h)) source of
        Some s \<Rightarrow> (h, Inr s)
      | None \<Rightarrow>
          (case (case map_of (hb_rate_limits (hf_config h)) (source_value source) of
                   None \<Rightarrow> default_rate_limiter_set (source_value source) now
                 | Some o' \<Rightarrow> map_sum id (\<lambda>l. \<lparr>ls_default = l, ls_endpoints = [], ls_timeout = rl_timeout o'\<rparr>)
                               (new_limiter (rl_rate o') (rl_burst o') now)) of
             Inl err \<Rightarrow> (h, Inl err)
           | Inr s \<Rightarrow> (h\<lparr>hf_env := bind_rate_limits source s (hf_env h)\<rparr>, Inr s)))"

definition adapter_of :: "source \<Rightarrow> capability \<Rightarrow> rat \<Rightarrow> (('s, 'f) hub, ('s, 'f) adapter) step" where
  "adapter_of source c now =
     and_then (asks (\<lambda>h. get_for_capability source c (hf_registry h))) (\<lambda>a.
     and_then (limiter_for source now) (\<lambda>_. give a))"

definition resolve_source :: "string option \<Rightarrow> (('s, 'f) hub, source) step" where
  "resolve_source source =
     asks (\<lambda>h. case source of
        Some t \<Rightarrow> Source t
      | None \<Rightarrow> (case hb_default_source (hf_config h) of Some s \<Rightarrow> Inr s | None \<Rightarrow> Inl ValueError))"

definition request_codes :: "code_input list \<Rightarrow> sec_code list result" where
  "request_codes codes = bind_result (parse_codes codes) (\<lambda>cs. if cs = [] then Inl ValueError else Inr cs)"

definition code_part :: "sec_code list \<Rightarrow> key_part" where
  "code_part codes = KTexts (sort (map canonical codes))"

fun opt_part :: "string option \<Rightarrow> key_part" where
  "opt_part None = KNone"
| "opt_part (Some s) = KText s"

fun given_fields :: "string list option \<Rightarrow> string list option" where
  "given_fields (Some (f # fs)) = Some (f # fs)"
| "given_fields _ = None"

definition fields_part :: "string list option \<Rightarrow> key_part" where
  "fields_part wanted = KTexts (case given_fields wanted of None \<Rightarrow> [] | Some fs \<Rightarrow> fs)"

subsection \<open>Loading through the cache\<close>

text \<open>
  \<open>was_cached\<close>, \<open>get_or_load\<close> and \<open>_with_cached_flag\<close> of every endpoint.  The load is told what
  \<open>was_cached\<close> is, since it stamps it into the frame it stores.
\<close>

definition cached_request ::
  "key_part list \<Rightarrow> bool \<Rightarrow> int option \<Rightarrow> readings \<Rightarrow> (bool \<Rightarrow> ('s hub_env, 'f framed) step) \<Rightarrow> (('s, 'f) hub, 'f framed) step" where
  "cached_request key force ttl rd load h =
     (case (if force then (hf_cache h, False) else hub_contains key (rd_contains rd) (hf_cache h)) of
        (c, was_cached) \<Rightarrow>
          (case hub_get_or_load key (load was_cached) force ttl (rd_get rd) (rd_put rd) c (hf_env h) of
             (c', e', _, r) \<Rightarrow> (h\<lparr>hf_cache := c', hf_env := e'\<rparr>, map_sum id (set_attr ''cached'' (ABool was_cached)) r)))"

definition merge_frames :: "('f, 'c) pandas \<Rightarrow> 'f list \<Rightarrow> string list \<Rightarrow> string list \<Rightarrow> 'f" where
  "merge_frames P frames dedupe_on sort_by =
     (if frames = [] then pd_empty P
      else let merged = pd_concat P frames;
               deduped = (if dedupe_on \<noteq> [] \<and> set dedupe_on \<subseteq> set (pd_columns P merged)
                          then pd_drop_duplicates P dedupe_on merged else merged)
           in if sort_by \<noteq> [] \<and> set sort_by \<subseteq> set (pd_columns P deduped)
              then pd_sort_values P sort_by deduped else deduped)"

text \<open>The load of every endpoint but \<open>get_bars\<close>: fetch the chunks, merge, finish.\<close>

definition load_chunks ::
  "('f, 'c) pandas \<Rightarrow> ('a \<Rightarrow> ('e, 'f) step) \<Rightarrow> 'a list \<Rightarrow> string list \<Rightarrow> string list \<Rightarrow> string list \<Rightarrow> source \<Rightarrow> string
    \<Rightarrow> bool \<Rightarrow> ('e, 'f framed) step" where
  "load_chunks P fetch chunks dedupe_on sort_by columns source stamp was_cached =
     and_then (each fetch chunks) (\<lambda>frames.
       of_result (finalize_frame P (Some (merge_frames P frames dedupe_on sort_by)) columns (source_value source) was_cached stamp))"

definition load_single ::
  "('f, 'c) pandas \<Rightarrow> ('e, 'f) step \<Rightarrow> string list \<Rightarrow> source \<Rightarrow> string \<Rightarrow> bool \<Rightarrow> ('e, 'f framed) step" where
  "load_single P fetch columns source stamp was_cached =
     and_then fetch (\<lambda>raw. of_result (finalize_frame P (Some raw) columns (source_value source) was_cached stamp))"

text \<open>A request by codes for a capability of one source.\<close>

definition request_by_codes ::
  "('f, 'c) pandas \<Rightarrow> (('s, 'f) hub, source) step \<Rightarrow> capability \<Rightarrow> code_input list \<Rightarrow> (string \<Rightarrow> key_part \<Rightarrow> key_part list)
    \<Rightarrow> (('s, 'f) adapter \<Rightarrow> sec_code list \<Rightarrow> ('s hub_env, 'f) step) \<Rightarrow> string list \<Rightarrow> string list \<Rightarrow> string list
    \<Rightarrow> bool \<Rightarrow> int option \<Rightarrow> readings \<Rightarrow> (('s, 'f) hub, 'f framed) step" where
  "request_by_codes P resolve c codes key fetch dedupe_on sort_by columns force ttl rd =
     and_then resolve (\<lambda>resolved.
     and_then (of_result (request_codes codes)) (\<lambda>scodes.
     and_then (adapter_of resolved c (rd_mono rd)) (\<lambda>adapter.
       cached_request (key (source_value resolved) (code_part scodes)) force ttl rd
         (load_chunks P (fetch adapter) (split_codes resolved c scodes) dedupe_on sort_by columns resolved (rd_stamp rd)))))"


subsection \<open>Bars\<close>

text \<open>The errors that move a bars request on to the next source: \<open>SourceError\<close> with its subclasses, and a missing credential.\<close>

definition falls_back :: "py_error \<Rightarrow> bool" where
  "falls_back err \<longleftrightarrow> err \<in> {SourceError, NetworkError, ResponseParseError, MissingCredentialError}"

definition bars_keys :: "string list" where "bars_keys = [''code'', ''date'']"

definition fetch_frames ::
  "sec_code list \<Rightarrow> string \<Rightarrow> string \<Rightarrow> string \<Rightarrow> string option \<Rightarrow> string list option \<Rightarrow> ('s, 'f) adapter \<Rightarrow> ('s hub_env, 'f list) step" where
  "fetch_frames codes start end freq adjust wanted a =
     each (\<lambda>chunk. fetch_bars a chunk start end freq adjust wanted) (split_codes (ad_source a) BARS codes)"

fun try_sources :: "(('s, 'f) adapter \<Rightarrow> ('e, 'f list) step) \<Rightarrow> (string \<times> ('s, 'f) adapter) list \<Rightarrow> string \<Rightarrow> ('e, string \<times> 'f list) step" where
  "try_sources fetch [] used e = (e, Inr (used, []))"
| "try_sources fetch ((label, a) # rest) used e =
     (case fetch a e of
        (e', Inr frames) \<Rightarrow> (e', Inr (label, frames))
      | (e', Inl err) \<Rightarrow> if falls_back err then try_sources fetch rest used e' else (e', Inl err))"

fun fill_frames ::
  "('f, 'c) pandas \<Rightarrow> (('s, 'f) adapter \<Rightarrow> ('e, 'f list) step) \<Rightarrow> (string \<times> ('s, 'f) adapter) list \<Rightarrow> ('e, (string \<times> 'f) list) step" where
  "fill_frames P fetch [] e = (e, Inr [])"
| "fill_frames P fetch ((label, a) # rest) e =
     (case fetch a e of
        (e', Inr frames) \<Rightarrow>
          and_then (fill_frames P fetch rest) (\<lambda>fs. give ((label, merge_frames P frames bars_keys bars_keys) # fs)) e'
      | (e', Inl err) \<Rightarrow> if falls_back err then fill_frames P fetch rest e' else (e', Inl err))"

definition filled_bars ::
  "('f, 'c) pandas \<Rightarrow> bool \<Rightarrow> (('s, 'f) adapter \<Rightarrow> ('e, 'f list) step) \<Rightarrow> (string \<times> ('s, 'f) adapter) list \<Rightarrow> 'f
    \<Rightarrow> ('e, 'f \<times> (string, string) dict) step" where
  "filled_bars P field_fill fetch fallbacks bars =
     (if field_fill \<and> fallbacks \<noteq> [] \<and> missing_columns P bars BARS_COLUMNS \<noteq> []
      then and_then (fill_frames P fetch fallbacks) (\<lambda>fs. give (fill_missing_fields P bars fs BARS_COLUMNS))
      else give (bars, []))"

definition adjusted_bars ::
  "('f, 'c) pandas \<Rightarrow> (source \<times> ('s, 'f) adapter) option \<Rightarrow> string option \<Rightarrow> sec_code list \<Rightarrow> string \<Rightarrow> string \<Rightarrow> 'f
    \<Rightarrow> ('s hub_env, 'f) step" where
  "adjusted_bars P factor adjust codes start end bars =
     (case (factor, adjust) of
        (Some (s, a), Some adj) \<Rightarrow>
          and_then (each (\<lambda>chunk. fetch_adjust_factors a chunk start end) (split_codes s ADJUST_FACTORS codes)) (\<lambda>frames.
            of_result (apply_adjustment P bars (merge_frames P frames bars_keys bars_keys) adj))
      | _ \<Rightarrow> give bars)"

definition bars_attrs :: "source \<Rightarrow> source option \<Rightarrow> (string, string) dict \<Rightarrow> 'f framed \<Rightarrow> 'f framed" where
  "bars_attrs resolved factor filled out =
     (let out1 = set_attr ''requested_source'' (AText (source_value resolved)) out;
          out2 = (case factor of Some f \<Rightarrow> set_attr ''factor_source'' (AText (source_value f)) out1 | None \<Rightarrow> out1)
      in if filled \<noteq> [] then set_attr ''filled_from'' (ADict filled) out2 else out2)"

definition load_bars ::
  "('f, 'c) pandas \<Rightarrow> bool \<Rightarrow> (source \<times> ('s, 'f) adapter) option \<Rightarrow> (('s, 'f) adapter \<Rightarrow> ('s hub_env, 'f list) step)
    \<Rightarrow> ('s, 'f) adapter \<Rightarrow> (string \<times> ('s, 'f) adapter) list \<Rightarrow> bars_plan \<Rightarrow> source \<Rightarrow> string option \<Rightarrow> sec_code list
    \<Rightarrow> string \<Rightarrow> string \<Rightarrow> string \<Rightarrow> bool \<Rightarrow> ('s hub_env, 'f framed) step" where
  "load_bars P field_fill factor fetch primary fallbacks plan resolved adjust codes start end stamp was_cached =
     and_then (try_sources fetch ((source_value (bp_primary plan), primary) # fallbacks) (source_value (bp_primary plan))) (\<lambda>(used, frames).
     if frames = [] then throw SourceError
     else and_then (filled_bars P field_fill fetch fallbacks (merge_frames P frames bars_keys bars_keys)) (\<lambda>(merged, filled).
          and_then (adjusted_bars P factor adjust codes start end merged) (\<lambda>merged.
          and_then (of_result (finalize_frame P (Some merged) BARS_COLUMNS used was_cached stamp)) (\<lambda>out.
            give (bars_attrs resolved (bp_factor_source plan) filled out)))))"

definition bars_key :: "source \<Rightarrow> sec_code list \<Rightarrow> string \<Rightarrow> string \<Rightarrow> string \<Rightarrow> string option \<Rightarrow> string list option \<Rightarrow> key_part list" where
  "bars_key resolved codes start end freq adjust wanted =
     [KText ''bars'', KText (source_value resolved), code_part codes, KText start, KText end, KText freq, opt_part adjust,
      fields_part wanted]"

definition factor_adapter :: "bars_plan \<Rightarrow> rat \<Rightarrow> (('s, 'f) hub, (source \<times> ('s, 'f) adapter) option) step" where
  "factor_adapter plan now =
     (case bp_factor_source plan of
        None \<Rightarrow> give None
      | Some f \<Rightarrow> and_then (adapter_of f ADJUST_FACTORS now) (\<lambda>a. give (Some (f, a))))"

definition fallback_adapters :: "bars_plan \<Rightarrow> rat \<Rightarrow> (('s, 'f) hub, (string \<times> ('s, 'f) adapter) list) step" where
  "fallback_adapters plan now =
     each (\<lambda>s. and_then (adapter_of s BARS now) (\<lambda>a. give (source_value s, a)))
       (filter (\<lambda>s. s \<noteq> bp_primary plan) (bp_fallbacks plan))"

definition get_bars ::
  "('f, 'c) pandas \<Rightarrow> code_input list \<Rightarrow> string \<Rightarrow> string \<Rightarrow> string \<Rightarrow> string option \<Rightarrow> string option \<Rightarrow> string list option
    \<Rightarrow> bool \<Rightarrow> int option \<Rightarrow> readings \<Rightarrow> (('s, 'f) hub, 'f framed) step" where
  "get_bars P codes start end freq adjust source wanted force ttl rd =
     and_then (resolve_source source) (\<lambda>resolved.
     and_then (of_result (request_codes codes)) (\<lambda>scodes.
     and_then (asks (\<lambda>h. build_bars_plan resolved adjust (hb_routing (hf_config h)))) (\<lambda>plan.
     and_then (adapter_of (bp_primary plan) BARS (rd_mono rd)) (\<lambda>primary.
     and_then (factor_adapter plan (rd_mono rd)) (\<lambda>factor.
     and_then (fallback_adapters plan (rd_mono rd)) (\<lambda>fallbacks.
     and_then (asks (\<lambda>h. Inr (rt_field_fill (hb_routing (hf_config h))))) (\<lambda>field_fill.
       cached_request (bars_key resolved scodes start end freq adjust wanted) force ttl rd
         (load_bars P field_fill factor
            (fetch_frames scodes start end freq (bp_adapter_adjust plan) (given_fields wanted))
            primary fallbacks plan resolved adjust scodes start end (rd_stamp rd)))))))))"

subsection \<open>The other endpoints\<close>

definition get_snapshot ::
  "('f, 'c) pandas \<Rightarrow> code_input list \<Rightarrow> string list option \<Rightarrow> string option \<Rightarrow> bool \<Rightarrow> int option \<Rightarrow> readings
    \<Rightarrow> (('s, 'f) hub, 'f framed) step" where
  "get_snapshot P codes wanted source =
     request_by_codes P (resolve_source source) SNAPSHOT codes
       (\<lambda>s cs. [KText ''snapshot'', KText s, cs, fields_part wanted])
       (\<lambda>a chunk. fetch_snapshot a chunk (given_fields wanted)) [''code''] [''code''] SNAPSHOT_COLUMNS"

definition get_fund_nav ::
  "('f, 'c) pandas \<Rightarrow> code_input list \<Rightarrow> string option \<Rightarrow> string option \<Rightarrow> string option \<Rightarrow> bool \<Rightarrow> int option \<Rightarrow> readings
    \<Rightarrow> (('s, 'f) hub, 'f framed) step" where
  "get_fund_nav P codes start end source =
     request_by_codes P (resolve_source source) FUND_NAV codes
       (\<lambda>s cs. [KText ''fund_nav'', KText s, cs, opt_part start, opt_part end])
       (\<lambda>a chunk. fetch_fund_nav a chunk start end) [''code'', ''date''] [''code'', ''date''] NAV_COLUMNS"

definition get_security_info ::
  "('f, 'c) pandas \<Rightarrow> code_input list \<Rightarrow> string option \<Rightarrow> bool \<Rightarrow> int option \<Rightarrow> readings \<Rightarrow> (('s, 'f) hub, 'f framed) step" where
  "get_security_info P codes source =
     request_by_codes P (resolve_source source) SECURITY_INFO codes
       (\<lambda>s cs. [KText ''security_info'', KText s, cs]) fetch_security_info [''code''] [''code''] SECURITY_INFO_COLUMNS"

definition get_index_weights ::
  "('f, 'c) pandas \<Rightarrow> code_input list \<Rightarrow> string \<Rightarrow> string \<Rightarrow> string option \<Rightarrow> bool \<Rightarrow> int option \<Rightarrow> readings
    \<Rightarrow> (('s, 'f) hub, 'f framed) step" where
  "get_index_weights P codes start end source =
     request_by_codes P (resolve_source source) INDEX_WEIGHTS codes
       (\<lambda>s cs. [KText ''index_weights'', KText s, cs, KText start, KText end])
       (\<lambda>a chunk. fetch_index_weights a chunk start end)
       [''code'', ''date'', ''con_code''] [''code'', ''date'', ''con_code''] INDEX_WEIGHT_COLUMNS"

definition get_financials ::
  "('f, 'c) pandas \<Rightarrow> code_input list \<Rightarrow> string \<Rightarrow> string \<Rightarrow> string \<Rightarrow> string option \<Rightarrow> bool \<Rightarrow> int option \<Rightarrow> readings
    \<Rightarrow> (('s, 'f) hub, 'f framed) step" where
  "get_financials P codes kind start end source force ttl rd =
     and_then (of_result (financial_columns kind)) (\<lambda>columns.
       request_by_codes P (resolve_source source) FINANCIALS codes
         (\<lambda>s cs. [KText ''financials'', KText s, KText kind, cs, KText start, KText end])
         (\<lambda>a chunk. fetch_financials a chunk kind start end)
         [''code'', ''ann_date'', ''end_date'', ''report_type''] [''code'', ''ann_date'', ''end_date''] columns force ttl rd)"

text \<open>The source of factors: the one given, or that of the routing configuration.\<close>

definition resolve_factor_source :: "string option \<Rightarrow> (('s, 'f) hub, source) step" where
  "resolve_factor_source source =
     asks (\<lambda>h. case source of
        Some t \<Rightarrow> Source t
      | None \<Rightarrow> (case rt_factor_source (hb_routing (hf_config h)) of Some s \<Rightarrow> Inr s | None \<Rightarrow> Inl UnsupportedCapability))"

definition get_adjust_factors ::
  "('f, 'c) pandas \<Rightarrow> code_input list \<Rightarrow> string \<Rightarrow> string \<Rightarrow> string option \<Rightarrow> bool \<Rightarrow> int option \<Rightarrow> readings
    \<Rightarrow> (('s, 'f) hub, 'f framed) step" where
  "get_adjust_factors P codes start end source =
     request_by_codes P (resolve_factor_source source) ADJUST_FACTORS codes
       (\<lambda>s cs. [KText ''adjust_factors'', KText s, cs, KText start, KText end])
       (\<lambda>a chunk. fetch_adjust_factors a chunk start end) [''code'', ''date''] [''code'', ''date''] ADJUST_FACTOR_COLUMNS"

definition get_adjustment_events ::
  "('f, 'c) pandas \<Rightarrow> code_input list \<Rightarrow> string option \<Rightarrow> string option \<Rightarrow> string option \<Rightarrow> bool \<Rightarrow> int option \<Rightarrow> readings
    \<Rightarrow> (('s, 'f) hub, 'f framed) step" where
  "get_adjustment_events P codes start end source =
     request_by_codes P (resolve_source source) ADJUSTMENT_EVENTS codes
       (\<lambda>s cs. [KText ''adjustment_events'', KText s, cs, opt_part start, opt_part end])
       (\<lambda>a chunk. fetch_adjustment_events a chunk start end) [''code'', ''ex_date''] [''code'', ''ex_date'']
       ADJUSTMENT_EVENT_COLUMNS"

definition get_reference ::
  "('f, 'c) pandas \<Rightarrow> string \<Rightarrow> string option \<Rightarrow> bool \<Rightarrow> int option \<Rightarrow> readings \<Rightarrow> (('s, 'f) hub, 'f framed) step" where
  "get_reference P kind source force ttl rd =
     and_then (of_result (reference_columns kind)) (\<lambda>columns.
     and_then (resolve_source source) (\<lambda>resolved.
     and_then (adapter_of resolved REFERENCE (rd_mono rd)) (\<lambda>a.
       cached_request [KText ''reference'', KText (source_value resolved), KText kind] force ttl rd
         (load_single P (fetch_reference a kind) columns resolved (rd_stamp rd)))))"

definition get_trade_calendar ::
  "('f, 'c) pandas \<Rightarrow> string \<Rightarrow> string \<Rightarrow> string option \<Rightarrow> bool \<Rightarrow> int option \<Rightarrow> readings \<Rightarrow> (('s, 'f) hub, 'f framed) step" where
  "get_trade_calendar P start end source force ttl rd =
     and_then (resolve_source source) (\<lambda>resolved.
     and_then (adapter_of resolved TRADE_CALENDAR (rd_mono rd)) (\<lambda>a.
       cached_request [KText ''trade_calendar'', KText (source_value resolved), KText start, KText end] force ttl rd
         (load_single P (fetch_trade_calendar a start end) CALENDAR_COLUMNS resolved (rd_stamp rd))))"

definition EVENT_KEYS :: "(string, string list) dict" where
  "EVENT_KEYS = [(''ipo'', [''code'', ''ipo_date'']), (''suspension'', [''code'', ''date'']), (''st'', [''code'', ''date'']),
     (''namechange'', [''code'', ''start_date''])]"

definition event_codes :: "code_input list option \<Rightarrow> sec_code list result" where
  "event_codes codes = (case codes of None \<Rightarrow> Inr [] | Some cs \<Rightarrow> parse_codes cs)"

definition get_market_events ::
  "('f, 'c) pandas \<Rightarrow> string \<Rightarrow> string \<Rightarrow> string \<Rightarrow> code_input list option \<Rightarrow> string option \<Rightarrow> bool \<Rightarrow> int option \<Rightarrow> readings
    \<Rightarrow> (('s, 'f) hub, 'f framed) step" where
  "get_market_events P kind start end codes source force ttl rd =
     and_then (of_result (market_event_columns kind)) (\<lambda>columns.
     and_then (resolve_source source) (\<lambda>resolved.
     and_then (of_result (event_codes codes)) (\<lambda>scodes.
     and_then (adapter_of resolved MARKET_EVENTS (rd_mono rd)) (\<lambda>a.
       let keys = dict_get EVENT_KEYS kind [''code'', ''date'']
       in cached_request [KText ''market_events'', KText (source_value resolved), KText kind, code_part scodes, KText start, KText end]
            force ttl rd
            (load_chunks P (\<lambda>chunk. fetch_market_events a kind start end (if chunk = [] then None else Some chunk))
               (if scodes = [] then [[]] else split_codes resolved MARKET_EVENTS scodes)
               keys keys columns resolved (rd_stamp rd))))))"

text \<open>The reserved endpoints.\<close>

definition get_intraday_bars :: "(('s, 'f) hub, 'f framed) step" where
  "get_intraday_bars = throw UnsupportedCapability"

definition get_edb_series :: "(('s, 'f) hub, 'f framed) step" where
  "get_edb_series = throw UnsupportedCapability"

definition hub_summary :: "time \<Rightarrow> ('s, 'f) hub \<Rightarrow> (int \<times> int \<times> int \<times> int \<times> int) \<times> usage_summary" where
  "hub_summary now h = (hub_stats (hf_cache h), ledger_summary now (he_usage (hf_env h)))"

end
