(* ===== verification/Facade_Demo.thy ===== *)
theory Facade_Demo
  imports Hub_Facade
begin

text \<open>
  A small hub for the concrete runs of the facade's theorems: data frames of which only the columns are
  kept, two sources with given answers, and a world that logs which source was asked.
\<close>

definition demo_pandas :: "(string list, unit) pandas" where
  "demo_pandas =
     \<lparr>pd_empty = [], pd_is_empty = (\<lambda>df. df = []), pd_columns = (\<lambda>df. df), pd_concat = (\<lambda>dfs. remdups (concat dfs)),
      pd_drop_duplicates = (\<lambda>cs df. df), pd_sort_values = (\<lambda>cs df. df), pd_select = (\<lambda>cs df. cs), pd_reindex_columns = (\<lambda>cs df. cs),
      pd_rename = (\<lambda>a b df. map (\<lambda>c. if c = a then b else c) df), pd_drop_column = (\<lambda>c df. filter (\<lambda>x. x \<noteq> c) df),
      pd_dropna = (\<lambda>cs df. df), pd_merge_left = (\<lambda>cs a b. remdups (a @ b)), pd_merge_asof = (\<lambda>on key a b. remdups (a @ b)),
      pd_column = (\<lambda>df c. ()), pd_set_column = (\<lambda>c x df. if c \<in> set df then df else df @ [c]), pd_na = (\<lambda>df. ()),
      pd_to_datetime = Inr, pd_isna_all = (\<lambda>x. False), pd_isna_any = (\<lambda>x. False), pd_where_notna = (\<lambda>x y. x),
      pd_map_currency = (\<lambda>f x. x), pd_mul = (\<lambda>x y. x), pd_div = (\<lambda>x y. x), pd_group_last = (\<lambda>df a b. ()), pd_reindex_like = (\<lambda>x df. x)\<rparr>"

definition demo_adapter :: "source \<Rightarrow> string list result \<Rightarrow> (string list, string list) adapter" where
  "demo_adapter source answer =
     (base_adapter source [BARS, TRADE_CALENDAR])
       \<lparr>fetch_bars := \<lambda>codes start end freq adjust wanted e. (e\<lparr>he_world := he_world e @ [source_value source]\<rparr>, answer),
        fetch_trade_calendar := \<lambda>start end e. (e\<lparr>he_world := he_world e @ [source_value source]\<rparr>, Inr [''date'', ''is_open''])\<rparr>"

definition demo_budget :: budget_config where
  "demo_budget = \<lparr>bc_calls_per_day = [], bc_cost_per_day = [], bc_cost_table = [], bc_warn_ratio = 1, bc_on_alert = None\<rparr>"

definition demo_config :: "source list \<Rightarrow> hub_config" where
  "demo_config fallbacks =
     \<lparr>hb_tushare = None, hb_wind = None, hb_ifind = None, hb_fuyao = None, hb_baostock_attempts = 2, hb_cache = default_cache_settings,
      hb_budget = demo_budget, hb_rate_limits = [], hb_routing = default_routing\<lparr>rt_fallbacks := fallbacks\<rparr>,
      hb_default_source = Some FUYAO\<rparr>"

definition demo_limits :: limiter_set where
  "demo_limits = \<lparr>ls_default = \<lparr>lm_rate = 1, lm_capacity = 1, lm_tokens = 1, lm_updated = 0\<rparr>, ls_endpoints = [], ls_timeout = None\<rparr>"

definition demo_cache :: "(key_part list, string list framed) hub_cache" where
  "demo_cache =
     \<lparr>hc_config = \<lparr>hx_max_bytes = 100, hx_max_entries = 10, hx_max_entry_bytes = 50, hx_ttl = Some 60, hx_safety = 1,
                   hx_size_fn = \<lambda>v. Inr 10\<rparr>,
      hc_entries = [], hc_sizes = [], hc_bytes = 0, hc_hits = 0, hc_misses = 0, hc_evictions = 0, hc_stores = 0\<rparr>"

definition demo_hub :: "source list \<Rightarrow> string list result \<Rightarrow> string list result \<Rightarrow> (string list, string list) hub" where
  "demo_hub fallbacks primary fallback =
     \<lparr>hf_config = demo_config fallbacks,
      hf_registry = new_registry [demo_adapter FUYAO primary, demo_adapter AKSHARE fallback],
      hf_cache = demo_cache,
      hf_env = \<lparr>he_usage = new_ledger demo_budget 1000, he_limiters = [(FUYAO, demo_limits), (AKSHARE, demo_limits)], he_world = []\<rparr>\<rparr>"

definition demo_bars :: "string list" where
  "demo_bars = [''code'', ''date'', ''open'', ''high'', ''low'', ''close'', ''volume'', ''amount'']"

definition demo_readings :: "int \<Rightarrow> readings" where
  "demo_readings t = \<lparr>rd_contains = t, rd_get = t, rd_put = t, rd_mono = 0, rd_stamp = ''2024-01-02T00:00:00+00:00''\<rparr>"

definition demo_get :: "string list \<Rightarrow> int \<Rightarrow> (string list, string list) hub \<Rightarrow> (string list, string list) hub \<times> string list framed result" where
  "demo_get codes t h =
     get_bars demo_pandas (map CodeText codes) ''20240101'' ''20240131'' ''1d'' None (Some ''fuyao'') None False None (demo_readings t) h"

definition demo_failing :: "(string list, string list) hub" where
  "demo_failing = demo_hub [AKSHARE] (Inl NetworkError) (Inr demo_bars)"

definition demo_fine :: "(string list, string list) hub" where
  "demo_fine = demo_hub [] (Inr demo_bars) (Inr demo_bars)"

definition demo_full :: "(string list, string list) hub" where
  "demo_full = demo_hub [AKSHARE] (Inr demo_bars) (Inr demo_bars)"

lemma demo_failing_run:
  "(case demo_get [''600519.SH''] 0 demo_failing of
      (h, Inr out) \<Rightarrow> map_of (fr_attrs out) ''cached'' = Some (ABool False) \<and> map_of (fr_attrs out) ''source'' = Some (AText ''akshare'')
        \<and> he_world (hf_env h) = [''fuyao'', ''akshare'', ''akshare'']
    | (h, Inl err) \<Rightarrow> False)"
  by code_simp

lemma demo_fine_run:
  "(case demo_get [''600519.SH'', ''000001.SZ''] 0 demo_fine of
      (h, Inr out) \<Rightarrow> map_of (fr_attrs out) ''cached'' = Some (ABool False)
    | (h, Inl err) \<Rightarrow> False)"
  by code_simp

text \<open>
  Every column of the schema but \<open>currency\<close> is there, and the primary source answered: the fallback is asked
  all the same, since \<open>currency\<close>, which only \<open>finalize_frame\<close> adds, counts as missing.  After a fallback it is
  asked a second time (\<open>demo_failing_run\<close>).
\<close>

lemma fill_asks_without_need:
  "(case demo_get [''600519.SH''] 0 demo_full of
      (h, Inr out) \<Rightarrow> map_of (fr_attrs out) ''source'' = Some (AText ''fuyao'') \<and> map_of (fr_attrs out) ''filled_from'' = None
        \<and> he_world (hf_env h) = [''fuyao'', ''akshare'']
    | (h, Inl err) \<Rightarrow> False)"
  by code_simp

text \<open>A fallback that is not registered fails every request, although the primary source answers.\<close>

lemma unregistered_fallback_blocks: "snd (demo_get [''600519.SH''] 0 (demo_hub [WIND] (Inr demo_bars) (Inr demo_bars))) = Inl UnsupportedCapability"
  by code_simp

text \<open>A quota error of the primary source does not move on to the fallback.\<close>

lemma quota_error_ends_chain: "snd (demo_get [''600519.SH''] 0 (demo_hub [AKSHARE] (Inl RateLimitError) (Inr demo_bars))) = Inl RateLimitError"
  by code_simp


text \<open>
  The plan is made for the primary source alone: a fallback that is not trusted with adjusted prices is asked
  for them all the same.
\<close>

lemma untrusted_fallback_adjusts_natively:
  "FUYAO \<notin> rt_trusted_native_adjust default_routing
    \<and> build_bars_plan TUSHARE (Some ''qfq'') (default_routing\<lparr>rt_fallbacks := [FUYAO]\<rparr>)
      = Inr \<lparr>bp_primary = TUSHARE, bp_adapter_adjust = Some ''qfq'', bp_factor_source = None, bp_fallbacks = [FUYAO]\<rparr>"
  by (simp add: default_routing_def build_bars_plan_def)

text \<open>The cache key of a request does not see the security type that the sources are asked with.\<close>

lemma key_ignores_type: "code_part (map (\<lambda>c. c\<lparr>sc_type := f c\<rparr>) codes) = code_part codes"
proof -
  have "map canonical (map (\<lambda>c. c\<lparr>sc_type := f c\<rparr>) codes) = map canonical codes" by (simp add: canonical_def)
  then show ?thesis unfolding code_part_def by (rule arg_cong)
qed

end
