(* ===== verification/Facade_Properties.thy ===== *)
theory Facade_Properties
  imports Facade_Demo "HOL-Library.Multiset"
begin

text \<open>
  What the facade promises: where an answer comes from, what a failing source leaves behind, what the cache
  answers, and the columns of every answer.
\<close>

subsection \<open>The cache keeps what a load stores\<close>

lemma hub_evict_from_last:
  "hub_evict_from me mb (d @ [(k, e)]) sizes bytes n = (d', sizes', bytes', n') \<Longrightarrow> distinct (dict_keys (d @ [(k, e)])) \<Longrightarrow>
    distinct (dict_keys sizes) \<Longrightarrow> set (dict_keys sizes) = set (dict_keys (d @ [(k, e)])) \<Longrightarrow> bytes = size_sum sizes \<Longrightarrow>
    dict_get sizes k 0 \<le> mb \<Longrightarrow> 1 \<le> me \<Longrightarrow> map_of d' k = Some e"
proof (induction d arbitrary: sizes bytes n)
  case Nil
  have "size_sum (AList.delete k sizes) = 0"
  proof -
    have "set (dict_keys (AList.delete k sizes)) = {}" using Nil.prems(4) by (simp add: delete_keys)
    then show ?thesis by (simp add: size_sum_def)
  qed
  with Nil.prems(3,5) have "bytes = dict_get sizes k 0" by (simp add: size_sum_delete)
  with Nil.prems show ?case by auto
next
  case (Cons p d)
  obtain k0 e0 where p: "p = (k0, e0)" by (cases p)
  have ne: "k0 \<noteq> k" using Cons.prems(2) p by auto
  show ?case
  proof (cases "mb < bytes \<or> me < int (length ((p # d) @ [(k, e)]))")
    case False
    with Cons.prems(1) p have "d' = (p # d) @ [(k, e)]" by simp
    moreover have "k \<notin> set (dict_keys (p # d))" using Cons.prems(2) by auto
    ultimately show ?thesis by (simp add: map_of_eq_None_iff [symmetric] map_add_def split: option.split)
  next
    case True
    let ?s = "AList.delete k0 sizes"
    have e: "hub_evict_from me mb (d @ [(k, e)]) ?s (bytes - dict_get sizes k0 0) (n + 1) = (d', sizes', bytes', n')"
      using Cons.prems(1) True p by simp
    have k: "k0 \<notin> set (dict_keys (d @ [(k, e)]))" using Cons.prems(2) p by simp
    have "distinct (dict_keys ?s)" using Cons.prems(3) by (rule distinct_delete)
    moreover have "set (dict_keys ?s) = set (dict_keys (d @ [(k, e)]))" using Cons.prems(4) p k unfolding keys_delete by auto
    moreover have "bytes - dict_get sizes k0 0 = size_sum ?s" using Cons.prems(3,5) by (simp add: size_sum_delete)
    moreover have "dict_get ?s k 0 \<le> mb" using Cons.prems(6) ne by (simp add: dict_get_def)
    moreover have "distinct (dict_keys (d @ [(k, e)]))" using Cons.prems(2) p by simp
    ultimately show ?thesis using Cons.IH [OF e] Cons.prems(7) by blast
  qed
qed

lemma hub_sweep_keeps:
  fixes c :: "('k, 'v) hub_cache"
  assumes "map_of (hc_entries c) k = Some (v, e)" and "\<not> expired e now" and "distinct (dict_keys (hc_entries c))"
  shows "map_of (hc_entries (hub_sweep now c)) k = Some (v, e)"
proof -
  let ?ks = "map fst (filter (\<lambda>(key, v, e). expired e now) (hc_entries c))"
  have "k \<notin> set ?ks"
  proof
    assume "k \<in> set ?ks"
    then obtain v' e' where "(k, v', e') \<in> set (hc_entries c)" "expired e' now" by auto
    with assms show False by auto
  qed
  moreover have "k \<notin> set ks \<Longrightarrow> map_of (hc_entries c') k = Some (v, e) \<Longrightarrow>
      map_of (hc_entries (foldl (\<lambda>c key. hub_remove key c) c' ks)) k = Some (v, e)" for ks and c' :: "('k, 'v) hub_cache"
    by (induction ks arbitrary: c') (simp_all add: hub_remove_entries AList.delete_conv')
  ultimately show ?thesis using assms(1) by (simp add: hub_sweep_def)
qed

lemma hub_put_keeps:
  assumes "hub_inv c m" and "entry_size (hc_config c) v = Inr n" and "n \<le> hx_max_entry_bytes (hc_config c)"
    and "n \<le> hx_max_bytes (hc_config c)" and "0 < hx_max_entries (hc_config c)" and "0 < hx_max_bytes (hc_config c)"
    and "e = map_option (\<lambda>t. now + t) (case ttl of None \<Rightarrow> hx_ttl (hc_config c) | Some t \<Rightarrow> Some t)"
    and "\<not> expired e now" and "0 \<le> n"
  shows "map_of (hc_entries (fst (hub_put key v ttl now c))) key = Some (v, e)"
proof -
  let ?c1 = "hub_remove key c"
  let ?c2 = "?c1\<lparr>hc_entries := put_last key (v, e) (hc_entries ?c1), hc_sizes := AList.update key n (hc_sizes ?c1), hc_bytes := hc_bytes ?c1 + n\<rparr>"
  have 1: "hub_inv ?c1 (m(key := None))" using hub_remove_inv(1) [OF assms(1)] .
  have k: "key \<notin> set (dict_keys (hc_entries ?c1))" by (simp add: hub_remove_entries delete_keys del: set_map)
  have "key \<notin> set (dict_keys (hc_sizes ?c1))" using 1 k by (simp add: hub_inv_def)
  then have u: "AList.update key n (hc_sizes ?c1) = hc_sizes ?c1 @ [(key, n)]" by (rule update_new)
  have pl: "put_last key (v, e) (hc_entries ?c1) = hc_entries ?c1 @ [(key, v, e)]" using k by (simp add: put_last_def delete_id)
  have inv2: "hub_inv ?c2 (map_of (hc_entries ?c1 @ [(key, v, e)]))"
    using 1 k assms(9) unfolding pl hub_inv_def u by auto
  obtain d s b x where ev: "hub_evict_from (hx_max_entries (hc_config c)) (hx_max_bytes (hc_config c)) (hc_entries ?c1 @ [(key, v, e)])
      (hc_sizes ?c1 @ [(key, n)]) (hc_bytes ?c1 + n) (hc_evictions ?c1) = (d, s, b, x)" by (metis prod.exhaust)
  have "map_of d key = Some (v, e)"
  proof (rule hub_evict_from_last [OF ev])
    show "distinct (dict_keys (hc_entries ?c1 @ [(key, v, e)]))" "distinct (dict_keys (hc_sizes ?c1 @ [(key, n)]))"
      "set (dict_keys (hc_sizes ?c1 @ [(key, n)])) = set (dict_keys (hc_entries ?c1 @ [(key, v, e)]))"
      "hc_bytes ?c1 + n = size_sum (hc_sizes ?c1 @ [(key, n)])"
      using inv2 unfolding hub_inv_def pl u by simp_all
    have "map_of (hc_sizes ?c1 @ [(key, n)]) key = Some n"
      using \<open>key \<notin> set (dict_keys (hc_sizes ?c1))\<close> by (simp add: map_of_eq_None_iff [symmetric] map_add_def)
    then show "dict_get (hc_sizes ?c1 @ [(key, n)]) key 0 \<le> hx_max_bytes (hc_config c)" using assms(4) by (simp add: dict_get_def)
    show "1 \<le> hx_max_entries (hc_config c)" using assms(5) by simp
  qed
  then have m: "map_of (hc_entries (hub_evict ?c2)) key = Some (v, e)" by (simp add: hub_evict_def pl u ev)
  let ?c4 = "(hub_evict ?c2)\<lparr>hc_stores := hc_stores (hub_evict ?c2) + 1\<rparr>"
  have "distinct (dict_keys (hc_entries ?c4))"
    using hub_evict_inv(1) [OF inv2] assms(5,6) by (simp add: hub_inv_def)
  with m hub_sweep_keeps [of ?c4 key v e now] assms(8)
  have "map_of (hc_entries (if hc_stores ?c4 mod SWEEP_EVERY = 0 then hub_sweep now ?c4 else ?c4)) key = Some (v, e)" by simp
  moreover have "fst (hub_put key v ttl now c) = (if hc_stores ?c4 mod SWEEP_EVERY = 0 then hub_sweep now ?c4 else ?c4)"
    using assms(2,3) by (simp add: hub_put_def Let_def assms(7))
  ultimately show ?thesis by simp
qed


subsection \<open>Preparing a request\<close>

text \<open>
  Resolving the source, the codes and the adapters touches nothing of the hub but the limiters it creates,
  and succeeds again wherever it succeeded, whatever happened to the environment and the cache since.
\<close>

definition same_hub :: "('s, 'f) hub \<Rightarrow> ('s, 'f) hub \<Rightarrow> bool" where
  "same_hub h h1 \<longleftrightarrow> hf_config h1 = hf_config h \<and> hf_registry h1 = hf_registry h \<and> hf_cache h1 = hf_cache h
     \<and> he_usage (hf_env h1) = he_usage (hf_env h) \<and> he_world (hf_env h1) = he_world (hf_env h)
     \<and> (\<forall>s. map_of (he_limiters (hf_env h)) s \<noteq> None \<longrightarrow> map_of (he_limiters (hf_env h1)) s = map_of (he_limiters (hf_env h)) s)"

definition limits_ok :: "hub_config \<Rightarrow> bool" where
  "limits_ok cfg \<longleftrightarrow> (\<forall>(s, limit) \<in> set (hb_rate_limits cfg). 0 < rl_rate limit \<and> (case rl_burst limit of None \<Rightarrow> True | Some b \<Rightarrow> 0 < b))"

definition prep :: "(('s, 'f) hub, 'a) step \<Rightarrow> (('s, 'f) hub, 'a) step \<Rightarrow> bool" where
  "prep m m' \<longleftrightarrow> (\<forall>h h1 r. m h = (h1, r) \<longrightarrow> same_hub h h1)
     \<and> (\<forall>h h1 x h2. limits_ok (hf_config h) \<longrightarrow> m h = (h1, Inr x) \<longrightarrow> hf_config h2 = hf_config h \<longrightarrow> hf_registry h2 = hf_registry h
          \<longrightarrow> (\<exists>h3. m' h2 = (h3, Inr x) \<and> same_hub h2 h3))"

lemma same_hub_refl [simp]: "same_hub h h"
  by (simp add: same_hub_def)

lemma same_hub_trans: "same_hub h h1 \<Longrightarrow> same_hub h1 h2 \<Longrightarrow> same_hub h h2"
  by (simp add: same_hub_def)

lemma prep_same: "prep m m' \<Longrightarrow> m h = (h1, r) \<Longrightarrow> same_hub h h1"
  by (simp add: prep_def)

lemma prep_again:
  "prep m m' \<Longrightarrow> limits_ok (hf_config h) \<Longrightarrow> m h = (h1, Inr x) \<Longrightarrow> hf_config h2 = hf_config h \<Longrightarrow> hf_registry h2 = hf_registry h \<Longrightarrow>
    \<exists>h3. m' h2 = (h3, Inr x) \<and> same_hub h2 h3"
  unfolding prep_def by blast

lemma prep_give [simp]: "prep (give x) (give x)"
  and prep_throw [simp]: "prep (throw err) (throw err)"
  and prep_of_result [simp]: "prep (of_result r) (of_result r)"
  by (simp_all add: prep_def)

lemma prep_asks:
  fixes f :: "('s, 'f) hub \<Rightarrow> 'a result"
  assumes "\<And>h h2 :: ('s, 'f) hub. hf_config h2 = hf_config h \<Longrightarrow> hf_registry h2 = hf_registry h \<Longrightarrow> f h2 = f h"
  shows "prep (asks f) (asks f)"
  unfolding prep_def
proof (intro conjI allI impI)
  fix h h1 h2 :: "('s, 'f) hub" and x
  assume "asks f h = (h1, Inr x)" and "hf_config h2 = hf_config h" and "hf_registry h2 = hf_registry h"
  then show "\<exists>h3. asks f h2 = (h3, Inr x) \<and> same_hub h2 h3" using assms [of h2 h] by auto
qed simp

lemma prep_and_then:
  fixes m m' :: "(('s, 'f) hub, 'a) step"
  assumes "prep m m'" and "\<And>x. prep (f x) (f' x)"
  shows "prep (and_then m f) (and_then m' f')"
  unfolding prep_def
proof (intro conjI allI impI)
  fix h h1 :: "('s, 'f) hub" and r
  assume r: "and_then m f h = (h1, r)"
  obtain h0 r0 where m: "m h = (h0, r0)" by (cases "m h")
  have 0: "same_hub h h0" using prep_same [OF assms(1) m] .
  show "same_hub h h1"
  proof (cases r0)
    case (Inl err)
    with r m 0 show ?thesis by (auto simp: and_then_def)
  next
    case (Inr x)
    with r m have "f x h0 = (h1, r)" by (simp add: and_then_def)
    from same_hub_trans [OF 0 prep_same [OF assms(2) this]] show ?thesis .
  qed
next
  fix h h1 h2 :: "('s, 'f) hub" and y
  assume l: "limits_ok (hf_config h)" and r: "and_then m f h = (h1, Inr y)" and c: "hf_config h2 = hf_config h" "hf_registry h2 = hf_registry h"
  from r obtain h0 x where m: "m h = (h0, Inr x)" and f: "f x h0 = (h1, Inr y)" by (auto simp: and_then_Inr)
  obtain h3 where 3: "m' h2 = (h3, Inr x)" and s3: "same_hub h2 h3" using prep_again [OF assms(1) l m c] by blast
  have s: "same_hub h h0" using prep_same [OF assms(1) m] .
  have "limits_ok (hf_config h0)" "hf_config h3 = hf_config h0" "hf_registry h3 = hf_registry h0" using s s3 l c by (simp_all add: same_hub_def)
  from prep_again [OF assms(2) this(1) f this(2,3)] obtain h4 where "f' x h3 = (h4, Inr y)" "same_hub h3 h4" by blast
  with 3 same_hub_trans [OF s3] show "\<exists>h3. and_then m' f' h2 = (h3, Inr y) \<and> same_hub h2 h3" by (auto simp: and_then_Inr)
qed

lemma prep_each: "(\<And>x. prep (f x) (f' x)) \<Longrightarrow> prep (each f xs) (each f' xs)"
  by (induction xs) (auto intro!: prep_and_then)

lemma limiter_created: "0 < rate \<Longrightarrow> (case burst of None \<Rightarrow> True | Some b \<Rightarrow> 0 < b) \<Longrightarrow> \<exists>l. new_limiter rate burst now = Inr l"
  by (auto simp: new_limiter_def Let_def split: option.splits)

lemma default_limiter_ok: "\<exists>s. default_rate_limiter_set (source_value source) now = Inr s"
  unfolding default_rate_limiter_set_def Source_value sum.case
  by (cases source) (simp_all add: new_limiter_def Let_def)

lemma limiter_for_same: "limiter_for source now h = (h1, r) \<Longrightarrow> same_hub h h1"
  by (auto simp: limiter_for_def same_hub_def bind_rate_limits_def split: option.splits sum.splits)

lemma limiter_for_ok:
  assumes "limits_ok (hf_config h)"
  shows "\<exists>h1 s. limiter_for source now h = (h1, Inr s)"
proof (cases "map_of (hb_rate_limits (hf_config h)) (source_value source)")
  case None
  with default_limiter_ok [of source now] show ?thesis by (auto simp: limiter_for_def split: option.splits)
next
  case (Some limit)
  from map_of_SomeD [OF this] assms have "0 < rl_rate limit \<and> (case rl_burst limit of None \<Rightarrow> True | Some b \<Rightarrow> 0 < b)"
    by (auto simp: limits_ok_def)
  with limiter_created [of "rl_rate limit" "rl_burst limit" now] Some show ?thesis
    by (auto simp: limiter_for_def split: option.splits)
qed

lemma prep_limiter: "prep (and_then (limiter_for source now) (\<lambda>_. give a)) (and_then (limiter_for source now') (\<lambda>_. give a))"
  unfolding prep_def
proof (intro conjI allI impI)
  fix h h1 :: "('a, 'b) hub" and r
  assume "and_then (limiter_for source now) (\<lambda>_. give a) h = (h1, r)"
  then show "same_hub h h1" by (cases r) (auto simp: and_then_cases dest: limiter_for_same)
next
  fix h h1 h2 :: "('a, 'b) hub" and x
  assume l: "limits_ok (hf_config h)" and c: "hf_config h2 = hf_config h"
    and "and_then (limiter_for source now) (\<lambda>_. give a) h = (h1, Inr x)"
  then have "x = a" by (auto simp: and_then_Inr)
  moreover obtain h3 s where "limiter_for source now' h2 = (h3, Inr s)" using limiter_for_ok [of h2] l c by metis
  ultimately show "\<exists>h3. and_then (limiter_for source now') (\<lambda>_. give a) h2 = (h3, Inr x) \<and> same_hub h2 h3"
    using limiter_for_same by (auto simp: and_then_Inr)
qed

lemma prep_adapter_of: "prep (adapter_of source c now) (adapter_of source c now')"
  unfolding adapter_of_def by (intro prep_and_then prep_limiter prep_asks) simp

lemma prep_resolve [simp]: "prep (resolve_source source) (resolve_source source)"
  unfolding resolve_source_def by (rule prep_asks) (simp cong: option.case_cong)

lemma prep_resolve_factor [simp]: "prep (resolve_factor_source source) (resolve_factor_source source)"
  unfolding resolve_factor_source_def by (rule prep_asks) (simp cong: option.case_cong)

text \<open>What a bars request needs before its cache lookup, apart from its codes.\<close>

definition bars_setup ::
  "string option \<Rightarrow> string option \<Rightarrow> rat \<Rightarrow>
    (('s, 'f) hub, source \<times> bars_plan \<times> ('s, 'f) adapter \<times> (source \<times> ('s, 'f) adapter) option \<times> (string \<times> ('s, 'f) adapter) list \<times> bool) step" where
  "bars_setup source adjust now =
     and_then (resolve_source source) (\<lambda>resolved.
     and_then (asks (\<lambda>h. build_bars_plan resolved adjust (hb_routing (hf_config h)))) (\<lambda>plan.
     and_then (adapter_of (bp_primary plan) BARS now) (\<lambda>primary.
     and_then (factor_adapter plan now) (\<lambda>factor.
     and_then (fallback_adapters plan now) (\<lambda>fallbacks.
     and_then (asks (\<lambda>h. Inr (rt_field_fill (hb_routing (hf_config h))))) (\<lambda>field_fill.
       give (resolved, plan, primary, factor, fallbacks, field_fill)))))))"

lemma prep_bars_setup: "prep (bars_setup source adjust now) (bars_setup source adjust now')"
  unfolding bars_setup_def factor_adapter_def fallback_adapters_def
  by (intro prep_and_then prep_resolve prep_asks prep_adapter_of prep_each prep_give)
    (auto intro!: prep_and_then prep_adapter_of split: option.split)

definition bars_load ::
  "('f, 'c) pandas \<Rightarrow> sec_code list \<Rightarrow> string \<Rightarrow> string \<Rightarrow> string \<Rightarrow> string option \<Rightarrow> string list option \<Rightarrow> string
    \<Rightarrow> source \<times> bars_plan \<times> ('s, 'f) adapter \<times> (source \<times> ('s, 'f) adapter) option \<times> (string \<times> ('s, 'f) adapter) list \<times> bool
    \<Rightarrow> bool \<Rightarrow> ('s hub_env, 'f framed) step" where
  "bars_load P scodes start end freq adjust wanted stamp x =
     (case x of (resolved, plan, primary, factor, fallbacks, field_fill) \<Rightarrow>
        load_bars P field_fill factor (fetch_frames scodes start end freq (bp_adapter_adjust plan) (given_fields wanted))
          primary fallbacks plan resolved adjust scodes start end stamp)"

lemma get_bars_setup:
  assumes "request_codes codes = Inr scodes"
  shows "get_bars P codes start end freq adjust source wanted force ttl rd =
    and_then (bars_setup source adjust (rd_mono rd)) (\<lambda>x.
      cached_request (bars_key (fst x) scodes start end freq adjust wanted) force ttl rd
        (bars_load P scodes start end freq adjust wanted (rd_stamp rd) x))"
  by (rule ext) (simp add: get_bars_def bars_setup_def bars_load_def and_then_def assms split: prod.split sum.split)


subsection \<open>Answering from the cache\<close>

lemma update_same: "map_of d k = Some v \<Longrightarrow> AList.update k v d = d"
  by (induction d) (auto split: if_splits)

lemma set_attr_same: "map_of (fr_attrs out) k = Some v \<Longrightarrow> set_attr k v out = out"
  by (simp add: set_attr_def update_same)

lemma hub_contains_fresh:
  "map_of (hc_entries c) key = Some (v, e) \<Longrightarrow> \<not> expired e now \<Longrightarrow> hub_contains key now c = (c, True)"
  by (simp add: hub_contains_def)

lemma hub_contains_False: "hub_contains key now c = (c', False) \<Longrightarrow> map_of (hc_entries c') key = None"
  by (auto simp: hub_contains_def hub_remove_entries AList.delete_conv' split: option.splits if_splits)

lemma hub_contains_True: "hub_contains key now c = (c', True) \<Longrightarrow> c' = c \<and> (\<exists>v e. map_of (hc_entries c) key = Some (v, e))"
  by (auto simp: hub_contains_def split: option.splits if_splits)

lemma cached_request_fresh:
  assumes "map_of (hc_entries (hf_cache h)) key = Some (v, e)" and "\<not> expired e (rd_contains rd)" and "\<not> expired e (rd_get rd)"
  shows "\<exists>c. cached_request key False ttl rd load h = (h\<lparr>hf_cache := c\<rparr>, Inr (set_attr ''cached'' (ABool True) v))"
  using assms by (auto simp: cached_request_def hub_contains_fresh hub_get_or_load_def hub_get_def Let_def)

text \<open>The state of the cache just before a load stores its frame.\<close>

definition before_load :: "'k \<Rightarrow> bool \<Rightarrow> int \<Rightarrow> ('k, 'v) hub_cache \<Rightarrow> ('k, 'v) hub_cache" where
  "before_load key force now c =
     (if force then c else let c1 = fst (hub_contains key now c) in c1\<lparr>hc_misses := hc_misses c1 + 1 + 1\<rparr>)"

lemma before_load_inv: "hub_inv c m \<Longrightarrow> hub_inv (before_load key force now c) m \<and> hc_config (before_load key force now c) = hc_config c"
  using hub_remove_inv(2) [of c m key]
  by (auto simp: before_load_def hub_contains_def hub_inv_def Let_def split: option.splits)

lemma before_load_entries: "set (hc_entries (before_load key force now c)) \<subseteq> set (hc_entries c)"
  using delete_subset [of key "hc_entries c"]
  by (auto simp: before_load_def hub_contains_def hub_remove_entries Let_def split: option.splits)

lemma hub_put_error: "hub_put key v ttl now c = (c', Inl err) \<Longrightarrow> c' = c"
  by (auto simp: hub_put_def Let_def split: sum.splits if_splits)

lemma cached_request_load:
  assumes "force \<or> \<not> snd (hub_contains key (rd_contains rd) (hf_cache h))"
  shows "cached_request key force ttl rd load h =
    (let c = before_load key force (rd_contains rd) (hf_cache h)
     in case load False (hf_env h) of
          (e', Inl err) \<Rightarrow> (h\<lparr>hf_cache := c, hf_env := e'\<rparr>, Inl err)
        | (e', Inr v) \<Rightarrow> (case hub_put key v ttl (rd_put rd) c of
             (c', r) \<Rightarrow> (h\<lparr>hf_cache := c', hf_env := e'\<rparr>, map_sum id (\<lambda>_. set_attr ''cached'' (ABool False) v) r)))"
proof (cases force)
  case True
  then show ?thesis
    by (auto simp: cached_request_def hub_get_or_load_def before_load_def Let_def split: prod.split sum.split dest: hub_put_error)
next
  case False
  obtain c1 where c: "hub_contains key (rd_contains rd) (hf_cache h) = (c1, False)"
    using assms False by (metis prod.collapse)
  have g: "hub_get key t c1 = (c1\<lparr>hc_misses := hc_misses c1 + 1\<rparr>, None)"
    and g2: "hub_get key t (c1\<lparr>hc_misses := n\<rparr>) = (c1\<lparr>hc_misses := n + 1\<rparr>, None)" for t n
    using hub_contains_False [OF c] by (simp_all add: hub_get_def)
  show ?thesis using False
    by (auto simp: cached_request_def hub_get_or_load_def before_load_def Let_def c g g2 split: prod.split sum.split dest: hub_put_error)
qed

lemma cached_request_False:
  assumes "cached_request key force ttl rd load h = (h', Inr out)" and "map_of (fr_attrs out) ''cached'' = Some (ABool False)"
  obtains e v n where "load False (hf_env h) = (e, Inr v)" and "out = set_attr ''cached'' (ABool False) v"
    and "hub_put key v ttl (rd_put rd) (before_load key force (rd_contains rd) (hf_cache h)) = (hf_cache h', Inr n)"
    and "h' = h\<lparr>hf_cache := hf_cache h', hf_env := e\<rparr>"
proof -
  have f: "force \<or> \<not> snd (hub_contains key (rd_contains rd) (hf_cache h))"
  proof (rule ccontr)
    assume n: "\<not> ?thesis"
    then obtain c1 where c: "hub_contains key (rd_contains rd) (hf_cache h) = (c1, True)" by (metis prod.collapse)
    with n assms show False by (auto simp: cached_request_def map_sum_def split: prod.splits sum.splits)
  qed
  show ?thesis
    using assms(1) unfolding cached_request_load [OF f] Let_def
    by (auto simp: map_sum_def split: prod.splits sum.splits intro!: that)
qed

text \<open>A request that fails leaves no entry behind.\<close>

lemma hub_get_entries: "set (hc_entries (fst (hub_get key now c))) \<subseteq> set (hc_entries c)"
  using delete_subset [of key "hc_entries c"]
  by (auto simp: hub_get_def hub_remove_entries put_last_def Let_def dest: map_of_SomeD split: option.splits)

lemma hub_contains_entries: "set (hc_entries (fst (hub_contains key now c))) \<subseteq> set (hc_entries c)"
  using delete_subset [of key "hc_entries c"] by (auto simp: hub_contains_def hub_remove_entries split: option.splits)

lemma hub_evict_from_subset: "hub_evict_from me mb d sizes bytes n = (d', sizes', bytes', n') \<Longrightarrow> set d' \<subseteq> set d"
  by (induction me mb d sizes bytes n rule: hub_evict_from.induct) (auto split: if_splits)

lemma hub_sweep_subset: "set (hc_entries (hub_sweep now c)) \<subseteq> set (hc_entries c)"
proof -
  have "set (hc_entries (foldl (\<lambda>c key. hub_remove key c) c ks)) \<subseteq> set (hc_entries c)" for ks
  proof (induction ks arbitrary: c)
    case (Cons k ks)
    from Cons [of "hub_remove k c"] delete_subset [of k "hc_entries c"] show ?case by (auto simp: hub_remove_entries)
  qed simp
  then show ?thesis by (simp add: hub_sweep_def)
qed

lemma hub_put_subset:
  "set (hc_entries (fst (hub_put key v ttl now c))) \<subseteq> set (hc_entries c) \<union> {(k, w, e). k = key \<and> w = v}"
proof -
  have evict: "set (hc_entries (hub_evict c')) \<subseteq> set (hc_entries c')" for c' :: "('a, 'b) hub_cache"
    unfolding hub_evict_def by (simp split: prod.split) (blast dest: hub_evict_from_subset [THEN subsetD])
  let ?c1 = "hub_remove key c"
  let ?c2 = "\<lambda>e n. ?c1\<lparr>hc_entries := put_last key (v, e) (hc_entries ?c1), hc_sizes := AList.update key n (hc_sizes ?c1), hc_bytes := hc_bytes ?c1 + n\<rparr>"
  have 2: "set (hc_entries (?c2 e n)) \<subseteq> set (hc_entries c) \<union> {(k, w, e). k = key \<and> w = v}" for e n
    using delete_subset [of key "hc_entries ?c1"] delete_subset [of key "hc_entries c"] by (auto simp: put_last_def hub_remove_entries)
  have 4: "set (hc_entries (if b then hub_sweep now (c'\<lparr>hc_stores := x\<rparr>) else c'\<lparr>hc_stores := x\<rparr>)) \<subseteq> set (hc_entries c')"
    for b x and c' :: "('a, 'b) hub_cache"
    using hub_sweep_subset [of now "c'\<lparr>hc_stores := x\<rparr>"] by auto
  show ?thesis
  proof (cases "entry_size (hc_config c) v")
    case (Inr n)
    let ?e = "map_option (\<lambda>t. now + t) (case ttl of None \<Rightarrow> hx_ttl (hc_config c) | Some t \<Rightarrow> Some t)"
    let ?c3 = "hub_evict (?c2 ?e n)" and ?b = "(hc_stores (hub_evict (?c2 ?e n)) + 1) mod SWEEP_EVERY = 0"
    have 3: "set (hc_entries ?c3) \<subseteq> set (hc_entries c) \<union> {(k, w, e). k = key \<and> w = v}"
      by (rule order_trans [OF evict 2])
    have "fst (hub_put key v ttl now c) = (if hx_max_entry_bytes (hc_config c) < n then c
        else if ?b then hub_sweep now (?c3\<lparr>hc_stores := hc_stores ?c3 + 1\<rparr>) else ?c3\<lparr>hc_stores := hc_stores ?c3 + 1\<rparr>)"
      using Inr by (simp add: hub_put_def Let_def)
    then show ?thesis using order_trans [OF 4 [of ?b "hc_stores ?c3 + 1" ?c3] 3]
      by (cases "hx_max_entry_bytes (hc_config c) < n") simp_all
  qed (auto simp: hub_put_def)
qed


subsection \<open>The load of bars\<close>

text \<open>Sources that fail one after the other, each with an error that moves on to the next.\<close>

fun failing :: "(('s, 'f) adapter \<Rightarrow> ('e, 'f list) step) \<Rightarrow> (string \<times> ('s, 'f) adapter) list \<Rightarrow> 'e \<Rightarrow> 'e option" where
  "failing fetch [] e = Some e"
| "failing fetch ((label, a) # rest) e =
     (case fetch a e of
        (e', Inl err) \<Rightarrow> if err \<in> {SourceError, NetworkError, ResponseParseError, MissingCredentialError}
          then failing fetch rest e' else None
      | (e', Inr frames) \<Rightarrow> None)"

lemma try_sources_Inr:
  "try_sources fetch chain used e = (e', Inr (label, frames)) \<Longrightarrow> frames \<noteq> [] \<Longrightarrow>
    \<exists>failed a rest e1. chain = failed @ (label, a) # rest \<and> failing fetch failed e = Some e1 \<and> fetch a e1 = (e', Inr frames)"
proof (induction chain arbitrary: e)
  case (Cons p chain)
  obtain l a where p: "p = (l, a)" by (cases p)
  obtain e1 r where f: "fetch a e = (e1, r)" by (cases "fetch a e")
  show ?case
  proof (cases r)
    case (Inr fs)
    with Cons.prems p f show ?thesis by (intro exI [of _ "[]"] exI [of _ a] exI [of _ chain] exI [of _ e]) auto
  next
    case (Inl err)
    with Cons.prems p f have b: "falls_back err" and t: "try_sources fetch chain used e1 = (e', Inr (label, frames))"
      by (auto split: if_splits)
    from Cons.IH [OF t Cons.prems(2)] obtain failed a' rest e2 where
      "chain = failed @ (label, a') # rest" "failing fetch failed e1 = Some e2" "fetch a' e2 = (e', Inr frames)" by blast
    with p f Inl b show ?thesis unfolding falls_back_def by (intro exI [of _ "p # failed"] exI [of _ a'] exI [of _ rest] exI [of _ e2]) auto
  qed
qed simp

lemma try_sources_none: "try_sources fetch chain used e = (e', Inr (label, [])) \<Longrightarrow> (\<And>a e1 e2. fetch a e1 \<noteq> (e2, Inr [])) \<Longrightarrow>
    failing fetch chain e = Some e'"
proof (induction chain arbitrary: e)
  case (Cons p chain)
  obtain l a where p: "p = (l, a)" by (cases p)
  obtain e1 r where f: "fetch a e = (e1, r)" by (cases "fetch a e")
  from Cons p f show ?case by (cases r) (auto simp: falls_back_def split: if_splits)
qed simp

lemma bars_attrs_of:
  "map_of (fr_attrs (bars_attrs resolved factor filled out)) ''source'' = map_of (fr_attrs out) ''source''"
  "map_of (fr_attrs (bars_attrs resolved factor filled out)) ''cached'' = map_of (fr_attrs out) ''cached''"
  "map_of (fr_attrs (bars_attrs resolved factor filled out)) ''requested_source'' = Some (AText (source_value resolved))"
  "fr_frame (bars_attrs resolved factor filled out) = fr_frame out"
  by (simp_all add: bars_attrs_def Let_def split: option.split)

text \<open>The parts of a load: the source that answered, the filling, the adjustment, the finished frame.\<close>

lemma load_bars_parts:
  assumes "load_bars P field_fill factor fetch primary fallbacks plan resolved adjust scodes start end stamp hit e = (e', Inr out)"
  obtains label frames e1 full filled e2 bars shown where
    "try_sources fetch ((source_value (bp_primary plan), primary) # fallbacks) (source_value (bp_primary plan)) e = (e1, Inr (label, frames))"
    and "frames \<noteq> []" and "filled_bars P field_fill fetch fallbacks (merge_frames P frames bars_keys bars_keys) e1 = (e2, Inr (full, filled))"
    and "adjusted_bars P factor adjust scodes start end full e2 = (e', Inr bars)"
    and "finalize_frame P (Some bars) BARS_COLUMNS label hit stamp = Inr shown"
    and "out = bars_attrs resolved (bp_factor_source plan) filled shown"
proof -
  note split1 = assms [unfolded load_bars_def, THEN and_then_Inr [THEN iffD1]]
  then obtain e1 y where
    y: "try_sources fetch ((source_value (bp_primary plan), primary) # fallbacks) (source_value (bp_primary plan)) e = (e1, Inr y)"
    and r: "(case y of (used, frames) \<Rightarrow> if frames = [] then throw SourceError
      else and_then (filled_bars P field_fill fetch fallbacks (merge_frames P frames bars_keys bars_keys)) (\<lambda>(merged, filled).
          and_then (adjusted_bars P factor adjust scodes start end merged) (\<lambda>merged.
          and_then (of_result (finalize_frame P (Some merged) BARS_COLUMNS used hit stamp)) (\<lambda>out.
            give (bars_attrs resolved (bp_factor_source plan) filled out))))) e1 = (e', Inr out)" by (elim exE conjE)
  obtain label frames where yy: "y = (label, frames)" by (cases y)
  note t = y [unfolded yy]
  have ne: "frames \<noteq> []" using r yy by auto
  have "and_then (filled_bars P field_fill fetch fallbacks (merge_frames P frames bars_keys bars_keys)) (\<lambda>(merged, filled).
          and_then (adjusted_bars P factor adjust scodes start end merged) (\<lambda>merged.
          and_then (of_result (finalize_frame P (Some merged) BARS_COLUMNS label hit stamp)) (\<lambda>out.
            give (bars_attrs resolved (bp_factor_source plan) filled out)))) e1 = (e', Inr out)" using r yy ne by simp
  then obtain full filled e2 bars shown where
    "filled_bars P field_fill fetch fallbacks (merge_frames P frames bars_keys bars_keys) e1 = (e2, Inr (full, filled))"
    "adjusted_bars P factor adjust scodes start end full e2 = (e', Inr bars)"
    "finalize_frame P (Some bars) BARS_COLUMNS label hit stamp = Inr shown"
    "out = bars_attrs resolved (bp_factor_source plan) filled shown"
    unfolding and_then_Inr by (auto simp: and_then_Inr)
  with t ne show thesis by (rule that)
qed

lemma load_bars_Inr:
  assumes "load_bars P field_fill factor fetch primary fallbacks plan resolved adjust scodes start end stamp hit e = (e', Inr out)"
  obtains label frames e1 bars out0 where
    "try_sources fetch ((source_value (bp_primary plan), primary) # fallbacks) (source_value (bp_primary plan)) e = (e1, Inr (label, frames))"
    and "frames \<noteq> []" and "finalize_frame P (Some bars) BARS_COLUMNS label hit stamp = Inr out0"
    and "fr_frame out = fr_frame out0" and "map_of (fr_attrs out) ''source'' = Some (AText label)"
    and "map_of (fr_attrs out) ''cached'' = Some (ABool hit)"
    and "map_of (fr_attrs out) ''requested_source'' = Some (AText (source_value resolved))"
proof (rule load_bars_parts [OF assms])
  fix label frames e1 full filled e2 bars shown
  assume t: "try_sources fetch ((source_value (bp_primary plan), primary) # fallbacks) (source_value (bp_primary plan)) e = (e1, Inr (label, frames))"
    and ne: "frames \<noteq> []" and f: "finalize_frame P (Some bars) BARS_COLUMNS label hit stamp = Inr shown"
    and o: "out = bars_attrs resolved (bp_factor_source plan) filled shown"
  show thesis using that [OF t ne f] finalize_attrs(1,2) [OF f] unfolding o by (simp add: bars_attrs_of)
qed

lemma bars_load_cached: "bars_load P scodes start end freq adjust wanted stamp x hit e = (e', Inr out) \<Longrightarrow>
    map_of (fr_attrs out) ''cached'' = Some (ABool hit)"
  by (auto simp: bars_load_def split: prod.splits elim: load_bars_Inr)

lemma get_bars_codes: "get_bars P codes start end freq adjust source wanted force ttl rd h = (h', Inr out) \<Longrightarrow>
    \<exists>scodes. request_codes codes = Inr scodes \<and> scodes \<noteq> []"
  by (auto simp: get_bars_def and_then_Inr request_codes_def split: sum.splits if_splits)

text \<open>A source with the adapter the registry holds for it, and whether that one can answer bars.\<close>

definition registered :: "('s, 'f) hub \<Rightarrow> source \<Rightarrow> ('s, 'f) adapter" where
  "registered h x = the (map_of (hf_registry h) x)"

definition has_bars :: "('s, 'f) hub \<Rightarrow> source \<Rightarrow> bool" where
  "has_bars h x \<longleftrightarrow> (\<exists>a. map_of (hf_registry h) x = Some a \<and> BARS \<in> set (ad_capabilities a))"

lemma adapter_of_Inr:
  assumes "adapter_of s c now h = (h1, Inr a)"
  shows "map_of (hf_registry h) s = Some a \<and> c \<in> set (ad_capabilities a) \<and> same_hub h h1"
  using assms prep_same [OF prep_adapter_of assms] by (auto simp: adapter_of_def and_then_Inr get_for_capability_Inr)

lemma registered_same: "same_hub h h1 \<Longrightarrow> registered h1 = registered h \<and> has_bars h1 = has_bars h"
  by (simp add: fun_eq_iff registered_def has_bars_def same_hub_def)

lemma bars_adapter:
  assumes "adapter_of s BARS now h = (h1, Inr a)"
  shows "a = registered h s \<and> has_bars h s \<and> registered h1 = registered h \<and> has_bars h1 = has_bars h"
  using adapter_of_Inr [OF assms] registered_same [of h h1] by (auto simp: registered_def has_bars_def)

lemma each_map:
  assumes "\<And>s h h1 x. f s h = (h1, Inr x) \<Longrightarrow> x = g h s \<and> Q h s \<and> g h1 = g h \<and> Q h1 = Q h"
  shows "each f ss h = (h', Inr xs) \<Longrightarrow> xs = map (g h) ss \<and> (\<forall>x\<in>set ss. Q h x)"
proof (induction ss arbitrary: h xs)
  case (Cons s ss)
  then obtain h1 x rest where x: "f s h = (h1, Inr x)" and r: "each f ss h1 = (h', Inr rest)" and xs: "xs = x # rest"
    by (auto simp: and_then_Inr)
  from Cons.IH [OF r] assms [OF x] xs show ?case by simp
qed simp

lemma fallbacks_registered:
  assumes "each (\<lambda>s. and_then (adapter_of s BARS now) (\<lambda>a. give (source_value s, a))) ss h = (h', Inr fallbacks)"
  shows "fallbacks = map (\<lambda>x. (source_value x, registered h x)) ss \<and> (\<forall>x\<in>set ss. has_bars h x)"
proof (rule each_map [OF _ assms])
  fix s h h1 x
  assume "and_then (adapter_of s BARS now) (\<lambda>a. give (source_value s, a)) h = (h1, Inr x)"
  then obtain a where "adapter_of s BARS now h = (h1, Inr a)" "x = (source_value s, a)" by (auto simp: and_then_Inr)
  with bars_adapter [OF this(1)] show "x = (source_value s, registered h s) \<and> has_bars h s
      \<and> (\<lambda>x. (source_value x, registered h1 x)) = (\<lambda>x. (source_value x, registered h x)) \<and> has_bars h1 = has_bars h"
    by simp
qed

lemma factor_registered:
  assumes "factor_adapter plan now h = (h1, Inr factor)"
  shows "factor = map_option (\<lambda>f. (f, registered h f)) (bp_factor_source plan)"
  using assms by (auto simp: factor_adapter_def and_then_Inr registered_def dest: adapter_of_Inr split: option.splits)

lemma factor_same: "factor_adapter plan now h = (h1, Inr factor) \<Longrightarrow> same_hub h h1"
  by (auto simp: factor_adapter_def and_then_Inr dest: adapter_of_Inr split: option.splits)

lemma bars_setup_parts:
  assumes "bars_setup source adjust now h = (h1, Inr (resolved, plan, primary, factor, fallbacks, ff))"
  shows "(case source of Some t \<Rightarrow> Source t = Inr resolved | None \<Rightarrow> hb_default_source (hf_config h) = Some resolved)
    \<and> build_bars_plan resolved adjust (hb_routing (hf_config h)) = Inr plan
    \<and> primary = registered h (bp_primary plan) \<and> has_bars h (bp_primary plan)
    \<and> factor = map_option (\<lambda>f. (f, registered h f)) (bp_factor_source plan)
    \<and> fallbacks = map (\<lambda>x. (source_value x, registered h x)) (filter (\<lambda>x. x \<noteq> bp_primary plan) (bp_fallbacks plan))
    \<and> (\<forall>x\<in>set (filter (\<lambda>x. x \<noteq> bp_primary plan) (bp_fallbacks plan)). has_bars h x)
    \<and> ff = rt_field_fill (hb_routing (hf_config h))"
proof -
  from assms obtain h2 h3 h4 where r: "resolve_source source h = (h, Inr resolved)"
    and p: "build_bars_plan resolved adjust (hb_routing (hf_config h)) = Inr plan"
    and a: "adapter_of (bp_primary plan) BARS now h = (h2, Inr primary)" and f: "factor_adapter plan now h2 = (h3, Inr factor)"
    and b: "fallback_adapters plan now h3 = (h4, Inr fallbacks)" and ff: "ff = rt_field_fill (hb_routing (hf_config h4))"
    unfolding bars_setup_def resolve_source_def by (auto simp: and_then_Inr)
  have 2: "same_hub h h2" using adapter_of_Inr [OF a] by blast
  have 3: "same_hub h h3" using same_hub_trans [OF 2 factor_same [OF f]] .
  have "prep (fallback_adapters plan now) (fallback_adapters plan now)"
    unfolding fallback_adapters_def by (intro prep_each prep_and_then prep_adapter_of prep_give)
  from same_hub_trans [OF 3 prep_same [OF this b]] have 4: "same_hub h h4" .
  have "case source of Some t \<Rightarrow> Source t = Inr resolved | None \<Rightarrow> hb_default_source (hf_config h) = Some resolved"
    using r by (auto simp: resolve_source_def split: option.splits)
  with p bars_adapter [OF a] factor_registered [OF f] fallbacks_registered [OF b [unfolded fallback_adapters_def]]
    registered_same [OF 2] registered_same [OF 3] ff 4
  show ?thesis by (simp add: same_hub_def)
qed

subsection \<open>Properties of the facade\<close>

text \<open>
  What it means that the source \<open>s\<close> gave the frame: in the environment the request starts its load in
  (the hub's own one, but for limiters of sources that had none), the adapters registered for the
  sources before \<open>s\<close> are asked one after the other and fail, the adapter registered for \<open>s\<close>
  answers the chunks, and the frame shown is those chunks merged, filled and adjusted as configured,
  and finished; nothing else is asked of any source.
\<close>

definition answers_first ::
  "('f, 'c) pandas \<Rightarrow> ('s, 'f) hub \<Rightarrow> (('s, 'f) adapter \<Rightarrow> ('s hub_env, 'f list) step) \<Rightarrow> source list \<Rightarrow> source \<Rightarrow> source list
    \<Rightarrow> bars_plan \<Rightarrow> string option \<Rightarrow> sec_code list \<Rightarrow> string \<Rightarrow> string \<Rightarrow> string \<Rightarrow> 's hub_env \<Rightarrow> 'f \<Rightarrow> bool" where
  "answers_first P h fetch before s fallbacks plan adjust scodes start end stamp e' frame \<longleftrightarrow>
     (\<exists>e0 e1 e2 frames full filled e3 bars shown.
        he_world e0 = he_world (hf_env h) \<and> he_usage e0 = he_usage (hf_env h)
        \<and> (\<forall>x. map_of (he_limiters (hf_env h)) x \<noteq> None \<longrightarrow> map_of (he_limiters e0) x = map_of (he_limiters (hf_env h)) x)
        \<and> failing fetch (map (\<lambda>x. (source_value x, registered h x)) before) e0 = Some e1
        \<and> fetch (registered h s) e1 = (e2, Inr frames) \<and> frames \<noteq> []
        \<and> filled_bars P (rt_field_fill (hb_routing (hf_config h))) fetch (map (\<lambda>x. (source_value x, registered h x)) fallbacks)
            (merge_frames P frames bars_keys bars_keys) e2 = (e3, Inr (full, filled))
        \<and> adjusted_bars P (map_option (\<lambda>f. (f, registered h f)) (bp_factor_source plan)) adjust scodes start end full e3 = (e', Inr bars)
        \<and> finalize_frame P (Some bars) BARS_COLUMNS (source_value s) False stamp = Inr shown \<and> frame = fr_frame shown
        \<and> (bp_factor_source plan = None \<and> (fallbacks = [] \<or> \<not> rt_field_fill (hb_routing (hf_config h)))
            \<longrightarrow> bars = merge_frames P frames bars_keys bars_keys \<and> e' = e2))"

text \<open>C33. A bars request that was loaded is answered by the first source of its chain that answers: the
  source asked for (or the default one) and then the configured fallbacks in their order, without the
  source itself, each through the adapter registered for it, which has the capability.  Every source
  before it was asked and failed with a source error or a missing credential; the frame returned is
  made of the chunks the answering source gave, merged, filled from the fallbacks and adjusted as the
  routing says and finished; and its metadata name that source and the one asked for.\<close>

theorem bars_first_answering_source:
  assumes "get_bars P codes start end freq adjust source wanted force ttl rd h = (h', Inr out)"
    and "map_of (fr_attrs out) ''cached'' = Some (ABool False)"
  shows "\<exists>scodes resolved plan before s rest.
    request_codes codes = Inr scodes
    \<and> (case source of Some t \<Rightarrow> Source t = Inr resolved | None \<Rightarrow> hb_default_source (hf_config h) = Some resolved)
    \<and> build_bars_plan resolved adjust (hb_routing (hf_config h)) = Inr plan
    \<and> resolved # filter (\<lambda>x. x \<noteq> resolved) (rt_fallbacks (hb_routing (hf_config h))) = before @ s # rest
    \<and> (\<forall>x\<in>set (before @ s # rest). has_bars h x)
    \<and> answers_first P h (fetch_frames scodes start end freq (bp_adapter_adjust plan) (given_fields wanted)) before s
        (filter (\<lambda>x. x \<noteq> resolved) (rt_fallbacks (hb_routing (hf_config h)))) plan adjust scodes start end (rd_stamp rd)
        (hf_env h') (fr_frame out)
    \<and> map_of (fr_attrs out) ''source'' = Some (AText (source_value s))
    \<and> map_of (fr_attrs out) ''requested_source'' = Some (AText (source_value resolved))"
proof -
  obtain scodes where sc: "request_codes codes = Inr scodes" using get_bars_codes [OF assms(1)] by blast
  from assms(1) obtain h1 x where s: "bars_setup source adjust (rd_mono rd) h = (h1, Inr x)" and
    q: "cached_request (bars_key (fst x) scodes start end freq adjust wanted) force ttl rd
        (bars_load P scodes start end freq adjust wanted (rd_stamp rd) x) h1 = (h', Inr out)"
    unfolding get_bars_setup [OF sc] and_then_Inr by blast
  obtain resolved plan primary factor fallbacks ff where x: "x = (resolved, plan, primary, factor, fallbacks, ff)" by (cases x)
  have same: "same_hub h h1" using prep_same [OF prep_bars_setup s] .
  let ?fbs = "filter (\<lambda>x. x \<noteq> resolved) (rt_fallbacks (hb_routing (hf_config h)))"
  let ?fetch = "fetch_frames scodes start end freq (bp_adapter_adjust plan) (given_fields wanted)"
  let ?named = "\<lambda>x. (source_value x, registered h x)"
  note parts = bars_setup_parts [OF s [unfolded x]]
  have plan: "bp_primary plan = resolved" "bp_fallbacks plan = rt_fallbacks (hb_routing (hf_config h))"
    using parts by (auto simp: build_bars_plan_def split: if_splits option.splits)
  have fb: "fallbacks = map ?named ?fbs" "primary = registered h resolved" "ff = rt_field_fill (hb_routing (hf_config h))"
    "factor = map_option (\<lambda>f. (f, registered h f)) (bp_factor_source plan)" using parts plan by simp_all
  have chain: "(source_value (bp_primary plan), primary) # fallbacks = map ?named (resolved # ?fbs)" by (simp add: fb plan)
  obtain e v n where l: "bars_load P scodes start end freq adjust wanted (rd_stamp rd) x False (hf_env h1) = (e, Inr v)"
    and o: "out = set_attr ''cached'' (ABool False) v" and h': "h' = h1\<lparr>hf_cache := hf_cache h', hf_env := e\<rparr>"
    by (rule cached_request_False [OF q assms(2)])
  have env: "hf_env h' = e" by (subst h') simp
  from l [unfolded x bars_load_def prod.case] obtain label frames e2 full filled e3 bars shown where
    t: "try_sources ?fetch ((source_value (bp_primary plan), primary) # fallbacks) (source_value (bp_primary plan)) (hf_env h1) = (e2, Inr (label, frames))"
    and ne: "frames \<noteq> []" and fill: "filled_bars P ff ?fetch fallbacks (merge_frames P frames bars_keys bars_keys) e2 = (e3, Inr (full, filled))"
    and adj: "adjusted_bars P factor adjust scodes start end full e3 = (e, Inr bars)"
    and fin: "finalize_frame P (Some bars) BARS_COLUMNS label False (rd_stamp rd) = Inr shown"
    and v: "v = bars_attrs resolved (bp_factor_source plan) filled shown" by (rule load_bars_parts)
  from try_sources_Inr [OF t [unfolded chain] ne] obtain failed a rest' e1 where
    c: "map ?named (resolved # ?fbs) = failed @ (label, a) # rest'"
    and f: "failing ?fetch failed (hf_env h1) = Some e1" and g: "?fetch a e1 = (e2, Inr frames)" by blast
  from c obtain before s rest where split: "resolved # ?fbs = before @ s # rest" "failed = map ?named before" "(label, a) = ?named s"
    unfolding map_eq_append_conv map_eq_Cons_conv by blast
  have plain: "bars = merge_frames P frames bars_keys bars_keys \<and> e = e2"
    if "bp_factor_source plan = None \<and> (?fbs = [] \<or> \<not> rt_field_fill (hb_routing (hf_config h)))"
    using that fill adj by (auto simp: filled_bars_def adjusted_bars_def fb)
  have "answers_first P h ?fetch before s ?fbs plan adjust scodes start end (rd_stamp rd) (hf_env h') (fr_frame out)"
    unfolding answers_first_def env
    by (rule exI [of _ "hf_env h1"], rule exI [of _ e1], rule exI [of _ e2], rule exI [of _ frames], rule exI [of _ full],
        rule exI [of _ filled], rule exI [of _ e3], rule exI [of _ bars], rule exI [of _ shown])
      (use same f g ne fill adj fin split(2,3) plain in \<open>simp add: same_hub_def fb o v bars_attrs_of\<close>)
  moreover have "map_of (fr_attrs out) ''source'' = Some (AText (source_value s))"
    "map_of (fr_attrs out) ''requested_source'' = Some (AText (source_value resolved))"
    using finalize_attrs(1) [OF fin] split(3) by (simp_all add: o v bars_attrs_of)
  moreover have "\<forall>x\<in>set (before @ s # rest). has_bars h x" using parts plan unfolding split(1) [symmetric] by auto
  ultimately show ?thesis using sc parts split(1) by blast
qed

text \<open>The primary source has no network, the fallback answers.\<close>

theorem bars_first_answering_source_witness:
  "\<exists>h' out scodes plan. demo_get [''600519.SH''] 0 demo_failing = (h', Inr out) \<and> request_codes (map CodeText [''600519.SH'']) = Inr scodes
    \<and> build_bars_plan FUYAO None (hb_routing (hf_config demo_failing)) = Inr plan
    \<and> answers_first demo_pandas demo_failing (fetch_frames scodes ''20240101'' ''20240131'' ''1d'' (bp_adapter_adjust plan) (given_fields None))
        [FUYAO] AKSHARE [AKSHARE] plan None scodes ''20240101'' ''20240131'' ''2024-01-02T00:00:00+00:00'' (hf_env h') (fr_frame out)
    \<and> map_of (fr_attrs out) ''source'' = Some (AText ''akshare'')"
proof -
  obtain h' out where g: "demo_get [''600519.SH''] 0 demo_failing = (h', Inr out)"
    and c: "map_of (fr_attrs out) ''cached'' = Some (ABool False)" and a: "map_of (fr_attrs out) ''source'' = Some (AText ''akshare'')"
    using demo_failing_run by (auto split: prod.splits sum.splits)
  have chain: "rt_fallbacks (hb_routing (hf_config demo_failing)) = [AKSHARE]" "rd_stamp (demo_readings 0) = ''2024-01-02T00:00:00+00:00''"
    by (simp_all add: demo_failing_def demo_hub_def demo_config_def demo_readings_def)
  have "Source ''fuyao'' = Inr FUYAO" by code_simp
  with bars_first_answering_source [OF g [unfolded demo_get_def] c] obtain scodes plan before s rest where
    p: "request_codes (map CodeText [''600519.SH'']) = Inr scodes" "build_bars_plan FUYAO None (hb_routing (hf_config demo_failing)) = Inr plan"
      "FUYAO # filter (\<lambda>x. x \<noteq> FUYAO) [AKSHARE] = before @ s # rest"
      "answers_first demo_pandas demo_failing (fetch_frames scodes ''20240101'' ''20240131'' ''1d'' (bp_adapter_adjust plan) (given_fields None))
        before s (filter (\<lambda>x. x \<noteq> FUYAO) [AKSHARE]) plan None scodes ''20240101'' ''20240131'' ''2024-01-02T00:00:00+00:00'' (hf_env h') (fr_frame out)"
      "map_of (fr_attrs out) ''source'' = Some (AText (source_value s))"
    unfolding chain by (auto simp del: filter.simps)
  have "s = AKSHARE" using p(5) a by (cases s) simp_all
  moreover from this have "before = [FUYAO]" using p(3) by (cases before) (auto simp: Cons_eq_append_conv)
  ultimately show ?thesis using g p(1,2,4) a by auto
qed

lemma sizes_okD: "sizes_ok x \<Longrightarrow> 0 < hx_max_entries x" "sizes_ok x \<Longrightarrow> 0 < hx_max_bytes x"
  by (simp_all add: sizes_ok_def)

lemma sort_same_mset: "mset xs = mset ys \<Longrightarrow> sort xs = sort ys"
  by (metis mset_sort properties_for_sort sorted_sort)

text \<open>C34. A bars request that was loaded and whose frame fits the cache is answered from there when it comes
  again before the frame expires, with the codes in any order: the same frame, flagged as cached, whatever
  the sources would answer now; no source is asked, so neither the usage ledger nor the outside world moves.
\<close>

theorem repeated_request_served_from_cache:
  assumes "get_bars P codes start end freq adjust source wanted force ttl rd h = (h1, Inr out)"
    and "map_of (fr_attrs out) ''cached'' = Some (ABool False)"
    and "limits_ok (hf_config h)" and "hub_inv (hf_cache h) m" and "sizes_ok (hc_config (hf_cache h))"
    and "entry_size (hc_config (hf_cache h)) out = Inr n" and "n \<le> hx_max_entry_bytes (hc_config (hf_cache h))"
    and "n \<le> hx_max_bytes (hc_config (hf_cache h))"
    and "lifetime = (case ttl of None \<Rightarrow> hx_ttl (hc_config (hf_cache h)) | Some t \<Rightarrow> Some t)"
    and "\<forall>now \<in> {rd_put rd, rd_contains rd', rd_get rd'}. \<not> expired (map_option (\<lambda>t. rd_put rd + t) lifetime) now"
    and "request_codes codes = Inr scodes" and "request_codes codes' = Inr scodes'"
    and "mset (map canonical scodes') = mset (map canonical scodes)"
  shows "\<exists>h2. get_bars P codes' start end freq adjust source wanted False ttl' rd' h1 = (h2, Inr (set_attr ''cached'' (ABool True) out))
    \<and> he_usage (hf_env h2) = he_usage (hf_env h1) \<and> he_world (hf_env h2) = he_world (hf_env h1)"
proof -
  let ?key = "\<lambda>x. bars_key (fst x) scodes start end freq adjust wanted"
  obtain h0 x where s: "bars_setup source adjust (rd_mono rd) h = (h0, Inr x)" and
    q: "cached_request (?key x) force ttl rd (bars_load P scodes start end freq adjust wanted (rd_stamp rd) x) h0 = (h1, Inr out)"
    using assms(1) unfolding get_bars_setup [OF assms(11)] and_then_Inr by blast
  have 0: "same_hub h h0" using prep_same [OF prep_bars_setup s] .
  obtain e v b where l: "bars_load P scodes start end freq adjust wanted (rd_stamp rd) x False (hf_env h0) = (e, Inr v)"
    and o: "out = set_attr ''cached'' (ABool False) v"
    and p: "hub_put (?key x) v ttl (rd_put rd) (before_load (?key x) force (rd_contains rd) (hf_cache h0)) = (hf_cache h1, Inr b)"
    and h1: "h1 = h0\<lparr>hf_cache := hf_cache h1, hf_env := e\<rparr>" by (rule cached_request_False [OF q assms(2)])
  have v: "out = v" unfolding o by (rule set_attr_same [OF bars_load_cached [OF l]])
  let ?c = "before_load (?key x) force (rd_contains rd) (hf_cache h0)"
  have c: "hub_inv ?c m" "hc_config ?c = hc_config (hf_cache h)"
    using before_load_inv [of "hf_cache h0" m] assms(4) 0 by (simp_all add: same_hub_def)
  define ex where "ex = map_option (\<lambda>t. rd_put rd + t) (case ttl of None \<Rightarrow> hx_ttl (hc_config ?c) | Some t \<Rightarrow> Some t)"
  have ex: "\<not> expired ex (rd_put rd)" "\<not> expired ex (rd_contains rd')" "\<not> expired ex (rd_get rd')"
    using assms(10) unfolding ex_def c(2) assms(9) [symmetric] by simp_all
  have "map_of (hc_entries (fst (hub_put (?key x) v ttl (rd_put rd) ?c))) (?key x) = Some (v, ex)"
  proof (rule hub_put_keeps [OF c(1) _ _ _ _ _ ex_def ex(1)])
    show "entry_size (hc_config ?c) v = Inr n" using assms(6) unfolding c(2) v .
    show "n \<le> hx_max_entry_bytes (hc_config ?c)" using assms(7) unfolding c(2) .
    show "n \<le> hx_max_bytes (hc_config ?c)" using assms(8) unfolding c(2) .
    show "0 < hx_max_entries (hc_config ?c)" using sizes_okD(1) [OF assms(5)] unfolding c(2) .
    show "0 < hx_max_bytes (hc_config ?c)" using sizes_okD(2) [OF assms(5)] unfolding c(2) .
    show "0 \<le> n" by (rule entry_size_nonneg [OF assms(5,6)])
  qed
  then have k: "map_of (hc_entries (hf_cache h1)) (?key x) = Some (out, ex)" by (simp add: p v)
  have same1: "hf_config h1 = hf_config h" "hf_registry h1 = hf_registry h" using 0 by (subst h1, simp add: same_hub_def)+
  from prep_again [OF prep_bars_setup assms(3) s same1] obtain h4 where
    s4: "bars_setup source adjust (rd_mono rd') h1 = (h4, Inr x)" and 4: "same_hub h1 h4" by blast
  have kk: "bars_key (fst x) scodes' start end freq adjust wanted = ?key x"
    using assms(13) by (simp add: bars_key_def code_part_def sort_same_mset)
  have "map_of (hc_entries (hf_cache h4)) (?key x) = Some (out, ex)" using k 4 by (simp add: same_hub_def)
  from cached_request_fresh [where rd = rd', OF this ex(2,3), of ttl' "bars_load P scodes' start end freq adjust wanted (rd_stamp rd') x"]
  obtain c5 where "cached_request (?key x) False ttl' rd' (bars_load P scodes' start end freq adjust wanted (rd_stamp rd') x) h4
      = (h4\<lparr>hf_cache := c5\<rparr>, Inr (set_attr ''cached'' (ABool True) out))" by blast
  then have "get_bars P codes' start end freq adjust source wanted False ttl' rd' h1 = (h4\<lparr>hf_cache := c5\<rparr>, Inr (set_attr ''cached'' (ABool True) out))"
    unfolding get_bars_setup [OF assms(12)] and_then_def by (simp add: s4 kk)
  moreover have "he_usage (hf_env h4) = he_usage (hf_env h1)" "he_world (hf_env h4) = he_world (hf_env h1)" using 4 by (simp_all add: same_hub_def)
  ultimately show ?thesis by simp
qed

text \<open>The two codes in the other order, a few ticks later.\<close>

theorem repeated_request_served_from_cache_witness:
  "\<exists>h1 h2 out. demo_get [''600519.SH'', ''000001.SZ''] 0 demo_fine = (h1, Inr out)
    \<and> demo_get [''000001.SZ'', ''600519.SH''] 5 h1 = (h2, Inr (set_attr ''cached'' (ABool True) out))
    \<and> he_world (hf_env h2) = he_world (hf_env h1)"
proof -
  obtain h1 out where g: "demo_get [''600519.SH'', ''000001.SZ''] 0 demo_fine = (h1, Inr out)"
    and c: "map_of (fr_attrs out) ''cached'' = Some (ABool False)"
    using demo_fine_run by (auto split: prod.splits sum.splits)
  have k: "case (request_codes [CodeText ''600519.SH'', CodeText ''000001.SZ''], request_codes [CodeText ''000001.SZ'', CodeText ''600519.SH'']) of
      (Inr a, Inr b) \<Rightarrow> map canonical a = [''600519.SH'', ''000001.SZ''] \<and> map canonical b = [''000001.SZ'', ''600519.SH''] | _ \<Rightarrow> False"
    by code_simp
  then obtain a b where a: "request_codes [CodeText ''600519.SH'', CodeText ''000001.SZ''] = Inr a" "map canonical a = [''600519.SH'', ''000001.SZ'']"
    and b: "request_codes [CodeText ''000001.SZ'', CodeText ''600519.SH''] = Inr b" "map canonical b = [''000001.SZ'', ''600519.SH'']"
    by (auto split: sum.splits)
  have cc: "hc_config (hf_cache demo_fine) = hc_config demo_cache" "hf_cache demo_fine = demo_cache" "hf_config demo_fine = demo_config []"
    by (simp_all add: demo_fine_def demo_hub_def)
  have "limits_ok (hf_config demo_fine)" by (simp add: cc limits_ok_def demo_config_def)
  moreover have "hub_inv (hf_cache demo_fine) Map.empty" by (simp add: cc hub_inv_def demo_cache_def)
  moreover have "sizes_ok (hc_config (hf_cache demo_fine))" by (simp add: cc sizes_ok_def demo_cache_def)
  moreover have "entry_size (hc_config (hf_cache demo_fine)) out = Inr 10" by (simp add: cc entry_size_def demo_cache_def)
  moreover have "10 \<le> hx_max_entry_bytes (hc_config (hf_cache demo_fine))" "10 \<le> hx_max_bytes (hc_config (hf_cache demo_fine))"
    by (simp_all add: cc demo_cache_def)
  moreover have "Some 60 = (case None of None \<Rightarrow> hx_ttl (hc_config (hf_cache demo_fine)) | Some t \<Rightarrow> Some t)" by (simp add: cc demo_cache_def)
  moreover have "\<forall>now \<in> {rd_put (demo_readings 0), rd_contains (demo_readings 5), rd_get (demo_readings 5)}.
      \<not> expired (map_option (\<lambda>t. rd_put (demo_readings 0) + t) (Some 60)) now"
    by (simp add: demo_readings_def expired_def)
  moreover have "mset (map canonical b) = mset (map canonical a)" by (simp only: a b) simp
  moreover have m: "map CodeText [''600519.SH'', ''000001.SZ''] = [CodeText ''600519.SH'', CodeText ''000001.SZ'']"
    "map CodeText [''000001.SZ'', ''600519.SH''] = [CodeText ''000001.SZ'', CodeText ''600519.SH'']" by simp_all
  ultimately obtain h2 where "demo_get [''000001.SZ'', ''600519.SH''] 5 h1 = (h2, Inr (set_attr ''cached'' (ABool True) out))"
    and "he_world (hf_env h2) = he_world (hf_env h1)"
    using repeated_request_served_from_cache [OF g [unfolded demo_get_def m] c, where scodes = a and scodes' = b
        and codes' = "[CodeText ''000001.SZ'', CodeText ''600519.SH'']" and rd' = "demo_readings 5" and ttl' = None] a(1) b(1)
    unfolding demo_get_def m by blast
  with g show ?thesis by blast
qed

end
