(* ===== verification/Facade_Schema.thy ===== *)
theory Facade_Schema
  imports Facade_Properties
begin

text \<open>
  All endpoints of the facade as one type of requests, and what holds of each of them: the columns of every
  answer, cached or loaded, and the cache after a request that fails.
\<close>

subsection \<open>Requests\<close>

datatype hub_request =
    Bars "code_input list" string string string "string option" "string option" "string list option"
  | Snapshot "code_input list" "string list option" "string option"
  | FundNav "code_input list" "string option" "string option" "string option"
  | Reference string "string option"
  | SecurityInfo "code_input list" "string option"
  | IndexWeights "code_input list" string string "string option"
  | Financials "code_input list" string string string "string option"
  | MarketEvents string string string "code_input list option" "string option"
  | TradeCalendar string string "string option"
  | AdjustFactors "code_input list" string string "string option"
  | AdjustmentEvents "code_input list" "string option" "string option" "string option"
  | IntradayBars
  | EdbSeries

fun perform :: "('f, 'c) pandas \<Rightarrow> hub_request \<Rightarrow> bool \<Rightarrow> int option \<Rightarrow> readings \<Rightarrow> (('s, 'f) hub, 'f framed) step" where
  "perform P (Bars codes start end freq adjust source wanted) force ttl rd = get_bars P codes start end freq adjust source wanted force ttl rd"
| "perform P (Snapshot codes wanted source) force ttl rd = get_snapshot P codes wanted source force ttl rd"
| "perform P (FundNav codes start end source) force ttl rd = get_fund_nav P codes start end source force ttl rd"
| "perform P (Reference kind source) force ttl rd = get_reference P kind source force ttl rd"
| "perform P (SecurityInfo codes source) force ttl rd = get_security_info P codes source force ttl rd"
| "perform P (IndexWeights codes start end source) force ttl rd = get_index_weights P codes start end source force ttl rd"
| "perform P (Financials codes kind start end source) force ttl rd = get_financials P codes kind start end source force ttl rd"
| "perform P (MarketEvents kind start end codes source) force ttl rd = get_market_events P kind start end codes source force ttl rd"
| "perform P (TradeCalendar start end source) force ttl rd = get_trade_calendar P start end source force ttl rd"
| "perform P (AdjustFactors codes start end source) force ttl rd = get_adjust_factors P codes start end source force ttl rd"
| "perform P (AdjustmentEvents codes start end source) force ttl rd = get_adjustment_events P codes start end source force ttl rd"
| "perform P IntradayBars force ttl rd = get_intraday_bars"
| "perform P EdbSeries force ttl rd = get_edb_series"

text \<open>The columns of an endpoint's answers; \<open>None\<close>: there is no answer.\<close>

fun schema_of :: "hub_request \<Rightarrow> string list option" where
  "schema_of (Bars _ _ _ _ _ _ _) = Some BARS_COLUMNS"
| "schema_of (Snapshot _ _ _) = Some SNAPSHOT_COLUMNS"
| "schema_of (FundNav _ _ _ _) = Some NAV_COLUMNS"
| "schema_of (Reference kind _) = map_of REFERENCE_COLUMNS kind"
| "schema_of (SecurityInfo _ _) = Some SECURITY_INFO_COLUMNS"
| "schema_of (IndexWeights _ _ _ _) = Some INDEX_WEIGHT_COLUMNS"
| "schema_of (Financials _ kind _ _ _) = map_of FINANCIAL_COLUMNS kind"
| "schema_of (MarketEvents kind _ _ _ _) = map_of MARKET_EVENT_COLUMNS kind"
| "schema_of (TradeCalendar _ _ _) = Some CALENDAR_COLUMNS"
| "schema_of (AdjustFactors _ _ _ _) = Some ADJUST_FACTOR_COLUMNS"
| "schema_of (AdjustmentEvents _ _ _ _) = Some ADJUSTMENT_EVENT_COLUMNS"
| "schema_of IntradayBars = None"
| "schema_of EdbSeries = None"

text \<open>The columns of what the cache holds under a key.\<close>

definition key_schema :: "key_part list \<Rightarrow> string list option" where
  "key_schema key =
     (case key of
        KText name # rest \<Rightarrow>
          if name = ''bars'' then Some BARS_COLUMNS
          else if name = ''snapshot'' then Some SNAPSHOT_COLUMNS
          else if name = ''fund_nav'' then Some NAV_COLUMNS
          else if name = ''security_info'' then Some SECURITY_INFO_COLUMNS
          else if name = ''index_weights'' then Some INDEX_WEIGHT_COLUMNS
          else if name = ''trade_calendar'' then Some CALENDAR_COLUMNS
          else if name = ''adjust_factors'' then Some ADJUST_FACTOR_COLUMNS
          else if name = ''adjustment_events'' then Some ADJUSTMENT_EVENT_COLUMNS
          else (case rest of
                  source # KText kind # others \<Rightarrow>
                    if name = ''reference'' then map_of REFERENCE_COLUMNS kind
                    else if name = ''financials'' then map_of FINANCIAL_COLUMNS kind
                    else if name = ''market_events'' then map_of MARKET_EVENT_COLUMNS kind
                    else None
                | _ \<Rightarrow> None)
      | _ \<Rightarrow> None)"

subsection \<open>The columns of a finished frame\<close>

text \<open>
  What pandas documents of the columns of a selection, of \<open>reindex(columns=...)\<close> and of an assignment to a
  column that is there, for frames without a column twice.
\<close>

definition pandas_columns_ok :: "('f, 'c) pandas \<Rightarrow> bool" where
  "pandas_columns_ok P \<longleftrightarrow>
     (\<forall>cs df. set cs \<subseteq> set (pd_columns P df) \<longrightarrow> pd_columns P (pd_select P cs df) = cs)
     \<and> (\<forall>cs df. pd_columns P (pd_reindex_columns P cs df) = cs)
     \<and> (\<forall>column c df. column \<in> set (pd_columns P df) \<longrightarrow> pd_columns P (pd_set_column P column c df) = pd_columns P df)"

definition schema_ok :: "string list \<Rightarrow> bool" where
  "schema_ok columns \<longleftrightarrow> (''currency'' \<in> set columns \<longrightarrow> ''code'' \<in> set columns)"

lemma parse_dates_columns:
  "pandas_columns_ok P \<Longrightarrow> parse_dates P cs df = Inr df' \<Longrightarrow> pd_columns P df' = pd_columns P df"
  by (induction P cs df rule: parse_dates.induct) (auto simp: pandas_columns_ok_def split: if_splits sum.splits)

lemma finalize_columns:
  assumes "pandas_columns_ok P" and "schema_ok columns" and "finalize_frame P (Some df) columns source cached stamp = Inr out"
  shows "pd_columns P (fr_frame out) = columns"
proof -
  let ?cs = "filter (\<lambda>c. c \<in> set (pd_columns P df)) columns"
  from assms(3) have m: "missing_required columns (pd_columns P df) = []"
    by (auto simp: finalize_frame_def split: if_splits)
  with assms(3) obtain df' where d: "parse_dates P DATE_COLUMNS (pd_select P ?cs df) = Inr df'" and o: "fr_frame out = fill_currency P columns df'"
    by (auto simp: finalize_frame_def map_sum_def split: sum.splits)
  have sel: "pd_columns P (pd_select P ?cs df) = ?cs" 
  proof -
    have "set ?cs \<subseteq> set (pd_columns P df)" by auto
    with assms(1) show ?thesis unfolding pandas_columns_ok_def by blast
  qed
  have c: "pd_columns P df' = ?cs" using parse_dates_columns [OF assms(1) d] sel by simp
  have req: "\<And>x. x \<in> set columns \<Longrightarrow> x \<noteq> ''currency'' \<Longrightarrow> x \<in> set (pd_columns P df)"
    using m by (auto simp: missing_required_def filter_empty_conv)
  show ?thesis
  proof (cases "''currency'' \<in> set columns")
    case True
    with assms(2) have "''code'' \<in> set columns" by (simp add: schema_ok_def)
    then have "''code'' \<in> set (pd_columns P df')" using req [of "''code''"] unfolding c by simp
    then show ?thesis using True assms(1) unfolding o fill_currency_def Let_def pandas_columns_ok_def by simp
  next
    case False
    then have "?cs = columns" using req by (auto simp: filter_id_conv)
    then show ?thesis using False c unfolding o fill_currency_def by simp
  qed
qed

lemma schemas_ok:
  "schema_ok BARS_COLUMNS" "schema_ok SNAPSHOT_COLUMNS" "schema_ok NAV_COLUMNS" "schema_ok CALENDAR_COLUMNS"
  "schema_ok SECURITY_INFO_COLUMNS" "schema_ok INDEX_WEIGHT_COLUMNS" "schema_ok ADJUST_FACTOR_COLUMNS" "schema_ok ADJUSTMENT_EVENT_COLUMNS"
  by (simp_all add: schema_ok_def column_defs)

lemma kind_in_table: "\<forall>columns \<in> set (dict_values table). schema_ok columns \<Longrightarrow> map_of table kind = Some columns \<Longrightarrow> schema_ok columns"
  by (force dest: map_of_SomeD)

lemma kinds_ok:
  shows "map_of REFERENCE_COLUMNS kind = Some columns \<Longrightarrow> schema_ok columns"
    and "map_of FINANCIAL_COLUMNS kind = Some columns \<Longrightarrow> schema_ok columns"
    and "map_of MARKET_EVENT_COLUMNS kind = Some columns \<Longrightarrow> schema_ok columns"
proof -
  have "\<forall>columns \<in> set (dict_values REFERENCE_COLUMNS). schema_ok columns" by (simp add: schema_ok_def column_defs)
  then show "map_of REFERENCE_COLUMNS kind = Some columns \<Longrightarrow> schema_ok columns" by (rule kind_in_table)
  have "\<forall>columns \<in> set (dict_values FINANCIAL_COLUMNS). schema_ok columns" by (simp add: schema_ok_def column_defs)
  then show "map_of FINANCIAL_COLUMNS kind = Some columns \<Longrightarrow> schema_ok columns" by (rule kind_in_table)
  have "\<forall>columns \<in> set (dict_values MARKET_EVENT_COLUMNS). schema_ok columns" by (simp add: schema_ok_def column_defs)
  then show "map_of MARKET_EVENT_COLUMNS kind = Some columns \<Longrightarrow> schema_ok columns" by (rule kind_in_table)
qed

subsection \<open>Requests and the cache\<close>

lemma hub_get_value: "hub_get key now c = (c1, Some v) \<Longrightarrow> \<exists>e. (key, v, e) \<in> set (hc_entries c)"
  by (auto simp: hub_get_def Let_def split: option.splits if_splits) (blast dest: map_of_SomeD)

lemma hub_get_subset: "hub_get key now c = (c1, r) \<Longrightarrow> set (hc_entries c1) \<subseteq> set (hc_entries c)"
  using hub_get_entries [of key now c] by simp

lemma hub_put_result: "hub_put key v ttl now c = (c1, r) \<Longrightarrow> set (hc_entries c1) \<subseteq> set (hc_entries c) \<union> {(k, w, e). k = key \<and> w = v}"
  using hub_put_subset [of key v ttl now c] by simp

text \<open>What a run of \<open>get_or_load\<close> does to the entries: a load adds at most its own, a failure none.\<close>

definition cache_outcome ::
  "'k \<Rightarrow> ('s \<Rightarrow> 's \<times> 'v result) \<Rightarrow> 's \<Rightarrow> ('k, 'v) hub_cache \<Rightarrow> ('k, 'v) hub_cache \<Rightarrow> 'v result \<Rightarrow> bool" where
  "cache_outcome key loader s c c' r \<longleftrightarrow>
     set (hc_entries c') \<subseteq> set (hc_entries c) \<union> {(k, v, e). k = key \<and> (\<exists>t. loader s = (t, Inr v))}
     \<and> (\<forall>v. r = Inr v \<longrightarrow> (\<exists>e. (key, v, e) \<in> set (hc_entries c)) \<or> (\<exists>t. loader s = (t, Inr v)))
     \<and> (\<forall>err. r = Inl err \<longrightarrow> set (hc_entries c') \<subseteq> set (hc_entries c))"

lemma cache_outcome_mono:
  assumes "cache_outcome key loader s c1 c' r" and "set (hc_entries c1) \<subseteq> set (hc_entries c)"
  shows "cache_outcome key loader s c c' r"
proof -
  note o = assms(1) [unfolded cache_outcome_def]
  have "set (hc_entries c') \<subseteq> set (hc_entries c) \<union> {(k, v, e). k = key \<and> (\<exists>t. loader s = (t, Inr v))}"
    using o [THEN conjunct1] assms(2) by (rule subset_trans [OF _ Un_mono [OF _ subset_refl]])
  moreover have "\<forall>v. r = Inr v \<longrightarrow> (\<exists>e. (key, v, e) \<in> set (hc_entries c)) \<or> (\<exists>t. loader s = (t, Inr v))"
    using o [THEN conjunct2, THEN conjunct1] subsetD [OF assms(2)] by blast
  moreover have "\<forall>err. r = Inl err \<longrightarrow> set (hc_entries c') \<subseteq> set (hc_entries c)"
    using o [THEN conjunct2, THEN conjunct2] assms(2) by blast
  ultimately show ?thesis unfolding cache_outcome_def by blast
qed

lemma load_outcome:
  assumes "(case loader s of
            (s', Inl e) \<Rightarrow> (c, s', True, Inl e)
          | (s', Inr v) \<Rightarrow> (case hub_put key v ttl later c of
               (c', Inl e) \<Rightarrow> (c', s', True, Inl e)
             | (c', Inr _) \<Rightarrow> (c', s', True, Inr v))) = (c', s', did, r)"
  shows "cache_outcome key loader s c c' r"
proof -
  obtain t x where l: "loader s = (t, x)" by (cases "loader s")
  show ?thesis
  proof (cases x)
    case (Inl err)
    with assms l show ?thesis by (simp add: cache_outcome_def)
  next
    case (Inr v)
    obtain c1 y where p: "hub_put key v ttl later c = (c1, y)" by (cases "hub_put key v ttl later c")
    with assms l Inr have c: "c' = c1" and r: "r = map_sum id (\<lambda>_. v) y" by (auto split: sum.splits)
    show ?thesis
    proof (cases y)
      case (Inl err)
      have "c1 = c" using hub_put_error [OF p [unfolded Inl]] .
      with c r Inl show ?thesis by (simp add: cache_outcome_def)
    next
      case (Inr b)
      with c r l \<open>x = Inr v\<close> hub_put_result [OF p] show ?thesis by (auto simp: cache_outcome_def)
    qed
  qed
qed

lemma get_or_load_outcome:
  assumes "hub_get_or_load key loader force ttl now later c s = (c', s', did, r)"
  shows "cache_outcome key loader s c c' r"
proof (cases force)
  case True
  with assms show ?thesis by (intro load_outcome) (simp add: hub_get_or_load_def Let_def)
next
  case False
  obtain c1 x where g1: "hub_get key now c = (c1, x)" by (cases "hub_get key now c")
  note s1 = hub_get_subset [OF g1]
  show ?thesis
  proof (cases x)
    case (Some v)
    with False g1 assms have "c' = c1" "r = Inr v" by (simp_all add: hub_get_or_load_def)
    with hub_get_value [OF g1 [unfolded Some]] s1 show ?thesis by (auto simp: cache_outcome_def)
  next
    case None
    obtain c2 y where g2: "hub_get key now c1 = (c2, y)" by (cases "hub_get key now c1")
    note s2 = hub_get_subset [OF g2]
    show ?thesis
    proof (cases y)
      case (Some v)
      with False None g1 g2 assms have "c' = c2" "r = Inr v" by (simp_all add: hub_get_or_load_def)
      with hub_get_value [OF g2 [unfolded Some]] s1 s2 show ?thesis by (auto simp: cache_outcome_def)
    next
      case N: None
      have "cache_outcome key loader s c2 c' r"
        using False None N g1 g2 assms by (intro load_outcome) (simp add: hub_get_or_load_def Let_def)
      from cache_outcome_mono [OF this order_trans [OF s2 s1]] show ?thesis .
    qed
  qed
qed

text \<open>What a request that fails does to the entries: nothing, or it drops the one under its key that had
  expired by one of its readings of the clock.\<close>

definition dropped :: "'k \<Rightarrow> int set \<Rightarrow> ('k, 'v) hub_cache \<Rightarrow> ('k, 'v) hub_cache \<Rightarrow> bool" where
  "dropped key readings c c' \<longleftrightarrow> hc_entries c' = hc_entries c
     \<or> (\<exists>v t. map_of (hc_entries c) key = Some (v, Some t) \<and> (\<exists>now \<in> readings. t \<le> now)
          \<and> hc_entries c' = AList.delete key (hc_entries c))"

lemma dropped_trans:
  assumes "dropped key A c c1" and "dropped key B c1 c2"
  shows "dropped key (A \<union> B) c c2"
proof (cases "hc_entries c1 = hc_entries c")
  case True
  with assms(2) show ?thesis by (auto simp: dropped_def)
next
  case False
  with assms(1) have d: "hc_entries c1 = AList.delete key (hc_entries c)" unfolding dropped_def by blast
  then have "map_of (hc_entries c1) key = None" by (simp add: delete_conv')
  with assms(2) have "hc_entries c2 = hc_entries c1" by (simp add: dropped_def)
  with assms(1) show ?thesis by (auto simp: dropped_def)
qed

lemma dropped_contains: "hub_contains key now c = (c1, hit) \<Longrightarrow> dropped key {now} c c1"
  by (auto simp: hub_contains_def hub_remove_def dropped_def expired_def split: option.splits if_splits)

lemma dropped_get: "hub_get key now c = (c1, None) \<Longrightarrow> dropped key {now} c c1"
  by (auto simp: hub_get_def hub_remove_def dropped_def expired_def Let_def split: option.splits if_splits)

lemma dropped_load:
  assumes "hub_get_or_load key loader force ttl now later c s = (c', s', did, Inl err)"
  shows "dropped key (if force then {} else {now}) c c'"
proof -
  let ?load = "\<lambda>c. case loader s of
            (s', Inl e) \<Rightarrow> (c, s', True, Inl e)
          | (s', Inr v) \<Rightarrow> (case hub_put key v ttl later c of
               (c', Inl e) \<Rightarrow> (c', s', True, Inl e)
             | (c', Inr _) \<Rightarrow> (c', s', True, Inr v))"
  have load: "c' = c1" if "?load c1 = (c', s', did, Inl err)" for c1
    using that by (auto split: prod.splits sum.splits dest: hub_put_error)
  show ?thesis
  proof (cases force)
    case True
    with assms load [of c] show ?thesis by (simp add: hub_get_or_load_def Let_def dropped_def)
  next
    case False
    obtain c1 x where g1: "hub_get key now c = (c1, x)" by (metis prod.exhaust)
    obtain c2 y where g2: "hub_get key now c1 = (c2, y)" by (metis prod.exhaust)
    have x: "x = None" using assms False g1 by (cases x) (simp_all add: hub_get_or_load_def)
    have y: "y = None" using assms False g1 x g2 by (cases y) (simp_all add: hub_get_or_load_def)
    have "c' = c2" using assms False g1 g2 x y by (intro load) (simp add: hub_get_or_load_def Let_def)
    with dropped_trans [OF dropped_get [OF g1 [unfolded x]] dropped_get [OF g2 [unfolded y]]] False show ?thesis by simp
  qed
qed

lemma failed_request_drops:
  assumes "cached_request key force ttl rd load h = (h', Inl err)"
  shows "dropped key (if force then {} else {rd_contains rd, rd_get rd}) (hf_cache h) (hf_cache h')
    \<and> hf_config h' = hf_config h \<and> hf_registry h' = hf_registry h"
proof -
  obtain c hit where p: "(if force then (hf_cache h, False) else hub_contains key (rd_contains rd) (hf_cache h)) = (c, hit)"
    by (metis prod.exhaust)
  obtain c' e' did r0 where g: "hub_get_or_load key (load hit) force ttl (rd_get rd) (rd_put rd) c (hf_env h) = (c', e', did, r0)"
    by (metis prod.exhaust)
  have r: "r0 = Inl err" using assms p g by (cases r0) (simp_all add: cached_request_def)
  have h': "hf_cache h' = c' \<and> hf_config h' = hf_config h \<and> hf_registry h' = hf_registry h"
    using assms p g by (auto simp: cached_request_def)
  have 1: "dropped key (if force then {} else {rd_contains rd}) (hf_cache h) c"
    using p dropped_contains [of key "rd_contains rd" "hf_cache h" c hit] by (cases force) (simp_all add: dropped_def)
  from dropped_trans [OF 1 dropped_load [OF g [unfolded r]]] h' show ?thesis by (cases force) (simp_all add: insert_commute)
qed

lemma cached_request_outcome:
  assumes "cached_request key force ttl rd load h = (h', r)"
  obtains hit r0 where "cache_outcome key (load hit) (hf_env h) (hf_cache h) (hf_cache h') r0"
    and "r = map_sum id (set_attr ''cached'' (ABool hit)) r0"
    and "hf_config h' = hf_config h" and "hf_registry h' = hf_registry h"
proof -
  obtain c hit where p: "(if force then (hf_cache h, False) else hub_contains key (rd_contains rd) (hf_cache h)) = (c, hit)"
    by (metis prod.exhaust)
  obtain c' e' did r0 where g: "hub_get_or_load key (load hit) force ttl (rd_get rd) (rd_put rd) c (hf_env h) = (c', e', did, r0)"
    by (metis prod.exhaust)
  have "set (hc_entries c) \<subseteq> set (hc_entries (hf_cache h))"
    using p hub_contains_entries [of key "rd_contains rd" "hf_cache h"] by (auto split: if_splits)
  from cache_outcome_mono [OF get_or_load_outcome [OF g] this] show ?thesis
    using assms p g that by (auto simp: cached_request_def)
qed


subsection \<open>The shape of a request\<close>

text \<open>
  A request fails before it looks at the cache, or is one cached request, under a key of its schema and with
  a load that yields frames of its schema.
\<close>

definition request_outcome ::
  "('f, 'c) pandas \<Rightarrow> bool \<Rightarrow> readings \<Rightarrow> string list option \<Rightarrow> ('s, 'f) hub \<Rightarrow> ('s, 'f) hub \<Rightarrow> 'f framed result \<Rightarrow> bool" where
  "request_outcome P force rd schema h h' r \<longleftrightarrow>
     (\<exists>err. r = Inl err \<and> same_hub h h')
     \<or> (\<exists>h1 key load ttl. same_hub h h1 \<and> cached_request key force ttl rd load h1 = (h', r) \<and> schema \<noteq> None \<and> key_schema key = schema
          \<and> (pandas_columns_ok P \<longrightarrow> (\<forall>hit e e' out. load hit e = (e', Inr out) \<longrightarrow> schema = Some (pd_columns P (fr_frame out)))))"

definition shaped :: "('f, 'c) pandas \<Rightarrow> bool \<Rightarrow> readings \<Rightarrow> string list option \<Rightarrow> (('s, 'f) hub, 'f framed) step \<Rightarrow> bool" where
  "shaped P force rd schema f \<longleftrightarrow> (\<forall>h h' r. f h = (h', r) \<longrightarrow> request_outcome P force rd schema h h' r)"

lemma request_outcome_before:
  assumes "same_hub h h1" and "request_outcome P force rd schema h1 h' r"
  shows "request_outcome P force rd schema h h' r"
proof (cases "\<exists>err. r = Inl err \<and> same_hub h1 h'")
  case True
  with same_hub_trans [OF assms(1)] show ?thesis unfolding request_outcome_def by blast
next
  case False
  with assms(2) obtain h2 key load ttl where "same_hub h1 h2" and c: "cached_request key force ttl rd load h2 = (h', r)"
    and k: "schema \<noteq> None" "key_schema key = schema"
    and l: "pandas_columns_ok P \<longrightarrow> (\<forall>hit e e' out. load hit e = (e', Inr out) \<longrightarrow> schema = Some (pd_columns P (fr_frame out)))"
    unfolding request_outcome_def by blast
  from same_hub_trans [OF assms(1) this(1)] c k l show ?thesis unfolding request_outcome_def by blast
qed

lemma shaped_throw: "shaped P force rd schema (throw err)"
  by (simp add: shaped_def request_outcome_def)

lemma shaped_and_then:
  fixes m m' :: "(('s, 'f) hub, 'a) step"
  assumes "prep m m'" and "\<And>h h1 x. m h = (h1, Inr x) \<Longrightarrow> shaped P force rd schema (f x)"
  shows "shaped P force rd schema (and_then m f)"
  unfolding shaped_def
proof (intro allI impI)
  fix h h' :: "('s, 'f) hub" and r
  assume a: "and_then m f h = (h', r)"
  obtain h1 x where m: "m h = (h1, x)" by (cases "m h")
  note s = prep_same [OF assms(1) m]
  show "request_outcome P force rd schema h h' r"
  proof (cases x)
    case (Inl err)
    with a m have "h' = h1" "r = Inl err" by (simp_all add: and_then_def)
    with s show ?thesis by (simp add: request_outcome_def)
  next
    case (Inr y)
    with a m have "f y h1 = (h', r)" by (simp add: and_then_def)
    with assms(2) [OF m [unfolded Inr]] have "request_outcome P force rd schema h1 h' r" unfolding shaped_def by blast
    with s show ?thesis by (rule request_outcome_before)
  qed
qed

lemma shaped_cached:
  assumes "key_schema key = Some columns" and "\<And>hit e e' out. pandas_columns_ok P \<Longrightarrow> load hit e = (e', Inr out) \<Longrightarrow> pd_columns P (fr_frame out) = columns"
  shows "shaped P force rd (Some columns) (cached_request key force ttl rd load)"
  using assms unfolding shaped_def request_outcome_def by (metis option.distinct(1) same_hub_refl)

lemma load_chunks_columns:
  assumes "pandas_columns_ok P" and "schema_ok columns"
    and "load_chunks P fetch chunks dedupe_on sort_by columns source stamp hit e = (e', Inr out)"
  shows "pd_columns P (fr_frame out) = columns"
  using assms(3) by (auto simp: load_chunks_def and_then_Inr intro: finalize_columns [OF assms(1,2)])

lemma load_single_columns:
  assumes "pandas_columns_ok P" and "schema_ok columns" and "load_single P fetch columns source stamp hit e = (e', Inr out)"
  shows "pd_columns P (fr_frame out) = columns"
  using assms(3) by (auto simp: load_single_def and_then_Inr intro: finalize_columns [OF assms(1,2)])

lemma bars_load_columns:
  assumes "pandas_columns_ok P" and "bars_load P scodes start end freq adjust wanted stamp x hit e = (e', Inr out)"
  shows "pd_columns P (fr_frame out) = BARS_COLUMNS"
proof -
  obtain resolved plan primary factor fallbacks ff where x: "x = (resolved, plan, primary, factor, fallbacks, ff)" by (cases x)
  show ?thesis
    using assms(2) unfolding x bars_load_def prod.case
    by (rule load_bars_Inr) (simp add: finalize_columns [OF assms(1) schemas_ok(1)])
qed

lemma shaped_by_codes:
  assumes "prep resolve resolve'" and "schema_ok columns" and "\<And>s cs. key_schema (key s cs) = Some columns"
  shows "shaped P force rd (Some columns) (request_by_codes P resolve c codes key fetch dedupe_on sort_by columns force ttl rd)"
  unfolding request_by_codes_def
  by (intro shaped_and_then [OF assms(1)] shaped_and_then [OF prep_of_result] shaped_and_then [OF prep_adapter_of] shaped_cached assms(3))
    (rule load_chunks_columns [OF _ assms(2)])

lemma columns_of_kind_Inr: "columns_of_kind table kind = Inr columns \<longleftrightarrow> map_of table kind = Some columns"
  by (simp add: columns_of_kind_def split: option.split)

lemma shaped_bars:
  shows "shaped P force rd (Some BARS_COLUMNS) (get_bars P codes start end freq adjust source wanted force ttl rd)"
proof (cases "request_codes codes")
  case (Inr scodes)
  show ?thesis unfolding get_bars_setup [OF Inr]
    by (intro shaped_and_then [OF prep_bars_setup] shaped_cached) (auto simp: bars_key_def key_schema_def bars_load_columns)
next
  case (Inl err)
  show ?thesis unfolding get_bars_def Inl
    by (intro shaped_and_then [OF prep_resolve] shaped_and_then [OF prep_of_result]) simp
qed

lemma shaped_events:
  fixes P :: "('f, 'c) pandas"
  shows "shaped P force rd (map_of MARKET_EVENT_COLUMNS kind) (get_market_events P kind start end codes source force ttl rd :: (('s, 'f) hub, 'f framed) step)"
  unfolding get_market_events_def
proof (rule shaped_and_then [OF prep_of_result])
  fix h h1 :: "('s, 'f) hub" and columns
  assume "of_result (market_event_columns kind) h = (h1, Inr columns)"
  then have k: "map_of MARKET_EVENT_COLUMNS kind = Some columns" by (simp add: market_event_columns_def columns_of_kind_Inr)
  show "shaped P force rd (map_of MARKET_EVENT_COLUMNS kind)
     (and_then (resolve_source source) (\<lambda>resolved.
     and_then (of_result (event_codes codes)) (\<lambda>scodes.
     and_then (adapter_of resolved MARKET_EVENTS (rd_mono rd)) (\<lambda>a.
       let keys = dict_get EVENT_KEYS kind [''code'', ''date'']
       in cached_request [KText ''market_events'', KText (source_value resolved), KText kind, code_part scodes, KText start, KText end]
            force ttl rd
            (load_chunks P (\<lambda>chunk. fetch_market_events a kind start end (if chunk = [] then None else Some chunk))
               (if scodes = [] then [[]] else split_codes resolved MARKET_EVENTS scodes)
               keys keys columns resolved (rd_stamp rd))))))"
    unfolding k Let_def
    by (intro shaped_and_then [OF prep_resolve] shaped_and_then [OF prep_of_result] shaped_and_then [OF prep_adapter_of] shaped_cached)
      (simp add: key_schema_def k, rule load_chunks_columns [OF _ kinds_ok(3) [OF k]])
qed

lemma shaped_financials:
  fixes P :: "('f, 'c) pandas"
  shows "shaped P force rd (map_of FINANCIAL_COLUMNS kind) (get_financials P codes kind start end source force ttl rd :: (('s, 'f) hub, 'f framed) step)"
  unfolding get_financials_def
proof (rule shaped_and_then [OF prep_of_result])
  fix h h1 :: "('s, 'f) hub" and columns
  assume "of_result (financial_columns kind) h = (h1, Inr columns)"
  then have k: "map_of FINANCIAL_COLUMNS kind = Some columns" by (simp add: financial_columns_def columns_of_kind_Inr)
  show "shaped P force rd (map_of FINANCIAL_COLUMNS kind) (request_by_codes P (resolve_source source) FINANCIALS codes
         (\<lambda>s cs. [KText ''financials'', KText s, KText kind, cs, KText start, KText end])
         (\<lambda>a chunk. fetch_financials a chunk kind start end)
         [''code'', ''ann_date'', ''end_date'', ''report_type''] [''code'', ''ann_date'', ''end_date''] columns force ttl rd)"
    unfolding k by (rule shaped_by_codes [OF prep_resolve kinds_ok(2) [OF k]]) (simp add: key_schema_def k)
qed

lemma shaped_reference:
  fixes P :: "('f, 'c) pandas"
  shows "shaped P force rd (map_of REFERENCE_COLUMNS kind) (get_reference P kind source force ttl rd :: (('s, 'f) hub, 'f framed) step)"
  unfolding get_reference_def
proof (rule shaped_and_then [OF prep_of_result])
  fix h h1 :: "('s, 'f) hub" and columns
  assume "of_result (reference_columns kind) h = (h1, Inr columns)"
  then have k: "map_of REFERENCE_COLUMNS kind = Some columns" by (simp add: reference_columns_def columns_of_kind_Inr)
  show "shaped P force rd (map_of REFERENCE_COLUMNS kind)
     (and_then (resolve_source source) (\<lambda>resolved.
     and_then (adapter_of resolved REFERENCE (rd_mono rd)) (\<lambda>a.
       cached_request [KText ''reference'', KText (source_value resolved), KText kind] force ttl rd
         (load_single P (fetch_reference a kind) columns resolved (rd_stamp rd)))))"
    unfolding k by (intro shaped_and_then [OF prep_resolve] shaped_and_then [OF prep_adapter_of] shaped_cached)
      (simp add: key_schema_def k, rule load_single_columns [OF _ kinds_ok(1) [OF k]])
qed

lemma shaped_calendar:
  shows "shaped P force rd (Some CALENDAR_COLUMNS) (get_trade_calendar P start end source force ttl rd)"
  unfolding get_trade_calendar_def
  by (intro shaped_and_then [OF prep_resolve] shaped_and_then [OF prep_adapter_of] shaped_cached)
    (simp add: key_schema_def, rule load_single_columns [OF _ schemas_ok(4)])

lemma perform_shaped:
  shows "shaped P force rd (schema_of req) (perform P req force ttl rd)"
  by (cases req)
    (auto simp: shaped_bars shaped_events shaped_financials shaped_reference shaped_calendar key_schema_def shaped_throw
       get_snapshot_def get_fund_nav_def get_security_info_def get_index_weights_def get_adjust_factors_def get_adjustment_events_def
       get_intraday_bars_def get_edb_series_def schemas_ok
       intro!: shaped_by_codes [OF prep_resolve] shaped_by_codes [OF prep_resolve_factor])


subsection \<open>Sequences of requests\<close>

type_synonym hub_calls = "(hub_request \<times> bool \<times> int option \<times> readings) list"

fun serve :: "('f, 'c) pandas \<Rightarrow> hub_calls \<Rightarrow> ('s, 'f) hub \<Rightarrow> ('s, 'f) hub \<times> 'f framed result list" where
  "serve P [] h = (h, [])"
| "serve P ((req, force, ttl, rd) # calls) h =
     (case perform P req force ttl rd h of (h1, r) \<Rightarrow> (case serve P calls h1 of (h2, rs) \<Rightarrow> (h2, r # rs)))"

definition frames_ok :: "('f, 'c) pandas \<Rightarrow> ('s, 'f) hub \<Rightarrow> bool" where
  "frames_ok P h \<longleftrightarrow> (\<forall>(k, v, e) \<in> set (hc_entries (hf_cache h)). key_schema k = Some (pd_columns P (fr_frame v)))"

lemma perform_frames_ok:
  assumes "pandas_columns_ok P" and "frames_ok P h" and "perform P req force ttl rd h = (h', r)"
  shows "frames_ok P h' \<and> (\<forall>out. r = Inr out \<longrightarrow> schema_of req = Some (pd_columns P (fr_frame out)))"
proof -
  have "request_outcome P force rd (schema_of req) h h' r" using perform_shaped assms(3) unfolding shaped_def by blast
  then consider (early) err where "r = Inl err" "same_hub h h'"
    | (cached) h1 key load ttl where "same_hub h h1" "cached_request key force ttl rd load h1 = (h', r)" "schema_of req \<noteq> None"
        "key_schema key = schema_of req" "\<forall>hit e e' out. load hit e = (e', Inr out) \<longrightarrow> schema_of req = Some (pd_columns P (fr_frame out))"
    using assms(1) unfolding request_outcome_def by blast
  then show ?thesis
  proof cases
    case early
    with assms(2) show ?thesis by (simp add: frames_ok_def same_hub_def)
  next
    case cached
    obtain hit r0 where o: "cache_outcome key (load hit) (hf_env h1) (hf_cache h1) (hf_cache h') r0"
      and r: "r = map_sum id (set_attr ''cached'' (ABool hit)) r0" by (rule cached_request_outcome [OF cached(2)])
    have h1: "frames_ok P h1" using assms(2) cached(1) by (simp add: frames_ok_def same_hub_def)
    have ok: "key_schema k = Some (pd_columns P (fr_frame v))" if "(k, v, e) \<in> set (hc_entries (hf_cache h1))" for k v e
      using h1 that by (auto simp: frames_ok_def)
    have load: "key_schema key = Some (pd_columns P (fr_frame v))" if "load hit (hf_env h1) = (t, Inr v)" for t v
      using cached(4,5) that by metis
    have "frames_ok P h'" unfolding frames_ok_def
    proof (clarify)
      fix k v e assume "(k, v, e) \<in> set (hc_entries (hf_cache h'))"
      with o have "(k, v, e) \<in> set (hc_entries (hf_cache h1)) \<or> k = key \<and> (\<exists>t. load hit (hf_env h1) = (t, Inr v))"
        unfolding cache_outcome_def by blast
      with ok load show "key_schema k = Some (pd_columns P (fr_frame v))" by blast
    qed
    moreover have "schema_of req = Some (pd_columns P (fr_frame out))" if "r = Inr out" for out
    proof -
      from that r have "map_sum id (set_attr ''cached'' (ABool hit)) r0 = Inr out" by simp
      then obtain v where v: "r0 = Inr v" "out = set_attr ''cached'' (ABool hit) v" by (cases r0) auto
      with o have "(\<exists>e. (key, v, e) \<in> set (hc_entries (hf_cache h1))) \<or> (\<exists>t. load hit (hf_env h1) = (t, Inr v))"
        unfolding cache_outcome_def by blast
      with ok load cached(4) v(2) show ?thesis by auto
    qed
    ultimately show ?thesis by blast
  qed
qed

lemma new_hub_frames_ok: "new_hub size_fn world cfg r = Inr h \<Longrightarrow> frames_ok P h"
  by (auto simp: new_hub_def new_hub_cache_def map_sum_def frames_ok_def split: sum.splits if_splits)

lemma serve_schemas:
  "pandas_columns_ok P \<Longrightarrow> frames_ok P h \<Longrightarrow> serve P calls h = (h', rs) \<Longrightarrow>
    frames_ok P h' \<and> list_all2 (\<lambda>(req, _) r. \<forall>out. r = Inr out \<longrightarrow> schema_of req = Some (pd_columns P (fr_frame out))) calls rs"
proof (induction calls arbitrary: h h' rs)
  case (Cons c calls)
  obtain req force ttl rd where c: "c = (req, force, ttl, rd)" by (cases c)
  obtain h1 r where p: "perform P req force ttl rd h = (h1, r)" by (metis prod.exhaust)
  obtain h2 rs1 where s: "serve P calls h1 = (h2, rs1)" by (metis prod.exhaust)
  from Cons.prems(3) c p s have e: "h' = h2" "rs = r # rs1" by simp_all
  note o = perform_frames_ok [OF Cons.prems(1,2) p]
  from Cons.IH [OF Cons.prems(1) conjunct1 [OF o] s] o show ?case by (simp add: e c)
qed simp

text \<open>C35. Whatever requests a new hub is sent, in any order and against any sources, every answer has exactly
  the columns of its endpoint, in their order, whether it was loaded or comes from the cache.
\<close>

theorem every_answer_has_its_columns:
  assumes "pandas_columns_ok P" and "new_hub size_fn world cfg reg = Inr h" and "serve P calls h = (h', rs)"
  shows "list_all2 (\<lambda>(req, _) r. \<forall>out. r = Inr out \<longrightarrow> schema_of req = Some (pd_columns P (fr_frame out))) calls rs"
  using serve_schemas [OF assms(1) new_hub_frames_ok [OF assms(2)] assms(3)] by blast

text \<open>C36. A request that fails, at any endpoint and for any reason, leaves the cache's entries as they were,
  with one exception: an entry under the one key the request asked for, a key of its endpoint's
  columns, which had expired by a reading of the clock during the request, is removed, unless the
  request was forced, which removes nothing.  Configuration and registry stay as they were.\<close>

theorem failed_request_stores_nothing:
  assumes "perform P req force ttl rd h = (h', Inl err)"
  shows "(hc_entries (hf_cache h') = hc_entries (hf_cache h)
      \<or> \<not> force \<and> (\<exists>key v t. key_schema key = schema_of req \<and> map_of (hc_entries (hf_cache h)) key = Some (v, Some t)
           \<and> (t \<le> rd_contains rd \<or> t \<le> rd_get rd)
           \<and> hc_entries (hf_cache h') = AList.delete key (hc_entries (hf_cache h))))
    \<and> hf_config h' = hf_config h \<and> hf_registry h' = hf_registry h"
proof -
  have "request_outcome P force rd (schema_of req) h h' (Inl err)" using perform_shaped assms unfolding shaped_def by blast
  then consider (early) "same_hub h h'"
    | (cached) h1 key load ttl where "same_hub h h1" "cached_request key force ttl rd load h1 = (h', Inl err)" "key_schema key = schema_of req"
    unfolding request_outcome_def by blast
  then show ?thesis
  proof cases
    case early
    then show ?thesis by (simp add: same_hub_def)
  next
    case cached
    from failed_request_drops [OF cached(2)] cached(1,3) show ?thesis
      by (cases force) (auto simp: dropped_def same_hub_def)
  qed
qed

lemma demo_pandas_columns: "pandas_columns_ok demo_pandas"
  by (simp add: pandas_columns_ok_def demo_pandas_def)

definition demo_calls :: hub_calls where
  "demo_calls =
     [(Bars [CodeText ''600519.SH''] ''20240101'' ''20240131'' ''1d'' None None None, False, None, demo_readings 0),
      (TradeCalendar ''20240101'' ''20240131'' None, False, None, demo_readings 1),
      (Bars [CodeText ''600519.SH''] ''20240101'' ''20240131'' ''1d'' None None None, False, None, demo_readings 2)]"

text \<open>Bars, the calendar, and the bars again, sent to a new hub of two sources.\<close>

theorem every_answer_has_its_columns_witness:
  "\<exists>h h' rs. new_hub (\<lambda>v. Inr 10) [] (demo_config []) (new_registry [demo_adapter FUYAO (Inr demo_bars)]) = Inr h
    \<and> serve demo_pandas demo_calls h = (h', rs)
    \<and> list_all2 (\<lambda>(req, _) r. \<forall>out. r = Inr out \<longrightarrow> schema_of req = Some (fr_frame out)) demo_calls rs"
proof -
  obtain h where h: "new_hub (\<lambda>v :: string list framed. Inr 10) [] (demo_config []) (new_registry [demo_adapter FUYAO (Inr demo_bars)]) = Inr h"
    by (simp add: new_hub_def new_hub_cache_def demo_config_def default_cache_settings_def)
  obtain h' rs where s: "serve demo_pandas demo_calls h = (h', rs)" by (metis prod.exhaust)
  have e: "pd_columns demo_pandas = (\<lambda>df. df)" by (simp add: demo_pandas_def)
  from h s every_answer_has_its_columns [OF demo_pandas_columns h s, unfolded e] show ?thesis by blast
qed

text \<open>Both sources are out of reach, and the frame cached under the key expired at the time of the request.\<close>

definition stale_hub :: "(string list, string list) hub" where
  "stale_hub = (demo_hub [] (Inl NetworkError) (Inl NetworkError))\<lparr>hf_cache := demo_cache\<lparr>hc_entries :=
     [([KText ''bars'', KText ''fuyao'', KTexts [''600519.SH''], KText ''20240101'', KText ''20240131'', KText ''1d'', KNone, KTexts []],
       \<lparr>fr_frame = BARS_COLUMNS, fr_attrs = []\<rparr>, Some 5)]\<rparr>\<rparr>"

theorem failed_request_stores_nothing_witness:
  "\<exists>h'. demo_get [''600519.SH''] 7 stale_hub = (h', Inl SourceError) \<and> hc_entries (hf_cache h') = []
    \<and> (hc_entries (hf_cache h') = hc_entries (hf_cache stale_hub)
      \<or> \<not> False \<and> (\<exists>key v t. key_schema key = Some BARS_COLUMNS \<and> map_of (hc_entries (hf_cache stale_hub)) key = Some (v, Some t) \<and> t \<le> 7
           \<and> hc_entries (hf_cache h') = AList.delete key (hc_entries (hf_cache stale_hub))))"
proof -
  have "case demo_get [''600519.SH''] 7 stale_hub of (h', Inl err) \<Rightarrow> err = SourceError \<and> hc_entries (hf_cache h') = [] | _ \<Rightarrow> False"
    by code_simp
  then obtain h' where g: "demo_get [''600519.SH''] 7 stale_hub = (h', Inl SourceError)" and e: "hc_entries (hf_cache h') = []"
    by (cases "demo_get [''600519.SH''] 7 stale_hub") (auto split: sum.splits)
  have p: "perform demo_pandas (Bars (map CodeText [''600519.SH'']) ''20240101'' ''20240131'' ''1d'' None (Some ''fuyao'') None)
      False None (demo_readings 7) stale_hub = (h', Inl SourceError)" using g by (simp add: demo_get_def)
  have s: "schema_of (Bars (map CodeText [''600519.SH'']) ''20240101'' ''20240131'' ''1d'' None (Some ''fuyao'') None) = Some BARS_COLUMNS"
    "rd_contains (demo_readings 7) = 7" "rd_get (demo_readings 7) = 7" by (simp_all add: demo_readings_def)
  from failed_request_stores_nothing [OF p, THEN conjunct1, unfolded s] g e show ?thesis by auto
qed

end
