(* ===== verification/Hub_Specs.thy ===== *)
theory Hub_Specs
  imports Complex_Main Hub_Schemas
begin

text \<open>
  The normalisation of a source's answer (\<open>specs/__init__.py\<close>) and the specs shipped with it, one per data
  source, transcribed from the TOML files beside it.  Names that are not ASCII are their UTF-8 bytes.  The
  operations on data frames that only the sources use are the fields of \<open>tables\<close>, a parameter like \<open>pandas\<close>.
\<close>

subsection \<open>Specs\<close>

record field_spec =
  fs_source :: string
  fs_type :: string
  fs_factor :: rat
  fs_format :: "string option"
  fs_optional :: bool

record response_spec =
  rs_required :: "string list"
  rs_fields :: "(string, field_spec) dict"

record source_spec =
  ss_source :: source
  ss_params :: "(string, (string, string) dict) dict"
  ss_responses :: "(string, response_spec) dict"

text \<open>What \<open>load_spec\<close> reads a field's table as, with the defaults for the keys it leaves out.\<close>

definition field_block :: "string \<Rightarrow> string option \<Rightarrow> rat option \<Rightarrow> string option \<Rightarrow> bool option \<Rightarrow> field_spec" where
  "field_block src kind factor format optional =
     \<lparr>fs_source = src, fs_type = (case kind of None \<Rightarrow> ''float'' | Some t \<Rightarrow> t),
      fs_factor = (case factor of None \<Rightarrow> 1 | Some f \<Rightarrow> f), fs_format = format,
      fs_optional = (case optional of None \<Rightarrow> False | Some b \<Rightarrow> b)\<rparr>"

subsection \<open>The shipped specs\<close>

definition tushare_bars_spec :: response_spec where
  "tushare_bars_spec = \<lparr>rs_required = [''ts_code'', ''trade_date'', ''open'', ''high'', ''low'', ''close'', ''vol'', ''amount''],
     rs_fields =
       [(''code'', field_block ''ts_code'' (Some ''code'') None None None),
        (''date'', field_block ''trade_date'' (Some ''date'') None (Some ''%Y%m%d'') None),
        (''open'', field_block ''open'' (Some ''float'') None None None),
        (''high'', field_block ''high'' (Some ''float'') None None None),
        (''low'', field_block ''low'' (Some ''float'') None None None),
        (''close'', field_block ''close'' (Some ''float'') None None None),
        (''volume'', field_block ''vol'' (Some ''float'') (Some (100)) None None),
        (''amount'', field_block ''amount'' (Some ''float'') (Some (1000)) None None)]\<rparr>"

definition tushare_fund_nav_spec :: response_spec where
  "tushare_fund_nav_spec = \<lparr>rs_required = [''ts_code'', ''nav_date'', ''unit_nav'', ''accum_nav''],
     rs_fields =
       [(''code'', field_block ''ts_code'' (Some ''code'') None None None),
        (''date'', field_block ''nav_date'' (Some ''date'') None (Some ''%Y%m%d'') None),
        (''unit_nav'', field_block ''unit_nav'' (Some ''float'') None None None),
        (''accum_nav'', field_block ''accum_nav'' (Some ''float'') None None None)]\<rparr>"

definition tushare_trade_calendar_spec :: response_spec where
  "tushare_trade_calendar_spec = \<lparr>rs_required = [''cal_date'', ''is_open''],
     rs_fields =
       [(''date'', field_block ''cal_date'' (Some ''date'') None (Some ''%Y%m%d'') None),
        (''is_open'', field_block ''is_open'' (Some ''bool'') None None None)]\<rparr>"

definition tushare_adjust_factors_spec :: response_spec where
  "tushare_adjust_factors_spec = \<lparr>rs_required = [''ts_code'', ''trade_date'', ''adj_factor''],
     rs_fields =
       [(''code'', field_block ''ts_code'' (Some ''code'') None None None),
        (''date'', field_block ''trade_date'' (Some ''date'') None (Some ''%Y%m%d'') None),
        (''adj_factor'', field_block ''adj_factor'' (Some ''float'') None None None)]\<rparr>"

definition tushare_index_weights_spec :: response_spec where
  "tushare_index_weights_spec = \<lparr>rs_required = [''index_code'', ''trade_date'', ''con_code'', ''weight''],
     rs_fields =
       [(''code'', field_block ''index_code'' (Some ''code'') None None None),
        (''date'', field_block ''trade_date'' (Some ''date'') None (Some ''%Y%m%d'') None),
        (''con_code'', field_block ''con_code'' (Some ''str'') None None None),
        (''weight'', field_block ''weight'' (Some ''float'') None None None)]\<rparr>"

definition tushare_balance_sheet_spec :: response_spec where
  "tushare_balance_sheet_spec = \<lparr>rs_required = [''ts_code'', ''ann_date'', ''end_date''],
     rs_fields =
       [(''code'', field_block ''ts_code'' (Some ''code'') None None None),
        (''ann_date'', field_block ''ann_date'' (Some ''date'') None (Some ''%Y%m%d'') None),
        (''end_date'', field_block ''end_date'' (Some ''date'') None (Some ''%Y%m%d'') None),
        (''report_type'', field_block ''report_type'' (Some ''str'') None None None),
        (''total_assets'', field_block ''total_assets'' (Some ''float'') None None None),
        (''total_cur_assets'', field_block ''total_cur_assets'' (Some ''float'') None None None),
        (''money_cap'', field_block ''money_cap'' (Some ''float'') None None None),
        (''accounts_receiv'', field_block ''accounts_receiv'' (Some ''float'') None None None),
        (''inventories'', field_block ''inventories'' (Some ''float'') None None None),
        (''fix_assets'', field_block ''fix_assets'' (Some ''float'') None None None),
        (''cip'', field_block ''cip'' (Some ''float'') None None None),
        (''intan_assets'', field_block ''intan_assets'' (Some ''float'') None None None),
        (''goodwill'', field_block ''goodwill'' (Some ''float'') None None None),
        (''total_liab'', field_block ''total_liab'' (Some ''float'') None None None),
        (''total_cur_liab'', field_block ''total_cur_liab'' (Some ''float'') None None None),
        (''st_borr'', field_block ''st_borr'' (Some ''float'') None None None),
        (''lt_borr'', field_block ''lt_borr'' (Some ''float'') None None None),
        (''acct_payable'', field_block ''acct_payable'' (Some ''float'') None None None),
        (''notes_payable'', field_block ''notes_payable'' (Some ''float'') None None None),
        (''contract_liab'', field_block ''contract_liab'' (Some ''float'') None None None),
        (''total_hldr_eqy_exc_min_int'', field_block ''total_hldr_eqy_exc_min_int'' (Some ''float'') None None None),
        (''minority_int'', field_block ''minority_int'' (Some ''float'') None None None)]\<rparr>"

definition tushare_financial_indicator_spec :: response_spec where
  "tushare_financial_indicator_spec = \<lparr>rs_required = [''ts_code'', ''ann_date'', ''end_date''],
     rs_fields =
       [(''code'', field_block ''ts_code'' (Some ''code'') None None None),
        (''ann_date'', field_block ''ann_date'' (Some ''date'') None (Some ''%Y%m%d'') None),
        (''end_date'', field_block ''end_date'' (Some ''date'') None (Some ''%Y%m%d'') None),
        (''report_type'', field_block ''report_type'' (Some ''str'') None None (Some True)),
        (''eps'', field_block ''eps'' (Some ''float'') None None None),
        (''dt_eps'', field_block ''dt_eps'' (Some ''float'') None None None),
        (''bps'', field_block ''bps'' (Some ''float'') None None None),
        (''ocfps'', field_block ''ocfps'' (Some ''float'') None None None),
        (''roe'', field_block ''roe'' (Some ''float'') None None None),
        (''roe_waa'', field_block ''roe_waa'' (Some ''float'') None None None),
        (''roe_dt'', field_block ''roe_dt'' (Some ''float'') None None None),
        (''roa'', field_block ''roa'' (Some ''float'') None None None),
        (''roic'', field_block ''roic'' (Some ''float'') None None None),
        (''grossprofit_margin'', field_block ''grossprofit_margin'' (Some ''float'') None None None),
        (''netprofit_margin'', field_block ''netprofit_margin'' (Some ''float'') None None None),
        (''debt_to_assets'', field_block ''debt_to_assets'' (Some ''float'') None None None),
        (''current_ratio'', field_block ''current_ratio'' (Some ''float'') None None None),
        (''quick_ratio'', field_block ''quick_ratio'' (Some ''float'') None None None),
        (''or_yoy'', field_block ''or_yoy'' (Some ''float'') None None None),
        (''netprofit_yoy'', field_block ''netprofit_yoy'' (Some ''float'') None None None),
        (''dt_netprofit_yoy'', field_block ''dt_netprofit_yoy'' (Some ''float'') None None None)]\<rparr>"

definition tushare_ipo_spec :: response_spec where
  "tushare_ipo_spec = \<lparr>rs_required = [''ts_code'', ''name'', ''ipo_date''],
     rs_fields =
       [(''code'', field_block ''ts_code'' (Some ''code'') None None None),
        (''name'', field_block ''name'' (Some ''str'') None None None),
        (''ipo_date'', field_block ''ipo_date'' (Some ''date'') None (Some ''%Y%m%d'') None),
        (''issue_date'', field_block ''issue_date'' (Some ''date'') None (Some ''%Y%m%d'') (Some True)),
        (''price'', field_block ''price'' (Some ''float'') None None None),
        (''pe'', field_block ''pe'' (Some ''float'') None None None),
        (''amount'', field_block ''amount'' (Some ''float'') None None None),
        (''market_amount'', field_block ''market_amount'' (Some ''float'') None None None),
        (''limit_amount'', field_block ''limit_amount'' (Some ''float'') None None None),
        (''funds'', field_block ''funds'' (Some ''float'') None None None),
        (''ballot'', field_block ''ballot'' (Some ''float'') None None None)]\<rparr>"

definition tushare_suspension_spec :: response_spec where
  "tushare_suspension_spec = \<lparr>rs_required = [''ts_code'', ''trade_date''],
     rs_fields =
       [(''code'', field_block ''ts_code'' (Some ''code'') None None None),
        (''date'', field_block ''trade_date'' (Some ''date'') None (Some ''%Y%m%d'') None),
        (''suspend_type'', field_block ''suspend_type'' (Some ''str'') None None (Some True)),
        (''suspend_timing'', field_block ''suspend_timing'' (Some ''str'') None None (Some True))]\<rparr>"

definition tushare_st_spec :: response_spec where
  "tushare_st_spec = \<lparr>rs_required = [''ts_code'', ''trade_date''],
     rs_fields =
       [(''code'', field_block ''ts_code'' (Some ''code'') None None None),
        (''name'', field_block ''name'' (Some ''str'') None None None),
        (''date'', field_block ''trade_date'' (Some ''date'') None (Some ''%Y%m%d'') None),
        (''st_type'', field_block ''type'' (Some ''str'') None None None),
        (''type_name'', field_block ''type_name'' (Some ''str'') None None (Some True))]\<rparr>"

definition tushare_namechange_spec :: response_spec where
  "tushare_namechange_spec = \<lparr>rs_required = [''ts_code'', ''name'', ''start_date''],
     rs_fields =
       [(''code'', field_block ''ts_code'' (Some ''code'') None None None),
        (''name'', field_block ''name'' (Some ''str'') None None None),
        (''start_date'', field_block ''start_date'' (Some ''date'') None (Some ''%Y%m%d'') None),
        (''end_date'', field_block ''end_date'' (Some ''date'') None (Some ''%Y%m%d'') (Some True)),
        (''ann_date'', field_block ''ann_date'' (Some ''date'') None (Some ''%Y%m%d'') (Some True)),
        (''change_reason'', field_block ''change_reason'' (Some ''str'') None None (Some True))]\<rparr>"

definition tushare_spec :: source_spec where
  "tushare_spec = \<lparr>ss_source = TUSHARE, ss_params = [(''adjust'', [(''none'', ''''), (''qfq'', ''qfq''), (''hfq'', ''hfq'')]), (''date'', [(''format'', ''%Y%m%d'')])],
     ss_responses = [(''bars'', tushare_bars_spec),
       (''fund_nav'', tushare_fund_nav_spec),
       (''trade_calendar'', tushare_trade_calendar_spec),
       (''adjust_factors'', tushare_adjust_factors_spec),
       (''index_weights'', tushare_index_weights_spec),
       (''balance_sheet'', tushare_balance_sheet_spec),
       (''financial_indicator'', tushare_financial_indicator_spec),
       (''ipo'', tushare_ipo_spec),
       (''suspension'', tushare_suspension_spec),
       (''st'', tushare_st_spec),
       (''namechange'', tushare_namechange_spec)]\<rparr>"

definition akshare_bars_spec :: response_spec where
  "akshare_bars_spec = \<lparr>rs_required = [[CHR 0xE6, CHR 0x97, CHR 0xA5, CHR 0xE6, CHR 0x9C, CHR 0x9F], [CHR 0xE5, CHR 0xBC, CHR 0x80, CHR 0xE7, CHR 0x9B, CHR 0x98], [CHR 0xE6, CHR 0x9C, CHR 0x80, CHR 0xE9, CHR 0xAB, CHR 0x98], [CHR 0xE6, CHR 0x9C, CHR 0x80, CHR 0xE4, CHR 0xBD, CHR 0x8E], [CHR 0xE6, CHR 0x94, CHR 0xB6, CHR 0xE7, CHR 0x9B, CHR 0x98], [CHR 0xE6, CHR 0x88, CHR 0x90, CHR 0xE4, CHR 0xBA, CHR 0xA4, CHR 0xE9, CHR 0x87, CHR 0x8F], [CHR 0xE6, CHR 0x88, CHR 0x90, CHR 0xE4, CHR 0xBA, CHR 0xA4, CHR 0xE9, CHR 0xA2, CHR 0x9D]],
     rs_fields =
       [(''date'', field_block [CHR 0xE6, CHR 0x97, CHR 0xA5, CHR 0xE6, CHR 0x9C, CHR 0x9F] (Some ''date'') None None None),
        (''open'', field_block [CHR 0xE5, CHR 0xBC, CHR 0x80, CHR 0xE7, CHR 0x9B, CHR 0x98] (Some ''float'') None None None),
        (''high'', field_block [CHR 0xE6, CHR 0x9C, CHR 0x80, CHR 0xE9, CHR 0xAB, CHR 0x98] (Some ''float'') None None None),
        (''low'', field_block [CHR 0xE6, CHR 0x9C, CHR 0x80, CHR 0xE4, CHR 0xBD, CHR 0x8E] (Some ''float'') None None None),
        (''close'', field_block [CHR 0xE6, CHR 0x94, CHR 0xB6, CHR 0xE7, CHR 0x9B, CHR 0x98] (Some ''float'') None None None),
        (''volume'', field_block [CHR 0xE6, CHR 0x88, CHR 0x90, CHR 0xE4, CHR 0xBA, CHR 0xA4, CHR 0xE9, CHR 0x87, CHR 0x8F] (Some ''float'') (Some (100)) None None),
        (''amount'', field_block [CHR 0xE6, CHR 0x88, CHR 0x90, CHR 0xE4, CHR 0xBA, CHR 0xA4, CHR 0xE9, CHR 0xA2, CHR 0x9D] (Some ''float'') None None None)]\<rparr>"

definition akshare_fund_nav_spec :: response_spec where
  "akshare_fund_nav_spec = \<lparr>rs_required = [[CHR 0xE5, CHR 0x87, CHR 0x80, CHR 0xE5, CHR 0x80, CHR 0xBC, CHR 0xE6, CHR 0x97, CHR 0xA5, CHR 0xE6, CHR 0x9C, CHR 0x9F], [CHR 0xE5, CHR 0x8D, CHR 0x95, CHR 0xE4, CHR 0xBD, CHR 0x8D, CHR 0xE5, CHR 0x87, CHR 0x80, CHR 0xE5, CHR 0x80, CHR 0xBC]],
     rs_fields =
       [(''date'', field_block [CHR 0xE5, CHR 0x87, CHR 0x80, CHR 0xE5, CHR 0x80, CHR 0xBC, CHR 0xE6, CHR 0x97, CHR 0xA5, CHR 0xE6, CHR 0x9C, CHR 0x9F] (Some ''date'') None None None),
        (''unit_nav'', field_block [CHR 0xE5, CHR 0x8D, CHR 0x95, CHR 0xE4, CHR 0xBD, CHR 0x8D, CHR 0xE5, CHR 0x87, CHR 0x80, CHR 0xE5, CHR 0x80, CHR 0xBC] (Some ''float'') None None None),
        (''accum_nav'', field_block [CHR 0xE7, CHR 0xB4, CHR 0xAF, CHR 0xE8, CHR 0xAE, CHR 0xA1, CHR 0xE5, CHR 0x87, CHR 0x80, CHR 0xE5, CHR 0x80, CHR 0xBC] (Some ''float'') None None (Some True)),
        (''daily_return'', field_block [CHR 0xE6, CHR 0x97, CHR 0xA5, CHR 0xE5, CHR 0xA2, CHR 0x9E, CHR 0xE9, CHR 0x95, CHR 0xBF, CHR 0xE7, CHR 0x8E, CHR 0x87] (Some ''float'') None None (Some True))]\<rparr>"

definition akshare_trade_calendar_spec :: response_spec where
  "akshare_trade_calendar_spec = \<lparr>rs_required = [''trade_date''],
     rs_fields =
       [(''date'', field_block ''trade_date'' (Some ''date'') None None None)]\<rparr>"

definition akshare_spec :: source_spec where
  "akshare_spec = \<lparr>ss_source = AKSHARE, ss_params = [(''adjust'', [(''none'', ''''), (''qfq'', ''qfq''), (''hfq'', ''hfq'')]), (''date'', [(''format'', ''%Y%m%d'')])],
     ss_responses = [(''bars'', akshare_bars_spec),
       (''fund_nav'', akshare_fund_nav_spec),
       (''trade_calendar'', akshare_trade_calendar_spec)]\<rparr>"

definition fuyao_bars_spec :: response_spec where
  "fuyao_bars_spec = \<lparr>rs_required = [''date_ms'', ''open_price'', ''high_price'', ''low_price'', ''close_price'', ''volume'', ''turnover''],
     rs_fields =
       [(''date'', field_block ''date_ms'' (Some ''date_ms'') None None None),
        (''open'', field_block ''open_price'' (Some ''float'') None None None),
        (''high'', field_block ''high_price'' (Some ''float'') None None None),
        (''low'', field_block ''low_price'' (Some ''float'') None None None),
        (''close'', field_block ''close_price'' (Some ''float'') None None None),
        (''volume'', field_block ''volume'' (Some ''float'') None None None),
        (''amount'', field_block ''turnover'' (Some ''float'') None None None)]\<rparr>"

definition fuyao_snapshot_spec :: response_spec where
  "fuyao_snapshot_spec = \<lparr>rs_required = [''thscode'', ''last_price'', ''open_price'', ''high_price'', ''low_price'', ''prev_price'', ''volume'', ''turnover''],
     rs_fields =
       [(''code'', field_block ''thscode'' (Some ''code'') None None None),
        (''last'', field_block ''last_price'' (Some ''float'') None None None),
        (''open'', field_block ''open_price'' (Some ''float'') None None None),
        (''high'', field_block ''high_price'' (Some ''float'') None None None),
        (''low'', field_block ''low_price'' (Some ''float'') None None None),
        (''prev_close'', field_block ''prev_price'' (Some ''float'') None None None),
        (''volume'', field_block ''volume'' (Some ''float'') None None None),
        (''amount'', field_block ''turnover'' (Some ''float'') None None None)]\<rparr>"

definition fuyao_adjustment_events_spec :: response_spec where
  "fuyao_adjustment_events_spec = \<lparr>rs_required = [''ex_date_ms'', ''dividend_per_share'', ''per_share_bonus''],
     rs_fields =
       [(''ex_date'', field_block ''ex_date_ms'' (Some ''date_ms'') None None None),
        (''dividend_per_share'', field_block ''dividend_per_share'' (Some ''float'') None None (Some True)),
        (''per_share_bonus'', field_block ''per_share_bonus'' (Some ''float'') None None (Some True))]\<rparr>"

definition fuyao_trade_calendar_spec :: response_spec where
  "fuyao_trade_calendar_spec = \<lparr>rs_required = [''date''],
     rs_fields =
       [(''date'', field_block ''date'' (Some ''date'') None (Some ''%Y%m%d'') None)]\<rparr>"

definition fuyao_spec :: source_spec where
  "fuyao_spec = \<lparr>ss_source = FUYAO, ss_params = [(''adjust'', [(''none'', ''none'')]), (''date'', [(''format'', ''%Y-%m-%d'')])],
     ss_responses = [(''bars'', fuyao_bars_spec),
       (''snapshot'', fuyao_snapshot_spec),
       (''adjustment_events'', fuyao_adjustment_events_spec),
       (''trade_calendar'', fuyao_trade_calendar_spec)]\<rparr>"

definition baostock_bars_spec :: response_spec where
  "baostock_bars_spec = \<lparr>rs_required = [''date'', ''open'', ''high'', ''low'', ''close'', ''volume'', ''amount''],
     rs_fields =
       [(''date'', field_block ''date'' (Some ''date'') None None None),
        (''open'', field_block ''open'' (Some ''float'') None None None),
        (''high'', field_block ''high'' (Some ''float'') None None None),
        (''low'', field_block ''low'' (Some ''float'') None None None),
        (''close'', field_block ''close'' (Some ''float'') None None None),
        (''volume'', field_block ''volume'' (Some ''float'') None None None),
        (''amount'', field_block ''amount'' (Some ''float'') None None None)]\<rparr>"

definition baostock_trade_calendar_spec :: response_spec where
  "baostock_trade_calendar_spec = \<lparr>rs_required = [''calendar_date'', ''is_trading_day''],
     rs_fields =
       [(''date'', field_block ''calendar_date'' (Some ''date'') None None None),
        (''is_open'', field_block ''is_trading_day'' (Some ''bool'') None None None)]\<rparr>"

definition baostock_adjust_factors_spec :: response_spec where
  "baostock_adjust_factors_spec = \<lparr>rs_required = [''dividOperateDate'', ''backAdjustFactor''],
     rs_fields =
       [(''date'', field_block ''dividOperateDate'' (Some ''date'') None None None),
        (''adj_factor'', field_block ''backAdjustFactor'' (Some ''float'') None None None)]\<rparr>"

definition baostock_spec :: source_spec where
  "baostock_spec = \<lparr>ss_source = BAOSTOCK, ss_params = [(''date'', [(''format'', ''%Y-%m-%d'')])],
     ss_responses = [(''bars'', baostock_bars_spec),
       (''trade_calendar'', baostock_trade_calendar_spec),
       (''adjust_factors'', baostock_adjust_factors_spec)]\<rparr>"

definition wind_bars_spec :: response_spec where
  "wind_bars_spec = \<lparr>rs_required = [''TIME'', ''OPEN'', ''MATCH'', ''HIGH'', ''LOW'', ''VOLUME'', ''TURNOVER''],
     rs_fields =
       [(''date'', field_block ''TIME'' (Some ''date'') None None None),
        (''open'', field_block ''OPEN'' (Some ''float'') None None None),
        (''high'', field_block ''HIGH'' (Some ''float'') None None None),
        (''low'', field_block ''LOW'' (Some ''float'') None None None),
        (''close'', field_block ''MATCH'' (Some ''float'') None None None),
        (''volume'', field_block ''VOLUME'' (Some ''float'') None None None),
        (''amount'', field_block ''TURNOVER'' (Some ''float'') None None None)]\<rparr>"

definition wind_snapshot_spec :: response_spec where
  "wind_snapshot_spec = \<lparr>rs_required = [[CHR 0xE6, CHR 0x9C, CHR 0x80, CHR 0xE6, CHR 0x96, CHR 0xB0, CHR 0xE4, CHR 0xBA, CHR 0xA4, CHR 0xE6, CHR 0x98, CHR 0x93, CHR 0xE6, CHR 0x97, CHR 0xA5], [CHR 0xE6, CHR 0x9C, CHR 0x80, CHR 0xE6, CHR 0x96, CHR 0xB0, CHR 0xE6, CHR 0x88, CHR 0x90, CHR 0xE4, CHR 0xBA, CHR 0xA4, CHR 0xE4, CHR 0xBB, CHR 0xB7], [CHR 0xE5, CHR 0x89, CHR 0x8D, CHR 0xE6, CHR 0x94, CHR 0xB6, CHR 0xE7, CHR 0x9B, CHR 0x98, CHR 0xE4, CHR 0xBB, CHR 0xB7], [CHR 0xE4, CHR 0xBB, CHR 0x8A, CHR 0xE6, CHR 0x97, CHR 0xA5, CHR 0xE5, CHR 0xBC, CHR 0x80, CHR 0xE7, CHR 0x9B, CHR 0x98, CHR 0xE4, CHR 0xBB, CHR 0xB7], [CHR 0xE4, CHR 0xBB, CHR 0x8A, CHR 0xE6, CHR 0x97, CHR 0xA5, CHR 0xE6, CHR 0x9C, CHR 0x80, CHR 0xE9, CHR 0xAB, CHR 0x98, CHR 0xE4, CHR 0xBB, CHR 0xB7], [CHR 0xE4, CHR 0xBB, CHR 0x8A, CHR 0xE6, CHR 0x97, CHR 0xA5, CHR 0xE6, CHR 0x9C, CHR 0x80, CHR 0xE4, CHR 0xBD, CHR 0x8E, CHR 0xE4, CHR 0xBB, CHR 0xB7], [CHR 0xE6, CHR 0x88, CHR 0x90, CHR 0xE4, CHR 0xBA, CHR 0xA4, CHR 0xE9, CHR 0x87, CHR 0x8F]],
     rs_fields =
       [(''date'', field_block [CHR 0xE6, CHR 0x9C, CHR 0x80, CHR 0xE6, CHR 0x96, CHR 0xB0, CHR 0xE4, CHR 0xBA, CHR 0xA4, CHR 0xE6, CHR 0x98, CHR 0x93, CHR 0xE6, CHR 0x97, CHR 0xA5] (Some ''date'') None (Some ''%Y%m%d'') None),
        (''last'', field_block [CHR 0xE6, CHR 0x9C, CHR 0x80, CHR 0xE6, CHR 0x96, CHR 0xB0, CHR 0xE6, CHR 0x88, CHR 0x90, CHR 0xE4, CHR 0xBA, CHR 0xA4, CHR 0xE4, CHR 0xBB, CHR 0xB7] (Some ''float'') None None None),
        (''prev_close'', field_block [CHR 0xE5, CHR 0x89, CHR 0x8D, CHR 0xE6, CHR 0x94, CHR 0xB6, CHR 0xE7, CHR 0x9B, CHR 0x98, CHR 0xE4, CHR 0xBB, CHR 0xB7] (Some ''float'') None None None),
        (''open'', field_block [CHR 0xE4, CHR 0xBB, CHR 0x8A, CHR 0xE6, CHR 0x97, CHR 0xA5, CHR 0xE5, CHR 0xBC, CHR 0x80, CHR 0xE7, CHR 0x9B, CHR 0x98, CHR 0xE4, CHR 0xBB, CHR 0xB7] (Some ''float'') None None None),
        (''high'', field_block [CHR 0xE4, CHR 0xBB, CHR 0x8A, CHR 0xE6, CHR 0x97, CHR 0xA5, CHR 0xE6, CHR 0x9C, CHR 0x80, CHR 0xE9, CHR 0xAB, CHR 0x98, CHR 0xE4, CHR 0xBB, CHR 0xB7] (Some ''float'') None None None),
        (''low'', field_block [CHR 0xE4, CHR 0xBB, CHR 0x8A, CHR 0xE6, CHR 0x97, CHR 0xA5, CHR 0xE6, CHR 0x9C, CHR 0x80, CHR 0xE4, CHR 0xBD, CHR 0x8E, CHR 0xE4, CHR 0xBB, CHR 0xB7] (Some ''float'') None None None),
        (''volume'', field_block [CHR 0xE6, CHR 0x88, CHR 0x90, CHR 0xE4, CHR 0xBA, CHR 0xA4, CHR 0xE9, CHR 0x87, CHR 0x8F] (Some ''float'') None None None),
        (''amount'', field_block [CHR 0xE6, CHR 0x88, CHR 0x90, CHR 0xE4, CHR 0xBA, CHR 0xA4, CHR 0xE9, CHR 0xA2, CHR 0x9D] (Some ''float'') None None None)]\<rparr>"

definition wind_spec :: source_spec where
  "wind_spec = \<lparr>ss_source = WIND, ss_params = [(''adjust'', [(''none'', ''2''), (''qfq'', ''0''), (''hfq'', ''1'')])],
     ss_responses = [(''bars'', wind_bars_spec),
       (''snapshot'', wind_snapshot_spec)]\<rparr>"

lemmas spec_defs = tushare_spec_def akshare_spec_def fuyao_spec_def baostock_spec_def wind_spec_def

text \<open>\<open>load_spec\<close>: iFinD has no file.\<close>

fun load_spec :: "source \<Rightarrow> source_spec result" where
  "load_spec TUSHARE = Inr tushare_spec"
| "load_spec WIND = Inr wind_spec"
| "load_spec AKSHARE = Inr akshare_spec"
| "load_spec FUYAO = Inr fuyao_spec"
| "load_spec BAOSTOCK = Inr baostock_spec"
| "load_spec IFIND = Inl (OtherError ''FileNotFoundError'' [])"

definition load_all_specs :: "(source \<times> source_spec) list" where
  "load_all_specs = concat (map (\<lambda>s. case load_spec s of Inr spec \<Rightarrow> [(s, spec)] | Inl _ \<Rightarrow> []) all_sources)"

subsection \<open>Validation\<close>

definition FIELD_TYPES :: "string list" where
  "FIELD_TYPES = [''code'', ''date'', ''date_ms'', ''float'', ''int'', ''str'', ''bool'']"

datatype spec_error =
    NoResponses source | NoRequired source string | NoFields source string | UnknownType source string string
  | BadFactor source string string

definition field_errors :: "source \<Rightarrow> string \<Rightarrow> string \<times> field_spec \<Rightarrow> spec_error list" where
  "field_errors s endpoint entry =
     (case entry of (name, f) \<Rightarrow>
        (if fs_type f \<notin> set FIELD_TYPES then [UnknownType s endpoint name] else [])
        @ (if fs_factor f \<le> 0 then [BadFactor s endpoint name] else []))"

definition response_errors :: "source \<Rightarrow> string \<times> response_spec \<Rightarrow> spec_error list" where
  "response_errors s entry =
     (case entry of (endpoint, r) \<Rightarrow>
        (if rs_required r = [] then [NoRequired s endpoint] else [])
        @ (if rs_fields r = [] then [NoFields s endpoint] else [])
        @ concat (map (field_errors s endpoint) (rs_fields r)))"

definition validate_specs :: "(source \<times> source_spec) list \<Rightarrow> spec_error list" where
  "validate_specs specs =
     concat (map (\<lambda>(s, spec).
       (if ss_responses spec = [] then [NoResponses s] else []) @ concat (map (response_errors s) (ss_responses spec))) specs)"

subsection \<open>Normalisation\<close>

record ('f, 'c) tables =
  tb_length :: "'f \<Rightarrow> nat"
  tb_make :: "(string \<times> 'c) list \<Rightarrow> 'f"
  tb_of_rows :: "string list list \<Rightarrow> string list \<Rightarrow> 'f"
  tb_empty :: "string list \<Rightarrow> 'f"
  tb_insert_first :: "string \<Rightarrow> 'c \<Rightarrow> 'f \<Rightarrow> 'f"
  tb_text :: "string \<Rightarrow> 'f \<Rightarrow> 'c"
  tb_texts :: "string list \<Rightarrow> 'c"
  tb_opt_texts :: "string option list \<Rightarrow> 'c"
  tb_read_texts :: "'c \<Rightarrow> string list"
  tb_as_text :: "'c \<Rightarrow> 'c"
  tb_map_text :: "(string \<Rightarrow> string result) \<Rightarrow> 'c \<Rightarrow> 'c result"
  tb_parse_dates :: "string option \<Rightarrow> 'c \<Rightarrow> 'c result"
  tb_coerce_dates :: "string option \<Rightarrow> 'c \<Rightarrow> 'c"
  tb_ms_to_date :: "'c \<Rightarrow> 'c result"
  tb_as_datetime :: "'c \<Rightarrow> 'c"
  tb_to_numeric :: "'c \<Rightarrow> 'c"
  tb_to_int :: "'c \<Rightarrow> 'c"
  tb_scale :: "rat \<Rightarrow> 'c \<Rightarrow> 'c"
  tb_nonzero :: "'c \<Rightarrow> 'c"
  tb_lower_in :: "string list \<Rightarrow> 'c \<Rightarrow> 'c"
  tb_or :: "'c \<Rightarrow> 'c \<Rightarrow> 'c"
  tb_pct_change :: "string \<Rightarrow> string \<Rightarrow> 'f \<Rightarrow> 'c"
  tb_keep_in :: "string \<Rightarrow> string list \<Rightarrow> 'f \<Rightarrow> 'f"
  tb_keep_last :: "string list \<Rightarrow> 'f \<Rightarrow> 'f"
  tb_from_date :: "string \<Rightarrow> string \<Rightarrow> 'f \<Rightarrow> 'f"
  tb_until_date :: "string \<Rightarrow> string \<Rightarrow> 'f \<Rightarrow> 'f"
  tb_timestamp :: "string \<Rightarrow> time result"
  tb_events :: "'f \<Rightarrow> (time \<times> rat) list"
  tb_of_events :: "string \<Rightarrow> (time \<times> rat) list \<Rightarrow> 'f"
  tb_days :: "string option \<Rightarrow> 'c \<Rightarrow> time list result"
  tb_calendar :: "(time \<times> bool) list \<Rightarrow> 'f"

definition parse_field ::
  "('f, 'c) pandas \<Rightarrow> ('f, 'c) tables \<Rightarrow> mapper option \<Rightarrow> string option \<Rightarrow> 'f \<Rightarrow> field_spec \<Rightarrow> 'c result" where
  "parse_field P T mapper code raw f =
     (let series = pd_column P raw (fs_source f)
      in if fs_type f = ''date'' then tb_parse_dates T (fs_format f) series
         else if fs_type f = ''date_ms'' then tb_ms_to_date T series
         else if fs_type f = ''code''
         then (case code of
                 Some c \<Rightarrow> Inr (tb_text T c raw)
               | None \<Rightarrow> (case mapper of
                   Some m \<Rightarrow> tb_map_text T (\<lambda>v. map_sum id canonical (from_source m v None)) series
                 | None \<Rightarrow> Inr (tb_as_text T series)))
         else if fs_type f = ''float'' then Inr (tb_scale T (fs_factor f) (tb_to_numeric T series))
         else if fs_type f = ''int'' then Inr (tb_to_int T (tb_to_numeric T series))
         else if fs_type f = ''bool''
         then Inr (tb_or T (tb_nonzero T (tb_to_numeric T series)) (tb_lower_in T [''true'', ''t'', ''yes'', ''y''] series))
         else Inr (tb_as_text T series))"

fun parse_fields ::
  "('f, 'c) pandas \<Rightarrow> ('f, 'c) tables \<Rightarrow> mapper option \<Rightarrow> string option \<Rightarrow> 'f \<Rightarrow> (string \<times> field_spec) list \<Rightarrow> (string \<times> 'c) list result" where
  "parse_fields P T mapper code raw [] = Inr []"
| "parse_fields P T mapper code raw ((name, f) # rest) =
     bind_result
       (if fs_source f \<notin> set (pd_columns P raw) then if fs_optional f then Inr (pd_na P raw) else Inl ResponseParseError
        else parse_field P T mapper code raw f) (\<lambda>c.
     bind_result (parse_fields P T mapper code raw rest) (\<lambda>cs. Inr ((name, c) # cs)))"

definition date_fields :: "response_spec \<Rightarrow> string list" where
  "date_fields spec = map fst (filter (\<lambda>(name, f). fs_type f \<in> {''date'', ''date_ms''}) (rs_fields spec))"

definition normalize ::
  "('f, 'c) pandas \<Rightarrow> ('f, 'c) tables \<Rightarrow> mapper option \<Rightarrow> string option \<Rightarrow> response_spec \<Rightarrow> 'f \<Rightarrow> 'f result" where
  "normalize P T mapper code spec raw =
     (if \<not> set (rs_required spec) \<subseteq> set (pd_columns P raw) then Inl ResponseParseError
      else map_sum id (\<lambda>data.
        let frame = tb_make T data;
            coded = (case code of
               Some c \<Rightarrow> if ''code'' \<notin> set (pd_columns P frame) then tb_insert_first T ''code'' (tb_text T c frame) frame else frame
             | None \<Rightarrow> frame)
        in foldl (\<lambda>df name. pd_set_column P name (tb_as_datetime T (pd_column P df name)) df) coded (date_fields spec))
          (parse_fields P T mapper code raw (rs_fields spec)))"

subsection \<open>Lemmas\<close>

text \<open>What pandas documents of the columns of \<open>DataFrame(dict)\<close> and of \<open>insert(0, ...)\<close>.\<close>

definition tables_columns_ok :: "('f, 'c) pandas \<Rightarrow> ('f, 'c) tables \<Rightarrow> bool" where
  "tables_columns_ok P T \<longleftrightarrow>
     (\<forall>data. distinct (map fst data) \<longrightarrow> pd_columns P (tb_make T data) = map fst data)
     \<and> (\<forall>name c df. name \<notin> set (pd_columns P df) \<longrightarrow> pd_columns P (tb_insert_first T name c df) = name # pd_columns P df)
     \<and> (\<forall>name c df. name \<in> set (pd_columns P df) \<longrightarrow> pd_columns P (pd_set_column P name c df) = pd_columns P df)"

lemma parse_fields_names: "parse_fields P T mapper code raw fs = Inr data \<Longrightarrow> map fst data = map fst fs"
  by (induction P T mapper code raw fs arbitrary: data rule: parse_fields.induct) (auto split: sum.splits if_splits)

definition normalized_columns :: "bool \<Rightarrow> response_spec \<Rightarrow> string list" where
  "normalized_columns coded spec =
     (if coded \<and> ''code'' \<notin> set (map fst (rs_fields spec)) then ''code'' # map fst (rs_fields spec) else map fst (rs_fields spec))"

lemma normalize_columns:
  assumes "tables_columns_ok P T" and "distinct (map fst (rs_fields spec))" and "normalize P T mapper code spec raw = Inr out"
  shows "pd_columns P out = normalized_columns (code \<noteq> None) spec"
proof -
  obtain data where d: "parse_fields P T mapper code raw (rs_fields spec) = Inr data"
    and o: "out = foldl (\<lambda>df name. pd_set_column P name (tb_as_datetime T (pd_column P df name)) df)
      (case code of Some c \<Rightarrow> if ''code'' \<notin> set (pd_columns P (tb_make T data)) then tb_insert_first T ''code'' (tb_text T c (tb_make T data)) (tb_make T data)
                        else tb_make T data | None \<Rightarrow> tb_make T data) (date_fields spec)"
    using assms(3) by (auto simp: normalize_def Let_def map_sum_def split: if_splits sum.splits)
  have names: "map fst data = map fst (rs_fields spec)" using parse_fields_names [OF d] .
  have keep: "pd_columns P (foldl (\<lambda>df name. pd_set_column P name (tb_as_datetime T (pd_column P df name)) df) df ns) = pd_columns P df"
    if "set ns \<subseteq> set (pd_columns P df)" for ns df
    using that assms(1) by (induction ns arbitrary: df) (auto simp: tables_columns_ok_def)
  have make: "pd_columns P (tb_make T data) = map fst (rs_fields spec)"
    using assms(1,2) names unfolding tables_columns_ok_def by metis
  have dates: "set (date_fields spec) \<subseteq> set (map fst (rs_fields spec))" by (auto simp: date_fields_def)
  have coded: "pd_columns P (case code of Some c \<Rightarrow> if ''code'' \<notin> set (pd_columns P (tb_make T data))
      then tb_insert_first T ''code'' (tb_text T c (tb_make T data)) (tb_make T data) else tb_make T data | None \<Rightarrow> tb_make T data)
    = normalized_columns (code \<noteq> None) spec"
    using assms(1) unfolding tables_columns_ok_def normalized_columns_def make by (simp add: make split: option.split)
  have "set (date_fields spec) \<subseteq> set (normalized_columns (code \<noteq> None) spec)" using dates by (auto simp: normalized_columns_def)
  then have "pd_columns P out = pd_columns P (case code of Some c \<Rightarrow> if ''code'' \<notin> set (pd_columns P (tb_make T data))
      then tb_insert_first T ''code'' (tb_text T c (tb_make T data)) (tb_make T data) else tb_make T data | None \<Rightarrow> tb_make T data)"
    unfolding o by (intro keep) (simp only: coded)
  then show ?thesis by (simp only: coded)
qed

text \<open>The shipped specs are valid, and an optional field whose source column is required is not optional.\<close>

lemma shipped_specs_valid: "validate_specs load_all_specs = []"
  by code_simp

lemma required_optional_fields:
  "filter (\<lambda>(name, f). fs_optional f \<and> fs_source f \<in> set (rs_required fuyao_adjustment_events_spec)) (rs_fields fuyao_adjustment_events_spec)
    = [(''dividend_per_share'', field_block ''dividend_per_share'' (Some ''float'') None None (Some True)),
       (''per_share_bonus'', field_block ''per_share_bonus'' (Some ''float'') None None (Some True))]"
  by (simp add: fuyao_adjustment_events_spec_def field_block_def)

text \<open>
  The columns a normalised answer has are those \<open>finalize_frame\<close> requires: the specs of the sources, whether
  the adapter passes the code of a single security, and the columns of the endpoint.
\<close>

definition shipped_uses :: "(response_spec \<times> bool \<times> string list) list" where
  "shipped_uses =
     [(tushare_bars_spec, False, BARS_COLUMNS), (akshare_bars_spec, True, BARS_COLUMNS), (fuyao_bars_spec, True, BARS_COLUMNS),
      (baostock_bars_spec, True, BARS_COLUMNS), (tushare_trade_calendar_spec, False, CALENDAR_COLUMNS),
      (baostock_trade_calendar_spec, False, CALENDAR_COLUMNS), (tushare_adjust_factors_spec, False, ADJUST_FACTOR_COLUMNS),
      (tushare_index_weights_spec, False, INDEX_WEIGHT_COLUMNS), (tushare_balance_sheet_spec, False, BALANCE_SHEET_COLUMNS),
      (tushare_financial_indicator_spec, False, FINANCIAL_INDICATOR_COLUMNS), (tushare_ipo_spec, False, IPO_COLUMNS),
      (tushare_suspension_spec, False, SUSPENSION_COLUMNS), (tushare_st_spec, False, ST_COLUMNS),
      (tushare_namechange_spec, False, NAMECHANGE_COLUMNS), (akshare_fund_nav_spec, True, NAV_COLUMNS),
      (fuyao_adjustment_events_spec, True, ADJUSTMENT_EVENT_COLUMNS)]"

lemma shipped_uses_complete:
  "list_all (\<lambda>(spec, coded, columns). distinct (map fst (rs_fields spec)) \<and> missing_required columns (normalized_columns coded spec) = []) shipped_uses"
  by code_simp

end
