(* ===== verification/Src_Calls.thy ===== *)
theory Src_Calls
  imports Hub_Sources Hub_Specs
begin

text \<open>
  What the adapters share: a call of a source between \<open>_acquire\<close> and \<open>_record\<close>, dates as the sources spell
  them, grouping by endpoint, and paging.
\<close>

subsection \<open>Measured calls\<close>

text \<open>
  The clock during a call, read off the environment: the readings of a waiting \<open>acquire\<close>, the time the call is
  recorded at and how long it took.
\<close>

record call_times =
  ct_start :: rat
  ct_rounds :: "wait_round list"
  ct_now :: time
  ct_latency :: rat

type_synonym 's call_clock = "'s hub_env \<Rightarrow> call_times"

text \<open>\<open>acquire\<close> as a step; when the rounds given do not suffice the call is still waiting.\<close>

definition acquire_step :: "'s call_clock \<Rightarrow> source \<Rightarrow> string \<Rightarrow> ('s hub_env, unit) step" where
  "acquire_step clock source endpoint e =
     (case adapter_acquire source endpoint (ct_start (clock e)) (ct_rounds (clock e)) e of
        Some r \<Rightarrow> r
      | None \<Rightarrow> (e, Inl (OtherError ''StillWaiting'' endpoint)))"

text \<open>\<open>try: call() finally: self._record(...)\<close>: an error of the recording replaces the call's outcome.\<close>

definition recorded :: "'s call_clock \<Rightarrow> source \<Rightarrow> string \<Rightarrow> ('s hub_env, 'a) step \<Rightarrow> ('s hub_env, 'a) step" where
  "recorded clock source endpoint call e =
     (case call e of
        (e1, r) \<Rightarrow>
          (case adapter_record source endpoint 1 [] (ct_latency (clock e1)) (ct_now (clock e1)) e1 of
             (e2, Inl err) \<Rightarrow> (e2, Inl err)
           | (e2, Inr _) \<Rightarrow> (e2, r)))"

definition measured :: "'s call_clock \<Rightarrow> source \<Rightarrow> string \<Rightarrow> ('s hub_env, 'a) step \<Rightarrow> ('s hub_env, 'a) step" where
  "measured clock source endpoint call = and_then (acquire_step clock source endpoint) (\<lambda>_. recorded clock source endpoint call)"

text \<open>A step of the outside world as a step of the environment, and an error turned into another.\<close>

definition on_world :: "('s, 'a) step \<Rightarrow> ('s hub_env, 'a) step" where
  "on_world call e = (case call (he_world e) of (w, r) \<Rightarrow> (e\<lparr>he_world := w\<rparr>, r))"

definition failing_as :: "py_error \<Rightarrow> ('e, 'a) step \<Rightarrow> ('e, 'a) step" where
  "failing_as err call e = (case call e of (e1, Inl _) \<Rightarrow> (e1, Inl err) | (e1, Inr x) \<Rightarrow> (e1, Inr x))"

subsection \<open>Arguments of a call\<close>

datatype api_arg = ArgText string | ArgInt int

type_synonym api_args = "(string \<times> api_arg) list"

text \<open>\<open>YYYYMMDD\<close> or \<open>YYYY-MM-DD\<close> as eight digits, and with dashes; digits are read over ASCII.\<close>

definition compact_date :: "string \<Rightarrow> string result" where
  "compact_date s =
     (let text = filter (\<lambda>c. c \<noteq> CHR ''-'') (strip s)
      in if length text \<noteq> 8 \<or> \<not> is_digits text then Inl ValueError else Inr text)"

definition iso_date :: "string \<Rightarrow> string result" where
  "iso_date s = map_sum id (\<lambda>t. take 4 t @ ''-'' @ take 2 (drop 4 t) @ ''-'' @ drop 6 t) (compact_date s)"

text \<open>The list of the results, or the first error.\<close>

fun results :: "'a result list \<Rightarrow> 'a list result" where
  "results [] = Inr []"
| "results (r # rs) = bind_result r (\<lambda>x. bind_result (results rs) (\<lambda>xs. Inr (x # xs)))"

text \<open>\<open>raw[name]\<close>\<close>

definition need_column :: "('f, 'c) pandas \<Rightarrow> 'f \<Rightarrow> string \<Rightarrow> 'c result" where
  "need_column P raw name = (if name \<in> set (pd_columns P raw) then Inr (pd_column P raw name) else Inl KeyError)"

text \<open>The empty frames the adapters share.\<close>

definition empty_bars :: "('f, 'c) tables \<Rightarrow> 'f" where
  "empty_bars T = tb_empty T [''code'', ''date'', ''open'', ''high'', ''low'', ''close'', ''volume'', ''amount'']"

definition empty_nav :: "('f, 'c) tables \<Rightarrow> 'f" where
  "empty_nav T = tb_empty T [''code'', ''date'', ''unit_nav'', ''accum_nav'', ''daily_return'']"

subsection \<open>Grouping by endpoint\<close>

text \<open>\<open>groups.setdefault(endpoint, []).append(code)\<close> over the codes, in order.\<close>

definition add_to_group :: "'k \<Rightarrow> 'a \<Rightarrow> ('k, 'a list) dict \<Rightarrow> ('k, 'a list) dict" where
  "add_to_group k x groups = AList.update k (dict_get groups k [] @ [x]) groups"

fun group_by :: "('a \<Rightarrow> 'k) \<Rightarrow> 'a list \<Rightarrow> ('k, 'a list) dict \<Rightarrow> ('k, 'a list) dict" where
  "group_by f [] groups = groups"
| "group_by f (x # xs) groups = group_by f xs (add_to_group (f x) x groups)"

subsection \<open>Paging\<close>

text \<open>
  \<open>for _ in range(pages)\<close> over \<open>limit\<close> and \<open>offset\<close>: stop at an empty page or one shorter than the limit.
\<close>

fun paged :: "('f \<Rightarrow> nat) \<Rightarrow> (nat \<Rightarrow> ('e, 'f) step) \<Rightarrow> nat \<Rightarrow> nat \<Rightarrow> nat \<Rightarrow> ('e, 'f list) step" where
  "paged size_of fetch n 0 offset e = (e, Inr [])"
| "paged size_of fetch n (Suc pages) offset e =
     (case fetch offset e of
        (e1, Inl err) \<Rightarrow> (e1, Inl err)
      | (e1, Inr page) \<Rightarrow>
          if size_of page = 0 then (e1, Inr [])
          else if size_of page < n then (e1, Inr [page])
          else and_then (paged size_of fetch n pages (offset + size_of page)) (\<lambda>rest. give (page # rest)) e1)"

text \<open>The same loop without a bound on the pages: \<open>None\<close> when the fuel is used up.\<close>

fun paged_all :: "('f \<Rightarrow> nat) \<Rightarrow> (nat \<Rightarrow> ('e, 'f) step) \<Rightarrow> nat \<Rightarrow> nat \<Rightarrow> nat \<Rightarrow> 'e \<Rightarrow> ('e \<times> 'f list result) option" where
  "paged_all size_of fetch n 0 offset e = None"
| "paged_all size_of fetch n (Suc fuel) offset e =
     (case fetch offset e of
        (e1, Inl err) \<Rightarrow> Some (e1, Inl err)
      | (e1, Inr page) \<Rightarrow>
          if size_of page = 0 then Some (e1, Inr [])
          else if size_of page < n then Some (e1, Inr [page])
          else map_option (\<lambda>(e2, r). (e2, map_sum id (\<lambda>rest. page # rest) r))
                 (paged_all size_of fetch n fuel (offset + size_of page) e1))"

subsection \<open>Lemmas\<close>

lemma group_by_lookup:
  "dict_get (group_by f xs groups) k [] = dict_get groups k [] @ filter (\<lambda>x. f x = k) xs"
  by (induction xs arbitrary: groups) (auto simp: add_to_group_def dict_get_def split: option.splits)

lemma add_group_keys: "distinct (dict_keys groups) \<Longrightarrow> distinct (dict_keys (add_to_group k x groups))
    \<and> set (dict_keys (add_to_group k x groups)) = insert k (set (dict_keys groups))"
  by (auto simp: add_to_group_def distinct_update dom_update)

lemma group_by_keys: "distinct (dict_keys groups) \<Longrightarrow> distinct (dict_keys (group_by f xs groups))
    \<and> set (dict_keys (group_by f xs groups)) = set (dict_keys groups) \<union> f ` set xs"
proof (induction xs arbitrary: groups)
  case (Cons x xs)
  from Cons.IH [of "add_to_group (f x) x groups"] add_group_keys [OF Cons.prems, of "f x" x] show ?case by auto
qed simp

text \<open>
  A source that serves slices of one list of rows, in every state of an invariant that the calls keep: the
  pages hold its rows in order, up to the bound on the pages; without a bound all of them, as soon as the fuel
  exceeds the number of full pages.
\<close>

definition serves :: "('e \<Rightarrow> bool) \<Rightarrow> ('f \<Rightarrow> 'r list) \<Rightarrow> 'r list \<Rightarrow> nat \<Rightarrow> (nat \<Rightarrow> ('e, 'f) step) \<Rightarrow> bool" where
  "serves I rows rs n fetch \<longleftrightarrow>
     (\<forall>offset e. I e \<longrightarrow> (\<exists>e1 page. fetch offset e = (e1, Inr page) \<and> I e1 \<and> rows page = take n (drop offset rs)))"

lemma paged_rows:
  fixes rs :: "'r list"
  assumes "serves I rows rs n fetch" and "0 < n" and "I e"
  shows "\<exists>e1 pages. paged (\<lambda>f. length (rows f)) fetch n k offset e = (e1, Inr pages) \<and> I e1
    \<and> concat (map rows pages) = take (k * n) (drop offset rs)"
  using assms(3)
proof (induction k arbitrary: offset e)
  case (Suc k)
  obtain e1 page where f: "fetch offset e = (e1, Inr page)" and i: "I e1" and r: "rows page = take n (drop offset rs)"
    using assms(1) Suc.prems unfolding serves_def by blast
  have split: "take (Suc k * n) xs = take n xs @ take (k * n) (drop n xs)" for xs :: "'r list" by (simp add: take_add)
  show ?case
  proof (cases "length (rows page) < n")
    case True
    then have "drop n (drop offset rs) = []" using r by auto
    with True f i r split [of "drop offset rs"] show ?thesis by auto
  next
    case False
    then have l: "length (rows page) = n" using r by simp
    obtain e2 pages where "paged (\<lambda>f. length (rows f)) fetch n k (offset + n) e1 = (e2, Inr pages)" "I e2"
      "concat (map rows pages) = take (k * n) (drop (offset + n) rs)" using Suc.IH [OF i] by blast
    with f l r assms(2) split [of "drop offset rs"] show ?thesis
      by (auto simp: and_then_def add.commute)
  qed
qed simp

lemma paged_all_rows:
  assumes "serves I rows rs n fetch" and "0 < n" and "I e" and "length rs < offset + fuel * n" and "0 < fuel"
  shows "\<exists>e1 pages. paged_all (\<lambda>f. length (rows f)) fetch n fuel offset e = Some (e1, Inr pages) \<and> I e1
    \<and> concat (map rows pages) = drop offset rs"
  using assms(3-5)
proof (induction fuel arbitrary: offset e)
  case (Suc fuel)
  obtain e1 page where f: "fetch offset e = (e1, Inr page)" and i: "I e1" and r: "rows page = take n (drop offset rs)"
    using assms(1) Suc.prems(1) unfolding serves_def by blast
  show ?case
  proof (cases "length (rows page) < n")
    case True
    then have "rows page = drop offset rs" using r by auto
    with True f i show ?thesis by auto
  next
    case False
    then have l: "length (rows page) = n" and le: "offset + n \<le> length rs" using r assms(2) by auto
    then have "0 < fuel" using Suc.prems(2) by (cases fuel) auto
    moreover have "length rs < offset + n + fuel * n" using Suc.prems(2) by (simp add: add.assoc)
    ultimately obtain e2 pages where "paged_all (\<lambda>f. length (rows f)) fetch n fuel (offset + n) e1 = Some (e2, Inr pages)" "I e2"
      "concat (map rows pages) = drop (offset + n) rs" using Suc.IH [OF i] by blast
    moreover have "drop offset rs = rows page @ drop (offset + n) rs" unfolding r by (metis append_take_drop_id drop_drop add.commute)
    ultimately show ?thesis using f l assms(2) by auto
  qed
qed simp

text \<open>A source that answers a full page whatever the offset keeps the unbounded loop going.\<close>

lemma paged_all_stuck:
  assumes "\<And>offset e. I e \<Longrightarrow> \<exists>e1 page. fetch offset e = (e1, Inr page) \<and> I e1 \<and> size_of page = n" and "0 < n" and "I e"
  shows "paged_all size_of fetch n fuel offset e = None"
  using assms(3)
proof (induction fuel arbitrary: offset e)
  case (Suc fuel)
  obtain e1 page where "fetch offset e = (e1, Inr page)" "I e1" "size_of page = n" using assms(1) Suc.prems by blast
  with Suc.IH assms(2) show ?case by simp
qed simp

text \<open>
  A call that leaves the ledger and the limiters alone, as the calls of the outside world do.  Once admitted it
  is counted, whatever its outcome.
\<close>

lemma on_world_usage: "he_usage (fst (on_world call e)) = he_usage e \<and> he_limiters (fst (on_world call e)) = he_limiters e"
  by (simp add: on_world_def split: prod.split)

lemma failing_as_fst: "fst (failing_as err call e) = fst (call e)"
  by (simp add: failing_as_def split: prod.split sum.split)

lemma acquire_usage: "acquire_step clock source endpoint e = (e1, r) \<Longrightarrow> he_usage e1 = he_usage e"
  by (auto simp: acquire_step_def adapter_acquire_def bind_rate_limits_def split: option.splits)

lemma ledger_record_counts:
  assumes "ledger_record source endpoint 1 codes latency now u = (u', r)"
  shows "dict_get (ul_calls u') (usage_day now, source) 0 = dict_get (ul_calls u) (usage_day now, source) 0 + 1
    \<and> ul_budget u' = ul_budget u"
proof -
  have "u' = record_call (source, endpoint, 1, codes, latency, now) u" using assms by (simp add: record_call_def)
  with record_call_counts [of u source endpoint 1 codes latency now] show ?thesis
    by (simp add: same_counts_def add_usage_def Let_def usage_record_of_def)
qed

lemma recorded_usage:
  assumes "recorded clock source endpoint call e = (e', r)"
  shows "\<exists>e1 r1 u r2. call e = (e1, r1) \<and> e' = e1\<lparr>he_usage := u\<rparr>
    \<and> ledger_record (source_value source) endpoint 1 [] (ct_latency (clock e1)) (ct_now (clock e1)) (he_usage e1) = (u, r2)
    \<and> (r = r1 \<or> (\<exists>err. r2 = Inl err \<and> r = Inl err))"
proof -
  obtain e1 r1 where c: "call e = (e1, r1)" by (metis prod.exhaust)
  obtain u r2 where u: "ledger_record (source_value source) endpoint 1 [] (ct_latency (clock e1)) (ct_now (clock e1)) (he_usage e1) = (u, r2)"
    by (metis prod.exhaust)
  from assms c u show ?thesis by (cases r2) (auto simp: recorded_def adapter_record_def)
qed

lemma ledger_record_silent:
  assumes "bc_on_alert (ul_budget u) = None"
  shows "\<exists>u' r. ledger_record source endpoint calls codes latency now u = (u', Inr r)"
proof -
  have a: "\<exists>u'. alert_if_needed day source metric val limit v = (u', Inr ()) \<and> ul_budget u' = ul_budget v"
    if "bc_on_alert (ul_budget v) = None" for day metric val limit v
    using that by (simp add: alert_if_needed_def Let_def split: option.split)
  have c: "\<exists>u'. check_cost day source cost v = (u', Inr ())" if "bc_on_alert (ul_budget v) = None" for day cost v
    proof (cases "map_of (bc_cost_per_day (ul_budget v)) source")
    case None
    then show ?thesis by (simp add: check_cost_def)
  next
    case (Some limit)
    with a [OF that, of day "''cost''" cost limit] show ?thesis by (cases "limit = 0") (auto simp: check_cost_def)
  qed
  have b: "\<exists>u'. check_budget day source v = (u', Inr ())" if v: "bc_on_alert (ul_budget v) = None" for day v
  proof (cases rule: check_budget_cases [of day source v])
    case no_limit
    with c [OF v] show ?thesis by metis
  next
    case (limit l w r)
    obtain w' where w': "alert_if_needed day source ''calls'' (of_int (dict_get (ul_calls v) (day, source) 0)) (of_int l) v = (w', Inr ())"
      "ul_budget w' = ul_budget v" using a [OF v] by metis
    with limit(1,2) have "check_budget day source v = check_cost day source (dict_get (ul_cost v) (day, source) 0) w'"
      by (simp add: check_budget_def)
    with c [of w'] w'(2) v show ?thesis by simp
  qed
  have "bc_on_alert (ul_budget (add_usage x u)) = None" for x using assms by (simp add: add_usage_def Let_def)
  from b [OF this] show ?thesis unfolding ledger_record_def Let_def by (metis (no_types, lifting) old.prod.case old.sum.simps(6))
qed

text \<open>The environments in which a measured call of a source goes through: no limiter is bound to it, and no callback on alerts.\<close>

definition unlimited :: "source \<Rightarrow> 's hub_env \<Rightarrow> bool" where
  "unlimited source e \<longleftrightarrow> map_of (he_limiters e) source = None \<and> bc_on_alert (ul_budget (he_usage e)) = None"

lemma measured_unlimited:
  assumes "unlimited source e" and "call (he_world e) = (w, r)"
  shows "\<exists>e1. measured clock source endpoint (on_world call) e = (e1, r) \<and> unlimited source e1 \<and> he_world e1 = w"
proof -
  let ?e = "e\<lparr>he_world := w\<rparr>"
  have call: "on_world call e = (?e, r)" using assms(2) by (simp add: on_world_def)
  obtain u r2 where u: "ledger_record (source_value source) endpoint 1 [] (ct_latency (clock ?e)) (ct_now (clock ?e)) (he_usage e) = (u, Inr r2)"
    using ledger_record_silent assms(1) unfolding unlimited_def by blast
  have b: "ul_budget u = ul_budget (he_usage e)" using ledger_record_counts [OF u] by simp
  have "acquire_step clock source endpoint e = (e, Inr ())"
    using assms(1) by (simp add: acquire_step_def adapter_acquire_def unlimited_def)
  with call u have "measured clock source endpoint (on_world call) e = (?e\<lparr>he_usage := u\<rparr>, r)"
    by (simp add: measured_def and_then_def recorded_def adapter_record_def)
  with b assms(1) show ?thesis by (simp add: unlimited_def)
qed

text \<open>
  What can stop a measured call that the outside world answers: the limiter bound to the source, which
  refuses a token or runs into its time limit (or is still waiting when the rounds given are used up),
  and the callback on alerts.
\<close>

definition stopped :: "source \<Rightarrow> string \<Rightarrow> 's hub_env \<Rightarrow> py_error \<Rightarrow> bool" where
  "stopped source endpoint e err \<longleftrightarrow>
     map_of (he_limiters e) source \<noteq> None \<and> err \<in> {ValueError, RateLimitTimeout, OtherError ''StillWaiting'' endpoint}
     \<or> (\<exists>f alert. bc_on_alert (ul_budget (he_usage e)) = Some f \<and> f alert = Inl err)"

definition same_gates :: "source \<Rightarrow> 's hub_env \<Rightarrow> 's hub_env \<Rightarrow> bool" where
  "same_gates source e e1 \<longleftrightarrow> ul_budget (he_usage e1) = ul_budget (he_usage e)
     \<and> (map_of (he_limiters e1) source = None \<longleftrightarrow> map_of (he_limiters e) source = None)"

lemma same_gates_stopped: "same_gates source e e1 \<Longrightarrow> stopped source endpoint e1 err \<longleftrightarrow> stopped source endpoint e err"
  by (simp add: same_gates_def stopped_def)

lemma acquire_loop_error: "acquire_loop tokens deadline rounds l = Some (l', waits, Inl err) \<Longrightarrow> err = RateLimitTimeout"
proof (induction tokens deadline rounds l arbitrary: waits rule: acquire_loop.induct)
  case (2 tokens deadline now again others rounds l)
  obtain l1 ok where t: "try_acquire tokens now l = (l1, ok)" by (metis prod.exhaust)
  from 2 t show ?case by (cases ok; cases deadline) (auto split: if_splits)
qed simp

lemma acquire_step_gate:
  assumes "acquire_step clock source endpoint e = (e1, r)"
  shows "same_gates source e e1 \<and> he_world e1 = he_world e \<and> (\<forall>err. r = Inl err \<longrightarrow> stopped source endpoint e err)"
proof (cases "map_of (he_limiters e) source")
  case None
  with assms show ?thesis by (auto simp: acquire_step_def adapter_acquire_def same_gates_def)
next
  case (Some s)
  let ?t = "ct_start (clock e)" and ?rounds = "ct_rounds (clock e)"
  show ?thesis
  proof (cases "set_acquire (Some endpoint) 1 None ?t ?rounds s")
    case None
    with assms Some show ?thesis by (auto simp: acquire_step_def adapter_acquire_def same_gates_def stopped_def)
  next
    case (Some p)
    obtain s' waits r0 where p: "p = (s', waits, r0)" by (cases p)
    with assms \<open>map_of (he_limiters e) source = Some s\<close> Some have e1: "e1 = bind_rate_limits source s' e" "r = r0"
      by (simp_all add: acquire_step_def adapter_acquire_def)
    have "err \<in> {ValueError, RateLimitTimeout}" if "r0 = Inl err" for err
      using Some that unfolding p set_acquire_def Let_def acquire_def
      by (auto split: if_splits dest: acquire_loop_error)
    with e1 \<open>map_of (he_limiters e) source = Some s\<close> show ?thesis
      by (auto simp: same_gates_def stopped_def bind_rate_limits_def update_conv')
  qed
qed

lemma alert_error: "alert_if_needed day source metric val limit u = (u', Inl err) \<Longrightarrow>
    \<exists>f alert. bc_on_alert (ul_budget u) = Some f \<and> f alert = Inl err"
  by (auto simp: alert_if_needed_def Let_def split: option.splits if_splits)

lemma alert_budget: "alert_if_needed day source metric val limit u = (u', r) \<Longrightarrow> ul_budget u' = ul_budget u"
  by (auto simp: alert_if_needed_def Let_def split: option.splits if_splits)

lemma ledger_record_error:
  assumes "ledger_record source endpoint calls codes latency now u = (u', Inl err)"
  shows "\<exists>f alert. bc_on_alert (ul_budget u) = Some f \<and> f alert = Inl err"
proof -
  let ?v = "add_usage (usage_record_of (ul_budget u) source endpoint calls codes latency now) u"
  have b: "ul_budget ?v = ul_budget u" by (simp add: add_usage_def Let_def)
  have cost: "\<exists>f alert. bc_on_alert (ul_budget w) = Some f \<and> f alert = Inl err" if "check_cost day source cost w = (w', Inl err)" for day cost w w'
    using that alert_error by (auto simp: check_cost_def split: option.splits if_splits)
  obtain day where "check_budget day source ?v = (u', Inl err)"
    using assms by (auto simp: ledger_record_def Let_def split: prod.splits sum.splits)
  then have "\<exists>f alert. bc_on_alert (ul_budget ?v) = Some f \<and> f alert = Inl err"
    using cost alert_error alert_budget
    by (auto simp: check_budget_def Let_def split: option.splits if_splits prod.splits sum.splits) metis+
  then show ?thesis by (simp only: b)
qed

lemma measured_gate:
  assumes "measured clock source endpoint (on_world call) e = (e1, r)"
  shows "same_gates source e e1 \<and> ((\<exists>w. r = snd (call w)) \<or> (\<exists>err. r = Inl err \<and> stopped source endpoint e err))"
proof -
  obtain e2 q where a: "acquire_step clock source endpoint e = (e2, q)" by (metis prod.exhaust)
  note gate = acquire_step_gate [OF a]
  show ?thesis
  proof (cases q)
    case (Inl err)
    with assms a gate show ?thesis by (auto simp: measured_def and_then_def)
  next
    case (Inr u)
    with assms a have "recorded clock source endpoint (on_world call) e2 = (e1, r)" by (simp add: measured_def and_then_def)
    from recorded_usage [OF this] obtain e3 r1 v r2 where c: "on_world call e2 = (e3, r1)" and e1: "e1 = e3\<lparr>he_usage := v\<rparr>"
      and l: "ledger_record (source_value source) endpoint 1 [] (ct_latency (clock e3)) (ct_now (clock e3)) (he_usage e3) = (v, r2)"
      and r: "r = r1 \<or> (\<exists>err. r2 = Inl err \<and> r = Inl err)" by blast
    have w: "he_usage e3 = he_usage e2" "he_limiters e3 = he_limiters e2" "r1 = snd (call (he_world e2))"
      using c on_world_usage [of call e2] by (simp_all add: on_world_def split: prod.splits)
    have "same_gates source e e1" using gate ledger_record_counts [OF l] w by (simp add: same_gates_def e1)
    moreover have "stopped source endpoint e err" if "r2 = Inl err" for err
      using ledger_record_error [OF l [unfolded that]] gate w by (simp add: stopped_def same_gates_def)
    ultimately show ?thesis using r w(3) by blast
  qed
qed

text \<open>Paging over fetches that answer the slice of the offset or stop with an error.\<close>

lemma paged_slices:
  fixes rs :: "'r list"
  assumes fetch: "\<And>offset e e1 r. I e \<Longrightarrow> fetch offset e = (e1, r) \<Longrightarrow>
      I e1 \<and> (case r of Inr page \<Rightarrow> rows page = take n (drop offset rs) | Inl err \<Rightarrow> stop err)" and "0 < n"
  shows "I e \<Longrightarrow> paged (\<lambda>f. length (rows f)) fetch n k offset e = (e', r) \<Longrightarrow>
    (case r of Inr pages \<Rightarrow> concat (map rows pages) = take (k * n) (drop offset rs) | Inl err \<Rightarrow> stop err)"
proof (induction k arbitrary: offset e e' r)
  case (Suc k)
  obtain e1 q where f: "fetch offset e = (e1, q)" by (metis prod.exhaust)
  note slice = fetch [OF Suc.prems(1) f]
  have split: "take (Suc k * n) xs = take n xs @ take (k * n) (drop n xs)" for xs :: "'r list" by (simp add: take_add)
  show ?case
  proof (cases q)
    case (Inl err)
    with Suc.prems(2) f slice show ?thesis by auto
  next
    case (Inr page)
    with slice have page: "rows page = take n (drop offset rs)" and i: "I e1" by simp_all
    show ?thesis
    proof (cases "length (rows page) < n")
      case True
      then have "drop n (drop offset rs) = []" using page by auto
      with True f Inr page Suc.prems(2) split [of "drop offset rs"] show ?thesis by (auto split: if_splits)
    next
      case False
      then have l: "length (rows page) = n" using page by simp
      obtain e2 q2 where rest: "paged (\<lambda>f. length (rows f)) fetch n k (offset + n) e1 = (e2, q2)" by (metis prod.exhaust)
      with Suc.prems(2) f Inr l assms(2) have r: "r = map_sum id (\<lambda>rest. page # rest) q2"
        by (cases q2) (auto simp: and_then_def)
      from Suc.IH [OF i rest] page split [of "drop offset rs"] show ?thesis
        by (cases q2) (auto simp: r add.commute)
    qed
  qed
qed simp

lemma compact_date_digits: "compact_date s = Inr t \<Longrightarrow> length t = 8 \<and> list_all is_digit t"
  by (auto simp: compact_date_def is_digits_def Let_def split: if_splits)

end
