(* ===== verification/Src_Tushare.thy ===== *)
theory Src_Tushare
  imports Src_Calls "HOL-Library.Multiset"
begin

text \<open>
  The Tushare adapter (\<open>sources/tushare.py\<close>).  The Tushare client is a parameter: which endpoints it has, and
  what a call does to the outside world and answers.  Data frames are those of \<open>pandas\<close> and \<open>tables\<close>.
\<close>

subsection \<open>Endpoints\<close>

fun BARS_ENDPOINTS :: "sec_type \<Rightarrow> string option" where
  "BARS_ENDPOINTS STOCK = Some ''daily''"
| "BARS_ENDPOINTS ETF = Some ''fund_daily''"
| "BARS_ENDPOINTS LOF = Some ''fund_daily''"
| "BARS_ENDPOINTS INDEX = Some ''index_daily''"
| "BARS_ENDPOINTS FUND = None"

fun FACTOR_ENDPOINTS :: "sec_type \<Rightarrow> string option" where
  "FACTOR_ENDPOINTS STOCK = Some ''adj_factor''"
| "FACTOR_ENDPOINTS ETF = Some ''fund_adj''"
| "FACTOR_ENDPOINTS LOF = Some ''fund_adj''"
| "FACTOR_ENDPOINTS _ = None"

fun SECURITY_INFO_ENDPOINTS :: "sec_type \<Rightarrow> string" where
  "SECURITY_INFO_ENDPOINTS STOCK = ''stock_basic''"
| "SECURITY_INFO_ENDPOINTS ETF = ''fund_basic''"
| "SECURITY_INFO_ENDPOINTS LOF = ''fund_basic''"
| "SECURITY_INFO_ENDPOINTS FUND = ''fund_basic''"
| "SECURITY_INFO_ENDPOINTS INDEX = ''index_basic''"

definition SECURITY_INFO_FIELDS :: "string \<Rightarrow> string" where
  "SECURITY_INFO_FIELDS endpoint =
     (if endpoint = ''stock_basic'' then ''ts_code,name,list_status,list_date,delist_date,market''
      else if endpoint = ''fund_basic'' then ''ts_code,name,status,list_date,delist_date,market''
      else ''ts_code,name,list_date,market'')"

definition MEMBER_PAGE_SIZE :: nat where "MEMBER_PAGE_SIZE = 3000"
definition EVENT_PAGE_SIZE :: nat where "EVENT_PAGE_SIZE = 1000"
definition MAX_PAGES :: nat where "MAX_PAGES = 50"

subsection \<open>Queries\<close>

record ('s, 'f) ts_api =
  ta_has :: "string \<Rightarrow> bool"
  ta_call :: "string \<Rightarrow> api_args \<Rightarrow> ('s, 'f option) step"

definition ts_query :: "('f, 'c) pandas \<Rightarrow> ('s, 'f) ts_api \<Rightarrow> 's call_clock \<Rightarrow> string \<Rightarrow> api_args \<Rightarrow> ('s hub_env, 'f) step" where
  "ts_query P api clock endpoint args =
     (if \<not> ta_has api endpoint then throw SourceError
      else and_then (measured clock TUSHARE endpoint (failing_as SourceError (on_world (ta_call api endpoint args)))) (\<lambda>r.
             give (case r of None \<Rightarrow> pd_empty P | Some df \<Rightarrow> df)))"

definition frame_size :: "('f, 'c) pandas \<Rightarrow> ('f, 'c) tables \<Rightarrow> 'f \<Rightarrow> nat" where
  "frame_size P T df = (if pd_is_empty P df then 0 else tb_length T df)"

text \<open>The rows of a frame, and what the functions of frames do with them: what is relied on of pandas.\<close>

definition frame_rows :: "('f, 'c) pandas \<Rightarrow> ('f, 'c) tables \<Rightarrow> ('f \<Rightarrow> 'r list) \<Rightarrow> bool" where
  "frame_rows P T rows \<longleftrightarrow>
     (\<forall>df. pd_is_empty P df \<longleftrightarrow> rows df = []) \<and> (\<forall>df. tb_length T df = length (rows df))
     \<and> (\<forall>dfs. dfs \<noteq> [] \<longrightarrow> rows (pd_concat P dfs) = concat (map rows dfs)) \<and> rows (pd_empty P) = []"

definition page_args :: "nat \<Rightarrow> nat \<Rightarrow> api_args" where
  "page_args n offset = [(''limit'', ArgInt (int n)), (''offset'', ArgInt (int offset))]"

definition paged_query ::
  "('f, 'c) pandas \<Rightarrow> ('f, 'c) tables \<Rightarrow> ('s, 'f) ts_api \<Rightarrow> 's call_clock \<Rightarrow> string \<Rightarrow> api_args \<Rightarrow> ('s hub_env, 'f) step" where
  "paged_query P T api clock endpoint args =
     and_then (paged (frame_size P T) (\<lambda>offset. ts_query P api clock endpoint (page_args EVENT_PAGE_SIZE offset @ args))
                EVENT_PAGE_SIZE MAX_PAGES 0) (\<lambda>pages.
       give (if pages = [] then pd_empty P else pd_concat P pages))"

definition joined_codes :: "sec_code list \<Rightarrow> string result" where
  "joined_codes codes =
     map_sum id (\<lambda>texts. join '','' texts)
       (foldr (\<lambda>c r. bind_result (to_source (mapper_of TUSHARE) c None) (\<lambda>t. bind_result r (\<lambda>ts. Inr (t # ts)))) codes (Inr []))"

definition range_args :: "string \<Rightarrow> string \<Rightarrow> api_args result" where
  "range_args start end =
     bind_result (compact_date start) (\<lambda>a. bind_result (compact_date end) (\<lambda>b.
       Inr [(''start_date'', ArgText a), (''end_date'', ArgText b)]))"

text \<open>The frames of several queries: an empty answer is left out, the others are normalised.\<close>

definition collect :: "('a \<Rightarrow> ('e, 'f option) step) \<Rightarrow> 'a list \<Rightarrow> ('e, 'f list) step" where
  "collect f xs = and_then (each f xs) (\<lambda>rs. give (List.map_filter (\<lambda>r. r) rs))"

definition normalized ::
  "('f, 'c) pandas \<Rightarrow> ('f, 'c) tables \<Rightarrow> string \<Rightarrow> ('e, 'f) step \<Rightarrow> ('e, 'f option) step" where
  "normalized P T capability query =
     and_then query (\<lambda>raw.
       if pd_is_empty P raw then give None
       else (case map_of (ss_responses tushare_spec) capability of
               None \<Rightarrow> throw KeyError
             | Some spec \<Rightarrow> and_then (of_result (normalize P T (Some (mapper_of TUSHARE)) None spec raw)) (\<lambda>df. give (Some df))))"

subsection \<open>Empty answers\<close>

definition without_currency :: "string list \<Rightarrow> string list" where
  "without_currency columns = filter (\<lambda>c. c \<noteq> ''currency'') columns"

definition empty_factors :: "('f, 'c) tables \<Rightarrow> 'f" where
  "empty_factors T = tb_empty T [''code'', ''date'', ''adj_factor'']"

definition empty_weights :: "('f, 'c) tables \<Rightarrow> 'f" where
  "empty_weights T = tb_empty T [''code'', ''date'', ''con_code'', ''weight'']"

definition empty_reference :: "('f, 'c) tables \<Rightarrow> string list \<Rightarrow> 'f" where
  "empty_reference T columns = tb_empty T (without_currency columns)"

text \<open>\<open>_empty_financials\<close> and \<open>_empty_events\<close> give the date columns the type of dates.\<close>

definition dated :: "('f, 'c) pandas \<Rightarrow> ('f, 'c) tables \<Rightarrow> string list \<Rightarrow> 'f \<Rightarrow> 'f" where
  "dated P T columns df =
     foldl (\<lambda>df c. if c \<in> set (pd_columns P df) then pd_set_column P c (tb_as_datetime T (pd_column P df c)) df else df) df columns"

definition empty_financials :: "('f, 'c) pandas \<Rightarrow> ('f, 'c) tables \<Rightarrow> string list \<Rightarrow> 'f" where
  "empty_financials P T columns = dated P T [''ann_date'', ''end_date''] (empty_reference T columns)"

definition empty_events :: "('f, 'c) pandas \<Rightarrow> ('f, 'c) tables \<Rightarrow> string list \<Rightarrow> 'f" where
  "empty_events P T columns = dated P T [''date'', ''ipo_date'', ''issue_date'', ''start_date'', ''end_date''] (empty_reference T columns)"

subsection \<open>Factors and bars\<close>

definition grouped_queries ::
  "('f, 'c) pandas \<Rightarrow> ('f, 'c) tables \<Rightarrow> ('s, 'f) ts_api \<Rightarrow> 's call_clock \<Rightarrow> string \<Rightarrow> (sec_type \<Rightarrow> string option) \<Rightarrow> sec_code list
    \<Rightarrow> string \<Rightarrow> string \<Rightarrow> ('s hub_env, 'f list) step" where
  "grouped_queries P T api clock capability endpoint codes start end =
     collect (\<lambda>(name, members).
         and_then (of_result (joined_codes members)) (\<lambda>text.
         and_then (of_result (range_args start end)) (\<lambda>span.
           normalized P T capability (ts_query P api clock name ((''ts_code'', ArgText text) # span)))))
       (group_by (\<lambda>c. the (endpoint (sc_type c))) codes [])"

definition ts_fetch_adjust_factors ::
  "('f, 'c) pandas \<Rightarrow> ('f, 'c) tables \<Rightarrow> ('s, 'f) ts_api \<Rightarrow> 's call_clock \<Rightarrow> sec_code list \<Rightarrow> string \<Rightarrow> string \<Rightarrow> ('s hub_env, 'f) step" where
  "ts_fetch_adjust_factors P T api clock codes start end =
     (if \<exists>c \<in> set codes. FACTOR_ENDPOINTS (sc_type c) = None then throw UnsupportedCapability
      else and_then (grouped_queries P T api clock ''adjust_factors'' FACTOR_ENDPOINTS codes start end) (\<lambda>frames.
             give (if frames = [] then empty_factors T else pd_sort_values P [''code'', ''date''] (pd_concat P frames))))"

definition ts_apply_adjust :: "('f, 'c) pandas \<Rightarrow> 'f \<Rightarrow> 'f \<Rightarrow> string \<Rightarrow> 'f result" where
  "ts_apply_adjust P bars factors adjust =
     (let merged = pd_merge_left P [''code'', ''date''] bars factors;
          f = pd_column P merged ''adj_factor''
      in if pd_isna_any P f then Inl SourceError
         else let ratio = (if adjust = ''qfq'' then pd_div P f (pd_group_last P merged ''code'' ''adj_factor'') else f)
              in Inr (pd_drop_column P ''adj_factor''
                   (foldl (\<lambda>df c. pd_set_column P c (pd_mul P (pd_column P df c) ratio) df) merged [''open'', ''high'', ''low'', ''close''])))"

definition ts_fetch_bars ::
  "('f, 'c) pandas \<Rightarrow> ('f, 'c) tables \<Rightarrow> ('s, 'f) ts_api \<Rightarrow> 's call_clock \<Rightarrow> sec_code list \<Rightarrow> string \<Rightarrow> string \<Rightarrow> string
    \<Rightarrow> string option \<Rightarrow> string list option \<Rightarrow> ('s hub_env, 'f) step" where
  "ts_fetch_bars P T api clock codes start end freq adjust wanted =
     (if freq \<notin> {''1d'', ''d'', ''D''} then throw UnsupportedCapability
      else if adjust \<notin> {None, Some ''qfq'', Some ''hfq''} then throw ValueError
      else if \<exists>c \<in> set codes. BARS_ENDPOINTS (sc_type c) = None then throw UnsupportedCapability
      else and_then (grouped_queries P T api clock ''bars'' BARS_ENDPOINTS codes start end) (\<lambda>frames.
             if frames = [] then give (empty_bars T)
             else and_then (case adjust of
                     None \<Rightarrow> give (pd_concat P frames)
                   | Some a \<Rightarrow> and_then (ts_fetch_adjust_factors P T api clock codes start end) (\<lambda>factors.
                       if pd_is_empty P factors then throw SourceError
                       else of_result (ts_apply_adjust P (pd_concat P frames) factors a))) (\<lambda>bars.
                  give (pd_sort_values P [''code'', ''date''] bars))))"

subsection \<open>Fund values, index weights, financials\<close>

definition opt_date_arg :: "string \<Rightarrow> string option \<Rightarrow> api_args result" where
  "opt_date_arg name day =
     (case day of
        Some (a # s) \<Rightarrow> map_sum id (\<lambda>t. [(name, ArgText t)]) (compact_date (a # s))
      | _ \<Rightarrow> Inr [])"

definition ts_fetch_fund_nav ::
  "('f, 'c) pandas \<Rightarrow> ('f, 'c) tables \<Rightarrow> ('s, 'f) ts_api \<Rightarrow> 's call_clock \<Rightarrow> sec_code list \<Rightarrow> string option \<Rightarrow> string option
    \<Rightarrow> ('s hub_env, 'f) step" where
  "ts_fetch_fund_nav P T api clock codes start end =
     and_then (of_result (joined_codes codes)) (\<lambda>text.
     and_then (of_result (opt_date_arg ''start_date'' start)) (\<lambda>a.
     and_then (of_result (opt_date_arg ''end_date'' end)) (\<lambda>b.
     and_then (normalized P T ''fund_nav'' (ts_query P api clock ''fund_nav'' ((''ts_code'', ArgText text) # a @ b))) (\<lambda>r.
       case r of
         None \<Rightarrow> give (empty_nav T)
       | Some df \<Rightarrow>
           let nav = pd_sort_values P [''code'', ''date''] df
           in give (pd_set_column P ''daily_return'' (tb_scale T 100 (tb_pct_change T ''code'' ''unit_nav'' nav)) nav)))))"

definition single_query ::
  "('f, 'c) pandas \<Rightarrow> ('f, 'c) tables \<Rightarrow> ('s, 'f) ts_api \<Rightarrow> 's call_clock \<Rightarrow> string \<Rightarrow> string \<Rightarrow> string \<Rightarrow> string \<Rightarrow> string \<Rightarrow> sec_code list
    \<Rightarrow> ('s hub_env, 'f option) step" where
  "single_query P T api clock capability endpoint key start end codes =
     and_then (of_result (joined_codes codes)) (\<lambda>text.
     and_then (of_result (range_args start end)) (\<lambda>span.
       normalized P T capability (ts_query P api clock endpoint ((key, ArgText text) # span))))"

definition ts_fetch_index_weights ::
  "('f, 'c) pandas \<Rightarrow> ('f, 'c) tables \<Rightarrow> ('s, 'f) ts_api \<Rightarrow> 's call_clock \<Rightarrow> sec_code list \<Rightarrow> string \<Rightarrow> string \<Rightarrow> ('s hub_env, 'f) step" where
  "ts_fetch_index_weights P T api clock codes start end =
     (if \<exists>c \<in> set codes. sc_type c \<noteq> INDEX then throw UnsupportedCapability
      else and_then (collect (\<lambda>c. single_query P T api clock ''index_weights'' ''index_weight'' ''index_code'' start end [c]) codes) (\<lambda>frames.
             give (if frames = [] then empty_weights T
                   else pd_sort_values P [''code'', ''date'', ''con_code''] (pd_concat P frames))))"

definition ts_fetch_financials ::
  "('f, 'c) pandas \<Rightarrow> ('f, 'c) tables \<Rightarrow> ('s, 'f) ts_api \<Rightarrow> 's call_clock \<Rightarrow> sec_code list \<Rightarrow> string \<Rightarrow> string \<Rightarrow> string
    \<Rightarrow> ('s hub_env, 'f) step" where
  "ts_fetch_financials P T api clock codes kind start end =
     (case map_of FINANCIAL_COLUMNS kind of
        None \<Rightarrow> throw UnsupportedCapability
      | Some columns \<Rightarrow>
          and_then
            (if kind = ''balance_sheet''
             then collect (\<lambda>c. single_query P T api clock ''balance_sheet'' ''balancesheet'' ''ts_code'' start end [c]) codes
             else collect (single_query P T api clock ''financial_indicator'' ''fina_indicator'' ''ts_code'' start end) [codes]) (\<lambda>frames.
            give (if frames = [] then empty_financials P T columns
                  else pd_sort_values P [''code'', ''ann_date'', ''end_date''] (pd_concat P frames))))"

definition ts_fetch_trade_calendar ::
  "('f, 'c) pandas \<Rightarrow> ('f, 'c) tables \<Rightarrow> ('s, 'f) ts_api \<Rightarrow> 's call_clock \<Rightarrow> string \<Rightarrow> string \<Rightarrow> ('s hub_env, 'f) step" where
  "ts_fetch_trade_calendar P T api clock start end =
     and_then (of_result (range_args start end)) (\<lambda>span.
     and_then (ts_query P api clock ''trade_cal'' ((''exchange'', ArgText ''SSE'') # span)) (\<lambda>raw.
     and_then (of_result (normalize P T None None tushare_trade_calendar_spec raw)) (\<lambda>df.
       give (pd_sort_values P [''date''] df))))"


subsection \<open>Market events\<close>

definition ts_event_frame ::
  "('f, 'c) pandas \<Rightarrow> ('f, 'c) tables \<Rightarrow> string list \<Rightarrow> string list \<Rightarrow> string list \<Rightarrow> 'f option \<Rightarrow> 'f" where
  "ts_event_frame P T columns wanted sort_by r =
     (case r of
        None \<Rightarrow> empty_events P T columns
      | Some df \<Rightarrow>
          let kept = (if wanted = [] then df else tb_keep_in T ''code'' wanted df)
          in if pd_is_empty P kept then empty_events P T columns else pd_sort_values P sort_by kept)"

definition event_pages ::
  "('f, 'c) pandas \<Rightarrow> ('f, 'c) tables \<Rightarrow> ('s, 'f) ts_api \<Rightarrow> 's call_clock \<Rightarrow> string \<Rightarrow> string \<Rightarrow> string \<Rightarrow> string \<Rightarrow> api_args
    \<Rightarrow> ('s hub_env, 'f option) step" where
  "event_pages P T api clock start end capability endpoint args =
     and_then (of_result (range_args start end)) (\<lambda>span. normalized P T capability (paged_query P T api clock endpoint (span @ args)))"

definition ts_fetch_market_events ::
  "('f, 'c) pandas \<Rightarrow> ('f, 'c) tables \<Rightarrow> ('s, 'f) ts_api \<Rightarrow> 's call_clock \<Rightarrow> string \<Rightarrow> string \<Rightarrow> string \<Rightarrow> sec_code list option
    \<Rightarrow> ('s hub_env, 'f) step" where
  "ts_fetch_market_events P T api clock kind start end codes =
     (let chosen = (case codes of None \<Rightarrow> [] | Some cs \<Rightarrow> cs);
          wanted = map canonical chosen;
          pages = event_pages P T api clock start end
      in case map_of MARKET_EVENT_COLUMNS kind of
           None \<Rightarrow> throw UnsupportedCapability
         | Some columns \<Rightarrow>
             if kind = ''ipo''
             then and_then (pages ''ipo'' ''new_share'' []) (\<lambda>r. give (ts_event_frame P T columns wanted [''code'', ''ipo_date''] r))
             else if kind = ''suspension''
             then and_then (of_result (range_args start end)) (\<lambda>_.
                  and_then (of_result (if chosen = [] then Inr [] else map_sum id (\<lambda>t. [(''ts_code'', ArgText t)]) (joined_codes chosen))) (\<lambda>more.
                  and_then (pages ''suspension'' ''suspend_d'' more) (\<lambda>r. give (ts_event_frame P T columns [] [''code'', ''date''] r))))
             else if kind = ''namechange''
             then and_then (of_result (foldr (\<lambda>c r. bind_result (joined_codes [c]) (\<lambda>t. map_sum id (\<lambda>qs. [(''ts_code'', ArgText t)] # qs) r))
                      chosen (Inr []))) (\<lambda>queries.
                  and_then (collect (pages ''namechange'' ''namechange'') (if chosen = [] then [[]] else queries)) (\<lambda>frames.
                    give (if frames = [] then empty_events P T columns
                          else pd_sort_values P [''code'', ''start_date''] (pd_concat P frames))))
             else and_then (pages ''st'' ''stock_st'' []) (\<lambda>r. give (ts_event_frame P T columns wanted [''code'', ''date''] r)))"

subsection \<open>Reference data\<close>

text \<open>
  How a column of a reference frame is taken from the answer: \<open>raw[c]\<close>, which raises when the column is
  missing, \<open>_col(raw, c)\<close> and \<open>raw.get(c)\<close>, which leave it empty, as a date or a number.
\<close>

datatype col_rule = Need string | Maybe string | NeedDay string | MaybeDay string | MaybeNumber string

definition from_ts_date :: "('f, 'c) tables \<Rightarrow> 'c \<Rightarrow> 'c" where
  "from_ts_date T c = tb_coerce_dates T (Some ''%Y%m%d'') (tb_as_text T c)"

definition maybe_col :: "('f, 'c) pandas \<Rightarrow> 'f \<Rightarrow> string \<Rightarrow> 'c" where
  "maybe_col P raw name = (if name \<in> set (pd_columns P raw) then pd_column P raw name else pd_na P raw)"

fun take_col :: "('f, 'c) pandas \<Rightarrow> ('f, 'c) tables \<Rightarrow> 'f \<Rightarrow> col_rule \<Rightarrow> 'c result" where
  "take_col P T raw (Need c) = (if c \<in> set (pd_columns P raw) then Inr (pd_column P raw c) else Inl KeyError)"
| "take_col P T raw (NeedDay c) = (if c \<in> set (pd_columns P raw) then Inr (from_ts_date T (pd_column P raw c)) else Inl KeyError)"
| "take_col P T raw (Maybe c) = Inr (maybe_col P raw c)"
| "take_col P T raw (MaybeDay c) = Inr (from_ts_date T (maybe_col P raw c))"
| "take_col P T raw (MaybeNumber c) = Inr (tb_to_numeric T (maybe_col P raw c))"

fun take_cols :: "('f, 'c) pandas \<Rightarrow> ('f, 'c) tables \<Rightarrow> 'f \<Rightarrow> (string \<times> col_rule) list \<Rightarrow> (string \<times> 'c) list result" where
  "take_cols P T raw [] = Inr []"
| "take_cols P T raw ((name, rule) # rest) =
     bind_result (take_col P T raw rule) (\<lambda>c. bind_result (take_cols P T raw rest) (\<lambda>cs. Inr ((name, c) # cs)))"

definition frame_of_rules :: "('f, 'c) pandas \<Rightarrow> ('f, 'c) tables \<Rightarrow> (string \<times> col_rule) list \<Rightarrow> 'f \<Rightarrow> 'f result" where
  "frame_of_rules P T rules raw = map_sum id (tb_make T) (take_cols P T raw rules)"

definition stock_list_rules :: "(string \<times> col_rule) list" where
  "stock_list_rules = [(''code'', Need ''ts_code''), (''name'', Need ''name''), (''list_date'', NeedDay ''list_date''),
     (''market'', Maybe ''market''), (''industry'', Maybe ''industry'')]"

definition fund_list_rules :: "(string \<times> col_rule) list" where
  "fund_list_rules = [(''code'', Need ''ts_code''), (''name'', Need ''name''), (''fund_type'', Maybe ''fund_type''),
     (''management'', Maybe ''management''), (''list_date'', NeedDay ''list_date''), (''market'', Maybe ''market'')]"

definition etf_list_rules :: "(string \<times> col_rule) list" where
  "etf_list_rules = [(''code'', Need ''ts_code''), (''name'', Need ''csname''), (''fullname'', Maybe ''cname''),
     (''index_code'', Maybe ''index_code''), (''index_name'', Maybe ''index_name''), (''setup_date'', MaybeDay ''setup_date''),
     (''list_date'', NeedDay ''list_date''), (''list_status'', Maybe ''list_status''), (''exchange'', Maybe ''exchange''),
     (''manager'', Maybe ''mgr_name''), (''custodian'', Maybe ''custod_name''), (''mgt_fee'', MaybeNumber ''mgt_fee''),
     (''etf_type'', Maybe ''etf_type'')]"

definition delist_list_rules :: "(string \<times> col_rule) list" where
  "delist_list_rules = [(''code'', Need ''ts_code''), (''name'', Need ''name''), (''list_date'', NeedDay ''list_date''),
     (''delist_date'', MaybeDay ''delist_date''), (''market'', Maybe ''market'')]"

definition industry_classify_rules :: "(string \<times> col_rule) list" where
  "industry_classify_rules = [(''index_code'', Need ''index_code''), (''name'', Need ''industry_name''), (''level'', Maybe ''level''),
     (''industry_code'', Maybe ''industry_code''), (''parent_code'', Maybe ''parent_code''), (''is_pub'', Maybe ''is_pub''),
     (''src'', Maybe ''src'')]"

definition industry_member_rules :: "(string \<times> col_rule) list" where
  "industry_member_rules = [(''code'', Need ''ts_code''), (''name'', Need ''name''), (''l1_code'', Need ''l1_code''),
     (''l1_name'', Need ''l1_name''), (''l2_code'', Need ''l2_code''), (''l2_name'', Need ''l2_name''), (''l3_code'', Need ''l3_code''),
     (''l3_name'', Need ''l3_name''), (''in_date'', NeedDay ''in_date''), (''out_date'', NeedDay ''out_date''), (''is_new'', Maybe ''is_new'')]"

definition index_list_rules :: "(string \<times> col_rule) list" where
  "index_list_rules = [(''code'', Need ''ts_code''), (''name'', Need ''name''), (''market'', Maybe ''market''),
     (''category'', Maybe ''category''), (''publisher'', Maybe ''publisher''), (''list_date'', NeedDay ''list_date'')]"

text \<open>The pages of the industry members: a loop without a bound, \<open>fuel\<close> calls of which are given to it.\<close>

definition member_pages ::
  "('f, 'c) pandas \<Rightarrow> ('f, 'c) tables \<Rightarrow> ('s, 'f) ts_api \<Rightarrow> 's call_clock \<Rightarrow> nat \<Rightarrow> string \<Rightarrow> ('s hub_env, 'f list) step" where
  "member_pages P T api clock fuel is_new e =
     (case paged_all (frame_size P T)
             (\<lambda>offset. ts_query P api clock ''index_member_all'' ((''is_new'', ArgText is_new) # page_args MEMBER_PAGE_SIZE offset))
             MEMBER_PAGE_SIZE fuel 0 e of
        Some r \<Rightarrow> r
      | None \<Rightarrow> (e, Inl (OtherError ''StillPaging'' [])))"

definition ts_list ::
  "('f, 'c) pandas \<Rightarrow> ('f, 'c) tables \<Rightarrow> ('s, 'f) ts_api \<Rightarrow> 's call_clock \<Rightarrow> string \<Rightarrow> api_args \<Rightarrow> (string \<times> col_rule) list
    \<Rightarrow> ('s hub_env, 'f) step" where
  "ts_list P T api clock endpoint args rules =
     and_then (ts_query P api clock endpoint args) (\<lambda>raw. of_result (frame_of_rules P T rules raw))"

definition ts_list_or_empty ::
  "('f, 'c) pandas \<Rightarrow> ('f, 'c) tables \<Rightarrow> ('s, 'f) ts_api \<Rightarrow> 's call_clock \<Rightarrow> string \<Rightarrow> api_args \<Rightarrow> string list \<Rightarrow> (string \<times> col_rule) list
    \<Rightarrow> ('s hub_env, 'f) step" where
  "ts_list_or_empty P T api clock endpoint args columns rules =
     and_then (ts_query P api clock endpoint args) (\<lambda>raw.
       if pd_is_empty P raw then give (empty_reference T columns) else of_result (frame_of_rules P T rules raw))"

definition ts_fetch_reference ::
  "('f, 'c) pandas \<Rightarrow> ('f, 'c) tables \<Rightarrow> ('s, 'f) ts_api \<Rightarrow> 's call_clock \<Rightarrow> nat \<Rightarrow> string \<Rightarrow> ('s hub_env, 'f) step" where
  "ts_fetch_reference P T api clock fuel kind =
     (let columns = dict_get REFERENCE_COLUMNS kind []
      in if kind = ''stock_list''
         then ts_list P T api clock ''stock_basic'' [(''fields'', ArgText ''ts_code,name,list_date,market,industry'')] stock_list_rules
         else if kind = ''fund_list''
         then ts_list P T api clock ''fund_basic'' [(''fields'', ArgText ''ts_code,name,fund_type,management,list_date,market'')] fund_list_rules
         else if kind = ''etf_list''
         then ts_list_or_empty P T api clock ''etf_basic''
                [(''fields'', ArgText (''ts_code,csname,cname,index_code,index_name,setup_date,''
                    @ ''list_date,list_status,exchange,mgr_name,custod_name,'' @ ''mgt_fee,etf_type''))] columns etf_list_rules
         else if kind = ''delist_list''
         then ts_list_or_empty P T api clock ''stock_basic''
                [(''list_status'', ArgText ''D''), (''fields'', ArgText ''ts_code,name,list_date,delist_date,market'')] columns delist_list_rules
         else if kind = ''industry_classify''
         then and_then (collect (\<lambda>level.
                  and_then (ts_query P api clock ''index_classify'' [(''src'', ArgText ''SW2021''), (''level'', ArgText level)]) (\<lambda>raw.
                    if pd_is_empty P raw then give None
                    else and_then (of_result (frame_of_rules P T industry_classify_rules raw)) (\<lambda>df. give (Some df))))
                [''L1'', ''L2'', ''L3'']) (\<lambda>frames.
                give (if frames = [] then empty_reference T columns else pd_concat P frames))
         else if kind = ''industry_member''
         then and_then (each (member_pages P T api clock fuel) [''Y'', ''N'']) (\<lambda>pages.
                if concat pages = [] then give (empty_reference T columns)
                else of_result (frame_of_rules P T industry_member_rules (pd_concat P (concat pages))))
         else if kind = ''index_list''
         then ts_list P T api clock ''index_basic'' [(''fields'', ArgText ''ts_code,name,market,category,publisher,list_date'')] index_list_rules
         else throw UnsupportedCapability)"

subsection \<open>Security information\<close>

definition security_info_frame :: "('f, 'c) pandas \<Rightarrow> ('f, 'c) tables \<Rightarrow> string \<Rightarrow> 'f \<Rightarrow> 'f result" where
  "security_info_frame P T endpoint raw =
     (if ''ts_code'' \<notin> set (pd_columns P raw) then Inl KeyError
      else let texts = tb_read_texts T (pd_column P raw ''ts_code'');
               status = (if endpoint = ''stock_basic'' then ''list_status'' else ''status'')
           in Inr (tb_make T
                [(''code'', tb_texts T texts),
                 (''name'', maybe_col P raw ''name''),
                 (''sec_type'', tb_opt_texts T (map (\<lambda>t. case parse_text t None of Inr c \<Rightarrow> Some (sec_type_value (sc_type c)) | Inl _ \<Rightarrow> None) texts)),
                 (''market'', tb_opt_texts T (map (\<lambda>t. map_option snd (rpartition (CHR ''.'') t)) texts)),
                 (''list_status'', maybe_col P raw status),
                 (''list_date'', from_ts_date T (maybe_col P raw ''list_date'')),
                 (''delist_date'', from_ts_date T (maybe_col P raw ''delist_date''))]))"

definition info_chunks :: "string \<Rightarrow> sec_code list \<Rightarrow> sec_code list list" where
  "info_chunks endpoint members = (if endpoint \<in> {''fund_basic'', ''index_basic''} then map (\<lambda>c. [c]) members else [members])"

definition info_queries :: "sec_code list \<Rightarrow> (string \<times> sec_code list) list" where
  "info_queries codes =
     concat (map (\<lambda>(endpoint, members). map (\<lambda>chunk. (endpoint, chunk)) (info_chunks endpoint members))
       (group_by (\<lambda>c. SECURITY_INFO_ENDPOINTS (sc_type c)) codes []))"

definition ts_fetch_security_info ::
  "('f, 'c) pandas \<Rightarrow> ('f, 'c) tables \<Rightarrow> ('s, 'f) ts_api \<Rightarrow> 's call_clock \<Rightarrow> sec_code list \<Rightarrow> ('s hub_env, 'f) step" where
  "ts_fetch_security_info P T api clock codes =
     (if codes = [] then give (empty_reference T SECURITY_INFO_COLUMNS)
      else and_then (collect (\<lambda>(endpoint, chunk).
               and_then (of_result (joined_codes chunk)) (\<lambda>text.
               and_then (ts_query P api clock endpoint [(''ts_code'', ArgText text), (''fields'', ArgText (SECURITY_INFO_FIELDS endpoint))]) (\<lambda>raw.
                 if pd_is_empty P raw then give None
                 else and_then (of_result (security_info_frame P T endpoint raw)) (\<lambda>df. give (Some df)))))
             (info_queries codes)) (\<lambda>frames.
             give (if frames = [] then empty_reference T SECURITY_INFO_COLUMNS
                   else pd_sort_values P [''code''] (pd_drop_duplicates P [''code''] (pd_concat P frames)))))"

subsection \<open>The adapter\<close>

definition TUSHARE_CAPABILITIES :: "capability list" where
  "TUSHARE_CAPABILITIES = [BARS, FUND_NAV, REFERENCE, TRADE_CALENDAR, SECURITY_INFO, INDEX_WEIGHTS, FINANCIALS, MARKET_EVENTS, ADJUST_FACTORS]"

definition tushare_adapter ::
  "('f, 'c) pandas \<Rightarrow> ('f, 'c) tables \<Rightarrow> ('s, 'f) ts_api \<Rightarrow> 's call_clock \<Rightarrow> nat \<Rightarrow> ('s, 'f) adapter" where
  "tushare_adapter P T api clock fuel =
     (base_adapter TUSHARE TUSHARE_CAPABILITIES)
       \<lparr>fetch_bars := ts_fetch_bars P T api clock,
        fetch_fund_nav := ts_fetch_fund_nav P T api clock,
        fetch_reference := ts_fetch_reference P T api clock fuel,
        fetch_security_info := ts_fetch_security_info P T api clock,
        fetch_index_weights := ts_fetch_index_weights P T api clock,
        fetch_financials := ts_fetch_financials P T api clock,
        fetch_market_events := ts_fetch_market_events P T api clock,
        fetch_trade_calendar := ts_fetch_trade_calendar P T api clock,
        fetch_adjust_factors := ts_fetch_adjust_factors P T api clock\<rparr>"

text \<open>The constructor: a client that is handed in, or one made from the token.\<close>

definition new_tushare ::
  "('f, 'c) pandas \<Rightarrow> ('f, 'c) tables \<Rightarrow> 's call_clock \<Rightarrow> nat \<Rightarrow> (string \<Rightarrow> ('s, 'f) ts_api result) \<Rightarrow> string option \<Rightarrow> ('s, 'f) ts_api option
    \<Rightarrow> ('s, 'f) adapter result" where
  "new_tushare P T clock fuel default_api token api =
     (case api of
        Some a \<Rightarrow> Inr (tushare_adapter P T a clock fuel)
      | None \<Rightarrow> (case token of
          Some (a # t) \<Rightarrow> map_sum id (\<lambda>a. tushare_adapter P T a clock fuel) (default_api (a # t))
        | _ \<Rightarrow> Inl MissingCredentialError))"

subsection \<open>Lemmas\<close>

text \<open>A query that was admitted is counted, whatever the endpoint answers.\<close>

lemma ts_query_counted:
  assumes "ta_has api endpoint" and "acquire_step clock TUSHARE endpoint e = (e1, Inr ())"
    and "ts_query P api clock endpoint args e = (e', r)"
  shows "\<exists>w. dict_get (ul_calls (he_usage e')) (usage_day (ct_now (clock (e1\<lparr>he_world := w\<rparr>))), ''tushare'') 0
    = dict_get (ul_calls (he_usage e)) (usage_day (ct_now (clock (e1\<lparr>he_world := w\<rparr>))), ''tushare'') 0 + 1"
proof -
  let ?call = "failing_as SourceError (on_world (ta_call api endpoint args))"
  obtain r0 where "recorded clock TUSHARE endpoint ?call e1 = (e', r0)"
    using assms by (auto simp: ts_query_def measured_def and_then_def split: prod.splits sum.splits)
  from recorded_usage [OF this] obtain e2 r1 u r2 where c: "?call e1 = (e2, r1)" and e': "e' = e2\<lparr>he_usage := u\<rparr>"
    and l: "ledger_record (source_value TUSHARE) endpoint 1 [] (ct_latency (clock e2)) (ct_now (clock e2)) (he_usage e2) = (u, r2)"
    by blast
  have f: "fst (?call e1) = fst (on_world (ta_call api endpoint args) e1)" by (simp add: failing_as_fst)
  then obtain w where w: "e2 = e1\<lparr>he_world := w\<rparr>" using c by (auto simp: on_world_def split: prod.splits)
  have "he_usage e2 = he_usage e" using acquire_usage [OF assms(2)] w by simp
  with ledger_record_counts [OF l] e' w show ?thesis by (intro exI [of _ w]) simp
qed

text \<open>Paging: what an endpoint serves in slices of the page size.\<close>

definition ts_serves :: "('s, 'f) ts_api \<Rightarrow> string \<Rightarrow> (nat \<Rightarrow> api_args) \<Rightarrow> ('f \<Rightarrow> 'r list) \<Rightarrow> 'r list \<Rightarrow> nat \<Rightarrow> bool" where
  "ts_serves api endpoint args rows rs n \<longleftrightarrow> ta_has api endpoint
     \<and> (\<forall>w offset. \<exists>w' df. ta_call api endpoint (args offset) w = (w', Inr (Some df)) \<and> rows df = take n (drop offset rs))"

lemma frame_size_rows: "frame_rows P T rows \<Longrightarrow> frame_size P T = (\<lambda>df. length (rows df))"
  by (auto simp: frame_rows_def frame_size_def)

lemma failing_as_world: "failing_as err (on_world call) = on_world (failing_as err call)"
  by (auto simp: fun_eq_iff failing_as_def on_world_def split: prod.split sum.split)

lemma ts_query_answer:
  assumes "ta_has api endpoint" and "ta_call api endpoint args (he_world e) = (w, Inr answer)" and "unlimited TUSHARE e"
  shows "\<exists>e1. ts_query P api clock endpoint args e = (e1, Inr (case answer of None \<Rightarrow> pd_empty P | Some df \<Rightarrow> df)) \<and> unlimited TUSHARE e1"
proof -
  have "failing_as SourceError (ta_call api endpoint args) (he_world e) = (w, Inr answer)"
    using assms(2) by (simp add: failing_as_def)
  from measured_unlimited [where call = "failing_as SourceError (ta_call api endpoint args)", OF assms(3) this] obtain e1
    where "measured clock TUSHARE endpoint (on_world (failing_as SourceError (ta_call api endpoint args))) e = (e1, Inr answer)"
      "unlimited TUSHARE e1" by blast
  with assms(1) show ?thesis by (simp add: ts_query_def and_then_def failing_as_world)
qed

lemma ts_query_serves:
  assumes "ts_serves api endpoint args rows rs n"
  shows "serves (unlimited TUSHARE) rows rs n (\<lambda>offset. ts_query P api clock endpoint (args offset))"
  unfolding serves_def
proof (intro allI impI)
  fix offset and e :: "'a hub_env"
  assume u: "unlimited TUSHARE e"
  obtain w df where "ta_call api endpoint (args offset) (he_world e) = (w, Inr (Some df))" "rows df = take n (drop offset rs)"
    and h: "ta_has api endpoint" using assms unfolding ts_serves_def by blast
  with ts_query_answer [OF h _ u]
  show "\<exists>e1 page. ts_query P api clock endpoint (args offset) e = (e1, Inr page) \<and> unlimited TUSHARE e1 \<and> rows page = take n (drop offset rs)"
    by fastforce
qed

text \<open>Under any limiter and any callback: the slice of the offset, or an error of one of the two.\<close>

lemma ts_query_slice:
  assumes "ts_serves api endpoint args rows rs n" and "ts_query P api clock endpoint (args offset) e = (e1, r)"
  shows "same_gates TUSHARE e e1
    \<and> (case r of Inr page \<Rightarrow> rows page = take n (drop offset rs) | Inl err \<Rightarrow> stopped TUSHARE endpoint e err)"
proof -
  have has: "ta_has api endpoint" and call: "\<exists>df. snd (ta_call api endpoint (args offset) w) = Inr (Some df) \<and> rows df = take n (drop offset rs)"
    for w using assms(1) unfolding ts_serves_def by (metis snd_conv)+
  let ?call = "failing_as SourceError (ta_call api endpoint (args offset))"
  have answer: "\<exists>df. snd (?call w) = Inr (Some df) \<and> rows df = take n (drop offset rs)" for w
    using call [of w] by (auto simp: failing_as_def split: prod.split sum.split)
  obtain q where m: "measured clock TUSHARE endpoint (on_world ?call) e = (e1, q)"
    and r: "r = map_sum id (\<lambda>x. case x of None \<Rightarrow> pd_empty P | Some df \<Rightarrow> df) q"
    using assms(2) has by (auto simp: ts_query_def and_then_def failing_as_world split: prod.splits sum.splits)
  have g: "same_gates TUSHARE e e1" using measured_gate [OF m] ..
  from measured_gate [OF m, THEN conjunct2] show ?thesis
  proof
    assume "\<exists>w. q = snd (?call w)"
    with answer obtain df where "q = Inr (Some df)" "rows df = take n (drop offset rs)" by metis
    with g show ?thesis by (simp add: r)
  next
    assume "\<exists>err. q = Inl err \<and> stopped TUSHARE endpoint e err"
    with g show ?thesis by (auto simp: r)
  qed
qed

lemma paged_query_slices:
  assumes "frame_rows P T rows" and "ts_serves api endpoint (\<lambda>offset. page_args EVENT_PAGE_SIZE offset @ args) rows rs EVENT_PAGE_SIZE"
    and "paged_query P T api clock endpoint args e = (e', r)"
  shows "case r of Inr df \<Rightarrow> rows df = take (MAX_PAGES * EVENT_PAGE_SIZE) rs | Inl err \<Rightarrow> stopped TUSHARE endpoint e err"
proof -
  let ?fetch = "\<lambda>offset. ts_query P api clock endpoint (page_args EVENT_PAGE_SIZE offset @ args)"
  have n: "0 < EVENT_PAGE_SIZE" by (simp add: EVENT_PAGE_SIZE_def)
  have same: "same_gates TUSHARE e e" by (simp add: same_gates_def)
  have fetch: "same_gates TUSHARE e e2 \<and> (case q of Inr page \<Rightarrow> rows page = take EVENT_PAGE_SIZE (drop offset rs) | Inl err \<Rightarrow> stopped TUSHARE endpoint e err)"
    if "same_gates TUSHARE e e1" "?fetch offset e1 = (e2, q)" for offset e1 e2 q
    using ts_query_slice [OF assms(2) that(2)] same_gates_stopped [OF that(1)] that(1)
    by (cases q) (simp_all add: same_gates_def)
  obtain q where p: "paged (\<lambda>df. length (rows df)) ?fetch EVENT_PAGE_SIZE MAX_PAGES 0 e = (e', q)"
    and r: "r = map_sum id (\<lambda>pages. if pages = [] then pd_empty P else pd_concat P pages) q"
    using assms(3) by (auto simp: paged_query_def and_then_def frame_size_rows [OF assms(1)] split: prod.splits sum.splits)
  have "rows (if pages = [] then pd_empty P else pd_concat P pages) = concat (map rows pages)" for pages
    using assms(1) by (simp add: frame_rows_def)
  with paged_slices [where I = "same_gates TUSHARE e" and rows = rows and rs = rs and stop = "stopped TUSHARE endpoint e", OF fetch n same p]
  show ?thesis by (cases q) (simp_all add: r)
qed

text \<open>A query over pages that are all admitted answers.\<close>

lemma paged_query_answers:
  assumes "frame_rows P T rows"
    and "serves I rows rs EVENT_PAGE_SIZE (\<lambda>offset. ts_query P api clock endpoint (page_args EVENT_PAGE_SIZE offset @ args))" and "I e"
  shows "\<exists>e' df. paged_query P T api clock endpoint args e = (e', Inr df)"
proof -
  have n: "0 < EVENT_PAGE_SIZE" by (simp add: EVENT_PAGE_SIZE_def)
  from paged_rows [OF assms(2) n assms(3), of MAX_PAGES 0] show ?thesis
    by (auto simp: paged_query_def and_then_def frame_size_rows [OF assms(1)])
qed

lemma member_pages_rows:
  assumes "frame_rows P T rows"
    and "ts_serves api ''index_member_all'' (\<lambda>offset. (''is_new'', ArgText is_new) # page_args MEMBER_PAGE_SIZE offset) rows rs MEMBER_PAGE_SIZE"
    and "unlimited TUSHARE e" and "length rs < fuel * MEMBER_PAGE_SIZE"
  shows "\<exists>e1 pages. member_pages P T api clock fuel is_new e = (e1, Inr pages) \<and> unlimited TUSHARE e1 \<and> concat (map rows pages) = rs"
proof -
  have n: "0 < MEMBER_PAGE_SIZE" by (simp add: MEMBER_PAGE_SIZE_def)
  have f: "0 < fuel" using assms(4) by (cases fuel) auto
  have "length rs < 0 + fuel * MEMBER_PAGE_SIZE" using assms(4) by simp
  from paged_all_rows [OF ts_query_serves [OF assms(2)] n assms(3) this f, of P clock] obtain e1 pages where
    "paged_all (\<lambda>df. length (rows df))
       (\<lambda>offset. ts_query P api clock ''index_member_all'' ((''is_new'', ArgText is_new) # page_args MEMBER_PAGE_SIZE offset))
       MEMBER_PAGE_SIZE fuel 0 e = Some (e1, Inr pages)"
    "unlimited TUSHARE e1" "concat (map rows pages) = drop 0 rs" by blast
  then show ?thesis by (intro exI [of _ e1] exI [of _ pages]) (simp add: member_pages_def frame_size_rows [OF assms(1)])
qed

text \<open>An endpoint that does not heed the offset keeps the loop over the members going.\<close>

lemma member_pages_stuck:
  assumes "frame_rows P T rows" and "ta_has api ''index_member_all''"
    and "\<And>args w. \<exists>w' df. ta_call api ''index_member_all'' args w = (w', Inr (Some df)) \<and> length (rows df) = MEMBER_PAGE_SIZE"
    and "unlimited TUSHARE e"
  shows "member_pages P T api clock fuel is_new e = (e, Inl (OtherError ''StillPaging'' []))"
proof -
  have n: "0 < MEMBER_PAGE_SIZE" by (simp add: MEMBER_PAGE_SIZE_def)
  have step: "\<exists>e1 page. ts_query P api clock ''index_member_all'' args e = (e1, Inr page) \<and> unlimited TUSHARE e1
      \<and> length (rows page) = MEMBER_PAGE_SIZE" if "unlimited TUSHARE e" for args e
    using assms(3) [of args "he_world e"] ts_query_answer [OF assms(2) _ that] by fastforce
  have "paged_all (\<lambda>df. length (rows df))
      (\<lambda>offset. ts_query P api clock ''index_member_all'' ((''is_new'', ArgText is_new) # page_args MEMBER_PAGE_SIZE offset))
      MEMBER_PAGE_SIZE fuel 0 e = None"
    by (rule paged_all_stuck [where I = "unlimited TUSHARE"]) (use step n assms(4) in auto)
  then show ?thesis by (simp add: member_pages_def frame_size_rows [OF assms(1)])
qed

text \<open>The lists that are built without looking whether the answer is empty need its columns.\<close>

lemma ts_list_no_answer:
  assumes "ta_has api endpoint" and "ta_call api endpoint args (he_world e) = (w, Inr None)" and "unlimited TUSHARE e"
    and "pd_columns P (pd_empty P) = []" and "rules = (name, Need c) # rest"
  shows "\<exists>e1. ts_list P T api clock endpoint args rules e = (e1, Inl KeyError)"
  using ts_query_answer [OF assms(1,2,3), of P clock] assms(4,5)
  by (auto simp: ts_list_def and_then_def frame_of_rules_def)

text \<open>The queries for the information on securities ask every code once, at the endpoint of its type.\<close>

lemma info_chunks_concat: "concat (info_chunks endpoint codes) = codes"
  by (simp add: info_chunks_def)

lemma group_by_mset: "mset (concat (map snd (group_by f xs groups))) = mset (concat (map snd groups)) + mset xs"
proof (induction xs arbitrary: groups)
  case (Cons x xs)
  have "mset (concat (map snd (add_to_group k x g))) = mset (concat (map snd g)) + {#x#}" for k g
    by (induction g) (auto simp: add_to_group_def dict_get_def split: option.split)
  with Cons.IH [of "add_to_group (f x) x groups"] show ?case by simp
qed simp

lemma info_queries_codes: "mset (concat (map snd (info_queries codes))) = mset codes"
proof -
  have "concat (map snd (concat (map (\<lambda>(endpoint, members). map (\<lambda>chunk. (endpoint, chunk)) (info_chunks endpoint members)) gs)))
      = concat (map snd gs)" for gs
    by (induction gs) (auto simp: info_chunks_concat comp_def)
  with group_by_mset [where f = "\<lambda>c. SECURITY_INFO_ENDPOINTS (sc_type c)" and xs = codes and groups = "[]"] show ?thesis by (simp add: info_queries_def)
qed

lemma info_queries_endpoint:
  assumes "(endpoint, chunk) \<in> set (info_queries codes)" and "c \<in> set chunk"
  shows "endpoint = SECURITY_INFO_ENDPOINTS (sc_type c)" and "endpoint \<noteq> ''stock_basic'' \<Longrightarrow> chunk = [c]"
proof -
  let ?f = "\<lambda>c. SECURITY_INFO_ENDPOINTS (sc_type c)"
  obtain members where m: "(endpoint, members) \<in> set (group_by ?f codes [])" and k: "chunk \<in> set (info_chunks endpoint members)"
    using assms(1) by (auto simp: info_queries_def)
  have "c \<in> set members" using k assms(2) info_chunks_concat [of endpoint members] by (metis UnionI set_concat imageI)
  moreover have "distinct (dict_keys (group_by ?f codes []))" using group_by_keys [of "[]" ?f codes] by simp
  with m have "members = dict_get (group_by ?f codes []) endpoint []" by (simp add: dict_get_def)
  then have "members = filter (\<lambda>x. ?f x = endpoint) codes" using group_by_lookup [of ?f codes "[]" endpoint] by (simp add: dict_get_def)
  ultimately show e: "endpoint = ?f c" by simp
  show "chunk = [c]" if "endpoint \<noteq> ''stock_basic''"
  proof -
    have "endpoint \<in> {''fund_basic'', ''index_basic''}" using e that by (cases "sc_type c") auto
    with k assms(2) show ?thesis by (auto simp: info_chunks_def)
  qed
qed

end
