(* ===== verification/Bao_Session.thy ===== *)
theory Bao_Session
  imports Src_Calls
begin

text \<open>
  The session of the BaoStock adapter (\<open>sources/baostock.py\<close>).  The module keeps one login for all adapters
  of the process: a generation, which grows when the session is lost, and the number of adapters that hold the
  login of the current generation.  Every operation below runs under the module's lock, so that interleavings of
  several adapters are sequences of them.  The SDK is a parameter.
\<close>

subsection \<open>State\<close>

record bs_member =
  bm_closed :: bool
  bm_acquired :: bool
  bm_generation :: "int option"

record 's bs_world =
  bw_logins :: int
  bw_generation :: int
  bw_members :: "bs_member list"
  bw_sdk :: 's

text \<open>What a query of the SDK answers; its rows are read one by one from it.\<close>

record bs_answer =
  an_code :: string
  an_message :: string
  an_fields :: "string list"

record 's bs_api =
  bx_login :: "('s, string \<times> string) step"
  bx_logout :: "('s, unit) step"
  bx_call :: "string \<Rightarrow> api_args \<Rightarrow> ('s, bs_answer) step"
  bx_read :: "bs_answer \<Rightarrow> ('s, string list list) step"
  bx_sleep :: "rat \<Rightarrow> 's \<Rightarrow> 's"

definition on_sdk :: "('s, 'a) step \<Rightarrow> ('s bs_world, 'a) step" where
  "on_sdk call w = (case call (bw_sdk w) of (s, r) \<Rightarrow> (w\<lparr>bw_sdk := s\<rparr>, r))"

definition set_member :: "nat \<Rightarrow> bs_member \<Rightarrow> 's bs_world \<Rightarrow> 's bs_world" where
  "set_member i m w = w\<lparr>bw_members := (bw_members w)[i := m]\<rparr>"

definition member :: "nat \<Rightarrow> 's bs_world \<Rightarrow> bs_member" where
  "member i w = bw_members w ! i"

definition holds :: "'s bs_world \<Rightarrow> bs_member \<Rightarrow> bool" where
  "holds w m \<longleftrightarrow> bm_acquired m \<and> bm_generation m = Some (bw_generation w)"

subsection \<open>Operations\<close>

definition new_member :: "'s bs_world \<Rightarrow> 's bs_world" where
  "new_member w = w\<lparr>bw_members := bw_members w @ [\<lparr>bm_closed = False, bm_acquired = False, bm_generation = None\<rparr>]\<rparr>"

definition invalidate_session :: "'s bs_world \<Rightarrow> 's bs_world" where
  "invalidate_session w = w\<lparr>bw_generation := bw_generation w + 1, bw_logins := 0\<rparr>"

definition forget_generation :: "nat \<Rightarrow> 's bs_world \<Rightarrow> 's bs_world" where
  "forget_generation i w = set_member i ((member i w)\<lparr>bm_generation := None\<rparr>) w"

definition join_session :: "nat \<Rightarrow> 's bs_world \<Rightarrow> 's bs_world" where
  "join_session i w =
     set_member i ((member i w)\<lparr>bm_acquired := True, bm_generation := Some (bw_generation w)\<rparr>) (w\<lparr>bw_logins := bw_logins w + 1\<rparr>)"

abbreviation ConnectionError :: py_error where
  "ConnectionError \<equiv> OtherError ''ConnectionError'' []"

definition ensure_login :: "'s bs_api \<Rightarrow> nat \<Rightarrow> ('s bs_world, unit) step" where
  "ensure_login api i w =
     (if holds w (member i w) then (w, Inr ())
      else and_then
        (if bw_logins w = 0
         then and_then (on_sdk (bx_login api)) (\<lambda>(code, message). if code \<noteq> ''0'' then throw ConnectionError else give ())
         else give ())
        (\<lambda>_ w1. (join_session i w1, Inr ())) w)"

definition CONNECTION_HINTS :: "string list" where
  "CONNECTION_HINTS =
     [[CHR 0xE7, CHR 0xBD, CHR 0x91, CHR 0xE7, CHR 0xBB, CHR 0x9C], [CHR 0xE8, CHR 0xBF, CHR 0x9E, CHR 0xE6, CHR 0x8E, CHR 0xA5],
      [CHR 0xE8, CHR 0xB6, CHR 0x85, CHR 0xE6, CHR 0x97, CHR 0xB6], [CHR 0xE7, CHR 0x99, CHR 0xBB, CHR 0xE5, CHR 0xBD, CHR 0x95],
      ''login'', ''socket'', ''timeout'',
      [CHR 0xE6, CHR 0x96, CHR 0xAD, CHR 0xE5, CHR 0xBC, CHR 0x80], [CHR 0xE9, CHR 0x87, CHR 0x8D, CHR 0xE8, CHR 0xBF, CHR 0x9E]]"

fun occurs_in :: "string \<Rightarrow> string \<Rightarrow> bool" where
  "occurs_in hint [] = (hint = [])"
| "occurs_in hint (c # s) = (starts_with hint (c # s) \<or> occurs_in hint s)"

definition is_connection_error :: "string \<Rightarrow> bool" where
  "is_connection_error message = list_ex (\<lambda>hint. occurs_in hint (lower message)) CONNECTION_HINTS"

text \<open>\<open>except SourceError\<close>: the class and its two subclasses.\<close>

fun is_source_error :: "py_error \<Rightarrow> bool" where
  "is_source_error SourceError = True"
| "is_source_error NetworkError = True"
| "is_source_error ResponseParseError = True"
| "is_source_error _ = False"

type_synonym bs_rows = "string list list \<times> string list"

definition bs_try :: "'s bs_api \<Rightarrow> nat \<Rightarrow> string \<Rightarrow> api_args \<Rightarrow> ('s bs_world, bs_rows) step" where
  "bs_try api i query args =
     and_then (ensure_login api i) (\<lambda>_.
     and_then (on_sdk (bx_call api query args)) (\<lambda>a.
       if an_code a \<noteq> ''0''
       then if is_connection_error (an_message a)
            then (\<lambda>w. (forget_generation i (invalidate_session w), Inl ConnectionError))
            else throw SourceError
       else and_then (on_sdk (bx_read api a)) (\<lambda>rows. give (rows, an_fields a))))"

text \<open>One attempt under the lock; an error that is no \<open>SourceError\<close> loses the session.\<close>

definition bs_attempt :: "'s bs_api \<Rightarrow> nat \<Rightarrow> string \<Rightarrow> api_args \<Rightarrow> ('s bs_world, bs_rows) step" where
  "bs_attempt api i query args w =
     (case bs_try api i query args w of
        (w1, Inr x) \<Rightarrow> (w1, Inr x)
      | (w1, Inl err) \<Rightarrow>
          if is_source_error err then (w1, Inl err) else (forget_generation i (invalidate_session w1), Inl err))"

definition bs_pause :: "'s bs_api \<Rightarrow> rat \<Rightarrow> 's bs_world \<Rightarrow> 's bs_world" where
  "bs_pause api d w = w\<lparr>bw_sdk := bx_sleep api d (bw_sdk w)\<rparr>"

text \<open>The loop over the attempts; \<open>left\<close> counts those after this one.\<close>

fun bs_query_from :: "'s bs_api \<Rightarrow> nat \<Rightarrow> string \<Rightarrow> api_args \<Rightarrow> nat \<Rightarrow> int \<Rightarrow> ('s bs_world, bs_rows) step" where
  "bs_query_from api i query args left attempt w =
     (case bs_attempt api i query args w of
        (w1, Inr x) \<Rightarrow> (w1, Inr x)
      | (w1, Inl err) \<Rightarrow>
          if is_source_error err then (w1, Inl err)
          else (case left of
             0 \<Rightarrow> (w1, Inl SourceError)
           | Suc left' \<Rightarrow> bs_query_from api i query args left' (attempt + 1) (bs_pause api (compute_backoff attempt 1 60 0 0) w1)))"

declare bs_query_from.simps [simp del]

definition bs_query :: "'s bs_api \<Rightarrow> int \<Rightarrow> nat \<Rightarrow> string \<Rightarrow> api_args \<Rightarrow> ('s bs_world, bs_rows) step" where
  "bs_query api max_attempts i query args = bs_query_from api i query args (nat (max 1 max_attempts - 1)) 1"

definition bs_close :: "'s bs_api \<Rightarrow> nat \<Rightarrow> 's bs_world \<Rightarrow> 's bs_world" where
  "bs_close api i w =
     (if bm_closed (member i w) then w
      else let m = (member i w)\<lparr>bm_closed := True\<rparr>;
               w1 = (if holds w m
                     then let logins = (if 0 < bw_logins w then bw_logins w - 1 else bw_logins w);
                              w0 = w\<lparr>bw_logins := logins\<rparr>
                          in if logins = 0 then w0\<lparr>bw_sdk := fst (bx_logout api (bw_sdk w0))\<rparr> else w0
                     else w);
               m1 = (if holds w m then m\<lparr>bm_acquired := False\<rparr> else m)
           in set_member i (m1\<lparr>bm_generation := None\<rparr>) w1)"

subsection \<open>Steps\<close>

text \<open>What the adapters of the process do between two acquisitions of the lock, in any order.\<close>

inductive bs_step :: "'s bs_api \<Rightarrow> 's bs_world \<Rightarrow> 's bs_world \<Rightarrow> bool" for api where
  open_one: "bs_step api w (new_member w)"
| attempt: "i < length (bw_members w) \<Longrightarrow> bs_attempt api i query args w = (w', r) \<Longrightarrow> bs_step api w w'"
| pause: "bs_step api w (bs_pause api d w)"
| close_one: "i < length (bw_members w) \<Longrightarrow> bs_step api w (bs_close api i w)"

inductive_cases bs_step_cases: "bs_step api w w'"

definition bs_start :: "'s \<Rightarrow> 's bs_world" where
  "bs_start s = \<lparr>bw_logins = 0, bw_generation = 0, bw_members = [], bw_sdk = s\<rparr>"

definition holders :: "'s bs_world \<Rightarrow> nat" where
  "holders w = length (filter (holds w) (bw_members w))"

definition session_ok :: "'s bs_world \<Rightarrow> bool" where
  "session_ok w \<longleftrightarrow> bw_logins w = int (holders w)
     \<and> (\<forall>m \<in> set (bw_members w). \<forall>g. bm_generation m = Some g \<longrightarrow> g \<le> bw_generation w)"

subsection \<open>The count of logins\<close>

lemma session_okI:
  "bw_logins w = int (holders w) \<Longrightarrow> (\<And>m g. m \<in> set (bw_members w) \<Longrightarrow> bm_generation m = Some g \<Longrightarrow> g \<le> bw_generation w) \<Longrightarrow> session_ok w"
  by (auto simp: session_ok_def)

lemma holds_sdk [simp]: "holds (w\<lparr>bw_sdk := s\<rparr>) = holds w" "holds (w\<lparr>bw_logins := n\<rparr>) = holds w" "holds (set_member i m w) = holds w"
  by (simp_all add: holds_def fun_eq_iff set_member_def)

lemma holders_sdk [simp]: "holders (w\<lparr>bw_sdk := s\<rparr>) = holders w" "holders (w\<lparr>bw_logins := n\<rparr>) = holders w"
  by (simp_all add: holders_def)

lemma session_ok_sdk [simp]: "session_ok (w\<lparr>bw_sdk := s\<rparr>) = session_ok w"
  by (simp add: session_ok_def)

lemma member_simps [simp]:
  "bw_logins (set_member i m w) = bw_logins w" "bw_generation (set_member i m w) = bw_generation w" "bw_sdk (set_member i m w) = bw_sdk w"
  "length (bw_members (set_member i m w)) = length (bw_members w)" "i < length (bw_members w) \<Longrightarrow> member i (set_member i m w) = m"
  "member i (w\<lparr>bw_sdk := s\<rparr>) = member i w" "member i (w\<lparr>bw_logins := n\<rparr>) = member i w"
  by (simp_all add: set_member_def member_def)

lemma count_update:
  assumes "i < length xs"
  shows "length (filter P (xs[i := y])) + (if P (xs ! i) then 1 else 0) = length (filter P xs) + (if P y then 1 else 0)"
  using assms
proof (induction xs arbitrary: i)
  case (Cons x xs)
  show ?case
  proof (cases i)
    case (Suc j)
    with Cons show ?thesis by (auto split: if_splits)
  qed simp
qed simp

lemma holders_set_member:
  assumes "i < length (bw_members w)"
  shows "holders (set_member i m w) + (if holds w (member i w) then 1 else 0) = holders w + (if holds w m then 1 else 0)"
  using count_update [OF assms, of "holds w" m] by (simp add: holders_def member_def set_member_def [abs_def] holds_def [abs_def])

lemma set_member_in: "m' \<in> set (bw_members (set_member i m w)) \<Longrightarrow> m' = m \<or> m' \<in> set (bw_members w)"
  using set_update_subset_insert [of "bw_members w" i m] by (auto simp: set_member_def)

lemma member_in: "i < length (bw_members w) \<Longrightarrow> member i w \<in> set (bw_members w)"
  by (simp add: member_def)

lemma session_ok_new: "session_ok w \<Longrightarrow> session_ok (new_member w)"
  by (auto simp: session_ok_def holders_def new_member_def holds_def [abs_def])

lemma invalidated_holders: "session_ok w \<Longrightarrow> holders (invalidate_session w) = 0"
  by (auto simp: session_ok_def holders_def invalidate_session_def holds_def filter_empty_conv)

lemma session_ok_invalidate: "session_ok w \<Longrightarrow> session_ok (invalidate_session w)"
  using invalidated_holders [of w] by (force simp: session_ok_def invalidate_session_def)

lemma session_ok_forget:
  assumes "session_ok w" and "i < length (bw_members w)" and "\<not> holds w (member i w)"
  shows "session_ok (forget_generation i w)"
proof (rule session_okI)
  have "\<not> holds w ((member i w)\<lparr>bm_generation := None\<rparr>)" by (simp add: holds_def)
  with holders_set_member [OF assms(2), of "(member i w)\<lparr>bm_generation := None\<rparr>"] assms(1,3)
  show "bw_logins (forget_generation i w) = int (holders (forget_generation i w))"
    by (simp add: forget_generation_def session_ok_def)
  fix m g assume "m \<in> set (bw_members (forget_generation i w))" "bm_generation m = Some g"
  with assms(1) show "g \<le> bw_generation (forget_generation i w)"
    by (auto simp: forget_generation_def session_ok_def dest!: set_member_in)
qed

lemma session_ok_lost:
  assumes "session_ok w" and "i < length (bw_members w)"
  shows "session_ok (forget_generation i (invalidate_session w))" and "holders (forget_generation i (invalidate_session w)) = 0"
proof -
  have n: "\<not> holds (invalidate_session w) (member i (invalidate_session w))"
    using assms member_in [OF assms(2)] by (force simp: session_ok_def holds_def invalidate_session_def member_def)
  have i: "i < length (bw_members (invalidate_session w))" using assms(2) by (simp add: invalidate_session_def)
  show "session_ok (forget_generation i (invalidate_session w))"
    by (rule session_ok_forget [OF session_ok_invalidate [OF assms(1)] i n])
  show "holders (forget_generation i (invalidate_session w)) = 0"
    using holders_set_member [OF i, of "(member i (invalidate_session w))\<lparr>bm_generation := None\<rparr>"] invalidated_holders [OF assms(1)] n
    by (simp add: forget_generation_def holds_def)
qed

lemma session_ok_join:
  assumes "session_ok w" and "i < length (bw_members w)" and "\<not> holds w (member i w)"
  shows "session_ok (join_session i w)" and "holds (join_session i w) (member i (join_session i w))"
proof -
  let ?m = "(member i w)\<lparr>bm_acquired := True, bm_generation := Some (bw_generation w)\<rparr>"
  let ?w = "w\<lparr>bw_logins := bw_logins w + 1\<rparr>"
  have m: "holds w ?m" by (simp add: holds_def)
  have i: "i < length (bw_members ?w)" using assms(2) by simp
  show "session_ok (join_session i w)"
  proof (rule session_okI)
    show "bw_logins (join_session i w) = int (holders (join_session i w))"
      using holders_set_member [OF i, of ?m] assms m by (simp add: join_session_def session_ok_def)
    fix x g assume "x \<in> set (bw_members (join_session i w))" "bm_generation x = Some g"
    with assms(1) show "g \<le> bw_generation (join_session i w)"
      by (auto simp: join_session_def session_ok_def dest!: set_member_in)
  qed
  show "holds (join_session i w) (member i (join_session i w))"
    using i m by (simp add: join_session_def)
qed

subsection \<open>Attempts\<close>

text \<open>
  What the SDK is relied on for: after a login the server knows the session, and queries that neither raise nor
  report a lost connection, reading their rows and waiting leave it so; its exceptions are its own.
\<close>

definition sdk_ok :: "'s bs_api \<Rightarrow> ('s \<Rightarrow> bool) \<Rightarrow> bool" where
  "sdk_ok api up \<longleftrightarrow>
     (\<forall>s s' m. bx_login api s = (s', Inr (''0'', m)) \<longrightarrow> up s')
     \<and> (\<forall>query args s s' a. up s \<longrightarrow> bx_call api query args s = (s', Inr a)
          \<longrightarrow> an_code a = ''0'' \<or> \<not> is_connection_error (an_message a) \<longrightarrow> up s')
     \<and> (\<forall>a s s' rows. up s \<longrightarrow> bx_read api a s = (s', Inr rows) \<longrightarrow> up s')
     \<and> (\<forall>d s. up s \<longrightarrow> up (bx_sleep api d s))
     \<and> (\<forall>s s' err. bx_login api s = (s', Inl err) \<longrightarrow> \<not> is_source_error err)
     \<and> (\<forall>query args s s' err. bx_call api query args s = (s', Inl err) \<longrightarrow> \<not> is_source_error err)
     \<and> (\<forall>a s s' err. bx_read api a s = (s', Inl err) \<longrightarrow> \<not> is_source_error err)"

lemma sdk_ok_login: "sdk_ok api up \<Longrightarrow> bx_login api s = (s', Inr (''0'', m)) \<Longrightarrow> up s'"
  unfolding sdk_ok_def by (elim conjE) metis

lemma sdk_ok_call: "sdk_ok api up \<Longrightarrow> up s \<Longrightarrow> bx_call api query args s = (s', Inr a)
    \<Longrightarrow> an_code a = ''0'' \<or> \<not> is_connection_error (an_message a) \<Longrightarrow> up s'"
  unfolding sdk_ok_def by (elim conjE) metis

lemma sdk_ok_read: "sdk_ok api up \<Longrightarrow> up s \<Longrightarrow> bx_read api a s = (s', Inr rows) \<Longrightarrow> up s'"
  unfolding sdk_ok_def by (elim conjE) metis

lemma sdk_ok_sleep: "sdk_ok api up \<Longrightarrow> up s \<Longrightarrow> up (bx_sleep api d s)"
  unfolding sdk_ok_def by (elim conjE) metis

lemma sdk_ok_errors: "sdk_ok api up \<Longrightarrow> bx_login api s = (s', Inl err) \<or> bx_call api query args s = (s', Inl err)
    \<or> bx_read api a s = (s', Inl err) \<Longrightarrow> \<not> is_source_error err"
  unfolding sdk_ok_def by (elim conjE) metis

lemma ensure_login_cases:
  assumes "ensure_login api i w = (w', r)"
  obtains (held) "w' = w" "r = Inr ()" "holds w (member i w)"
  | (joined) s m where "w' = join_session i (w\<lparr>bw_sdk := s\<rparr>)" "r = Inr ()" "\<not> holds w (member i w)"
      "if bw_logins w = 0 then bx_login api (bw_sdk w) = (s, Inr (''0'', m)) else s = bw_sdk w"
  | (failed) s err where "w' = w\<lparr>bw_sdk := s\<rparr>" "r = Inl err" "\<not> holds w (member i w)" "bw_logins w = 0"
      "err = ConnectionError \<or> bx_login api (bw_sdk w) = (s, Inl err)"
proof (cases "holds w (member i w)")
  case True
  with assms show thesis by (intro held) (auto simp: ensure_login_def)
next
  case h: False
  show thesis
  proof (cases "bw_logins w = 0")
    case False
    with h assms show thesis by (intro joined [of "bw_sdk w"]) (auto simp: ensure_login_def and_then_def)
  next
    case True
    obtain s l where l: "bx_login api (bw_sdk w) = (s, l)" by (metis prod.exhaust)
    show thesis
    proof (cases l)
      case (Inl err)
      with h True assms l show thesis by (intro failed [of s err]) (auto simp: ensure_login_def and_then_def on_sdk_def)
    next
      case (Inr p)
      then obtain c m where p: "l = Inr (c, m)" by (metis prod.exhaust)
      show thesis
      proof (cases "c = ''0''")
        case True
        with h \<open>bw_logins w = 0\<close> assms l p show thesis by (intro joined [of s m]) (auto simp: ensure_login_def and_then_def on_sdk_def)
      next
        case False
        with h \<open>bw_logins w = 0\<close> assms l p show thesis by (intro failed [of s ConnectionError]) (auto simp: ensure_login_def and_then_def on_sdk_def)
      qed
    qed
  qed
qed

definition session_up :: "('s \<Rightarrow> bool) \<Rightarrow> 's bs_world \<Rightarrow> bool" where
  "session_up up w \<longleftrightarrow> (0 < holders w \<longrightarrow> up (bw_sdk w))"

lemma holds_pos: "i < length (bw_members w) \<Longrightarrow> holds w (member i w) \<Longrightarrow> 0 < holders w"
  using member_in [of i w] by (auto simp: holders_def length_greater_0_conv filter_empty_conv simp del: length_greater_0_conv)

lemma ensure_login_ok:
  assumes "session_ok w" and "i < length (bw_members w)" and "ensure_login api i w = (w', r)"
  shows "session_ok w' \<and> i < length (bw_members w') \<and> (r = Inr () \<longrightarrow> holds w' (member i w'))"
  using assms(3)
proof (cases rule: ensure_login_cases)
  case (joined s m)
  have "session_ok (w\<lparr>bw_sdk := s\<rparr>)" "i < length (bw_members (w\<lparr>bw_sdk := s\<rparr>))" "\<not> holds (w\<lparr>bw_sdk := s\<rparr>) (member i (w\<lparr>bw_sdk := s\<rparr>))"
    using assms(1,2) joined(3) by simp_all
  from session_ok_join [OF this] joined(1) assms(2) show ?thesis by (simp add: join_session_def)
qed (use assms in simp_all)

lemma ensure_login_up:
  assumes "sdk_ok api up" and "session_up up w" and "session_ok w" and "i < length (bw_members w)" and "ensure_login api i w = (w', r)"
  shows "session_up up w' \<and> (r = Inr () \<longrightarrow> up (bw_sdk w')) \<and> (\<forall>err. r = Inl err \<longrightarrow> \<not> is_source_error err)"
  using assms(5)
proof (cases rule: ensure_login_cases)
  case held
  then have "up (bw_sdk w)" using assms(2) holds_pos [OF assms(4)] by (simp add: session_up_def)
  with held assms(2) show ?thesis by simp
next
  case (joined s m)
  have "up s"
  proof (cases "bw_logins w = 0")
    case True
    with joined(4) show ?thesis using sdk_ok_login [OF assms(1)] by simp
  next
    case False
    then have "0 < holders w" using assms(3) by (simp add: session_ok_def)
    with assms(2) False joined(4) show ?thesis by (simp add: session_up_def)
  qed
  with joined show ?thesis by (simp add: session_up_def join_session_def)
next
  case (failed s e)
  have "holders w = 0" using assms(3) failed(4) by (simp add: session_ok_def)
  moreover have "\<not> is_source_error e" using failed(5) sdk_ok_errors [OF assms(1), where err = e] is_source_error.simps by (elim disjE) (simp, blast)
  ultimately show ?thesis using failed by (simp add: session_up_def)
qed

text \<open>How an attempt ends: with the rows, with an error of the source, or with the session lost.\<close>

lemma bs_attempt_cases:
  assumes "bs_attempt api i query args w = (w', r)"
  obtains (rows) w1 s1 s2 a x where "ensure_login api i w = (w1, Inr ())" "bx_call api query args (bw_sdk w1) = (s1, Inr a)"
      "an_code a = ''0''" "bx_read api a s1 = (s2, Inr x)" "w' = w1\<lparr>bw_sdk := s2\<rparr>" "r = Inr (x, an_fields a)"
  | (refused) w1 s1 a where "ensure_login api i w = (w1, Inr ())" "bx_call api query args (bw_sdk w1) = (s1, Inr a)"
      "\<not> is_connection_error (an_message a)" "w' = w1\<lparr>bw_sdk := s1\<rparr>" "r = Inl SourceError"
  | (raised) w1 err where "ensure_login api i w = (w1, Inl err)" "w' = w1" "is_source_error err" "r = Inl err"
  | (raised_later) w1 s1 s2 a err where "ensure_login api i w = (w1, Inr ())" "is_source_error err" "r = Inl err"
      "bx_call api query args (bw_sdk w1) = (s1, Inl err) \<and> w' = w1\<lparr>bw_sdk := s1\<rparr>
       \<or> bx_read api a s1 = (s2, Inl err) \<and> w' = w1\<lparr>bw_sdk := s2\<rparr>"
  | (lost) w1 err r1 s where "ensure_login api i w = (w1, r1)" "w' = forget_generation i (invalidate_session (w1\<lparr>bw_sdk := s\<rparr>))
       \<or> w' = forget_generation i (invalidate_session (forget_generation i (invalidate_session (w1\<lparr>bw_sdk := s\<rparr>))))"
      "r = Inl err" "\<not> is_source_error err"
proof -
  obtain w1 r1 where e: "ensure_login api i w = (w1, r1)" by (metis prod.exhaust)
  show thesis
  proof (cases r1)
    case (Inl err)
    with e assms have *: "(if is_source_error err then (w1, Inl err) else (forget_generation i (invalidate_session w1), Inl err)) = (w', r)"
      by (simp add: bs_attempt_def bs_try_def and_then_def)
    show thesis
    proof (cases "is_source_error err")
      case True
      with * Inl e show thesis by (intro raised) auto
    next
      case False
      with * e show thesis by (intro lost [of w1 r1 "bw_sdk w1" err]) auto
    qed
  next
    case (Inr u)
    then have e: "ensure_login api i w = (w1, Inr ())" using e by simp
    obtain s1 c where c: "bx_call api query args (bw_sdk w1) = (s1, c)" by (metis prod.exhaust)
    show thesis
    proof (cases c)
      case (Inl err)
      with e c assms have *: "(if is_source_error err then (w1\<lparr>bw_sdk := s1\<rparr>, Inl err)
          else (forget_generation i (invalidate_session (w1\<lparr>bw_sdk := s1\<rparr>)), Inl err)) = (w', r)"
        by (simp add: bs_attempt_def bs_try_def and_then_def on_sdk_def)
      show thesis
      proof (cases "is_source_error err")
        case True
        with * Inl e c show thesis by (intro raised_later [of w1 err s1]) auto
      next
        case False
        with * e show thesis by (intro lost [of w1 "Inr ()" s1 err]) auto
      qed
    next
      case (Inr a)
      show thesis
      proof (cases "an_code a = ''0''")
        case False
        show thesis
        proof (cases "is_connection_error (an_message a)")
          case True
          with e c Inr False assms show thesis
            by (intro lost [of w1 "Inr ()" s1 ConnectionError]) (auto simp: bs_attempt_def bs_try_def and_then_def on_sdk_def)
        next
          case no: False
          with e c Inr False assms show thesis
            by (intro refused [of w1 s1 a]) (auto simp: bs_attempt_def bs_try_def and_then_def on_sdk_def)
        qed
      next
        case True
        obtain s2 q where q: "bx_read api a s1 = (s2, q)" by (metis prod.exhaust)
        show thesis
        proof (cases q)
          case (Inr x)
          with e c \<open>c = Inr a\<close> True q assms show thesis
            by (intro rows [of w1 s1 a s2 x]) (auto simp: bs_attempt_def bs_try_def and_then_def on_sdk_def)
        next
          case (Inl err)
          with e c \<open>c = Inr a\<close> True q assms have *: "(if is_source_error err then (w1\<lparr>bw_sdk := s2\<rparr>, Inl err)
              else (forget_generation i (invalidate_session (w1\<lparr>bw_sdk := s2\<rparr>)), Inl err)) = (w', r)"
            by (simp add: bs_attempt_def bs_try_def and_then_def on_sdk_def)
          show thesis
          proof (cases "is_source_error err")
            case True
            with * Inl e q show thesis by (intro raised_later [of w1 err s1 a s2]) auto
          next
            case False
            with * e show thesis by (intro lost [of w1 "Inr ()" s2 err]) auto
          qed
        qed
      qed
    qed
  qed
qed


lemma lost_ok:
  assumes "session_ok w" and "i < length (bw_members w)"
    and "w' = forget_generation i (invalidate_session (w\<lparr>bw_sdk := s\<rparr>))
       \<or> w' = forget_generation i (invalidate_session (forget_generation i (invalidate_session (w\<lparr>bw_sdk := s\<rparr>))))"
  shows "session_ok w' \<and> i < length (bw_members w') \<and> holders w' = 0"
proof -
  have a: "session_ok (w\<lparr>bw_sdk := s\<rparr>)" "i < length (bw_members (w\<lparr>bw_sdk := s\<rparr>))" using assms(1,2) by simp_all
  have l: "length (bw_members (forget_generation i (invalidate_session v))) = length (bw_members v)" for v :: "'a bs_world"
    by (simp add: forget_generation_def invalidate_session_def)
  note one = session_ok_lost [OF a]
  have "i < length (bw_members (forget_generation i (invalidate_session (w\<lparr>bw_sdk := s\<rparr>))))" using a(2) l by simp
  note two = session_ok_lost [OF one(1) this]
  from assms(3) one two l assms(2) show ?thesis by (elim disjE) simp_all
qed

lemma bs_attempt_ok:
  assumes "session_ok w" and "i < length (bw_members w)" and "bs_attempt api i query args w = (w', r)"
  shows "session_ok w' \<and> i < length (bw_members w')
    \<and> (\<forall>x. r = Inr x \<longrightarrow> holds w' (member i w')) \<and> (\<forall>err. r = Inl err \<longrightarrow> \<not> is_source_error err \<longrightarrow> holders w' = 0)"
  using assms(3)
proof (cases rule: bs_attempt_cases)
  case (rows w1 s1 s2 a x)
  with ensure_login_ok [OF assms(1,2) rows(1)] show ?thesis by simp
next
  case (refused w1 s1 a)
  with ensure_login_ok [OF assms(1,2) refused(1)] show ?thesis by simp
next
  case (raised w1 err)
  with ensure_login_ok [OF assms(1,2) raised(1)] show ?thesis by simp
next
  case (raised_later w1 s1 s2 a err)
  with ensure_login_ok [OF assms(1,2) raised_later(1)] show ?thesis by auto
next
  case (lost w1 err r1 s)
  from ensure_login_ok [OF assms(1,2) lost(1)] lost_ok [OF _ _ lost(2)] lost(3) show ?thesis by simp
qed

lemma bs_attempt_up:
  assumes "sdk_ok api up" and "session_up up w" and "session_ok w" and "i < length (bw_members w)" and "bs_attempt api i query args w = (w', r)"
  shows "session_up up w'"
  using assms(5)
proof (cases rule: bs_attempt_cases)
  case (rows w1 s1 s2 a x)
  have "up (bw_sdk w1)" using ensure_login_up [OF assms(1-4) rows(1)] by simp
  with rows sdk_ok_call [OF assms(1)] sdk_ok_read [OF assms(1)] have "up s2" by metis
  with rows show ?thesis by (simp add: session_up_def)
next
  case (refused w1 s1 a)
  have "up (bw_sdk w1)" using ensure_login_up [OF assms(1-4) refused(1)] by simp
  with refused sdk_ok_call [OF assms(1)] have "up s1" by metis
  with refused show ?thesis by (simp add: session_up_def)
next
  case (raised w1 err)
  with ensure_login_up [OF assms(1-4) raised(1)] show ?thesis by simp
next
  case (raised_later w1 s1 s2 a err)
  with sdk_ok_errors [OF assms(1)] show ?thesis by metis
next
  case (lost w1 err r1 s)
  from ensure_login_ok [OF assms(3,4) lost(1)] lost_ok [OF _ _ lost(2)] show ?thesis by (simp add: session_up_def)
qed

subsection \<open>Closing\<close>

lemma bs_close_not_holding:
  assumes "\<not> bm_closed (member i w)" and "\<not> holds w (member i w)"
  shows "bs_close api i w = set_member i ((member i w)\<lparr>bm_closed := True, bm_generation := None\<rparr>) w"
proof -
  have "\<not> holds w ((member i w)\<lparr>bm_closed := True\<rparr>)" using assms(2) by (simp add: holds_def)
  with assms(1) show ?thesis by (simp add: bs_close_def Let_def)
qed

lemma bs_close_holding:
  assumes "\<not> bm_closed (member i w)" and "holds w (member i w)" and "session_ok w" and "i < length (bw_members w)"
  shows "bs_close api i w = set_member i \<lparr>bm_closed = True, bm_acquired = False, bm_generation = None\<rparr>
      (w\<lparr>bw_logins := bw_logins w - 1, bw_sdk := if bw_logins w = 1 then fst (bx_logout api (bw_sdk w)) else bw_sdk w\<rparr>)"
proof -
  have h: "holds w ((member i w)\<lparr>bm_closed := True\<rparr>)" using assms(2) by (simp add: holds_def)
  have p: "0 < bw_logins w" using holds_pos [OF assms(4,2)] assms(3) by (simp add: session_ok_def)
  have m: "(member i w)\<lparr>bm_closed := True, bm_acquired := False, bm_generation := None\<rparr>
      = \<lparr>bm_closed = True, bm_acquired = False, bm_generation = None\<rparr>" by (cases "member i w") simp
  show ?thesis
  proof (cases "bw_logins w = 1")
    case True
    with h p assms(1) show ?thesis unfolding m [symmetric] by (simp add: bs_close_def Let_def)
  next
    case False
    then have "bw_logins w - 1 \<noteq> 0" by simp
    with False h p assms(1) show ?thesis unfolding m [symmetric] by (simp add: bs_close_def Let_def)
  qed
qed

lemma bs_close_ok:
  assumes "session_ok w" and "i < length (bw_members w)"
  shows "session_ok (bs_close api i w) \<and> length (bw_members (bs_close api i w)) = length (bw_members w)"
proof (cases "bm_closed (member i w)")
  case True
  with assms show ?thesis by (simp add: bs_close_def)
next
  case c: False
  show ?thesis
  proof (cases "holds w (member i w)")
    case False
    let ?m = "(member i w)\<lparr>bm_closed := True, bm_generation := None\<rparr>"
    have "\<not> holds w ?m" by (simp add: holds_def)
    with holders_set_member [OF assms(2), of ?m] False assms(1) have "session_ok (set_member i ?m w)"
      by (intro session_okI) (auto simp: session_ok_def dest!: set_member_in)
    with bs_close_not_holding [OF c False] show ?thesis by simp
  next
    case True
    let ?m = "\<lparr>bm_closed = True, bm_acquired = False, bm_generation = None\<rparr>"
    let ?w = "w\<lparr>bw_logins := bw_logins w - 1, bw_sdk := if bw_logins w = 1 then fst (bx_logout api (bw_sdk w)) else bw_sdk w\<rparr>"
    have "\<not> holds ?w ?m" by (simp add: holds_def)
    moreover have "holds ?w (member i ?w)" using True by simp
    moreover have i: "i < length (bw_members ?w)" using assms(2) by simp
    ultimately have "session_ok (set_member i ?m ?w)" using holders_set_member [OF i, of ?m] assms(1)
      by (intro session_okI) (auto simp: session_ok_def dest!: set_member_in)
    with bs_close_holding [OF c True assms] show ?thesis by simp
  qed
qed

text \<open>The session is only logged out when no other adapter holds it.\<close>

lemma bs_close_keeps_session:
  assumes "session_ok w" and "i < length (bw_members w)" and "j < length (bw_members w)" and "j \<noteq> i" and "holds w (member j w)"
  shows "bw_sdk (bs_close api i w) = bw_sdk w \<and> holds (bs_close api i w) (member j (bs_close api i w))"
proof (cases "bm_closed (member i w)")
  case True
  with assms(5) show ?thesis by (simp add: bs_close_def)
next
  case c: False
  have j: "member j (set_member i m v) = member j v" for m and v :: "'a bs_world" using assms(4) by (simp add: member_def set_member_def)
  show ?thesis
  proof (cases "holds w (member i w)")
    case False
    with bs_close_not_holding [OF c False] assms(5) j show ?thesis by simp
  next
    case True
    let ?m = "\<lparr>bm_closed = True, bm_acquired = False, bm_generation = None\<rparr>"
    have i: "i < length (bw_members (set_member i ?m w))" "j < length (bw_members (set_member i ?m w))" using assms(2,3) by simp_all
    have "\<not> holds w ?m" by (simp add: holds_def)
    with holders_set_member [OF assms(2), of ?m] True have "holders (set_member i ?m w) + 1 = holders w" by simp
    moreover have "0 < holders (set_member i ?m w)" using holds_pos [OF i(2)] assms(5) j by simp
    ultimately have "bw_logins w \<noteq> 1" using assms(1) by (simp add: session_ok_def)
    with bs_close_holding [OF c True assms(1,2)] assms(5) j show ?thesis by simp
  qed
qed

lemma bs_close_up:
  assumes "session_up up w" and "session_ok w" and "i < length (bw_members w)"
  shows "session_up up (bs_close api i w)"
proof (cases "bm_closed (member i w)")
  case True
  with assms(1) show ?thesis by (simp add: bs_close_def)
next
  case c: False
  show ?thesis
  proof (cases "holds w (member i w)")
    case False
    have "\<not> holds w ((member i w)\<lparr>bm_closed := True, bm_generation := None\<rparr>)" by (simp add: holds_def)
    with bs_close_not_holding [OF c False] assms(1) False holders_set_member [OF assms(3)] show ?thesis by (simp add: session_up_def)
  next
    case True
    have ok: "session_ok (bs_close api i w)" using bs_close_ok [OF assms(2,3)] by simp
    show ?thesis
    proof (cases "bw_logins w = 1")
      case one: True
      with bs_close_holding [OF c True assms(2,3)] have "bw_logins (bs_close api i w) = 0" by simp
      with ok show ?thesis by (simp add: session_up_def session_ok_def)
    next
      case False
      have "up (bw_sdk w)" using assms(1) holds_pos [OF assms(3) True] by (simp add: session_up_def)
      with bs_close_holding [OF c True assms(2,3)] False show ?thesis by (simp add: session_up_def)
    qed
  qed
qed

subsection \<open>Every interleaving\<close>

lemma bs_step_ok: "bs_step api w w' \<Longrightarrow> session_ok w \<Longrightarrow> session_ok w'"
proof (induction rule: bs_step.induct)
  case (attempt i w query args w' r)
  with bs_attempt_ok [OF attempt.prems attempt.hyps] show ?case by simp
qed (simp_all add: session_ok_new bs_close_ok bs_pause_def)

lemma bs_step_up: "bs_step api w w' \<Longrightarrow> sdk_ok api up \<Longrightarrow> session_ok w \<Longrightarrow> session_up up w \<Longrightarrow> session_up up w'"
proof (induction rule: bs_step.induct)
  case (open_one w)
  have "holders (new_member w) = holders w" by (simp add: holders_def new_member_def holds_def [abs_def])
  with open_one show ?case by (simp add: session_up_def new_member_def)
next
  case (attempt i w query args w' r)
  with bs_attempt_up [OF attempt.prems(1,3,2) attempt.hyps] show ?case by simp
next
  case (pause w d)
  with sdk_ok_sleep [OF pause.prems(1)] show ?case by (simp add: session_up_def bs_pause_def)
next
  case (close_one i w)
  with bs_close_up [OF close_one.prems(3,2) close_one.hyps] show ?case by simp
qed

lemma bs_start_ok: "session_ok (bs_start s)" "session_up up (bs_start s)"
  by (simp_all add: session_ok_def session_up_def bs_start_def holders_def)

lemma bs_reachable_ok: "(bs_step api)\<^sup>*\<^sup>* (bs_start s) w \<Longrightarrow> session_ok w"
  by (induction rule: rtranclp_induct) (auto intro: bs_start_ok bs_step_ok)

lemma bs_reachable_up: "(bs_step api)\<^sup>*\<^sup>* (bs_start s) w \<Longrightarrow> sdk_ok api up \<Longrightarrow> session_up up w"
  by (induction rule: rtranclp_induct) (auto intro: bs_start_ok bs_step_up bs_reachable_ok)

text \<open>A whole query is a sequence of such steps: it ends holding the session, or with an error of the source.\<close>

lemma bs_query_steps:
  assumes "i < length (bw_members w)" and "session_ok w" and "bs_query_from api i query args left attempt w = (w', r)"
  shows "(bs_step api)\<^sup>*\<^sup>* w w' \<and> (\<forall>x. r = Inr x \<longrightarrow> holds w' (member i w')) \<and> (\<forall>err. r = Inl err \<longrightarrow> is_source_error err)"
  using assms
proof (induction left arbitrary: attempt w)
  case 0
  obtain w1 r1 where a: "bs_attempt api i query args w = (w1, r1)" by (metis prod.exhaust)
  from a have "(bs_step api)\<^sup>*\<^sup>* w w1" using bs_step.attempt [OF 0(1)] by blast
  with 0(3) a bs_attempt_ok [OF 0(2,1) a] show ?case
    by (auto simp: bs_query_from.simps [of _ _ _ _ 0] split: sum.splits if_splits)
next
  case (Suc left)
  obtain w1 r1 where a: "bs_attempt api i query args w = (w1, r1)" by (metis prod.exhaust)
  from a have s1: "(bs_step api)\<^sup>*\<^sup>* w w1" using bs_step.attempt [OF Suc.prems(1)] by blast
  note ok = bs_attempt_ok [OF Suc.prems(2,1) a]
  let ?d = "compute_backoff attempt 1 60 0 0"
  show ?case
  proof (cases "\<exists>err. r1 = Inl err \<and> \<not> is_source_error err")
    case False
    with Suc.prems(3) a s1 ok show ?thesis by (auto simp: bs_query_from.simps [of _ _ _ _ "Suc left"] split: sum.splits if_splits)
  next
    case True
    with Suc.prems(3) a have q: "bs_query_from api i query args left (attempt + 1) (bs_pause api ?d w1) = (w', r)"
      by (auto simp: bs_query_from.simps [of _ _ _ _ "Suc left"])
    have p: "i < length (bw_members (bs_pause api ?d w1))" "session_ok (bs_pause api ?d w1)" using ok by (simp_all add: bs_pause_def)
    have "(bs_step api)\<^sup>*\<^sup>* w (bs_pause api ?d w1)" using s1 bs_step.pause by (metis rtranclp.rtrancl_into_rtrancl)
    with Suc.IH [OF p q] show ?thesis by (metis rtranclp_trans)
  qed
qed

text \<open>
  A closed adapter that is used again takes part in the session, and closing it again does nothing: the count of
  logins never falls to zero again unless the session is lost.
\<close>

lemma bs_attempt_closed:
  assumes "i < length (bw_members w)" and "bs_attempt api i query args w = (w', Inr x)"
  shows "bm_closed (member i w') = bm_closed (member i w)"
  using assms(2)
proof (cases rule: bs_attempt_cases)
  case (rows w1 s1 s2 a y)
  from rows(1) have "bm_closed (member i w1) = bm_closed (member i w)"
  proof (cases rule: ensure_login_cases)
    case (joined s m)
    with assms(1) show ?thesis by (simp add: join_session_def)
  qed simp_all
  with rows(5) show ?thesis by simp
qed simp_all

lemma closed_adapter_keeps_login:
  assumes "session_ok w" and "i < length (bw_members w)" and "bm_closed (member i w)"
    and "bs_attempt api i query args w = (w', Inr x)"
  shows "bs_close api i w' = w' \<and> 0 < bw_logins (bs_close api i w')"
proof -
  have c: "bs_close api i w' = w'" using bs_attempt_closed [OF assms(2,4)] assms(3) by (simp add: bs_close_def)
  from bs_attempt_ok [OF assms(1,2,4)] holds_pos [of i w'] show ?thesis
    unfolding c by (simp add: session_ok_def)
qed

end
