(* ===== verification/Src_BaoStock.thy ===== *)
theory Src_BaoStock
  imports Bao_Session
begin

text \<open>
  The BaoStock adapter (\<open>sources/baostock.py\<close>) over the session: its four endpoints, and how the factor events
  of a security become the rows of a window.
\<close>

subsection \<open>Factors\<close>

text \<open>
  Events are the moments at which the cumulative factor changes, in order.  \<open>_factors_frame\<close>: the events
  of the window, behind a row at its start with the factor in force there when no event falls on it.
\<close>

type_synonym factor_events = "(time \<times> rat) list"

definition factor_rows :: "time \<Rightarrow> time \<Rightarrow> factor_events \<Rightarrow> factor_events" where
  "factor_rows start end parsed =
     (let before = filter (\<lambda>(d, f). d < start) parsed;
          base = (if before = [] then 1 else snd (last before));
          window = filter (\<lambda>(d, f). start \<le> d \<and> d \<le> end) parsed
      in sort_key fst ((if window = [] \<or> fst (hd window) \<noteq> start then [(start, base)] else []) @ window))"

text \<open>The factor in force at a moment: that of the last event, and one before the first.\<close>

definition in_force :: "factor_events \<Rightarrow> time \<Rightarrow> rat" where
  "in_force events t = (let past = filter (\<lambda>(d, f). d \<le> t) events in if past = [] then 1 else snd (last past))"

subsection \<open>Calls\<close>

fun ADJUST_FLAGS :: "string option \<Rightarrow> string option" where
  "ADJUST_FLAGS adjust =
     (if adjust = None then Some ''3'' else if adjust = Some ''qfq'' then Some ''2''
      else if adjust = Some ''hfq'' then Some ''1'' else None)"

definition BARS_FIELDS :: string where "BARS_FIELDS = ''date,code,open,high,low,close,volume,amount''"

definition FACTOR_LOOKBACK_START :: string where "FACTOR_LOOKBACK_START = ''1990-01-01''"

text \<open>The arguments are evaluated inside the measured call.\<close>

definition bs_call :: "'s bs_api \<Rightarrow> int \<Rightarrow> nat \<Rightarrow> 's bs_world call_clock \<Rightarrow> string \<Rightarrow> api_args result \<Rightarrow> ('s bs_world hub_env, bs_rows) step" where
  "bs_call api attempts i clock query args =
     measured clock BAOSTOCK query (and_then (of_result args) (\<lambda>a. on_world (bs_query api attempts i query a)))"

definition bs_code_arg :: "sec_code \<Rightarrow> (string \<times> api_arg) result" where
  "bs_code_arg c = map_sum id (\<lambda>t. (''code'', ArgText t)) (to_source (mapper_of BAOSTOCK) c None)"

definition bs_day_arg :: "string \<Rightarrow> string \<Rightarrow> (string \<times> api_arg) result" where
  "bs_day_arg name day = map_sum id (\<lambda>t. (name, ArgText t)) (iso_date day)"

definition frame_of :: "('f, 'c) tables \<Rightarrow> bs_rows \<Rightarrow> 'f" where
  "frame_of T answer = tb_of_rows T (fst answer) (snd answer)"

subsection \<open>Endpoints\<close>

definition bs_fetch_bars ::
  "('f, 'c) pandas \<Rightarrow> ('f, 'c) tables \<Rightarrow> 's bs_api \<Rightarrow> int \<Rightarrow> nat \<Rightarrow> 's bs_world call_clock \<Rightarrow> sec_code list \<Rightarrow> string \<Rightarrow> string
    \<Rightarrow> string \<Rightarrow> string option \<Rightarrow> string list option \<Rightarrow> ('s bs_world hub_env, 'f) step" where
  "bs_fetch_bars P T api attempts i clock codes start end freq adjust wanted =
     (if freq \<notin> {''1d'', ''d'', ''D''} then throw UnsupportedCapability
      else case ADJUST_FLAGS adjust of
        None \<Rightarrow> throw ValueError
      | Some flag \<Rightarrow>
          (case codes of
             [code] \<Rightarrow>
               and_then (bs_call api attempts i clock ''query_history_k_data_plus''
                   (results [bs_code_arg code, Inr (''fields'', ArgText BARS_FIELDS), bs_day_arg ''start_date'' start, bs_day_arg ''end_date'' end,
                             Inr (''frequency'', ArgText ''d''), Inr (''adjustflag'', ArgText flag)])) (\<lambda>answer.
                 if fst answer = [] then give (empty_bars T)
                 else and_then (of_result (normalize P T None (Some (canonical code)) baostock_bars_spec (frame_of T answer))) (\<lambda>df.
                        give (pd_sort_values P [''date''] df)))
           | _ \<Rightarrow> throw UnsupportedCapability))"

definition bs_stock_list :: "('f, 'c) pandas \<Rightarrow> ('f, 'c) tables \<Rightarrow> 'f \<Rightarrow> 'f result" where
  "bs_stock_list P T raw =
     bind_result (need_column P raw ''code'') (\<lambda>column.
     bind_result (results (map (\<lambda>t. map_sum id canonical (from_source (mapper_of BAOSTOCK) t None)) (tb_read_texts T column))) (\<lambda>codes.
     bind_result (need_column P raw ''code_name'') (\<lambda>names.
     bind_result (need_column P raw ''ipoDate'') (\<lambda>days.
       Inr (tb_make T
         [(''code'', tb_texts T codes), (''name'', names), (''list_date'', tb_coerce_dates T None days),
          (''market'', tb_texts T (map (\<lambda>t. case rpartition (CHR ''.'') t of Some (s, v) \<Rightarrow> v | None \<Rightarrow> []) codes)),
          (''industry'', pd_na P raw)])))))"

definition bs_fetch_reference ::
  "('f, 'c) pandas \<Rightarrow> ('f, 'c) tables \<Rightarrow> 's bs_api \<Rightarrow> int \<Rightarrow> nat \<Rightarrow> 's bs_world call_clock \<Rightarrow> string \<Rightarrow> ('s bs_world hub_env, 'f) step" where
  "bs_fetch_reference P T api attempts i clock kind =
     (if kind \<noteq> ''stock_list'' then throw UnsupportedCapability
      else and_then (bs_call api attempts i clock ''query_stock_basic'' (Inr [])) (\<lambda>answer.
             if fst answer = [] then give (tb_empty T [''code'', ''name'', ''list_date'', ''market'', ''industry''])
             else of_result (bs_stock_list P T (frame_of T answer))))"

definition bs_parsed_events :: "('f, 'c) pandas \<Rightarrow> ('f, 'c) tables \<Rightarrow> bs_rows \<Rightarrow> factor_events result" where
  "bs_parsed_events P T answer =
     (if fst answer = [] then Inr []
      else map_sum id (\<lambda>df. tb_events T (tb_keep_last T [''date''] (pd_dropna P [''date'', ''adj_factor''] (pd_sort_values P [''date''] df))))
             (normalize P T None None baostock_adjust_factors_spec (frame_of T answer)))"

definition bs_fetch_adjust_factors ::
  "('f, 'c) pandas \<Rightarrow> ('f, 'c) tables \<Rightarrow> 's bs_api \<Rightarrow> int \<Rightarrow> nat \<Rightarrow> 's bs_world call_clock \<Rightarrow> sec_code list \<Rightarrow> string \<Rightarrow> string
    \<Rightarrow> ('s bs_world hub_env, 'f) step" where
  "bs_fetch_adjust_factors P T api attempts i clock codes start end =
     (case codes of
        [code] \<Rightarrow>
          if sc_type code \<noteq> STOCK then throw UnsupportedCapability
          else and_then (bs_call api attempts i clock ''query_adjust_factor''
                 (results [bs_code_arg code, Inr (''start_date'', ArgText FACTOR_LOOKBACK_START), bs_day_arg ''end_date'' end])) (\<lambda>answer.
               and_then (of_result (bs_parsed_events P T answer)) (\<lambda>parsed.
               and_then (of_result (iso_date start)) (\<lambda>a.
               and_then (of_result (iso_date end)) (\<lambda>b.
               and_then (of_result (tb_timestamp T a)) (\<lambda>s.
               and_then (of_result (tb_timestamp T b)) (\<lambda>t.
                 give (tb_of_events T (canonical code) (factor_rows s t parsed))))))))
      | _ \<Rightarrow> throw UnsupportedCapability)"

definition bs_fetch_trade_calendar ::
  "('f, 'c) pandas \<Rightarrow> ('f, 'c) tables \<Rightarrow> 's bs_api \<Rightarrow> int \<Rightarrow> nat \<Rightarrow> 's bs_world call_clock \<Rightarrow> string \<Rightarrow> string
    \<Rightarrow> ('s bs_world hub_env, 'f) step" where
  "bs_fetch_trade_calendar P T api attempts i clock start end =
     and_then (bs_call api attempts i clock ''query_trade_dates'' (results [bs_day_arg ''start_date'' start, bs_day_arg ''end_date'' end])) (\<lambda>answer.
       if fst answer = [] then give (tb_empty T [''date'', ''is_open''])
       else and_then (of_result (normalize P T None None baostock_trade_calendar_spec (frame_of T answer))) (\<lambda>df.
              give (pd_sort_values P [''date''] df)))"

definition BAOSTOCK_CAPABILITIES :: "capability list" where
  "BAOSTOCK_CAPABILITIES = [BARS, REFERENCE, TRADE_CALENDAR, ADJUST_FACTORS]"

definition baostock_adapter ::
  "('f, 'c) pandas \<Rightarrow> ('f, 'c) tables \<Rightarrow> 's bs_api \<Rightarrow> int \<Rightarrow> nat \<Rightarrow> 's bs_world call_clock \<Rightarrow> ('s bs_world, 'f) adapter" where
  "baostock_adapter P T api attempts i clock =
     (base_adapter BAOSTOCK BAOSTOCK_CAPABILITIES)
       \<lparr>fetch_bars := bs_fetch_bars P T api attempts i clock,
        fetch_reference := bs_fetch_reference P T api attempts i clock,
        fetch_trade_calendar := bs_fetch_trade_calendar P T api attempts i clock,
        fetch_adjust_factors := bs_fetch_adjust_factors P T api attempts i clock\<rparr>"

text \<open>The constructor: the new adapter is the next member of the session.\<close>

definition new_baostock ::
  "('f, 'c) pandas \<Rightarrow> ('f, 'c) tables \<Rightarrow> 's bs_api \<Rightarrow> int \<Rightarrow> 's bs_world call_clock \<Rightarrow> 's bs_world
    \<Rightarrow> 's bs_world \<times> ('s bs_world, 'f) adapter" where
  "new_baostock P T api attempts clock w = (new_member w, baostock_adapter P T api attempts (length (bw_members w)) clock)"

subsection \<open>Lemmas\<close>

lemma sorted_filter_fst: "sorted (map fst xs) \<Longrightarrow> sorted (map fst (filter P xs))"
  by (rule sorted_filter)

lemma factor_rows_sorted_list:
  assumes "sorted (map fst parsed)"
  shows "factor_rows start end parsed =
    (let before = filter (\<lambda>(d, f). d < start) parsed;
         base = (if before = [] then 1 else snd (last before));
         window = filter (\<lambda>(d, f). start \<le> d \<and> d \<le> end) parsed
     in (if window = [] \<or> fst (hd window) \<noteq> start then [(start, base)] else []) @ window)"
proof -
  let ?w = "filter (\<lambda>(d, f). start \<le> d \<and> d \<le> end) parsed"
  have s: "sorted (map fst ?w)" by (rule sorted_filter_fst [OF assms])
  have one: "sorted (map fst ((start, b) # ?w))" for b :: rat using s by auto
  show ?thesis unfolding factor_rows_def Let_def using sort_key_id_if_sorted [OF one] sort_key_id_if_sorted [OF s] by auto
qed

text \<open>Events in order split at the start of the window.\<close>

lemma events_split:
  fixes parsed :: factor_events
  assumes "sorted (map fst parsed)"
  shows "parsed = filter (\<lambda>(d, f). d < start) parsed @ filter (\<lambda>(d, f). start \<le> d) parsed"
  using assms
proof (induction parsed)
  case (Cons x parsed)
  obtain d f where x: "x = (d, f)" by (cases x)
  show ?case
  proof (cases "d < start")
    case True
    with Cons x show ?thesis by simp
  next
    case False
    with Cons.prems x have "filter (\<lambda>(d, f). d < start) parsed = []" by (auto simp: filter_empty_conv)
    moreover from this Cons have "parsed = filter (\<lambda>(d, f). start \<le> d) parsed" by simp
    ultimately show ?thesis using False x by simp
  qed
qed simp

lemma in_force_append:
  "in_force (xs @ ys) t = (if \<exists>(d, f) \<in> set ys. d \<le> t then in_force ys t else in_force xs t)"
  by (auto simp: in_force_def Let_def filter_empty_conv)

text \<open>Inside the window the rows give the factor that the whole history of events gives.\<close>

lemma factor_rows_in_force:
  assumes "sorted (map fst parsed)" and "start \<le> t" and "t \<le> end"
  shows "in_force (factor_rows start end parsed) t = in_force parsed t"
proof -
  let ?before = "filter (\<lambda>(d, f). d < start) parsed"
  let ?rest = "filter (\<lambda>(d, f). start \<le> d) parsed"
  let ?window = "filter (\<lambda>(d, f). start \<le> d \<and> d \<le> end) parsed"
  let ?base = "if ?before = [] then 1 else snd (last ?before)"
  let ?head = "if ?window = [] \<or> fst (hd ?window) \<noteq> start then [(start, ?base)] else []"
  have w: "in_force ?window t = in_force ?rest t"
  proof -
    have "filter (\<lambda>(d, f). d \<le> t) ?window = filter (\<lambda>(d, f). d \<le> t) ?rest"
      using assms(3) by (auto simp: filter_eq_Cons_iff intro!: filter_cong)
    then show ?thesis by (simp add: in_force_def)
  qed
  have any: "(\<exists>(d, f) \<in> set ?window. d \<le> t) = (\<exists>(d, f) \<in> set ?rest. d \<le> t)" using assms(3) by fastforce
  have b: "in_force ?before t = ?base"
  proof -
    have "filter (\<lambda>(d, f). d \<le> t) ?before = ?before" unfolding filter_filter using assms(2) by (intro filter_cong) auto
    then show ?thesis by (simp add: in_force_def)
  qed
  have p: "in_force parsed t = (if \<exists>(d, f) \<in> set ?rest. d \<le> t then in_force ?rest t else ?base)"
  proof -
    have "in_force parsed t = in_force (?before @ ?rest) t" using events_split [OF assms(1), of start] by simp
    then show ?thesis unfolding in_force_append b .
  qed
  have h: "in_force (?head @ ?window) t = (if \<exists>(d, f) \<in> set ?window. d \<le> t then in_force ?window t else in_force ?head t)"
    by (rule in_force_append)
  have hb: "in_force ?head t = ?base" if "\<not> (\<exists>(d, f) \<in> set ?window. d \<le> t)"
  proof -
    have "?window = [] \<or> fst (hd ?window) \<noteq> start"
    proof (rule ccontr)
      assume "\<not> ?thesis"
      then have "hd ?window \<in> set ?window" and f: "fst (hd ?window) = start" using hd_in_set by blast+
      with that have "\<not> fst (hd ?window) \<le> t" by (metis (no_types, lifting) case_prod_beta)
      with f assms(2) show False by simp
    qed
    then show ?thesis using assms(2) by (simp add: in_force_def)
  qed
  have r: "factor_rows start end parsed = ?head @ ?window"
    using factor_rows_sorted_list [OF assms(1)] by (simp only: Let_def)
  show ?thesis
  proof (cases "\<exists>(d, f) \<in> set ?rest. d \<le> t")
    case True
    then show ?thesis unfolding r h p any by (simp only: w if_True)
  next
    case False
    then have none: "\<not> (\<exists>(d, f) \<in> set ?window. d \<le> t)" unfolding any .
    show ?thesis unfolding r h p if_not_P [OF none] if_not_P [OF False] by (rule hb [OF none])
  qed
qed

lemma factor_rows_window:
  assumes "sorted (map fst parsed)" and "(d, f) \<in> set (factor_rows start end parsed)" and "start \<le> end"
  shows "start \<le> d \<and> d \<le> end"
  using assms(2,3) by (auto simp: factor_rows_sorted_list [OF assms(1)] Let_def split: if_splits)

lemma factor_rows_start:
  assumes "sorted (map fst parsed)"
  shows "factor_rows start end parsed \<noteq> [] \<and> fst (hd (factor_rows start end parsed)) = start"
  by (simp add: factor_rows_sorted_list [OF assms] Let_def)

text \<open>An adapter asked for several codes, or for a frequency or an adjustment it does not have, makes no call.\<close>

lemma bs_bars_refused:
  assumes "freq \<notin> {''1d'', ''d'', ''D''} \<or> adjust \<notin> {None, Some ''qfq'', Some ''hfq''} \<or> length codes \<noteq> 1"
  shows "\<exists>err. bs_fetch_bars P T api attempts i clock codes start end freq adjust wanted e = (e, Inl err)"
proof -
  have "ADJUST_FLAGS adjust = None \<longleftrightarrow> adjust \<notin> {None, Some ''qfq'', Some ''hfq''}" by auto
  with assms show ?thesis
    by (cases "ADJUST_FLAGS adjust"; cases codes rule: remdups_adj.cases)
      (auto simp: bs_fetch_bars_def simp del: ADJUST_FLAGS.simps)
qed

end
