(* ===== verification/Source_Properties.thy ===== *)
theory Source_Properties
  imports Src_Tushare Src_BaoStock Facade_Demo
begin

text \<open>The properties of the adapters, and the small clients on which their theorems are applied.\<close>

text \<open>C37. The shared BaoStock session is sound in every interleaving of any number of adapters that open, query, pause between attempts and close: the module's count of logins is the number of adapters that hold the login of the current generation; while one of them holds it the server knows the session (a lost connection invalidates it for all); and closing one adapter neither logs out nor takes the login from another that holds it.\<close>

theorem baostock_session_sound:
  assumes "(bs_step api)\<^sup>*\<^sup>* (bs_start s) w" and "sdk_ok api up"
  shows "bw_logins w = int (holders w) \<and> (0 < holders w \<longrightarrow> up (bw_sdk w))
    \<and> (\<forall>i < length (bw_members w). \<forall>j < length (bw_members w). j \<noteq> i \<longrightarrow> holds w (member j w)
         \<longrightarrow> bw_sdk (bs_close api i w) = bw_sdk w \<and> holds (bs_close api i w) (member j (bs_close api i w)))"
  using bs_reachable_ok [OF assms(1)] bs_reachable_up [OF assms] bs_close_keeps_session [where api = api and w = w]
  by (simp add: session_ok_def session_up_def)

definition demo_sdk :: "bool bs_api" where
  "demo_sdk =
     \<lparr>bx_login = (\<lambda>s. (True, Inr (''0'', []))), bx_logout = (\<lambda>s. (False, Inr ())),
      bx_call = (\<lambda>query args s. (s, Inr \<lparr>an_code = ''0'', an_message = [], an_fields = [''date'']\<rparr>)),
      bx_read = (\<lambda>a s. (s, Inr [[''2024-01-02'']])), bx_sleep = (\<lambda>d s. s)\<rparr>"

definition demo_session :: "bool bs_world" where
  "demo_session = fst (bs_attempt demo_sdk 1 ''q'' [] (fst (bs_attempt demo_sdk 0 ''q'' [] (new_member (new_member (bs_start False))))))"

lemma demo_session_reached: "(bs_step demo_sdk)\<^sup>*\<^sup>* (bs_start False) demo_session"
proof -
  let ?w = "new_member (new_member (bs_start False)) :: bool bs_world"
  let ?v = "fst (bs_attempt demo_sdk 0 ''q'' [] ?w)"
  have "(bs_step demo_sdk)\<^sup>*\<^sup>* (bs_start False) ?w"
    by (rule rtranclp.rtrancl_into_rtrancl [OF r_into_rtranclp]) (rule bs_step.open_one)+
  moreover have "bs_step demo_sdk ?w ?v"
    by (rule bs_step.attempt [OF _ prod.collapse [symmetric]]) (simp add: new_member_def bs_start_def)
  moreover have "bs_step demo_sdk ?v demo_session" unfolding demo_session_def
    by (rule bs_step.attempt [OF _ prod.collapse [symmetric]]) code_simp
  ultimately show ?thesis by (metis rtranclp.rtrancl_into_rtrancl)
qed

lemma demo_sdk_ok: "sdk_ok demo_sdk (\<lambda>s. s)"
  by (auto simp: sdk_ok_def demo_sdk_def)

theorem baostock_session_sound_witness: "holders demo_session = 2 \<and> bw_logins demo_session = 2 \<and> bw_sdk demo_session"
proof -
  have "holders demo_session = 2" by code_simp
  with baostock_session_sound [OF demo_session_reached demo_sdk_ok] show ?thesis by simp
qed

text \<open>C39. An event query of Tushare, for an endpoint that serves slices of a list of rows by limit and
  offset, pages through it in order: the frame it answers holds the first 50,000 of the rows, so all
  of them when there are at most 50 pages of 1,000 and otherwise fewer, without an error, although
  the method is documented to fetch everything.  Whatever limiter is bound and whatever callback the
  budget has, it fails only with what these two raise: a refused token or a timeout of the limiter
  (or it is still waiting), or the error of a callback.\<close>

theorem event_query_first_rows:
  assumes "frame_rows P T rows" and "ts_serves api endpoint (\<lambda>offset. page_args EVENT_PAGE_SIZE offset @ args) rows rs EVENT_PAGE_SIZE"
    and "paged_query P T api clock endpoint args e = (e', r)"
  shows "case r of
      Inr df \<Rightarrow> rows df = take 50000 rs
    | Inl err \<Rightarrow> map_of (he_limiters e) TUSHARE \<noteq> None \<and> err \<in> {ValueError, RateLimitTimeout, OtherError ''StillWaiting'' endpoint}
        \<or> (\<exists>f alert. bc_on_alert (ul_budget (he_usage e)) = Some f \<and> f alert = Inl err)"
  using paged_query_slices [OF assms] by (cases r) (simp_all add: MAX_PAGES_def EVENT_PAGE_SIZE_def stopped_def)

definition demo_tables :: "(string list, unit) tables" where
  "demo_tables =
     \<lparr>tb_length = length, tb_make = (\<lambda>cs. map fst cs), tb_of_rows = (\<lambda>rows cs. cs), tb_empty = (\<lambda>cs. cs),
      tb_insert_first = (\<lambda>c x df. c # df), tb_text = (\<lambda>t df. ()), tb_texts = (\<lambda>ts. ()), tb_opt_texts = (\<lambda>ts. ()),
      tb_read_texts = (\<lambda>x. []), tb_as_text = (\<lambda>x. x), tb_map_text = (\<lambda>f x. Inr x), tb_parse_dates = (\<lambda>f x. Inr x),
      tb_coerce_dates = (\<lambda>f x. x), tb_ms_to_date = Inr, tb_as_datetime = (\<lambda>x. x), tb_to_numeric = (\<lambda>x. x), tb_to_int = (\<lambda>x. x),
      tb_scale = (\<lambda>q x. x), tb_nonzero = (\<lambda>x. x), tb_lower_in = (\<lambda>ts x. x), tb_or = (\<lambda>x y. x), tb_pct_change = (\<lambda>a b df. ()),
      tb_keep_in = (\<lambda>c ts df. df), tb_keep_last = (\<lambda>cs df. df), tb_from_date = (\<lambda>c d df. df), tb_until_date = (\<lambda>c d df. df),
      tb_timestamp = (\<lambda>t. Inr 0), tb_events = (\<lambda>df. []), tb_of_events = (\<lambda>t es. [t]), tb_days = (\<lambda>f x. Inr []), tb_calendar = (\<lambda>ds. [])\<rparr>"

text \<open>Frames of which the rows are kept, and a client that serves 50,001 of them.\<close>

definition row_pandas :: "(string list, unit) pandas" where
  "row_pandas = demo_pandas\<lparr>pd_concat := concat\<rparr>"

definition demo_offset :: "api_args \<Rightarrow> nat" where
  "demo_offset args = (case map_of args ''offset'' of Some (ArgInt n) \<Rightarrow> nat n | _ \<Rightarrow> 0)"

definition demo_rows :: "string list" where
  "demo_rows = replicate 50001 ''row''"

definition demo_ts_api :: "(unit, string list) ts_api" where
  "demo_ts_api = \<lparr>ta_has = (\<lambda>endpoint. True), ta_call = (\<lambda>endpoint args w. (w, Inr (Some (take 1000 (drop (demo_offset args) demo_rows)))))\<rparr>"

text \<open>The limiter the adapter installs, and a clock that reads a second more at every call: a token is there.\<close>

definition demo_limit :: limiter where
  "demo_limit = \<lparr>lm_rate = 2, lm_capacity = 2, lm_tokens = 2, lm_updated = 0\<rparr>"

lemma demo_limit_default:
  "default_rate_limiter_set ''tushare'' 0 = Inr \<lparr>ls_default = demo_limit, ls_endpoints = [], ls_timeout = Some 30\<rparr>"
  using Source_value [of TUSHARE] by (simp add: default_rate_limiter_set_def new_limiter_def demo_limit_def Let_def)

definition demo_clock :: "unit call_clock" where
  "demo_clock e = (let t = (case map_of (he_limiters e) TUSHARE of Some s \<Rightarrow> lm_updated (ls_default s) + 1 | None \<Rightarrow> 0)
     in \<lparr>ct_start = t, ct_rounds = [(t, t, \<lambda>l. l)], ct_now = 0, ct_latency = 0\<rparr>)"

definition demo_env :: "unit hub_env" where
  "demo_env = \<lparr>he_usage = new_ledger demo_budget 1000,
     he_limiters = [(TUSHARE, \<lparr>ls_default = demo_limit, ls_endpoints = [], ls_timeout = Some 30\<rparr>)], he_world = ()\<rparr>"

definition demo_admits :: "unit hub_env \<Rightarrow> bool" where
  "demo_admits e \<longleftrightarrow> bc_on_alert (ul_budget (he_usage e)) = None
     \<and> (\<exists>s. map_of (he_limiters e) TUSHARE = Some s \<and> ls_endpoints s = [] \<and> lm_rate (ls_default s) = 2
          \<and> lm_capacity (ls_default s) = 2 \<and> 0 \<le> lm_tokens (ls_default s))"

lemma demo_acquire:
  assumes "demo_admits e"
  shows "\<exists>e1. acquire_step demo_clock TUSHARE endpoint e = (e1, Inr ()) \<and> demo_admits e1"
proof -
  obtain s where s: "map_of (he_limiters e) TUSHARE = Some s" "ls_endpoints s = []" "lm_rate (ls_default s) = 2"
    "lm_capacity (ls_default s) = 2" "0 \<le> lm_tokens (ls_default s)" and b: "bc_on_alert (ul_budget (he_usage e)) = None"
    using assms unfolding demo_admits_def by blast
  let ?l = "ls_default s"
  let ?l' = "?l\<lparr>lm_tokens := min 2 (lm_tokens ?l + 2) - 1, lm_updated := lm_updated ?l + 1\<rparr>"
  have "try_acquire 1 (lm_updated ?l + 1) ?l = (?l', True)" using s by (simp add: try_acquire_def refill_def Let_def)
  then have "acquire 1 (Some t) start [(lm_updated ?l + 1, again, others)] ?l = Some (?l', [], Inr ())"
    "acquire 1 None start [(lm_updated ?l + 1, again, others)] ?l = Some (?l', [], Inr ())" for t start again others
    using s by (simp_all add: acquire_def)
  then have "set_acquire (Some endpoint) 1 None start [(lm_updated ?l + 1, again, others)] s = Some (s\<lparr>ls_default := ?l'\<rparr>, [], Inr ())"
    for start again others
    using s by (cases "ls_timeout s") (simp_all add: set_acquire_def limiter_get_def limiter_put_def limiter_key_def)
  then have "acquire_step demo_clock TUSHARE endpoint e = (bind_rate_limits TUSHARE (s\<lparr>ls_default := ?l'\<rparr>) e, Inr ())"
    using s by (simp add: acquire_step_def adapter_acquire_def demo_clock_def Let_def)
  moreover have "demo_admits (bind_rate_limits TUSHARE (s\<lparr>ls_default := ?l'\<rparr>) e)"
    using s b by (simp add: demo_admits_def bind_rate_limits_def update_conv')
  ultimately show ?thesis by blast
qed

lemma demo_served:
  "serves demo_admits (\<lambda>df. df) demo_rows EVENT_PAGE_SIZE
     (\<lambda>offset. ts_query row_pandas demo_ts_api demo_clock ''suspend_d'' (page_args EVENT_PAGE_SIZE offset @ []))"
  unfolding serves_def
proof (intro allI impI)
  fix offset and e :: "unit hub_env"
  assume "demo_admits e"
  then obtain e1 where a: "acquire_step demo_clock TUSHARE ''suspend_d'' e = (e1, Inr ())" and i: "demo_admits e1"
    using demo_acquire by blast
  have "bc_on_alert (ul_budget (he_usage e1)) = None" using i by (simp add: demo_admits_def)
  from ledger_record_silent [OF this] obtain u x where
    u: "ledger_record (source_value TUSHARE) ''suspend_d'' 1 [] 0 0 (he_usage e1) = (u, Inr x)" by blast
  let ?page = "take EVENT_PAGE_SIZE (drop offset demo_rows)"
  have c: "ct_latency (demo_clock e2) = 0" "ct_now (demo_clock e2) = 0" for e2 by (simp_all add: demo_clock_def Let_def)
  have "ts_query row_pandas demo_ts_api demo_clock ''suspend_d'' (page_args EVENT_PAGE_SIZE offset @ []) e = (e1\<lparr>he_usage := u\<rparr>, Inr ?page)"
    using a u by (simp add: ts_query_def demo_ts_api_def measured_def recorded_def and_then_def on_world_def failing_as_def
      adapter_record_def c page_args_def demo_offset_def EVENT_PAGE_SIZE_def)
  moreover have "demo_admits (e1\<lparr>he_usage := u\<rparr>)" using i ledger_record_counts [OF u] by (simp add: demo_admits_def)
  ultimately show "\<exists>e1 page. ts_query row_pandas demo_ts_api demo_clock ''suspend_d'' (page_args EVENT_PAGE_SIZE offset @ []) e = (e1, Inr page)
      \<and> demo_admits e1 \<and> page = ?page" by blast
qed

theorem event_query_first_rows_witness:
  "map_of (he_limiters demo_env) TUSHARE \<noteq> None
    \<and> (\<exists>e' df. paged_query row_pandas demo_tables demo_ts_api demo_clock ''suspend_d'' [] demo_env = (e', Inr df) \<and> length df = 50000)"
proof -
  have r: "frame_rows row_pandas demo_tables (\<lambda>df. df)"
    by (simp add: frame_rows_def row_pandas_def demo_pandas_def demo_tables_def)
  have s: "ts_serves demo_ts_api ''suspend_d'' (\<lambda>offset. page_args EVENT_PAGE_SIZE offset @ []) (\<lambda>df. df) demo_rows EVENT_PAGE_SIZE"
    by (simp add: ts_serves_def demo_ts_api_def page_args_def demo_offset_def EVENT_PAGE_SIZE_def)
  have "demo_admits demo_env" by (simp add: demo_admits_def demo_env_def demo_limit_def new_ledger_def demo_budget_def)
  from paged_query_answers [OF r demo_served this] obtain e' df where
    q: "paged_query row_pandas demo_tables demo_ts_api demo_clock ''suspend_d'' [] demo_env = (e', Inr df)" by blast
  from event_query_first_rows [OF r s q] q show ?thesis by (auto simp: demo_rows_def demo_env_def)
qed

text \<open>C38. The factor rows BaoStock's adapter gives for a window say the same as the whole history of factor events: at every moment of the window the last row up to it carries the factor of the last event up to it (one before the first event), the first row stands at the start of the window, and no row lies outside.\<close>

theorem factor_window_faithful:
  assumes "sorted (map fst parsed)" and "start \<le> end"
  shows "(\<forall>t. start \<le> t \<and> t \<le> end \<longrightarrow> in_force (factor_rows start end parsed) t = in_force parsed t)
    \<and> factor_rows start end parsed \<noteq> [] \<and> fst (hd (factor_rows start end parsed)) = start
    \<and> (\<forall>(d, f) \<in> set (factor_rows start end parsed). start \<le> d \<and> d \<le> end)"
  using factor_rows_in_force [OF assms(1)] factor_rows_start [OF assms(1)] factor_rows_window [OF assms(1) _ assms(2)] by blast

theorem factor_window_faithful_witness:
  "factor_rows 10 20 [(5, 3 / 2), (15, 2), (30, 4)] = [(10, 3 / 2), (15, 2)]
    \<and> in_force (factor_rows 10 20 [(5, 3 / 2), (15, 2), (30, 4)]) 17 = in_force [(5, 3 / 2), (15, 2), (30, 4)] 17"
proof
  show "factor_rows 10 20 [(5, 3 / 2), (15, 2), (30, 4)] = [(10, 3 / 2), (15, 2)]" by code_simp
  show "in_force (factor_rows 10 20 [(5, 3 / 2), (15, 2), (30, 4)]) 17 = in_force [(5, 3 / 2), (15, 2), (30, 4)] 17"
    using factor_window_faithful [of "[(5, 3 / 2), (15, 2), (30, 4)]" 10 20] by simp
qed

end
