(* ===== verification/Spec2Isabelle.thy ===== *)
theory Spec2Isabelle
  imports Runtime_Properties Registry_Properties Registry_Universe Registry_Sql Cache_Properties Hub_Properties Ingest_Properties Dictionary_Properties Storage_Sql Facade_Schema Source_Properties
begin

text \<open>
  A verification library of \<^verbatim>\<open>fin-data-hub\<close>: the platform's job runtime, ingestion, data dictionary,
  storage, cache and entity registry, and the data hub with its facade, routing, sources and adapters, translated function by function from \<^verbatim>\<open>src/src/fin_data_platform\<close> and \<^verbatim>\<open>src/src/fin_data_hub\<close>.

  The program.  The platform synchronises market data.  Its runtime keeps jobs and their runs in a
  metadata repository (\<^verbatim>\<open>runtime/repository.py\<close>, once in memory and once on SQL): a scheduler turns due
  windows into intents, the dispatcher gates them and creates queued runs, worker threads claim runs, execute
  their tasks and record the outcome, and a finished task moves its watermark, from which the next window
  starts.  The entity registry (\<^verbatim>\<open>registry/\<close>) gives each traded thing an identity that survives changes of its
  code and name, as append-only versioned rows.  The data dictionary (\<^verbatim>\<open>dictionary/\<close>) describes the datasets
  and generates their tables (\<^verbatim>\<open>storage/\<close>); the daily-bar task writes versioned bars.  The hub
  (\<^verbatim>\<open>fin_data_hub\<close>) answers requests for market data: its facade routes a request to adapters of external
  sources, behind a cache, rate limits and a usage ledger, and brings every answer into one schema.

  Theories, in the order they build on each other:
  \<^item> \<^verbatim>\<open>Prelude\<close>: results with errors as values, dictionaries as association lists in insertion order,
    minima and maxima by a key, the string operations of Python the code uses.  \<^verbatim>\<open>PyDates\<close>: a date is its
    proleptic ordinal, a time its microseconds since day 0; ISO texts.
  \<^item> \<^verbatim>\<open>Runtime_Models\<close>, \<^verbatim>\<open>Runtime_Keys\<close>, \<^verbatim>\<open>Task_Registry\<close>: \<^verbatim>\<open>runtime/models.py\<close>, \<^verbatim>\<open>keys.py\<close> and
    \<^verbatim>\<open>registry.py\<close>; the depth-first search of the dependency check with its fuel proved enough.
  \<^item> \<^verbatim>\<open>Run_Table\<close>: what both repositories do to a run, the invariant of a table of runs and the
    abstract step relation of the table.  \<^verbatim>\<open>Meta_Memory\<close> and \<^verbatim>\<open>Meta_Sql\<close> are the two repositories of
    \<^verbatim>\<open>runtime/repository.py\<close>, the second with a simulation of the first for every operation;
    \<^verbatim>\<open>Pg_Claims\<close> splits \<^verbatim>\<open>claim_next\<close> into the steps of a PostgreSQL transaction and interleaves them.
  \<^item> \<^verbatim>\<open>Repo_Interface\<close>: the protocol \<^verbatim>\<open>MetaRepository\<close> as a record of operations and a locale of laws,
    interpreted by both repositories.  \<^verbatim>\<open>Runtime_Roles\<close> (\<^verbatim>\<open>roles.py\<close>), \<^verbatim>\<open>Runtime_App\<close> (\<^verbatim>\<open>app.py\<close>,
    \<^verbatim>\<open>triggers.py\<close>, \<^verbatim>\<open>windows.py\<close>, \<^verbatim>\<open>calendar.py\<close>, \<^verbatim>\<open>health.py\<close>) and \<^verbatim>\<open>Job_Triggers\<close>
    (\<^verbatim>\<open>ingestion/tasks.py\<close>, \<^verbatim>\<open>api/routers/jobs.py\<close>) are its clients and are proved inside the locale.
  \<^item> \<^verbatim>\<open>Runtime_Properties\<close>: what is claimed of the runtime.
  \<^item> \<^verbatim>\<open>Registry_Models\<close>, \<^verbatim>\<open>Registry_Service\<close>: the records, value parsing, vocabulary and repository of
    \<^verbatim>\<open>registry/\<close>, and every operation of \<^verbatim>\<open>EntityRegistry\<close> in \<^verbatim>\<open>registry/service.py\<close>.

    \<^verbatim>\<open>Registry_Lemmas\<close> proves that every operation keeps the registry's invariant,
    \<^verbatim>\<open>Registry_Properties\<close> what is claimed of it, with an abstract timeline of names that the rows refine.
  \<^item> \<^verbatim>\<open>Registry_Universe\<close>: \<^verbatim>\<open>registry/universe.py\<close>, with the ruling row of an entity as the reference.
    \<^verbatim>\<open>Registry_Sql\<close>: \<^verbatim>\<open>registry/store.py\<close> and \<^verbatim>\<open>registry/reader.py\<close> on tables as lists of rows.
  \<^item> \<^verbatim>\<open>Cache_Backend\<close>, \<^verbatim>\<open>Cache_Keys\<close>, \<^verbatim>\<open>Cache_Layered\<close>: the platform's cache (\<^verbatim>\<open>cache/backend.py\<close>,
    \<^verbatim>\<open>keys.py\<close>, \<^verbatim>\<open>layered.py\<close>, \<^verbatim>\<open>serialize.py\<close>).  \<^verbatim>\<open>Cache_Properties\<close> proves the in-process cache sound,
    and, over locales of what a backend promises that the in-process cache interprets, that the layered
    cache fails open, loads once and changes the keys of an invalidated domain.
  \<^item> \<^verbatim>\<open>Hub_Codes\<close> (\<^verbatim>\<open>codes.py\<close>, \<^verbatim>\<open>mapping.py\<close>, \<^verbatim>\<open>capabilities.py\<close>), \<^verbatim>\<open>Hub_RateLimit\<close>
    (\<^verbatim>\<open>ratelimit.py\<close>), \<^verbatim>\<open>Hub_Usage\<close> (\<^verbatim>\<open>usage.py\<close>), \<^verbatim>\<open>Hub_Cache\<close> and \<^verbatim>\<open>Hub_Flights\<close> (\<^verbatim>\<open>cache.py\<close>, its
    calls and the interleaving of its callers) model the data hub; \<^verbatim>\<open>Hub_Properties\<close> is what is claimed of it.

  \<^item> \<^verbatim>\<open>Daily_Bar\<close> (\<^verbatim>\<open>ingestion/daily_bar.py\<close>, \<^verbatim>\<open>storage/writers.py\<close>, \<^verbatim>\<open>storage/readers.py\<close>): the sync of one
    code, the append-only insert, the as-of and latest queries.  \<^verbatim>\<open>Ingest_Properties\<close>: a rerun writes nothing,
    versions are numbered without gaps, what was readable as of a moment stays so.
  \<^item> \<^verbatim>\<open>Dictionary\<close> and \<^verbatim>\<open>Dictionary_Lineage\<close> (\<^verbatim>\<open>dictionary/\<close>): the entries, every rule of the gate, the search
    for cycles in the lineage with its fuel proved enough, the catalog.  \<^verbatim>\<open>Storage_Schema\<close>
    (\<^verbatim>\<open>storage/schema.py\<close>, \<^verbatim>\<open>engine.py\<close>) builds the tables from them and \<^verbatim>\<open>Storage_Sql\<close> (\<^verbatim>\<open>grants.py\<close>,
    \<^verbatim>\<open>read_models.py\<close>, \<^verbatim>\<open>migrations.py\<close>) the statements.  \<^verbatim>\<open>Dictionary_Properties\<close>: what the gate accepts loads
    and builds.
  \<^item> \<^verbatim>\<open>Hub_Schemas\<close> (\<^verbatim>\<open>schemas.py\<close>), \<^verbatim>\<open>Hub_Routing\<close> (\<^verbatim>\<open>routing.py\<close>), \<^verbatim>\<open>Hub_Sources\<close> (\<^verbatim>\<open>sources/base.py\<close>,
    \<^verbatim>\<open>registry.py\<close>, \<^verbatim>\<open>factory.py\<close>, \<^verbatim>\<open>config.py\<close>) and \<^verbatim>\<open>Hub_Facade\<close> (\<^verbatim>\<open>facade.py\<close>): a call of an adapter is a
    step on the hub's environment (ledger, limiters, outside world) and a request a step on the hub.
    \<^verbatim>\<open>Facade_Properties\<close> and \<^verbatim>\<open>Facade_Schema\<close> state which source answers, what the cache serves and stores, and
    that every answer has its columns; \<^verbatim>\<open>Facade_Demo\<close> is the small hub on which these are applied.
  \<^item> \<^verbatim>\<open>Hub_Specs\<close> (\<^verbatim>\<open>specs/\<close>): the shipped response specifications and \<^verbatim>\<open>normalize\<close>.  \<^verbatim>\<open>Src_Calls\<close>: what the
    adapters share, measured calls, grouping and paging.  \<^verbatim>\<open>Src_Tushare\<close> (\<^verbatim>\<open>sources/tushare.py\<close>): every endpoint of
    the adapter.  \<^verbatim>\<open>Bao_Session\<close> and \<^verbatim>\<open>Src_BaoStock\<close> (\<^verbatim>\<open>sources/baostock.py\<close>): the login that all adapters of
    the process share, as a step relation over every interleaving of them, and the endpoints.
    \<^verbatim>\<open>Source_Properties\<close>: the session is sound, a window's factor rows say what the history says, an event
    query answers the first rows in order.

  Conventions.  An exception is the value \<open>Inl e\<close>; a call of \<^verbatim>\<open>utcnow\<close> is a parameter \<open>now\<close>, read once
  per operation.  Python's integers are \<open>int\<close>, its floats rationals.  The hash of the job key, the executors,
  the callbacks, the calendar's hub, the functions of pandas (the records \<open>pandas\<close> and \<open>tables\<close>), the clients
  of the sources and the readings of the clock during a call (\<open>call_times\<close>) are parameters.

  Fuel.  \<^verbatim>\<open>visit\<close> gets one unit per task and one more, and is proved to return; \<^verbatim>\<open>run_pending\<close> is proved to
  return when its fuel exceeds the attempts that are left in the table.  The loop of Tushare's
  \<^verbatim>\<open>industry_member\<close>, which the code does not bound, takes fuel: more than the number of full pages is proved
  enough (\<open>member_pages_rows\<close>), and \<open>StillPaging\<close> is the outcome when it is used up; \<open>StillWaiting\<close> is that of a
  limiter whose wait is longer than the clock readings given.

  Not modelled: APScheduler and its job store, cron expressions, starting and joining threads, logging, the
  lengths of SQL columns and \<^verbatim>\<open>updated_at\<close>; the adapters of AkShare, Fuyao, Wind and iFinD and the MCP client
  (HTTP envelopes, and tables parsed out of free text into pandas frames), the configuration read from the
  environment and the wiring of the processes, the read endpoints of the API, which copy rows into responses,
  and the database report.
\<close>

end
